(* ===== verification/Prelude.thy ===== *)
theory Prelude imports Main begin

text \<open>
  The lemmas the component theories share: reading a list from its end, inserting and cutting
  by position, ordered maps kept as partial functions on positions, and folds of a transition
  function over a list of events. Positions are natural numbers; a read that Rust makes with
  \<open>Vec::get\<close> is an option here, and a read the code only makes in range is \<open>xs ! i\<close>.
\<close>

named_theorems block_simps "equations of the projections of a block"
named_theorems log_defs "definitions of the operations of the transcript log"

section \<open>Reading by position\<close>

definition get_at :: "'a list \<Rightarrow> nat \<Rightarrow> 'a option" where
  "get_at xs i = (if i < length xs then Some (xs ! i) else None)"

lemma get_at_Some [simp]: "(get_at xs i = Some x) = (i < length xs \<and> xs ! i = x)"
  by (auto simp: get_at_def)

lemma get_at_None [simp]: "(get_at xs i = None) = (length xs \<le> i)"
  by (auto simp: get_at_def)

lemma get_at_append: "get_at (xs @ ys) i = (if i < length xs then get_at xs i else get_at ys (i - length xs))"
  by (auto simp: get_at_def nth_append)

text \<open>\<open>Iterator::position\<close> and \<open>rposition\<close>: the first and the last place a predicate holds.\<close>

fun position :: "('a \<Rightarrow> bool) \<Rightarrow> 'a list \<Rightarrow> nat option" where
  "position P [] = None"
| "position P (x # xs) = (if P x then Some 0 else map_option Suc (position P xs))"

fun rposition :: "('a \<Rightarrow> bool) \<Rightarrow> 'a list \<Rightarrow> nat option" where
  "rposition P [] = None"
| "rposition P (x # xs) =
     (case rposition P xs of Some i \<Rightarrow> Some (Suc i) | None \<Rightarrow> if P x then Some 0 else None)"

lemma position_None: "(position P xs = None) = (\<forall>x\<in>set xs. \<not> P x)"
  by (induction xs) auto

lemma rposition_None: "(rposition P xs = None) = (\<forall>x\<in>set xs. \<not> P x)"
  by (induction xs) (auto split: option.splits)

lemma position_Some:
  "(position P xs = Some i) = (i < length xs \<and> P (xs ! i) \<and> (\<forall>j<i. \<not> P (xs ! j)))"
proof (induction xs arbitrary: i)
  case Nil
  show ?case by simp
next
  case (Cons x xs)
  show ?case
    by (cases i) (auto simp: Cons.IH All_less_Suc2)
qed

lemma position_take:
  "case position P xs of Some i \<Rightarrow> i < length xs \<and> P (xs ! i) \<and> (\<forall>x\<in>set (take i xs). \<not> P x)
   | None \<Rightarrow> \<forall>x\<in>set xs. \<not> P x"
  by (induction xs) (auto split: option.splits)

lemma rposition_snoc:
  "rposition P (xs @ [x]) = (if P x then Some (length xs) else rposition P xs)"
  by (induction xs) (auto split: option.splits)

lemma rposition_Some:
  "(rposition P xs = Some i) =
     (i < length xs \<and> P (xs ! i) \<and> (\<forall>j. i < j \<and> j < length xs \<longrightarrow> \<not> P (xs ! j)))"
proof (induction xs rule: rev_induct)
  case Nil
  show ?case by simp
next
  case (snoc x xs)
  show ?case
  proof (cases "P x")
    case True
    then show ?thesis
      by (auto simp: rposition_snoc nth_append not_less_eq less_Suc_eq)
  next
    case False
    then show ?thesis
      by (auto simp: rposition_snoc snoc.IH nth_append less_Suc_eq)
  qed
qed

lemma rposition_less: "rposition P xs = Some i \<Longrightarrow> i < length xs"
  by (simp add: rposition_Some)

lemma rposition_holds: "rposition P xs = Some i \<Longrightarrow> P (xs ! i)"
  by (simp add: rposition_Some)

lemma rposition_append:
  "rposition P (xs @ ys) =
     (case rposition P ys of Some i \<Rightarrow> Some (length xs + i) | None \<Rightarrow> rposition P xs)"
  by (induction xs) (auto split: option.splits)

lemma position_append:
  "\<forall>x\<in>set xs. \<not> P x \<Longrightarrow> position P (xs @ ys) = map_option ((+) (length xs)) (position P ys)"
  by (induction xs) (cases "position P ys"; simp)+

text \<open>\<open>iter().rev().find(..)\<close> and \<open>find_map\<close> from either end.\<close>

fun find_map :: "('a \<Rightarrow> 'b option) \<Rightarrow> 'a list \<Rightarrow> 'b option" where
  "find_map f [] = None"
| "find_map f (x # xs) = (case f x of Some y \<Rightarrow> Some y | None \<Rightarrow> find_map f xs)"

definition rfind_map :: "('a \<Rightarrow> 'b option) \<Rightarrow> 'a list \<Rightarrow> 'b option" where
  "rfind_map f xs = find_map f (rev xs)"

definition rfind :: "('a \<Rightarrow> bool) \<Rightarrow> 'a list \<Rightarrow> 'a option" where
  "rfind P xs = rfind_map (\<lambda>x. if P x then Some x else None) xs"

lemma find_map_append:
  "find_map f (xs @ ys) = (case find_map f xs of Some y \<Rightarrow> Some y | None \<Rightarrow> find_map f ys)"
  by (induction xs) (auto split: option.splits)

lemma find_map_None: "(find_map f xs = None) = (\<forall>x\<in>set xs. f x = None)"
  by (induction xs) (auto split: option.splits)

lemma find_map_SomeD: "find_map f xs = Some y \<Longrightarrow> \<exists>x\<in>set xs. f x = Some y"
  by (induction xs) (auto split: option.splits)

lemma rfind_map_Nil [simp]: "rfind_map f [] = None"
  by (simp add: rfind_map_def)

lemma rfind_map_snoc [simp]:
  "rfind_map f (xs @ [x]) = (case f x of Some y \<Rightarrow> Some y | None \<Rightarrow> rfind_map f xs)"
  by (simp add: rfind_map_def split: option.splits)

lemma rfind_map_append:
  "rfind_map f (xs @ ys) = (case rfind_map f ys of Some y \<Rightarrow> Some y | None \<Rightarrow> rfind_map f xs)"
  by (simp add: rfind_map_def find_map_append split: option.splits)

lemma rfind_map_None: "(rfind_map f xs = None) = (\<forall>x\<in>set xs. f x = None)"
  by (simp add: rfind_map_def find_map_None)

lemma rfind_map_SomeD: "rfind_map f xs = Some y \<Longrightarrow> \<exists>x\<in>set xs. f x = Some y"
  using find_map_SomeD [of f "rev xs" y] by (simp add: rfind_map_def)

lemma rfind_Nil [simp]: "rfind P [] = None"
  by (simp add: rfind_def)

lemma rfind_snoc [simp]: "rfind P (xs @ [x]) = (if P x then Some x else rfind P xs)"
  by (simp add: rfind_def)

lemma rfind_append: "rfind P (xs @ ys) = (case rfind P ys of Some y \<Rightarrow> Some y | None \<Rightarrow> rfind P xs)"
  by (simp add: rfind_def rfind_map_append split: option.splits)

lemma rfind_None: "(rfind P xs = None) = (\<forall>x\<in>set xs. \<not> P x)"
  by (auto simp: rfind_def rfind_map_None split: if_splits)

lemma rfind_SomeD: "rfind P xs = Some x \<Longrightarrow> x \<in> set xs \<and> P x"
  by (auto simp: rfind_def dest!: rfind_map_SomeD split: if_splits)

lemma rfind_rposition: "rfind P xs = map_option ((!) xs) (rposition P xs)"
proof (induction xs rule: rev_induct)
  case Nil
  show ?case by simp
next
  case (snoc x xs)
  then show ?case
    by (auto simp: rposition_snoc nth_append map_option_case dest: rposition_less split: option.splits)
qed

section \<open>Inserting and cutting\<close>

definition insert_at :: "nat \<Rightarrow> 'a \<Rightarrow> 'a list \<Rightarrow> 'a list" where
  "insert_at i x xs = take i xs @ x # drop i xs"

lemma insert_at_length [simp]: "length (insert_at i x xs) = Suc (length xs)"
  by (simp add: insert_at_def)

lemma insert_at_end [simp]: "insert_at (length xs) x xs = xs @ [x]"
  by (simp add: insert_at_def)

lemma nth_insert_at:
  "i \<le> length xs \<Longrightarrow> j \<le> length xs \<Longrightarrow>
     insert_at i x xs ! j = (if j < i then xs ! j else if j = i then x else xs ! (j - 1))"
  by (auto simp: insert_at_def nth_append min_def nth_Cons' le_diff_conv)

lemma map_insert_at: "map f (insert_at i x xs) = insert_at i (f x) (map f xs)"
  by (simp add: insert_at_def take_map drop_map)

lemma set_insert_at [simp]: "set (insert_at i x xs) = insert x (set xs)"
  by (metis append_take_drop_id insert_at_def list.simps(15) set_append Un_insert_right)

section \<open>Ordered maps on positions\<close>

text \<open>
  The code keeps small facts by position in a \<open>BTreeMap<usize, _>\<close>. The model is a partial
  function; \<open>split_off(k)\<close> leaves the entries below \<open>k\<close> and answers those from \<open>k\<close> on.
\<close>

definition map_below :: "nat \<Rightarrow> (nat \<rightharpoonup> 'v) \<Rightarrow> (nat \<rightharpoonup> 'v)" where
  "map_below k m = (\<lambda>i. if i < k then m i else None)"

definition map_from :: "nat \<Rightarrow> (nat \<rightharpoonup> 'v) \<Rightarrow> (nat \<rightharpoonup> 'v)" where
  "map_from k m = (\<lambda>i. if k \<le> i then m i else None)"

definition map_shift :: "(nat \<rightharpoonup> 'v) \<Rightarrow> (nat \<rightharpoonup> 'v)" where
  "map_shift m = (\<lambda>i. case i of 0 \<Rightarrow> None | Suc j \<Rightarrow> m j)"

lemma map_below_apply [simp]: "map_below k m i = (if i < k then m i else None)"
  by (simp add: map_below_def)

lemma map_from_apply [simp]: "map_from k m i = (if k \<le> i then m i else None)"
  by (simp add: map_from_def)

lemma map_shift_Suc [simp]: "map_shift m (Suc i) = m i"
  by (simp add: map_shift_def)

lemma map_shift_0 [simp]: "map_shift m 0 = None"
  by (simp add: map_shift_def)

lemma map_split: "map_below k m ++ map_from k m = m"
  by (auto simp: map_add_def fun_eq_iff split: option.splits)

section \<open>Agreeing prefixes\<close>

text \<open>How many elements two lists share from the start.\<close>

fun common_prefix :: "'a list \<Rightarrow> 'a list \<Rightarrow> nat" where
  "common_prefix (x # xs) (y # ys) = (if x = y then Suc (common_prefix xs ys) else 0)"
| "common_prefix _ _ = 0"

lemma common_prefix_le: "common_prefix xs ys \<le> length xs" "common_prefix xs ys \<le> length ys"
  by (induction xs ys rule: common_prefix.induct) auto

lemma common_prefix_take: "take (common_prefix xs ys) xs = take (common_prefix xs ys) ys"
  by (induction xs ys rule: common_prefix.induct) auto

lemma common_prefix_maximal:
  "common_prefix xs ys < length xs \<Longrightarrow> common_prefix xs ys < length ys \<Longrightarrow>
     xs ! common_prefix xs ys \<noteq> ys ! common_prefix xs ys"
  by (induction xs ys rule: common_prefix.induct) auto

lemma common_prefix_refl [simp]: "common_prefix xs xs = length xs"
  by (induction xs) auto

lemma map_filter_append: "List.map_filter f (xs @ ys) = List.map_filter f xs @ List.map_filter f ys"
  by (simp add: List.map_filter_def)

end
