(* ===== verification/Rust_Std.thy ===== *)
theory Rust_Std imports Prelude "HOL-Library.Word" begin

text \<open>
  The parts of the Rust standard library the code rests on. A \<open>String\<close> is its UTF-8 bytes, an
  Isabelle \<open>string\<close>; \<open>len()\<close> is its \<open>length\<close>. A byte buffer (\<open>Vec<u8>\<close>, \<open>Bytes\<close>) is a list of
  8-bit words. Big-endian integers are written and read by \<open>be_bytes\<close> and \<open>be_nat\<close>. UTF-8
  validity follows the table of well-formed byte sequences the standard library documents.
\<close>

type_synonym byte = "8 word"
type_synonym u16 = "16 word"
type_synonym u32 = "32 word"
type_synonym u64 = "64 word"

section \<open>Big-endian integers\<close>

fun be_bytes :: "nat \<Rightarrow> nat \<Rightarrow> byte list" where
  "be_bytes 0 x = []"
| "be_bytes (Suc n) x = be_bytes n (x div 256) @ [word_of_nat x]"

definition be_nat :: "byte list \<Rightarrow> nat" where
  "be_nat bs = foldl (\<lambda>a b. a * 256 + unat b) 0 bs"

lemma be_bytes_length [simp]: "length (be_bytes n x) = n"
  by (induction n arbitrary: x) auto

lemma be_nat_Nil [simp]: "be_nat [] = 0"
  by (simp add: be_nat_def)

lemma be_nat_snoc [simp]: "be_nat (bs @ [b]) = be_nat bs * 256 + unat b"
  by (simp add: be_nat_def)

lemma unat_byte_of_nat: "unat (word_of_nat x :: byte) = x mod 256"
  by (simp add: unat_of_nat)

lemma unat_byte_less: "unat (b :: byte) < 256"
  using unsigned_less [of b] by simp

lemma be_nat_bytes: "be_nat (be_bytes n x) = x mod 256 ^ n"
proof (induction n arbitrary: x)
  case 0
  show ?case by simp
next
  case (Suc n)
  have "x mod (256 * 256 ^ n) = 256 * (x div 256 mod 256 ^ n) + x mod 256"
    by (rule mod_mult2_eq)
  with Suc show ?case by (simp add: unat_byte_of_nat)
qed

lemma be_nat_bytes_small [simp]: "x < 256 ^ n \<Longrightarrow> be_nat (be_bytes n x) = x"
  by (simp add: be_nat_bytes)

lemma be_nat_less: "be_nat bs < 256 ^ length bs"
proof (induction bs rule: rev_induct)
  case Nil
  show ?case by simp
next
  case (snoc b bs)
  have "unat b < 256" by (rule unat_byte_less)
  with snoc show ?case by simp
qed

lemma be_bytes_nat: "be_bytes (length bs) (be_nat bs) = bs"
proof (induction bs rule: rev_induct)
  case Nil
  show ?case by simp
next
  case (snoc b bs)
  have "unat b < 256" by (rule unat_byte_less)
  moreover have "(word_of_nat (be_nat bs * 256 + unat b) :: byte) = b"
  proof -
    have z: "(256 :: byte) = 0" by simp
    show ?thesis by (simp only: of_nat_add of_nat_mult of_nat_numeral z) simp
  qed
  ultimately show ?case using snoc by simp
qed

lemma be_bytes_inj: "x < 256 ^ n \<Longrightarrow> y < 256 ^ n \<Longrightarrow> be_bytes n x = be_bytes n y \<Longrightarrow> x = y"
  by (metis be_nat_bytes_small)

lemma take_be_bytes_append [simp]: "take n (be_bytes n x @ rest) = be_bytes n x"
  by simp

lemma drop_be_bytes_append [simp]: "drop n (be_bytes n x @ rest) = rest"
  by simp

text \<open>\<open>to_be_bytes\<close> and \<open>from_be_bytes\<close> of the unsigned integers.\<close>

lemma be_unat: "LENGTH('a) = 8 * n \<Longrightarrow> word_of_nat (be_nat (be_bytes n (unat (w :: 'a::len word)))) = w"
proof -
  assume n: "LENGTH('a) = 8 * n"
  have "unat w < 2 ^ LENGTH('a)" by (rule unsigned_less)
  also have "(2 :: nat) ^ LENGTH('a) = 256 ^ n" by (simp add: n power_mult)
  finally show ?thesis by simp
qed

lemma be_u16 [simp]: "word_of_nat (be_nat (be_bytes 2 (unat w))) = (w :: u16)"
  by (rule be_unat) simp

lemma be_u32 [simp]: "word_of_nat (be_nat (be_bytes 4 (unat w))) = (w :: u32)"
  by (rule be_unat) simp

lemma be_u64 [simp]: "word_of_nat (be_nat (be_bytes 8 (unat w))) = (w :: u64)"
  by (rule be_unat) simp

section \<open>UTF-8\<close>

definition continuation :: "nat \<Rightarrow> bool" where
  "continuation b = (128 \<le> b \<and> b < 192)"

text \<open>
  One step of the decoder on a list of byte values: the scalar value and the rest, or the
  number of bytes of the ill-formed sequence, at least one, that a lossy reading replaces.
\<close>

datatype utf8_item = Scalar nat "nat list" | Ill nat

definition second_range :: "nat \<Rightarrow> nat \<times> nat" where
  "second_range b0 =
     (if b0 = 224 then (160, 191) else if b0 = 237 then (128, 159)
      else if b0 = 240 then (144, 191) else if b0 = 244 then (128, 143) else (128, 191))"

definition in_second :: "nat \<Rightarrow> nat \<Rightarrow> bool" where
  "in_second b0 b = (fst (second_range b0) \<le> b \<and> b \<le> snd (second_range b0))"

fun utf8_step :: "nat list \<Rightarrow> utf8_item option" where
  "utf8_step [] = None"
| "utf8_step (b0 # bs) = Some (
     if b0 < 128 then Scalar b0 bs
     else if 194 \<le> b0 \<and> b0 \<le> 223 then
       (case bs of
         b1 # r \<Rightarrow> if continuation b1 then Scalar ((b0 - 192) * 64 + (b1 - 128)) r else Ill 1
       | [] \<Rightarrow> Ill 1)
     else if 224 \<le> b0 \<and> b0 \<le> 239 then
       (case bs of
         b1 # r \<Rightarrow>
           if in_second b0 b1 then
             (case r of
               b2 # r2 \<Rightarrow>
                 if continuation b2
                 then Scalar ((b0 - 224) * 4096 + (b1 - 128) * 64 + (b2 - 128)) r2 else Ill 2
             | [] \<Rightarrow> Ill 2)
           else Ill 1
       | [] \<Rightarrow> Ill 1)
     else if 240 \<le> b0 \<and> b0 \<le> 244 then
       (case bs of
         b1 # r \<Rightarrow>
           if in_second b0 b1 then
             (case r of
               b2 # r2 \<Rightarrow>
                 if continuation b2 then
                   (case r2 of
                     b3 # r3 \<Rightarrow>
                       if continuation b3
                       then Scalar ((b0 - 240) * 262144 + (b1 - 128) * 4096 + (b2 - 128) * 64
                              + (b3 - 128)) r3
                       else Ill 3
                   | [] \<Rightarrow> Ill 3)
                 else Ill 2
             | [] \<Rightarrow> Ill 2)
           else Ill 1
       | [] \<Rightarrow> Ill 1)
     else Ill 1)"

lemma utf8_step_shorter: "utf8_step bs = Some (Scalar c r) \<Longrightarrow> length r < length bs"
  by (cases bs) (auto split: if_splits list.splits)

lemma utf8_step_suffix: "utf8_step bs = Some (Scalar c r) \<Longrightarrow> \<exists>p. p \<noteq> [] \<and> bs = p @ r"
  by (cases bs) (auto split: if_splits list.splits)

lemma utf8_step_ill: "utf8_step bs = Some (Ill n) \<Longrightarrow> 0 < n \<and> n \<le> length bs"
  by (cases bs) (auto split: if_splits list.splits)

text \<open>\<open>from_utf8\<close>: the scalar values of a well-formed sequence, \<open>None\<close> for an ill-formed one.\<close>

function utf8_scalars :: "nat list \<Rightarrow> nat list option" where
  "utf8_scalars bs =
     (case utf8_step bs of
       None \<Rightarrow> Some []
     | Some (Ill n) \<Rightarrow> None
     | Some (Scalar c r) \<Rightarrow> map_option ((#) c) (utf8_scalars r))"
  by pat_completeness auto
termination
  by (relation "measure length") (auto dest: utf8_step_shorter)

declare utf8_scalars.simps [simp del]

definition valid_utf8 :: "nat list \<Rightarrow> bool" where
  "valid_utf8 bs = (utf8_scalars bs \<noteq> None)"

text \<open>\<open>from_utf8_lossy\<close>: each maximal ill-formed part becomes U+FFFD, \<open>EF BF BD\<close>.\<close>

function utf8_lossy :: "nat list \<Rightarrow> nat list" where
  "utf8_lossy bs =
     (case utf8_step bs of
       None \<Rightarrow> []
     | Some (Ill n) \<Rightarrow> [239, 191, 189] @ utf8_lossy (drop n bs)
     | Some (Scalar c r) \<Rightarrow> take (length bs - length r) bs @ utf8_lossy r)"
  by pat_completeness auto
termination
  by (relation "measure length") (auto dest: utf8_step_shorter utf8_step_ill)

declare utf8_lossy.simps [simp del]

lemma utf8_lossy_valid: "utf8_scalars bs = Some cs \<Longrightarrow> utf8_lossy bs = bs"
proof (induction bs arbitrary: cs rule: utf8_scalars.induct)
  case (1 bs)
  show ?case
  proof (cases "utf8_step bs")
    case None
    then have "bs = []" by (cases bs) auto
    then show ?thesis by (simp add: utf8_lossy.simps)
  next
    case (Some st)
    with "1.prems" obtain c r cs' where st: "st = Scalar c r" and r: "utf8_scalars r = Some cs'"
      by (cases st) (auto simp: utf8_scalars.simps [of bs] split: option.splits)
    from "1.IH" [OF Some st r] have "utf8_lossy r = r" .
    with Some st have eq: "utf8_lossy bs = take (length bs - length r) bs @ r"
      by (simp add: utf8_lossy.simps [of bs])
    obtain p where "bs = p @ r"
      using utf8_step_suffix Some st by blast
    then have "take (length bs - length r) bs @ r = bs" by simp
    with eq show ?thesis by (simp only:)
  qed
qed

text \<open>What a lossy reading answers is well formed, and of bytes.\<close>

lemma utf8_step_again:
  "utf8_step bs = Some (Scalar c r) \<Longrightarrow> utf8_step (take (length bs - length r) bs @ s) = Some (Scalar c s)"
  by (cases bs) (auto split: if_splits list.splits)

lemma valid_utf8_Nil [simp]: "valid_utf8 []"
  by (simp add: valid_utf8_def utf8_scalars.simps)

lemma valid_utf8_step: "utf8_step bs = Some (Scalar c r) \<Longrightarrow> valid_utf8 bs = valid_utf8 r"
  by (simp add: valid_utf8_def utf8_scalars.simps [of bs])

lemma utf8_lossy_is_valid: "valid_utf8 (utf8_lossy bs)"
proof (induction bs rule: utf8_lossy.induct)
  case (1 bs)
  show ?case
  proof (cases "utf8_step bs")
    case None
    then show ?thesis by (simp add: utf8_lossy.simps [of bs])
  next
    case (Some st)
    show ?thesis
    proof (cases st)
      case (Scalar c r)
      then have "utf8_lossy bs = take (length bs - length r) bs @ utf8_lossy r"
        using Some by (simp add: utf8_lossy.simps [of bs])
      with valid_utf8_step [OF utf8_step_again] "1.IH"(1) [OF Some Scalar] Some Scalar show ?thesis by simp
    next
      case (Ill n)
      then have "utf8_lossy bs = 239 # 191 # 189 # utf8_lossy (drop n bs)"
        using Some by (simp add: utf8_lossy.simps [of bs])
      moreover have "utf8_step (239 # 191 # 189 # utf8_lossy (drop n bs)) = Some (Scalar 65533 (utf8_lossy (drop n bs)))"
        by (simp add: continuation_def in_second_def second_range_def)
      ultimately show ?thesis using valid_utf8_step "1.IH"(2) [OF Some Ill] by simp
    qed
  qed
qed

lemma utf8_lossy_bytes: "list_all (\<lambda>b. b < 256) bs \<Longrightarrow> list_all (\<lambda>b. b < 256) (utf8_lossy bs)"
proof (induction bs rule: utf8_lossy.induct)
  case (1 bs)
  show ?case
  proof (cases "utf8_step bs")
    case None
    then show ?thesis by (simp add: utf8_lossy.simps [of bs])
  next
    case (Some st)
    show ?thesis
    proof (cases st)
      case (Scalar c r)
      obtain p where p: "bs = p @ r" using utf8_step_suffix Some Scalar by blast
      with "1.IH"(1) [OF Some Scalar] "1.prems" show ?thesis
        using Some Scalar by (simp add: utf8_lossy.simps [of "p @ r"])
    next
      case (Ill n)
      have "list_all (\<lambda>b. b < 256) (drop n bs)" using "1.prems" by (auto simp: list_all_iff dest: in_set_dropD)
      with "1.IH"(2) [OF Some Ill] show ?thesis
        using Some Ill by (simp add: utf8_lossy.simps [of bs])
    qed
  qed
qed

section \<open>Strings\<close>

definition str_bytes :: "string \<Rightarrow> nat list" where
  "str_bytes s = map of_char s"

definition to_bytes :: "string \<Rightarrow> byte list" where
  "to_bytes s = map (\<lambda>c. word_of_nat (of_char c)) s"

definition of_bytes :: "byte list \<Rightarrow> string" where
  "of_bytes bs = map (\<lambda>b. char_of (unat b)) bs"

text \<open>A \<open>String\<close> always holds well-formed UTF-8; \<open>chars()\<close> are its scalar values.\<close>

definition is_str :: "string \<Rightarrow> bool" where
  "is_str s = valid_utf8 (str_bytes s)"

definition chars :: "string \<Rightarrow> nat list" where
  "chars s = (case utf8_scalars (str_bytes s) of Some cs \<Rightarrow> cs | None \<Rightarrow> [])"

definition from_utf8 :: "byte list \<Rightarrow> string option" where
  "from_utf8 bs = (if valid_utf8 (map unat bs) then Some (of_bytes bs) else None)"

definition from_utf8_lossy :: "byte list \<Rightarrow> string" where
  "from_utf8_lossy bs = map char_of (utf8_lossy (map unat bs))"

lemma to_bytes_length [simp]: "length (to_bytes s) = length s"
  by (simp add: to_bytes_def)

lemma of_bytes_to_bytes [simp]: "of_bytes (to_bytes s) = s"
  by (induction s) (auto simp: of_bytes_def to_bytes_def unat_of_nat)

lemma unat_to_bytes: "map unat (to_bytes s) = str_bytes s"
  by (induction s) (auto simp: to_bytes_def str_bytes_def unat_of_nat)

lemma from_utf8_to_bytes: "is_str s \<Longrightarrow> from_utf8 (to_bytes s) = Some s"
  by (simp add: from_utf8_def unat_to_bytes is_str_def)

lemma from_utf8_lossy_to_bytes: "is_str s \<Longrightarrow> from_utf8_lossy (to_bytes s) = s"
  by (auto simp: from_utf8_lossy_def unat_to_bytes is_str_def valid_utf8_def str_bytes_def
      utf8_lossy_valid comp_def)

lemma str_bytes_char_of: "list_all (\<lambda>b. b < 256) bs \<Longrightarrow> str_bytes (map char_of bs) = bs"
  by (induction bs) (simp_all add: str_bytes_def)

lemma from_utf8_lossy_is_str: "is_str (from_utf8_lossy bs)"
proof -
  have "list_all (\<lambda>b. b < 256) (map unat bs)" by (simp add: list_all_iff unat_byte_less)
  from str_bytes_char_of [OF utf8_lossy_bytes [OF this]] show ?thesis
    by (simp add: is_str_def from_utf8_lossy_def utf8_lossy_is_valid)
qed

lemma from_utf8_is_str: "from_utf8 bs = Some s \<Longrightarrow> is_str s"
proof -
  have "str_bytes (of_bytes bs) = map unat bs"
    using str_bytes_char_of [of "map unat bs"] by (simp add: of_bytes_def list_all_iff unat_byte_less comp_def)
  then show "from_utf8 bs = Some s \<Longrightarrow> is_str s" by (auto simp: from_utf8_def is_str_def split: if_splits)
qed

lemma ascii_valid: "list_all (\<lambda>b. b < 128) bs \<Longrightarrow> valid_utf8 bs"
proof (induction bs)
  case Nil
  show ?case by (simp add: valid_utf8_def utf8_scalars.simps)
next
  case (Cons b bs)
  then show ?case by (simp add: valid_utf8_def utf8_scalars.simps [of "b # bs"])
qed

lemma ascii_is_str: "list_all (\<lambda>c. of_char c < (128 :: nat)) s \<Longrightarrow> is_str s"
  unfolding is_str_def str_bytes_def by (rule ascii_valid) (simp add: list_all_iff)

text \<open>\<open>floor_char_boundary\<close>: the last character boundary at or before a byte position.\<close>

definition is_char_boundary :: "string \<Rightarrow> nat \<Rightarrow> bool" where
  "is_char_boundary s i =
     (i = 0 \<or> i = length s \<or> (i < length s \<and> \<not> continuation (of_char (s ! i))))"

fun floor_char_boundary :: "string \<Rightarrow> nat \<Rightarrow> nat" where
  "floor_char_boundary s 0 = 0"
| "floor_char_boundary s (Suc i) =
     (if length s \<le> Suc i then length s
      else if is_char_boundary s (Suc i) then Suc i else floor_char_boundary s i)"

lemma floor_char_boundary_le: "floor_char_boundary s i \<le> i"
  by (induction s i rule: floor_char_boundary.induct) auto

lemma floor_char_boundary_length: "floor_char_boundary s i \<le> length s"
  by (induction s i rule: floor_char_boundary.induct) (auto simp: le_SucI)

lemma floor_char_boundary_is: "is_char_boundary s (floor_char_boundary s i)"
  by (induction s i rule: floor_char_boundary.induct) (auto simp: is_char_boundary_def)

text \<open>\<open>{}\<close> of an unsigned number: its decimal digits.\<close>

fun show_nat :: "nat \<Rightarrow> string" where
  "show_nat n = (if n < 10 then [char_of (48 + n)] else show_nat (n div 10) @ [char_of (48 + n mod 10)])"

declare show_nat.simps [simp del]

lemma show_nat_nonempty [simp]: "show_nat n \<noteq> []"
  by (subst show_nat.simps) simp

definition show_int :: "int \<Rightarrow> string" where
  "show_int i = (if i < 0 then ''-'' @ show_nat (nat (- i)) else show_nat (nat i))"

text \<open>\<open>join\<close> of strings with a separator, and \<open>u64::div_ceil\<close>.\<close>

fun join :: "string \<Rightarrow> string list \<Rightarrow> string" where
  "join sep [] = []"
| "join sep [s] = s"
| "join sep (s # t # ss) = s @ sep @ join sep (t # ss)"

definition div_ceil :: "nat \<Rightarrow> nat \<Rightarrow> nat" where
  "div_ceil a b = (a + b - 1) div b"

lemma div_ceil_bounds:
  assumes "0 < b"
  shows "a \<le> div_ceil a b * b" and "div_ceil a b * b < a + b"
proof -
  let ?n = "a + b - 1"
  have eq: "?n div b * b + ?n mod b = ?n" by simp
  have "?n mod b < b" using assms by simp
  then show "a \<le> div_ceil a b * b" "div_ceil a b * b < a + b"
    using eq assms unfolding div_ceil_def by linarith+
qed

lemma div_ceil_mono: "a \<le> b \<Longrightarrow> div_ceil a k \<le> div_ceil b k"
  by (simp add: div_ceil_def div_le_mono diff_le_mono)

text \<open>\<open>slice::chunks\<close>: consecutive slices of \<open>n\<close> elements, the last one shorter.\<close>

function slices :: "nat \<Rightarrow> 'a list \<Rightarrow> 'a list list" where
  "slices n xs = (if xs = [] \<or> n = 0 then [] else take n xs # slices n (drop n xs))"
  by pat_completeness auto
termination
  by (relation "measure (length \<circ> snd)") auto

declare slices.simps [simp del]

lemma slices_Nil [simp]: "slices n [] = []"
  by (subst slices.simps) simp

lemma slices_step: "xs \<noteq> [] \<Longrightarrow> 0 < n \<Longrightarrow> slices n xs = take n xs # slices n (drop n xs)"
  by (subst slices.simps) simp

lemma concat_slices: "0 < n \<Longrightarrow> concat (slices n xs) = xs"
proof (induction n xs rule: slices.induct)
  case (1 n xs)
  then show ?case by (cases "xs = []") (simp_all add: slices_step)
qed

lemma slices_sizes: "s \<in> set (slices n xs) \<Longrightarrow> s \<noteq> [] \<and> length s \<le> n"
proof (induction n xs rule: slices.induct)
  case (1 n xs)
  then show ?case by (cases "xs = [] \<or> n = 0") (auto simp: slices.simps [of n xs])
qed

end
