(* ===== verification/Shared_Types.thy ===== *)
theory Shared_Types imports Rust_Std begin

text \<open>
  The data every part shares (\<open>crates/shared-types/src\<close>): what a message holds
  (\<open>content.rs\<close>, \<open>comment.rs\<close>), the model a block was written under (\<open>model.rs\<close>), what a tool
  call shows (\<open>view.rs\<close>), what one agent tells another (\<open>agent_message.rs\<close>) and why a request
  failed (\<open>failure.rs\<close>), with the functions of those files that the transcript reads them by.
  An identity or a name is a \<open>string\<close>; a \<open>u32\<close> or \<open>u64\<close> that is only stored and compared is a
  natural number; a time is its milliseconds.
\<close>

type_synonym block_id = string
type_synonym turn_id = string
type_synonym node_id = string
type_synonym command_id = string
type_synonym blob_ref = string
type_synonym timestamp = int

definition MAX_SAFE_INTEGER :: nat where
  "MAX_SAFE_INTEGER = 9007199254740991"

section \<open>White space and escapes (content.rs)\<close>

text \<open>\<open>char::is_whitespace\<close>: the scalar values with the Unicode property \<open>White_Space\<close>.\<close>

definition is_whitespace :: "nat \<Rightarrow> bool" where
  "is_whitespace c =
     ((9 \<le> c \<and> c \<le> 13) \<or> c = 32 \<or> c = 133 \<or> c = 160 \<or> c = 5760 \<or> (8192 \<le> c \<and> c \<le> 8202)
      \<or> c = 8232 \<or> c = 8233 \<or> c = 8239 \<or> c = 8287 \<or> c = 12288)"

definition is_trimmed_space :: "nat \<Rightarrow> bool" where
  "is_trimmed_space c = (c = 65279 \<or> (is_whitespace c \<and> c \<noteq> 133))"

definition is_blank :: "string \<Rightarrow> bool" where
  "is_blank text = list_all is_trimmed_space (chars text)"

definition escape_char :: "char \<Rightarrow> string" where
  "escape_char c =
     (if c = CHR ''&'' then ''&amp;''
      else if c = CHR 0x22 then ''&quot;''
      else if c = CHR ''<'' then ''&lt;''
      else if c = CHR ''>'' then ''&gt;''
      else [c])"

text \<open>
  \<open>push_escaped\<close> works on characters; the four it replaces are ASCII, whose byte appears in no
  other character's encoding, so it is the same byte by byte.
\<close>

fun push_escaped :: "string \<Rightarrow> string \<Rightarrow> string" where
  "push_escaped out [] = out"
| "push_escaped out (c # value) = push_escaped (out @ escape_char c) value"

definition xml_escaped :: "string \<Rightarrow> string" where
  "xml_escaped value = push_escaped [] value"

section \<open>What a message holds (content.rs, comment.rs)\<close>

datatype model_media_kind = MediaImage | MediaVideo | MediaDocument

fun media_kind_name :: "model_media_kind \<Rightarrow> string" where
  "media_kind_name MediaImage = ''image''"
| "media_kind_name MediaVideo = ''video''"
| "media_kind_name MediaDocument = ''document''"

datatype media_source =
    SourceUrl string
  | SourceRef blob_ref string "nat option" "nat option"

datatype document_source = DocumentRef blob_ref string string

record attachment =
  at_id :: string
  at_name :: string
  at_media_type :: string
  at_size_bytes :: nat
  at_sha256 :: blob_ref
  at_snippet :: "string option"

datatype user_content =
    CText string
  | CImage media_source
  | CVideo media_source
  | CDocument document_source
  | CReference string
  | CAttachment attachment

datatype gone_cause = NotStored string

datatype tool_media_source = ToolMediaRef blob_ref string "nat option" "nat option"

datatype tool_result_content =
    RText string
  | RImage tool_media_source
  | RVideo tool_media_source
  | RDocument document_source
  | RGone model_media_kind string gone_cause

record message_comment =
  cm_id :: string
  cm_block_id :: block_id
  cm_start :: nat
  cm_end :: nat
  cm_at :: nat
  cm_quote :: string
  cm_picture :: "media_source option"
  cm_content :: "user_content list"

definition attachment_attribute :: "string \<Rightarrow> string \<Rightarrow> string" where
  "attachment_attribute key value =
     '' '' @ key @ ''='' @ [CHR 0x22] @ xml_escaped value @ [CHR 0x22]"

definition attachment_tag :: "attachment \<Rightarrow> string" where
  "attachment_tag a =
     ''<attachment'' @ attachment_attribute ''id'' (at_id a) @ attachment_attribute ''name'' (at_name a)
     @ attachment_attribute ''type'' (at_media_type a)
     @ attachment_attribute ''size'' (show_nat (at_size_bytes a)) @ '' />''"

text \<open>\<open>str::lines\<close>: split at each line feed, a carriage return before it dropped, no last empty line.\<close>

definition strip_cr :: "string \<Rightarrow> string" where
  "strip_cr line = (if line \<noteq> [] \<and> last line = CHR 0x0D then butlast line else line)"

fun split_lines :: "string \<Rightarrow> string \<Rightarrow> string list" where
  "split_lines acc [] = (if acc = [] then [] else [acc])"
| "split_lines acc (c # cs) =
     (if c = CHR 0x0A then strip_cr acc # split_lines [] cs else split_lines (acc @ [c]) cs)"

definition markdown_quote :: "string \<Rightarrow> string" where
  "markdown_quote text =
     join [CHR 0x0A] (map (\<lambda>line. if line = [] then ''>'' else ''> '' @ line) (split_lines [] text))"

definition push_text :: "user_content list \<Rightarrow> string \<Rightarrow> user_content list" where
  "push_text content text =
     (if content = [] then [CText text]
      else case last content of
        CText before \<Rightarrow> butlast content @ [CText (before @ [CHR 0x0A, CHR 0x0A] @ text)]
      | _ \<Rightarrow> content @ [CText text])"

fun push_part :: "user_content list \<Rightarrow> user_content \<Rightarrow> user_content list" where
  "push_part content (CText text) = push_text content text"
| "push_part content other = content @ [other]"

definition push_comment :: "user_content list \<Rightarrow> message_comment \<Rightarrow> user_content list" where
  "push_comment content c =
     foldl push_part
       (case cm_picture c of
          None \<Rightarrow> push_text content (markdown_quote (cm_quote c))
        | Some source \<Rightarrow> content @ [CImage source])
       (cm_content c)"

definition comments_content :: "message_comment list \<Rightarrow> user_content list" where
  "comments_content comments = foldl push_comment [] comments"

section \<open>The model a block was written under (model.rs)\<close>

datatype file_extension = Png | Jpg | Jpeg | Gif | Webp | Pdf | Mp4 | Mov | Webm | M4v

datatype thinking_summary = SummaryAuto | SummaryConcise | SummaryDetailed | SummaryOff | SummaryOn

datatype thinking_capability =
    CanAdaptive "string list"
  | CanBudget "nat option" "nat option" "nat option"
  | CanEffort "string list" "thinking_summary list" "thinking_summary option"
  | CanDisable

datatype thinking_config =
    ThinkAdaptive string
  | ThinkBudget nat
  | ThinkEffort string "thinking_summary option"
  | ThinkDisabled

record model_facts =
  md_id :: string
  md_name :: string
  md_context_window :: nat
  md_output_limit :: "nat option"
  md_thinking :: "thinking_capability list"
  md_accepted_extensions :: "file_extension list option"

record model_selection =
  ms_provider_id :: string
  ms_model :: model_facts
  ms_thinking :: "thinking_config option"
  ms_service_tier_id :: "string option"

record token_usage =
  input_tokens :: nat
  output_tokens :: nat
  cache_read_tokens :: nat
  cache_write_tokens :: nat

definition THINKING_OFF :: string where
  "THINKING_OFF = ''disabled''"

definition thinking_effort :: "model_selection \<Rightarrow> string option" where
  "thinking_effort s =
     (case ms_thinking s of
        None \<Rightarrow> None
      | Some (ThinkAdaptive effort) \<Rightarrow> Some effort
      | Some (ThinkEffort effort _) \<Rightarrow> Some effort
      | Some ThinkDisabled \<Rightarrow> Some THINKING_OFF
      | Some (ThinkBudget _) \<Rightarrow> None)"

definition IMAGE_FILE_EXTENSIONS :: "file_extension list" where
  "IMAGE_FILE_EXTENSIONS = [Png, Jpg, Jpeg, Gif, Webp]"

definition VIDEO_FILE_EXTENSIONS :: "file_extension list" where
  "VIDEO_FILE_EXTENSIONS = [Mp4, Mov, Webm, M4v]"

definition extension_alias :: "file_extension \<Rightarrow> file_extension option" where
  "extension_alias e = (case e of Jpg \<Rightarrow> Some Jpeg | Jpeg \<Rightarrow> Some Jpg | _ \<Rightarrow> None)"

definition file_extension_support :: "file_extension list option \<Rightarrow> file_extension \<Rightarrow> bool option" where
  "file_extension_support accepted e =
     (case accepted of
        None \<Rightarrow> None
      | Some listed \<Rightarrow>
          Some (e \<in> set listed \<or> (case extension_alias e of Some a \<Rightarrow> a \<in> set listed | None \<Rightarrow> False)))"

definition model_accepts_images :: "model_facts \<Rightarrow> bool" where
  "model_accepts_images m =
     list_ex (\<lambda>e. file_extension_support (md_accepted_extensions m) e = Some True) IMAGE_FILE_EXTENSIONS"

definition model_accepts_video :: "model_facts \<Rightarrow> bool" where
  "model_accepts_video m =
     list_ex (\<lambda>e. file_extension_support (md_accepted_extensions m) e = Some True) VIDEO_FILE_EXTENSIONS"

section \<open>What a tool call shows (view.rs)\<close>

datatype shell_view_status = ViewRunning | ViewExited | ViewAborted | ViewLost
datatype stream_kind = Stdout | Stderr
datatype edit_kind = Added | Modified | Deleted | Renamed

record output_chunk =
  ch_stream :: stream_kind
  ch_text :: string

record edit_copies =
  ec_original :: blob_ref
  ec_modified :: blob_ref

record edit_segment =
  es_copies :: "edit_copies option"
  es_binary :: bool

record edited_file =
  ef_path :: string
  ef_kind :: edit_kind
  ef_from :: "string option"
  ef_added :: nat
  ef_removed :: nat
  ef_outside :: bool
  ef_edits :: "edit_segment list"

record file_edit =
  fe_call :: command_id
  fe_path :: string
  fe_segment :: nat
  fe_created :: bool
  fe_copies :: "edit_copies option"
  fe_binary :: bool

record line_counts =
  lc_added :: nat
  lc_removed :: nat

record changed_file =
  cf_path :: string
  cf_kind :: edit_kind
  cf_from :: "string option"
  cf_lines :: "line_counts option"
  cf_edits :: "file_edit list"

datatype path_change = PathRenamed string string | PathRemoved string

record shell_tool_view =
  sv_status :: shell_view_status
  sv_command_id :: command_id
  sv_exit_code :: "int option"
  sv_lost_reason :: "string option"
  sv_running_ms :: nat
  sv_idle_ms :: nat
  sv_chunks :: "output_chunk list"
  sv_view_truncated :: bool
  sv_files :: "edited_file list option"
  sv_files_truncated :: "bool option"
  sv_path_changes :: "path_change list"
  sv_run_files :: "changed_file list option"
  sv_request_files :: "changed_file list option"

datatype tool_view = ShellView shell_tool_view | RepeatedShell string nat

definition shell_view_named :: "command_id \<Rightarrow> shell_view_status \<Rightarrow> shell_tool_view" where
  "shell_view_named command status =
     \<lparr>sv_status = status, sv_command_id = command, sv_exit_code = None, sv_lost_reason = None,
      sv_running_ms = 0, sv_idle_ms = 0, sv_chunks = [], sv_view_truncated = False, sv_files = None,
      sv_files_truncated = None, sv_path_changes = [], sv_run_files = None, sv_request_files = None\<rparr>"

section \<open>What one agent tells another (agent\_message.rs)\<close>

datatype permission_outcome = Allowed | Denied | Reached
datatype completion_outcome = OutcomeCompleted | OutcomeFailed | OutcomeAborted

record sender_conversation =
  sc_id :: node_id
  sc_title :: "string option"

record sender =
  sn_id :: node_id
  sn_number :: nat
  sn_description :: string
  sn_round :: nat
  sn_conversation :: "sender_conversation option"

datatype agent_message_event =
    MessageEvent
  | Completion completion_outcome
  | Permission permission_outcome string "string list" "string option" "string option" bool
  | Moved string string "string option"
  | MoveFailed string "string option"

record agent_message =
  am_id :: block_id
  am_sender :: "sender option"
  am_recipient_id :: node_id
  am_timestamp :: timestamp
  am_content :: string
  am_event :: agent_message_event
  am_origin :: "block_id option"

definition is_from_product :: "agent_message_event \<Rightarrow> bool" where
  "is_from_product e =
     (case e of Permission _ _ _ _ _ _ \<Rightarrow> True | Moved _ _ _ \<Rightarrow> True | MoveFailed _ _ \<Rightarrow> True | _ \<Rightarrow> False)"

section \<open>Why a request failed, and the window an account used up (failure.rs, quota.rs)\<close>

datatype failure_source = FromHttp | FromStream | FromTransport | FromUnknown

record provider_error_diagnostics =
  pd_source :: failure_source
  pd_client_request_id :: "string option"
  pd_provider_request_id :: "string option"
  pd_provider_response_id :: "string option"
  pd_provider_code :: "string option"
  pd_http_status :: "nat option"
  pd_upstream :: "string option"

datatype quota_kind = QuotaLimit | QuotaCredits | QuotaRequests | QuotaTokens | QuotaCap

record quota_scope =
  qs_kind :: string
  qs_label :: "string option"

record quota_window_name =
  qw_kind :: quota_kind
  qw_period_seconds :: "nat option"
  qw_scope :: "quota_scope option"

end
