(* ===== verification/Kept_Messages.thy ===== *)
theory Kept_Messages imports Shared_Types begin

text \<open>
  The user's own words a compaction keeps beside its summary
  (\<open>crates/shared-types/src/kept.rs\<close>): the estimate of a text, the budget of a window, a message
  as the text that names it, and the choice of the newest messages that fit. The lemmas show
  that what is kept fits the budget, that it is a run of the newest messages of which only the
  oldest may be cut, and that a cut never falls inside a character.
\<close>

definition KEPT_WORDS :: nat where
  "KEPT_WORDS = 20000"

definition KEPT_WORDS_PERCENT :: nat where
  "KEPT_WORDS_PERCENT = 10"

definition text_tokens :: "string \<Rightarrow> nat" where
  "text_tokens text = div_ceil (length text) 4"

definition kept_words_budget :: "nat option \<Rightarrow> nat" where
  "kept_words_budget window =
     (case window of
        None \<Rightarrow> KEPT_WORDS
      | Some w \<Rightarrow> min KEPT_WORDS (w * KEPT_WORDS_PERCENT div 100))"

record kept_message =
  km_index :: nat
  km_text :: string

definition IMAGE :: string where
  "IMAGE = ''[Image]''"

definition ATTACHMENT :: string where
  "ATTACHMENT = ''[Attachment]''"

text \<open>
  What \<open>of\<close> takes of one part, after the part before it and with the part after it: none for a
  medium that the attachment after it stands for.
\<close>

fun is_attachment :: "user_content option \<Rightarrow> bool" where
  "is_attachment (Some (CAttachment _)) = True"
| "is_attachment _ = False"

fun is_image :: "user_content option \<Rightarrow> bool" where
  "is_image (Some (CImage _)) = True"
| "is_image _ = False"

definition kept_piece ::
  "user_content option \<Rightarrow> user_content \<Rightarrow> user_content option \<Rightarrow> (string \<times> bool) option" where
  "kept_piece before part after =
     (case part of
        CText text \<Rightarrow> Some (text, False)
      | CReference reference \<Rightarrow> Some (reference, False)
      | CImage _ \<Rightarrow> if is_attachment after then None else Some (IMAGE, True)
      | CVideo _ \<Rightarrow> if is_attachment after then None else Some (ATTACHMENT, True)
      | CDocument _ \<Rightarrow> if is_attachment after then None else Some (ATTACHMENT, True)
      | CAttachment _ \<Rightarrow> if is_image before then Some (IMAGE, True) else Some (ATTACHMENT, True))"

fun kept_text :: "user_content option \<Rightarrow> string \<Rightarrow> bool \<Rightarrow> user_content list \<Rightarrow> string" where
  "kept_text before text after_placeholder [] = text"
| "kept_text before text after_placeholder (part # rest) =
     (case kept_piece before part (get_at rest 0) of
        None \<Rightarrow> kept_text (Some part) text after_placeholder rest
      | Some (piece, placeholder) \<Rightarrow>
          kept_text (Some part)
            (text
             @ (if text \<noteq> [] then (if placeholder \<or> after_placeholder then '' '' else [CHR 0x0A]) else [])
             @ piece)
            placeholder rest)"

definition kept_of :: "nat \<Rightarrow> user_content list \<Rightarrow> kept_message" where
  "kept_of index content = \<lparr>km_index = index, km_text = kept_text None [] False content\<rparr>"

definition kept_head :: "nat \<Rightarrow> string" where
  "kept_head index = ''[#'' @ show_nat index @ '']'' @ [CHR 0x0A]"

definition model_text :: "kept_message \<Rightarrow> string" where
  "model_text m = kept_head (km_index m) @ km_text m"

definition kept_within :: "kept_message \<Rightarrow> nat \<Rightarrow> kept_message option" where
  "kept_within m tokens =
     (if tokens * 4 < length (kept_head (km_index m)) then None
      else
        let room = tokens * 4 - length (kept_head (km_index m));
            ending = floor_char_boundary (km_text m) (min room (length (km_text m)))
        in if 0 < ending
           then Some \<lparr>km_index = km_index m, km_text = take ending (km_text m)\<rparr>
           else None)"

text \<open>The loop of \<open>choose_kept\<close> over the messages from the newest on, pushing onto \<open>kept\<close>.\<close>

fun choose_loop :: "kept_message list \<Rightarrow> nat \<Rightarrow> kept_message list \<Rightarrow> kept_message list" where
  "choose_loop kept left [] = kept"
| "choose_loop kept left (m # older) =
     (if text_tokens (model_text m) \<le> left
      then choose_loop (kept @ [m]) (left - text_tokens (model_text m)) older
      else case kept_within m left of Some short \<Rightarrow> kept @ [short] | None \<Rightarrow> kept)"

definition choose_kept :: "kept_message list \<Rightarrow> nat \<Rightarrow> kept_message list" where
  "choose_kept messages budget = rev (choose_loop [] budget (rev messages))"

section \<open>What is kept fits\<close>

definition kept_cost :: "kept_message list \<Rightarrow> nat" where
  "kept_cost messages = sum_list (map (\<lambda>m. text_tokens (model_text m)) messages)"

lemma kept_cost_simps [simp]:
  "kept_cost [] = 0"
  "kept_cost (m # ms) = text_tokens (model_text m) + kept_cost ms"
  "kept_cost (xs @ ys) = kept_cost xs + kept_cost ys"
  "kept_cost (rev ms) = kept_cost ms"
  by (simp_all add: kept_cost_def rev_map [symmetric] sum_list.rev)

lemma text_tokens_le: "(text_tokens t \<le> n) = (length t \<le> n * 4)"
  by (simp add: text_tokens_def div_ceil_def) linarith

lemma kept_within_Some:
  assumes "kept_within m left = Some short"
  shows "\<exists>n>0. short = m\<lparr>km_text := take n (km_text m)\<rparr> \<and> n \<le> length (km_text m)
           \<and> is_char_boundary (km_text m) n \<and> text_tokens (model_text short) \<le> left"
proof -
  let ?room = "left * 4 - length (kept_head (km_index m))"
  let ?n = "floor_char_boundary (km_text m) (min ?room (length (km_text m)))"
  have head: "length (kept_head (km_index m)) \<le> left * 4" and pos: "0 < ?n"
    and short: "short = m\<lparr>km_text := take ?n (km_text m)\<rparr>"
    using assms by (auto simp: kept_within_def Let_def split: if_splits)
  have le: "?n \<le> min ?room (length (km_text m))"
    by (rule floor_char_boundary_le)
  have "text_tokens (model_text short) \<le> left"
    using head le by (simp add: text_tokens_le short model_text_def min_def split: if_splits) linarith+
  then show ?thesis
    using short pos le floor_char_boundary_is [of "km_text m"] by auto
qed

text \<open>
  How a run of chosen messages relates to the messages: all but its oldest are messages whole,
  and its oldest is one too, or a cut of one on a character boundary.
\<close>

definition cut_of :: "kept_message \<Rightarrow> kept_message \<Rightarrow> bool" where
  "cut_of short m = (\<exists>n>0. n \<le> length (km_text m) \<and> is_char_boundary (km_text m) n
     \<and> short = m\<lparr>km_text := take n (km_text m)\<rparr>)"

lemma choose_loop_cost: "kept_cost (choose_loop kept left ms) \<le> kept_cost kept + left"
proof (induction kept left ms rule: choose_loop.induct)
  case (2 kept left m older)
  then show ?case
    by (auto dest!: kept_within_Some split: option.splits)
qed simp

lemma choose_loop_shape:
  "\<exists>whole older rest. ms = whole @ older
     \<and> choose_loop kept left ms = kept @ whole @ rest
     \<and> (rest = [] \<or> (\<exists>short m later. rest = [short] \<and> older = m # later \<and> cut_of short m
          \<and> left < kept_cost whole + text_tokens (model_text m)))"
proof (induction kept left ms rule: choose_loop.induct)
  case (1 kept left)
  show ?case by simp
next
  case (2 kept left m older)
  show ?case
  proof (cases "text_tokens (model_text m) \<le> left")
    case True
    from 2 [OF this] obtain whole old rest where IH:
      "older = whole @ old"
      "choose_loop (kept @ [m]) (left - text_tokens (model_text m)) older = (kept @ [m]) @ whole @ rest"
      "rest = [] \<or> (\<exists>short m' later. rest = [short] \<and> old = m' # later \<and> cut_of short m'
          \<and> left - text_tokens (model_text m) < kept_cost whole + text_tokens (model_text m'))"
      by blast
    show ?thesis
      by (rule exI [of _ "m # whole"], rule exI [of _ old], rule exI [of _ rest])
        (use IH True in auto)
  next
    case False
    show ?thesis
    proof (cases "kept_within m left")
      case None
      then show ?thesis
        using False by (intro exI [of _ "[]"] exI [of _ "m # older"]) simp
    next
      case (Some short)
      then have "cut_of short m"
        by (auto simp: cut_of_def dest!: kept_within_Some)
      then show ?thesis
        using False Some
        by (intro exI [of _ "[]"] exI [of _ "m # older"] exI [of _ "[short]"]) simp
    qed
  qed
qed

lemma choose_loop_maximal:
  "choose_loop kept left ms = kept @ whole \<Longrightarrow> ms = whole @ m # later \<Longrightarrow>
     left < kept_cost whole + text_tokens (model_text m)"
proof (induction kept left ms arbitrary: whole rule: choose_loop.induct)
  case (2 kept left m' older)
  show ?case
  proof (cases "text_tokens (model_text m') \<le> left")
    case True
    show ?thesis
    proof (cases whole)
      case Nil
      obtain w o' r where "choose_loop (kept @ [m']) (left - text_tokens (model_text m')) older
          = (kept @ [m']) @ w @ r"
        using choose_loop_shape [of older "kept @ [m']"] by blast
      then show ?thesis using 2(2) True Nil by simp
    next
      case (Cons x xs)
      then have "left - text_tokens (model_text m') < kept_cost xs + text_tokens (model_text m)"
        using 2(2,3) True by (intro 2(1)) auto
      then show ?thesis using Cons 2(3) True by auto
    qed
  next
    case False
    then show ?thesis using 2(2,3) by (cases whole) (auto split: option.splits)
  qed
qed simp

lemma kept_of_index [simp]: "km_index (kept_of i content) = i"
  by (simp add: kept_of_def)

lemma kept_words_budget_le: "kept_words_budget w \<le> KEPT_WORDS"
  by (simp add: kept_words_budget_def split: option.splits)

end
