(* ===== verification/Blocks.thy ===== *)
theory Blocks imports Kept_Messages begin

text \<open>
  The blocks of a transcript (\<open>crates/shared-types/src/block.rs\<close>): one record per struct, the
  shared fields in \<open>block_head\<close>, and the tagged union of the sixteen of them, with the
  projections and updates of \<open>impl Block\<close> and the form a client receives. The lemmas give each
  projection and update on every variant and how updates and projections meet.
\<close>

section \<open>Parts of blocks\<close>

text \<open>An entry of a vendor's own record: its owner's tag and its value as JSON text.\<close>

record vendor_entry =
  entry_owner :: string
  entry_json :: string

datatype instruction_entry =
    PersonalInstructions
  | FileInstructions string
  | WorkflowInstructions string string

definition quoted :: "string \<Rightarrow> string" where
  "quoted s = [CHR 0x22] @ s @ [CHR 0x22]"

definition instruction_tags :: "instruction_entry \<Rightarrow> string \<times> string" where
  "instruction_tags e =
     (case e of
        PersonalInstructions \<Rightarrow> (''<personal_instructions>'', ''</personal_instructions>'')
      | FileInstructions path \<Rightarrow>
          (''<project_instructions path='' @ quoted (xml_escaped path) @ ''>'', ''</project_instructions>'')
      | WorkflowInstructions name _ \<Rightarrow>
          (''<workflow name='' @ quoted (xml_escaped name) @ ''>'', ''</workflow>''))"

definition instruction_section :: "instruction_entry \<Rightarrow> string \<Rightarrow> string" where
  "instruction_section e text =
     (case instruction_tags e of (opening, closing) \<Rightarrow>
        opening @ [CHR 0x0A] @ text @ [CHR 0x0A] @ closing)"

datatype wakeup_placement = NewTurn | AsSteer

datatype stopped_by = ByUser | ByAgent nat

datatype report_event =
    ReportRunning nat nat
  | ReportEnded "int option"
  | ReportStopped "stopped_by option"
  | ReportLost string

record command_report =
  cr_command_id :: command_id
  cr_title :: string
  cr_event :: report_event
  cr_output :: string
  cr_media :: "tool_result_content list"

datatype command_end = EndExited int | EndStopped | EndLost string | EndUnrecorded

record schedule_mark =
  sm_schedule_id :: string
  sm_run_id :: string
  sm_name :: string
  sm_at :: timestamp

datatype account_switch_cause = UsedUp | SignedOut | Refused

datatype search_action =
    SearchWeb "string list"
  | OpenPage string
  | FindInPage string string
  | SearchX string
  | SearchXPeople string
  | ReadXPost string
  | ViewImage string
  | ViewXVideo string

record search_source =
  ss_url :: string
  ss_title :: "string option"

datatype opaque_status = StepRunning | StepCompleted | StepFailed

datatype opaque_view =
    ViewReasoning
  | ViewSearch search_action "search_source list"
  | ViewOther string string

record code_file =
  cf_code :: string
  cf_file :: string
  cf_line :: "nat option"

datatype picture_failure =
    PictureMissing
  | PictureTooLarge nat
  | PictureNotAnImage string
  | PictureDeviceUnavailable
  | PictureUnreadable

datatype picture_copy = Copying | Copied string | CopyFailed picture_failure

record reply_picture =
  rp_target :: string
  rp_copy :: picture_copy

datatype call_status = Executing | CallCompleted | CallError

record error_device =
  ed_id :: string
  ed_name :: string

section \<open>The variants\<close>

record block_head =
  block_id :: block_id
  created_at :: timestamp
  request :: "block_id option"
  block_model :: model_selection

record user_block = block_head +
  u_turn_id :: turn_id
  u_content :: "user_content list"
  u_comments :: "message_comment list"
  u_preamble :: "string option"
  u_schedule :: "schedule_mark option"
  u_entries :: "vendor_entry list"

record context_block = block_head +
  c_turn_id :: turn_id
  c_source :: string
  c_text :: string
  c_instructions :: "instruction_entry list"
  c_cwd :: "string option"
  c_entries :: "vendor_entry list"

record wakeup_block = block_head +
  w_turn_id :: turn_id
  w_placement :: wakeup_placement
  w_reports :: "command_report list"
  w_run :: "block_id option"
  w_entries :: "vendor_entry list"

record steer_block = block_head +
  s_turn_id :: turn_id
  s_content :: "user_content list"
  s_comments :: "message_comment list"
  s_entries :: "vendor_entry list"

record agent_message_block = block_head +
  m_turn_id :: turn_id
  m_message :: agent_message
  m_run :: "block_id option"
  m_entries :: "vendor_entry list"

record resume_block = block_head +
  r_turn_id :: turn_id
  r_reason :: "string option"
  r_entries :: "vendor_entry list"

record abort_block = block_head +
  a_is_resumed :: bool

record thinking_block = block_head +
  th_text :: string
  th_signature :: "string option"
  th_ended_at :: "timestamp option"
  th_run :: "block_id option"
  th_text_length :: "nat option"
  th_entries :: "vendor_entry list"

record opaque_block = block_head +
  o_call_id :: "string option"
  o_status :: opaque_status
  o_view :: opaque_view
  o_ended_at :: "timestamp option"
  o_run :: "block_id option"
  o_entries :: "vendor_entry list"

record text_block = block_head +
  t_text :: string
  t_ended_at :: "timestamp option"
  t_forkable :: bool
  t_code_files :: "code_file list option"
  t_pictures :: "reply_picture list option"
  t_entries :: "vendor_entry list"

record tool_call_block = block_head +
  tc_tool_use_id :: string
  tc_tool_name :: string
  tc_input :: string
  tc_status :: call_status
  tc_output :: "tool_result_content list"
  tc_view :: "tool_view option"
  tc_writing_started_at :: "timestamp option"
  tc_ended_at :: "timestamp option"
  tc_run :: "block_id option"
  tc_entries :: "vendor_entry list"

record response_block = block_head +
  rs_sent_at :: "timestamp option"
  rs_first_sent_at :: "timestamp option"
  rs_first_output_at :: "timestamp option"
  rs_usage :: "token_usage option"

record error_block = block_head +
  e_message :: string
  e_code :: "string option"
  e_diagnostics :: "provider_error_diagnostics option"
  e_outside_turn :: bool
  e_device :: "error_device option"
  e_account :: "string option"

record account_switch_block = block_head +
  sw_cause :: account_switch_cause
  sw_from :: string
  sw_to :: string
  sw_window :: "quota_window_name option"
  sw_resets_at :: "timestamp option"

record compaction_boundary_block = block_head +
  b_summary :: string
  b_summary_tokens :: nat
  b_kept :: "kept_message list"
  b_entries :: "vendor_entry list"

record compaction_marker_block = block_head +
  mk_started_at :: "timestamp option"
  mk_boundary_id :: block_id
  mk_compacted_tokens :: nat
  mk_idle :: bool

datatype block =
    User user_block
  | Context context_block
  | Wakeup wakeup_block
  | Steer steer_block
  | AgentMessage agent_message_block
  | Resume resume_block
  | Abort abort_block
  | Thinking thinking_block
  | Opaque opaque_block
  | TextBlock text_block
  | ToolCall tool_call_block
  | Response response_block
  | Error error_block
  | AccountSwitch account_switch_block
  | CompactionBoundary compaction_boundary_block
  | CompactionMarker compaction_marker_block

definition is_user :: "block \<Rightarrow> bool" where
  "is_user b = (case b of User _ \<Rightarrow> True | _ \<Rightarrow> False)"

lemma is_user_simps [simp, block_simps]:
  "is_user (User u)" "\<not> is_user (Context c)" "\<not> is_user (Wakeup w)" "\<not> is_user (Steer s)"
  "\<not> is_user (AgentMessage m)" "\<not> is_user (Resume r)" "\<not> is_user (Abort a)"
  "\<not> is_user (Thinking t)" "\<not> is_user (Opaque p)" "\<not> is_user (TextBlock x)"
  "\<not> is_user (ToolCall tc)" "\<not> is_user (Response rs)" "\<not> is_user (Error e)"
  "\<not> is_user (AccountSwitch sw)" "\<not> is_user (CompactionBoundary b)"
  "\<not> is_user (CompactionMarker mk)"
  by (simp_all add: is_user_def)

section \<open>Projections and updates\<close>

text \<open>\<open>on_block!\<close> reads or sets a field of the head, whichever the variant is.\<close>

fun id_of :: "block \<Rightarrow> block_id" where
  "id_of (User x) = block_id x"
| "id_of (Context x) = block_id x"
| "id_of (Wakeup x) = block_id x"
| "id_of (Steer x) = block_id x"
| "id_of (AgentMessage x) = block_id x"
| "id_of (Resume x) = block_id x"
| "id_of (Abort x) = block_id x"
| "id_of (Thinking x) = block_id x"
| "id_of (Opaque x) = block_id x"
| "id_of (TextBlock x) = block_id x"
| "id_of (ToolCall x) = block_id x"
| "id_of (Response x) = block_id x"
| "id_of (Error x) = block_id x"
| "id_of (AccountSwitch x) = block_id x"
| "id_of (CompactionBoundary x) = block_id x"
| "id_of (CompactionMarker x) = block_id x"

fun created_at_of :: "block \<Rightarrow> timestamp" where
  "created_at_of (User x) = created_at x"
| "created_at_of (Context x) = created_at x"
| "created_at_of (Wakeup x) = created_at x"
| "created_at_of (Steer x) = created_at x"
| "created_at_of (AgentMessage x) = created_at x"
| "created_at_of (Resume x) = created_at x"
| "created_at_of (Abort x) = created_at x"
| "created_at_of (Thinking x) = created_at x"
| "created_at_of (Opaque x) = created_at x"
| "created_at_of (TextBlock x) = created_at x"
| "created_at_of (ToolCall x) = created_at x"
| "created_at_of (Response x) = created_at x"
| "created_at_of (Error x) = created_at x"
| "created_at_of (AccountSwitch x) = created_at x"
| "created_at_of (CompactionBoundary x) = created_at x"
| "created_at_of (CompactionMarker x) = created_at x"

fun request_of_block :: "block \<Rightarrow> block_id option" where
  "request_of_block (User x) = request x"
| "request_of_block (Context x) = request x"
| "request_of_block (Wakeup x) = request x"
| "request_of_block (Steer x) = request x"
| "request_of_block (AgentMessage x) = request x"
| "request_of_block (Resume x) = request x"
| "request_of_block (Abort x) = request x"
| "request_of_block (Thinking x) = request x"
| "request_of_block (Opaque x) = request x"
| "request_of_block (TextBlock x) = request x"
| "request_of_block (ToolCall x) = request x"
| "request_of_block (Response x) = request x"
| "request_of_block (Error x) = request x"
| "request_of_block (AccountSwitch x) = request x"
| "request_of_block (CompactionBoundary x) = request x"
| "request_of_block (CompactionMarker x) = request x"

fun set_request :: "block_id option \<Rightarrow> block \<Rightarrow> block" where
  "set_request r (User x) = User (x\<lparr>request := r\<rparr>)"
| "set_request r (Context x) = Context (x\<lparr>request := r\<rparr>)"
| "set_request r (Wakeup x) = Wakeup (x\<lparr>request := r\<rparr>)"
| "set_request r (Steer x) = Steer (x\<lparr>request := r\<rparr>)"
| "set_request r (AgentMessage x) = AgentMessage (x\<lparr>request := r\<rparr>)"
| "set_request r (Resume x) = Resume (x\<lparr>request := r\<rparr>)"
| "set_request r (Abort x) = Abort (x\<lparr>request := r\<rparr>)"
| "set_request r (Thinking x) = Thinking (x\<lparr>request := r\<rparr>)"
| "set_request r (Opaque x) = Opaque (x\<lparr>request := r\<rparr>)"
| "set_request r (TextBlock x) = TextBlock (x\<lparr>request := r\<rparr>)"
| "set_request r (ToolCall x) = ToolCall (x\<lparr>request := r\<rparr>)"
| "set_request r (Response x) = Response (x\<lparr>request := r\<rparr>)"
| "set_request r (Error x) = Error (x\<lparr>request := r\<rparr>)"
| "set_request r (AccountSwitch x) = AccountSwitch (x\<lparr>request := r\<rparr>)"
| "set_request r (CompactionBoundary x) = CompactionBoundary (x\<lparr>request := r\<rparr>)"
| "set_request r (CompactionMarker x) = CompactionMarker (x\<lparr>request := r\<rparr>)"

fun entries :: "block \<Rightarrow> vendor_entry list" where
  "entries (User x) = u_entries x"
| "entries (Context x) = c_entries x"
| "entries (Wakeup x) = w_entries x"
| "entries (Steer x) = s_entries x"
| "entries (AgentMessage x) = m_entries x"
| "entries (Resume x) = r_entries x"
| "entries (Thinking x) = th_entries x"
| "entries (Opaque x) = o_entries x"
| "entries (TextBlock x) = t_entries x"
| "entries (ToolCall x) = tc_entries x"
| "entries (CompactionBoundary x) = b_entries x"
| "entries (Abort x) = []"
| "entries (Response x) = []"
| "entries (Error x) = []"
| "entries (AccountSwitch x) = []"
| "entries (CompactionMarker x) = []"

text \<open>
  \<open>entries_mut\<close> lends the entries to change: the model is the block with a change made through
  it, none for a variant that lends nothing.
\<close>

fun entries_mut :: "(vendor_entry list \<Rightarrow> vendor_entry list) \<Rightarrow> block \<Rightarrow> block option" where
  "entries_mut f (User x) = Some (User (x\<lparr>u_entries := f (u_entries x)\<rparr>))"
| "entries_mut f (Context x) = Some (Context (x\<lparr>c_entries := f (c_entries x)\<rparr>))"
| "entries_mut f (Wakeup x) = Some (Wakeup (x\<lparr>w_entries := f (w_entries x)\<rparr>))"
| "entries_mut f (Steer x) = Some (Steer (x\<lparr>s_entries := f (s_entries x)\<rparr>))"
| "entries_mut f (AgentMessage x) = Some (AgentMessage (x\<lparr>m_entries := f (m_entries x)\<rparr>))"
| "entries_mut f (Resume x) = Some (Resume (x\<lparr>r_entries := f (r_entries x)\<rparr>))"
| "entries_mut f (Thinking x) = Some (Thinking (x\<lparr>th_entries := f (th_entries x)\<rparr>))"
| "entries_mut f (Opaque x) = Some (Opaque (x\<lparr>o_entries := f (o_entries x)\<rparr>))"
| "entries_mut f (TextBlock x) = Some (TextBlock (x\<lparr>t_entries := f (t_entries x)\<rparr>))"
| "entries_mut f (ToolCall x) = Some (ToolCall (x\<lparr>tc_entries := f (tc_entries x)\<rparr>))"
| "entries_mut f (CompactionBoundary x) = Some (CompactionBoundary (x\<lparr>b_entries := f (b_entries x)\<rparr>))"
| "entries_mut f (Abort x) = None"
| "entries_mut f (Response x) = None"
| "entries_mut f (Error x) = None"
| "entries_mut f (AccountSwitch x) = None"
| "entries_mut f (CompactionMarker x) = None"

fun run_of_block :: "block \<Rightarrow> block_id option" where
  "run_of_block (Thinking x) = th_run x"
| "run_of_block (Opaque x) = o_run x"
| "run_of_block (ToolCall x) = tc_run x"
| "run_of_block (Wakeup x) = w_run x"
| "run_of_block (AgentMessage x) = m_run x"
| "run_of_block _ = None"

fun set_run :: "block_id option \<Rightarrow> block \<Rightarrow> block" where
  "set_run r (Thinking x) = Thinking (x\<lparr>th_run := r\<rparr>)"
| "set_run r (Opaque x) = Opaque (x\<lparr>o_run := r\<rparr>)"
| "set_run r (ToolCall x) = ToolCall (x\<lparr>tc_run := r\<rparr>)"
| "set_run r (Wakeup x) = Wakeup (x\<lparr>w_run := r\<rparr>)"
| "set_run r (AgentMessage x) = AgentMessage (x\<lparr>m_run := r\<rparr>)"
| "set_run r b = b"

definition is_editable :: "block \<Rightarrow> bool" where
  "is_editable b = (case b of User _ \<Rightarrow> True | Steer _ \<Rightarrow> True | _ \<Rightarrow> False)"

text \<open>\<open>UserBlock::lead_content\<close>: what the model reads before the message's content.\<close>

definition lead_content :: "user_block \<Rightarrow> user_content list" where
  "lead_content u =
     (case u_preamble u of Some text \<Rightarrow> [CText text] | None \<Rightarrow> []) @ comments_content (u_comments u)"

text \<open>\<open>client_block::sent\<close>: the block as a client receives it.\<close>

definition sent :: "block \<Rightarrow> block" where
  "sent b =
     (if entries b = [] then b
      else case entries_mut (\<lambda>_. []) b of Some b' \<Rightarrow> b' | None \<Rightarrow> b)"

definition sent_blocks :: "block list \<Rightarrow> block list" where
  "sent_blocks blocks = map sent blocks"

section \<open>How projections and updates meet\<close>

lemma set_request_projections [simp]:
  "id_of (set_request r b) = id_of b"
  "created_at_of (set_request r b) = created_at_of b"
  "request_of_block (set_request r b) = r"
  "entries (set_request r b) = entries b"
  "run_of_block (set_request r b) = run_of_block b"
  "is_user (set_request r b) = is_user b"
  "is_editable (set_request r b) = is_editable b"
  "set_request r (set_request r' b) = set_request r b"
  by (cases b; simp add: is_editable_def)+

lemma set_request_same [simp]: "set_request (request_of_block b) b = b"
  by (cases b) simp_all

text \<open>Whether a block can be a step, so that it holds a run.\<close>

definition holds_run :: "block \<Rightarrow> bool" where
  "holds_run b =
     (case b of Thinking _ \<Rightarrow> True | Opaque _ \<Rightarrow> True | ToolCall _ \<Rightarrow> True | Wakeup _ \<Rightarrow> True
      | AgentMessage _ \<Rightarrow> True | _ \<Rightarrow> False)"

lemma set_run_projections [simp]:
  "id_of (set_run r b) = id_of b"
  "created_at_of (set_run r b) = created_at_of b"
  "request_of_block (set_run r b) = request_of_block b"
  "entries (set_run r b) = entries b"
  "is_user (set_run r b) = is_user b"
  "is_editable (set_run r b) = is_editable b"
  "holds_run (set_run r b) = holds_run b"
  "set_run r (set_run r' b) = set_run r b"
  by (cases b; simp add: is_editable_def holds_run_def)+

lemma run_of_set_run: "run_of_block (set_run r b) = (if holds_run b then r else None)"
  by (cases b) (simp_all add: holds_run_def)

lemma set_run_same: "set_run (run_of_block b) b = b"
  by (cases b) simp_all

lemma set_run_request: "set_run r (set_request q b) = set_request q (set_run r b)"
  by (cases b) simp_all

lemma entries_mut_projections:
  "entries_mut f b = Some b' \<Longrightarrow>
     id_of b' = id_of b \<and> created_at_of b' = created_at_of b \<and> request_of_block b' = request_of_block b
     \<and> run_of_block b' = run_of_block b \<and> is_user b' = is_user b \<and> entries b' = f (entries b)"
  by (cases b) auto

lemma entries_mut_None: "entries_mut f b = None \<Longrightarrow> entries b = []"
  by (cases b) auto

lemma entries_mut_twice:
  "entries_mut f b = Some b' \<Longrightarrow> entries_mut g b' = entries_mut (g \<circ> f) b"
  by (cases b) auto

lemma sent_entries [simp]: "entries (sent b) = []"
  by (cases b) (simp_all add: sent_def)

lemma sent_projections [simp]:
  "id_of (sent b) = id_of b" "created_at_of (sent b) = created_at_of b"
  "request_of_block (sent b) = request_of_block b" "run_of_block (sent b) = run_of_block b"
  "is_user (sent b) = is_user b" "is_editable (sent b) = is_editable b"
  by (cases b; simp add: sent_def is_editable_def)+

lemma sent_idem [simp]: "sent (sent b) = sent b"
  by (simp add: sent_def [of "sent b"])

lemma sent_forgets: "entries_mut f b = Some b' \<Longrightarrow> sent b' = sent b"
  by (cases b) (auto simp: sent_def)

lemma sent_only_forgets: "entries_mut (\<lambda>_. entries b) (sent b) = Some b \<or> sent b = b"
  by (cases b) (simp_all add: sent_def)

text \<open>
  \<open>text_appended delta at b\<close>: the block with text added, the change a page makes on an \<open>append_text\<close>
  patch; it changes a reasoning or a text block only.
\<close>

fun text_appended :: "string \<Rightarrow> timestamp \<Rightarrow> block \<Rightarrow> block" where
  "text_appended delta at (Thinking x) = Thinking (x\<lparr>th_text := th_text x @ delta, th_ended_at := Some at\<rparr>)"
| "text_appended delta at (TextBlock x) = TextBlock (x\<lparr>t_text := t_text x @ delta, t_ended_at := Some at\<rparr>)"
| "text_appended delta at b = b"

lemma text_appended_twice:
  "text_appended d2 t2 (text_appended d1 t1 b) = text_appended (d1 @ d2) t2 b"
  by (cases b) simp_all

lemma text_appended_projections [simp]:
  "id_of (text_appended d t b) = id_of b"
  "request_of_block (text_appended d t b) = request_of_block b"
  "run_of_block (text_appended d t b) = run_of_block b"
  "entries (text_appended d t b) = entries b"
  "is_user (text_appended d t b) = is_user b"
  by (cases b; simp)+

end
