(* ===== verification/Journal.thy ===== *)
theory Journal imports Blocks begin

text \<open>
  How a change of a transcript travels and is remembered: the patch, the versions of a place
  and the version of a transcript (\<open>crates/conversation-lane-protocol/src/transcript.rs\<close>), the
  rows a save must write and the journal of the changes since the last commit
  (\<open>crates/agent-transcript/src/journal.rs\<close>). The specification of a patch is \<open>apply_patch\<close>, what
  the one applier of the pages does with it. The lemmas show that the rows of two commits
  together are exactly the union of what each must write, and that merging two appended texts
  into one patch changes nothing for whoever applies it.
\<close>

section \<open>Patches and versions\<close>

record versions =
  v_index :: nat
  v_count :: nat

record block_versions =
  bv_block_id :: block_id
  bv_index :: nat
  bv_count :: nat

record version =
  ver_epoch :: string
  ver_revision :: nat

datatype patch =
    PAdd nat block "versions option"
  | PReplace nat block
  | PAppend nat string timestamp
  | PTruncate nat

definition block_versions_new :: "block_id \<Rightarrow> versions \<Rightarrow> block_versions" where
  "block_versions_new i v = \<lparr>bv_block_id = i, bv_index = v_index v, bv_count = v_count v\<rparr>"

text \<open>
  \<open>BlockVersions::of\<close>: the ordered walk over the places from \<open>start\<close> on; a place past the last
  block is passed over, so the walk over the places of the blocks answers the same.
\<close>

definition block_versions_of ::
  "block list \<Rightarrow> (nat \<rightharpoonup> versions) \<Rightarrow> nat \<Rightarrow> block_versions list" where
  "block_versions_of blocks vs start =
     List.map_filter
       (\<lambda>position. case vs position of
          None \<Rightarrow> None
        | Some held \<Rightarrow> Some (block_versions_new (id_of (blocks ! position)) held))
       [start..<length blocks]"

section \<open>What a patch does (packages/conversation-client/src/transcript.ts)\<close>

text \<open>
  A page that holds the whole transcript, each block with where it stands among the versions of
  its place. A patch outside the transcript changes nothing but for an addition past the end,
  which no journal records.
\<close>

type_synonym placed = "block \<times> versions option"

fun apply_patch :: "placed list \<Rightarrow> patch \<Rightarrow> placed list" where
  "apply_patch bs (PAdd i b v) = insert_at i (b, v) bs"
| "apply_patch bs (PReplace i b) = (if i < length bs then bs[i := (b, snd (bs ! i))] else bs)"
| "apply_patch bs (PAppend i delta t) =
     (if i < length bs then bs[i := (text_appended delta t (fst (bs ! i)), snd (bs ! i))] else bs)"
| "apply_patch bs (PTruncate n) = take n bs"

definition apply_patches :: "placed list \<Rightarrow> patch list \<Rightarrow> placed list" where
  "apply_patches bs ps = foldl apply_patch bs ps"

lemma apply_patches_Nil [simp]: "apply_patches bs [] = bs"
  by (simp add: apply_patches_def)

lemma apply_patches_append [simp]:
  "apply_patches bs (ps @ qs) = apply_patches (apply_patches bs ps) qs"
  by (simp add: apply_patches_def)

lemma apply_patches_snoc: "apply_patches bs (ps @ [p]) = apply_patch (apply_patches bs ps) p"
  by (simp add: apply_patches_def)

lemma apply_append_twice:
  "apply_patch (apply_patch bs (PAppend i d1 t1)) (PAppend i d2 t2) = apply_patch bs (PAppend i (d1 @ d2) t2)"
  by (simp add: text_appended_twice)

section \<open>The rows a save writes\<close>

record dirty_rows =
  dr_floor :: "nat option"
  dr_points :: "nat set"

definition no_rows :: dirty_rows where
  "no_rows = \<lparr>dr_floor = None, dr_points = {}\<rparr>"

definition move_from :: "dirty_rows \<Rightarrow> nat \<Rightarrow> dirty_rows" where
  "move_from d index =
     (let floor = (case dr_floor d of None \<Rightarrow> index | Some f \<Rightarrow> min f index)
      in d\<lparr>dr_floor := Some floor, dr_points := Set.filter (\<lambda>point. point < floor) (dr_points d)\<rparr>)"

definition change_row :: "dirty_rows \<Rightarrow> nat \<Rightarrow> dirty_rows" where
  "change_row d index =
     (if (case dr_floor d of None \<Rightarrow> True | Some f \<Rightarrow> index < f)
      then d\<lparr>dr_points := insert index (dr_points d)\<rparr>
      else d)"

definition dirty_indices :: "dirty_rows \<Rightarrow> nat \<Rightarrow> nat list" where
  "dirty_indices d len =
     (let floor = min (case dr_floor d of None \<Rightarrow> len | Some f \<Rightarrow> f) len
      in filter (\<lambda>index. index < floor) (sorted_list_of_set (dr_points d)) @ [floor..<len])"

definition lowest_row :: "dirty_rows \<Rightarrow> nat option" where
  "lowest_row d =
     (case (if dr_points d = {} then None else Some (Min (dr_points d)), dr_floor d) of
        (None, f) \<Rightarrow> f
      | (p, None) \<Rightarrow> p
      | (Some p, Some f) \<Rightarrow> Some (min p f))"

definition merge_rows :: "dirty_rows \<Rightarrow> dirty_rows \<Rightarrow> dirty_rows" where
  "merge_rows d other =
     foldl change_row
       (case dr_floor other of Some f \<Rightarrow> move_from d f | None \<Rightarrow> d)
       (sorted_list_of_set (dr_points other))"

text \<open>The rows that must be written: the positions at or past the floor, and the points.\<close>

definition dirty :: "dirty_rows \<Rightarrow> nat \<Rightarrow> bool" where
  "dirty d i = (i \<in> dr_points d \<or> (case dr_floor d of None \<Rightarrow> False | Some f \<Rightarrow> f \<le> i))"

text \<open>The form the operations keep: finitely many points, all below the floor.\<close>

definition rows_ok :: "dirty_rows \<Rightarrow> bool" where
  "rows_ok d = (finite (dr_points d)
     \<and> (case dr_floor d of None \<Rightarrow> True | Some f \<Rightarrow> \<forall>point\<in>dr_points d. point < f))"

lemma no_rows_ok [simp]: "rows_ok no_rows"
  by (simp add: rows_ok_def no_rows_def)

lemma no_rows_dirty [simp]: "\<not> dirty no_rows i"
  by (simp add: dirty_def no_rows_def)

lemma no_rows_fields [simp]: "dr_floor no_rows = None" "dr_points no_rows = {}"
  by (simp_all add: no_rows_def)

lemma move_from_ok [simp]: "rows_ok d \<Longrightarrow> rows_ok (move_from d i)"
  by (simp add: rows_ok_def move_from_def Let_def)

lemma move_from_dirty [simp]: "rows_ok d \<Longrightarrow> dirty (move_from d i) j = (dirty d j \<or> i \<le> j)"
  by (auto simp: rows_ok_def dirty_def move_from_def Let_def split: option.splits)

lemma change_row_ok [simp]: "rows_ok d \<Longrightarrow> rows_ok (change_row d i)"
  by (auto simp: rows_ok_def change_row_def split: option.splits)

lemma change_row_dirty [simp]: "dirty (change_row d i) j = (dirty d j \<or> j = i)"
  by (auto simp: dirty_def change_row_def split: option.splits)

lemma floor_move_from [simp]:
  "dr_floor (move_from d i) = Some (case dr_floor d of None \<Rightarrow> i | Some f \<Rightarrow> min f i)"
  by (simp add: move_from_def Let_def)

lemma floor_change_row [simp]: "dr_floor (change_row d i) = dr_floor d"
  by (simp add: change_row_def split: option.splits)

lemma changes_dirty:
  "rows_ok d \<Longrightarrow> rows_ok (foldl change_row d is)
     \<and> dirty (foldl change_row d is) j = (dirty d j \<or> j \<in> set is)
     \<and> dr_floor (foldl change_row d is) = dr_floor d"
  by (induction "is" arbitrary: d) auto

lemma merge_rows_ok [simp]: "rows_ok d \<Longrightarrow> rows_ok (merge_rows d other)"
  by (simp add: merge_rows_def changes_dirty split: option.split)

lemma merge_rows_dirty [simp]:
  "rows_ok d \<Longrightarrow> rows_ok other \<Longrightarrow> dirty (merge_rows d other) j = (dirty d j \<or> dirty other j)"
  by (cases "dr_floor other")
    (auto simp: merge_rows_def changes_dirty rows_ok_def [of other] dirty_def [of other])

lemma merge_rows_floor:
  "rows_ok d \<Longrightarrow> dr_floor (merge_rows d other) =
     (case dr_floor other of None \<Rightarrow> dr_floor d
      | Some g \<Rightarrow> Some (case dr_floor d of None \<Rightarrow> g | Some f \<Rightarrow> min f g))"
  by (simp add: merge_rows_def changes_dirty split: option.split)

lemma dirty_indices_set:
  "rows_ok d \<Longrightarrow> set (dirty_indices d len) = {i. i < len \<and> dirty d i}"
  by (auto simp: dirty_indices_def rows_ok_def dirty_def Let_def min_def split: option.splits)

lemma dirty_indices_sorted:
  assumes "rows_ok d"
  shows "sorted_wrt (<) (dirty_indices d len)"
proof -
  let ?floor = "min (case dr_floor d of None \<Rightarrow> len | Some f \<Rightarrow> f) len"
  have "sorted_wrt (<) (filter (\<lambda>i. i < ?floor) (sorted_list_of_set (dr_points d)))"
    by (rule sorted_wrt_filter) simp
  then show ?thesis
    by (auto simp: dirty_indices_def Let_def sorted_wrt_append)
qed

lemma lowest_row_None: "rows_ok d \<Longrightarrow> (lowest_row d = None) = (\<forall>i. \<not> dirty d i)"
  by (auto simp: lowest_row_def dirty_def rows_ok_def split: option.splits if_splits)

lemma lowest_row_Some:
  assumes "rows_ok d" "lowest_row d = Some i"
  shows "dirty d i \<and> (\<forall>j<i. \<not> dirty d j)"
proof (cases "dr_points d = {}")
  case True
  then show ?thesis using assms by (auto simp: lowest_row_def dirty_def split: option.splits)
next
  case False
  have fin: "finite (dr_points d)" using assms(1) by (simp add: rows_ok_def)
  have mem: "Min (dr_points d) \<in> dr_points d" and least: "\<And>p. p \<in> dr_points d \<Longrightarrow> Min (dr_points d) \<le> p"
    using fin False by simp_all
  show ?thesis
  proof (cases "dr_floor d")
    case None
    then have "i = Min (dr_points d)"
      using False assms(2) by (simp add: lowest_row_def)
    then show ?thesis using mem least None by (force simp: dirty_def)
  next
    case (Some f)
    then have "i = Min (dr_points d)" "Min (dr_points d) < f"
      using False assms mem by (auto simp: lowest_row_def rows_ok_def)
    then show ?thesis using mem least Some by (force simp: dirty_def)
  qed
qed

lemma sorted_wrt_less_unique:
  "sorted_wrt (<) (xs :: nat list) \<Longrightarrow> sorted_wrt (<) ys \<Longrightarrow> set xs = set ys \<Longrightarrow> xs = ys"
  using sorted_list_of_set.idem_if_sorted_distinct strict_sorted_iff by metis

lemma merged_indices:
  assumes "rows_ok d" "rows_ok other"
  shows "dirty_indices (merge_rows d other) len = filter (\<lambda>i. dirty d i \<or> dirty other i) [0..<len]"
proof (rule sorted_wrt_less_unique)
  show "sorted_wrt (<) (dirty_indices (merge_rows d other) len)"
    by (rule dirty_indices_sorted [OF merge_rows_ok [OF assms(1)]])
  show "sorted_wrt (<) (filter (\<lambda>i. dirty d i \<or> dirty other i) [0..<len])"
    by (rule sorted_wrt_filter) simp
  show "set (dirty_indices (merge_rows d other) len) = set (filter (\<lambda>i. dirty d i \<or> dirty other i) [0..<len])"
    using assms by (auto simp: dirty_indices_set)
qed

lemma merged_lowest:
  assumes "rows_ok d" "rows_ok other"
  shows "lowest_row (merge_rows d other) =
     (case (lowest_row d, lowest_row other) of
        (None, low) \<Rightarrow> low
      | (low, None) \<Rightarrow> low
      | (Some i, Some j) \<Rightarrow> Some (min i j))"
proof -
  let ?m = "merge_rows d other"
  have ok: "rows_ok ?m" by (rule merge_rows_ok [OF assms(1)])
  have mem: "dirty ?m i = (dirty d i \<or> dirty other i)" for i using assms by simp
  have least: "lowest_row ?m = Some i" if "dirty ?m i" "\<forall>j<i. \<not> dirty ?m j" for i
    using that lowest_row_None [OF ok] lowest_row_Some [OF ok]
    by (cases "lowest_row ?m") (auto, metis linorder_neqE_nat)
  show ?thesis
  proof (cases "lowest_row d")
    case None
    then have d: "\<not> dirty d i" for i using lowest_row_None [OF assms(1)] by simp
    show ?thesis
    proof (cases "lowest_row other")
      case None
      then show ?thesis
        using \<open>lowest_row d = None\<close> d lowest_row_None [OF assms(2)] lowest_row_None [OF ok] mem by simp
    next
      case (Some j)
      then show ?thesis
        using \<open>lowest_row d = None\<close> d lowest_row_Some [OF assms(2) Some] least [of j] mem by simp
    qed
  next
    case (Some i)
    note low = lowest_row_Some [OF assms(1) Some]
    show ?thesis
    proof (cases "lowest_row other")
      case None
      then show ?thesis
        using Some low lowest_row_None [OF assms(2)] least [of i] mem by simp
    next
      case (Some j)
      note low' = lowest_row_Some [OF assms(2) Some]
      show ?thesis
        using \<open>lowest_row d = Some i\<close> Some low low' least [of "min i j"] mem by (auto simp: min_def)
    qed
  qed
qed

text \<open>Below the floor a changed row updates the stored row of its place; from it on rows are new.\<close>

definition kept_row :: "dirty_rows \<Rightarrow> nat \<Rightarrow> bool" where
  "kept_row d i = (case dr_floor d of None \<Rightarrow> True | Some f \<Rightarrow> i < f)"

lemma kept_row_simps [simp]:
  "kept_row no_rows i"
  "kept_row (change_row d j) i = kept_row d i"
  "kept_row (move_from d j) i = (kept_row d i \<and> i < j)"
  by (auto simp: kept_row_def split: option.split)

lemma kept_row_merge [simp]:
  "rows_ok d \<Longrightarrow> kept_row (merge_rows d other) i = (kept_row d i \<and> kept_row other i)"
  by (auto simp: kept_row_def merge_rows_floor split: option.split)

lemma clean_kept: "\<not> dirty d i \<Longrightarrow> kept_row d i"
  by (auto simp: kept_row_def dirty_def split: option.splits)

section \<open>The journal\<close>

record patch_batch =
  pb_revision :: nat
  pb_patches :: "patch list"
  pb_rows :: dirty_rows

record journal =
  j_patches :: "patch list"
  j_rows :: dirty_rows

definition empty_journal :: journal where
  "empty_journal = \<lparr>j_patches = [], j_rows = no_rows\<rparr>"

definition journal_add :: "journal \<Rightarrow> nat \<Rightarrow> block \<Rightarrow> versions option \<Rightarrow> journal" where
  "journal_add j index b v =
     j\<lparr>j_rows := move_from (j_rows j) index, j_patches := j_patches j @ [PAdd index b v]\<rparr>"

definition journal_replace :: "journal \<Rightarrow> nat \<Rightarrow> block \<Rightarrow> journal" where
  "journal_replace j index b =
     j\<lparr>j_rows := change_row (j_rows j) index, j_patches := j_patches j @ [PReplace index b]\<rparr>"

definition journal_truncate :: "journal \<Rightarrow> nat \<Rightarrow> journal" where
  "journal_truncate j index =
     j\<lparr>j_rows := move_from (j_rows j) index, j_patches := j_patches j @ [PTruncate index]\<rparr>"

definition journal_append_text :: "journal \<Rightarrow> nat \<Rightarrow> string \<Rightarrow> timestamp \<Rightarrow> journal" where
  "journal_append_text j index delta ended_at =
     (let rows = change_row (j_rows j) index;
          push = j_patches j @ [PAppend index delta ended_at]
      in if j_patches j = [] then j\<lparr>j_rows := rows, j_patches := push\<rparr>
         else case last (j_patches j) of
           PAppend i merged _ \<Rightarrow>
             if i = index
             then j\<lparr>j_rows := rows,
                    j_patches := butlast (j_patches j) @ [PAppend index (merged @ delta) ended_at]\<rparr>
             else j\<lparr>j_rows := rows, j_patches := push\<rparr>
         | _ \<Rightarrow> j\<lparr>j_rows := rows, j_patches := push\<rparr>)"

definition journal_take :: "journal \<Rightarrow> nat \<Rightarrow> patch_batch option \<times> journal" where
  "journal_take j revision =
     (if j_patches j = [] then (None, j)
      else (Some \<lparr>pb_revision = revision, pb_patches = j_patches j, pb_rows = j_rows j\<rparr>, empty_journal))"

lemma empty_journal_fields [simp]: "j_patches empty_journal = []" "j_rows empty_journal = no_rows"
  by (simp_all add: empty_journal_def)

text \<open>
  What each record of the journal adds: to the patches, seen by what they do, and to the rows.
\<close>

definition records :: "journal \<Rightarrow> patch \<Rightarrow> (dirty_rows \<Rightarrow> dirty_rows) \<Rightarrow> journal \<Rightarrow> bool" where
  "records j p rows j' =
     ((\<forall>bs. apply_patches bs (j_patches j') = apply_patch (apply_patches bs (j_patches j)) p)
      \<and> j_rows j' = rows (j_rows j) \<and> j_patches j' \<noteq> [])"

lemma journal_add_records: "records j (PAdd i b v) (\<lambda>d. move_from d i) (journal_add j i b v)"
  by (simp add: records_def journal_add_def apply_patches_snoc del: apply_patches_append)

lemma journal_replace_records: "records j (PReplace i b) (\<lambda>d. change_row d i) (journal_replace j i b)"
  by (simp add: records_def journal_replace_def apply_patches_snoc del: apply_patches_append)

lemma journal_truncate_records: "records j (PTruncate i) (\<lambda>d. move_from d i) (journal_truncate j i)"
  by (simp add: records_def journal_truncate_def apply_patches_snoc del: apply_patches_append)

lemma journal_append_text_records:
  "records j (PAppend i delta t) (\<lambda>d. change_row d i) (journal_append_text j i delta t)"
proof (cases "\<exists>ps merged t0. j_patches j = ps @ [PAppend i merged t0]")
  case True
  then obtain ps merged t0 where j: "j_patches j = ps @ [PAppend i merged t0]" by blast
  then have "j_patches (journal_append_text j i delta t) = ps @ [PAppend i (merged @ delta) t]"
    by (simp add: journal_append_text_def Let_def)
  then show ?thesis
    by (simp add: records_def j apply_patches_snoc apply_append_twice journal_append_text_def Let_def
        del: apply_patches_append apply_patch.simps)
next
  case False
  then have "j_patches (journal_append_text j i delta t) = j_patches j @ [PAppend i delta t]"
    by (cases "j_patches j" rule: rev_cases)
      (auto simp: journal_append_text_def Let_def split: patch.split)
  moreover have "j_rows (journal_append_text j i delta t) = change_row (j_rows j) i"
    by (simp add: journal_append_text_def Let_def split: patch.split)
  ultimately show ?thesis
    by (simp add: records_def apply_patches_snoc del: apply_patches_append)
qed

lemma journal_take_empties: "snd (journal_take j r) = empty_journal \<or> j_patches j = []"
  by (simp add: journal_take_def)

end
