(* ===== verification/Runs.thy ===== *)
theory Runs imports Blocks begin

text \<open>
  The run of steps and the request each block belongs to, decided as the block is stored
  (\<open>crates/agent-store/src/changes.rs\<close>, \<open>place\<close> to \<open>set_runs\<close>). The lemmas show that what the code
  finds by looking back one block at a time is what the words say: a step's run is the first step
  after the last block that ends a run, a block's request is the last \<open>user\<close> block up to it.
\<close>

datatype place = Step | Passes | Ends

fun is_running :: "report_event \<Rightarrow> bool" where
  "is_running (ReportRunning _ _) = True"
| "is_running _ = False"

fun place_of :: "block \<Rightarrow> bool \<Rightarrow> place" where
  "place_of (Thinking _) _ = Step"
| "place_of (Opaque _) _ = Step"
| "place_of (ToolCall _) _ = Step"
| "place_of (Wakeup w) _ =
     (if list_ex (\<lambda>report. \<not> is_running (cr_event report)) (w_reports w) then Step else Passes)"
| "place_of (AgentMessage m) sender_below =
     (case am_event (m_message m) of
        Completion _ \<Rightarrow> Step
      | MessageEvent \<Rightarrow> if sender_below then Step else Ends
      | Permission _ _ _ _ _ _ \<Rightarrow> Ends
      | Moved _ _ _ \<Rightarrow> Ends
      | MoveFailed _ _ \<Rightarrow> Ends)"
| "place_of (Response _) _ = Passes"
| "place_of (Resume _) _ = Passes"
| "place_of (Context _) _ = Passes"
| "place_of (CompactionBoundary _) _ = Passes"
| "place_of (Abort a) _ = (if a_is_resumed a then Passes else Ends)"
| "place_of (User _) _ = Ends"
| "place_of (Steer _) _ = Ends"
| "place_of (TextBlock _) _ = Ends"
| "place_of (Error _) _ = Ends"
| "place_of (AccountSwitch _) _ = Ends"
| "place_of (CompactionMarker _) _ = Ends"

text \<open>The walk of \<open>run_of\<close> over the blocks before, the nearest first.\<close>

fun run_back :: "block list \<Rightarrow> block_id option" where
  "run_back [] = None"
| "run_back (previous # rest) =
     (case place_of previous (run_of_block previous \<noteq> None) of
        Passes \<Rightarrow> run_back rest
      | Ends \<Rightarrow> None
      | Step \<Rightarrow> Some (case run_of_block previous of Some run \<Rightarrow> run | None \<Rightarrow> id_of previous))"

definition run_of :: "block list \<Rightarrow> block \<Rightarrow> bool \<Rightarrow> block_id option" where
  "run_of before b sender_below =
     (if place_of b sender_below \<noteq> Step then None
      else case run_back (rev before) of Some run \<Rightarrow> Some run | None \<Rightarrow> Some (id_of b))"

definition request_of :: "block list \<Rightarrow> block \<Rightarrow> block_id option" where
  "request_of before b =
     (if is_user b then Some (id_of b)
      else if before = [] then None else request_of_block (last before))"

text \<open>\<open>set_runs\<close>: each block in order, the blocks before it already set.\<close>

fun set_runs_from :: "block list \<Rightarrow> block list \<Rightarrow> block list" where
  "set_runs_from done [] = done"
| "set_runs_from done (b # rest) = set_runs_from (done @ [set_run (run_of done b True) b]) rest"

definition set_runs :: "block list \<Rightarrow> block list" where
  "set_runs blocks = set_runs_from [] blocks"

section \<open>A path whose runs are stored\<close>

text \<open>
  \<open>runs_stored\<close>: each block holds the run the code gave it as it was stored, an agent's message
  with wherever its sender stood then.
\<close>

definition runs_stored :: "block list \<Rightarrow> bool" where
  "runs_stored bs = (\<forall>i<length bs. \<exists>sb. run_of_block (bs ! i) = run_of (take i bs) (bs ! i) sb)"

text \<open>Where a stored block stands: the place its stored run says.\<close>

definition stands :: "block \<Rightarrow> place" where
  "stands b = place_of b (run_of_block b \<noteq> None)"

lemma place_step_holds_run: "place_of b sb = Step \<Longrightarrow> holds_run b"
  by (cases b) (simp_all add: holds_run_def split: if_splits)

lemma place_sender: "place_of b sb = Step \<Longrightarrow> place_of b True = Step"
  by (cases b) (simp_all split: agent_message_event.splits if_splits)

lemma place_set_run [simp]: "place_of (set_run r b) sb = place_of b sb"
  by (cases b) simp_all

lemma place_set_request [simp]: "place_of (set_request r b) sb = place_of b sb"
  by (cases b) simp_all

lemma run_of_set_run_block [simp]: "run_of bs (set_run r b) sb = run_of bs b sb"
  by (simp add: run_of_def split: option.split)

lemma run_of_None: "(run_of bs b sb = None) = (place_of b sb \<noteq> Step)"
  by (simp add: run_of_def split: option.split)

lemma stored_run_stands:
  assumes "run_of_block b = run_of before b sb"
  shows "stands b = Step \<longleftrightarrow> run_of_block b \<noteq> None"
proof
  assume "run_of_block b \<noteq> None"
  then have "place_of b sb = Step" using assms run_of_None by metis
  then show "stands b = Step"
    using place_sender \<open>run_of_block b \<noteq> None\<close> by (simp add: stands_def)
next
  assume step: "stands b = Step"
  show "run_of_block b \<noteq> None"
  proof
    assume none: "run_of_block b = None"
    then have "place_of b sb \<noteq> Step" "place_of b False = Step"
      using assms run_of_None step by (metis, simp add: stands_def)
    then show False
      by (cases b; cases sb) (auto split: agent_message_event.splits if_splits)
  qed
qed

lemma runs_stored_Nil [simp]: "runs_stored []"
  by (simp add: runs_stored_def)

lemma runs_stored_snoc:
  "runs_stored (bs @ [b]) = (runs_stored bs \<and> (\<exists>sb. run_of_block b = run_of bs b sb))"
  by (auto simp: runs_stored_def nth_append less_Suc_eq)

lemma runs_stored_take: "runs_stored bs \<Longrightarrow> runs_stored (take n bs)"
  by (auto simp: runs_stored_def min_def split: if_splits)

section \<open>A step's run is the first step after the last end\<close>

text \<open>\<open>run_head\<close>: the first step after the last block that ends a run, looking from the start.\<close>

fun run_head_from :: "block option \<Rightarrow> block list \<Rightarrow> block option" where
  "run_head_from open [] = open"
| "run_head_from open (b # rest) =
     run_head_from
       (case stands b of
          Passes \<Rightarrow> open
        | Ends \<Rightarrow> None
        | Step \<Rightarrow> (case open of None \<Rightarrow> Some b | Some first \<Rightarrow> Some first))
       rest"

definition run_head :: "block list \<Rightarrow> block option" where
  "run_head bs = run_head_from None bs"

lemma run_head_from_append:
  "run_head_from op (xs @ ys) = run_head_from (run_head_from op xs) ys"
  by (induction xs arbitrary: op) simp_all

lemma run_head_Nil [simp]: "run_head [] = None"
  by (simp add: run_head_def)

lemma run_head_snoc:
  "run_head (bs @ [b]) =
     (case stands b of
        Passes \<Rightarrow> run_head bs
      | Ends \<Rightarrow> None
      | Step \<Rightarrow> (case run_head bs of None \<Rightarrow> Some b | Some first \<Rightarrow> Some first))"
  by (simp add: run_head_def run_head_from_append split: place.split option.split)

lemma run_back_head: "runs_stored bs \<Longrightarrow> run_back (rev bs) = map_option id_of (run_head bs)"
proof (induction bs rule: rev_induct)
  case Nil
  show ?case by simp
next
  case (snoc b bs)
  then obtain sb where stored: "runs_stored bs" "run_of_block b = run_of bs b sb"
    by (auto simp: runs_stored_snoc)
  then have IH: "run_back (rev bs) = map_option id_of (run_head bs)"
    using snoc.IH by simp
  show ?case
  proof (cases "stands b = Step")
    case True
    then obtain r where r: "run_of_block b = Some r"
      using stored_run_stands [OF stored(2)] by auto
    moreover have "r = (case run_back (rev bs) of Some run \<Rightarrow> run | None \<Rightarrow> id_of b)"
      using r stored(2) by (auto simp: run_of_def split: option.splits if_splits)
    ultimately show ?thesis
      using True IH by (simp add: run_head_snoc stands_def split: option.splits)
  next
    case False
    then show ?thesis
      using IH by (cases "stands b") (simp_all add: run_head_snoc stands_def)
  qed
qed

lemma run_of_head:
  "runs_stored bs \<Longrightarrow>
     run_of bs b sb =
       (if place_of b sb = Step
        then Some (case run_head bs of Some first \<Rightarrow> id_of first | None \<Rightarrow> id_of b)
        else None)"
  by (simp add: run_of_def run_back_head split: option.split)

lemma run_head_is_step: "run_head bs = Some b \<Longrightarrow> b \<in> set bs \<and> stands b = Step"
  by (induction bs rule: rev_induct) (auto simp: run_head_snoc split: place.splits option.splits)

text \<open>The run of every stored step, by the path alone.\<close>

lemma stored_run_is_head:
  assumes "runs_stored bs" "i < length bs"
  shows "run_of_block (bs ! i) =
     (if stands (bs ! i) = Step then map_option id_of (run_head (take (Suc i) bs)) else None)"
proof -
  have pre: "runs_stored (take i bs)" by (rule runs_stored_take [OF assms(1)])
  obtain sb where sb: "run_of_block (bs ! i) = run_of (take i bs) (bs ! i) sb"
    using assms by (auto simp: runs_stored_def)
  have place: "stands (bs ! i) = Step \<longleftrightarrow> place_of (bs ! i) sb = Step"
    using stored_run_stands [OF sb] sb run_of_None by metis
  show ?thesis
    using sb place assms(2)
    by (auto simp: run_of_head [OF pre] take_Suc_conv_app_nth run_head_snoc split: option.split)
qed

text \<open>A block that never held a run is stored with one; setting runs stores every run.\<close>

lemma runs_stored_set_run:
  "runs_stored bs \<Longrightarrow> runs_stored (bs @ [set_run (run_of bs b sb) b])"
proof -
  have "run_of_block (set_run (run_of bs b sb) b) = run_of bs b sb"
    using place_step_holds_run [of b sb] run_of_None [of bs b sb] by (auto simp: run_of_set_run)
  then show "runs_stored bs \<Longrightarrow> ?thesis"
    by (auto simp: runs_stored_snoc)
qed

lemma set_runs_from_stored: "runs_stored pre \<Longrightarrow> runs_stored (set_runs_from pre bs)"
  by (induction pre bs rule: set_runs_from.induct) (simp_all add: runs_stored_set_run)

lemma set_runs_from_length: "length (set_runs_from pre bs) = length pre + length bs"
  by (induction pre bs rule: set_runs_from.induct) simp_all

lemma set_runs_from_others:
  "map (set_run None) (set_runs_from pre bs) = map (set_run None) (pre @ bs)"
  by (induction pre bs rule: set_runs_from.induct) simp_all

section \<open>A block's request is the last user block up to it\<close>

definition requests_stored :: "block list \<Rightarrow> bool" where
  "requests_stored bs = (\<forall>i<length bs. request_of_block (bs ! i) = request_of (take i bs) (bs ! i))"

text \<open>
  A window of a path: its first block carries its request from the store, each later one's
  follows.
\<close>

definition requests_follow :: "block list \<Rightarrow> bool" where
  "requests_follow bs =
     (\<forall>i<length bs. (0 < i \<or> is_user (bs ! i)) \<longrightarrow>
        request_of_block (bs ! i) = request_of (take i bs) (bs ! i))"

lemma requests_follow_Nil [simp]: "requests_follow []"
  by (simp add: requests_follow_def)

lemma requests_follow_snoc:
  "requests_follow (bs @ [b]) =
     (requests_follow bs \<and> ((bs \<noteq> [] \<or> is_user b) \<longrightarrow> request_of_block b = request_of bs b))"
  by (auto simp: requests_follow_def nth_append less_Suc_eq)

lemma requests_follow_take: "requests_follow bs \<Longrightarrow> requests_follow (take n bs)"
  by (auto simp: requests_follow_def min_def split: if_splits)

lemma requests_stored_follow: "requests_stored bs \<Longrightarrow> requests_follow bs"
  by (simp add: requests_stored_def requests_follow_def)

text \<open>The request by the path alone: the last \<open>user\<close> block, or what the first block carries.\<close>

definition request_at :: "block list \<Rightarrow> block_id option" where
  "request_at bs =
     (case rfind is_user bs of
        Some u \<Rightarrow> Some (id_of u)
      | None \<Rightarrow> if bs = [] then None else request_of_block (hd bs))"

lemma request_follows:
  "requests_follow bs \<Longrightarrow> bs \<noteq> [] \<Longrightarrow> request_of_block (last bs) = request_at bs"
proof (induction bs rule: rev_induct)
  case Nil
  then show ?case by simp
next
  case (snoc b bs)
  have one: "is_user b \<Longrightarrow> request_of_block b = Some (id_of b)"
    using snoc.prems(1) requests_follow_snoc [of bs b] by (simp add: request_of_def)
  show ?case
    using snoc one
    by (cases "bs = []")
      (auto simp: requests_follow_snoc request_of_def request_at_def rfind_append rfind_def
         rfind_map_def split: option.split)
qed

lemma stored_request_is_last_user:
  assumes "requests_follow bs" "i < length bs"
  shows "request_of_block (bs ! i) = request_at (take (Suc i) bs)"
proof -
  have "request_of_block (last (take (Suc i) bs)) = request_at (take (Suc i) bs)"
    using assms requests_follow_take by (intro request_follows) auto
  then show ?thesis
    using assms(2) by (simp add: take_Suc_conv_app_nth)
qed

end
