(* ===== verification/Cut.thy ===== *)
theory Cut imports Blocks begin

text \<open>
  Where a history is cut (\<open>crates/agent-transcript/src/cut.rs\<close>, with the readings of
  \<open>agent-transcript/src/lib.rs\<close> and the kinds of \<open>agent-store/src/lib.rs\<close> it uses): what a resume
  keeps after an unfinished turn, what a retry keeps, the prefix an edit and a Fork keep, and the
  record and the answer of the last ended turn. Each is a pure reading of the blocks.
\<close>

section \<open>Readings of a block (lib.rs)\<close>

definition INTERRUPTED_CODE :: string where
  "INTERRUPTED_CODE = ''interrupted''"

fun is_interruption :: "block \<Rightarrow> bool" where
  "is_interruption (Error e) = (e_code e = Some INTERRUPTED_CODE)"
| "is_interruption _ = False"

fun is_compaction :: "block \<Rightarrow> bool" where
  "is_compaction (CompactionBoundary _) = True"
| "is_compaction (CompactionMarker _) = True"
| "is_compaction _ = False"

fun is_boundary :: "block \<Rightarrow> bool" where
  "is_boundary (CompactionBoundary _) = True"
| "is_boundary _ = False"

fun is_answer :: "block \<Rightarrow> bool" where
  "is_answer (Thinking _) = True"
| "is_answer (Opaque _) = True"
| "is_answer (TextBlock _) = True"
| "is_answer (ToolCall _) = True"
| "is_answer _ = False"

fun opens_input_turn :: "block \<Rightarrow> bool" where
  "opens_input_turn (User _) = True"
| "opens_input_turn (Context _) = True"
| "opens_input_turn (Wakeup w) = (w_placement w = NewTurn)"
| "opens_input_turn _ = False"

definition replay_start :: "block list \<Rightarrow> nat" where
  "replay_start blocks = (case rposition is_boundary blocks of Some i \<Rightarrow> i | None \<Rightarrow> 0)"

section \<open>Kinds of blocks (agent-store)\<close>

datatype kind =
    KBoundary | KInput | KUserInput | KUser | KToolCall | KExecutingCall | KText | KCompletedText
  | KError | KResponse | KRecord

fun kind_holds :: "kind \<Rightarrow> block \<Rightarrow> bool" where
  "kind_holds KBoundary b = is_boundary b"
| "kind_holds KInput b =
     (case b of User _ \<Rightarrow> True | Context _ \<Rightarrow> True | Wakeup _ \<Rightarrow> True | Steer _ \<Rightarrow> True
      | AgentMessage _ \<Rightarrow> True | Resume _ \<Rightarrow> True | _ \<Rightarrow> False)"
| "kind_holds KUserInput b = (case b of User _ \<Rightarrow> True | Steer _ \<Rightarrow> True | _ \<Rightarrow> False)"
| "kind_holds KUser b = (case b of User _ \<Rightarrow> True | _ \<Rightarrow> False)"
| "kind_holds KToolCall b = (case b of ToolCall _ \<Rightarrow> True | _ \<Rightarrow> False)"
| "kind_holds KExecutingCall b = (case b of ToolCall c \<Rightarrow> tc_status c = Executing | _ \<Rightarrow> False)"
| "kind_holds KText b = (case b of TextBlock _ \<Rightarrow> True | _ \<Rightarrow> False)"
| "kind_holds KCompletedText b = (case b of TextBlock t \<Rightarrow> t_forkable t | _ \<Rightarrow> False)"
| "kind_holds KError b = (case b of Error _ \<Rightarrow> True | _ \<Rightarrow> False)"
| "kind_holds KResponse b = (case b of Response _ \<Rightarrow> True | _ \<Rightarrow> False)"
| "kind_holds KRecord b =
     (case b of
        CompactionBoundary _ \<Rightarrow> False
      | CompactionMarker _ \<Rightarrow> False
      | AgentMessage _ \<Rightarrow> False
      | Error e \<Rightarrow> \<not> e_outside_turn e
      | Wakeup w \<Rightarrow> w_placement w \<noteq> AsSteer
      | _ \<Rightarrow> True)"

text \<open>The tag a row stores of its block (\<open>serde(tag = "type")\<close> on \<open>Block\<close>).\<close>

fun block_tag :: "block \<Rightarrow> string" where
  "block_tag (User _) = ''user''"
| "block_tag (Context _) = ''context''"
| "block_tag (Wakeup _) = ''wakeup''"
| "block_tag (Steer _) = ''steer''"
| "block_tag (AgentMessage _) = ''agent_message''"
| "block_tag (Resume _) = ''resume''"
| "block_tag (Abort _) = ''abort''"
| "block_tag (Thinking _) = ''thinking''"
| "block_tag (Opaque _) = ''opaque''"
| "block_tag (TextBlock _) = ''text''"
| "block_tag (ToolCall _) = ''tool_call''"
| "block_tag (Response _) = ''response''"
| "block_tag (Error _) = ''error''"
| "block_tag (AccountSwitch _) = ''account_switch''"
| "block_tag (CompactionBoundary _) = ''compaction_boundary''"
| "block_tag (CompactionMarker _) = ''compaction_marker''"

fun kind_types :: "kind \<Rightarrow> string list" where
  "kind_types KBoundary = [''compaction_boundary'']"
| "kind_types KInput = [''user'', ''context'', ''wakeup'', ''steer'', ''agent_message'', ''resume'']"
| "kind_types KUserInput = [''user'', ''steer'']"
| "kind_types KUser = [''user'']"
| "kind_types KToolCall = [''tool_call'']"
| "kind_types KExecutingCall = [''tool_call'']"
| "kind_types KText = [''text'']"
| "kind_types KCompletedText = [''text'']"
| "kind_types KError = [''error'']"
| "kind_types KResponse = [''response'']"
| "kind_types KRecord =
     [''user'', ''context'', ''wakeup'', ''steer'', ''resume'', ''abort'', ''thinking'', ''opaque'', ''text'',
      ''tool_call'', ''response'', ''error'', ''account_switch'']"

lemma kind_holds_types: "kind_holds k b \<Longrightarrow> block_tag b \<in> set (kind_types k)"
  by (cases k; cases b) simp_all

section \<open>Resume\<close>

record resume_point =
  rp_cut :: nat
  rp_rerun :: "turn_id option"

fun turn_of :: "block \<Rightarrow> turn_id option" where
  "turn_of (User x) = Some (u_turn_id x)"
| "turn_of (Context x) = Some (c_turn_id x)"
| "turn_of (Wakeup x) = Some (w_turn_id x)"
| "turn_of (Steer x) = Some (s_turn_id x)"
| "turn_of (AgentMessage x) = Some (m_turn_id x)"
| "turn_of (Resume x) = Some (r_turn_id x)"
| "turn_of _ = None"

fun is_leftover :: "block \<Rightarrow> bool" where
  "is_leftover (Thinking _) = True"
| "is_leftover (Error _) = True"
| "is_leftover (Opaque s) = (o_view s = ViewReasoning)"
| "is_leftover (TextBlock t) = is_blank (t_text t)"
| "is_leftover _ = False"

text \<open>The scan of \<open>resume_point_within\<close>, over the blocks from the last one back.\<close>

fun resume_scan :: "block list \<Rightarrow> resume_point option" where
  "resume_scan [] = None"
| "resume_scan (b # earlier) =
     (if opens_input_turn b then Some \<lparr>rp_cut = length earlier + 1, rp_rerun = turn_of b\<rparr>
      else if \<not> is_leftover b \<and> \<not> is_compaction b
      then Some \<lparr>rp_cut = length earlier + 1, rp_rerun = None\<rparr>
      else resume_scan earlier)"

definition resume_point_within :: "block list \<Rightarrow> resume_point option" where
  "resume_point_within blocks = resume_scan (rev blocks)"

definition resume_point :: "block list \<Rightarrow> resume_point" where
  "resume_point blocks =
     (case resume_point_within blocks of
        Some p \<Rightarrow> p
      | None \<Rightarrow> \<lparr>rp_cut = length blocks, rp_rerun = None\<rparr>)"

definition unwind :: "block list \<Rightarrow> nat \<Rightarrow> block list" where
  "unwind blocks cut_at = take cut_at blocks @ filter is_compaction (drop cut_at blocks)"

text \<open>What the scan passes over, and what stops it.\<close>

definition passed :: "block \<Rightarrow> bool" where
  "passed b = (\<not> opens_input_turn b \<and> (is_leftover b \<or> is_compaction b))"

lemma passed_cases: "passed b \<Longrightarrow> is_compaction b \<or> is_leftover b"
  by (simp add: passed_def) blast

lemma compaction_passed [simp]: "is_compaction b \<Longrightarrow> passed b"
  by (cases b) (simp_all add: passed_def)

lemma leftover_not_compaction: "is_leftover b \<Longrightarrow> \<not> is_compaction b"
  by (cases b) simp_all

lemma resume_within_snoc:
  "resume_point_within (bs @ [b]) =
     (if passed b then resume_point_within bs
      else Some \<lparr>rp_cut = Suc (length bs), rp_rerun = (if opens_input_turn b then turn_of b else None)\<rparr>)"
  by (simp add: resume_point_within_def passed_def)

lemma resume_within_Nil [simp]: "resume_point_within [] = None"
  by (simp add: resume_point_within_def)

lemma resume_within_passed:
  "\<forall>b\<in>set ys. passed b \<Longrightarrow> resume_point_within (xs @ ys) = resume_point_within xs"
  by (induction ys rule: rev_induct) (simp_all add: resume_within_snoc flip: append_assoc)

lemma resume_within_None: "(resume_point_within bs = None) = (\<forall>b\<in>set bs. passed b)"
  by (induction bs rule: rev_induct) (auto simp: resume_within_snoc)

lemma resume_within_Some:
  "resume_point_within bs = Some p \<Longrightarrow>
     \<exists>pre b post. bs = pre @ b # post \<and> \<not> passed b \<and> (\<forall>x\<in>set post. passed x)
       \<and> rp_cut p = Suc (length pre) \<and> rp_rerun p = (if opens_input_turn b then turn_of b else None)"
proof (induction bs rule: rev_induct)
  case Nil
  then show ?case by simp
next
  case (snoc b bs)
  show ?case
  proof (cases "passed b")
    case True
    then obtain pre x post where "bs = pre @ x # post" "\<not> passed x" "\<forall>y\<in>set post. passed y"
      "rp_cut p = Suc (length pre)" "rp_rerun p = (if opens_input_turn x then turn_of x else None)"
      using snoc by (auto simp: resume_within_snoc)
    then show ?thesis
      using True by (intro exI [of _ pre] exI [of _ x] exI [of _ "post @ [b]"]) auto
  next
    case False
    then show ?thesis
      using snoc.prems by (intro exI [of _ bs] exI [of _ b] exI [of _ "[]"]) (auto simp: resume_within_snoc)
  qed
qed

lemma resume_cut_le: "rp_cut (resume_point bs) \<le> length bs"
  by (auto simp: resume_point_def split: option.split dest!: resume_within_Some)

lemma opens_turn_of: "opens_input_turn b \<Longrightarrow> turn_of b \<noteq> None"
  by (cases b) simp_all

text \<open>Only leftovers go: everything before the cut stays, and every compaction after it.\<close>

lemma unwind_keeps:
  assumes "\<forall>b\<in>set (drop n bs). passed b"
  shows "unwind bs n = take n bs @ filter (\<lambda>b. \<not> is_leftover b) (drop n bs)"
  unfolding unwind_def using assms leftover_not_compaction passed_cases
  by (auto intro!: filter_cong)

lemma unwind_resume:
  assumes "resume_point_within bs = Some p"
  shows "resume_point_within (unwind bs (rp_cut p)) = Some p"
proof -
  obtain pre b post where bs: "bs = pre @ b # post" and stop: "\<not> passed b"
    and cut_at: "rp_cut p = Suc (length pre)"
    and rerun: "rp_rerun p = (if opens_input_turn b then turn_of b else None)"
    using resume_within_Some [OF assms] by blast
  have "unwind bs (rp_cut p) = (pre @ [b]) @ filter is_compaction post"
    by (simp add: unwind_def bs cut_at)
  moreover have "resume_point_within ((pre @ [b]) @ filter is_compaction post) = resume_point_within (pre @ [b])"
    by (rule resume_within_passed) simp
  ultimately have "resume_point_within (unwind bs (rp_cut p)) = resume_point_within (pre @ [b])"
    by simp
  then show ?thesis
    using stop rerun cut_at by (simp add: resume_within_snoc)
qed

section \<open>Retry\<close>

record rewound =
  rw_retained :: "block list"
  rw_input :: nat
  rw_turn :: turn_id

fun is_agent_message :: "block \<Rightarrow> bool" where
  "is_agent_message (AgentMessage _) = True"
| "is_agent_message _ = False"

text \<open>The loop of \<open>rewind\<close>: the position, the turns seen and where the last input turn starts.\<close>

fun rewind_scan :: "nat \<Rightarrow> turn_id list \<Rightarrow> nat option \<Rightarrow> block list \<Rightarrow> nat option" where
  "rewind_scan index seen start [] = start"
| "rewind_scan index seen start (b # rest) =
     (case turn_of b of
        None \<Rightarrow> rewind_scan (Suc index) seen start rest
      | Some turn \<Rightarrow>
          (let first_of_turn = turn \<notin> set seen
           in rewind_scan (Suc index)
                (if first_of_turn then seen @ [turn] else seen)
                (if opens_input_turn b \<or> (is_agent_message b \<and> first_of_turn) then Some index else start)
                rest))"

definition kept_by_rewind :: "turn_id \<Rightarrow> block \<Rightarrow> bool" where
  "kept_by_rewind turn b =
     (case b of AgentMessage _ \<Rightarrow> True | Steer s \<Rightarrow> s_turn_id s = turn | _ \<Rightarrow> False)"

text \<open>The input block belongs to a turn (\<open>rewind_turn\<close> below), which the code expects.\<close>

definition rewind :: "block list \<Rightarrow> rewound option" where
  "rewind blocks =
     (case rewind_scan 0 [] None blocks of
        None \<Rightarrow> None
      | Some start \<Rightarrow>
          (case turn_of (blocks ! start) of
             None \<Rightarrow> None
           | Some turn \<Rightarrow>
               Some \<lparr>rw_retained = take (Suc start) blocks
                        @ filter (kept_by_rewind turn) (drop (Suc start) blocks),
                     rw_input = start, rw_turn = turn\<rparr>))"

text \<open>Where an input turn starts, by the path alone.\<close>

definition starts_turn :: "block list \<Rightarrow> block \<Rightarrow> bool" where
  "starts_turn before b =
     (opens_input_turn b
      \<or> (is_agent_message b \<and> turn_of b \<notin> turn_of ` set before))"

lemma rewind_scan_spec:
  assumes "Some ` set seen = turn_of ` set pre - {None}"
    and "start = rposition (\<lambda>i. starts_turn (take i pre) (pre ! i)) [0..<length pre]"
  shows "rewind_scan (length pre) seen start bs =
     rposition (\<lambda>i. starts_turn (take i (pre @ bs)) ((pre @ bs) ! i)) [0..<length (pre @ bs)]"
  using assms
proof (induction bs arbitrary: pre seen start)
  case Nil
  then show ?case by simp
next
  case (Cons b bs)
  define turns where "turns = (case turn_of b of None \<Rightarrow> seen | Some t \<Rightarrow> if t \<in> set seen then seen else seen @ [t])"
  define start' where "start' = (if starts_turn pre b then Some (length pre) else start)"
  have mem: "\<And>t. turn_of b = Some t \<Longrightarrow> t \<in> set seen \<longleftrightarrow> turn_of b \<in> turn_of ` set pre"
    using Cons.prems(1) by (metis DiffD1 DiffI image_iff option.inject option.simps(3) singletonD)
  have none: "turn_of b = None \<Longrightarrow> \<not> starts_turn pre b"
    using opens_turn_of by (cases b) (auto simp: starts_turn_def)
  have step: "rewind_scan (length pre) seen start (b # bs) = rewind_scan (length (pre @ [b])) turns start' bs"
    using none mem by (auto simp: turns_def start'_def Let_def starts_turn_def split: option.split)
  have seen': "Some ` set turns = turn_of ` set (pre @ [b]) - {None}"
    using Cons.prems(1) by (auto simp: turns_def split: option.split)
  have same: "rposition (\<lambda>i. starts_turn (take i (pre @ [b])) ((pre @ [b]) ! i)) [0..<length pre] = start"
  proof -
    have "rposition P xs = rposition Q xs" if "\<forall>x\<in>set xs. P x = Q x" for P Q and xs :: "nat list"
      using that by (induction xs) auto
    then show ?thesis
      unfolding Cons.prems(2) by (simp add: nth_append)
  qed
  have "start' = rposition (\<lambda>i. starts_turn (take i (pre @ [b])) ((pre @ [b]) ! i)) [0..<length (pre @ [b])]"
    using same by (simp add: start'_def rposition_snoc nth_append)
  then show ?case
    using Cons.IH [OF seen'] step by simp
qed

lemma rewind_scan_starts:
  "rewind_scan 0 [] None bs = rposition (\<lambda>i. starts_turn (take i bs) (bs ! i)) [0..<length bs]"
  using rewind_scan_spec [of "[]" "[]" None bs] by simp

lemma rewind_scan_Some:
  assumes "rewind_scan 0 [] None bs = Some start"
  shows "start < length bs \<and> starts_turn (take start bs) (bs ! start)
           \<and> (\<forall>i. start < i \<and> i < length bs \<longrightarrow> \<not> starts_turn (take i bs) (bs ! i))"
  using assms by (auto simp: rewind_scan_starts rposition_Some)

lemma starts_turn_of: "starts_turn pre b \<Longrightarrow> turn_of b \<noteq> None"
  by (cases b) (simp_all add: starts_turn_def)

lemma rewind_None:
  "(rewind bs = None) = (\<forall>i<length bs. \<not> starts_turn (take i bs) (bs ! i))"
proof (cases "rewind_scan 0 [] None bs")
  case None
  then have "\<forall>i<length bs. \<not> starts_turn (take i bs) (bs ! i)"
    by (simp add: rewind_scan_starts rposition_None)
  then show ?thesis using None by (simp add: rewind_def)
next
  case (Some start)
  then have starts: "start < length bs" "starts_turn (take start bs) (bs ! start)"
    using rewind_scan_Some [OF Some] by auto
  moreover obtain t where "turn_of (bs ! start) = Some t"
    using starts_turn_of [OF starts(2)] by auto
  ultimately show ?thesis
    using Some by (auto simp: rewind_def)
qed

lemma rewind_Some:
  assumes "rewind bs = Some r"
  shows "rw_input r < length bs"
    and "starts_turn (take (rw_input r) bs) (bs ! rw_input r)"
    and "\<And>i. rw_input r < i \<Longrightarrow> i < length bs \<Longrightarrow> \<not> starts_turn (take i bs) (bs ! i)"
    and "turn_of (bs ! rw_input r) = Some (rw_turn r)"
    and "rw_retained r = take (Suc (rw_input r)) bs
           @ filter (kept_by_rewind (rw_turn r)) (drop (Suc (rw_input r)) bs)"
  using assms rewind_scan_Some by (auto simp: rewind_def split: option.splits)

section \<open>An edit's prefix and a Fork's prefix\<close>

datatype cut_error = NotFound | NotUserInput | NotCompletedText | UnfinishedToolCalls

datatype fork_end = AtText block_id | SideOf block_id

fun is_completed :: "block \<Rightarrow> bool" where
  "is_completed (TextBlock t) = t_forkable t"
| "is_completed _ = False"

fun is_executing :: "block \<Rightarrow> bool" where
  "is_executing (ToolCall c) = (tc_status c = Executing)"
| "is_executing _ = False"

fun is_response :: "block \<Rightarrow> bool" where
  "is_response (Response _) = True"
| "is_response _ = False"

definition before_input :: "block list \<Rightarrow> block_id \<Rightarrow> cut_error + block list" where
  "before_input blocks target =
     (case position (\<lambda>b. id_of b = target) blocks of
        Some index \<Rightarrow> if is_editable (blocks ! index) then Inr (take index blocks) else Inl NotUserInput
      | None \<Rightarrow> Inl NotUserInput)"

definition newest :: "block list \<Rightarrow> nat \<Rightarrow> nat option" where
  "newest blocks from_at =
     (let executing = (case position is_executing blocks of Some i \<Rightarrow> i | None \<Rightarrow> length blocks)
      in map_option ((+) from_at)
           (rposition is_completed (if from_at \<le> executing then drop from_at (take executing blocks) else [])))"

definition side_anchor :: "block list \<Rightarrow> nat \<Rightarrow> nat" where
  "side_anchor blocks asked =
     (case rposition is_compaction (drop asked blocks) of
        None \<Rightarrow> asked
      | Some after \<Rightarrow>
          (case newest blocks (asked + after) of Some i \<Rightarrow> i | None \<Rightarrow> asked + after))"

definition answered_next :: "block list \<Rightarrow> nat \<Rightarrow> bool" where
  "answered_next blocks ending =
     (case get_at blocks (Suc ending) of
        Some next_block \<Rightarrow> is_response next_block \<and> is_completed (blocks ! ending)
      | None \<Rightarrow> False)"

definition side_end :: "block list \<Rightarrow> nat \<Rightarrow> nat" where
  "side_end blocks asked =
     (let ending = side_anchor blocks asked
      in if answered_next blocks ending then Suc ending else ending)"

definition completed_at :: "block list \<Rightarrow> block_id \<Rightarrow> cut_error + nat" where
  "completed_at blocks target =
     (case position (\<lambda>b. id_of b = target) blocks of
        Some index \<Rightarrow> if is_completed (blocks ! index) then Inr index else Inl NotCompletedText
      | None \<Rightarrow> Inl NotCompletedText)"

definition fork_index :: "block list \<Rightarrow> fork_end \<Rightarrow> cut_error + nat" where
  "fork_index blocks ending =
     (case ending of
        AtText target \<Rightarrow> completed_at blocks target
      | SideOf target \<Rightarrow>
          (case completed_at blocks target of
             Inl e \<Rightarrow> Inl e
           | Inr asked \<Rightarrow> Inr (side_end blocks asked)))"

definition fork_prefix :: "block list \<Rightarrow> fork_end \<Rightarrow> cut_error + block list" where
  "fork_prefix blocks ending =
     (case fork_index blocks ending of
        Inl e \<Rightarrow> Inl e
      | Inr index \<Rightarrow>
          (let prefix = take (Suc index) blocks
           in if list_ex is_executing prefix then Inl UnfinishedToolCalls else Inr prefix))"

lemma newest_Some:
  assumes "newest blocks i = Some n"
  shows "i \<le> n \<and> n < length blocks \<and> is_completed (blocks ! n)
           \<and> (\<forall>b\<in>set (take (Suc n) blocks). \<not> is_executing b)"
proof -
  define e where "e = (case position is_executing blocks of Some i \<Rightarrow> i | None \<Rightarrow> length blocks)"
  have quiet: "\<forall>b\<in>set (take e blocks). \<not> is_executing b" and le: "e \<le> length blocks"
    using position_take [where P = is_executing and xs = blocks] by (auto simp: e_def split: option.splits)
  from assms obtain k where "i \<le> e" "n = i + k" "rposition is_completed (drop i (take e blocks)) = Some k"
    by (auto simp: newest_def Let_def e_def [symmetric] split: if_splits)
  moreover from this have "k < e - i" "is_completed (blocks ! (i + k))"
    using le by (auto simp: rposition_Some)
  ultimately have "i \<le> n" "n < e" "is_completed (blocks ! n)" by auto
  then show ?thesis
    using quiet le set_take_subset_set_take [of "Suc n" e blocks] by auto
qed

lemma side_anchor_range:
  assumes "asked < length blocks"
  shows "asked \<le> side_anchor blocks asked \<and> side_anchor blocks asked < length blocks"
proof (cases "rposition is_compaction (drop asked blocks)")
  case None
  then show ?thesis using assms by (simp add: side_anchor_def)
next
  case (Some after)
  then have "asked + after < length blocks" using rposition_less [OF Some] by simp
  then show ?thesis
    using Some by (auto simp: side_anchor_def dest: newest_Some split: option.split)
qed

lemma answered_next_less: "answered_next blocks i \<Longrightarrow> Suc i < length blocks"
  by (simp add: answered_next_def get_at_def split: if_splits)

lemma side_end_range:
  "asked < length blocks \<Longrightarrow> asked \<le> side_end blocks asked \<and> side_end blocks asked < length blocks"
  using side_anchor_range [of asked blocks] answered_next_less [of blocks "side_anchor blocks asked"]
  by (simp add: side_end_def Let_def)

section \<open>The last answer, record and ended turn\<close>

fun as_text :: "block \<Rightarrow> text_block option" where
  "as_text (TextBlock t) = Some t"
| "as_text _ = None"

fun as_error :: "block \<Rightarrow> error_block option" where
  "as_error (Error e) = Some e"
| "as_error _ = None"

definition last_answer :: "block list \<Rightarrow> nat \<Rightarrow> text_block option" where
  "last_answer blocks since = rfind_map as_text (drop since blocks)"

definition last_assistant_text :: "block list \<Rightarrow> nat \<Rightarrow> string" where
  "last_assistant_text blocks since = (case last_answer blocks since of Some t \<Rightarrow> t_text t | None \<Rightarrow> [])"

definition last_failure :: "block list \<Rightarrow> error_block option" where
  "last_failure blocks = rfind_map as_error blocks"

definition turn_record :: "block list \<Rightarrow> block option" where
  "turn_record blocks = rfind (kind_holds KRecord) blocks"

definition last_turn :: "block list \<Rightarrow> turn_id option" where
  "last_turn blocks = rfind_map turn_of blocks"

fun ends_turn :: "block \<Rightarrow> bool" where
  "ends_turn (Response _) = True"
| "ends_turn (Error e) = (\<not> e_outside_turn e)"
| "ends_turn (Abort a) = (\<not> a_is_resumed a)"
| "ends_turn _ = False"

definition ended_turn :: "block list \<Rightarrow> block option" where
  "ended_turn blocks = rfind ends_turn blocks"

definition from_another_conversation :: "agent_message_block \<Rightarrow> bool" where
  "from_another_conversation m =
     (case am_sender (m_message m) of Some s \<Rightarrow> sn_conversation s \<noteq> None | None \<Rightarrow> False)"

text \<open>The loop of \<open>ended_turn_answer\<close>, over the blocks before the end from the last one back.\<close>

fun answer_scan :: "turn_id option \<Rightarrow> text_block option \<Rightarrow> block list \<Rightarrow> turn_id option \<times> text_block option" where
  "answer_scan turn answer [] = (turn, answer)"
| "answer_scan turn answer (b # earlier) =
     (case turn_of b of
        Some input \<Rightarrow>
          (case turn of
             Some t \<Rightarrow> if t \<noteq> input then (turn, answer) else answer_scan (Some input) answer earlier
           | None \<Rightarrow> answer_scan (Some input) answer earlier)
      | None \<Rightarrow>
          (case as_text b of
             Some t \<Rightarrow> if answer = None \<and> \<not> is_blank (t_text t) then answer_scan turn (Some t) earlier
                       else answer_scan turn answer earlier
           | None \<Rightarrow> answer_scan turn answer earlier))"

definition ended_turn_answer :: "block list \<Rightarrow> (block \<times> text_block option) option" where
  "ended_turn_answer blocks =
     (case rposition ends_turn blocks of
        None \<Rightarrow> None
      | Some at \<Rightarrow>
          (case answer_scan None None (rev (take at blocks)) of
             (turn, answer) \<Rightarrow> Some (blocks ! at, if turn = None then None else answer)))"

section \<open>What a Fork and a side question keep\<close>

lemma newest_append:
  assumes "\<forall>b\<in>set pre. \<not> is_executing b"
  shows "newest (pre @ win) (length pre + i) = map_option ((+) (length pre)) (newest win i)"
  by (cases "position is_executing win")
    (auto simp: newest_def Let_def position_append [OF assms] option.map_comp comp_def add.assoc
       intro!: arg_cong2 [of _ _ _ _ map_option])

lemma answered_next_append: "answered_next (pre @ win) (length pre + i) = answered_next win i"
  by (simp add: answered_next_def get_at_append nth_append split: option.split)

lemma side_end_window:
  assumes quiet: "\<forall>b\<in>set pre. \<not> is_executing b" and asked: "asked < length pre"
    and win: "win \<noteq> []" "is_compaction (hd win)"
  shows "side_end (pre @ win) asked = length pre + side_end win 0"
proof -
  have "\<exists>x\<in>set win. is_compaction x" using win by (intro bexI [of _ "hd win"]) auto
  then obtain a where a: "rposition is_compaction win = Some a"
    using rposition_None [of is_compaction win] by (cases "rposition is_compaction win") auto
  have "rposition is_compaction (drop asked (pre @ win)) = Some (length pre - asked + a)"
    using a asked by (simp add: rposition_append)
  then have "side_anchor (pre @ win) asked = length pre + side_anchor win 0"
    using a asked newest_append [OF quiet, of win a] by (simp add: side_anchor_def split: option.split)
  then show ?thesis
    by (simp add: side_end_def Let_def answered_next_append)
qed

definition fork_stop :: "block list \<Rightarrow> nat \<Rightarrow> bool" where
  "fork_stop bs e =
     (is_completed (bs ! e) \<or> is_compaction (bs ! e)
      \<or> (is_response (bs ! e) \<and> 0 < e \<and> is_completed (bs ! (e - 1))))"

lemma side_anchor_stop:
  assumes "asked < length bs" "is_completed (bs ! asked)"
  shows "is_completed (bs ! side_anchor bs asked) \<or> is_compaction (bs ! side_anchor bs asked)"
proof (cases "rposition is_compaction (drop asked bs)")
  case None
  then show ?thesis using assms by (simp add: side_anchor_def)
next
  case (Some after)
  have "is_compaction (bs ! (asked + after))"
    using rposition_holds [OF Some] rposition_less [OF Some] by simp
  then show ?thesis
    using Some by (auto simp: side_anchor_def dest: newest_Some split: option.split)
qed

lemma side_end_stop:
  assumes "asked < length bs" "is_completed (bs ! asked)"
  shows "fork_stop bs (side_end bs asked)"
proof (cases "answered_next bs (side_anchor bs asked)")
  case True
  then show ?thesis
    using answered_next_less [OF True]
    by (simp add: side_end_def Let_def fork_stop_def) (simp add: answered_next_def split: option.splits)
next
  case False
  then show ?thesis
    using side_anchor_stop [OF assms] by (auto simp: side_end_def Let_def fork_stop_def)
qed

lemma completed_at_Inr:
  "completed_at bs target = Inr i \<Longrightarrow> i < length bs \<and> id_of (bs ! i) = target \<and> is_completed (bs ! i)"
  by (auto simp: completed_at_def position_Some split: option.splits if_splits)

definition fork_target :: "fork_end \<Rightarrow> block_id" where
  "fork_target ending = (case ending of AtText t \<Rightarrow> t | SideOf t \<Rightarrow> t)"

lemma fork_index_Inr:
  assumes "fork_index bs ending = Inr e"
  shows "\<exists>asked. completed_at bs (fork_target ending) = Inr asked
     \<and> e = (case ending of AtText _ \<Rightarrow> asked | SideOf _ \<Rightarrow> side_end bs asked)"
  using assms by (auto simp: fork_index_def fork_target_def split: fork_end.splits sum.splits)

lemma fork_index_stop:
  assumes "fork_index bs ending = Inr e"
  shows "e < length bs \<and> fork_stop bs e"
proof -
  obtain asked where asked: "completed_at bs (fork_target ending) = Inr asked"
    and e: "e = (case ending of AtText _ \<Rightarrow> asked | SideOf _ \<Rightarrow> side_end bs asked)"
    using fork_index_Inr [OF assms] by blast
  note at = completed_at_Inr [OF asked]
  show ?thesis
  proof (cases ending)
    case (AtText t)
    then show ?thesis using at e by (simp add: fork_stop_def)
  next
    case (SideOf t)
    then show ?thesis using at e side_end_range side_end_stop by simp
  qed
qed

lemma fork_prefix_Inr:
  assumes "fork_prefix bs ending = Inr prefix"
  shows "\<exists>e. fork_index bs ending = Inr e \<and> prefix = take (Suc e) bs
     \<and> (\<forall>b\<in>set prefix. \<not> is_executing b)"
  using assms by (auto simp: fork_prefix_def Let_def list_ex_iff split: sum.splits if_splits)

lemma completed_at_Inl:
  "completed_at bs target = Inl e \<Longrightarrow> e = NotCompletedText
     \<and> (case position (\<lambda>b. id_of b = target) bs of None \<Rightarrow> True | Some i \<Rightarrow> \<not> is_completed (bs ! i))"
  by (auto simp: completed_at_def split: option.splits if_splits)

lemma fork_prefix_Inl:
  assumes "fork_prefix bs ending = Inl e"
  shows "(e = UnfinishedToolCalls \<and> list_ex is_executing bs)
     \<or> (e = NotCompletedText
        \<and> (case position (\<lambda>b. id_of b = fork_target ending) bs of
             None \<Rightarrow> True | Some i \<Rightarrow> \<not> is_completed (bs ! i)))"
proof (cases "fork_index bs ending")
  case (Inl e')
  then have "completed_at bs (fork_target ending) = Inl e'"
    by (auto simp: fork_index_def fork_target_def split: fork_end.splits sum.splits)
  then show ?thesis using assms Inl completed_at_Inl [of bs "fork_target ending" e'] by (simp add: fork_prefix_def)
next
  case (Inr i)
  then have "e = UnfinishedToolCalls" "list_ex is_executing (take (Suc i) bs)"
    using assms by (auto simp: fork_prefix_def Let_def split: if_splits)
  then show ?thesis by (auto simp: list_ex_iff dest: in_set_takeD)
qed

lemma fork_prefix_target:
  assumes "fork_index bs ending = Inr e"
  shows "list_ex (\<lambda>b. id_of b = fork_target ending \<and> is_completed b) (take (Suc e) bs)"
proof -
  obtain asked where asked: "completed_at bs (fork_target ending) = Inr asked"
    and e: "e = (case ending of AtText _ \<Rightarrow> asked | SideOf _ \<Rightarrow> side_end bs asked)"
    using fork_index_Inr [OF assms] by blast
  note at = completed_at_Inr [OF asked]
  have "asked \<le> e" using e at side_end_range [of asked bs] by (auto split: fork_end.splits)
  then have "bs ! asked \<in> set (take (Suc e) bs)" using at by (auto simp: in_set_conv_nth)
  then show ?thesis using at by (auto simp: list_ex_iff)
qed

lemma before_input_found:
  "position (\<lambda>b. id_of b = target) bs = Some k \<Longrightarrow>
     before_input bs target = (if is_editable (bs ! k) then Inr (take k bs) else Inl NotUserInput)"
  by (simp add: before_input_def)

lemma before_input_Inr:
  "(before_input bs target = Inr prefix) =
     (\<exists>i. position (\<lambda>b. id_of b = target) bs = Some i \<and> is_editable (bs ! i) \<and> prefix = take i bs)"
  by (auto simp: before_input_def split: option.split)

section \<open>The last ended turn, by the path alone\<close>

lemma ended_turn_answer_end: "map_option fst (ended_turn_answer bs) = ended_turn bs"
  by (simp add: ended_turn_answer_def ended_turn_def rfind_rposition split: option.split prod.split)

text \<open>
  \<open>turn_span\<close>: the blocks of the last turn before a place, from the first of the inputs of one
  turn that no input of another turn parts.
\<close>

fun turn_span :: "turn_id option \<Rightarrow> block list \<Rightarrow> block list" where
  "turn_span turn [] = []"
| "turn_span turn (b # earlier) =
     (case turn_of b of
        Some input \<Rightarrow>
          if turn = None \<or> turn = Some input then b # turn_span (Some input) earlier else []
      | None \<Rightarrow> b # turn_span turn earlier)"

lemma turn_span_turn: "b \<in> set (turn_span (Some t) bs) \<Longrightarrow> turn_of b = None \<or> turn_of b = Some t"
  by (induction "Some t" bs rule: turn_span.induct) (auto split: option.splits if_splits)

definition said :: "block \<Rightarrow> text_block option" where
  "said b = (case as_text b of Some t \<Rightarrow> if is_blank (t_text t) then None else Some t | None \<Rightarrow> None)"

lemma answer_scan_said:
  "snd (answer_scan turn answer bs) =
     (case answer of Some t \<Rightarrow> Some t | None \<Rightarrow> find_map said (turn_span turn bs))"
proof (induction turn answer bs rule: answer_scan.induct)
  case (1 turn answer)
  then show ?case by (simp split: option.split)
next
  case (2 turn answer b earlier)
  have texts: "turn_of b = Some i \<Longrightarrow> as_text b = None" for i
    by (cases b) simp_all
  show ?case
    using 2 texts by (cases "turn_of b"; cases turn; cases answer; cases "as_text b") (auto simp: said_def)
qed

lemma answer_scan_turn:
  "fst (answer_scan turn answer bs) =
     (case turn of Some t \<Rightarrow> Some t | None \<Rightarrow> find_map turn_of (turn_span turn bs))"
proof (induction turn answer bs rule: answer_scan.induct)
  case (1 turn answer)
  then show ?case by (simp split: option.split)
next
  case (2 turn answer b earlier)
  then show ?case
    by (cases "turn_of b"; cases turn; cases answer; cases "as_text b") auto
qed

lemma ended_turn_answer_span:
  "ended_turn_answer bs =
     (case rposition ends_turn bs of
        None \<Rightarrow> None
      | Some at \<Rightarrow>
          (let span = turn_span None (rev (take at bs))
           in Some (bs ! at, if \<forall>b\<in>set span. turn_of b = None then None else find_map said span)))"
proof -
  have "(case answer_scan None None xs of (turn, answer) \<Rightarrow> Some (e, if turn = None then None else answer))
      = Some (e, if \<forall>b\<in>set (turn_span None xs). turn_of b = None then None else find_map said (turn_span None xs))"
    for e :: block and xs
    using answer_scan_turn [of None None xs] answer_scan_said [of None None xs]
    by (cases "answer_scan None None xs") (auto simp: find_map_None)
  then show ?thesis
    by (simp add: ended_turn_answer_def Let_def split: option.split)
qed

section \<open>The resume point in one statement\<close>

lemma resume_point_passed: "\<forall>b\<in>set (drop (rp_cut (resume_point bs)) bs). passed b"
proof (cases "resume_point_within bs")
  case None
  then show ?thesis by (simp add: resume_point_def)
next
  case (Some p)
  then obtain pre b post where "bs = pre @ b # post" "\<forall>x\<in>set post. passed x" "rp_cut p = Suc (length pre)"
    using resume_within_Some [OF Some] by blast
  then show ?thesis using Some by (simp add: resume_point_def)
qed

lemma resume_point_unwind: "resume_point (unwind bs (rp_cut (resume_point bs))) = resume_point bs"
proof (cases "resume_point_within bs")
  case None
  then show ?thesis by (simp add: resume_point_def unwind_def)
next
  case (Some p)
  then show ?thesis using unwind_resume [OF Some] by (simp add: resume_point_def)
qed

lemma resume_point_stop:
  assumes "resume_point_within bs = Some p"
  shows "0 < rp_cut p" "\<not> passed (bs ! (rp_cut p - 1))"
    "rp_rerun p = (if opens_input_turn (bs ! (rp_cut p - 1)) then turn_of (bs ! (rp_cut p - 1)) else None)"
  using resume_within_Some [OF assms] by (auto simp: nth_append)

end
