(* ===== verification/Earlier.thy ===== *)
theory Earlier imports Cut begin

text \<open>
  What a session keeps of its path's blocks before its window
  (\<open>crates/agent-transcript/src/earlier.rs\<close>): the facts its decisions read of the whole path. The
  specification is \<open>facts_of\<close>, the facts of a list of blocks; the lemmas show that folding in the
  blocks a window lets go of keeps exactly the facts of all of them, whatever the pieces, and that
  a restore from the rows the store reads gives the same.
\<close>

type_synonym user_input = "(schedule_mark \<times> timestamp) option"

record earlier =
  er_user_turns :: "turn_id set"
  er_calls :: "block_id set"
  er_steers :: "block_id set"
  er_last_turn :: "turn_id option"
  er_record :: "error_block option option"
  er_user_input :: "user_input option"

definition no_earlier :: earlier where
  "no_earlier = \<lparr>er_user_turns = {}, er_calls = {}, er_steers = {}, er_last_turn = None,
     er_record = None, er_user_input = None\<rparr>"

fun failure :: "block \<Rightarrow> error_block option" where
  "failure (Error e) = Some e"
| "failure _ = None"

fun user_input :: "block \<Rightarrow> user_input option" where
  "user_input (User u) = Some (map_option (\<lambda>mark. (mark, created_at u)) (u_schedule u))"
| "user_input (Steer _) = Some None"
| "user_input _ = None"

fun note_block :: "earlier \<Rightarrow> block \<Rightarrow> earlier" where
  "note_block e (User u) = e\<lparr>er_user_turns := insert (u_turn_id u) (er_user_turns e)\<rparr>"
| "note_block e (ToolCall c) = e\<lparr>er_calls := insert (block_id c) (er_calls e)\<rparr>"
| "note_block e (Steer s) = e\<lparr>er_steers := insert (block_id s) (er_steers e)\<rparr>"
| "note_block e _ = e"

definition fold_earlier :: "earlier \<Rightarrow> block list \<Rightarrow> earlier" where
  "fold_earlier e blocks =
     (let noted = foldl note_block e blocks;
          turned = (case rfind_map turn_of blocks of
                      Some turn \<Rightarrow> noted\<lparr>er_last_turn := Some turn\<rparr> | None \<Rightarrow> noted);
          recorded = (case turn_record blocks of
                        Some r \<Rightarrow> turned\<lparr>er_record := Some (failure r)\<rparr> | None \<Rightarrow> turned)
      in case rfind_map user_input blocks of
           Some input \<Rightarrow> recorded\<lparr>er_user_input := Some input\<rparr> | None \<Rightarrow> recorded)"

text \<open>What the store reads of the blocks before a place (\<open>EarlierRows\<close>), and \<open>Earlier::of\<close> it.\<close>

record earlier_rows =
  row_user_turns :: "turn_id list"
  row_calls :: "block_id list"
  row_steers :: "block_id list"
  row_last_input :: "block option"
  row_last_user_input :: "block option"
  row_last_record :: "block option"

definition earlier_of :: "earlier_rows \<Rightarrow> earlier" where
  "earlier_of rows =
     \<lparr>er_user_turns = set (row_user_turns rows), er_calls = set (row_calls rows),
      er_steers = set (row_steers rows),
      er_last_turn = (case row_last_input rows of Some b \<Rightarrow> turn_of b | None \<Rightarrow> None),
      er_record = map_option failure (row_last_record rows),
      er_user_input = (case row_last_user_input rows of Some b \<Rightarrow> user_input b | None \<Rightarrow> None)\<rparr>"

definition has_user_turn_before :: "earlier \<Rightarrow> turn_id \<Rightarrow> bool" where
  "has_user_turn_before e turn = (turn \<in> er_user_turns e)"

definition holds_call_before :: "earlier \<Rightarrow> block_id \<Rightarrow> bool" where
  "holds_call_before e i = (i \<in> er_calls e)"

definition holds_steer_before :: "earlier \<Rightarrow> block_id \<Rightarrow> bool" where
  "holds_steer_before e i = (i \<in> er_steers e)"

section \<open>The facts of a list of blocks\<close>

fun user_turn_of :: "block \<Rightarrow> turn_id option" where
  "user_turn_of (User u) = Some (u_turn_id u)"
| "user_turn_of _ = None"

fun call_id_of :: "block \<Rightarrow> block_id option" where
  "call_id_of (ToolCall c) = Some (block_id c)"
| "call_id_of _ = None"

fun steer_id_of :: "block \<Rightarrow> block_id option" where
  "steer_id_of (Steer s) = Some (block_id s)"
| "steer_id_of _ = None"

definition facts_of :: "block list \<Rightarrow> earlier" where
  "facts_of bs =
     \<lparr>er_user_turns = {t. \<exists>b\<in>set bs. user_turn_of b = Some t},
      er_calls = {i. \<exists>b\<in>set bs. call_id_of b = Some i},
      er_steers = {i. \<exists>b\<in>set bs. steer_id_of b = Some i},
      er_last_turn = last_turn bs,
      er_record = map_option failure (turn_record bs),
      er_user_input = rfind_map user_input bs\<rparr>"

lemma facts_of_Nil [simp]: "facts_of [] = no_earlier"
  by (simp add: facts_of_def no_earlier_def last_turn_def turn_record_def)

lemma earlier_eqI:
  "er_user_turns e = er_user_turns f \<Longrightarrow> er_calls e = er_calls f \<Longrightarrow> er_steers e = er_steers f \<Longrightarrow>
   er_last_turn e = er_last_turn f \<Longrightarrow> er_record e = er_record f \<Longrightarrow>
   er_user_input e = er_user_input f \<Longrightarrow> e = (f :: earlier)"
  by (cases e; cases f) simp

lemma note_blocks:
  "er_user_turns (foldl note_block e bs) = er_user_turns e \<union> {t. \<exists>b\<in>set bs. user_turn_of b = Some t}
   \<and> er_calls (foldl note_block e bs) = er_calls e \<union> {i. \<exists>b\<in>set bs. call_id_of b = Some i}
   \<and> er_steers (foldl note_block e bs) = er_steers e \<union> {i. \<exists>b\<in>set bs. steer_id_of b = Some i}
   \<and> er_last_turn (foldl note_block e bs) = er_last_turn e
   \<and> er_record (foldl note_block e bs) = er_record e
   \<and> er_user_input (foldl note_block e bs) = er_user_input e"
proof (induction bs arbitrary: e)
  case Nil
  show ?case by simp
next
  case (Cons b bs)
  show ?case
    using Cons [of "note_block e b"] by (cases b) auto
qed

lemma fold_earlier_fields:
  "er_user_turns (fold_earlier e bs) = er_user_turns e \<union> {t. \<exists>b\<in>set bs. user_turn_of b = Some t}"
  "er_calls (fold_earlier e bs) = er_calls e \<union> {i. \<exists>b\<in>set bs. call_id_of b = Some i}"
  "er_steers (fold_earlier e bs) = er_steers e \<union> {i. \<exists>b\<in>set bs. steer_id_of b = Some i}"
  "er_last_turn (fold_earlier e bs) = (case last_turn bs of Some t \<Rightarrow> Some t | None \<Rightarrow> er_last_turn e)"
  "er_record (fold_earlier e bs) =
     (case turn_record bs of Some r \<Rightarrow> Some (failure r) | None \<Rightarrow> er_record e)"
  "er_user_input (fold_earlier e bs) =
     (case rfind_map user_input bs of Some i \<Rightarrow> Some i | None \<Rightarrow> er_user_input e)"
  using note_blocks [of e bs]
  by (simp_all add: fold_earlier_def Let_def last_turn_def split: option.split)

lemma fold_facts: "fold_earlier (facts_of xs) ys = facts_of (xs @ ys)"
  by (rule earlier_eqI)
    (auto simp: fold_earlier_fields facts_of_def last_turn_def turn_record_def rfind_map_append
       rfind_append split: option.split)

lemma fold_default: "fold_earlier no_earlier bs = facts_of bs"
  using fold_facts [of "[]" bs] by simp

lemma fold_Nil [simp]: "fold_earlier e [] = e"
  by (simp add: fold_earlier_def last_turn_def turn_record_def)

text \<open>The rows the store gives of \<open>bs\<close>, as \<open>SessionStore::earlier\<close> documents them.\<close>

definition rows_of :: "block list \<Rightarrow> earlier_rows" where
  "rows_of bs =
     \<lparr>row_user_turns = List.map_filter user_turn_of bs, row_calls = List.map_filter call_id_of bs,
      row_steers = List.map_filter steer_id_of bs,
      row_last_input = rfind (kind_holds KInput) bs,
      row_last_user_input = rfind (kind_holds KUserInput) bs,
      row_last_record = rfind (kind_holds KRecord) bs\<rparr>"

lemma set_map_filter: "set (List.map_filter f xs) = {y. \<exists>x\<in>set xs. f x = Some y}"
  by (force simp: List.map_filter_def)

lemma turn_of_kind: "(turn_of b = None) = (\<not> kind_holds KInput b)"
  by (cases b) simp_all

lemma user_input_kind: "(user_input b = None) = (\<not> kind_holds KUserInput b)"
  by (cases b) simp_all

lemma rfind_map_rfind:
  assumes "\<And>b. (f b = None) = (\<not> P b)"
  shows "rfind_map f bs = (case rfind P bs of Some b \<Rightarrow> f b | None \<Rightarrow> None)"
proof (induction bs rule: rev_induct)
  case Nil
  show ?case by simp
next
  case (snoc b bs)
  then show ?case using assms [of b] by (cases "f b") simp_all
qed

lemma earlier_of_rows: "earlier_of (rows_of bs) = facts_of bs"
  by (rule earlier_eqI)
    (simp_all add: earlier_of_def rows_of_def facts_of_def set_map_filter last_turn_def turn_record_def
       rfind_map_rfind [where P = "kind_holds KInput", OF turn_of_kind]
       rfind_map_rfind [where P = "kind_holds KUserInput", OF user_input_kind] del: kind_holds.simps)

end
