(* ===== verification/Transcript_Log.thy ===== *)
theory Transcript_Log imports Journal Runs Earlier begin

text \<open>
  The transcript of a live session (\<open>crates/agent-transcript/src/log.rs\<close>): the blocks of its
  window, what it keeps of the blocks before, the versions of the places of its path, its journal,
  and whose turn runs. Every operation of \<open>TranscriptLog\<close> is a function of the log here. The
  identities and times it draws are arguments: an operation that stamps a block takes the \<open>stamp\<close>
  (the next identity and the time), one that only reads the clock takes the time. Where the code
  panics (an assertion, an index out of range) the result is \<open>None\<close>.
\<close>

record asked_end =
  ae_id :: block_id
  ae_failed :: bool
  ae_answer :: "string option"

record pending_call =
  pc_tool_use_id :: string
  pc_tool_name :: string
  pc_input :: string

record request_times =
  rt_sent_at :: timestamp
  rt_first_sent_at :: "timestamp option"
  rt_first_output_at :: "timestamp option"

record log =
  lg_start :: nat
  lg_blocks :: "block list"
  lg_earlier :: earlier
  lg_versions :: "nat \<rightharpoonup> versions"
  lg_journal :: journal
  lg_revision :: nat
  lg_epoch :: string
  lg_asking :: "(turn_id \<times> bool) option"
  lg_asked_end :: "asked_end option"

type_synonym stamp = "block_id \<times> timestamp"

section \<open>What a provider hands over (provider-common/src/contract.rs)\<close>

record opaque_step =
  os_call_id :: "string option"
  os_status :: opaque_status
  os_view :: opaque_view
  os_entries :: "vendor_entry list"

record account_switch =
  xs_cause :: account_switch_cause
  xs_from :: string
  xs_to :: string
  xs_window :: "quota_window_name option"
  xs_resets_at :: "timestamp option"

text \<open>A call's JSON input: a string, null, or any other value by the text serde\_json writes it as.\<close>

datatype call_input = InString string | InNull | InOther string

record requested_call =
  rc_tool_use_id :: string
  rc_tool_name :: string
  rc_input :: call_input

section \<open>Reading the log\<close>

definition log_new :: "string \<Rightarrow> block list \<Rightarrow> log" where
  "log_new epoch blocks =
     \<lparr>lg_start = 0, lg_blocks = blocks, lg_earlier = no_earlier, lg_versions = Map.empty,
      lg_journal = empty_journal, lg_revision = 0, lg_epoch = epoch, lg_asking = None,
      lg_asked_end = None\<rparr>"

definition starting_at :: "log \<Rightarrow> nat \<Rightarrow> earlier \<Rightarrow> log" where
  "starting_at l start e = l\<lparr>lg_start := start, lg_earlier := e\<rparr>"

definition with_versions :: "log \<Rightarrow> (nat \<rightharpoonup> versions) \<Rightarrow> log" where
  "with_versions l vs = l\<lparr>lg_versions := vs\<rparr>"

definition log_len :: "log \<Rightarrow> nat" where
  "log_len l = lg_start l + length (lg_blocks l)"

definition log_get :: "log \<Rightarrow> nat \<Rightarrow> block option" where
  "log_get l i = (if i < lg_start l then None else get_at (lg_blocks l) (i - lg_start l))"

definition log_from :: "log \<Rightarrow> nat \<Rightarrow> block list" where
  "log_from l i = drop (min (i - lg_start l) (length (lg_blocks l))) (lg_blocks l)"

definition log_replay_start :: "log \<Rightarrow> nat" where
  "log_replay_start l = lg_start l + replay_start (lg_blocks l)"

definition log_version :: "log \<Rightarrow> version" where
  "log_version l = \<lparr>ver_epoch = lg_epoch l, ver_revision = lg_revision l\<rparr>"

definition log_position :: "log \<Rightarrow> block_id \<Rightarrow> nat option" where
  "log_position l i = map_option ((+) (lg_start l)) (rposition (\<lambda>b. id_of b = i) (lg_blocks l))"

definition log_find :: "log \<Rightarrow> block_id \<Rightarrow> block option" where
  "log_find l i = (case log_position l i of Some at \<Rightarrow> log_get l at | None \<Rightarrow> None)"

definition turn_failure :: "log \<Rightarrow> error_block option" where
  "turn_failure l =
     (case turn_record (lg_blocks l) of
        Some (Error e) \<Rightarrow> Some e
      | Some _ \<Rightarrow> None
      | None \<Rightarrow> (case er_record (lg_earlier l) of Some r \<Rightarrow> r | None \<Rightarrow> None))"

definition log_last_turn :: "log \<Rightarrow> turn_id option" where
  "log_last_turn l =
     (case last_turn (lg_blocks l) of Some t \<Rightarrow> Some t | None \<Rightarrow> er_last_turn (lg_earlier l))"

definition input_before :: "earlier \<Rightarrow> block list \<Rightarrow> user_input option" where
  "input_before e bs =
     (case rfind_map user_input bs of Some i \<Rightarrow> Some i | None \<Rightarrow> er_user_input e)"

definition log_user_input :: "log \<Rightarrow> user_input option" where
  "log_user_input l = input_before (lg_earlier l) (lg_blocks l)"

definition has_user_turn :: "log \<Rightarrow> turn_id \<Rightarrow> bool" where
  "has_user_turn l turn =
     (has_user_turn_before (lg_earlier l) turn
      \<or> list_ex (\<lambda>b. user_turn_of b = Some turn) (lg_blocks l))"

definition holds_call :: "log \<Rightarrow> block_id \<Rightarrow> bool" where
  "holds_call l i = (holds_call_before (lg_earlier l) i \<or> log_position l i \<noteq> None)"

definition holds_steer :: "log \<Rightarrow> block_id \<Rightarrow> bool" where
  "holds_steer l i = (holds_steer_before (lg_earlier l) i \<or> log_position l i \<noteq> None)"

definition ends_with_interruption :: "log \<Rightarrow> bool" where
  "ends_with_interruption l = (lg_blocks l \<noteq> [] \<and> is_interruption (last (lg_blocks l)))"

definition pending_tool_calls :: "log \<Rightarrow> pending_call list" where
  "pending_tool_calls l =
     List.map_filter
       (\<lambda>b. case b of
          ToolCall c \<Rightarrow>
            if tc_status c = Executing
            then Some \<lparr>pc_tool_use_id = tc_tool_use_id c, pc_tool_name = tc_tool_name c, pc_input = tc_input c\<rparr>
            else None
        | _ \<Rightarrow> None)
       (lg_blocks l)"

definition executing_call :: "log \<Rightarrow> string \<Rightarrow> nat option" where
  "executing_call l tool_use =
     map_option ((+) (lg_start l))
       (rposition (\<lambda>b. case b of
            ToolCall c \<Rightarrow> tc_status c = Executing \<and> tc_tool_use_id c = tool_use | _ \<Rightarrow> False) (lg_blocks l))"

definition completed_call :: "log \<Rightarrow> string \<Rightarrow> nat option" where
  "completed_call l tool_use =
     map_option ((+) (lg_start l))
       (rposition (\<lambda>b. case b of
            ToolCall c \<Rightarrow> tc_status c \<noteq> Executing \<and> tc_tool_use_id c = tool_use | _ \<Rightarrow> False) (lg_blocks l))"

section \<open>Whose turn runs\<close>

fun is_steer :: "block \<Rightarrow> bool" where
  "is_steer (Steer _) = True"
| "is_steer _ = False"

text \<open>\<open>continues_users\<close> is a closure the code calls only where it is needed; it has no effects.\<close>

fun opens_asked :: "block \<Rightarrow> bool \<Rightarrow> bool" where
  "opens_asked (Steer _) continues_users = True"
| "opens_asked (User u) continues_users = (u_schedule u = None)"
| "opens_asked (AgentMessage m) continues_users =
     (if from_another_conversation m then False else continues_users)"
| "opens_asked _ continues_users = continues_users"

definition note_input :: "log \<Rightarrow> block \<Rightarrow> log" where
  "note_input l b =
     (case turn_of b of
        None \<Rightarrow> l
      | Some turn \<Rightarrow>
          let same = (case lg_asking l of Some (current, _) \<Rightarrow> current = turn | None \<Rightarrow> False)
          in if is_steer b then l\<lparr>lg_asking := Some (turn, True)\<rparr>
             else if same then l
             else l\<lparr>lg_asking := Some (turn, opens_asked b (log_user_input l = Some None))\<rparr>)"

text \<open>The loop of \<open>held_turn\<close> over the blocks from its last input back.\<close>

fun held_scan :: "turn_id \<Rightarrow> nat \<Rightarrow> bool \<Rightarrow> block list \<Rightarrow> nat \<times> bool" where
  "held_scan turn opener steered [] = (opener, steered)"
| "held_scan turn opener steered (b # earlier) =
     (case turn_of b of
        Some input \<Rightarrow>
          if input = turn then held_scan turn (length earlier) (steered \<or> is_steer b) earlier
          else (opener, steered)
      | None \<Rightarrow> held_scan turn opener steered earlier)"

definition held_turn :: "earlier \<Rightarrow> block list \<Rightarrow> (turn_id \<times> bool) option" where
  "held_turn e bs =
     (case rposition (\<lambda>b. turn_of b \<noteq> None) bs of
        None \<Rightarrow> None
      | Some last_input \<Rightarrow>
          (case turn_of (bs ! last_input) of
             None \<Rightarrow> None
           | Some turn \<Rightarrow>
               (case held_scan turn last_input False (rev (take (Suc last_input) bs)) of
                  (opener, steered) \<Rightarrow>
                    Some (turn, steered
                      \<or> opens_asked (bs ! opener) (input_before e (take opener bs) = Some None)))))"

definition note_end :: "log \<Rightarrow> log" where
  "note_end l =
     (if lg_blocks l = [] then l
      else
        let ending = last (lg_blocks l);
            failed = (case ending of Response _ \<Rightarrow> Some False
                      | Error e \<Rightarrow> if ends_turn ending then Some True else None
                      | _ \<Rightarrow> None)
        in case failed of
             None \<Rightarrow> l
           | Some failed \<Rightarrow>
               let l' = (if lg_asking l = None
                         then l\<lparr>lg_asking := held_turn (lg_earlier l) (lg_blocks l)\<rparr> else l);
                   asked = (case lg_asking l' of Some (_, asked) \<Rightarrow> asked | None \<Rightarrow> False)
               in if asked
                  then l'\<lparr>lg_asked_end := Some
                         \<lparr>ae_id = id_of ending, ae_failed = failed,
                          ae_answer = (case ended_turn_answer (lg_blocks l) of
                             Some (_, text) \<Rightarrow> map_option t_text text | None \<Rightarrow> None)\<rparr>\<rparr>
                  else l')"

definition take_asked_end :: "log \<Rightarrow> asked_end option \<times> log" where
  "take_asked_end l = (lg_asked_end l, l\<lparr>lg_asked_end := None\<rparr>)"

section \<open>Adding a block\<close>

definition append_received :: "log \<Rightarrow> block \<Rightarrow> bool \<Rightarrow> log" where
  "append_received l b sender_below =
     (let b1 = set_run (run_of (lg_blocks l) b sender_below) b;
          b2 = set_request (request_of (lg_blocks l) b1) b1;
          l1 = note_input l b2;
          index = log_len l1
      in note_end
           (l1\<lparr>lg_journal := journal_add (lg_journal l1) index b2 (lg_versions l1 index),
               lg_blocks := lg_blocks l1 @ [b2]\<rparr>))"

definition append_block :: "log \<Rightarrow> block \<Rightarrow> log" where
  "append_block l b = append_received l b True"


definition push_user ::
  "log \<Rightarrow> stamp \<Rightarrow> turn_id \<Rightarrow> model_selection \<Rightarrow> user_content list \<Rightarrow> message_comment list
     \<Rightarrow> string option \<Rightarrow> schedule_mark option \<Rightarrow> log" where
  "push_user l s turn model content comments preamble schedule =
     append_block l (User
       \<lparr>block_id = fst s, created_at = snd s, request = None, block_model = model,
        u_turn_id = turn, u_content = content, u_comments = comments, u_preamble = preamble,
        u_schedule = schedule, u_entries = []\<rparr>)"

definition push_context ::
  "log \<Rightarrow> stamp \<Rightarrow> turn_id \<Rightarrow> model_selection \<Rightarrow> string \<Rightarrow> string \<Rightarrow> instruction_entry list
     \<Rightarrow> string option \<Rightarrow> log" where
  "push_context l s turn model source text instructions cwd =
     append_block l (Context
       \<lparr>block_id = fst s, created_at = snd s, request = None, block_model = model,
        c_turn_id = turn, c_source = source, c_text = text, c_instructions = instructions,
        c_cwd = cwd, c_entries = []\<rparr>)"

definition push_steer ::
  "log \<Rightarrow> timestamp \<Rightarrow> block_id \<Rightarrow> turn_id \<Rightarrow> model_selection \<Rightarrow> user_content list
     \<Rightarrow> message_comment list \<Rightarrow> log" where
  "push_steer l now i turn model content comments =
     append_block l (Steer
       \<lparr>block_id = i, created_at = now, request = None, block_model = model, s_turn_id = turn,
        s_content = content, s_comments = comments, s_entries = []\<rparr>)"

definition push_wakeup ::
  "log \<Rightarrow> timestamp \<Rightarrow> block_id \<Rightarrow> turn_id \<Rightarrow> model_selection \<Rightarrow> wakeup_placement
     \<Rightarrow> command_report list \<Rightarrow> log" where
  "push_wakeup l now i turn model placement reports =
     append_block l (Wakeup
       \<lparr>block_id = i, created_at = now, request = None, block_model = model, w_turn_id = turn,
        w_placement = placement, w_reports = reports, w_run = None, w_entries = []\<rparr>)"

definition push_agent_message ::
  "log \<Rightarrow> timestamp \<Rightarrow> turn_id \<Rightarrow> model_selection \<Rightarrow> agent_message \<Rightarrow> bool \<Rightarrow> log" where
  "push_agent_message l now turn model message sender_below =
     append_received l (AgentMessage
       \<lparr>block_id = am_id message, created_at = now, request = None, block_model = model,
        m_turn_id = turn, m_message = message, m_run = None, m_entries = []\<rparr>) sender_below"

definition push_resume ::
  "log \<Rightarrow> stamp \<Rightarrow> turn_id \<Rightarrow> model_selection \<Rightarrow> string option \<Rightarrow> log" where
  "push_resume l s turn model reason =
     append_block l (Resume
       \<lparr>block_id = fst s, created_at = snd s, request = None, block_model = model,
        r_turn_id = turn, r_reason = reason, r_entries = []\<rparr>)"

definition push_compaction_marker ::
  "log \<Rightarrow> stamp \<Rightarrow> model_selection \<Rightarrow> block_id \<Rightarrow> nat \<Rightarrow> bool \<Rightarrow> timestamp \<Rightarrow> log" where
  "push_compaction_marker l s model boundary compacted idle started =
     append_block l (CompactionMarker
       \<lparr>block_id = fst s, created_at = snd s, request = None, block_model = model,
        mk_started_at = Some started, mk_boundary_id = boundary, mk_compacted_tokens = compacted,
        mk_idle = idle\<rparr>)"

definition push_abort :: "log \<Rightarrow> stamp \<Rightarrow> model_selection \<Rightarrow> log" where
  "push_abort l s model =
     append_block l (Abort
       \<lparr>block_id = fst s, created_at = snd s, request = None, block_model = model,
        a_is_resumed = False\<rparr>)"

definition push_error ::
  "log \<Rightarrow> stamp \<Rightarrow> model_selection \<Rightarrow> string \<Rightarrow> string option \<Rightarrow> provider_error_diagnostics option
     \<Rightarrow> bool \<Rightarrow> string option \<Rightarrow> log" where
  "push_error l s model message code diagnostics outside_turn account =
     append_block l (Error
       \<lparr>block_id = fst s, created_at = snd s, request = None, block_model = model,
        e_message = message, e_code = code, e_diagnostics = diagnostics,
        e_outside_turn = outside_turn, e_device = None, e_account = account\<rparr>)"

definition open_thinking :: "log \<Rightarrow> stamp \<Rightarrow> model_selection \<Rightarrow> string \<Rightarrow> log" where
  "open_thinking l s model text =
     append_block l (Thinking
       \<lparr>block_id = fst s, created_at = snd s, request = None, block_model = model,
        th_text = text, th_signature = None, th_ended_at = Some (snd s), th_run = None,
        th_text_length = None, th_entries = []\<rparr>)"

definition call_text :: "call_input \<Rightarrow> string" where
  "call_text input = (case input of InString text \<Rightarrow> text | InNull \<Rightarrow> ''{}'' | InOther text \<Rightarrow> text)"

definition push_tool_call ::
  "log \<Rightarrow> stamp \<Rightarrow> model_selection \<Rightarrow> requested_call \<Rightarrow> timestamp option \<Rightarrow> log" where
  "push_tool_call l s model call writing_started_at =
     append_block l (ToolCall
       \<lparr>block_id = fst s, created_at = snd s, request = None, block_model = model,
        tc_tool_use_id = rc_tool_use_id call, tc_tool_name = rc_tool_name call,
        tc_input = call_text (rc_input call), tc_status = Executing, tc_output = [], tc_view = None,
        tc_writing_started_at = writing_started_at, tc_ended_at = None, tc_run = None,
        tc_entries = []\<rparr>)"

definition push_account_switch :: "log \<Rightarrow> stamp \<Rightarrow> model_selection \<Rightarrow> account_switch \<Rightarrow> log" where
  "push_account_switch l s model switch =
     append_block l (AccountSwitch
       \<lparr>block_id = fst s, created_at = snd s, request = None, block_model = model,
        sw_cause = xs_cause switch, sw_from = xs_from switch, sw_to = xs_to switch,
        sw_window = xs_window switch, sw_resets_at = xs_resets_at switch\<rparr>)"

definition push_response ::
  "log \<Rightarrow> stamp \<Rightarrow> model_selection \<Rightarrow> token_usage option \<Rightarrow> request_times \<Rightarrow> log" where
  "push_response l s model usage sent_times =
     append_block l (Response
       \<lparr>block_id = fst s, created_at = snd s, request = None, block_model = model,
        rs_sent_at = Some (rt_sent_at sent_times), rs_first_sent_at = rt_first_sent_at sent_times,
        rs_first_output_at = rt_first_output_at sent_times, rs_usage = usage\<rparr>)"

section \<open>Changing a block in place\<close>

text \<open>
  \<open>record_replace\<close> journals the block as it stands now; \<open>put_block\<close> is the change at the offset
  \<open>at\<close> of the window with its record.
\<close>

definition record_replace :: "log \<Rightarrow> nat \<Rightarrow> log" where
  "record_replace l index =
     l\<lparr>lg_journal := journal_replace (lg_journal l) index (lg_blocks l ! (index - lg_start l))\<rparr>"

definition put_block :: "log \<Rightarrow> nat \<Rightarrow> block \<Rightarrow> log" where
  "put_block l at b = record_replace (l\<lparr>lg_blocks := (lg_blocks l)[at := b]\<rparr>) (lg_start l + at)"

fun is_abort :: "block \<Rightarrow> bool" where
  "is_abort (Abort _) = True"
| "is_abort _ = False"

fun is_thinking :: "block \<Rightarrow> bool" where
  "is_thinking (Thinking _) = True"
| "is_thinking _ = False"

definition mark_latest_abort_resumed :: "log \<Rightarrow> log" where
  "mark_latest_abort_resumed l =
     (case rposition is_abort (lg_blocks l) of
        None \<Rightarrow> l
      | Some at \<Rightarrow>
          (case lg_blocks l ! at of
             Abort a \<Rightarrow> put_block l at (Abort (a\<lparr>a_is_resumed := True\<rparr>))
           | b \<Rightarrow> record_replace l (lg_start l + at)))"

text \<open>Text joins the open block at the end; the block's change and its patch say the same.\<close>

definition append_to_last :: "log \<Rightarrow> block \<Rightarrow> string \<Rightarrow> timestamp \<Rightarrow> log" where
  "append_to_last l b text now =
     (let at = length (lg_blocks l) - 1
      in l\<lparr>lg_blocks := (lg_blocks l)[at := b],
           lg_journal := journal_append_text (lg_journal l) (lg_start l + at) text now\<rparr>)"

definition append_thinking :: "log \<Rightarrow> stamp \<Rightarrow> timestamp \<Rightarrow> model_selection \<Rightarrow> string \<Rightarrow> log" where
  "append_thinking l s now model text =
     (if lg_blocks l = [] then open_thinking l s model text
      else case last (lg_blocks l) of
        Thinking x \<Rightarrow>
          if th_signature x = None
          then append_to_last l
                 (Thinking (x\<lparr>th_text := th_text x @ text, th_ended_at := Some now\<rparr>)) text now
          else open_thinking l s model text
      | _ \<Rightarrow> open_thinking l s model text)"

definition sign_thinking :: "log \<Rightarrow> string \<Rightarrow> log" where
  "sign_thinking l signature =
     (case rposition is_thinking (lg_blocks l) of
        None \<Rightarrow> l
      | Some at \<Rightarrow>
          (case lg_blocks l ! at of
             Thinking x \<Rightarrow> put_block l at (Thinking (x\<lparr>th_signature := Some signature\<rparr>))
           | b \<Rightarrow> record_replace l (lg_start l + at)))"

definition turn_start :: "log \<Rightarrow> nat" where
  "turn_start l = (case rposition is_user (lg_blocks l) of Some at \<Rightarrow> at + 1 | None \<Rightarrow> 0)"

definition settle_step :: "timestamp \<Rightarrow> log \<Rightarrow> nat \<Rightarrow> log" where
  "settle_step now l at =
     (case lg_blocks l ! at of
        Opaque s \<Rightarrow>
          if o_status s = StepRunning
          then put_block l at (Opaque (s\<lparr>o_status := StepFailed, o_ended_at := Some now\<rparr>))
          else l
      | _ \<Rightarrow> l)"

definition settle_opaque :: "log \<Rightarrow> timestamp \<Rightarrow> log" where
  "settle_opaque l now = foldl (settle_step now) l [turn_start l..<length (lg_blocks l)]"

definition is_step_of :: "string \<Rightarrow> block \<Rightarrow> bool" where
  "is_step_of call b = (case b of Opaque s \<Rightarrow> o_call_id s = Some call | _ \<Rightarrow> False)"

definition updates_ended_opaque :: "log \<Rightarrow> opaque_step \<Rightarrow> bool" where
  "updates_ended_opaque l step =
     (case os_call_id step of
        None \<Rightarrow> False
      | Some call \<Rightarrow>
          list_ex (\<lambda>b. case b of
              Opaque s \<Rightarrow> o_call_id s = Some call \<and> o_status s \<noteq> StepRunning | _ \<Rightarrow> False)
            (drop (turn_start l) (lg_blocks l)))"

definition apply_opaque :: "log \<Rightarrow> stamp \<Rightarrow> timestamp \<Rightarrow> model_selection \<Rightarrow> opaque_step \<Rightarrow> log" where
  "apply_opaque l s now model step =
     (let ended_at = (if os_status step \<noteq> StepRunning then Some now else None);
          started = (case os_call_id step of
             None \<Rightarrow> None
           | Some call \<Rightarrow>
               map_option ((+) (turn_start l))
                 (rposition (is_step_of call) (drop (turn_start l) (lg_blocks l))))
      in case started of
           Some at \<Rightarrow>
             (case lg_blocks l ! at of
                Opaque x \<Rightarrow>
                  put_block l at (Opaque (x\<lparr>o_status := os_status step, o_view := os_view step,
                    o_ended_at := ended_at, o_entries := o_entries x @ os_entries step\<rparr>))
              | b \<Rightarrow> record_replace l (lg_start l + at))
         | None \<Rightarrow>
             append_block l (Opaque
               \<lparr>block_id = fst s, created_at = snd s, request = None, block_model = model,
                o_call_id = os_call_id step, o_status = os_status step, o_view = os_view step,
                o_ended_at = ended_at, o_run = None, o_entries = os_entries step\<rparr>))"

definition append_text :: "log \<Rightarrow> stamp \<Rightarrow> timestamp \<Rightarrow> model_selection \<Rightarrow> string \<Rightarrow> log" where
  "append_text l s now model text =
     (let opened = append_block l (TextBlock
            \<lparr>block_id = fst s, created_at = snd s, request = None, block_model = model,
             t_text = text, t_ended_at = Some (snd s), t_forkable = False, t_code_files = None,
             t_pictures = None, t_entries = []\<rparr>)
      in if lg_blocks l = [] then opened
         else case last (lg_blocks l) of
           TextBlock x \<Rightarrow>
             if \<not> t_forkable x
             then append_to_last l
                    (TextBlock (x\<lparr>t_text := t_text x @ text, t_ended_at := Some now\<rparr>)) text now
             else opened
         | _ \<Rightarrow> opened)"

text \<open>
  \<open>named\<close> stands for \<open>named_pictures\<close>, which reads the text with a third-party Markdown parser:
  the paths of the pictures the text shows, in order.
\<close>

definition complete_tail_text :: "(string \<Rightarrow> string list) \<Rightarrow> log \<Rightarrow> bool \<times> log" where
  "complete_tail_text named l =
     (if lg_blocks l = [] then (False, l)
      else
        let at = length (lg_blocks l) - 1;
            earlier = butlast (lg_blocks l)
        in case last (lg_blocks l) of
             TextBlock x \<Rightarrow>
               if t_forkable x \<or> list_ex is_executing earlier then (False, l)
               else
                 let pictures =
                   (if t_pictures x = None \<and> named (t_text x) \<noteq> []
                    then Some (map (\<lambda>target. \<lparr>rp_target = target, rp_copy = Copying\<rparr>) (named (t_text x)))
                    else t_pictures x)
                 in (True, put_block l at (TextBlock (x\<lparr>t_forkable := True, t_pictures := pictures\<rparr>)))
           | _ \<Rightarrow> (False, l))"

definition complete_tool_call ::
  "log \<Rightarrow> timestamp \<Rightarrow> string \<Rightarrow> tool_result_content list \<Rightarrow> bool \<Rightarrow> tool_view option \<Rightarrow> log" where
  "complete_tool_call l now tool_use output is_error view =
     (case executing_call l tool_use of
        None \<Rightarrow> l
      | Some index \<Rightarrow>
          (case lg_blocks l ! (index - lg_start l) of
             ToolCall c \<Rightarrow>
               put_block l (index - lg_start l)
                 (ToolCall (c\<lparr>tc_status := (if is_error then CallError else CallCompleted),
                    tc_output := output, tc_view := view, tc_ended_at := Some now\<rparr>))
           | b \<Rightarrow> record_replace l index))"

definition replace_view :: "log \<Rightarrow> block_id \<Rightarrow> tool_view \<Rightarrow> log" where
  "replace_view l i view =
     (case log_position l i of
        None \<Rightarrow> l
      | Some index \<Rightarrow>
          (case lg_blocks l ! (index - lg_start l) of
             ToolCall c \<Rightarrow> put_block l (index - lg_start l) (ToolCall (c\<lparr>tc_view := Some view\<rparr>))
           | _ \<Rightarrow> l))"

definition keep_code_files :: "log \<Rightarrow> block_id \<Rightarrow> code_file list \<Rightarrow> bool \<times> log" where
  "keep_code_files l i files =
     (case log_position l i of
        None \<Rightarrow> (False, l)
      | Some index \<Rightarrow>
          (case lg_blocks l ! (index - lg_start l) of
             TextBlock x \<Rightarrow>
               if \<not> t_forkable x \<or> t_code_files x \<noteq> None then (False, l)
               else (True, put_block l (index - lg_start l) (TextBlock (x\<lparr>t_code_files := Some files\<rparr>)))
           | _ \<Rightarrow> (False, l)))"

text \<open>The first picture of that target still being copied, set to what became of it.\<close>

fun settle_first :: "string \<Rightarrow> picture_copy \<Rightarrow> reply_picture list \<Rightarrow> reply_picture list option" where
  "settle_first target copy [] = None"
| "settle_first target copy (p # ps) =
     (if rp_target p = target \<and> rp_copy p = Copying then Some (p\<lparr>rp_copy := copy\<rparr> # ps)
      else map_option ((#) p) (settle_first target copy ps))"

definition settle_picture :: "log \<Rightarrow> block_id \<Rightarrow> string \<Rightarrow> picture_copy \<Rightarrow> bool \<times> log" where
  "settle_picture l i target copy =
     (case log_position l i of
        None \<Rightarrow> (False, l)
      | Some index \<Rightarrow>
          (case lg_blocks l ! (index - lg_start l) of
             TextBlock x \<Rightarrow>
               (case t_pictures x of
                  None \<Rightarrow> (False, l)
                | Some pictures \<Rightarrow>
                    (case settle_first target copy pictures of
                       None \<Rightarrow> (False, l)
                     | Some settled \<Rightarrow>
                         (True, put_block l (index - lg_start l) (TextBlock (x\<lparr>t_pictures := Some settled\<rparr>)))))
           | _ \<Rightarrow> (False, l)))"

definition add_entries :: "log \<Rightarrow> block_id \<Rightarrow> vendor_entry list \<Rightarrow> log" where
  "add_entries l i more_entries =
     (case log_position l i of
        None \<Rightarrow> l
      | Some index \<Rightarrow>
          (case entries_mut (\<lambda>held. held @ more_entries) (lg_blocks l ! (index - lg_start l)) of
             None \<Rightarrow> l
           | Some b \<Rightarrow> put_block l (index - lg_start l) b))"

section \<open>Inserting, cutting and rewriting\<close>

definition boundary_request :: "log \<Rightarrow> nat \<Rightarrow> block_id option" where
  "boundary_request l offset =
     (if 0 < offset \<and> offset - 1 < length (lg_blocks l)
      then request_of_block (lg_blocks l ! (offset - 1))
      else case get_at (lg_blocks l) offset of
        Some after \<Rightarrow> if is_user after then None else request_of_block after
      | None \<Rightarrow> None)"

definition insert_compaction_boundary ::
  "log \<Rightarrow> stamp \<Rightarrow> nat \<Rightarrow> model_selection \<Rightarrow> string \<Rightarrow> nat \<Rightarrow> kept_message list
     \<Rightarrow> (block_id \<times> log) option" where
  "insert_compaction_boundary l s index model summary summary_tokens kept_words =
     (if index < lg_start l \<or> log_len l < index then None
      else
        let offset = index - lg_start l;
            b = CompactionBoundary
              \<lparr>block_id = fst s, created_at = snd s, request = boundary_request l offset,
               block_model = model, b_summary = summary, b_summary_tokens = summary_tokens,
               b_kept = kept_words, b_entries = []\<rparr>
        in Some (fst s,
             l\<lparr>lg_versions := map_below index (lg_versions l) ++ map_shift (map_from index (lg_versions l)),
               lg_journal := journal_add (lg_journal l) index b None,
               lg_blocks := insert_at offset b (lg_blocks l)\<rparr>))"

definition withdraw_from :: "log \<Rightarrow> nat \<Rightarrow> log" where
  "withdraw_from l place_at =
     (if place_at < lg_start l \<or> log_len l \<le> place_at then l
      else
        let bs = take (place_at - lg_start l) (lg_blocks l)
        in l\<lparr>lg_blocks := bs, lg_versions := map_below (place_at + 1) (lg_versions l),
             lg_journal := journal_truncate (lg_journal l) place_at,
             lg_asking := held_turn (lg_earlier l) bs, lg_asked_end := None\<rparr>)"

text \<open>
  The blocks of \<open>replace_from\<close> are the path's from the window's start; the slice from \<open>from\<close> on
  must lie within them.
\<close>

definition replace_from ::
  "log \<Rightarrow> nat \<Rightarrow> block list \<Rightarrow> (nat \<rightharpoonup> versions) \<Rightarrow> (patch_batch \<times> log) option" where
  "replace_from l from_at blocks vs =
     (if from_at < lg_start l \<or> lg_start l + length blocks < from_at then None
      else
        let revision = lg_revision l + 1;
            offset = from_at - lg_start l;
            patches = PTruncate from_at #
              map (\<lambda>i. PAdd (lg_start l + i) (blocks ! i) (vs (lg_start l + i))) [offset..<length blocks]
        in Some (\<lparr>pb_revision = revision, pb_patches = patches, pb_rows = no_rows\<rparr>,
             l\<lparr>lg_journal := empty_journal, lg_revision := revision, lg_versions := vs,
               lg_blocks := blocks, lg_asking := held_turn (lg_earlier l) blocks,
               lg_asked_end := None\<rparr>))"

definition rewrite_versions :: "log \<Rightarrow> nat \<Rightarrow> bool \<Rightarrow> (nat \<rightharpoonup> versions)" where
  "rewrite_versions l kept_at version =
     (let vs = map_below (kept_at + 1) (lg_versions l);
          count = (case vs kept_at of
                     Some held \<Rightarrow> v_count held + 1
                   | None \<Rightarrow> if kept_at < log_len l then 2 else 1)
      in if version
         then (if 1 < count then vs(kept_at \<mapsto> \<lparr>v_index = count, v_count = count\<rparr>)
               else vs(kept_at := None))
         else vs)"

definition replace_all :: "log \<Rightarrow> block list \<Rightarrow> bool \<Rightarrow> (patch_batch \<times> log) option" where
  "replace_all l blocks version =
     (let kept_at = lg_start l + common_prefix (lg_blocks l) blocks
      in replace_from l kept_at blocks (rewrite_versions l kept_at version))"

definition switch_versions ::
  "log \<Rightarrow> nat \<Rightarrow> block list \<Rightarrow> (nat \<rightharpoonup> versions) \<Rightarrow> (patch_batch \<times> log) option" where
  "switch_versions l place_at blocks vs =
     replace_from l place_at blocks (map_below place_at (lg_versions l) ++ vs)"

definition switch_window ::
  "log \<Rightarrow> nat \<Rightarrow> nat \<Rightarrow> block list \<Rightarrow> (nat \<rightharpoonup> versions) \<Rightarrow> earlier \<Rightarrow> (patch_batch \<times> log) option" where
  "switch_window l place_at start blocks vs e =
     replace_from (l\<lparr>lg_start := start, lg_earlier := e\<rparr>) place_at blocks vs"

section \<open>The window, and committing\<close>

definition extend_back ::
  "log \<Rightarrow> nat \<Rightarrow> block list \<Rightarrow> (nat \<rightharpoonup> versions) \<Rightarrow> earlier \<Rightarrow> log option" where
  "extend_back l start blocks vs e =
     (if start + length blocks \<noteq> lg_start l then None
      else Some (l\<lparr>lg_blocks := blocks @ lg_blocks l, lg_start := start, lg_earlier := e,
             lg_versions := lg_versions l ++ vs\<rparr>))"

definition release_before :: "log \<Rightarrow> nat \<Rightarrow> log" where
  "release_before l place_at =
     (let count = min (place_at - lg_start l) (length (lg_blocks l))
      in if count = 0 then l
         else l\<lparr>lg_blocks := drop count (lg_blocks l),
                lg_earlier := fold_earlier (lg_earlier l) (take count (lg_blocks l)),
                lg_start := lg_start l + count,
                lg_versions := map_from (lg_start l + count) (lg_versions l)\<rparr>)"

definition take_patches :: "log \<Rightarrow> patch_batch option \<times> log" where
  "take_patches l =
     (case journal_take (lg_journal l) (lg_revision l + 1) of
        (None, j) \<Rightarrow> (None, l\<lparr>lg_journal := j\<rparr>)
      | (Some batch, j) \<Rightarrow> (Some batch, l\<lparr>lg_journal := j, lg_revision := pb_revision batch\<rparr>))"

end
