(* ===== verification/Log_Sync.thy ===== *)
theory Log_Sync imports Transcript_Log begin

text \<open>
  What the journal promises whoever keeps up with a log. A page that applies the patches recorded
  holds the log's path; a store that writes the rows recorded holds it too. \<open>recorded\<close> is that
  contract of one change, proved of every operation of the log; \<open>log_operation\<close> is the
  interface of anything that changes a log by the contract, interpreted on the datatype of the
  operations.
\<close>

section \<open>The contract of a change\<close>

definition window :: "log \<Rightarrow> placed list" where
  "window l = map (\<lambda>i. (lg_blocks l ! i, lg_versions l (lg_start l + i))) [0..<length (lg_blocks l)]"

lemma window_length [simp]: "length (window l) = length (lg_blocks l)"
  by (simp add: window_def)

lemma window_nth [simp]:
  "i < length (lg_blocks l) \<Longrightarrow> window l ! i = (lg_blocks l ! i, lg_versions l (lg_start l + i))"
  by (simp add: window_def)

lemma window_cong:
  "lg_blocks l' = lg_blocks l \<Longrightarrow> lg_versions l' = lg_versions l \<Longrightarrow> lg_start l' = lg_start l \<Longrightarrow>
     window l' = window l"
  by (simp add: window_def)

lemma window_blocks: "map fst (window l) = lg_blocks l"
  by (rule nth_equalityI) auto

abbreviation log_rows :: "log \<Rightarrow> dirty_rows" where
  "log_rows l \<equiv> j_rows (lg_journal l)"

abbreviation log_patches :: "log \<Rightarrow> patch list" where
  "log_patches l \<equiv> j_patches (lg_journal l)"

definition journal_ok :: "log \<Rightarrow> bool" where
  "journal_ok l = (rows_ok (log_rows l) \<and> (log_patches l = [] \<longrightarrow> log_rows l = no_rows))"

text \<open>\<open>replays l l' ps\<close>: the patches added between the two, and that they make the one the other.\<close>

definition replays :: "log \<Rightarrow> log \<Rightarrow> patch list \<Rightarrow> bool" where
  "replays l l' ps =
     ((\<forall>bs. apply_patches bs (log_patches l') = apply_patches (apply_patches bs (log_patches l)) ps)
      \<and> (\<forall>pre. length pre = lg_start l \<longrightarrow> apply_patches (pre @ window l) ps = pre @ window l'))"

text \<open>\<open>marks l l'\<close>: every row of the window that changed, moved or is new is marked.\<close>

definition marks :: "log \<Rightarrow> log \<Rightarrow> bool" where
  "marks l l' =
     ((\<forall>k<length (lg_blocks l'). \<not> dirty (log_rows l') (lg_start l + k) \<longrightarrow>
         k < length (lg_blocks l) \<and> lg_blocks l' ! k = lg_blocks l ! k)
      \<and> (\<forall>k<length (lg_blocks l'). kept_row (log_rows l') (lg_start l + k) \<longrightarrow>
         k < length (lg_blocks l) \<and> kept_row (log_rows l) (lg_start l + k))
      \<and> (dr_floor (log_rows l') = None \<longrightarrow>
         dr_floor (log_rows l) = None \<and> length (lg_blocks l') = length (lg_blocks l))
      \<and> (\<forall>i. dirty (log_rows l) i \<longrightarrow> dirty (log_rows l') i)
      \<and> (\<forall>i<lg_start l. dirty (log_rows l') i \<longrightarrow> dirty (log_rows l) i))"

definition recorded :: "log \<Rightarrow> log \<Rightarrow> bool" where
  "recorded l l' =
     (journal_ok l' \<and> lg_start l' = lg_start l \<and> lg_earlier l' = lg_earlier l
      \<and> lg_revision l' = lg_revision l \<and> lg_epoch l' = lg_epoch l
      \<and> (\<exists>ps. replays l l' ps) \<and> marks l l')"

lemma replays_refl: "replays l l []"
  by (simp add: replays_def)

lemma marks_refl: "marks l l"
  by (simp add: marks_def)

lemma recorded_refl: "journal_ok l \<Longrightarrow> recorded l l"
  unfolding recorded_def using replays_refl marks_refl by blast

lemma replays_trans: "replays l m ps \<Longrightarrow> lg_start m = lg_start l \<Longrightarrow> replays m n qs \<Longrightarrow> replays l n (ps @ qs)"
  by (simp add: replays_def)

lemma marksD:
  assumes "marks l l'"
  shows "k < length (lg_blocks l') \<Longrightarrow> \<not> dirty (log_rows l') (lg_start l + k) \<Longrightarrow>
           k < length (lg_blocks l) \<and> lg_blocks l' ! k = lg_blocks l ! k"
    and "dirty (log_rows l) i \<Longrightarrow> dirty (log_rows l') i"
    and "i < lg_start l \<Longrightarrow> dirty (log_rows l') i \<Longrightarrow> dirty (log_rows l) i"
    and "k < length (lg_blocks l') \<Longrightarrow> kept_row (log_rows l') (lg_start l + k) \<Longrightarrow>
           k < length (lg_blocks l) \<and> kept_row (log_rows l) (lg_start l + k)"
    and "dr_floor (log_rows l') = None \<Longrightarrow>
           dr_floor (log_rows l) = None \<and> length (lg_blocks l') = length (lg_blocks l)"
  using assms unfolding marks_def by blast+

lemma marks_trans:
  assumes "marks l m" "lg_start m = lg_start l" "marks m n"
  shows "marks l n"
  unfolding marks_def
proof (intro conjI allI impI)
  fix k assume k: "k < length (lg_blocks n)" "\<not> dirty (log_rows n) (lg_start l + k)"
  have m: "k < length (lg_blocks m)" "lg_blocks n ! k = lg_blocks m ! k"
    using marksD(1) [OF assms(3)] k assms(2) by metis+
  have "\<not> dirty (log_rows m) (lg_start l + k)" using marksD(2) [OF assms(3)] k by blast
  then show "k < length (lg_blocks l)" "lg_blocks n ! k = lg_blocks l ! k"
    using marksD(1) [OF assms(1)] m by metis+
next
  fix k assume k: "k < length (lg_blocks n)" "kept_row (log_rows n) (lg_start l + k)"
  then have m: "k < length (lg_blocks m)" "kept_row (log_rows m) (lg_start l + k)"
    using marksD(4) [OF assms(3)] assms(2) by metis+
  then show "k < length (lg_blocks l)" "kept_row (log_rows l) (lg_start l + k)"
    using marksD(4) [OF assms(1)] by metis+
next
  assume "dr_floor (log_rows n) = None"
  then show "dr_floor (log_rows l) = None" "length (lg_blocks n) = length (lg_blocks l)"
    using marksD(5) [OF assms(1)] marksD(5) [OF assms(3)] by metis+
next
  fix i
  show "dirty (log_rows l) i \<Longrightarrow> dirty (log_rows n) i"
    using marksD(2) [OF assms(1)] marksD(2) [OF assms(3)] by blast
  show "i < lg_start l \<Longrightarrow> dirty (log_rows n) i \<Longrightarrow> dirty (log_rows l) i"
    using marksD(3) [OF assms(1)] marksD(3) [OF assms(3)] assms(2) by metis
qed

lemma recorded_trans [trans]:
  assumes "recorded l m" "recorded m n"
  shows "recorded l n"
proof -
  have start: "lg_start m = lg_start l" using assms(1) by (simp add: recorded_def)
  obtain ps qs where "replays l m ps" "replays m n qs" using assms by (auto simp: recorded_def)
  then have "replays l n (ps @ qs)" using replays_trans start by blast
  moreover have "marks l m" "marks m n" using assms by (simp_all add: recorded_def)
  then have "marks l n" using marks_trans start by blast
  ultimately show ?thesis using assms unfolding recorded_def by auto
qed

lemma recorded_ok: "recorded l l' \<Longrightarrow> journal_ok l'"
  by (simp add: recorded_def)

text \<open>A change of whose turn runs changes no block and records nothing.\<close>

definition same_path :: "log \<Rightarrow> log \<Rightarrow> bool" where
  "same_path l l' =
     (lg_start l' = lg_start l \<and> lg_earlier l' = lg_earlier l \<and> lg_revision l' = lg_revision l
      \<and> lg_epoch l' = lg_epoch l \<and> lg_blocks l' = lg_blocks l \<and> lg_versions l' = lg_versions l
      \<and> lg_journal l' = lg_journal l)"

lemma same_path_window: "same_path l l' \<Longrightarrow> window l' = window l"
  by (intro window_cong) (simp_all add: same_path_def)

lemma same_path_recorded: "journal_ok l \<Longrightarrow> same_path l l' \<Longrightarrow> recorded l l'"
proof -
  assume ok: "journal_ok l" and same: "same_path l l'"
  have "replays l l' []" "marks l l'" "journal_ok l'"
    using ok same same_path_window [OF same]
    by (simp_all add: replays_def marks_def journal_ok_def same_path_def)
  then show ?thesis using same unfolding recorded_def same_path_def by blast
qed

lemma note_input_same: "same_path l (note_input l b)"
  by (simp add: note_input_def same_path_def Let_def split: option.split)

lemma note_end_same: "same_path l (note_end l)"
  by (simp add: note_end_def same_path_def Let_def split: block.split option.split prod.split)

lemma same_path_trans: "same_path l m \<Longrightarrow> same_path m n \<Longrightarrow> same_path l n"
  by (simp add: same_path_def)

text \<open>One journal record with its change of the window.\<close>

lemma recorded_by:
  assumes ok: "journal_ok l" and rec: "records (lg_journal l) p rows (lg_journal l')"
    and start: "lg_start l' = lg_start l" "lg_earlier l' = lg_earlier l" "lg_revision l' = lg_revision l"
      "lg_epoch l' = lg_epoch l"
    and patch: "\<And>pre. length pre = lg_start l \<Longrightarrow> apply_patch (pre @ window l) p = pre @ window l'"
    and ok': "rows_ok (rows (log_rows l))"
    and mark: "marks l l'"
  shows "recorded l l'"
proof -
  have "replays l l' [p]"
    using rec patch by (simp add: replays_def records_def apply_patches_def)
  then show ?thesis
    using rec ok' start mark unfolding recorded_def journal_ok_def records_def by auto
qed

lemma marksI:
  assumes "rows_ok (log_rows l)"
    and "log_rows l' = change_row (log_rows l) (lg_start l + at)"
    and "at < length (lg_blocks l)" "lg_blocks l' = (lg_blocks l)[at := b]"
  shows "marks l l'"
  using assms by (auto simp: marks_def nth_list_update)

lemma list_update_append_right:
  "length pre = n \<Longrightarrow> (pre @ xs)[n + i := y] = pre @ xs[i := y]"
  by (simp add: list_update_append)

lemma put_block_recorded:
  assumes "journal_ok l" "at < length (lg_blocks l)"
  shows "recorded l (put_block l at b)"
proof (rule recorded_by [OF assms(1), where p = "PReplace (lg_start l + at) b"
      and rows = "\<lambda>d. change_row d (lg_start l + at)"])
  have same: "(lg_blocks l)[at := b] ! at = b" using assms(2) by simp
  show "records (lg_journal l) (PReplace (lg_start l + at) b) (\<lambda>d. change_row d (lg_start l + at))
      (lg_journal (put_block l at b))"
    using same journal_replace_records by (simp add: put_block_def record_replace_def)
  have "window (put_block l at b) = (window l)[at := (b, lg_versions l (lg_start l + at))]"
    by (rule nth_equalityI)
      (use assms(2) in \<open>auto simp: put_block_def record_replace_def window_def nth_list_update\<close>)
  then show "apply_patch (pre @ window l) (PReplace (lg_start l + at) b) = pre @ window (put_block l at b)"
    if "length pre = lg_start l" for pre
    using assms(2) that by (simp add: list_update_append nth_append)
  show "marks l (put_block l at b)"
    using assms by (intro marksI) (auto simp: put_block_def record_replace_def journal_replace_def journal_ok_def)
qed (use assms in \<open>simp_all add: put_block_def record_replace_def journal_ok_def\<close>)

lemma apply_append_window:
  "length pre = n \<Longrightarrow> i < length ws \<Longrightarrow>
     apply_patch (pre @ ws) (PAppend (n + i) d t) = pre @ ws[i := (text_appended d t (fst (ws ! i)), snd (ws ! i))]"
  by (simp add: list_update_append nth_append)

lemma append_to_last_recorded:
  assumes "journal_ok l" "lg_blocks l \<noteq> []" "b = text_appended text now (last (lg_blocks l))"
  shows "recorded l (append_to_last l b text now)"
proof (rule recorded_by [OF assms(1), where p = "PAppend (lg_start l + (length (lg_blocks l) - 1)) text now"
      and rows = "\<lambda>d. change_row d (lg_start l + (length (lg_blocks l) - 1))"])
  let ?at = "length (lg_blocks l) - 1"
  have at: "?at < length (lg_blocks l)" using assms(2) by (cases "lg_blocks l") auto
  show rec: "records (lg_journal l) (PAppend (lg_start l + ?at) text now) (\<lambda>d. change_row d (lg_start l + ?at))
      (lg_journal (append_to_last l b text now))"
    by (simp add: append_to_last_def Let_def journal_append_text_records)
  have last: "lg_blocks l ! ?at = last (lg_blocks l)" using assms(2) by (simp add: last_conv_nth)
  have "window (append_to_last l b text now) = (window l)[?at := (b, lg_versions l (lg_start l + ?at))]"
    by (rule nth_equalityI) (use at in \<open>auto simp: append_to_last_def Let_def window_def nth_list_update\<close>)
  then show "apply_patch (pre @ window l) (PAppend (lg_start l + ?at) text now)
      = pre @ window (append_to_last l b text now)" if "length pre = lg_start l" for pre
    using apply_append_window [OF that, of ?at "window l"] at last assms(3) by (simp del: apply_patch.simps)
  show "marks l (append_to_last l b text now)"
    using assms at rec
    by (intro marksI [where at = ?at and b = b]) (auto simp: append_to_last_def Let_def records_def journal_ok_def)
qed (use assms in \<open>simp_all add: append_to_last_def Let_def journal_ok_def\<close>)

text \<open>A block added at the end, and one inserted where kept history begins.\<close>

lemma marks_moved:
  assumes "rows_ok (log_rows l)" "log_rows l' = move_from (log_rows l) (lg_start l + n)"
    and "\<And>k. k < length (lg_blocks l') \<Longrightarrow> k < n \<Longrightarrow> k < length (lg_blocks l) \<and> lg_blocks l' ! k = lg_blocks l ! k"
  shows "marks l l'"
  using assms by (auto simp: marks_def not_le)

lemma appended_recorded:
  assumes "journal_ok l"
    and l': "l' = l\<lparr>lg_journal := journal_add (lg_journal l) (log_len l) b (lg_versions l (log_len l)),
               lg_blocks := lg_blocks l @ [b]\<rparr>"
  shows "recorded l l'"
proof (rule recorded_by [OF assms(1), where p = "PAdd (log_len l) b (lg_versions l (log_len l))"
      and rows = "\<lambda>d. move_from d (log_len l)"])
  show "records (lg_journal l) (PAdd (log_len l) b (lg_versions l (log_len l))) (\<lambda>d. move_from d (log_len l))
      (lg_journal l')"
    by (simp add: l' journal_add_records)
  have "window l' = window l @ [(b, lg_versions l (log_len l))]"
    by (rule nth_equalityI) (auto simp: l' window_def nth_append log_len_def less_Suc_eq)
  then show "apply_patch (pre @ window l) (PAdd (log_len l) b (lg_versions l (log_len l))) = pre @ window l'"
    if "length pre = lg_start l" for pre
    using that by (simp add: log_len_def insert_at_def)
  show "marks l l'"
    using assms by (intro marks_moved [where n = "length (lg_blocks l)"])
      (auto simp: log_len_def journal_add_def journal_ok_def nth_append)
qed (use assms in \<open>simp_all add: journal_ok_def\<close>)

lemma insert_at_append: "length pre \<le> i \<Longrightarrow> insert_at i x (pre @ xs) = pre @ insert_at (i - length pre) x xs"
  by (simp add: insert_at_def)

lemma inserted_recorded:
  assumes "insert_compaction_boundary l s index model summary tokens words = Some (i, l')" "journal_ok l"
  shows "recorded l l'"
proof -
  obtain b where range: "lg_start l \<le> index" "index \<le> log_len l"
    and l': "l' = l\<lparr>lg_versions := map_below index (lg_versions l) ++ map_shift (map_from index (lg_versions l)),
               lg_journal := journal_add (lg_journal l) index b None,
               lg_blocks := insert_at (index - lg_start l) b (lg_blocks l)\<rparr>"
    using assms(1) by (auto simp: insert_compaction_boundary_def Let_def split: if_splits)
  let ?n = "index - lg_start l"
  have n: "?n \<le> length (lg_blocks l)" using range by (simp add: log_len_def)
  have vs: "lg_versions l' (lg_start l + k) =
      (if k < ?n then lg_versions l (lg_start l + k) else if k = ?n then None
       else lg_versions l (lg_start l + (k - 1)))" for k
    using range by (cases "lg_start l + k") (auto simp: l' map_add_def split: option.split)
  have win: "window l' = insert_at ?n (b, None) (window l)"
  proof (rule nth_equalityI)
    show "length (window l') = length (insert_at ?n (b, None) (window l))" by (simp add: l')
    fix k assume "k < length (window l')"
    then have k: "k \<le> length (lg_blocks l)" by (simp add: l')
    then have "window l' ! k = (lg_blocks l' ! k, lg_versions l' (lg_start l + k))"
      by (subst window_nth) (simp_all add: l')
    then show "window l' ! k = insert_at ?n (b, None) (window l) ! k"
      using k n by (simp add: vs nth_insert_at) (simp add: l' nth_insert_at)
  qed
  show ?thesis
  proof (rule recorded_by [OF assms(2), where p = "PAdd index b None" and rows = "\<lambda>d. move_from d index"])
    show "records (lg_journal l) (PAdd index b None) (\<lambda>d. move_from d index) (lg_journal l')"
      by (simp add: l' journal_add_records)
    show "apply_patch (pre @ window l) (PAdd index b None) = pre @ window l'" if "length pre = lg_start l" for pre
      using that range by (simp add: win insert_at_append)
    show "marks l l'"
      using assms(2) range n by (intro marks_moved [where n = ?n])
        (auto simp: l' journal_add_def journal_ok_def nth_insert_at)
  qed (use assms(2) in \<open>simp_all add: l' journal_ok_def\<close>)
qed

lemma withdrawn_recorded: "journal_ok l \<Longrightarrow> recorded l (withdraw_from l index)"
proof (cases "index < lg_start l \<or> log_len l \<le> index")
  case True
  assume "journal_ok l"
  then show ?thesis using True recorded_refl by (simp add: withdraw_from_def)
next
  case False
  assume ok: "journal_ok l"
  let ?l' = "withdraw_from l index"
  let ?n = "index - lg_start l"
  have n: "?n < length (lg_blocks l)" using False by (simp add: log_len_def) linarith
  have blocks: "lg_blocks ?l' = take ?n (lg_blocks l)"
    and others: "lg_start ?l' = lg_start l" "lg_earlier ?l' = lg_earlier l"
      "lg_revision ?l' = lg_revision l" "lg_epoch ?l' = lg_epoch l"
    and vs: "lg_versions ?l' = map_below (index + 1) (lg_versions l)"
    and journal: "lg_journal ?l' = journal_truncate (lg_journal l) index"
    using False by (simp_all add: withdraw_from_def Let_def)
  have win: "window ?l' = take ?n (window l)"
    by (rule nth_equalityI) (use n False in \<open>auto simp: window_def blocks others vs\<close>)
  show ?thesis
  proof (rule recorded_by [OF ok, where p = "PTruncate index" and rows = "\<lambda>d. move_from d index"])
    show "apply_patch (pre @ window l) (PTruncate index) = pre @ window ?l'" if "length pre = lg_start l" for pre
      using that False by (simp add: win)
    show "marks l ?l'"
      using ok False n by (intro marks_moved [where n = ?n]) (auto simp: blocks journal journal_truncate_def journal_ok_def)
  qed (use ok in \<open>simp_all add: others journal journal_truncate_records journal_ok_def\<close>)
qed

section \<open>Every operation keeps the contract\<close>

lemma append_received_recorded [simp]:
  assumes "journal_ok l"
  shows "recorded l (append_received l b sb)"
proof -
  define b2 where "b2 = set_request (request_of (lg_blocks l) (set_run (run_of (lg_blocks l) b sb) b))
      (set_run (run_of (lg_blocks l) b sb) b)"
  define l1 where "l1 = note_input l b2"
  define l2 where "l2 = l1\<lparr>lg_journal := journal_add (lg_journal l1) (log_len l1) b2 (lg_versions l1 (log_len l1)),
      lg_blocks := lg_blocks l1 @ [b2]\<rparr>"
  have "recorded l l1"
    unfolding l1_def using assms note_input_same same_path_recorded by blast
  also have "recorded l1 l2"
    using recorded_ok [OF \<open>recorded l l1\<close>] l2_def by (rule appended_recorded)
  also have "recorded l2 (note_end l2)"
    using recorded_ok [OF \<open>recorded l1 l2\<close>] note_end_same same_path_recorded by blast
  also have "note_end l2 = append_received l b sb"
    by (simp add: append_received_def Let_def b2_def l1_def l2_def)
  finally show ?thesis .
qed

lemma append_block_recorded [simp]: "journal_ok l \<Longrightarrow> recorded l (append_block l b)"
  by (simp add: append_block_def)

lemmas push_defs = push_user_def push_context_def push_steer_def push_wakeup_def
  push_agent_message_def push_resume_def push_compaction_marker_def push_abort_def push_error_def
  open_thinking_def push_tool_call_def push_account_switch_def push_response_def

text \<open>A record of a block that did not change (where the code records whatever it found).\<close>

lemma record_replace_put:
  "at < length (lg_blocks l) \<Longrightarrow> record_replace l (lg_start l + at) = put_block l at (lg_blocks l ! at)"
  by (simp add: put_block_def)

lemmas put_recorded = put_block_recorded recorded_refl append_block_recorded

lemma mark_latest_abort_resumed_recorded: "journal_ok l \<Longrightarrow> recorded l (mark_latest_abort_resumed l)"
  using rposition_less [of is_abort "lg_blocks l"]
  by (auto simp: mark_latest_abort_resumed_def record_replace_put put_recorded split: option.split block.split)

lemma sign_thinking_recorded: "journal_ok l \<Longrightarrow> recorded l (sign_thinking l signature)"
  using rposition_less [of is_thinking "lg_blocks l"]
  by (auto simp: sign_thinking_def record_replace_put put_recorded split: option.split block.split)

lemma append_thinking_recorded: "journal_ok l \<Longrightarrow> recorded l (append_thinking l s now model text)"
  by (auto simp: append_thinking_def open_thinking_def append_to_last_recorded split: block.split)

lemma append_text_recorded: "journal_ok l \<Longrightarrow> recorded l (append_text l s now model text)"
  by (auto simp: append_text_def Let_def append_to_last_recorded split: block.split)

lemma settle_step_recorded: "journal_ok l \<Longrightarrow> at < length (lg_blocks l) \<Longrightarrow> recorded l (settle_step now l at)"
  by (auto simp: settle_step_def put_recorded split: block.split)

lemma settle_step_length: "length (lg_blocks (settle_step now l at)) = length (lg_blocks l)"
  by (simp add: settle_step_def put_block_def record_replace_def split: block.split)

lemma settle_steps_recorded:
  "journal_ok l \<Longrightarrow> \<forall>at\<in>set steps. at < length (lg_blocks l) \<Longrightarrow> recorded l (foldl (settle_step now) l steps)"
proof (induction steps arbitrary: l)
  case Nil
  then show ?case by (simp add: recorded_refl)
next
  case (Cons at steps)
  then have "recorded l (settle_step now l at)" by (simp add: settle_step_recorded)
  also have "recorded (settle_step now l at) (foldl (settle_step now) (settle_step now l at) steps)"
    using Cons recorded_ok [OF \<open>recorded l (settle_step now l at)\<close>] by (simp add: settle_step_length)
  finally show ?case by simp
qed

lemma settle_opaque_recorded: "journal_ok l \<Longrightarrow> recorded l (settle_opaque l now)"
  unfolding settle_opaque_def by (rule settle_steps_recorded) auto

lemma apply_opaque_recorded: "journal_ok l \<Longrightarrow> recorded l (apply_opaque l s now model step)"
proof -
  assume ok: "journal_ok l"
  have at: "turn_start l + i < length (lg_blocks l)"
    if "rposition P (drop (turn_start l) (lg_blocks l)) = Some i" for P i
    using rposition_less [OF that] by simp
  show ?thesis
    using ok at
    by (auto simp: apply_opaque_def Let_def record_replace_put put_recorded split: option.split block.split)
qed

lemma complete_tail_text_recorded: "journal_ok l \<Longrightarrow> recorded l (snd (complete_tail_text named l))"
  by (auto simp: complete_tail_text_def Let_def put_recorded split: block.split)

text \<open>A block found by its place in the window.\<close>

lemma found_at:
  assumes "map_option ((+) (lg_start l)) (rposition P (lg_blocks l)) = Some i"
  shows "i - lg_start l < length (lg_blocks l)" "i = lg_start l + (i - lg_start l)"
  using assms rposition_less [of P "lg_blocks l"] by auto

lemma position_at:
  "log_position l i = Some at \<Longrightarrow> at - lg_start l < length (lg_blocks l)"
  using found_at unfolding log_position_def by blast

lemma complete_tool_call_recorded:
  "journal_ok l \<Longrightarrow> recorded l (complete_tool_call l now use output err view)"
proof -
  assume ok: "journal_ok l"
  show ?thesis
  proof (cases "executing_call l use")
    case None
    then show ?thesis using ok by (simp add: complete_tool_call_def recorded_refl)
  next
    case (Some i)
    then have "i - lg_start l < length (lg_blocks l)" "lg_start l + (i - lg_start l) = i"
      using found_at [of l _ i] by (auto simp: executing_call_def)
    then show ?thesis
      using ok Some record_replace_put [of "i - lg_start l" l]
      by (auto simp: complete_tool_call_def put_recorded split: block.split)
  qed
qed

lemma replace_view_recorded: "journal_ok l \<Longrightarrow> recorded l (replace_view l i view)"
  using position_at [of l i] by (auto simp: replace_view_def put_recorded split: option.split block.split)

lemma keep_code_files_recorded: "journal_ok l \<Longrightarrow> recorded l (snd (keep_code_files l i files))"
  using position_at [of l i] by (auto simp: keep_code_files_def put_recorded split: option.split block.split)

lemma settle_picture_recorded: "journal_ok l \<Longrightarrow> recorded l (snd (settle_picture l i target copy))"
  using position_at [of l i] by (auto simp: settle_picture_def put_recorded split: option.split block.split)

lemma add_entries_recorded: "journal_ok l \<Longrightarrow> recorded l (add_entries l i es)"
  using position_at [of l i] by (auto simp: add_entries_def put_recorded split: option.split)

section \<open>Replacing the path\<close>

lemma apply_adds:
  "length bs = n \<Longrightarrow> apply_patches bs (map (\<lambda>i. PAdd (n + i) (f i) (v i)) [0..<k]) = bs @ map (\<lambda>i. (f i, v i)) [0..<k]"
  by (induction k) (simp_all add: apply_patches_snoc insert_at_def del: apply_patches_append)

lemma apply_adds_from:
  assumes "length bs = n + offset" "offset \<le> k"
  shows "apply_patches bs (map (\<lambda>i. PAdd (n + i) (f i) (v i)) [offset..<k])
    = bs @ map (\<lambda>i. (f i, v i)) [offset..<k]"
proof -
  have shift: "map g [offset..<k] = map (\<lambda>i. g (offset + i)) [0..<k - offset]" for g :: "nat \<Rightarrow> 'z"
    using assms(2) by (intro nth_equalityI) auto
  show ?thesis
    using apply_adds [OF assms(1), of "\<lambda>i. f (offset + i)" "\<lambda>i. v (offset + i)" "k - offset"]
    by (simp add: shift add.assoc)
qed

definition synced :: "placed list \<Rightarrow> placed list \<Rightarrow> log \<Rightarrow> bool" where
  "synced pre pub l = (length pre = lg_start l \<and> apply_patches pub (log_patches l) = pre @ window l)"

lemma recorded_synced: "recorded l l' \<Longrightarrow> synced pre pub l \<Longrightarrow> synced pre pub l'"
  by (auto simp: recorded_def replays_def synced_def)

text \<open>Committing publishes exactly what was recorded.\<close>

definition published :: "placed list \<Rightarrow> patch_batch option \<Rightarrow> placed list" where
  "published pub batch = (case batch of None \<Rightarrow> pub | Some b \<Rightarrow> apply_patches pub (pb_patches b))"

lemma take_patches_fields:
  assumes "take_patches l = (batch, l')"
  shows "lg_blocks l' = lg_blocks l" "lg_versions l' = lg_versions l" "lg_start l' = lg_start l"
    "lg_earlier l' = lg_earlier l" "log_patches l' = []" "lg_epoch l' = lg_epoch l"
    "lg_asking l' = lg_asking l" "lg_asked_end l' = lg_asked_end l"
    "lg_revision l' = lg_revision l + (if log_patches l = [] then 0 else 1)"
    "case batch of None \<Rightarrow> log_patches l = [] \<and> lg_journal l' = lg_journal l
      | Some b \<Rightarrow> pb_patches b = log_patches l \<and> pb_rows b = log_rows l \<and> lg_journal l' = empty_journal"
  using assms by (auto simp: take_patches_def journal_take_def split: if_splits)

lemma take_patches_synced:
  "take_patches l = (batch, l') \<Longrightarrow> synced pre pub l \<Longrightarrow> synced pre (published pub batch) l'"
  by (frule take_patches_fields)
    (auto simp: synced_def published_def take_patches_def journal_take_def window_def split: if_splits)

text \<open>
  A replacement publishes a batch of its own and drops what the journal held, so a page keeps up
  when nothing was left to commit and the blocks before the place stayed.
\<close>

lemma replace_from_synced:
  assumes "replace_from l at blocks vs = Some (batch, l')" "synced pre pub l" "log_patches l = []"
    and keep: "\<And>i. lg_start l + i < at \<Longrightarrow> i < length (lg_blocks l)
       \<and> blocks ! i = lg_blocks l ! i \<and> vs (lg_start l + i) = lg_versions l (lg_start l + i)"
  shows "synced pre (published pub (Some batch)) l'"
proof -
  define offset where "offset = at - lg_start l"
  have at: "at = lg_start l + offset" and range: "offset \<le> length blocks"
    using assms(1) by (auto simp: replace_from_def offset_def split: if_splits)
  have patches: "pb_patches batch = PTruncate at #
       map (\<lambda>i. PAdd (lg_start l + i) (blocks ! i) (vs (lg_start l + i))) [offset..<length blocks]"
    and l': "lg_blocks l' = blocks" "lg_versions l' = vs" "lg_start l' = lg_start l" "log_patches l' = []"
    using assms(1) by (auto simp: replace_from_def offset_def Let_def split: if_splits)
  have len: "offset \<le> length (lg_blocks l)"
    using keep [of "offset - 1"] at by (cases offset) auto
  let ?adds = "map (\<lambda>i. PAdd (lg_start l + i) (blocks ! i) (vs (lg_start l + i))) [offset..<length blocks]"
  let ?new = "map (\<lambda>i. (blocks ! i, vs (lg_start l + i))) [offset..<length blocks]"
  have pub: "apply_patches pub [] = pre @ window l" "length pre = lg_start l"
    using assms(2,3) by (simp_all add: synced_def)
  have cut_at: "take at (pre @ window l) = pre @ take offset (window l)"
    using pub by (simp add: at)
  have adds: "apply_patches (pre @ take offset (window l)) ?adds = (pre @ take offset (window l)) @ ?new"
    by (rule apply_adds_from) (use pub len range in simp_all)
  have win: "take offset (window l) @ ?new = window l'"
  proof (rule nth_equalityI)
    fix i assume i: "i < length (take offset (window l) @ ?new)"
    show "(take offset (window l) @ ?new) ! i = window l' ! i"
    proof (cases "i < offset")
      case True
      then show ?thesis using keep [of i] at len range by (simp add: nth_append l' window_def)
    next
      case False
      then show ?thesis using i len range by (simp add: nth_append l' window_def)
    qed
  qed (use len range in \<open>simp add: l'\<close>)
  have "apply_patches pub (pb_patches batch) = apply_patches (take at pub) ?adds"
    by (simp add: patches apply_patches_def)
  also have "\<dots> = pre @ window l'"
    using pub cut_at adds win by simp
  finally show ?thesis
    using pub l' by (simp add: synced_def published_def)
qed

lemma rewrite_versions_below: "i < kept_at \<Longrightarrow> rewrite_versions l kept_at version i = lg_versions l i"
  by (simp add: rewrite_versions_def Let_def)

text \<open>How many versions of a place the path keeps, the one it shows among them.\<close>

definition versions_held :: "log \<Rightarrow> nat \<Rightarrow> nat" where
  "versions_held l i =
     (case lg_versions l i of Some v \<Rightarrow> v_count v | None \<Rightarrow> if i < log_len l then 1 else 0)"

lemma nth_common_prefix: "i < common_prefix xs ys \<Longrightarrow> ys ! i = xs ! i"
  using common_prefix_take [of xs ys] by (metis nth_take)

lemma replace_all_synced:
  assumes "replace_all l blocks version = Some (batch, l')" "synced pre pub l" "log_patches l = []"
  shows "synced pre (published pub (Some batch)) l'"
proof -
  let ?k = "common_prefix (lg_blocks l) blocks"
  have "replace_from l (lg_start l + ?k) blocks (rewrite_versions l (lg_start l + ?k) version) = Some (batch, l')"
    using assms(1) by (simp add: replace_all_def Let_def)
  then show ?thesis
    using common_prefix_le(1) [of "lg_blocks l" blocks]
    by (elim replace_from_synced [OF _ assms(2,3)]) (auto simp: nth_common_prefix rewrite_versions_below)
qed

lemma replace_all_defined: "\<exists>batch l'. replace_all l blocks version = Some (batch, l')"
  using common_prefix_le(2) [of "lg_blocks l" blocks] by (simp add: replace_all_def replace_from_def Let_def)

section \<open>The operations, and the interface of a change\<close>

datatype log_op =
    PushUser stamp turn_id model_selection "user_content list" "message_comment list" "string option"
      "schedule_mark option"
  | PushContext stamp turn_id model_selection string string "instruction_entry list" "string option"
  | PushSteer timestamp block_id turn_id model_selection "user_content list" "message_comment list"
  | PushWakeup timestamp block_id turn_id model_selection wakeup_placement "command_report list"
  | PushAgentMessage timestamp turn_id model_selection agent_message bool
  | PushResume stamp turn_id model_selection "string option"
  | MarkLatestAbortResumed
  | InsertBoundary stamp nat model_selection string nat "kept_message list"
  | PushMarker stamp model_selection block_id nat bool timestamp
  | WithdrawFrom nat
  | PushAbort stamp model_selection
  | PushError stamp model_selection string "string option" "provider_error_diagnostics option" bool
      "string option"
  | OpenThinking stamp model_selection string
  | AppendThinking stamp timestamp model_selection string
  | SignThinking string
  | SettleOpaque timestamp
  | ApplyOpaque stamp timestamp model_selection opaque_step
  | AppendText stamp timestamp model_selection string
  | CompleteTailText
  | PushToolCall stamp model_selection requested_call "timestamp option"
  | PushAccountSwitch stamp model_selection account_switch
  | PushResponse stamp model_selection "token_usage option" request_times
  | CompleteToolCall timestamp string "tool_result_content list" bool "tool_view option"
  | ReplaceView block_id tool_view
  | KeepCodeFiles block_id "code_file list"
  | SettlePicture block_id string picture_copy
  | AddEntries block_id "vendor_entry list"
  | TakeAskedEnd

fun run_op :: "(string \<Rightarrow> string list) \<Rightarrow> log_op \<Rightarrow> log \<Rightarrow> log option" where
  "run_op named (PushUser s t m c cs p sch) l = Some (push_user l s t m c cs p sch)"
| "run_op named (PushContext s t m src txt ins cwd) l = Some (push_context l s t m src txt ins cwd)"
| "run_op named (PushSteer now i t m c cs) l = Some (push_steer l now i t m c cs)"
| "run_op named (PushWakeup now i t m p rs) l = Some (push_wakeup l now i t m p rs)"
| "run_op named (PushAgentMessage now t m msg below) l = Some (push_agent_message l now t m msg below)"
| "run_op named (PushResume s t m reason) l = Some (push_resume l s t m reason)"
| "run_op named MarkLatestAbortResumed l = Some (mark_latest_abort_resumed l)"
| "run_op named (InsertBoundary s index m summary tokens words) l =
     map_option snd (insert_compaction_boundary l s index m summary tokens words)"
| "run_op named (PushMarker s m boundary tokens idle started) l =
     Some (push_compaction_marker l s m boundary tokens idle started)"
| "run_op named (WithdrawFrom index) l = Some (withdraw_from l index)"
| "run_op named (PushAbort s m) l = Some (push_abort l s m)"
| "run_op named (PushError s m msg code diag outside acc) l = Some (push_error l s m msg code diag outside acc)"
| "run_op named (OpenThinking s m txt) l = Some (open_thinking l s m txt)"
| "run_op named (AppendThinking s now m txt) l = Some (append_thinking l s now m txt)"
| "run_op named (SignThinking sig) l = Some (sign_thinking l sig)"
| "run_op named (SettleOpaque now) l = Some (settle_opaque l now)"
| "run_op named (ApplyOpaque s now m st) l = Some (apply_opaque l s now m st)"
| "run_op named (AppendText s now m txt) l = Some (append_text l s now m txt)"
| "run_op named CompleteTailText l = Some (snd (complete_tail_text named l))"
| "run_op named (PushToolCall s m call started) l = Some (push_tool_call l s m call started)"
| "run_op named (PushAccountSwitch s m sw) l = Some (push_account_switch l s m sw)"
| "run_op named (PushResponse s m u ts) l = Some (push_response l s m u ts)"
| "run_op named (CompleteToolCall now use output err view) l = Some (complete_tool_call l now use output err view)"
| "run_op named (ReplaceView i view) l = Some (replace_view l i view)"
| "run_op named (KeepCodeFiles i files) l = Some (snd (keep_code_files l i files))"
| "run_op named (SettlePicture i target copy) l = Some (snd (settle_picture l i target copy))"
| "run_op named (AddEntries i es) l = Some (add_entries l i es)"
| "run_op named TakeAskedEnd l = Some (snd (take_asked_end l))"

fun run_steps :: "('a \<Rightarrow> log \<Rightarrow> log option) \<Rightarrow> 'a list \<Rightarrow> log \<Rightarrow> log option" where
  "run_steps step [] l = Some l"
| "run_steps step (a # as) l = (case step a l of Some l' \<Rightarrow> run_steps step as l' | None \<Rightarrow> None)"

locale log_operation =
  fixes step :: "'a \<Rightarrow> log \<Rightarrow> log option"
  assumes step_recorded: "step a l = Some l' \<Longrightarrow> journal_ok l \<Longrightarrow> recorded l l'"
begin

lemma steps_recorded: "run_steps step as l = Some l' \<Longrightarrow> journal_ok l \<Longrightarrow> recorded l l'"
proof (induction "as" arbitrary: l)
  case Nil
  then show ?case by (simp add: recorded_refl)
next
  case (Cons a as)
  then obtain m where m: "step a l = Some m" "run_steps step as m = Some l'"
    by (auto split: option.splits)
  then have "recorded l m" using step_recorded Cons.prems by blast
  then show ?case using Cons.IH m recorded_ok recorded_trans by blast
qed

lemma steps_synced: "run_steps step as l = Some l' \<Longrightarrow> journal_ok l \<Longrightarrow> synced pre pub l \<Longrightarrow> synced pre pub l'"
  using steps_recorded recorded_synced by blast

lemma steps_published:
  assumes "run_steps step as l = Some l'" "journal_ok l" "synced pre pub l"
    and "take_patches l' = (batch, l'')"
  shows "published pub batch = pre @ window l''"
proof -
  have "synced pre (published pub batch) l''"
    using take_patches_synced assms(4) steps_synced [OF assms(1-3)] by blast
  then show ?thesis using take_patches_fields(5) [OF assms(4)] by (simp add: synced_def)
qed

end

lemma run_op_recorded: "run_op named a l = Some l' \<Longrightarrow> journal_ok l \<Longrightarrow> recorded l l'"
  by (cases a)
    (auto simp: push_defs mark_latest_abort_resumed_recorded inserted_recorded withdrawn_recorded
       append_thinking_recorded sign_thinking_recorded settle_opaque_recorded apply_opaque_recorded
       append_text_recorded complete_tail_text_recorded complete_tool_call_recorded replace_view_recorded
       keep_code_files_recorded settle_picture_recorded add_entries_recorded take_asked_end_def
       intro: same_path_recorded simp: same_path_def)

interpretation log_ops: log_operation "run_op named" for named
  by unfold_locales (rule run_op_recorded)

section \<open>What a page holds\<close>

text \<open>A patch travels without the entries of its block (\<open>client_block\<close>).\<close>

definition sent_placed :: "placed list \<Rightarrow> placed list" where
  "sent_placed bs = map (\<lambda>(b, v). (sent b, v)) bs"

fun sent_patch :: "patch \<Rightarrow> patch" where
  "sent_patch (PAdd i b v) = PAdd i (sent b) v"
| "sent_patch (PReplace i b) = PReplace i (sent b)"
| "sent_patch p = p"

lemma sent_text_appended: "sent (text_appended d t b) = text_appended d t (sent b)"
  by (cases b) (simp_all add: sent_def)

lemma sent_apply: "sent_placed (apply_patch bs p) = apply_patch (sent_placed bs) (sent_patch p)"
  by (cases p)
    (auto simp: sent_placed_def insert_at_def take_map drop_map map_update sent_text_appended case_prod_unfold)

lemma sent_applies: "sent_placed (apply_patches bs ps) = apply_patches (sent_placed bs) (map sent_patch ps)"
proof (induction ps arbitrary: bs)
  case (Cons p ps)
  then show ?case using sent_apply [of bs p] by (simp add: apply_patches_def)
qed simp

end
