(* ===== verification/Log_Facts.thy ===== *)
theory Log_Facts imports Log_Sync begin

text \<open>
  What the operations of the log keep true of its blocks: each block's request is the one its
  place gives it, and the log knows whose turn runs exactly as reading its blocks again would
  tell. Most operations change a block without changing what these facts read of it, its shape.
\<close>

section \<open>Whose turn runs, as a fold over the inputs\<close>

definition ask_step :: "earlier \<Rightarrow> (turn_id \<times> bool) option \<times> user_input option \<Rightarrow> block
    \<Rightarrow> (turn_id \<times> bool) option \<times> user_input option" where
  "ask_step e st b =
     ((case turn_of b of
         None \<Rightarrow> fst st
       | Some t \<Rightarrow>
           if is_steer b then Some (t, True)
           else if map_option fst (fst st) = Some t then fst st
           else Some (t, opens_asked b (snd st = Some None))),
      (case user_input b of Some i \<Rightarrow> Some i | None \<Rightarrow> snd st))"

definition ask_fold :: "earlier \<Rightarrow> block list \<Rightarrow> (turn_id \<times> bool) option \<times> user_input option" where
  "ask_fold e bs = foldl (ask_step e) (None, er_user_input e) bs"

lemma ask_fold_input: "snd (ask_fold e bs) = input_before e bs"
  by (induction bs rule: rev_induct)
    (auto simp: ask_fold_def ask_step_def input_before_def split: option.splits)

lemma held_scan_quiet:
  "\<forall>b\<in>set post. turn_of b = None \<Longrightarrow> held_scan t k st (rev post @ rest) = held_scan t k st rest"
proof (induction post arbitrary: rest)
  case (Cons b post)
  then show ?case using Cons.IH [of "b # rest"] by simp
qed simp

lemma held_scan_steered:
  "held_scan t k st bs = (fst (held_scan t k False bs), st \<or> snd (held_scan t k False bs))"
proof (induction bs arbitrary: k st)
  case (Cons b bs)
  show ?case
    using Cons [of "length bs" "st \<or> is_steer b"] Cons [of "length bs" "is_steer b"] Cons [of k st]
    by (auto split: option.split)
qed simp

lemma rposition_None_snoc: "rposition P (bs @ [b]) = Some k \<Longrightarrow> \<not> P b \<Longrightarrow> rposition P bs = Some k"
  by (simp add: rposition_snoc)

text \<open>How the held turn changes with one more block.\<close>

lemma held_turn_Nil [simp]: "held_turn e [] = None"
  by (simp add: held_turn_def)

lemma held_turn_quiet: "turn_of b = None \<Longrightarrow> held_turn e (bs @ [b]) = held_turn e bs"
proof (cases "rposition (\<lambda>b. turn_of b \<noteq> None) bs")
  case None
  assume "turn_of b = None"
  then show ?thesis using None by (simp add: held_turn_def rposition_snoc)
next
  case (Some k)
  assume quiet: "turn_of b = None"
  have k: "k < length bs" by (rule rposition_less [OF Some])
  obtain t where t: "turn_of (bs ! k) = Some t"
    using rposition_holds [OF Some] by auto
  obtain n st where scan: "held_scan t k False (rev (take (Suc k) bs)) = (n, st)" by (cases "held_scan t k False (rev (take (Suc k) bs))")
  have "n < length bs"
  proof -
    have "fst (held_scan t m st' xs) \<le> max m (length xs - 1)" for m st' xs
      by (induction t m st' xs rule: held_scan.induct) (auto split: option.split)
    from this [of k False "rev (take (Suc k) bs)"] show ?thesis using scan k by (simp add: min_def split: if_splits)
  qed
  then show ?thesis
    using quiet Some k t scan by (simp add: held_turn_def rposition_snoc nth_append)
qed

lemma held_turn_input:
  assumes "turn_of b = Some t"
  shows "held_turn e (bs @ [b]) =
     (if is_steer b then Some (t, True)
      else if map_option fst (held_turn e bs) = Some t then held_turn e bs
      else Some (t, opens_asked b (input_before e bs = Some None)))"
proof -
  let ?n = "length bs"
  have scan0: "held_scan t ?n False (rev (bs @ [b])) = held_scan t ?n (is_steer b) (rev bs)"
    using assms by simp
  have steer: "is_steer x \<Longrightarrow> opens_asked x c" for x c by (cases x) simp_all
  have new: "held_turn e (bs @ [b]) =
      (case held_scan t ?n (is_steer b) (rev bs) of (opener, steered) \<Rightarrow>
         Some (t, steered \<or> opens_asked ((bs @ [b]) ! opener)
           (input_before e (take opener (bs @ [b])) = Some None)))"
    using assms scan0 by (simp add: held_turn_def rposition_snoc del: held_scan.simps)
  show ?thesis
  proof (cases "rposition (\<lambda>b. turn_of b \<noteq> None) bs")
    case None
    then have "\<forall>x\<in>set bs. turn_of x = None" by (simp add: rposition_None)
    then have "held_scan t ?n (is_steer b) (rev bs) = (?n, is_steer b)"
      using held_scan_quiet [of bs t ?n "is_steer b" "[]"] by simp
    then show ?thesis using new None by (simp add: held_turn_def nth_append)
  next
    case (Some k)
    then have k: "k < ?n" "turn_of (bs ! k) \<noteq> None" "\<forall>x\<in>set (drop (Suc k) bs). turn_of x = None"
      by (auto simp: rposition_Some in_set_conv_nth)
    then obtain u where u: "turn_of (bs ! k) = Some u" by auto
    have rev: "rev bs = rev (drop (Suc k) bs) @ (bs ! k # rev (take k bs))"
      using k(1) by (metis append_take_drop_id rev.simps(2) rev_append take_Suc_conv_app_nth append_Cons
          append_Nil append_assoc)
    have scan: "held_scan t m st (rev bs) = held_scan t m st (bs ! k # rev (take k bs))" for m st
      unfolding rev by (rule held_scan_quiet [OF k(3)])
    have revk: "rev (take (Suc k) bs) = bs ! k # rev (take k bs)"
      using k(1) by (simp add: take_Suc_conv_app_nth)
    define r where "r = held_scan u k (is_steer (bs ! k)) (rev (take k bs))"
    have held: "held_turn e bs = Some (u, snd r \<or> opens_asked (bs ! fst r) (input_before e (take (fst r) bs) = Some None))"
      using Some u revk k(1) by (simp add: held_turn_def r_def split: prod.split)
    have le: "fst r \<le> k"
    proof -
      have "fst (held_scan s m st' xs) \<le> max m (length xs - 1)" for s m st' xs
        by (induction s m st' xs rule: held_scan.induct) (auto split: option.split)
      from this [of u k "is_steer (bs ! k)" "rev (take k bs)"] show ?thesis using k(1) by (simp add: r_def)
    qed
    show ?thesis
    proof (cases "u = t")
      case False
      then have "held_scan t ?n (is_steer b) (rev bs) = (?n, is_steer b)" using u scan by simp
      then show ?thesis using new held False by (simp add: nth_append)
    next
      case True
      have "held_scan t ?n (is_steer b) (rev bs) = held_scan t k (is_steer b \<or> is_steer (bs ! k)) (rev (take k bs))"
        using u True scan k(1) by simp
      also have "\<dots> = (fst r, is_steer b \<or> snd r)"
        using held_scan_steered [of t k "is_steer b \<or> is_steer (bs ! k)" "rev (take k bs)"]
          held_scan_steered [of t k "is_steer (bs ! k)" "rev (take k bs)"] True by (simp add: r_def)
      finally show ?thesis using new held True le k(1) by (simp add: nth_append)
    qed
  qed
qed

lemma held_turn_fold: "held_turn e bs = fst (ask_fold e bs)"
proof (induction bs rule: rev_induct)
  case Nil
  show ?case by (simp add: ask_fold_def)
next
  case (snoc b bs)
  have "fst (ask_fold e (bs @ [b])) = fst (ask_step e (ask_fold e bs) b)" by (simp add: ask_fold_def)
  then show ?case
    using snoc ask_fold_input [of e bs]
    by (cases "turn_of b") (simp_all add: held_turn_quiet held_turn_input ask_step_def)
qed

section \<open>Shapes\<close>

definition shape :: "block \<Rightarrow> block_id \<times> block_id option \<times> bool \<times> turn_id option \<times> bool
    \<times> user_input option \<times> bool \<times> bool" where
  "shape b = (id_of b, request_of_block b, is_user b, turn_of b, is_steer b, user_input b,
     opens_asked b True, opens_asked b False)"

definition shapes :: "block list \<Rightarrow> (block_id \<times> block_id option \<times> bool \<times> turn_id option \<times> bool
    \<times> user_input option \<times> bool \<times> bool) list" where
  "shapes bs = map shape bs"

lemma shape_opens: "shape b = shape b' \<Longrightarrow> opens_asked b c = opens_asked b' c"
  by (cases c) (simp_all add: shape_def)

lemma ask_step_shape: "shape b = shape b' \<Longrightarrow> ask_step e st b = ask_step e st b'"
proof -
  assume eq: "shape b = shape b'"
  then have "turn_of b = turn_of b'" "is_steer b = is_steer b'" "user_input b = user_input b'"
    by (simp_all add: shape_def)
  then show ?thesis unfolding ask_step_def by (simp only: shape_opens [OF eq])
qed

lemma foldl_shapes: "shapes bs = shapes bs' \<Longrightarrow> foldl (ask_step e) st bs = foldl (ask_step e) st bs'"
proof (induction bs arbitrary: bs' st)
  case Nil
  then show ?case by (simp add: shapes_def)
next
  case (Cons b bs)
  then obtain c cs where bs': "bs' = c # cs" "shape b = shape c" "shapes bs = shapes cs"
    by (cases bs') (auto simp: shapes_def)
  then show ?case using Cons.IH [of cs] ask_step_shape [OF bs'(2)] by simp
qed

lemma ask_fold_shapes: "shapes bs = shapes bs' \<Longrightarrow> ask_fold e bs = ask_fold e bs'"
  unfolding ask_fold_def by (rule foldl_shapes)

lemma held_turn_shapes: "shapes bs = shapes bs' \<Longrightarrow> held_turn e bs = held_turn e bs'"
  using ask_fold_shapes [of bs bs' e] by (simp add: held_turn_fold)

lemma shape_at: "shapes bs = shapes bs' \<Longrightarrow> i < length bs \<Longrightarrow> shape (bs ! i) = shape (bs' ! i)"
  by (metis shapes_def length_map nth_map)

lemma shapes_length: "shapes bs = shapes bs' \<Longrightarrow> length bs = length bs'"
  by (metis shapes_def length_map)

lemma shapes_take: "shapes bs = shapes bs' \<Longrightarrow> shapes (take n bs) = shapes (take n bs')"
  by (simp add: shapes_def flip: take_map)

lemma request_of_shapes:
  assumes "shapes bs = shapes bs'" "shape b = shape b'"
  shows "request_of bs b = request_of bs' b'"
proof (cases "bs = []")
  case True
  then have "bs' = []" using shapes_length [OF assms(1)] by simp
  then show ?thesis using True assms(2) by (simp add: request_of_def shape_def)
next
  case False
  moreover have "bs' \<noteq> []" using False shapes_length [OF assms(1)] by auto
  moreover have "shape (last bs) = shape (last bs')"
    using assms(1) False \<open>bs' \<noteq> []\<close> by (metis shapes_def last_map)
  ultimately show ?thesis using assms(2) by (simp add: request_of_def shape_def)
qed

lemma requests_follow_shapes: "shapes bs = shapes bs' \<Longrightarrow> requests_follow bs \<Longrightarrow> requests_follow bs'"
proof -
  assume eq: "shapes bs = shapes bs'" and follow: "requests_follow bs"
  show ?thesis
    unfolding requests_follow_def
  proof (intro allI impI)
    fix i assume i: "i < length bs'" "0 < i \<or> is_user (bs' ! i)"
    then have "shape (bs ! i) = shape (bs' ! i)" "i < length bs"
      using shape_at [OF eq] shapes_length [OF eq] by auto
    moreover from this have "request_of_block (bs ! i) = request_of (take i bs) (bs ! i)"
      using follow i by (auto simp: requests_follow_def shape_def)
    ultimately show "request_of_block (bs' ! i) = request_of (take i bs') (bs' ! i)"
      using request_of_shapes [OF shapes_take [OF eq, of i], of "bs ! i" "bs' ! i"] by (simp add: shape_def)
  qed
qed

section \<open>The facts every operation keeps\<close>

definition facts_ok :: "log \<Rightarrow> bool" where
  "facts_ok l =
     (requests_follow (lg_blocks l) \<and> lg_asking l = held_turn (lg_earlier l) (lg_blocks l))"

lemma facts_same_shapes:
  "facts_ok l \<Longrightarrow> shapes (lg_blocks l') = shapes (lg_blocks l) \<Longrightarrow> lg_asking l' = lg_asking l \<Longrightarrow>
     lg_earlier l' = lg_earlier l \<Longrightarrow> facts_ok l'"
  using requests_follow_shapes [of "lg_blocks l" "lg_blocks l'"]
    held_turn_shapes [of "lg_blocks l'" "lg_blocks l" "lg_earlier l"]
  by (simp add: facts_ok_def)

lemma shapes_update: "i < length bs \<Longrightarrow> shape b = shape (bs ! i) \<Longrightarrow> shapes (bs[i := b]) = shapes bs"
  by (simp add: shapes_def map_update list_update_same_conv)

lemma facts_put_block:
  assumes "facts_ok l" "at < length (lg_blocks l)" "shape b = shape (lg_blocks l ! at)"
  shows "facts_ok (put_block l at b)"
  using assms by (intro facts_same_shapes [OF assms(1)])
    (simp_all add: put_block_def record_replace_def shapes_update)

lemma facts_record: "facts_ok l \<Longrightarrow> facts_ok (record_replace l i)"
  by (rule facts_same_shapes) (simp_all add: record_replace_def)

lemma facts_append_to_last:
  assumes "facts_ok l" "lg_blocks l \<noteq> []" "shape b = shape (last (lg_blocks l))"
  shows "facts_ok (append_to_last l b text now)"
  using assms by (intro facts_same_shapes [OF assms(1)])
    (simp_all add: append_to_last_def Let_def shapes_update last_conv_nth)

lemma held_turn_set [simp]:
  "turn_of (set_run r b) = turn_of b" "is_steer (set_run r b) = is_steer b"
  "opens_asked (set_run r b) c = opens_asked b c"
  "turn_of (set_request r b) = turn_of b" "is_steer (set_request r b) = is_steer b"
  "opens_asked (set_request r b) c = opens_asked b c"
  by (cases b; simp add: from_another_conversation_def)+

lemma note_input_asking:
  "lg_asking l = held_turn (lg_earlier l) (lg_blocks l) \<Longrightarrow>
     lg_asking (note_input l b) = held_turn (lg_earlier l) (lg_blocks l @ [b])"
  by (cases "turn_of b"; cases "held_turn (lg_earlier l) (lg_blocks l)")
    (auto simp: note_input_def Let_def held_turn_quiet held_turn_input log_user_input_def)

lemma note_end_asking:
  "lg_asking l = held_turn (lg_earlier l) (lg_blocks l) \<Longrightarrow> lg_asking (note_end l) = lg_asking l"
  by (auto simp: note_end_def Let_def split: option.split block.split)

lemma facts_append_received:
  assumes "facts_ok l"
  shows "facts_ok (append_received l b sb)"
proof -
  define b2 where "b2 = set_request (request_of (lg_blocks l) (set_run (run_of (lg_blocks l) b sb) b))
      (set_run (run_of (lg_blocks l) b sb) b)"
  define l1 where "l1 = note_input l b2"
  define l2 where "l2 = l1\<lparr>lg_journal := journal_add (lg_journal l1) (log_len l1) b2 (lg_versions l1 (log_len l1)),
      lg_blocks := lg_blocks l1 @ [b2]\<rparr>"
  have l1: "lg_blocks l1 = lg_blocks l" "lg_earlier l1 = lg_earlier l"
    using note_input_same [of l b2] by (simp_all add: same_path_def l1_def)
  have ask: "lg_asking l2 = held_turn (lg_earlier l2) (lg_blocks l2)"
    using note_input_asking [of l b2] assms l1 by (simp add: l2_def l1_def facts_ok_def)
  have req: "request_of (lg_blocks l) (set_run r b) = request_of (lg_blocks l) b2" for r
    by (simp add: request_of_def b2_def)
  have "requests_follow (lg_blocks l2)"
    using assms req by (simp add: l2_def l1 requests_follow_snoc facts_ok_def) (simp add: b2_def request_of_def)
  moreover have "append_received l b sb = note_end l2"
    by (simp add: append_received_def Let_def b2_def l1_def l2_def)
  moreover have "lg_blocks (note_end l2) = lg_blocks l2" "lg_earlier (note_end l2) = lg_earlier l2"
    using note_end_same [of l2] by (simp_all add: same_path_def)
  ultimately show ?thesis
    using ask note_end_asking [OF ask] by (simp add: facts_ok_def)
qed

lemma facts_append_block [simp]: "facts_ok l \<Longrightarrow> facts_ok (append_block l b)"
  by (simp add: append_block_def facts_append_received)

lemma facts_withdraw: "facts_ok l \<Longrightarrow> facts_ok (withdraw_from l i)"
  by (simp add: withdraw_from_def Let_def facts_ok_def requests_follow_take)

text \<open>The inserted boundary continues the request around it, and is no input.\<close>

lemma ask_fold_insert:
  assumes "turn_of b = None" "user_input b = None"
  shows "ask_fold e (insert_at i b bs) = ask_fold e bs"
proof -
  have skip: "ask_step e st b = st" for st using assms by (cases st) (simp add: ask_step_def)
  have "ask_fold e (insert_at i b bs) = foldl (ask_step e) (None, er_user_input e) (take i bs @ drop i bs)"
    by (simp only: ask_fold_def insert_at_def foldl_append foldl.simps skip)
  then show ?thesis by (simp add: ask_fold_def)
qed

lemma requests_follow_insert:
  assumes follow: "requests_follow bs" and i: "i \<le> length bs"
    and b: "\<not> is_user b" "0 < i \<Longrightarrow> request_of_block b = request_of_block (bs ! (i - 1))"
      "i = 0 \<Longrightarrow> bs \<noteq> [] \<Longrightarrow> \<not> is_user (hd bs) \<Longrightarrow> request_of_block b = request_of_block (hd bs)"
  shows "requests_follow (insert_at i b bs)"
proof -
  have follow_at: "k < length bs \<Longrightarrow> 0 < k \<or> is_user (bs ! k) \<Longrightarrow>
      request_of_block (bs ! k) = (if is_user (bs ! k) then Some (id_of (bs ! k)) else request_of_block (bs ! (k - 1)))" for k
    using follow by (auto simp: requests_follow_def request_of_def last_conv_nth)
  have "request_of_block (insert_at i b bs ! k) = request_of (take k (insert_at i b bs)) (insert_at i b bs ! k)"
    if k: "k < Suc (length bs)" "0 < k \<or> is_user (insert_at i b bs ! k)" for k
  proof (cases k)
    case 0
    then show ?thesis
      using k i b follow_at [of 0] by (cases "bs = []") (auto simp: nth_insert_at request_of_def split: if_splits)
  next
    case (Suc j)
    have last: "last (take k (insert_at i b bs)) = insert_at i b bs ! j"
      using k(1) Suc i by (simp add: take_Suc_conv_app_nth)
    have ne: "take k (insert_at i b bs) \<noteq> []" using Suc by (auto dest: arg_cong [of _ _ length])
    show ?thesis
      using Suc k(1) i b follow_at [of k] follow_at [of j] last ne hd_conv_nth [of bs]
      by (cases "k < i"; cases "k = i"; cases "i = 0"; cases "bs = []") (auto simp: request_of_def nth_insert_at split: if_splits)
  qed
  then show ?thesis by (simp add: requests_follow_def)
qed

lemma facts_insert_boundary:
  assumes "insert_compaction_boundary l s index model summary tokens words = Some (i, l')" "facts_ok l"
  shows "facts_ok l'"
proof -
  let ?n = "index - lg_start l"
  obtain b where range: "lg_start l \<le> index" "index \<le> log_len l"
    and b: "b = CompactionBoundary
        \<lparr>block_id = fst s, created_at = snd s, request = boundary_request l ?n, block_model = model,
         b_summary = summary, b_summary_tokens = tokens, b_kept = words, b_entries = []\<rparr>"
    and l': "lg_blocks l' = insert_at ?n b (lg_blocks l)" "lg_asking l' = lg_asking l" "lg_earlier l' = lg_earlier l"
    using assms(1) by (auto simp: insert_compaction_boundary_def Let_def split: if_splits)
  have n: "?n \<le> length (lg_blocks l)" using range by (auto simp: log_len_def)
  have req: "request_of_block b = boundary_request l ?n" by (simp add: b)
  have "requests_follow (lg_blocks l')"
    unfolding l'(1)
  proof (rule requests_follow_insert [OF _ n])
    show "requests_follow (lg_blocks l)" using assms(2) by (simp add: facts_ok_def)
    show "\<not> is_user b" by (simp add: b)
    show "request_of_block b = request_of_block (lg_blocks l ! (?n - 1))" if "0 < ?n"
    proof -
      have "?n - 1 < length (lg_blocks l)" using that n by linarith
      then show ?thesis using that unfolding req boundary_request_def by simp
    qed
    show "request_of_block b = request_of_block (hd (lg_blocks l))"
      if "?n = 0" "lg_blocks l \<noteq> []" "\<not> is_user (hd (lg_blocks l))"
      using that by (simp add: req boundary_request_def get_at_def hd_conv_nth)
  qed
  moreover have "ask_fold e (insert_at ?n b bs) = ask_fold e bs" for e bs
    by (rule ask_fold_insert) (simp_all add: b)
  ultimately show ?thesis
    using assms(2) by (simp add: facts_ok_def l' held_turn_fold)
qed

lemma shape_texts [simp]:
  "shape (Thinking (x\<lparr>th_text := t, th_ended_at := e\<rparr>)) = shape (Thinking x)"
  "shape (Thinking (x\<lparr>th_signature := g\<rparr>)) = shape (Thinking x)"
  "shape (TextBlock (y\<lparr>t_text := t, t_ended_at := e\<rparr>)) = shape (TextBlock y)"
  "shape (TextBlock (y\<lparr>t_forkable := f, t_pictures := p\<rparr>)) = shape (TextBlock y)"
  "shape (TextBlock (y\<lparr>t_forkable := f\<rparr>)) = shape (TextBlock y)"
  "shape (TextBlock (y\<lparr>t_code_files := c\<rparr>)) = shape (TextBlock y)"
  "shape (TextBlock (y\<lparr>t_pictures := p\<rparr>)) = shape (TextBlock y)"
  "shape (Abort (a\<lparr>a_is_resumed := f\<rparr>)) = shape (Abort a)"
  "shape (Opaque (s\<lparr>o_status := st, o_ended_at := e\<rparr>)) = shape (Opaque s)"
  "shape (Opaque (s\<lparr>o_status := st, o_view := v, o_ended_at := e, o_entries := es\<rparr>)) = shape (Opaque s)"
  "shape (ToolCall (c'\<lparr>tc_status := st', tc_output := out, tc_view := vw, tc_ended_at := e\<rparr>)) = shape (ToolCall c')"
  "shape (ToolCall (c'\<lparr>tc_view := vw\<rparr>)) = shape (ToolCall c')"
  by (simp_all add: shape_def)

lemma shape_entries: "entries_mut f b = Some b' \<Longrightarrow> shape b' = shape b"
  by (cases b) (auto simp: shape_def from_another_conversation_def)

lemmas facts_steps = facts_put_block facts_record facts_append_to_last facts_append_block

lemma facts_mark_resumed: "facts_ok l \<Longrightarrow> facts_ok (mark_latest_abort_resumed l)"
  using rposition_less [of is_abort "lg_blocks l"]
  by (auto simp: mark_latest_abort_resumed_def facts_steps split: option.split block.split)

lemma facts_sign: "facts_ok l \<Longrightarrow> facts_ok (sign_thinking l g)"
  using rposition_less [of is_thinking "lg_blocks l"]
  by (auto simp: sign_thinking_def facts_steps split: option.split block.split)

lemma facts_append_thinking: "facts_ok l \<Longrightarrow> facts_ok (append_thinking l s now m t)"
  by (auto simp: append_thinking_def open_thinking_def facts_steps split: block.split)

lemma facts_append_text: "facts_ok l \<Longrightarrow> facts_ok (append_text l s now m t)"
  by (auto simp: append_text_def Let_def facts_steps split: block.split)

lemma facts_settle_step: "facts_ok l \<Longrightarrow> at < length (lg_blocks l) \<Longrightarrow> facts_ok (settle_step now l at)"
  by (auto simp: settle_step_def facts_steps split: block.split)

lemma facts_settle: "facts_ok l \<Longrightarrow> facts_ok (settle_opaque l now)"
proof -
  have "facts_ok l \<Longrightarrow> \<forall>at\<in>set steps. at < length (lg_blocks l) \<Longrightarrow> facts_ok (foldl (settle_step now) l steps)" for steps
    by (induction steps arbitrary: l) (simp_all add: facts_settle_step settle_step_length)
  then show "facts_ok l \<Longrightarrow> ?thesis" by (simp add: settle_opaque_def)
qed

lemma facts_apply_opaque: "facts_ok l \<Longrightarrow> facts_ok (apply_opaque l s now m st)"
proof -
  assume ok: "facts_ok l"
  have "turn_start l + i < length (lg_blocks l)"
    if "rposition P (drop (turn_start l) (lg_blocks l)) = Some i" for P i
    using rposition_less [OF that] by simp
  then show ?thesis
    using ok by (auto simp: apply_opaque_def Let_def facts_steps split: option.split block.split)
qed

lemma facts_complete_tail: "facts_ok l \<Longrightarrow> facts_ok (snd (complete_tail_text named l))"
proof (cases "lg_blocks l = []")
  case True
  assume "facts_ok l"
  then show ?thesis using True by (simp add: complete_tail_text_def)
next
  case False
  assume "facts_ok l"
  moreover have "length (lg_blocks l) - 1 < length (lg_blocks l)" using False by (cases "lg_blocks l") auto
  moreover have "lg_blocks l ! (length (lg_blocks l) - 1) = last (lg_blocks l)" using False by (simp add: last_conv_nth)
  ultimately show ?thesis
    using False facts_put_block [of l "length (lg_blocks l) - 1"]
    by (simp add: complete_tail_text_def Let_def split: block.split del: One_nat_def)
qed

lemma facts_complete_call: "facts_ok l \<Longrightarrow> facts_ok (complete_tool_call l now use out err view)"
proof (cases "executing_call l use")
  case None
  assume "facts_ok l"
  then show ?thesis using None by (simp add: complete_tool_call_def)
next
  case (Some i)
  assume "facts_ok l"
  moreover have "i - lg_start l < length (lg_blocks l)"
    using Some found_at(1) unfolding executing_call_def by blast
  ultimately show ?thesis
    using Some by (auto simp: complete_tool_call_def facts_steps split: block.split)
qed

lemma facts_replace_view: "facts_ok l \<Longrightarrow> facts_ok (replace_view l i view)"
  using position_at [of l i] by (auto simp: replace_view_def facts_steps split: option.split block.split)

lemma facts_code_files: "facts_ok l \<Longrightarrow> facts_ok (snd (keep_code_files l i files))"
  using position_at [of l i] by (auto simp: keep_code_files_def facts_steps split: option.split block.split)

lemma facts_settle_picture: "facts_ok l \<Longrightarrow> facts_ok (snd (settle_picture l i target copy))"
  using position_at [of l i] by (auto simp: settle_picture_def facts_steps split: option.split block.split)

lemma facts_add_entries: "facts_ok l \<Longrightarrow> facts_ok (add_entries l i es)"
  using position_at [of l i] by (auto simp: add_entries_def facts_steps shape_entries split: option.split)

lemma facts_run_op: "run_op named a l = Some l' \<Longrightarrow> facts_ok l \<Longrightarrow> facts_ok l'"
  by (cases a)
    (auto simp: push_defs facts_append_received facts_mark_resumed facts_insert_boundary facts_withdraw
       facts_append_thinking facts_sign facts_settle facts_apply_opaque facts_append_text facts_complete_tail
       facts_complete_call facts_replace_view facts_code_files facts_settle_picture facts_add_entries
       take_asked_end_def facts_ok_def [of "l\<lparr>lg_asked_end := None\<rparr>"] facts_ok_def [of l])

lemma facts_run_steps: "run_steps (run_op named) as l = Some l' \<Longrightarrow> facts_ok l \<Longrightarrow> facts_ok l'"
  by (induction "as" arbitrary: l) (auto split: option.splits dest: facts_run_op)

text \<open>A rewrite says anew whose turn runs.\<close>

lemma replace_from_asking:
  "replace_from l at blocks vs = Some (batch, l') \<Longrightarrow> lg_asking l' = held_turn (lg_earlier l') (lg_blocks l')"
  by (auto simp: replace_from_def Let_def split: if_splits)

section \<open>Letting blocks go changes no answer\<close>

lemma release_split:
  "\<exists>n. lg_blocks (release_before l i) = drop n (lg_blocks l)
     \<and> lg_start (release_before l i) = lg_start l + n \<and> n \<le> length (lg_blocks l)
     \<and> lg_earlier (release_before l i) = fold_earlier (lg_earlier l) (take n (lg_blocks l))"
  by (cases "min (i - lg_start l) (length (lg_blocks l)) = 0")
    (auto simp: release_before_def Let_def intro: exI [of _ 0] exI [of _ "min (i - lg_start l) (length (lg_blocks l))"])

lemma turn_failure_alt:
  "turn_failure l =
     (case turn_record (lg_blocks l) of
        Some r \<Rightarrow> failure r
      | None \<Rightarrow> (case er_record (lg_earlier l) of Some r \<Rightarrow> r | None \<Rightarrow> None))"
  by (auto simp: turn_failure_def split: option.split block.split)

lemma split_list_ex: "list_ex P xs = (list_ex P (take n xs) \<or> list_ex P (drop n xs))"
  by (metis append_take_drop_id list_ex_append)

lemma has_user_turn_fold:
  "(t \<in> er_user_turns (fold_earlier e bs)) = (t \<in> er_user_turns e \<or> list_ex (\<lambda>b. user_turn_of b = Some t) bs)"
  by (auto simp: fold_earlier_fields list_ex_iff)

lemma release_answers:
  "has_user_turn (release_before l i) t = has_user_turn l t"
  "log_last_turn (release_before l i) = log_last_turn l"
  "turn_failure (release_before l i) = turn_failure l"
  "log_user_input (release_before l i) = log_user_input l"
  "log_len (release_before l i) = log_len l"
proof -
  obtain n where n: "lg_blocks (release_before l i) = drop n (lg_blocks l)"
    "lg_start (release_before l i) = lg_start l + n" "n \<le> length (lg_blocks l)"
    "lg_earlier (release_before l i) = fold_earlier (lg_earlier l) (take n (lg_blocks l))"
    using release_split by blast
  define xs ys where "xs = take n (lg_blocks l)" and "ys = drop n (lg_blocks l)"
  have bs: "lg_blocks l = xs @ ys" by (simp add: xs_def ys_def)
  have n': "lg_blocks (release_before l i) = ys" "lg_earlier (release_before l i) = fold_earlier (lg_earlier l) xs"
    using n by (simp_all add: xs_def ys_def)
  show "has_user_turn (release_before l i) t = has_user_turn l t"
    by (auto simp: has_user_turn_def has_user_turn_before_def n' bs has_user_turn_fold)
  show "log_last_turn (release_before l i) = log_last_turn l"
    by (simp add: log_last_turn_def n' bs fold_earlier_fields last_turn_def rfind_map_append split: option.split)
  show "turn_failure (release_before l i) = turn_failure l"
    by (simp add: turn_failure_alt n' bs fold_earlier_fields turn_record_def rfind_append split: option.split)
  show "log_user_input (release_before l i) = log_user_input l"
    by (simp add: log_user_input_def input_before_def n' bs fold_earlier_fields rfind_map_append split: option.split)
  show "log_len (release_before l i) = log_len l" using n by (simp add: log_len_def)
qed

end
