(* ===== verification/Persist.thy ===== *)
theory Persist imports Log_Facts begin

text \<open>
  Saving a session's transcript (\<open>crates/agent-session/src/persist.rs\<close> and the functions of
  \<open>core.rs\<close> it runs): what is due, what a save writes, how a failed save's rows come back, and how
  a history rewrite is saved before it is adopted. The store is specified by the contract of
  \<open>CheckpointUpdate\<close> (\<open>store_save\<close>); a session that changes, saves, fails to save and rewrites is
  the step relation \<open>saving_step\<close>. Of the state row of an update the saving code itself reads the
  phase; its other fields are a parameter of its type.
\<close>

datatype session_phase = PhaseIdle | PhaseRunning | PhaseCompacting | PhaseCompactingIdle

record persist_marks =
  pm_dirty :: bool
  pm_rows :: dirty_rows
  pm_recorded :: session_phase

definition fresh_marks :: persist_marks where
  "fresh_marks = \<lparr>pm_dirty = False, pm_rows = no_rows, pm_recorded = PhaseIdle\<rparr>"

record core =
  co_log :: log
  co_persist :: persist_marks
  co_save_asked :: bool
  co_outbox :: "(patch list \<times> version) list"

record 's checkpoint_state =
  cs_phase :: session_phase
  cs_rest :: 's

record 's checkpoint_update =
  cu_state :: "'s checkpoint_state"
  cu_changed :: "(nat \<times> block) list"
  cu_block_count :: nat
  cu_moved_from :: "nat option"
  cu_version :: bool

section \<open>Committing, saving and rewriting (core.rs)\<close>

definition commit :: "core \<Rightarrow> core" where
  "commit c =
     (case take_patches (co_log c) of
        (None, l) \<Rightarrow> c\<lparr>co_log := l\<rparr>
      | (Some batch, l) \<Rightarrow>
          c\<lparr>co_log := l,
            co_persist := (co_persist c)\<lparr>pm_dirty := True, pm_rows := merge_rows (pm_rows (co_persist c)) (pb_rows batch)\<rparr>,
            co_save_asked := True,
            co_outbox := co_outbox c @ [(pb_patches batch, log_version l)]\<rparr>)"

text \<open>The block the window holds at each index, or the panic of a window that does not.\<close>

fun rows_at :: "(nat \<Rightarrow> block option) \<Rightarrow> nat list \<Rightarrow> (nat \<times> block) list option" where
  "rows_at get [] = Some []"
| "rows_at get (i # is) =
     (case get i of
        None \<Rightarrow> None
      | Some b \<Rightarrow> map_option ((#) (i, b)) (rows_at get is))"

text \<open>\<open>None\<close> is a panic; \<open>Some None\<close> is that no save is due.\<close>

definition prepare_checkpoint ::
  "'s checkpoint_state \<Rightarrow> core \<Rightarrow> (('s checkpoint_update \<times> dirty_rows) option \<times> core) option" where
  "prepare_checkpoint st c =
     (let c1 = commit c
      in if \<not> pm_dirty (co_persist c1) then Some (None, c1)
         else
           let rows = pm_rows (co_persist c1);
               l = co_log c1
           in map_option
                (\<lambda>changed.
                   (Some (\<lparr>cu_state = st, cu_changed = changed, cu_block_count = log_len l,
                           cu_moved_from = dr_floor rows, cu_version = False\<rparr>, rows),
                    c1\<lparr>co_persist := \<lparr>pm_dirty = False, pm_rows = no_rows, pm_recorded = cs_phase st\<rparr>\<rparr>))
                (rows_at (log_get l) (dirty_indices rows (log_len l))))"

definition release_settled :: "core \<Rightarrow> core" where
  "release_settled c =
     (let c1 = commit c;
          boundary = log_replay_start (co_log c1)
      in case lowest_row (pm_rows (co_persist c1)) of
           Some lowest \<Rightarrow>
             if lowest < boundary then c1
             else c1\<lparr>co_log := release_before (co_log c1) boundary\<rparr>
         | None \<Rightarrow> c1\<lparr>co_log := release_before (co_log c1) boundary\<rparr>)"

definition restore_marks :: "core \<Rightarrow> dirty_rows \<Rightarrow> core" where
  "restore_marks c rows =
     c\<lparr>co_persist := (co_persist c)\<lparr>pm_dirty := True, pm_rows := merge_rows (pm_rows (co_persist c)) rows\<rparr>\<rparr>"

definition rewrite_update ::
  "'s checkpoint_state \<Rightarrow> core \<Rightarrow> block list \<Rightarrow> bool \<Rightarrow> 's checkpoint_update option" where
  "rewrite_update st c blocks version =
     (let l = co_log c;
          rows = pm_rows (co_persist c);
          kept_at = lg_start l + common_prefix (lg_blocks l) blocks;
          from_at = (case dr_floor rows of None \<Rightarrow> kept_at | Some floor \<Rightarrow> min floor kept_at);
          len = lg_start l + length blocks
      in map_option
           (\<lambda>changed.
              \<lparr>cu_state = st, cu_changed = changed, cu_block_count = len,
               cu_moved_from = Some from_at, cu_version = version\<rparr>)
           (rows_at (\<lambda>i. if i < lg_start l then None else get_at blocks (i - lg_start l))
              (dirty_indices rows from_at @ [from_at..<len])))"

definition adopt_rewrite :: "core \<Rightarrow> block list \<Rightarrow> bool \<Rightarrow> core option" where
  "adopt_rewrite c blocks version =
     (case replace_all (co_log c) blocks version of
        None \<Rightarrow> None
      | Some (batch, l) \<Rightarrow>
          Some (c\<lparr>co_log := l, co_persist := (co_persist c)\<lparr>pm_rows := no_rows\<rparr>,
                  co_outbox := co_outbox c @ [(pb_patches batch, log_version l)]\<rparr>))"

section \<open>What a store does with an update (the contract of agent-store's CheckpointUpdate)\<close>

text \<open>
  From the cut, the lowest of \<open>moved_from\<close> and \<open>block_count\<close>, each block of the path is a new row,
  which the update must bring; below it a stored row stays or is updated. \<open>None\<close> where the update
  names no block for a place that needs one.
\<close>

definition store_save :: "block list \<Rightarrow> 's checkpoint_update \<Rightarrow> block list option" where
  "store_save stored u =
     (let count = cu_block_count u;
          cut_at = (case cu_moved_from u of None \<Rightarrow> count | Some m \<Rightarrow> min m count);
          changed = map_of (cu_changed u)
      in if cut_at \<le> length stored \<and> (\<forall>i\<in>set [cut_at..<count]. changed i \<noteq> None)
         then Some (map (\<lambda>i. case changed i of Some b \<Rightarrow> b | None \<Rightarrow> stored ! i) [0..<count])
         else None)"

lemma rows_at_Some: "\<forall>i\<in>set is. get i \<noteq> None \<Longrightarrow> rows_at get is = Some (map (\<lambda>i. (i, the (get i))) is)"
  by (induction "is") auto

lemma map_of_pairs: "map_of (map (\<lambda>i. (i, f i)) is) i = (if i \<in> set is then Some (f i) else None)"
  by (induction "is") auto

text \<open>
  \<open>tracked\<close>: the stored path and the window differ only in rows that are marked, every row below
  the floor is stored, no row before the window is marked, and with no floor the two end together.
\<close>

definition tracked :: "block list \<Rightarrow> nat \<Rightarrow> block list \<Rightarrow> dirty_rows \<Rightarrow> bool" where
  "tracked stored start blocks d =
     (start \<le> length stored
      \<and> (\<forall>k<length blocks. \<not> dirty d (start + k) \<longrightarrow> stored ! (start + k) = blocks ! k)
      \<and> (\<forall>k<length blocks. kept_row d (start + k) \<longrightarrow> start + k < length stored)
      \<and> (\<forall>i. dirty d i \<longrightarrow> start \<le> i)
      \<and> (dr_floor d = None \<longrightarrow> length stored = start + length blocks))"

lemma trackedD:
  assumes "tracked stored start blocks d"
  shows "start \<le> length stored"
    and "k < length blocks \<Longrightarrow> \<not> dirty d (start + k) \<Longrightarrow> stored ! (start + k) = blocks ! k"
    and "k < length blocks \<Longrightarrow> kept_row d (start + k) \<Longrightarrow> start + k < length stored"
    and "dirty d i \<Longrightarrow> start \<le> i"
    and "dr_floor d = None \<Longrightarrow> length stored = start + length blocks"
  using assms unfolding tracked_def by blast+

lemma tracked_floor:
  assumes "tracked stored start blocks d" "rows_ok d"
  shows "(case dr_floor d of None \<Rightarrow> start + length blocks | Some f \<Rightarrow> min f (start + length blocks)) \<le> length stored"
proof -
  let ?c = "case dr_floor d of None \<Rightarrow> start + length blocks | Some f \<Rightarrow> min f (start + length blocks)"
  show ?thesis
  proof (cases "?c \<le> start")
    case True
    then show ?thesis using assms(1) by (simp add: tracked_def)
  next
    case False
    then have k: "?c - 1 - start < length blocks" "start + (?c - 1 - start) = ?c - 1"
      by (auto split: option.splits)
    moreover have "kept_row d (?c - 1)"
      using False by (auto simp: kept_row_def split: option.split)
    ultimately have "?c - 1 < length stored"
      using assms(1) unfolding tracked_def by metis
    then show ?thesis by linarith
  qed
qed

text \<open>A save of what is marked leaves the store with the session's path.\<close>

lemma save_tracked:
  assumes "tracked stored start blocks d" "rows_ok d"
    and u: "cu_changed u = map (\<lambda>i. (i, blocks ! (i - start))) changed_rows"
      "set changed_rows = {i. i < start + length blocks \<and> dirty d i}"
      "cu_block_count u = start + length blocks" "cu_moved_from u = dr_floor d"
  shows "store_save stored u = Some (take start stored @ blocks)"
proof -
  let ?n = "start + length blocks"
  let ?cut = "case dr_floor d of None \<Rightarrow> ?n | Some f \<Rightarrow> min f ?n"
  have changed: "map_of (cu_changed u) i = (if i < ?n \<and> dirty d i then Some (blocks ! (i - start)) else None)" for i
    by (simp add: u map_of_pairs)
  have new: "dirty d i" if "?cut \<le> i" "i < ?n" for i
    using that by (auto simp: dirty_def split: option.splits)
  have at: "(case map_of (cu_changed u) i of Some b \<Rightarrow> b | None \<Rightarrow> stored ! i) = (take start stored @ blocks) ! i"
    if "i < ?n" for i
  proof (cases "i < start")
    case True
    then show ?thesis using assms(1) that by (auto simp: changed nth_append tracked_def)
  next
    case False
    then have k: "i - start < length blocks" "start + (i - start) = i" using that by auto
    then have "\<not> dirty d i \<Longrightarrow> stored ! i = blocks ! (i - start)"
      using assms(1) unfolding tracked_def by metis
    then show ?thesis using assms(1) False that by (simp add: changed nth_append tracked_def)
  qed
  have "map (\<lambda>i. case map_of (cu_changed u) i of Some b \<Rightarrow> b | None \<Rightarrow> stored ! i) [0..<?n] = take start stored @ blocks"
  proof -
    have "map (\<lambda>i. case map_of (cu_changed u) i of Some b \<Rightarrow> b | None \<Rightarrow> stored ! i) [0..<?n]
        = map ((!) (take start stored @ blocks)) [0..<?n]"
      using at by (intro map_cong) auto
    moreover have "length (take start stored @ blocks) = ?n"
      using assms(1) by (simp add: tracked_def)
    ultimately show ?thesis using map_nth [of "take start stored @ blocks"] by (simp only:)
  qed
  then show ?thesis
    using tracked_floor [OF assms(1,2)] new changed
    by (simp add: store_save_def Let_def u(3,4))
qed

lemma saved_tracked: "start \<le> length stored \<Longrightarrow> tracked (take start stored @ blocks) start blocks no_rows"
  by (simp add: tracked_def nth_append)

section \<open>A session that changes and saves\<close>

datatype 's flight =
    Saving "'s checkpoint_update" dirty_rows
  | Rewriting "'s checkpoint_update" "block list" bool

record 's session =
  ss_core :: core
  ss_stored :: "block list"
  ss_flight :: "'s flight option"

text \<open>
  One synchronous change of a session: operations of its log, then the commit. A save, a rewrite and
  a read of earlier blocks hold the session's save order, so at most one is in flight.
\<close>

inductive saving_step :: "(string \<Rightarrow> string list) \<Rightarrow> 's session \<Rightarrow> 's session \<Rightarrow> bool" for named where
  Change: "run_steps (run_op named) ops (co_log (ss_core s)) = Some l \<Longrightarrow>
    saving_step named s (s\<lparr>ss_core := commit ((ss_core s)\<lparr>co_log := l\<rparr>)\<rparr>)"
| Begin_save: "ss_flight s = None \<Longrightarrow> prepare_checkpoint st (ss_core s) = Some (Some (u, rows), c) \<Longrightarrow>
    saving_step named s (s\<lparr>ss_core := c, ss_flight := Some (Saving u rows)\<rparr>)"
| Nothing_due: "ss_flight s = None \<Longrightarrow> prepare_checkpoint (st :: 's checkpoint_state) (ss_core s) = Some (None, c) \<Longrightarrow>
    saving_step named s (s\<lparr>ss_core := release_settled c\<rparr>)"
| Saved: "ss_flight s = Some (Saving u rows) \<Longrightarrow> store_save (ss_stored s) u = Some stored \<Longrightarrow>
    saving_step named s (s\<lparr>ss_core := release_settled (ss_core s), ss_stored := stored, ss_flight := None\<rparr>)"
| Save_failed: "ss_flight s = Some (Saving u rows) \<Longrightarrow>
    saving_step named s (s\<lparr>ss_core := restore_marks (ss_core s) rows, ss_flight := None\<rparr>)"
| Begin_rewrite: "ss_flight s = None \<Longrightarrow> rewrite_update st (ss_core s) blocks version = Some u \<Longrightarrow>
    saving_step named s (s\<lparr>ss_flight := Some (Rewriting u blocks version)\<rparr>)"
| Rewritten: "ss_flight s = Some (Rewriting u blocks version) \<Longrightarrow> store_save (ss_stored s) u = Some stored \<Longrightarrow>
    adopt_rewrite (ss_core s) blocks version = Some c \<Longrightarrow>
    saving_step named s (s\<lparr>ss_core := c, ss_stored := stored, ss_flight := None\<rparr>)"
| Rewrite_failed: "ss_flight s = Some (Rewriting u blocks version) \<Longrightarrow>
    saving_step named s (s\<lparr>ss_flight := None\<rparr>)"
| Reach: "ss_flight s = None \<Longrightarrow> start \<le> lg_start (co_log (ss_core s)) \<Longrightarrow>
    extend_back (co_log (ss_core s)) start
      (drop start (take (lg_start (co_log (ss_core s))) (ss_stored s))) vs e = Some l \<Longrightarrow>
    saving_step named s (s\<lparr>ss_core := (ss_core s)\<lparr>co_log := l\<rparr>\<rparr>)"

inductive_cases saving_stepE: "saving_step named s s'"

text \<open>\<open>core_ok\<close>: nothing waits to be committed, and rows are marked only with a save due.\<close>

definition core_ok :: "core \<Rightarrow> bool" where
  "core_ok c =
     (log_patches (co_log c) = [] \<and> log_rows (co_log c) = no_rows \<and> rows_ok (pm_rows (co_persist c))
      \<and> (\<not> pm_dirty (co_persist c) \<longrightarrow> pm_rows (co_persist c) = no_rows))"

definition core_tracked :: "block list \<Rightarrow> core \<Rightarrow> dirty_rows \<Rightarrow> bool" where
  "core_tracked stored c d = tracked stored (lg_start (co_log c)) (lg_blocks (co_log c)) d"

definition session_ok :: "'s session \<Rightarrow> bool" where
  "session_ok s =
     (core_ok (ss_core s)
      \<and> (case ss_flight s of
           None \<Rightarrow> core_tracked (ss_stored s) (ss_core s) (pm_rows (co_persist (ss_core s)))
         | Some (Saving u rows) \<Rightarrow>
             rows_ok rows
             \<and> core_tracked (ss_stored s) (ss_core s) (merge_rows (pm_rows (co_persist (ss_core s))) rows)
             \<and> (\<exists>stored. store_save (ss_stored s) u = Some stored
                  \<and> take (lg_start (co_log (ss_core s))) stored
                      = take (lg_start (co_log (ss_core s))) (ss_stored s)
                  \<and> core_tracked stored (ss_core s) (pm_rows (co_persist (ss_core s))))
         | Some (Rewriting u blocks version) \<Rightarrow>
             core_tracked (ss_stored s) (ss_core s) (pm_rows (co_persist (ss_core s)))
             \<and> store_save (ss_stored s) u
                 = Some (take (lg_start (co_log (ss_core s))) (ss_stored s) @ blocks)))"

text \<open>A change marks what it changes, so what was tracked stays so.\<close>

lemma tracked_marks:
  assumes "tracked stored start bs d" "\<And>i. dirty d i \<Longrightarrow> dirty d' i"
    and "\<And>k. k < length bs' \<Longrightarrow> \<not> dirty d' (start + k) \<Longrightarrow> k < length bs \<and> bs' ! k = bs ! k"
    and "\<And>k. k < length bs' \<Longrightarrow> kept_row d' (start + k) \<Longrightarrow> k < length bs \<and> kept_row d (start + k)"
    and "\<And>i. i < start \<Longrightarrow> dirty d' i \<Longrightarrow> dirty d i"
    and "dr_floor d' = None \<Longrightarrow> dr_floor d = None \<and> length bs' = length bs"
  shows "tracked stored start bs' d'"
proof -
  have "stored ! (start + k) = bs' ! k" if "k < length bs'" "\<not> dirty d' (start + k)" for k
    using that assms(1) assms(2) [of "start + k"] assms(3) [OF that] unfolding tracked_def by metis
  moreover have "start + k < length stored" if "k < length bs'" "kept_row d' (start + k)" for k
    using that assms(1) assms(4) [OF that] unfolding tracked_def by metis
  moreover have "start \<le> i" if "dirty d' i" for i
  proof (rule ccontr)
    assume "\<not> start \<le> i"
    then have "dirty d i" using assms(5) that by simp
    then show False using assms(1) \<open>\<not> start \<le> i\<close> unfolding tracked_def by blast
  qed
  moreover have "length stored = start + length bs'" if "dr_floor d' = None"
    using trackedD(5) [OF assms(1)] assms(6) [OF that] by simp
  ultimately show ?thesis using assms(1) by (simp add: tracked_def)
qed

lemma commit_fields:
  "lg_blocks (co_log (commit c)) = lg_blocks (co_log c)" "lg_start (co_log (commit c)) = lg_start (co_log c)"
  "log_patches (co_log (commit c)) = []"
  by (auto simp: commit_def dest: take_patches_fields split: prod.split option.split)

lemma commit_journal:
  assumes "journal_ok (co_log c)"
  shows "log_rows (co_log (commit c)) = no_rows"
    and "log_patches (co_log c) = [] \<Longrightarrow> co_persist (commit c) = co_persist c"
    and "log_patches (co_log c) \<noteq> [] \<Longrightarrow> co_persist (commit c) =
          (co_persist c)\<lparr>pm_dirty := True, pm_rows := merge_rows (pm_rows (co_persist c)) (log_rows (co_log c))\<rparr>"
  using assms
  by (auto simp: commit_def take_patches_def journal_take_def journal_ok_def split: prod.split option.split)

lemma commit_ok:
  assumes "journal_ok (co_log c)" "rows_ok (pm_rows (co_persist c))"
    "\<not> pm_dirty (co_persist c) \<longrightarrow> pm_rows (co_persist c) = no_rows"
  shows "core_ok (commit c)"
  using assms commit_journal [OF assms(1)] commit_fields [of c]
  by (cases "log_patches (co_log c) = []") (simp_all add: core_ok_def)

lemma commit_idle: "core_ok c \<Longrightarrow> commit c = c"
  by (simp add: core_ok_def commit_def take_patches_def journal_take_def)

lemma commit_same: "log_patches (co_log c) = [] \<Longrightarrow> log_rows (co_log c) = no_rows \<Longrightarrow> commit c = c"
  by (simp add: commit_def take_patches_def journal_take_def)

text \<open>A change and its commit, from a core with nothing to commit.\<close>

lemma change_core:
  assumes "core_ok c" "run_steps (run_op named) ops (co_log c) = Some l"
  defines "c' \<equiv> commit (c\<lparr>co_log := l\<rparr>)"
  shows "core_ok c'" "lg_start (co_log c') = lg_start (co_log c)"
    and "rows_ok d \<Longrightarrow> core_tracked stored c (merge_rows (pm_rows (co_persist c)) d) \<Longrightarrow>
           core_tracked stored c' (merge_rows (pm_rows (co_persist c')) d)"
proof -
  have ok: "journal_ok (co_log c)" using assms(1) by (simp add: core_ok_def journal_ok_def)
  have rec: "recorded (co_log c) l" using log_ops.steps_recorded [OF assms(2) ok] .
  then have jok: "journal_ok l" and start: "lg_start l = lg_start (co_log c)" and marks: "marks (co_log c) l"
    by (simp_all add: recorded_def)
  have rows: "rows_ok (pm_rows (co_persist c))" "\<not> pm_dirty (co_persist c) \<longrightarrow> pm_rows (co_persist c) = no_rows"
    using assms(1) by (simp_all add: core_ok_def)
  show "core_ok c'" unfolding c'_def using jok rows by (intro commit_ok) simp_all
  show st': "lg_start (co_log c') = lg_start (co_log c)" by (simp add: c'_def commit_fields start)
  have blocks: "lg_blocks (co_log c') = lg_blocks l" by (simp add: c'_def commit_fields)
  have clean: "log_rows (co_log c) = no_rows" using assms(1) by (simp add: core_ok_def)
  have dirty': "dirty (pm_rows (co_persist c')) i = (dirty (pm_rows (co_persist c)) i \<or> dirty (log_rows l) i)"
    and kept': "kept_row (pm_rows (co_persist c')) i = (kept_row (pm_rows (co_persist c)) i \<and> kept_row (log_rows l) i)" for i
    using commit_journal [of "c\<lparr>co_log := l\<rparr>"] jok rows
    by (cases "log_patches l = []"; simp add: c'_def journal_ok_def)+
  have floor': "dr_floor (pm_rows (co_persist c')) = None \<Longrightarrow>
      dr_floor (pm_rows (co_persist c)) = None \<and> dr_floor (log_rows l) = None"
    using commit_journal [of "c\<lparr>co_log := l\<rparr>"] jok rows
    by (cases "log_patches l = []") (auto simp: c'_def journal_ok_def merge_rows_floor split: option.splits)
  have ok': "rows_ok (pm_rows (co_persist c'))" using \<open>core_ok c'\<close> by (simp add: core_ok_def)
  show "core_tracked stored c' (merge_rows (pm_rows (co_persist c')) d)"
    if "rows_ok d" "core_tracked stored c (merge_rows (pm_rows (co_persist c)) d)"
    using that(2) unfolding core_tracked_def st' blocks
  proof (rule tracked_marks)
    note D = marksD [OF marks]
    show "dirty (merge_rows (pm_rows (co_persist c)) d) i \<Longrightarrow> dirty (merge_rows (pm_rows (co_persist c')) d) i" for i
      using rows ok' that(1) by (auto simp: dirty')
    show "k < length (lg_blocks l) \<Longrightarrow> \<not> dirty (merge_rows (pm_rows (co_persist c')) d) (lg_start (co_log c) + k) \<Longrightarrow>
        k < length (lg_blocks (co_log c)) \<and> lg_blocks l ! k = lg_blocks (co_log c) ! k" for k
      using D(1) [of k] rows ok' that(1) by (simp add: dirty')
    show "k < length (lg_blocks l) \<Longrightarrow> kept_row (merge_rows (pm_rows (co_persist c')) d) (lg_start (co_log c) + k) \<Longrightarrow>
        k < length (lg_blocks (co_log c)) \<and> kept_row (merge_rows (pm_rows (co_persist c)) d) (lg_start (co_log c) + k)" for k
      using D(4) [of k] rows ok' by (simp add: kept')
    show "i < lg_start (co_log c) \<Longrightarrow> dirty (merge_rows (pm_rows (co_persist c')) d) i \<Longrightarrow>
        dirty (merge_rows (pm_rows (co_persist c)) d) i" for i
      using D(3) [of i] rows ok' that(1) by (auto simp: dirty' clean)
    show "dr_floor (merge_rows (pm_rows (co_persist c')) d) = None \<Longrightarrow>
        dr_floor (merge_rows (pm_rows (co_persist c)) d) = None \<and> length (lg_blocks l) = length (lg_blocks (co_log c))"
      using D(5) rows ok' floor' by (auto simp: merge_rows_floor split: option.splits)
  qed
qed

lemma merge_no_rows [simp]: "merge_rows d no_rows = d"
  by (simp add: merge_rows_def)

lemmas change_core_alone = change_core(3) [where d = no_rows, simplified]

section \<open>Every step keeps the session tracked\<close>

lemma marked_held:
  assumes "core_tracked stored c d" "dirty d i" "i < log_len (co_log c)"
  shows "log_get (co_log c) i = Some (lg_blocks (co_log c) ! (i - lg_start (co_log c)))"
  using assms by (auto simp: core_tracked_def tracked_def log_get_def log_len_def not_less)

lemma prepare_ok:
  assumes ok: "core_ok c" and tr: "core_tracked stored c (pm_rows (co_persist c))"
  shows "if pm_dirty (co_persist c)
         then \<exists>u. prepare_checkpoint st c =
                Some (Some (u, pm_rows (co_persist c)), c\<lparr>co_persist := \<lparr>pm_dirty = False, pm_rows = no_rows, pm_recorded = cs_phase st\<rparr>\<rparr>)
              \<and> store_save stored u = Some (take (lg_start (co_log c)) stored @ lg_blocks (co_log c))
         else prepare_checkpoint st c = Some (None, c)"
proof (cases "pm_dirty (co_persist c)")
  case False
  then show ?thesis by (simp add: prepare_checkpoint_def Let_def commit_idle [OF ok])
next
  case True
  let ?rows = "pm_rows (co_persist c)" and ?l = "co_log c"
  let ?is = "dirty_indices ?rows (log_len ?l)"
  have rows: "rows_ok ?rows" using ok by (simp add: core_ok_def)
  have held: "i \<in> set ?is \<Longrightarrow> log_get ?l i = Some (lg_blocks ?l ! (i - lg_start ?l))" for i
    using marked_held [OF tr] by (simp add: dirty_indices_set [OF rows])
  have "rows_at (log_get ?l) ?is = Some (map (\<lambda>i. (i, the (log_get ?l i))) ?is)"
    by (rule rows_at_Some) (use held in auto)
  also have "map (\<lambda>i. (i, the (log_get ?l i))) ?is = map (\<lambda>i. (i, lg_blocks ?l ! (i - lg_start ?l))) ?is"
    using held by (intro map_cong) auto
  finally have "rows_at (log_get ?l) ?is = Some (map (\<lambda>i. (i, lg_blocks ?l ! (i - lg_start ?l))) ?is)" .
  moreover have "store_save stored
      \<lparr>cu_state = st, cu_changed = map (\<lambda>i. (i, lg_blocks ?l ! (i - lg_start ?l))) ?is,
       cu_block_count = log_len ?l, cu_moved_from = dr_floor ?rows, cu_version = False\<rparr>
      = Some (take (lg_start ?l) stored @ lg_blocks ?l)"
    using tr rows unfolding core_tracked_def
    by (rule save_tracked [where changed_rows = ?is]) (simp_all add: log_len_def dirty_indices_set [OF rows])
  ultimately show ?thesis
    using True by (auto simp: prepare_checkpoint_def Let_def commit_idle [OF ok])
qed

lemma replay_start_le: "replay_start bs \<le> length bs"
  using rposition_less [of is_boundary bs] by (auto simp: replay_start_def split: option.split)

lemma release_tracked:
  assumes "tracked stored start bs d" "rows_ok d" "n \<le> length bs" "\<And>i. dirty d i \<Longrightarrow> start + n \<le> i"
  shows "tracked stored (start + n) (drop n bs) d"
proof -
  have clean: "\<not> dirty d (start + k)" if "k < n" for k
    using assms(4) [of "start + k"] that by auto
  have "start + n \<le> length stored"
  proof (cases n)
    case 0
    then show ?thesis using assms(1) by (simp add: tracked_def)
  next
    case (Suc m)
    then have "kept_row d (start + m)" using clean clean_kept by simp
    then show ?thesis using trackedD(3) [OF assms(1), of m] assms(3) Suc by simp
  qed
  then show ?thesis
    using assms by (auto simp: tracked_def add.assoc)
qed

lemma release_settled_ok:
  assumes ok: "core_ok c" and tr: "core_tracked stored c (pm_rows (co_persist c))"
  shows "core_ok (release_settled c)"
    and "core_tracked stored (release_settled c) (pm_rows (co_persist (release_settled c)))"
proof -
  let ?l = "co_log c" and ?rows = "pm_rows (co_persist c)"
  let ?n = "replay_start (lg_blocks ?l)"
  have rows: "rows_ok ?rows" using ok by (simp add: core_ok_def)
  have n: "?n \<le> length (lg_blocks ?l)" by (rule replay_start_le)
  have start: "lg_start (release_before ?l (log_replay_start ?l)) = lg_start ?l + ?n"
    and blocks: "lg_blocks (release_before ?l (log_replay_start ?l)) = drop ?n (lg_blocks ?l)"
    and journal: "lg_journal (release_before ?l (log_replay_start ?l)) = lg_journal ?l"
    using n by (simp_all add: release_before_def Let_def log_replay_start_def)
  have free: "dirty ?rows i \<Longrightarrow> lg_start ?l + ?n \<le> i"
    if "\<not> (case lowest_row ?rows of Some lowest \<Rightarrow> lowest < log_replay_start ?l | None \<Rightarrow> False)" for i
  proof (cases "lowest_row ?rows")
    case None
    then show "dirty ?rows i \<Longrightarrow> ?thesis" using lowest_row_None [OF rows] by simp
  next
    case (Some a)
    assume "dirty ?rows i"
    then have "a \<le> i" using lowest_row_Some [OF rows Some] not_less by blast
    then show ?thesis using that Some by (simp add: log_replay_start_def)
  qed
  have cases: "release_settled c = c \<or>
      (release_settled c = c\<lparr>co_log := release_before ?l (log_replay_start ?l)\<rparr>
       \<and> \<not> (case lowest_row ?rows of Some lowest \<Rightarrow> lowest < log_replay_start ?l | None \<Rightarrow> False))"
    by (auto simp: release_settled_def Let_def commit_idle [OF ok] split: option.split)
  show "core_ok (release_settled c)"
    using cases ok by (auto simp: core_ok_def journal)
  show "core_tracked stored (release_settled c) (pm_rows (co_persist (release_settled c)))"
    using cases tr release_tracked [OF _ rows n, of stored "lg_start ?l"] free
    by (auto simp: core_tracked_def start blocks)
qed

lemma rewrite_ok:
  assumes ok: "core_ok c" and tr: "core_tracked stored c (pm_rows (co_persist c))"
  shows "\<exists>u. rewrite_update st c blocks version = Some u
     \<and> store_save stored u = Some (take (lg_start (co_log c)) stored @ blocks)"
proof -
  let ?l = "co_log c" and ?rows = "pm_rows (co_persist c)"
  let ?start = "lg_start ?l"
  let ?k = "common_prefix (lg_blocks ?l) blocks"
  define from_at where "from_at = (case dr_floor ?rows of None \<Rightarrow> ?start + ?k | Some floor \<Rightarrow> min floor (?start + ?k))"
  let ?len = "?start + length blocks"
  let ?is = "dirty_indices ?rows from_at @ [from_at..<?len]"
  let ?d = "move_from ?rows from_at"
  have rows: "rows_ok ?rows" using ok by (simp add: core_ok_def)
  have le: "from_at \<le> ?start + ?k" "?k \<le> length blocks" "?k \<le> length (lg_blocks ?l)"
    using common_prefix_le by (auto simp: from_at_def split: option.split)
  have window: "dirty ?rows i \<Longrightarrow> ?start \<le> i" for i
    using tr by (auto simp: core_tracked_def tracked_def)
  have ge: "?start \<le> from_at"
  proof (cases "dr_floor ?rows")
    case (Some f)
    then show ?thesis using window [of f] by (simp add: from_at_def dirty_def)
  qed (simp add: from_at_def)
  have set_is: "set ?is = {i. i < ?len \<and> dirty ?d i}"
    using le by (auto simp: dirty_indices_set [OF rows] move_from_dirty [OF rows])
  have held: "(if i < ?start then None else get_at blocks (i - ?start)) = Some (blocks ! (i - ?start))"
    if "i \<in> set ?is" for i
  proof -
    have "i \<in> {i. i < ?len \<and> dirty ?d i}" using that unfolding set_is .
    then have i: "i < ?len" "dirty ?rows i \<or> from_at \<le> i" by (simp_all add: move_from_dirty [OF rows])
    then have "?start \<le> i" using window [of i] ge by linarith
    then show ?thesis using i(1) by simp
  qed
  let ?get = "\<lambda>i. if i < ?start then None else get_at blocks (i - ?start)"
  have "rows_at ?get ?is = Some (map (\<lambda>i. (i, the (?get i))) ?is)"
    by (rule rows_at_Some) (use held in auto)
  also have "map (\<lambda>i. (i, the (?get i))) ?is = map (\<lambda>i. (i, blocks ! (i - ?start))) ?is"
    using held by (intro map_cong) auto
  finally have at: "rows_at ?get ?is = Some (map (\<lambda>i. (i, blocks ! (i - ?start))) ?is)" .
  have floor: "dr_floor ?d = Some from_at"
    using le by (auto simp: from_at_def split: option.split)
  have "tracked stored ?start blocks ?d"
  proof -
    have "stored ! (?start + k) = blocks ! k" if "k < length blocks" "\<not> dirty ?d (?start + k)" for k
    proof -
      have k: "k < ?k" "\<not> dirty ?rows (?start + k)" using that(2) le by (auto simp: move_from_dirty [OF rows])
      then show ?thesis
        using trackedD(2) [OF tr [unfolded core_tracked_def], of k] le nth_common_prefix [OF k(1)] by simp
    qed
    moreover have "?start + k < length stored" if "kept_row ?d (?start + k)" for k
    proof -
      have k: "k < ?k" "kept_row ?rows (?start + k)" using that le by auto
      then show ?thesis using trackedD(3) [OF tr [unfolded core_tracked_def], of k] le by simp
    qed
    moreover have "?start \<le> i" if "dirty ?d i" for i
      using that window ge by (auto simp: move_from_dirty [OF rows])
    ultimately show ?thesis using tr floor by (simp add: core_tracked_def tracked_def)
  qed
  then have "store_save stored
      \<lparr>cu_state = st, cu_changed = map (\<lambda>i. (i, blocks ! (i - ?start))) ?is, cu_block_count = ?len,
       cu_moved_from = Some from_at, cu_version = version\<rparr> = Some (take ?start stored @ blocks)"
    using move_from_ok [OF rows]
    by (rule save_tracked [where changed_rows = ?is]) (use set_is floor in simp_all)
  then show ?thesis
    using at by (simp add: rewrite_update_def Let_def from_at_def)
qed

lemma adopt_ok:
  assumes "adopt_rewrite c blocks version = Some c'" "core_ok c" "lg_start (co_log c) \<le> length stored"
  shows "core_ok c'"
    and "core_tracked (take (lg_start (co_log c)) stored @ blocks) c' (pm_rows (co_persist c'))"
  using assms saved_tracked [OF assms(3), of blocks]
  by (auto simp: adopt_rewrite_def replace_all_def replace_from_def Let_def core_ok_def core_tracked_def
      split: option.splits prod.splits if_splits)

lemma reach_tracked:
  assumes "tracked stored start bs d" "first \<le> start"
  shows "tracked stored first (drop first (take start stored) @ bs) d"
proof -
  note D = trackedD [OF assms(1)]
  have early: "\<not> dirty d (first + k)" if "first + k < start" for k
    using D(4) that by (metis not_less)
  have old: "(drop first (take start stored) @ bs) ! k =
      (if first + k < start then stored ! (first + k) else bs ! (first + k - start))" for k
    using D(1) assms(2) by (auto simp: nth_append min_def add.commute)
  have same: "stored ! (first + k) = (drop first (take start stored) @ bs) ! k"
    if "k < length (drop first (take start stored) @ bs)" "\<not> dirty d (first + k)" for k
  proof (cases "first + k < start")
    case True
    then show ?thesis by (simp only: old if_True)
  next
    case False
    then have "first + k - start < length bs" "start + (first + k - start) = first + k"
      using that(1) D(1) assms(2) by auto
    then have "stored ! (first + k) = bs ! (first + k - start)"
      using D(2) [of "first + k - start"] that(2) by simp
    then show ?thesis using False by (simp only: old if_False)
  qed
  moreover have "first + k < length stored"
    if "k < length (drop first (take start stored) @ bs)" "kept_row d (first + k)" for k
  proof (cases "first + k < start")
    case True
    then show ?thesis using D(1) by linarith
  next
    case False
    then have "first + k - start < length bs" "start + (first + k - start) = first + k"
      using that(1) D(1) assms(2) by auto
    then show ?thesis using D(3) [of "first + k - start"] that(2) by simp
  qed
  moreover have "first \<le> i" if "dirty d i" for i using D(4) [OF that] assms(2) by linarith
  moreover have "first \<le> length stored" using D(1) assms(2) by linarith
  moreover have "length stored = first + length (drop first (take start stored) @ bs)" if "dr_floor d = None"
    using D(1) D(5) [OF that] assms(2) by simp
  ultimately show ?thesis unfolding tracked_def by blast
qed

lemma session_ok_None:
  "ss_flight s = None \<Longrightarrow> session_ok s = (core_ok (ss_core s)
     \<and> core_tracked (ss_stored s) (ss_core s) (pm_rows (co_persist (ss_core s))))"
  by (simp add: session_ok_def)

lemma change_ok:
  assumes "session_ok s" "run_steps (run_op named) ops (co_log (ss_core s)) = Some l"
  shows "session_ok (s\<lparr>ss_core := commit ((ss_core s)\<lparr>co_log := l\<rparr>)\<rparr>)"
proof -
  have ok: "core_ok (ss_core s)" using assms(1) by (simp add: session_ok_def)
  note C = change_core [OF ok assms(2)] and A = change_core_alone [OF ok assms(2)]
  show ?thesis
  proof (cases "ss_flight s")
    case None
    then show ?thesis using assms(1) C(1) A by (simp add: session_ok_None)
  next
    case (Some f)
    then show ?thesis
      using assms(1) C A by (cases f) (auto simp: session_ok_def)
  qed
qed

lemma saving_step_ok: "saving_step named s s' \<Longrightarrow> session_ok s \<Longrightarrow> session_ok s'"
proof (induction rule: saving_step.induct)
  case (Change ops s l)
  then show ?case by (simp add: change_ok)
next
  case (Begin_save s st u rows c)
  then have ok: "core_ok (ss_core s)" and tr: "core_tracked (ss_stored s) (ss_core s) (pm_rows (co_persist (ss_core s)))"
    by (simp_all add: session_ok_None)
  have c: "rows = pm_rows (co_persist (ss_core s))" "c = (ss_core s)\<lparr>co_persist := \<lparr>pm_dirty = False, pm_rows = no_rows, pm_recorded = cs_phase st\<rparr>\<rparr>"
    "store_save (ss_stored s) u = Some (take (lg_start (co_log (ss_core s))) (ss_stored s) @ lg_blocks (co_log (ss_core s)))"
    using prepare_ok [OF ok tr, of st] Begin_save.hyps(2) by (auto split: if_splits)
  have rows: "rows_ok rows" using ok c(1) by (simp add: core_ok_def)
  have merged: "core_tracked (ss_stored s) c (merge_rows no_rows rows)"
    using tr rows c(1,2) unfolding core_tracked_def
    by (simp, elim tracked_marks) (simp_all add: merge_rows_floor split: option.splits)
  have "lg_start (co_log (ss_core s)) \<le> length (ss_stored s)" using tr trackedD(1) by (simp add: core_tracked_def)
  then have "core_tracked (take (lg_start (co_log (ss_core s))) (ss_stored s) @ lg_blocks (co_log (ss_core s))) c no_rows"
    using saved_tracked by (simp add: core_tracked_def c(2))
  moreover have "take (lg_start (co_log (ss_core s)))
      (take (lg_start (co_log (ss_core s))) (ss_stored s) @ lg_blocks (co_log (ss_core s)))
      = take (lg_start (co_log (ss_core s))) (ss_stored s)"
    using tr trackedD(1) by (simp add: core_tracked_def)
  ultimately show ?case
    using ok rows merged c by (simp add: session_ok_def core_ok_def)
next
  case (Nothing_due s st c)
  then have ok: "core_ok (ss_core s)" and tr: "core_tracked (ss_stored s) (ss_core s) (pm_rows (co_persist (ss_core s)))"
    by (simp_all add: session_ok_None)
  have "c = ss_core s" using prepare_ok [OF ok tr, of st] Nothing_due.hyps(2) by (auto split: if_splits)
  then show ?case using Nothing_due release_settled_ok [OF ok tr] by (simp add: session_ok_None)
next
  case (Saved s u rows stored)
  then have ok: "core_ok (ss_core s)" and tr: "core_tracked stored (ss_core s) (pm_rows (co_persist (ss_core s)))"
    by (auto simp: session_ok_def)
  then show ?case using release_settled_ok [OF ok tr] by (simp add: session_ok_None)
next
  case (Save_failed s u rows)
  then show ?case by (auto simp: session_ok_def restore_marks_def core_ok_def core_tracked_def)
next
  case (Begin_rewrite s st blocks version u)
  then have ok: "core_ok (ss_core s)" and tr: "core_tracked (ss_stored s) (ss_core s) (pm_rows (co_persist (ss_core s)))"
    by (simp_all add: session_ok_None)
  then show ?case using rewrite_ok [OF ok tr, of st blocks version] Begin_rewrite.hyps(2) by (auto simp: session_ok_def)
next
  case (Rewritten s u blocks version stored c)
  then have ok: "core_ok (ss_core s)" and tr: "core_tracked (ss_stored s) (ss_core s) (pm_rows (co_persist (ss_core s)))"
    and stored: "stored = take (lg_start (co_log (ss_core s))) (ss_stored s) @ blocks"
    by (auto simp: session_ok_def)
  have "lg_start (co_log (ss_core s)) \<le> length (ss_stored s)" using tr trackedD(1) by (simp add: core_tracked_def)
  from adopt_ok [OF Rewritten.hyps(3) ok this] show ?case by (simp add: session_ok_None stored)
next
  case (Rewrite_failed s u blocks version)
  then show ?case by (auto simp: session_ok_def)
next
  case (Reach s start vs e l)
  then have ok: "core_ok (ss_core s)" and tr: "core_tracked (ss_stored s) (ss_core s) (pm_rows (co_persist (ss_core s)))"
    by (simp_all add: session_ok_None)
  have l: "lg_start l = start" "lg_journal l = lg_journal (co_log (ss_core s))"
    "lg_blocks l = drop start (take (lg_start (co_log (ss_core s))) (ss_stored s)) @ lg_blocks (co_log (ss_core s))"
    using Reach.hyps(3) by (auto simp: extend_back_def split: if_splits)
  then show ?case
    using Reach.hyps(1,2) ok reach_tracked [OF tr [unfolded core_tracked_def]]
    by (simp add: session_ok_None core_ok_def core_tracked_def)
qed

text \<open>A session begins with the path the store holds, with nothing due.\<close>

definition session_start :: "string \<Rightarrow> block list \<Rightarrow> nat \<Rightarrow> earlier \<Rightarrow> 's session" where
  "session_start epoch stored start e =
     \<lparr>ss_core = \<lparr>co_log = starting_at (log_new epoch (drop start stored)) start e,
                 co_persist = fresh_marks, co_save_asked = False, co_outbox = []\<rparr>,
      ss_stored = stored, ss_flight = None\<rparr>"

lemma session_start_ok: "start \<le> length stored \<Longrightarrow> session_ok (session_start epoch stored start e)"
  by (simp add: session_ok_None session_start_def fresh_marks_def core_ok_def core_tracked_def tracked_def
      starting_at_def log_new_def less_diff_conv add.commute)

definition reaches :: "(string \<Rightarrow> string list) \<Rightarrow> 's session \<Rightarrow> 's session \<Rightarrow> bool" where
  "reaches named = (saving_step named)\<^sup>*\<^sup>*"

lemma reaches_ok:
  assumes "reaches named (session_start epoch stored start e) s" "start \<le> length stored"
  shows "session_ok s"
  using assms(1) unfolding reaches_def
proof (induction rule: rtranclp_induct)
  case base
  show ?case using session_start_ok [OF assms(2)] .
next
  case (step s t)
  then show ?case using saving_step_ok by blast
qed

text \<open>With no save due or in flight, the store holds the session's path.\<close>

lemma settled_stored:
  assumes "session_ok s" "ss_flight s = None" "\<not> pm_dirty (co_persist (ss_core s))"
  shows "ss_stored s = take (lg_start (co_log (ss_core s))) (ss_stored s) @ lg_blocks (co_log (ss_core s))"
proof -
  let ?l = "co_log (ss_core s)"
  have tr: "tracked (ss_stored s) (lg_start ?l) (lg_blocks ?l) no_rows"
    using assms by (auto simp: session_ok_None core_ok_def core_tracked_def)
  note D = trackedD [OF tr]
  show ?thesis
  proof (rule nth_equalityI)
    show "length (ss_stored s) = length (take (lg_start ?l) (ss_stored s) @ lg_blocks ?l)"
      using D(5) by simp
    fix i assume "i < length (ss_stored s)"
    then have i: "i < lg_start ?l + length (lg_blocks ?l)" using D(5) by simp
    show "ss_stored s ! i = (take (lg_start ?l) (ss_stored s) @ lg_blocks ?l) ! i"
      using D(2) [of "i - lg_start ?l"] i D(1) by (cases "i < lg_start ?l") (simp_all add: nth_append)
  qed
qed

text \<open>Whenever a save begins, it does not panic, and its success makes the stored path the session's.\<close>

lemma begin_save_ok:
  assumes "session_ok s" "ss_flight s = None"
  shows "prepare_checkpoint st (ss_core s) \<noteq> None"
    and "prepare_checkpoint st (ss_core s) = Some (Some (u, rows), c) \<Longrightarrow>
       store_save (ss_stored s) u
         = Some (take (lg_start (co_log (ss_core s))) (ss_stored s) @ lg_blocks (co_log (ss_core s)))"
proof -
  have "core_ok (ss_core s)" "core_tracked (ss_stored s) (ss_core s) (pm_rows (co_persist (ss_core s)))"
    using assms by (simp_all add: session_ok_None)
  from prepare_ok [OF this, of st]
  show "prepare_checkpoint st (ss_core s) \<noteq> None"
    and "prepare_checkpoint st (ss_core s) = Some (Some (u, rows), c) \<Longrightarrow>
       store_save (ss_stored s) u
         = Some (take (lg_start (co_log (ss_core s))) (ss_stored s) @ lg_blocks (co_log (ss_core s)))"
    by (auto split: if_splits)
qed


section \<open>What the pages hold\<close>

text \<open>The blocks a page holds that applied every batch the session published, in order.\<close>

definition page_blocks :: "block list \<Rightarrow> core \<Rightarrow> block list" where
  "page_blocks first c =
     map fst (apply_patches (map (\<lambda>b. (b, None)) first) (concat (map fst (co_outbox c))))"

lemma apply_patch_blocks:
  "map fst bs = map fst cs \<Longrightarrow> map fst (apply_patch bs p) = map fst (apply_patch cs p)"
proof -
  assume eq: "map fst bs = map fst cs"
  then have len: "length bs = length cs" by (metis length_map)
  have at: "i < length bs \<Longrightarrow> fst (bs ! i) = fst (cs ! i)" for i
    using eq len by (metis nth_map)
  show ?thesis
    using eq len at by (cases p) (simp_all add: map_insert_at map_update flip: take_map)
qed

lemma apply_patches_blocks:
  "map fst bs = map fst cs \<Longrightarrow> map fst (apply_patches bs ps) = map fst (apply_patches cs ps)"
proof (induction ps arbitrary: bs cs)
  case (Cons p ps)
  from Cons.IH [OF apply_patch_blocks [OF Cons.prems]]
  show ?case by (simp add: apply_patches_def)
qed simp

definition bare :: "block list \<Rightarrow> placed list" where
  "bare bs = map (\<lambda>b. (b, None)) bs"

lemma bare_blocks [simp]: "map fst (bare bs) = bs" "length (bare bs) = length bs"
  by (simp_all add: bare_def comp_def)

text \<open>Publishing the patches of a change, or of a replacement, takes a page along.\<close>

lemma page_change:
  assumes "recorded l l'" "log_patches l = []" "map fst pub = pre @ lg_blocks l" "length pre = lg_start l"
  shows "map fst (apply_patches pub (log_patches l')) = pre @ lg_blocks l'"
proof -
  obtain ps where ps: "\<And>bs. apply_patches bs (log_patches l') = apply_patches bs ps"
    "\<And>pre. length pre = lg_start l \<Longrightarrow> apply_patches (pre @ window l) ps = pre @ window l'"
    using assms(1,2) by (auto simp: recorded_def replays_def)
  have "map fst (apply_patches pub (log_patches l')) = map fst (apply_patches (bare pre @ window l) ps)"
    unfolding ps(1) using assms(3) by (intro apply_patches_blocks) (simp add: window_blocks)
  also have "\<dots> = map fst (bare pre @ window l')" using ps(2) [of "bare pre"] assms(4) by simp
  finally show ?thesis by (simp add: window_blocks)
qed

lemma page_replace:
  assumes "replace_all l blocks version = Some (batch, l')" "log_patches l = []"
    "map fst pub = pre @ lg_blocks l" "length pre = lg_start l"
  shows "map fst (apply_patches pub (pb_patches batch)) = pre @ lg_blocks l'"
proof -
  have "synced (bare pre) (bare pre @ window l) l" using assms(2,4) by (simp add: synced_def)
  from replace_all_synced [OF assms(1) this assms(2)]
  have sync: "apply_patches (bare pre @ window l) (pb_patches batch) = bare pre @ window l'"
    using assms(1) by (auto simp: synced_def published_def replace_all_def replace_from_def Let_def split: if_splits)
  have "map fst (apply_patches pub (pb_patches batch)) = map fst (apply_patches (bare pre @ window l) (pb_patches batch))"
    using assms(3) by (intro apply_patches_blocks) (simp add: window_blocks)
  then show ?thesis by (simp add: sync window_blocks)
qed

definition pages_ok :: "block list \<Rightarrow> 's session \<Rightarrow> bool" where
  "pages_ok first s =
     (page_blocks first (ss_core s)
        = take (lg_start (co_log (ss_core s))) (ss_stored s) @ lg_blocks (co_log (ss_core s)))"

lemma page_commit:
  "page_blocks first (commit c) =
     map fst (apply_patches (apply_patches (bare first) (concat (map fst (co_outbox c)))) (log_patches (co_log c)))"
  by (simp add: page_blocks_def bare_def commit_def take_patches_def journal_take_def)

lemma release_page:
  assumes ok: "core_ok c" and tr: "core_tracked stored c (pm_rows (co_persist c))"
  shows "take (lg_start (co_log (release_settled c))) stored @ lg_blocks (co_log (release_settled c))
      = take (lg_start (co_log c)) stored @ lg_blocks (co_log c)"
    and "co_outbox (release_settled c) = co_outbox c"
proof -
  let ?l = "co_log c"
  let ?n = "replay_start (lg_blocks ?l)"
  have tr': "core_tracked stored (release_settled c) (pm_rows (co_persist (release_settled c)))"
    using release_settled_ok [OF ok tr] by simp
  show "co_outbox (release_settled c) = co_outbox c"
    by (simp add: release_settled_def Let_def commit_idle [OF ok] split: option.split)
  show "take (lg_start (co_log (release_settled c))) stored @ lg_blocks (co_log (release_settled c))
      = take (lg_start ?l) stored @ lg_blocks ?l"
  proof (cases "release_settled c = c")
    case False
    let ?rows = "pm_rows (co_persist c)"
    have rows: "rows_ok ?rows" using ok by (simp add: core_ok_def)
    have rel: "release_settled c = c\<lparr>co_log := release_before ?l (log_replay_start ?l)\<rparr>"
      using False by (auto simp: release_settled_def Let_def commit_idle [OF ok] split: option.splits if_splits)
    have n: "?n \<le> length (lg_blocks ?l)" by (rule replay_start_le)
    have fields: "lg_start (co_log (release_settled c)) = lg_start ?l + ?n"
      "lg_blocks (co_log (release_settled c)) = drop ?n (lg_blocks ?l)"
      "pm_rows (co_persist (release_settled c)) = ?rows"
      using n by (simp_all add: rel release_before_def Let_def log_replay_start_def)
    have clean: "\<not> dirty ?rows (lg_start ?l + k)" if "k < ?n" for k
      using trackedD(4) [OF tr' [unfolded core_tracked_def fields], of "lg_start ?l + k"] that by auto
    have len: "lg_start ?l + ?n \<le> length stored"
      using trackedD(1) [OF tr' [unfolded core_tracked_def fields]] .
    have "take (lg_start ?l + ?n) stored = take (lg_start ?l) stored @ take ?n (lg_blocks ?l)"
    proof (rule nth_equalityI)
      show "length (take (lg_start ?l + ?n) stored) = length (take (lg_start ?l) stored @ take ?n (lg_blocks ?l))"
        using len n by simp
      fix i assume "i < length (take (lg_start ?l + ?n) stored)"
      then have i: "i < lg_start ?l + ?n" by simp
      show "take (lg_start ?l + ?n) stored ! i = (take (lg_start ?l) stored @ take ?n (lg_blocks ?l)) ! i"
        using trackedD(2) [OF tr [unfolded core_tracked_def], of "i - lg_start ?l"] clean [of "i - lg_start ?l"] i len n
        by (cases "i < lg_start ?l") (simp_all add: nth_append)
    qed
    then show ?thesis by (simp add: fields)
  qed simp
qed

lemma pages_step: "saving_step named s s' \<Longrightarrow> session_ok s \<Longrightarrow> pages_ok first s \<Longrightarrow> pages_ok first s'"
proof (induction rule: saving_step.induct)
  case (Change ops s l)
  let ?l = "co_log (ss_core s)"
  have ok: "core_ok (ss_core s)" using Change.prems(1) by (simp add: session_ok_def)
  then have jok: "journal_ok ?l" "log_patches ?l = []" by (simp_all add: core_ok_def journal_ok_def)
  have rec: "recorded ?l l" using log_ops.steps_recorded [OF Change.hyps jok(1)] .
  have start: "lg_start ?l \<le> length (ss_stored s)"
    using Change.prems(1) trackedD(1)
    by (cases "ss_flight s") (auto simp: session_ok_def core_tracked_def split: flight.splits)
  have "page_blocks first (commit ((ss_core s)\<lparr>co_log := l\<rparr>)) = take (lg_start ?l) (ss_stored s) @ lg_blocks l"
    unfolding page_commit
    using page_change [OF rec jok(2), of "apply_patches (bare first) (concat (map fst (co_outbox (ss_core s))))"
        "take (lg_start ?l) (ss_stored s)"] Change.prems(2) start
    by (simp add: pages_ok_def page_blocks_def bare_def)
  then show ?case
    using rec by (simp add: pages_ok_def commit_fields recorded_def)
next
  case (Begin_save s st u rows c)
  then have ok: "core_ok (ss_core s)" and tr: "core_tracked (ss_stored s) (ss_core s) (pm_rows (co_persist (ss_core s)))"
    by (simp_all add: session_ok_None)
  have "c = (ss_core s)\<lparr>co_persist := \<lparr>pm_dirty = False, pm_rows = no_rows, pm_recorded = cs_phase st\<rparr>\<rparr>"
    using prepare_ok [OF ok tr, of st] Begin_save.hyps(2) by (auto split: if_splits)
  then show ?case using Begin_save.prems(2) by (simp add: pages_ok_def page_blocks_def)
next
  case (Nothing_due s st c)
  then have ok: "core_ok (ss_core s)" and tr: "core_tracked (ss_stored s) (ss_core s) (pm_rows (co_persist (ss_core s)))"
    by (simp_all add: session_ok_None)
  have "c = ss_core s" using prepare_ok [OF ok tr, of st] Nothing_due.hyps(2) by (auto split: if_splits)
  then show ?case using Nothing_due.prems(2) release_page [OF ok tr] by (simp add: pages_ok_def page_blocks_def)
next
  case (Saved s u rows stored)
  then have ok: "core_ok (ss_core s)" and tr: "core_tracked stored (ss_core s) (pm_rows (co_persist (ss_core s)))"
    and same: "take (lg_start (co_log (ss_core s))) stored = take (lg_start (co_log (ss_core s))) (ss_stored s)"
    by (auto simp: session_ok_def)
  show ?case using Saved.prems(2) release_page [OF ok tr] by (simp add: pages_ok_def page_blocks_def same)
next
  case (Save_failed s u rows)
  then show ?case by (simp add: pages_ok_def page_blocks_def restore_marks_def)
next
  case (Begin_rewrite s st blocks version u)
  then show ?case by (simp add: pages_ok_def)
next
  case (Rewritten s u blocks version stored c)
  let ?l = "co_log (ss_core s)"
  have ok: "core_ok (ss_core s)" and tr: "core_tracked (ss_stored s) (ss_core s) (pm_rows (co_persist (ss_core s)))"
    and stored: "stored = take (lg_start ?l) (ss_stored s) @ blocks"
    using Rewritten.hyps(1,2) Rewritten.prems(1) by (auto simp: session_ok_def)
  obtain batch l' where l': "replace_all ?l blocks version = Some (batch, l')"
    and c: "co_log c = l'" "co_outbox c = co_outbox (ss_core s) @ [(pb_patches batch, log_version l')]"
    using Rewritten.hyps(3) by (auto simp: adopt_rewrite_def split: option.splits prod.splits)
  have fields: "lg_blocks l' = blocks" "lg_start l' = lg_start ?l"
    using l' by (auto simp: replace_all_def replace_from_def Let_def split: if_splits)
  have start: "lg_start ?l \<le> length (ss_stored s)" using trackedD(1) [OF tr [unfolded core_tracked_def]] .
  have "log_patches ?l = []" using ok by (simp add: core_ok_def)
  from page_replace [OF l' this, of "apply_patches (bare first) (concat (map fst (co_outbox (ss_core s))))"
      "take (lg_start ?l) (ss_stored s)"]
  show ?case
    using Rewritten.prems(2) start by (simp add: pages_ok_def page_blocks_def bare_def c fields stored)
next
  case (Rewrite_failed s u blocks version)
  then show ?case by (simp add: pages_ok_def)
next
  case (Reach s start vs e l)
  let ?l = "co_log (ss_core s)"
  have l: "lg_start l = start"
    "lg_blocks l = drop start (take (lg_start ?l) (ss_stored s)) @ lg_blocks ?l"
    using Reach.hyps(3) by (auto simp: extend_back_def split: if_splits)
  have "take start (ss_stored s) @ drop start (take (lg_start ?l) (ss_stored s)) = take (lg_start ?l) (ss_stored s)"
    using Reach.hyps(2) by (metis append_take_drop_id min.absorb1 take_take)
  then show ?case using Reach.prems(2) by (simp add: pages_ok_def page_blocks_def l flip: append_assoc)
qed

lemma pages_start: "start \<le> length stored \<Longrightarrow> pages_ok stored (session_start epoch stored start e)"
  by (simp add: pages_ok_def page_blocks_def session_start_def starting_at_def log_new_def comp_def)

lemma reaches_pages:
  assumes "reaches named (session_start epoch stored start e) s" "start \<le> length stored"
  shows "session_ok s \<and> pages_ok stored s"
  using assms(1) unfolding reaches_def
proof (induction rule: rtranclp_induct)
  case base
  show ?case using session_start_ok [OF assms(2)] pages_start [OF assms(2)] by blast
next
  case (step s t)
  then show ?case using saving_step_ok pages_step by blast
qed

end
