(* ===== verification/Samples.thy ===== *)
theory Samples imports Persist begin

text \<open>
  Concrete values the witnesses of the properties are stated at, and the definitions that evaluate
  the log's operations on them.
\<close>

definition sample_model :: model_selection where
  "sample_model =
     \<lparr>ms_provider_id = ''p'',
      ms_model = \<lparr>md_id = ''m'', md_name = ''M'', md_context_window = 200000, md_output_limit = None,
                  md_thinking = [], md_accepted_extensions = None\<rparr>,
      ms_thinking = None, ms_service_tier_id = None\<rparr>"

definition no_pictures :: "string \<Rightarrow> string list" where
  "no_pictures text = []"

text \<open>A user's message and the start of its answer, on an empty log.\<close>

definition sample_ops :: "log_op list" where
  "sample_ops =
     [PushUser (''u1'', 1) ''t1'' sample_model [CText ''hello''] [] None None,
      AppendText (''x1'', 2) 2 sample_model ''hi'',
      AppendText (''x2'', 3) 3 sample_model '' there'']"

definition sample_log :: log where
  "sample_log =
     append_text
       (append_text
          (push_user (log_new ''e'' []) (''u1'', 1) ''t1'' sample_model [CText ''hello''] [] None None)
          (''x1'', 2) 2 sample_model ''hi'')
       (''x2'', 3) 3 sample_model '' there''"

lemma sample_run: "run_steps (run_op no_pictures) sample_ops (log_new ''e'' []) = Some sample_log"
  by (simp add: sample_ops_def sample_log_def)

lemmas log_eval = push_defs append_block_def append_received_def Let_def log_new_def run_of_def
  request_of_def note_input_def note_end_def log_user_input_def input_before_def log_len_def
  journal_add_def move_from_def append_text_def append_to_last_def journal_append_text_def
  change_row_def

definition sample_user :: block where
  "sample_user = User
     \<lparr>block_id = ''u1'', created_at = 1, request = Some ''u1'', block_model = sample_model,
      u_turn_id = ''t1'', u_content = [CText ''hello''], u_comments = [], u_preamble = None,
      u_schedule = None, u_entries = []\<rparr>"

definition sample_text :: "string \<Rightarrow> timestamp \<Rightarrow> block" where
  "sample_text text ended = TextBlock
     \<lparr>block_id = ''x1'', created_at = 2, request = Some ''u1'', block_model = sample_model,
      t_text = text, t_ended_at = Some ended, t_forkable = False, t_code_files = None,
      t_pictures = None, t_entries = []\<rparr>"

definition sample_completed :: block where
  "sample_completed = TextBlock
     \<lparr>block_id = ''x3'', created_at = 5, request = Some ''u1'', block_model = sample_model,
      t_text = ''done'', t_ended_at = Some 6, t_forkable = True, t_code_files = None,
      t_pictures = None, t_entries = []\<rparr>"

definition sample_boundary :: block where
  "sample_boundary = CompactionBoundary
     \<lparr>block_id = ''b1'', created_at = 4, request = Some ''u1'', block_model = sample_model,
      b_summary = ''so far'', b_summary_tokens = 2, b_kept = [], b_entries = []\<rparr>"

lemma sample_log_eval:
  "lg_blocks sample_log = [sample_user, sample_text ''hi there'' 3]"
  "lg_start sample_log = 0" "lg_asking sample_log = Some (''t1'', True)"
  "log_patches sample_log = [PAdd 0 sample_user None, PAdd 1 (sample_text ''hi'' 2) None, PAppend 1 '' there'' 3]"
  "lg_versions sample_log = Map.empty"
  by (simp_all add: sample_log_def sample_user_def sample_text_def log_eval)

lemma sample_new_ok: "journal_ok (log_new ep [])" "synced [] [] (log_new ep [])"
  by (simp_all add: journal_ok_def log_new_def synced_def window_def)

text \<open>A session that wrote those blocks, saved them and was told so.\<close>

definition sample_start :: "unit session" where
  "sample_start = session_start ''e'' [] 0 no_earlier"

definition sample_state :: "unit checkpoint_state" where
  "sample_state = \<lparr>cs_phase = PhaseRunning, cs_rest = ()\<rparr>"

definition sample_changed :: "unit session" where
  "sample_changed = sample_start\<lparr>ss_core := commit ((ss_core sample_start)\<lparr>co_log := sample_log\<rparr>)\<rparr>"

lemma sample_start_log: "co_log (ss_core sample_start) = log_new ''e'' []"
  by (simp add: sample_start_def session_start_def starting_at_def log_new_def)

lemma sample_start_step: "saving_step no_pictures sample_start sample_changed"
  unfolding sample_changed_def
  by (rule Change [where ops = sample_ops]) (simp add: sample_start_log sample_run)

lemma sample_changed_facts:
  "reaches no_pictures sample_start sample_changed" "session_ok sample_changed"
  "ss_flight sample_changed = None" "pm_dirty (co_persist (ss_core sample_changed))"
  "lg_blocks (co_log (ss_core sample_changed)) = [sample_user, sample_text ''hi there'' 3]"
  "lg_start (co_log (ss_core sample_changed)) = 0"
proof -
  show reach: "reaches no_pictures sample_start sample_changed"
    unfolding reaches_def using sample_start_step by blast
  show "session_ok sample_changed"
    using reaches_ok [of no_pictures "''e''" "[]" 0 no_earlier sample_changed] reach by (simp add: sample_start_def)
  show "ss_flight sample_changed = None"
    by (simp add: sample_changed_def sample_start_def session_start_def)
  show "pm_dirty (co_persist (ss_core sample_changed))"
    by (simp add: sample_changed_def commit_def take_patches_def journal_take_def sample_log_eval)
  show "lg_blocks (co_log (ss_core sample_changed)) = [sample_user, sample_text ''hi there'' 3]"
    "lg_start (co_log (ss_core sample_changed)) = 0"
    by (simp_all add: sample_changed_def commit_fields sample_log_eval)
qed

lemma release_persist: "core_ok c \<Longrightarrow> co_persist (release_settled c) = co_persist c"
  by (simp add: release_settled_def Let_def commit_idle split: option.split)

lemma sample_saved:
  "\<exists>s. reaches no_pictures sample_start s \<and> ss_flight s = None \<and> \<not> pm_dirty (co_persist (ss_core s))
     \<and> ss_stored s = [sample_user, sample_text ''hi there'' 3]"
proof -
  note F = sample_changed_facts
  have core: "core_ok (ss_core sample_changed)"
    "core_tracked (ss_stored sample_changed) (ss_core sample_changed) (pm_rows (co_persist (ss_core sample_changed)))"
    using F(2,3) by (simp_all add: session_ok_None)
  obtain u where u: "prepare_checkpoint sample_state (ss_core sample_changed) =
      Some (Some (u, pm_rows (co_persist (ss_core sample_changed))),
        (ss_core sample_changed)\<lparr>co_persist := \<lparr>pm_dirty = False, pm_rows = no_rows, pm_recorded = PhaseRunning\<rparr>\<rparr>)"
    and saved: "store_save (ss_stored sample_changed) u = Some [sample_user, sample_text ''hi there'' 3]"
    using prepare_ok [OF core, of sample_state] F(4-6) by (auto simp: sample_state_def)
  let ?c = "(ss_core sample_changed)\<lparr>co_persist := \<lparr>pm_dirty = False, pm_rows = no_rows, pm_recorded = PhaseRunning\<rparr>\<rparr>"
  let ?s2 = "sample_changed\<lparr>ss_core := ?c, ss_flight := Some (Saving u (pm_rows (co_persist (ss_core sample_changed))))\<rparr>"
  let ?s3 = "?s2\<lparr>ss_core := release_settled ?c, ss_stored := [sample_user, sample_text ''hi there'' 3], ss_flight := None\<rparr>"
  have "saving_step no_pictures sample_changed ?s2" by (rule Begin_save [OF F(3) u])
  moreover have "saving_step no_pictures ?s2 ?s3"
    using Saved [of ?s2 u "pm_rows (co_persist (ss_core sample_changed))" _ no_pictures] saved by simp
  ultimately have "reaches no_pictures sample_start ?s3"
    using F(1) unfolding reaches_def by (meson rtranclp.rtrancl_into_rtrancl)
  moreover have "core_ok ?c" using core(1) by (simp add: core_ok_def)
  ultimately show ?thesis
    by (intro exI [of _ ?s3]) (simp add: release_persist)
qed

end
