(* ===== verification/Wire_Session.thy ===== *)
theory Wire_Session imports Rust_Std begin

text \<open>
  One end of the session a link keeps across its connections
  (\<open>crates/runner-protocol/src/wire/session.rs\<close>): it numbers the messages it writes, keeps each
  until the other end confirms it, and says what a frame it reads carries. Counters are natural
  numbers that travel in 64 bits, which no link comes to the end of. A time is a number of
  milliseconds and an argument of what reads the clock.
\<close>

definition ACK_DELAY :: nat where
  "ACK_DELAY = 10"

definition NUMBERED_HEAD_BYTES :: nat where
  "NUMBERED_HEAD_BYTES = 17"

definition OWN :: byte where
  "OWN = 0"

definition NUMBERED :: byte where
  "NUMBERED = 1"

definition ACK :: byte where
  "ACK = 2"

datatype carriage = ByConnection | Outlasting | Scoped

datatype wire_error =
    ShortFrame
  | BadKind byte
  | OverConfirmed nat nat
  | Regressed nat nat
  | Gap nat nat

datatype wire_read =
    ROwn "byte list"
  | RMessage "byte list"
  | RDuplicate
  | RSkipped
  | RAck

record wire_session =
  ws_confirmed :: nat
  ws_kept :: "(byte list \<times> bool) list"
  ws_cursor :: nat
  ws_received :: nat
  ws_next :: nat
  ws_owed :: "nat option"

definition new_session :: wire_session where
  "new_session = \<lparr>ws_confirmed = 0, ws_kept = [], ws_cursor = 0, ws_received = 0, ws_next = 0, ws_owed = None\<rparr>"

text \<open>\<open>get_or_insert_with\<close> on the time since which an acknowledgement is owed.\<close>

definition owe_since :: "nat \<Rightarrow> nat option \<Rightarrow> nat option" where
  "owe_since now owed = (case owed of Some since \<Rightarrow> Some since | None \<Rightarrow> Some now)"

definition handled :: "wire_session \<Rightarrow> nat \<Rightarrow> wire_session" where
  "handled s now = s\<lparr>ws_received := ws_received s + 1, ws_owed := owe_since now (ws_owed s)\<rparr>"

definition sent_count :: "wire_session \<Rightarrow> nat" where
  "sent_count s = ws_confirmed s + length (ws_kept s)"

definition accepts :: "wire_session \<Rightarrow> nat \<Rightarrow> bool" where
  "accepts s received = (ws_confirmed s \<le> received \<and> received \<le> sent_count s)"

definition unconfirmed :: "wire_session \<Rightarrow> nat" where
  "unconfirmed s = length (ws_kept s)"

definition restart :: "wire_session \<Rightarrow> wire_session" where
  "restart s = new_session"

definition u64_be :: "nat \<Rightarrow> byte list" where
  "u64_be n = be_bytes 8 n"

definition numbered_frame :: "nat \<Rightarrow> nat \<Rightarrow> byte list \<Rightarrow> byte list" where
  "numbered_frame seq ack message = NUMBERED # u64_be seq @ u64_be ack @ message"

definition session_frame :: "wire_session \<Rightarrow> nat \<Rightarrow> byte list \<Rightarrow> byte list \<times> wire_session" where
  "session_frame s seq message = (numbered_frame seq (ws_received s) message, s\<lparr>ws_owed := None\<rparr>)"

definition session_stamp :: "wire_session \<Rightarrow> byte list \<Rightarrow> bool \<Rightarrow> byte list \<times> wire_session" where
  "session_stamp s message again =
     (case session_frame s (sent_count s) message of
        (frame, s') \<Rightarrow> (frame, s'\<lparr>ws_kept := ws_kept s' @ [(message, again)]\<rparr>))"

definition read_again :: "wire_session \<Rightarrow> wire_session" where
  "read_again s = s\<lparr>ws_next := ws_received s\<rparr>"

definition release :: "wire_session \<Rightarrow> nat \<Rightarrow> wire_error + wire_session" where
  "release s confirmed =
     (if confirmed < ws_confirmed s then Inl (Regressed confirmed (ws_confirmed s))
      else if sent_count s < confirmed then Inl (OverConfirmed confirmed (sent_count s))
      else let n = confirmed - ws_confirmed s
           in Inr (s\<lparr>ws_confirmed := confirmed, ws_kept := drop n (ws_kept s), ws_cursor := ws_cursor s - n\<rparr>))"

definition session_resume :: "wire_session \<Rightarrow> nat \<Rightarrow> wire_error + wire_session" where
  "session_resume s received =
     (case release s received of
        Inl e \<Rightarrow> Inl e
      | Inr s' \<Rightarrow> Inr (read_again (s'\<lparr>ws_cursor := 0\<rparr>)))"

definition next_resend :: "wire_session \<Rightarrow> byte list option \<times> wire_session" where
  "next_resend s =
     (case get_at (ws_kept s) (ws_cursor s) of
        None \<Rightarrow> (None, s)
      | Some (message, again) \<Rightarrow>
          (case session_frame (s\<lparr>ws_cursor := ws_cursor s + 1\<rparr>) (ws_confirmed s + ws_cursor s)
                  (if again then message else []) of
             (frame, s') \<Rightarrow> (Some frame, s')))"

definition number_at :: "byte list \<Rightarrow> nat \<Rightarrow> nat option" where
  "number_at bytes at = (if length bytes < at + 8 then None else Some (be_nat (take 8 (drop at bytes))))"

definition read_numbered :: "wire_session \<Rightarrow> nat \<Rightarrow> nat \<Rightarrow> byte list \<Rightarrow> (wire_error + wire_read) \<times> wire_session" where
  "read_numbered s now seq message =
     (let s' = s\<lparr>ws_owed := owe_since now (ws_owed s)\<rparr>
      in if seq < ws_next s' then (Inr RDuplicate, s')
         else if ws_next s' < seq then (Inl (Gap seq (ws_next s')), s')
         else (Inr (if message = [] then RSkipped else RMessage message), s'\<lparr>ws_next := ws_next s' + 1\<rparr>))"

definition session_read :: "wire_session \<Rightarrow> nat \<Rightarrow> byte list \<Rightarrow> (wire_error + wire_read) \<times> wire_session" where
  "session_read s now frame =
     (case frame of
        [] \<Rightarrow> (Inl ShortFrame, s)
      | kind # rest \<Rightarrow>
          if kind = OWN then (Inr (ROwn rest), s)
          else if kind = ACK then
            (case number_at rest 0 of
               None \<Rightarrow> (Inl ShortFrame, s)
             | Some ack \<Rightarrow>
                 (case release s ack of Inl e \<Rightarrow> (Inl e, s) | Inr s' \<Rightarrow> (Inr RAck, s')))
          else if kind = NUMBERED then
            (case (number_at rest 0, number_at rest 8) of
               (Some seq, Some ack) \<Rightarrow>
                 (case release s ack of
                    Inl e \<Rightarrow> (Inl e, s)
                  | Inr s' \<Rightarrow> read_numbered s' now seq (drop 16 rest))
             | _ \<Rightarrow> (Inl ShortFrame, s))
          else (Inl (BadKind kind), s))"

definition ack_due :: "wire_session \<Rightarrow> nat option" where
  "ack_due s = map_option (\<lambda>since. since + ACK_DELAY) (ws_owed s)"

definition ack_bytes :: "nat \<Rightarrow> byte list" where
  "ack_bytes received = ACK # u64_be received"

definition ack_frame :: "wire_session \<Rightarrow> byte list option \<times> wire_session" where
  "ack_frame s =
     (case ws_owed s of
        None \<Rightarrow> (None, s)
      | Some _ \<Rightarrow> (Some (ack_bytes (ws_received s)), s\<lparr>ws_owed := None\<rparr>))"

definition own_frame :: "byte list \<Rightarrow> byte list" where
  "own_frame message = OWN # message"

section \<open>Reading what an end wrote\<close>

lemma u64_parts [simp]: "length (u64_be n) = 8" "n < 2 ^ 64 \<Longrightarrow> be_nat (u64_be n) = n"
  by (simp_all add: u64_be_def)

lemma read_own [simp]: "session_read s now (own_frame m) = (Inr (ROwn m), s)"
  by (simp add: session_read_def own_frame_def)

lemma read_ack:
  "ack < 2 ^ 64 \<Longrightarrow> session_read s now (ack_bytes ack) =
     (case release s ack of Inl e \<Rightarrow> (Inl e, s) | Inr s' \<Rightarrow> (Inr RAck, s'))"
  by (simp add: session_read_def ack_bytes_def number_at_def OWN_def ACK_def)

lemma read_numbered_frame:
  assumes "seq < 2 ^ 64" "ack < 2 ^ 64"
  shows "session_read s now (numbered_frame seq ack m) =
     (case release s ack of Inl e \<Rightarrow> (Inl e, s) | Inr s' \<Rightarrow> read_numbered s' now seq m)"
proof -
  have parts: "number_at (u64_be seq @ u64_be ack @ m) 0 = Some seq"
    "number_at (u64_be seq @ u64_be ack @ m) 8 = Some ack"
    "drop 16 (u64_be seq @ u64_be ack @ m) = m"
    using assms by (simp_all add: number_at_def)
  show ?thesis
    unfolding session_read_def numbered_frame_def
    by (cases "release s ack") (simp_all add: parts OWN_def ACK_def NUMBERED_def)
qed

lemma release_within:
  "accepts s n \<Longrightarrow> release s n = Inr (s\<lparr>ws_confirmed := n, ws_kept := drop (n - ws_confirmed s) (ws_kept s),
     ws_cursor := ws_cursor s - (n - ws_confirmed s)\<rparr>)"
  by (simp add: release_def accepts_def Let_def)

lemma release_accepts: "(\<exists>s'. release s n = Inr s') = accepts s n"
  by (auto simp: release_def accepts_def Let_def)

end
