(* ===== verification/Link.thy ===== *)
theory Link imports Wire_Session begin

text \<open>
  The link of a runner and the backend across its connections: two ends of a session and, while a
  connection stands, the frames on their way in each direction. The steps are what the two owners do
  with their session (\<open>LinkState\<close> of \<open>crates/runner/src/connection/link_state.rs\<close> with the writer of
  \<open>transport.rs\<close> and the reader of \<open>owner.rs\<close>; \<open>DeviceSession\<close> of
  \<open>crates/runner-client/src/session.rs\<close> with the loops of \<open>link.rs\<close>): a lost connection drops what
  was on its way and what was read and not handled, and the next one opens with the counts each end
  handled and writes again what follows. The life modelled is that of one session; an end that
  starts anew is a new one. The invariant shows that each end handles exactly the messages the other
  wrote, in order, none twice and none left out, but for those that end with their connection.
\<close>

datatype side = Backend | Runner

fun peer_of :: "side \<Rightarrow> side" where
  "peer_of Backend = Runner"
| "peer_of Runner = Backend"

lemma peer_of_peer_of [simp]: "peer_of (peer_of s) = s"
  by (cases s) simp_all

lemma peer_of_neq [simp]: "peer_of s \<noteq> s" "s \<noteq> peer_of s"
  by (cases s; simp)+

lemma side_cases: "t = s \<or> t = peer_of s"
  by (cases s; cases t) simp_all

text \<open>
  A frame on its way: the backend's answer to the hello with the count it received, or a frame of
  the session. What a side read and did not handle waits in its inbox, \<open>None\<close> a message that was
  not written again. \<open>lk_sent\<close> and \<open>lk_took\<close> are what a side wrote and handled, for the statements.
\<close>

datatype wire_item = Welcome nat | Wired "byte list"

record link =
  lk_end :: "side \<Rightarrow> wire_session"
  lk_wire :: "side \<Rightarrow> wire_item list"
  lk_inbox :: "side \<Rightarrow> byte list option list"
  lk_open :: "side \<Rightarrow> bool"
  lk_resending :: "side \<Rightarrow> bool"
  lk_sent :: "side \<Rightarrow> (byte list \<times> bool) list"
  lk_took :: "side \<Rightarrow> byte list option list"

definition link_start :: link where
  "link_start =
     \<lparr>lk_end = (\<lambda>_. new_session), lk_wire = (\<lambda>_. []), lk_inbox = (\<lambda>_. []), lk_open = (\<lambda>_. False),
      lk_resending = (\<lambda>_. False), lk_sent = (\<lambda>_. []), lk_took = (\<lambda>_. [])\<rparr>"

definition push_wire :: "link \<Rightarrow> side \<Rightarrow> byte list \<Rightarrow> wire_session \<Rightarrow> link" where
  "push_wire l s frame e =
     l\<lparr>lk_end := (lk_end l)(s := e), lk_wire := (lk_wire l)(s := lk_wire l s @ [Wired frame])\<rparr>"

definition take_read :: "wire_read \<Rightarrow> byte list option list \<Rightarrow> byte list option list" where
  "take_read r inbox =
     (case r of RMessage m \<Rightarrow> inbox @ [Some m] | RSkipped \<Rightarrow> inbox @ [None] | _ \<Rightarrow> inbox)"

inductive link_work :: "link \<Rightarrow> link \<Rightarrow> bool" where
  Write: "lk_open l s \<Longrightarrow> \<not> lk_resending l s \<Longrightarrow> length (lk_sent l s) < 2 ^ 64 - 1 \<Longrightarrow>
    session_stamp (lk_end l s) m again = (frame, e) \<Longrightarrow>
    link_work l ((push_wire l s frame e)\<lparr>lk_sent := (lk_sent l)(s := lk_sent l s @ [(m, again)])\<rparr>)"
| Write_own: "lk_open l s \<Longrightarrow> link_work l (push_wire l s (own_frame m) (lk_end l s))"
| Resend: "lk_open l s \<Longrightarrow> lk_resending l s \<Longrightarrow> next_resend (lk_end l s) = (Some frame, e) \<Longrightarrow>
    link_work l (push_wire l s frame e)"
| Resent: "lk_open l s \<Longrightarrow> lk_resending l s \<Longrightarrow> next_resend (lk_end l s) = (None, e) \<Longrightarrow>
    link_work l (l\<lparr>lk_resending := (lk_resending l)(s := False)\<rparr>)"
| Acknowledge: "lk_open l s \<Longrightarrow> \<not> lk_resending l s \<Longrightarrow> ack_frame (lk_end l s) = (Some frame, e) \<Longrightarrow>
    link_work l (push_wire l s frame e)"
| Read: "lk_open l s \<Longrightarrow> lk_wire l (peer_of s) = Wired frame # rest \<Longrightarrow>
    session_read (lk_end l s) now frame = (Inr r, e) \<Longrightarrow>
    link_work l (l\<lparr>lk_end := (lk_end l)(s := e), lk_wire := (lk_wire l)(peer_of s := rest),
      lk_inbox := (lk_inbox l)(s := take_read r (lk_inbox l s))\<rparr>)"
| Handle: "lk_open l s \<Longrightarrow> lk_inbox l s = d # ds \<Longrightarrow>
    link_work l (l\<lparr>lk_end := (lk_end l)(s := handled (lk_end l s) now), lk_inbox := (lk_inbox l)(s := ds),
      lk_took := (lk_took l)(s := lk_took l s @ [d])\<rparr>)"
| Drop: "link_work l (l\<lparr>lk_wire := (\<lambda>_. []), lk_inbox := (\<lambda>_. []), lk_open := (\<lambda>_. False),
      lk_resending := (\<lambda>_. False)\<rparr>)"

text \<open>
  A new connection: the backend answers the hello, which says how many messages the runner received,
  and the runner takes the answer.
\<close>

inductive link_step :: "link \<Rightarrow> link \<Rightarrow> bool" where
  Work: "link_work l l' \<Longrightarrow> link_step l l'"
| Hello: "\<not> lk_open l Backend \<Longrightarrow> session_resume (lk_end l Backend) (ws_received (lk_end l Runner)) = Inr e \<Longrightarrow>
    link_step l (l\<lparr>lk_end := (lk_end l)(Backend := e),
      lk_wire := (lk_wire l)(Backend := [Welcome (ws_received e)]),
      lk_open := (lk_open l)(Backend := True), lk_resending := (lk_resending l)(Backend := True)\<rparr>)"
| Welcomed: "lk_wire l Backend = Welcome n # rest \<Longrightarrow> session_resume (lk_end l Runner) n = Inr e \<Longrightarrow>
    link_step l (l\<lparr>lk_end := (lk_end l)(Runner := e), lk_wire := (lk_wire l)(Backend := rest),
      lk_open := (lk_open l)(Runner := True), lk_resending := (lk_resending l)(Runner := True)\<rparr>)"

inductive_cases link_workE: "link_work l l'"

section \<open>What is on its way\<close>

text \<open>What a side handled or holds for handling is what the other wrote at that place.\<close>

definition delivered :: "byte list option \<Rightarrow> byte list \<times> bool \<Rightarrow> bool" where
  "delivered d sent =
     (case d of Some m \<Rightarrow> m = fst sent \<and> m \<noteq> [] | None \<Rightarrow> \<not> snd sent \<or> fst sent = [])"

definition carried :: "byte list \<Rightarrow> byte list \<times> bool \<Rightarrow> bool" where
  "carried m sent = (m = fst sent \<or> (m = [] \<and> \<not> snd sent))"

text \<open>
  \<open>flow S cap seq lo frames seq'\<close>: the frames number the messages of \<open>S\<close> from \<open>seq\<close> to \<open>seq'\<close>, in
  order, and confirm counts that rise from \<open>lo\<close> and never pass \<open>cap\<close>.
\<close>

inductive flow :: "(byte list \<times> bool) list \<Rightarrow> nat \<Rightarrow> nat \<Rightarrow> nat \<Rightarrow> wire_item list \<Rightarrow> nat \<Rightarrow> bool" for S cap where
  flow_done: "lo \<le> cap \<Longrightarrow> flow S cap seq lo [] seq"
| flow_own: "flow S cap seq lo fs seq' \<Longrightarrow> flow S cap seq lo (Wired (own_frame m) # fs) seq'"
| flow_ack: "lo \<le> a \<Longrightarrow> flow S cap seq a fs seq' \<Longrightarrow> flow S cap seq lo (Wired (ack_bytes a) # fs) seq'"
| flow_numbered: "lo \<le> a \<Longrightarrow> seq < length S \<Longrightarrow> carried m (S ! seq) \<Longrightarrow> flow S cap (Suc seq) a fs seq' \<Longrightarrow>
    flow S cap seq lo (Wired (numbered_frame seq a m) # fs) seq'"

inductive_cases flow_nilE: "flow S cap seq lo [] seq'"

lemma flow_frameE:
  assumes "flow S cap seq lo (Wired f # fs) seq'"
  obtains (own) m where "f = own_frame m" "flow S cap seq lo fs seq'"
    | (ack) a where "f = ack_bytes a" "lo \<le> a" "flow S cap seq a fs seq'"
    | (numbered) a m where "f = numbered_frame seq a m" "lo \<le> a" "seq < length S" "carried m (S ! seq)"
        "flow S cap (Suc seq) a fs seq'"
  using assms by (cases rule: flow.cases) auto

lemma flow_bounds: "flow S cap seq lo fs seq' \<Longrightarrow> seq \<le> seq' \<and> lo \<le> cap"
  by (induction rule: flow.induct) auto

lemma flow_snoc:
  assumes "flow S cap seq lo fs seq'" "flow S cap seq' cap [f] seq''"
  shows "flow S cap seq lo (fs @ [f]) seq''"
  using assms
proof (induction rule: flow.induct)
  case (flow_done lo seq)
  from flow_done(2) show ?case
    by (cases rule: flow.cases) (auto intro: flow.intros elim!: flow_nilE simp: flow_done(1) intro: order_trans [OF flow_done(1)])
qed (auto intro: flow.intros)

lemma flow_own_one: "flow S cap seq cap [Wired (own_frame m)] seq"
  by (intro flow.intros order_refl)

lemma flow_ack_one: "flow S cap seq cap [Wired (ack_bytes cap)] seq"
  by (intro flow.intros order_refl)

lemma flow_numbered_one:
  "seq < length S \<Longrightarrow> carried m (S ! seq) \<Longrightarrow> flow S cap seq cap [Wired (numbered_frame seq cap m)] (Suc seq)"
  by (intro flow.intros order_refl)

lemma flow_more: "flow S cap seq lo fs seq' \<Longrightarrow> cap \<le> cap' \<Longrightarrow> flow (S @ T) cap' seq lo fs seq'"
  by (induction rule: flow.induct) (auto intro: flow.intros simp: nth_append)

lemma flow_cap: "flow S cap seq lo fs seq' \<Longrightarrow> cap \<le> cap' \<Longrightarrow> flow S cap' seq lo fs seq'"
  using flow_more [where T = "[]"] by simp

lemma flow_seq_end: "flow S cap seq lo fs seq' \<Longrightarrow> seq \<le> length S \<Longrightarrow> seq' \<le> length S"
  by (induction rule: flow.induct) auto

fun welcomed :: "wire_item list \<Rightarrow> wire_item list" where
  "welcomed (Welcome n # fs) = fs"
| "welcomed fs = fs"

lemma welcomed_snoc [simp]: "welcomed (w @ [Wired f]) = welcomed w @ [Wired f]"
  by (cases w rule: welcomed.cases) simp_all

lemma flow_wired: "flow S cap seq lo fs seq' \<Longrightarrow> welcomed fs = fs \<and> (\<forall>n fs'. fs \<noteq> Welcome n # fs')"
  by (cases rule: flow.cases) auto

section \<open>The invariant\<close>

text \<open>
  What holds of one direction whatever the connection does: what the writer keeps is what follows
  the confirmed count, confirmed is never more than handled, and what the reader handled and holds
  is what was written.
\<close>

definition way_stands ::
    "(byte list \<times> bool) list \<Rightarrow> wire_session \<Rightarrow> wire_session \<Rightarrow> byte list option list \<Rightarrow>
     byte list option list \<Rightarrow> bool" where
  "way_stands S es er took inbox =
     (length S < 2 ^ 64 \<and> ws_confirmed es \<le> ws_received er \<and> ws_kept es = drop (ws_confirmed es) S
      \<and> length took = ws_received er
      \<and> list_all2 delivered (took @ inbox) (take (ws_received er + length inbox) S))"

text \<open>What holds of it while the connection stands: the frames on their way go on where the reader is.\<close>

definition runs_on ::
    "(byte list \<times> bool) list \<Rightarrow> wire_session \<Rightarrow> wire_session \<Rightarrow> byte list option list \<Rightarrow> bool \<Rightarrow> bool \<Rightarrow>
     wire_item list \<Rightarrow> bool" where
  "runs_on S es er inbox reads resending fs =
     (flow S (ws_received es) (ws_received er + length inbox) (if reads then ws_confirmed er else ws_received es) fs
        (ws_confirmed es + (if resending then ws_cursor es else length (ws_kept es)))
      \<and> (resending \<longrightarrow> ws_cursor es \<le> length (ws_kept es)))"

definition way_ok :: "link \<Rightarrow> side \<Rightarrow> bool" where
  "way_ok l s =
     (way_stands (lk_sent l s) (lk_end l s) (lk_end l (peer_of s)) (lk_took l (peer_of s)) (lk_inbox l (peer_of s))
      \<and> (lk_open l s \<longrightarrow>
           runs_on (lk_sent l s) (lk_end l s) (lk_end l (peer_of s)) (lk_inbox l (peer_of s)) (lk_open l (peer_of s))
             (lk_resending l s) (welcomed (lk_wire l s))
           \<and> ws_next (lk_end l s) = ws_received (lk_end l s) + length (lk_inbox l s))
      \<and> (\<not> lk_open l s \<longrightarrow> lk_wire l s = [] \<and> lk_inbox l s = []))"

definition opening_ok :: "link \<Rightarrow> bool" where
  "opening_ok l =
     ((lk_open l Runner \<longrightarrow> lk_open l Backend)
      \<and> (lk_open l Backend \<and> \<not> lk_open l Runner \<longrightarrow> lk_inbox l Backend = []
           \<and> (\<exists>fs. lk_wire l Backend = Welcome (ws_received (lk_end l Backend)) # fs))
      \<and> (lk_open l Runner \<longrightarrow> (\<forall>n fs. lk_wire l Backend \<noteq> Welcome n # fs))
      \<and> (\<forall>n fs. lk_wire l Runner \<noteq> Welcome n # fs))"

definition link_ok :: "link \<Rightarrow> bool" where
  "link_ok l = (way_ok l Backend \<and> way_ok l Runner \<and> opening_ok l)"

lemma link_ok_way: "link_ok l \<Longrightarrow> way_ok l s"
  by (cases s) (simp_all add: link_ok_def)

lemma link_okI: "way_ok l s \<Longrightarrow> way_ok l (peer_of s) \<Longrightarrow> opening_ok l \<Longrightarrow> link_ok l"
  by (cases s) (simp_all add: link_ok_def)

lemma link_start_ok: "link_ok link_start"
  by (simp add: link_ok_def way_ok_def opening_ok_def way_stands_def link_start_def new_session_def)

lemma way_stands_bounds:
  assumes "way_stands S es er took inbox"
  shows "ws_received er + length inbox \<le> length S" "sent_count es = length S" "length S < 2 ^ 64"
proof -
  from assms have "length (took @ inbox) = length (take (ws_received er + length inbox) S)"
    by (auto simp: way_stands_def dest: list_all2_lengthD)
  with assms show "ws_received er + length inbox \<le> length S" by (simp add: way_stands_def)
  with assms show "sent_count es = length S" by (simp add: way_stands_def sent_count_def)
  show "length S < 2 ^ 64" using assms by (simp add: way_stands_def)
qed

lemma snoc_not_welcome: "(\<forall>n fs. w \<noteq> Welcome n # fs) \<Longrightarrow> w @ [Wired f] \<noteq> Welcome n # fs"
  by (cases w) auto

text \<open>A direction sees of its reader only what it handled and confirmed.\<close>

lemma read_by:
  assumes "ws_received e = ws_received er" "ws_confirmed e = ws_confirmed er"
  shows "way_stands S es e took inbox = way_stands S es er took inbox"
    "runs_on S es e inbox reads resending fs = runs_on S es er inbox reads resending fs"
  unfolding way_stands_def runs_on_def assms by (rule refl)+

lemma sent_by [simp]:
  "way_stands S (es\<lparr>ws_owed := x, ws_next := n\<rparr>) er took inbox = way_stands S es er took inbox"
  "runs_on S (es\<lparr>ws_owed := x, ws_next := n\<rparr>) er inbox reads resending fs = runs_on S es er inbox reads resending fs"
  unfolding way_stands_def runs_on_def by simp_all

lemma link_ok_push:
  assumes ok: "link_ok l" and "lk_open l s"
    and same: "ws_received e = ws_received (lk_end l s)" "ws_confirmed e = ws_confirmed (lk_end l s)"
      "ws_kept e = ws_kept (lk_end l s)" "ws_next e = ws_next (lk_end l s)"
    and goes: "flow (lk_sent l s) (ws_received (lk_end l s))
         (ws_confirmed (lk_end l s) + (if lk_resending l s then ws_cursor (lk_end l s) else length (ws_kept (lk_end l s))))
         (ws_received (lk_end l s)) [Wired f]
         (ws_confirmed e + (if lk_resending l s then ws_cursor e else length (ws_kept e)))"
    and cursor: "lk_resending l s \<Longrightarrow> ws_cursor e \<le> length (ws_kept e)"
  shows "link_ok (push_wire l s f e)"
proof (rule link_okI [where s = s])
  have "runs_on (lk_sent l s) e (lk_end l (peer_of s)) (lk_inbox l (peer_of s)) (lk_open l (peer_of s))
      (lk_resending l s) (welcomed (lk_wire l s) @ [Wired f])"
    unfolding runs_on_def same(1) using cursor link_ok_way [OF ok, of s] assms(2)
    by (intro conjI flow_snoc [OF _ goes]) (auto simp: way_ok_def runs_on_def)
  then show "way_ok (push_wire l s f e) s"
    using link_ok_way [OF ok, of s] assms(2) same
    unfolding way_ok_def push_wire_def way_stands_def by simp
  show "way_ok (push_wire l s f e) (peer_of s)"
    using link_ok_way [OF ok, of "peer_of s"] read_by [OF same(1,2)]
    unfolding way_ok_def push_wire_def by simp
  show "opening_ok (push_wire l s f e)"
    using ok assms(2) same unfolding link_ok_def opening_ok_def push_wire_def
    by (cases s) (auto simp: snoc_not_welcome)
qed

lemma link_ok_own: "link_ok l \<Longrightarrow> lk_open l s \<Longrightarrow> link_ok (push_wire l s (own_frame m) (lk_end l s))"
  using link_ok_way [of l s] by (intro link_ok_push) (auto simp: flow_own_one way_ok_def runs_on_def)

lemma link_ok_acknowledge:
  "link_ok l \<Longrightarrow> lk_open l s \<Longrightarrow> ack_frame (lk_end l s) = (Some f, e) \<Longrightarrow> link_ok (push_wire l s f e)"
  using link_ok_way [of l s]
  by (intro link_ok_push)
    (auto simp: ack_frame_def flow_ack_one way_ok_def runs_on_def split: option.splits)

lemma next_resend_facts:
  "next_resend s = (None, e) = (length (ws_kept s) \<le> ws_cursor s \<and> e = s)"
  "next_resend s = (Some f, e) =
     (ws_cursor s < length (ws_kept s)
      \<and> f = numbered_frame (ws_confirmed s + ws_cursor s) (ws_received s)
          (if snd (ws_kept s ! ws_cursor s) then fst (ws_kept s ! ws_cursor s) else [])
      \<and> e = s\<lparr>ws_cursor := ws_cursor s + 1, ws_owed := None\<rparr>)"
  by (auto simp: next_resend_def get_at_def session_frame_def split: prod.splits)

lemma link_ok_resend:
  assumes ok: "link_ok l" and "lk_open l s" "lk_resending l s" "next_resend (lk_end l s) = (Some f, e)"
  shows "link_ok (push_wire l s f e)"
proof -
  let ?es = "lk_end l s"
  from assms(4) have at: "ws_cursor ?es < length (ws_kept ?es)" and e: "e = ?es\<lparr>ws_cursor := ws_cursor ?es + 1, ws_owed := None\<rparr>"
    and f: "f = numbered_frame (ws_confirmed ?es + ws_cursor ?es) (ws_received ?es)
          (if snd (ws_kept ?es ! ws_cursor ?es) then fst (ws_kept ?es ! ws_cursor ?es) else [])"
    by (simp_all add: next_resend_facts)
  have kept: "ws_kept ?es = drop (ws_confirmed ?es) (lk_sent l s)"
    using link_ok_way [OF ok, of s] by (simp add: way_ok_def way_stands_def)
  have "ws_kept ?es ! ws_cursor ?es = lk_sent l s ! (ws_confirmed ?es + ws_cursor ?es)"
    "ws_confirmed ?es + ws_cursor ?es < length (lk_sent l s)"
    using at unfolding kept by auto
  then have "flow (lk_sent l s) (ws_received ?es) (ws_confirmed ?es + ws_cursor ?es) (ws_received ?es) [Wired f]
      (Suc (ws_confirmed ?es + ws_cursor ?es))"
    unfolding f by (intro flow_numbered_one) (auto simp: carried_def)
  then show ?thesis using assms at by (intro link_ok_push) (simp_all add: e)
qed

lemma link_ok_resent:
  assumes "link_ok l" "lk_open l s" "lk_resending l s" "next_resend (lk_end l s) = (None, e)"
  shows "link_ok (l\<lparr>lk_resending := (lk_resending l)(s := False)\<rparr>)"
proof (rule link_okI [where s = s])
  have "ws_cursor (lk_end l s) = length (ws_kept (lk_end l s))"
    using link_ok_way [OF assms(1), of s] assms by (auto simp: way_ok_def runs_on_def next_resend_facts)
  then show "way_ok (l\<lparr>lk_resending := (lk_resending l)(s := False)\<rparr>) s"
    using link_ok_way [OF assms(1), of s] assms(2,3) by (simp add: way_ok_def runs_on_def)
  show "way_ok (l\<lparr>lk_resending := (lk_resending l)(s := False)\<rparr>) (peer_of s)"
    using link_ok_way [OF assms(1), of "peer_of s"] by (simp add: way_ok_def runs_on_def)
  show "opening_ok (l\<lparr>lk_resending := (lk_resending l)(s := False)\<rparr>)"
    using assms(1) by (simp add: link_ok_def opening_ok_def)
qed

lemma link_ok_write:
  assumes ok: "link_ok l" and "lk_open l s" "\<not> lk_resending l s" "length (lk_sent l s) < 2 ^ 64 - 1"
    "session_stamp (lk_end l s) m again = (f, e)"
  shows "link_ok ((push_wire l s f e)\<lparr>lk_sent := (lk_sent l)(s := lk_sent l s @ [(m, again)])\<rparr>)"
    (is "link_ok ?l'")
proof (rule link_okI [where s = s])
  let ?es = "lk_end l s" and ?S = "lk_sent l s"
  have w: "way_stands ?S ?es (lk_end l (peer_of s)) (lk_took l (peer_of s)) (lk_inbox l (peer_of s))"
    using link_ok_way [OF ok, of s] by (simp add: way_ok_def)
  note b = way_stands_bounds [OF w]
  have e: "e = ?es\<lparr>ws_owed := None, ws_kept := ws_kept ?es @ [(m, again)]\<rparr>"
    and f: "f = numbered_frame (length ?S) (ws_received ?es) m"
    using assms(5) b(2) by (auto simp: session_stamp_def session_frame_def)
  have conf: "ws_confirmed ?es \<le> length ?S" "ws_confirmed ?es + length (ws_kept ?es) = length ?S"
    using w b(2) by (auto simp: sent_count_def)
  have "flow (?S @ [(m, again)]) (ws_received ?es) (length ?S) (ws_received ?es) [Wired f] (Suc (length ?S))"
    unfolding f by (intro flow_numbered_one) (simp_all add: carried_def)
  from flow_snoc [OF flow_more this, OF _ order_refl] have
    "runs_on (?S @ [(m, again)]) e (lk_end l (peer_of s)) (lk_inbox l (peer_of s)) (lk_open l (peer_of s)) False
        (welcomed (lk_wire l s) @ [Wired f])"
    using link_ok_way [OF ok, of s] assms(2,3) conf by (auto simp: way_ok_def runs_on_def e split: if_splits)
  moreover have "way_stands (?S @ [(m, again)]) e (lk_end l (peer_of s)) (lk_took l (peer_of s)) (lk_inbox l (peer_of s))"
    using w b(1) conf(1) assms(4) by (simp add: way_stands_def e)
  ultimately show "way_ok ?l' s"
    using link_ok_way [OF ok, of s] assms(2,3) by (simp add: way_ok_def push_wire_def e)
  show "way_ok ?l' (peer_of s)"
    using link_ok_way [OF ok, of "peer_of s"] read_by [of e ?es] by (simp add: way_ok_def push_wire_def e)
  show "opening_ok ?l'"
    using ok assms(2) unfolding link_ok_def opening_ok_def push_wire_def e
    by (cases s) (auto simp: snoc_not_welcome)
qed

text \<open>A confirmation between what was confirmed and what the reader handled is accepted.\<close>

lemma release_on_its_way:
  assumes st: "way_stands S es er took inbox" and run: "runs_on S es er inbox reads resending fs"
    and a: "ws_confirmed es \<le> a" "a \<le> ws_received er"
  obtains e where "release es a = Inr e" "ws_confirmed e = a" "ws_received e = ws_received es"
    "ws_next e = ws_next es" "way_stands S e er took inbox" "runs_on S e er inbox reads resending fs"
proof -
  let ?n = "a - ws_confirmed es"
  let ?e = "es\<lparr>ws_confirmed := a, ws_kept := drop ?n (ws_kept es), ws_cursor := ws_cursor es - ?n\<rparr>"
  note b = way_stands_bounds [OF st]
  have "accepts es a" using a b by (simp add: accepts_def)
  then have "release es a = Inr ?e" by (simp add: release_within)
  moreover have "way_stands S ?e er took inbox" using st a by (simp add: way_stands_def)
  moreover have "runs_on S ?e er inbox reads resending fs"
  proof (cases resending)
    case True
    then have "a \<le> ws_confirmed es + ws_cursor es" using run a flow_bounds by (fastforce simp: runs_on_def)
    with True run a show ?thesis by (auto simp: runs_on_def add.commute)
  next
    case False
    have "a \<le> ws_confirmed es + length (ws_kept es)" using a b by (simp add: sent_count_def)
    with False run a show ?thesis by (auto simp: runs_on_def add.commute)
  qed
  ultimately show thesis using that [of ?e] by simp
qed

lemma carried_delivered:
  "carried m sent \<Longrightarrow> delivered (if m = [] then None else Some m) sent"
  by (auto simp: carried_def delivered_def)

lemma way_stands_read:
  assumes "way_stands S es er took inbox" "ws_received er + length inbox < length S"
    "carried m (S ! (ws_received er + length inbox))"
  shows "way_stands S es er took (inbox @ [if m = [] then None else Some m])"
  using assms carried_delivered [OF assms(3)]
  by (simp add: way_stands_def take_Suc_conv_app_nth list_all2_appendI del: append_assoc add: append_assoc [symmetric])

text \<open>What reading a frame does to the two directions, whatever the frame is.\<close>

lemma read_on_its_way:
  assumes out: "way_stands S es er took inbox" "runs_on S es er inbox True resending fs"
    and inc: "way_stands S' er es took' inbox'" "runs_on S' er es inbox' True resending' (Wired f # rest)"
    and nxt: "ws_next es = ws_received es + length inbox'"
  obtains rd e where "session_read es now f = (Inr rd, e)" "ws_received e = ws_received es"
    "way_stands S e er took inbox" "runs_on S e er inbox True resending fs"
    "way_stands S' er e took' (take_read rd inbox')" "runs_on S' er e (take_read rd inbox') True resending' rest"
    "ws_next e = ws_received e + length (take_read rd inbox')"
proof -
  let ?seq' = "ws_confirmed er + (if resending' then ws_cursor er else length (ws_kept er))"
  have cur: "resending' \<longrightarrow> ws_cursor er \<le> length (ws_kept er)"
    using inc(2) by (simp add: runs_on_def)
  have "flow S' (ws_received er) (ws_received es + length inbox') (ws_confirmed es) (Wired f # rest) ?seq'"
    using inc(2) by (simp add: runs_on_def)
  then show thesis
  proof (cases rule: flow_frameE)
    case (own m)
    then show thesis using out inc nxt cur by (intro that [of "ROwn m" es]) (simp_all add: take_read_def runs_on_def)
  next
    case (ack a)
    then have le: "a \<le> ws_received er" by (auto dest: flow_bounds)
    then have small: "a < 2 ^ 64" using way_stands_bounds [OF out(1)] by linarith
    obtain e where e: "release es a = Inr e" "ws_confirmed e = a" "ws_received e = ws_received es"
        "ws_next e = ws_next es" "way_stands S e er took inbox" "runs_on S e er inbox True resending fs"
      by (rule release_on_its_way [OF out ack(2) le])
    have "runs_on S' er e inbox' True resending' rest" using ack cur e by (simp add: runs_on_def)
    moreover have "way_stands S' er e took' inbox'" using inc(1) e le by (simp add: way_stands_def)
    moreover have "session_read es now f = (Inr RAck, e)" using ack small e by (simp add: read_ack)
    ultimately show thesis using e nxt by (intro that [of RAck e]) (simp_all add: take_read_def)
  next
    case (numbered a m)
    then have le: "a \<le> ws_received er" by (auto dest: flow_bounds)
    let ?seq = "ws_received es + length inbox'" and ?rd = "if m = [] then RSkipped else RMessage m"
    have small: "a < 2 ^ 64" "?seq < 2 ^ 64"
      using way_stands_bounds [OF out(1)] way_stands_bounds [OF inc(1)] le numbered by linarith+
    obtain e where e: "release es a = Inr e" "ws_confirmed e = a" "ws_received e = ws_received es"
        "ws_next e = ws_next es" "way_stands S e er took inbox" "runs_on S e er inbox True resending fs"
      by (rule release_on_its_way [OF out numbered(2) le])
    let ?e = "e\<lparr>ws_owed := owe_since now (ws_owed e), ws_next := ws_next e + 1\<rparr>"
    have rd: "session_read es now f = (Inr ?rd, ?e)"
      using numbered(1) e nxt by (simp add: read_numbered_frame [OF small(2,1)] read_numbered_def)
    have box: "take_read ?rd inbox' = inbox' @ [if m = [] then None else Some m]" by (simp add: take_read_def)
    have "way_stands S' er es took' (take_read ?rd inbox')"
      unfolding box using inc(1) numbered by (intro way_stands_read) simp_all
    then have "way_stands S' er ?e took' (take_read ?rd inbox')" using e le by (simp add: way_stands_def)
    moreover have "runs_on S' er ?e (take_read ?rd inbox') True resending' rest"
      unfolding box using numbered cur e by (simp add: runs_on_def)
    moreover have "way_stands S ?e er took inbox" "runs_on S ?e er inbox True resending fs"
      using e by simp_all
    ultimately show thesis using rd e nxt by (intro that [of ?rd ?e]) (simp_all add: box)
  qed
qed

lemma both_open:
  assumes "link_ok l" "lk_open l s" "lk_wire l (peer_of s) = Wired f # rest \<or> lk_inbox l s \<noteq> []"
  shows "lk_open l (peer_of s)"
  using assms link_ok_way [OF assms(1), of "peer_of s"] unfolding link_ok_def way_ok_def opening_ok_def
  by (cases s) auto

lemma link_reads:
  assumes ok: "link_ok l" and s: "lk_open l s" "lk_wire l (peer_of s) = Wired f # rest"
  obtains rd e where "session_read (lk_end l s) now f = (Inr rd, e)"
    "link_ok (l\<lparr>lk_end := (lk_end l)(s := e), lk_wire := (lk_wire l)(peer_of s := rest),
      lk_inbox := (lk_inbox l)(s := take_read rd (lk_inbox l s))\<rparr>)"
proof -
  have o: "lk_open l (peer_of s)" using both_open [OF ok s(1), of f rest] s(2) by simp
  note w = link_ok_way [OF ok, of s] and v = link_ok_way [OF ok, of "peer_of s"]
  obtain rd e where r: "session_read (lk_end l s) now f = (Inr rd, e)" "ws_received e = ws_received (lk_end l s)"
    "way_stands (lk_sent l s) e (lk_end l (peer_of s)) (lk_took l (peer_of s)) (lk_inbox l (peer_of s))"
    "runs_on (lk_sent l s) e (lk_end l (peer_of s)) (lk_inbox l (peer_of s)) True (lk_resending l s) (welcomed (lk_wire l s))"
    "way_stands (lk_sent l (peer_of s)) (lk_end l (peer_of s)) e (lk_took l s) (take_read rd (lk_inbox l s))"
    "runs_on (lk_sent l (peer_of s)) (lk_end l (peer_of s)) e (take_read rd (lk_inbox l s)) True (lk_resending l (peer_of s)) rest"
    "ws_next e = ws_received e + length (take_read rd (lk_inbox l s))"
    by (rule read_on_its_way [where now = now]) (use w v s o in \<open>auto simp: way_ok_def\<close>)
  have rest: "welcomed rest = rest" "\<forall>n fs. rest \<noteq> Welcome n # fs"
    using r(6) flow_wired unfolding runs_on_def by blast+
  show thesis
  proof (rule that [OF r(1)], rule link_okI [where s = s], goal_cases)
    case 1
    then show ?case using w o s r by (simp add: way_ok_def)
  next
    case 2
    then show ?case using v o s r rest by (simp add: way_ok_def)
  next
    case 3
    then show ?case using ok o s r(2) rest(2) unfolding link_ok_def opening_ok_def by (cases s) auto
  qed
qed

lemma way_stands_handled:
  "way_stands S es er took (d # ds) \<Longrightarrow> way_stands S es (handled er now) (took @ [d]) ds"
  by (simp add: way_stands_def handled_def)

lemma link_ok_handle:
  assumes ok: "link_ok l" and s: "lk_open l s" "lk_inbox l s = d # ds"
  shows "link_ok (l\<lparr>lk_end := (lk_end l)(s := handled (lk_end l s) now), lk_inbox := (lk_inbox l)(s := ds),
      lk_took := (lk_took l)(s := lk_took l s @ [d])\<rparr>)" (is "link_ok ?l'")
proof (rule link_okI [where s = s])
  have o: "lk_open l (peer_of s)" using both_open [OF ok s(1)] s(2) by simp
  note w = link_ok_way [OF ok, of s] and v = link_ok_way [OF ok, of "peer_of s"]
  have "runs_on (lk_sent l s) (handled (lk_end l s) now) (lk_end l (peer_of s)) (lk_inbox l (peer_of s)) True
      (lk_resending l s) (welcomed (lk_wire l s))"
    using w s(1) o by (auto simp: way_ok_def runs_on_def handled_def dest: flow_cap [where cap' = "Suc (ws_received (lk_end l s))"])
  then show "way_ok ?l' s" using w s o by (simp add: way_ok_def way_stands_def handled_def)
  have "way_stands (lk_sent l (peer_of s)) (lk_end l (peer_of s)) (handled (lk_end l s) now) (lk_took l s @ [d]) ds"
    using v s(2) by (intro way_stands_handled) (simp add: way_ok_def)
  then show "way_ok ?l' (peer_of s)" using v s o by (simp add: way_ok_def runs_on_def handled_def)
  show "opening_ok ?l'" using ok o s unfolding link_ok_def opening_ok_def by (cases s) auto
qed

lemma way_stands_dropped: "way_stands S es er took inbox \<Longrightarrow> way_stands S es er took []"
  using list_all2_takeI [of delivered "took @ inbox" "take (ws_received er + length inbox) S" "length took"]
  by (auto simp: way_stands_def min_def)

lemma link_ok_drop:
  assumes "link_ok l"
  shows "link_ok (l\<lparr>lk_wire := (\<lambda>_. []), lk_inbox := (\<lambda>_. []), lk_open := (\<lambda>_. False), lk_resending := (\<lambda>_. False)\<rparr>)"
  using link_ok_way [OF assms, of Backend] link_ok_way [OF assms, of Runner]
  by (intro link_okI [where s = Backend]) (auto simp: way_ok_def opening_ok_def dest: way_stands_dropped)

lemma resume_accepted:
  assumes "way_stands S es er took inbox"
  obtains e where "session_resume es (ws_received er) = Inr e" "ws_confirmed e = ws_received er"
    "ws_received e = ws_received es" "ws_next e = ws_received es" "ws_cursor e = 0"
    "ws_kept e = drop (ws_received er) S"
proof -
  note b = way_stands_bounds [OF assms]
  have c: "ws_confirmed es \<le> ws_received er" "ws_kept es = drop (ws_confirmed es) S"
    using assms by (simp_all add: way_stands_def)
  have "accepts es (ws_received er)" using b c(1) by (simp add: accepts_def)
  with c show thesis
    by (intro that [of "read_again ((es\<lparr>ws_confirmed := ws_received er,
        ws_kept := drop (ws_received er - ws_confirmed es) (ws_kept es),
        ws_cursor := ws_cursor es - (ws_received er - ws_confirmed es)\<rparr>)\<lparr>ws_cursor := 0\<rparr>)"])
      (simp_all add: session_resume_def release_within read_again_def)
qed

lemma link_hello:
  assumes ok: "link_ok l" and closed: "\<not> lk_open l Backend"
  obtains e where "session_resume (lk_end l Backend) (ws_received (lk_end l Runner)) = Inr e"
    "link_ok (l\<lparr>lk_end := (lk_end l)(Backend := e), lk_wire := (lk_wire l)(Backend := [Welcome (ws_received e)]),
      lk_open := (lk_open l)(Backend := True), lk_resending := (lk_resending l)(Backend := True)\<rparr>)"
proof -
  note w = link_ok_way [OF ok, of Backend] and v = link_ok_way [OF ok, of Runner]
  have r: "\<not> lk_open l Runner" "lk_inbox l Runner = []" "lk_inbox l Backend = []" "lk_wire l Runner = []"
    using ok closed w v by (auto simp: link_ok_def opening_ok_def way_ok_def)
  have "way_stands (lk_sent l Backend) (lk_end l Backend) (lk_end l Runner) (lk_took l Runner) (lk_inbox l Runner)"
    using w by (simp add: way_ok_def)
  from resume_accepted [OF this] obtain e where e:
    "session_resume (lk_end l Backend) (ws_received (lk_end l Runner)) = Inr e"
    "ws_confirmed e = ws_received (lk_end l Runner)" "ws_received e = ws_received (lk_end l Backend)"
    "ws_next e = ws_received (lk_end l Backend)" "ws_cursor e = 0"
    "ws_kept e = drop (ws_received (lk_end l Runner)) (lk_sent l Backend)"
    by blast
  show thesis
    using w v r e
    by (intro that [OF e(1)] link_okI [where s = Backend])
      (auto simp: way_ok_def way_stands_def runs_on_def opening_ok_def intro: flow_done)
qed

lemma link_welcomed:
  assumes ok: "link_ok l" and wire: "lk_wire l Backend = Welcome n # rest"
  obtains e where "session_resume (lk_end l Runner) n = Inr e"
    "link_ok (l\<lparr>lk_end := (lk_end l)(Runner := e), lk_wire := (lk_wire l)(Backend := rest),
      lk_open := (lk_open l)(Runner := True), lk_resending := (lk_resending l)(Runner := True)\<rparr>)"
proof -
  note w = link_ok_way [OF ok, of Backend] and v = link_ok_way [OF ok, of Runner]
  have r: "\<not> lk_open l Runner" "lk_open l Backend" using ok wire w by (auto simp: link_ok_def opening_ok_def way_ok_def)
  then have n: "n = ws_received (lk_end l Backend)" "lk_inbox l Backend = []" "lk_inbox l Runner = []" "lk_wire l Runner = []"
    using ok wire v by (auto simp: link_ok_def opening_ok_def way_ok_def)
  have "way_stands (lk_sent l Runner) (lk_end l Runner) (lk_end l Backend) (lk_took l Backend) (lk_inbox l Backend)"
    using v by (simp add: way_ok_def)
  from resume_accepted [OF this] obtain e where e: "session_resume (lk_end l Runner) n = Inr e"
    "ws_confirmed e = n" "ws_received e = ws_received (lk_end l Runner)"
    "ws_next e = ws_received (lk_end l Runner)" "ws_cursor e = 0" "ws_kept e = drop n (lk_sent l Runner)"
    unfolding n(1) by blast
  have "runs_on (lk_sent l Backend) (lk_end l Backend) (lk_end l Runner) (lk_inbox l Runner) False
      (lk_resending l Backend) rest"
    using w r wire by (simp add: way_ok_def)
  with e n have run: "runs_on (lk_sent l Backend) (lk_end l Backend) e (lk_inbox l Runner) True (lk_resending l Backend) rest"
    by (simp add: runs_on_def)
  then have "welcomed rest = rest" "\<forall>n fs. rest \<noteq> Welcome n # fs"
    using flow_wired unfolding runs_on_def by blast+
  with w v r e n run ok show thesis
    by (intro that [OF e(1)] link_okI [where s = Runner])
      (auto simp: way_ok_def way_stands_def runs_on_def opening_ok_def link_ok_def intro: flow_done)
qed

lemma link_work_ok: "link_work l l' \<Longrightarrow> link_ok l \<Longrightarrow> link_ok l'"
proof (induction rule: link_work.induct)
  case (Read l s f rest now r e)
  from link_reads [OF Read(4,1,2), of now] Read(3) show ?case by auto
qed (auto intro: link_ok_write link_ok_own link_ok_resend link_ok_resent link_ok_acknowledge link_ok_handle link_ok_drop)

lemma link_step_ok: "link_step l l' \<Longrightarrow> link_ok l \<Longrightarrow> link_ok l'"
proof (induction rule: link_step.induct)
  case (Hello l e)
  from link_hello [OF Hello(3,1)] Hello(2) show ?case by auto
next
  case (Welcomed l n rest e)
  from link_welcomed [OF Welcomed(3,1)] Welcomed(2) show ?case by auto
qed (auto intro: link_work_ok)

lemma link_reaches_ok: "link_step\<^sup>*\<^sup>* link_start l \<Longrightarrow> link_ok l"
  by (induction rule: rtranclp_induct) (auto intro: link_start_ok link_step_ok)

lemma link_took:
  assumes "link_ok l"
  shows "length (lk_took l (peer_of s)) \<le> length (lk_sent l s)
    \<and> list_all2 delivered (lk_took l (peer_of s)) (take (length (lk_took l (peer_of s))) (lk_sent l s))"
proof -
  have st: "way_stands (lk_sent l s) (lk_end l s) (lk_end l (peer_of s)) (lk_took l (peer_of s)) (lk_inbox l (peer_of s))"
    using link_ok_way [OF assms, of s] by (simp add: way_ok_def)
  from way_stands_bounds(1) [OF this] way_stands_dropped [OF st] show ?thesis by (simp add: way_stands_def)
qed

section \<open>Nothing is lost for good\<close>

text \<open>
  Measured by what is left to write again, to read and to handle, every state with both ends open
  has a step to a smaller one, until nothing is left; a connection can always be opened anew.
\<close>

definition left_to_write :: "wire_session \<Rightarrow> nat" where
  "left_to_write e = length (ws_kept e) - ws_cursor e"

lemma session_read_left: "session_read e now f = (Inr rd, e') \<Longrightarrow> left_to_write e' \<le> left_to_write e"
  by (auto simp: session_read_def left_to_write_def release_def read_numbered_def Let_def
      split: list.splits if_splits option.splits)

lemma take_read_length: "length (take_read rd inbox) \<le> Suc (length inbox)"
  by (cases rd) (simp_all add: take_read_def)

definition side_left :: "link \<Rightarrow> side \<Rightarrow> nat" where
  "side_left l s = 3 * left_to_write (lk_end l s) + of_bool (lk_resending l s) + 2 * length (lk_wire l s)
     + length (lk_inbox l s)"

definition link_left :: "link \<Rightarrow> nat" where
  "link_left l = side_left l Backend + side_left l Runner"

lemma link_left_sides: "link_left l = side_left l s + side_left l (peer_of s)"
  by (cases s) (simp_all add: link_left_def)

definition served :: "link \<Rightarrow> bool" where
  "served l = (link_ok l \<and> lk_open l Backend \<and> lk_open l Runner)"

definition quiet :: "link \<Rightarrow> side \<Rightarrow> bool" where
  "quiet l s = (\<not> lk_resending l s \<and> lk_wire l (peer_of s) = [] \<and> lk_inbox l s = [])"

lemma served_open: "served l \<Longrightarrow> lk_open l s"
  by (cases s) (simp_all add: served_def)

lemma no_welcome: "served l \<Longrightarrow> lk_wire l s \<noteq> Welcome n # fs"
  by (cases s) (simp_all add: served_def link_ok_def opening_ok_def)

lemma served_step:
  assumes "served l" "\<not> quiet l s"
  shows "\<exists>l'. link_step l l' \<and> served l' \<and> link_left l' < link_left l \<and> lk_sent l' = lk_sent l"
proof -
  have ok: "link_ok l" and o: "lk_open l s" using assms(1) served_open [OF assms(1)] by (simp_all add: served_def)
  consider (again) "lk_resending l s" | (handle) d ds where "lk_inbox l s = d # ds"
    | (read) f rest where "lk_wire l (peer_of s) = Wired f # rest"
  proof (cases "lk_resending l s")
    case False
    show thesis
    proof (cases "lk_wire l (peer_of s)")
      case Nil
      with False assms(2) that(2) show thesis by (cases "lk_inbox l s") (auto simp: quiet_def)
    next
      case (Cons f rest)
      with no_welcome [OF assms(1)] that(3) show thesis by (cases f) auto
    qed
  qed (rule that(1))
  then show ?thesis
  proof cases
    case again
    obtain f e where ne: "next_resend (lk_end l s) = (f, e)" by fastforce
    show ?thesis
    proof (cases f)
      case None
      let ?l' = "l\<lparr>lk_resending := (lk_resending l)(s := False)\<rparr>"
      have "link_step l ?l'" using link_step.Work [OF Resent [OF o again]] ne None by simp
      moreover have "link_left ?l' < link_left l"
        using again by (simp add: link_left_sides [of _ s] side_left_def)
      ultimately show ?thesis using link_step_ok [OF _ ok, of ?l'] assms(1) by (intro exI [of _ ?l']) (simp add: served_def)
    next
      case (Some fr)
      let ?l' = "push_wire l s fr e"
      have "link_step l ?l'" using link_step.Work [OF Resend [OF o again]] ne Some by simp
      moreover have "link_left ?l' < link_left l"
        using ne Some by (auto simp: link_left_sides [of _ s] side_left_def push_wire_def next_resend_facts left_to_write_def)
      ultimately show ?thesis using link_step_ok [OF _ ok, of ?l'] assms(1)
        by (intro exI [of _ ?l']) (simp add: served_def push_wire_def)
    qed
  next
    case (handle d ds)
    let ?l' = "l\<lparr>lk_end := (lk_end l)(s := handled (lk_end l s) 0), lk_inbox := (lk_inbox l)(s := ds),
      lk_took := (lk_took l)(s := lk_took l s @ [d])\<rparr>"
    have "link_step l ?l'" by (rule link_step.Work [OF Handle [OF o handle]])
    moreover have "link_left ?l' < link_left l"
      using handle by (simp add: link_left_sides [of _ s] side_left_def handled_def left_to_write_def)
    ultimately show ?thesis using link_step_ok [OF _ ok, of ?l'] assms(1) by (intro exI [of _ ?l']) (simp add: served_def)
  next
    case (read f rest)
    obtain rd e where r: "session_read (lk_end l s) 0 f = (Inr rd, e)" using link_reads [OF ok o read] by metis
    let ?l' = "l\<lparr>lk_end := (lk_end l)(s := e), lk_wire := (lk_wire l)(peer_of s := rest),
      lk_inbox := (lk_inbox l)(s := take_read rd (lk_inbox l s))\<rparr>"
    have "link_step l ?l'" by (rule link_step.Work [OF Read [OF o read r]])
    moreover have "link_left ?l' < link_left l"
      using read session_read_left [OF r] take_read_length [of rd "lk_inbox l s"]
      by (simp add: link_left_sides [of _ s] side_left_def)
    ultimately show ?thesis using link_step_ok [OF _ ok, of ?l'] assms(1) by (intro exI [of _ ?l']) (simp add: served_def)
  qed
qed

lemma served_settles:
  "served l \<Longrightarrow> \<exists>l'. link_step\<^sup>*\<^sup>* l l' \<and> served l' \<and> (\<forall>s. quiet l' s) \<and> lk_sent l' = lk_sent l"
proof (induction "link_left l" arbitrary: l rule: less_induct)
  case less
  show ?case
  proof (cases "\<forall>s. quiet l s")
    case True
    with less.prems show ?thesis by blast
  next
    case False
    then obtain s where "\<not> quiet l s" by blast
    from served_step [OF less.prems this] obtain m where m: "link_step l m" "served m" "link_left m < link_left l"
      "lk_sent m = lk_sent l" by blast
    from less.hyps [OF m(3,2)] show ?thesis using m(1,4) by (metis converse_rtranclp_into_rtranclp)
  qed
qed

lemma quiet_took_all:
  assumes "served l" "\<forall>s. quiet l s"
  shows "length (lk_took l (peer_of s)) = length (lk_sent l s)"
proof -
  have w: "way_ok l s" using assms(1) link_ok_way by (simp add: served_def)
  have "\<not> lk_resending l s" "lk_wire l s = []" "lk_inbox l (peer_of s) = []"
    using assms(2)[rule_format, of s] assms(2)[rule_format, of "peer_of s"] by (simp_all add: quiet_def)
  with w served_open [OF assms(1)] have
    "ws_received (lk_end l (peer_of s)) = sent_count (lk_end l s)"
    "way_stands (lk_sent l s) (lk_end l s) (lk_end l (peer_of s)) (lk_took l (peer_of s)) []"
    by (auto simp: way_ok_def runs_on_def sent_count_def elim: flow_nilE)
  with way_stands_bounds(2) [OF this(2)] show ?thesis by (simp add: way_stands_def)
qed

lemma link_opens:
  assumes "link_ok l"
  shows "\<exists>l'. link_step\<^sup>*\<^sup>* l l' \<and> served l' \<and> lk_sent l' = lk_sent l"
proof -
  let ?d = "l\<lparr>lk_wire := (\<lambda>_. []), lk_inbox := (\<lambda>_. []), lk_open := (\<lambda>_. False), lk_resending := (\<lambda>_. False)\<rparr>"
  have d: "link_step l ?d" "link_ok ?d" using link_ok_drop [OF assms] by (auto intro: link_step.Work Drop)
  obtain e where e: "session_resume (lk_end ?d Backend) (ws_received (lk_end ?d Runner)) = Inr e"
    using link_hello [OF d(2)] by auto
  let ?h = "?d\<lparr>lk_end := (lk_end ?d)(Backend := e), lk_wire := (lk_wire ?d)(Backend := [Welcome (ws_received e)]),
      lk_open := (lk_open ?d)(Backend := True), lk_resending := (lk_resending ?d)(Backend := True)\<rparr>"
  have h: "link_step ?d ?h" by (rule Hello [OF _ e]) simp
  then have hok: "link_ok ?h" using d(2) link_step_ok by blast
  have wire: "lk_wire ?h Backend = Welcome (ws_received e) # []" by simp
  obtain e' where e': "session_resume (lk_end ?h Runner) (ws_received e) = Inr e'"
    by (rule link_welcomed [OF hok wire])
  let ?w = "?h\<lparr>lk_end := (lk_end ?h)(Runner := e'), lk_wire := (lk_wire ?h)(Backend := []),
      lk_open := (lk_open ?h)(Runner := True), lk_resending := (lk_resending ?h)(Runner := True)\<rparr>"
  have w: "link_step ?h ?w" by (rule Welcomed [OF wire e'])
  then have "served ?w" using link_step_ok [OF w hok] by (simp add: served_def)
  moreover have "link_step\<^sup>*\<^sup>* l ?w" using d(1) h w by (meson rtranclp.rtrancl_into_rtrancl r_into_rtranclp)
  ultimately show ?thesis by (intro exI [of _ ?w]) simp
qed

lemma link_delivers:
  assumes "link_ok l"
  shows "\<exists>l'. link_step\<^sup>*\<^sup>* l l' \<and> link_ok l' \<and> lk_sent l' = lk_sent l
    \<and> (\<forall>s. length (lk_took l' (peer_of s)) = length (lk_sent l s))"
proof -
  obtain m where m: "link_step\<^sup>*\<^sup>* l m" "served m" "lk_sent m = lk_sent l" using link_opens [OF assms] by blast
  obtain l' where l': "link_step\<^sup>*\<^sup>* m l'" "served l'" "\<forall>s. quiet l' s" "lk_sent l' = lk_sent m"
    using served_settles [OF m(2)] by blast
  from m l' quiet_took_all [OF l'(2,3)] show ?thesis
    by (intro exI [of _ l']) (auto simp: served_def)
qed

end
