(* ===== verification/Handshake.thy ===== *)
theory Handshake imports Link begin

text \<open>
  How a runner and the backend agree on the session a new connection carries on: the runner's
  \<open>LinkState\<close> (\<open>crates/runner/src/connection/link_state.rs\<close>) and the backend's \<open>DeviceSession\<close>
  (\<open>crates/runner-client/src/session.rs\<close>). The backend names its session with a number it draws, an
  argument of \<open>begin_session\<close>; the runner's hello names it again. Both may start anew at any time.
  A frame in a backlog is a parameter of the types.
\<close>

text \<open>The constants of the two files are the reasons calls end with.\<close>

definition SESSION_RESTARTED :: string where
  "SESSION_RESTARTED = ''the backend started a new session for the link''"

definition NOT_RESUMED :: string where
  "NOT_RESUMED = ''the link could not resume its session''"

definition RUNNER_RESTARTED_CALLS :: string where
  "RUNNER_RESTARTED_CALLS = ''the device's runner started anew''"

datatype resume = ResumeOf (re_session: nat) (re_received: nat)

record 'f link_state =
  ls_session :: wire_session
  ls_number :: "nat option"
  ls_ended :: "string option"
  ls_backlog :: "'f list"

definition new_link_state :: "'f link_state" where
  "new_link_state = \<lparr>ls_session = new_session, ls_number = None, ls_ended = None, ls_backlog = []\<rparr>"

definition link_resume :: "'f link_state \<Rightarrow> resume option" where
  "link_resume st = map_option (\<lambda>n. ResumeOf n (ws_received (ls_session st))) (ls_number st)"

definition link_restart :: "'f link_state \<Rightarrow> string option \<Rightarrow> 'f link_state" where
  "link_restart st reason =
     (let st' = st\<lparr>ls_session := restart (ls_session st), ls_backlog := []\<rparr>
      in case reason of None \<Rightarrow> st' | Some r \<Rightarrow> st'\<lparr>ls_ended := Some r\<rparr>)"

definition hello_ok :: "'f link_state \<Rightarrow> nat \<Rightarrow> nat \<Rightarrow> 'f link_state" where
  "hello_ok st number received =
     (let resumed =
        (if ls_number st = Some number \<and> accepts (ls_session st) received
         then (case session_resume (ls_session st) received of Inr s \<Rightarrow> Some s | Inl _ \<Rightarrow> None)
         else None)
      in case resumed of
           Some s \<Rightarrow> st\<lparr>ls_session := s, ls_number := Some number\<rparr>
         | None \<Rightarrow>
             (link_restart st
                (case ls_number st of
                   None \<Rightarrow> None
                 | Some previous \<Rightarrow> Some (if previous = number then NOT_RESUMED else SESSION_RESTARTED)))
             \<lparr>ls_number := Some number\<rparr>)"

definition link_claimed :: "'f link_state \<Rightarrow> nat \<Rightarrow> 'f link_state" where
  "link_claimed st number = (link_restart st None)\<lparr>ls_number := Some number\<rparr>"

definition take_ended :: "'f link_state \<Rightarrow> string option \<times> 'f link_state" where
  "take_ended st = (ls_ended st, st\<lparr>ls_ended := None\<rparr>)"

definition link_handled :: "'f link_state \<Rightarrow> nat \<Rightarrow> 'f link_state" where
  "link_handled st now = st\<lparr>ls_session := handled (ls_session st) now\<rparr>"

datatype beginning = Resumed nat | Started

definition beginning_received :: "beginning \<Rightarrow> nat" where
  "beginning_received b = (case b of Resumed received \<Rightarrow> received | Started \<Rightarrow> 0)"

text \<open>
  A call is its id and the job it belongs to; \<open>ds_lost\<close> lists, for each call the session stopped, its
  id, the reason and whether it comes back to the next session.
\<close>

record 'f device_session =
  ds_number :: nat
  ds_numbers :: wire_session
  ds_instance :: "nat option"
  ds_calls :: "(string \<times> string) list"
  ds_backlog :: "'f list"
  ds_lost :: "(string \<times> string \<times> bool) list"

definition new_device_session :: "'f device_session" where
  "new_device_session =
     \<lparr>ds_number = 0, ds_numbers = new_session, ds_instance = None, ds_calls = [], ds_backlog = [], ds_lost = []\<rparr>"

definition resumes :: "'f device_session \<Rightarrow> nat \<Rightarrow> resume option \<Rightarrow> bool" where
  "resumes d inst resume =
     (case resume of
        None \<Rightarrow> False
      | Some r \<Rightarrow> ds_instance d = Some inst \<and> re_session r = ds_number d \<and> accepts (ds_numbers d) (re_received r))"

definition stop_calls :: "'f device_session \<Rightarrow> string \<Rightarrow> bool \<Rightarrow> 'f device_session" where
  "stop_calls d reason returns =
     d\<lparr>ds_calls := [], ds_lost := ds_lost d @ map (\<lambda>(call, _). (call, reason, returns)) (ds_calls d)\<rparr>"

definition device_restart :: "'f device_session \<Rightarrow> string option \<Rightarrow> bool \<Rightarrow> 'f device_session" where
  "device_restart d reason returns =
     (let d' = d\<lparr>ds_numbers := restart (ds_numbers d), ds_backlog := []\<rparr>
      in case reason of None \<Rightarrow> d' | Some r \<Rightarrow> stop_calls d' r returns)"

definition begin_anew :: "'f device_session \<Rightarrow> nat \<Rightarrow> nat \<Rightarrow> beginning \<times> 'f device_session" where
  "begin_anew d inst fresh =
     (let reason =
        (case ds_instance d of
           None \<Rightarrow> None
         | Some previous \<Rightarrow>
             Some (if previous \<noteq> inst then RUNNER_RESTARTED_CALLS else ''the runner did not resume the link's session''))
      in (Started, (device_restart (d\<lparr>ds_instance := Some inst\<rparr>) reason True)\<lparr>ds_number := fresh\<rparr>))"

definition begin_session ::
    "'f device_session \<Rightarrow> nat \<Rightarrow> resume option \<Rightarrow> nat \<Rightarrow> beginning \<times> 'f device_session" where
  "begin_session d inst resume fresh =
     (case resume of
        Some r \<Rightarrow>
          if resumes d inst resume then
            (case session_resume (ds_numbers d) (re_received r) of
               Inr s \<Rightarrow> (Resumed (ws_received s), d\<lparr>ds_numbers := s\<rparr>)
             | Inl _ \<Rightarrow> begin_anew d inst fresh)
          else begin_anew d inst fresh
      | None \<Rightarrow> begin_anew d inst fresh)"

definition end_session :: "'f device_session \<Rightarrow> string \<Rightarrow> 'f device_session" where
  "end_session d reason = device_restart (d\<lparr>ds_instance := None\<rparr>) (Some reason) False"

definition add_call :: "'f device_session \<Rightarrow> string \<Rightarrow> string \<Rightarrow> bool \<times> 'f device_session" where
  "add_call d call job =
     (if map_of (ds_calls d) call \<noteq> None then (False, d) else (True, d\<lparr>ds_calls := ds_calls d @ [(call, job)]\<rparr>))"

definition remove_call :: "'f device_session \<Rightarrow> string \<Rightarrow> string option \<times> 'f device_session" where
  "remove_call d call = (map_of (ds_calls d) call, d\<lparr>ds_calls := filter (\<lambda>(c, _). c \<noteq> call) (ds_calls d)\<rparr>)"

definition calls_of :: "'f device_session \<Rightarrow> string \<Rightarrow> string list" where
  "calls_of d job = map fst (filter (\<lambda>(_, j). j = job) (ds_calls d))"

section \<open>What a beginning does\<close>

lemma begin_resumed:
  "begin_session d inst resume fresh = (Resumed n, d') \<longleftrightarrow>
     (\<exists>r s. resume = Some r \<and> resumes d inst resume \<and> session_resume (ds_numbers d) (re_received r) = Inr s
        \<and> n = ws_received s \<and> d' = d\<lparr>ds_numbers := s\<rparr>)"
  by (auto simp: begin_session_def begin_anew_def split: option.splits sum.splits)

lemma begin_started:
  "begin_session d inst resume fresh = (Started, d') \<Longrightarrow>
     ds_numbers d' = new_session \<and> ds_number d' = fresh \<and> ds_instance d' = Some inst \<and> ds_backlog d' = []"
  by (auto simp: begin_session_def begin_anew_def device_restart_def stop_calls_def restart_def Let_def
      split: option.splits sum.splits if_splits)

lemma hello_resumed:
  "ls_number st = Some number \<Longrightarrow> session_resume (ls_session st) received = Inr s \<Longrightarrow>
     hello_ok st number received = st\<lparr>ls_session := s, ls_number := Some number\<rparr>"
proof -
  assume "ls_number st = Some number" and s: "session_resume (ls_session st) received = Inr s"
  moreover have "accepts (ls_session st) received"
    using s release_accepts by (fastforce simp: session_resume_def split: sum.splits)
  ultimately show ?thesis by (simp add: hello_ok_def)
qed

lemma hello_restarted:
  "ls_number st \<noteq> Some number \<Longrightarrow>
     ls_session (hello_ok st number received) = new_session
     \<and> ls_number (hello_ok st number received) = Some number
     \<and> ls_ended (hello_ok st number received) = (if ls_number st = None then ls_ended st else Some SESSION_RESTARTED)"
  by (auto simp: hello_ok_def link_restart_def restart_def Let_def split: option.splits)

section \<open>A runner and the backend, across connections and restarts\<close>

text \<open>
  The runner's and the backend's state, the connection between them (\<open>pa_link\<close>, whose ends are the
  two sessions), and the numbers drawn so far: a session's number is a random one, so it is none of
  those, and a runner start is told apart from every peer_of by its instance. The answer on its way
  names the number the backend's session has, since another hello closes the connection first.
\<close>

record 'f pairing =
  pa_runner :: "'f link_state"
  pa_inst :: nat
  pa_device :: "'f device_session"
  pa_link :: link
  pa_numbers :: "nat set"
  pa_insts :: "nat set"

definition pairing_start :: "nat \<Rightarrow> 'f pairing" where
  "pairing_start inst =
     \<lparr>pa_runner = new_link_state, pa_inst = inst, pa_device = new_device_session, pa_link = link_start,
      pa_numbers = {}, pa_insts = {inst}\<rparr>"

definition dropped :: "link \<Rightarrow> link" where
  "dropped l = l\<lparr>lk_wire := (\<lambda>_. []), lk_inbox := (\<lambda>_. []), lk_open := (\<lambda>_. False), lk_resending := (\<lambda>_. False)\<rparr>"

definition ends :: "wire_session \<Rightarrow> wire_session \<Rightarrow> side \<Rightarrow> wire_session" where
  "ends b r s = (case s of Backend \<Rightarrow> b | Runner \<Rightarrow> r)"

lemma ends_simps [simp]: "ends b r Backend = b" "ends b r Runner = r"
  "(ends b r)(Backend := b') = ends b' r" "(ends b r)(Runner := r') = ends b r'"
  by (auto simp: ends_def fun_eq_iff split: side.splits)

definition joined :: "'f pairing \<Rightarrow> link" where
  "joined p = (pa_link p)\<lparr>lk_end := ends (ds_numbers (pa_device p)) (ls_session (pa_runner p))\<rparr>"

text \<open>The connection the backend's answer opens: of the session it resumed, or of a new one.\<close>

definition greeted :: "link \<Rightarrow> beginning \<Rightarrow> link" where
  "greeted l b =
     (let l' = (case b of Resumed _ \<Rightarrow> l | Started \<Rightarrow> link_start)
      in l'\<lparr>lk_wire := (lk_wire l')(Backend := [Welcome (beginning_received b)]),
            lk_open := (lk_open l')(Backend := True), lk_resending := (lk_resending l')(Backend := True)\<rparr>)"

inductive pairing_step :: "'f pairing \<Rightarrow> 'f pairing \<Rightarrow> bool" where
  Connected: "link_work (joined p) l \<Longrightarrow>
    pairing_step p (p\<lparr>pa_link := l, pa_device := (pa_device p)\<lparr>ds_numbers := lk_end l Backend\<rparr>,
      pa_runner := (pa_runner p)\<lparr>ls_session := lk_end l Runner\<rparr>\<rparr>)"
| Greeting: "\<not> lk_open (pa_link p) Backend \<Longrightarrow> fresh \<notin> pa_numbers p \<Longrightarrow>
    begin_session (pa_device p) (pa_inst p) (link_resume (pa_runner p)) fresh = (b, d) \<Longrightarrow>
    pairing_step p (p\<lparr>pa_device := d, pa_numbers := insert fresh (pa_numbers p), pa_link := greeted (pa_link p) b\<rparr>)"
| Answered: "lk_wire (pa_link p) Backend = Welcome n # rest \<Longrightarrow>
    pairing_step p (p\<lparr>pa_runner := hello_ok (pa_runner p) (ds_number (pa_device p)) n,
      pa_link := (pa_link p)\<lparr>lk_wire := (lk_wire (pa_link p))(Backend := rest),
        lk_open := (lk_open (pa_link p))(Runner := True), lk_resending := (lk_resending (pa_link p))(Runner := True)\<rparr>\<rparr>)"
| Told: "pairing_step p (p\<lparr>pa_runner := snd (take_ended (pa_runner p))\<rparr>)"
| Runner_starts: "inst \<notin> pa_insts p \<Longrightarrow>
    pairing_step p (p\<lparr>pa_runner := new_link_state, pa_inst := inst, pa_insts := insert inst (pa_insts p),
      pa_link := dropped (pa_link p)\<rparr>)"
| Backend_starts:
    "pairing_step p (p\<lparr>pa_device := new_device_session, pa_link := link_start\<rparr>)"

text \<open>
  The runner holds the backend's session when it names its number and the session is one of its
  start; until then its end of that session is a new one, which its answer makes it.
\<close>

definition holds_session :: "'f pairing \<Rightarrow> bool" where
  "holds_session p =
     (ls_number (pa_runner p) = Some (ds_number (pa_device p)) \<and> ds_instance (pa_device p) = Some (pa_inst p))"

definition life :: "'f pairing \<Rightarrow> link" where
  "life p = (pa_link p)\<lparr>lk_end := ends (ds_numbers (pa_device p))
     (if holds_session p then ls_session (pa_runner p) else new_session)\<rparr>"

definition pairing_ok :: "'f pairing \<Rightarrow> bool" where
  "pairing_ok p =
     ((ds_instance (pa_device p) = Some (pa_inst p) \<longrightarrow> link_ok (life p))
      \<and> (lk_open (pa_link p) Runner \<longrightarrow> holds_session p)
      \<and> (lk_wire (pa_link p) Backend \<noteq> [] \<longrightarrow> lk_open (pa_link p) Backend)
      \<and> (lk_open (pa_link p) Backend \<longrightarrow> ds_instance (pa_device p) = Some (pa_inst p))
      \<and> (\<forall>n. ls_number (pa_runner p) = Some n \<longrightarrow> n \<in> pa_numbers p)
      \<and> (ds_instance (pa_device p) = Some (pa_inst p) \<longrightarrow> ds_number (pa_device p) \<in> pa_numbers p)
      \<and> pa_inst p \<in> pa_insts p
      \<and> (\<forall>i. ds_instance (pa_device p) = Some i \<longrightarrow> i \<in> pa_insts p)
      \<and> ls_ended (pa_runner p) \<noteq> Some NOT_RESUMED)"

lemma pairing_okD:
  assumes "pairing_ok p"
  shows "lk_open (pa_link p) Runner \<Longrightarrow> holds_session p"
    "lk_open (pa_link p) Backend \<Longrightarrow> ds_instance (pa_device p) = Some (pa_inst p)"
    "ds_instance (pa_device p) = Some (pa_inst p) \<Longrightarrow> link_ok (life p)"
  using assms unfolding pairing_ok_def by blast+

lemma pairing_start_ok: "pairing_ok (pairing_start inst)"
  by (simp add: pairing_ok_def pairing_start_def link_start_def new_device_session_def new_link_state_def)

text \<open>While the runner's end is closed a step of the connection neither reads nor changes it.\<close>

definition with_runner :: "link \<Rightarrow> wire_session \<Rightarrow> link" where
  "with_runner l x = l\<lparr>lk_end := (lk_end l)(Runner := x)\<rparr>"

lemma with_runner_simps [simp]:
  "lk_end (with_runner l x) Backend = lk_end l Backend" "lk_end (with_runner l x) Runner = x"
  "lk_wire (with_runner l x) = lk_wire l" "lk_inbox (with_runner l x) = lk_inbox l"
  "lk_open (with_runner l x) = lk_open l" "lk_resending (with_runner l x) = lk_resending l"
  "lk_sent (with_runner l x) = lk_sent l" "lk_took (with_runner l x) = lk_took l"
  by (simp_all add: with_runner_def)

lemma with_runner_push:
  "with_runner (push_wire l Backend f e) x = push_wire (with_runner l x) Backend f e"
  by (simp add: push_wire_def with_runner_def fun_upd_twist)

lemma with_runner_updates:
  "with_runner (l\<lparr>lk_sent := a\<rparr>) x = (with_runner l x)\<lparr>lk_sent := a\<rparr>"
  "with_runner (l\<lparr>lk_resending := b\<rparr>) x = (with_runner l x)\<lparr>lk_resending := b\<rparr>"
  "with_runner (l\<lparr>lk_end := (lk_end l)(Backend := e), lk_wire := w, lk_inbox := i\<rparr>) x
     = (with_runner l x)\<lparr>lk_end := (lk_end (with_runner l x))(Backend := e), lk_wire := w, lk_inbox := i\<rparr>"
  "with_runner (l\<lparr>lk_end := (lk_end l)(Backend := e), lk_inbox := i, lk_took := o'\<rparr>) x
     = (with_runner l x)\<lparr>lk_end := (lk_end (with_runner l x))(Backend := e), lk_inbox := i, lk_took := o'\<rparr>"
  "with_runner (dropped l) x = dropped (with_runner l x)"
  by (simp_all add: with_runner_def dropped_def fun_upd_twist)

lemma open_is_backend: "lk_open l s \<Longrightarrow> \<not> lk_open l Runner \<Longrightarrow> s = Backend"
  by (cases s) simp_all

lemma closed_end_unused:
  assumes "link_work l l'" "\<not> lk_open l Runner"
  shows "link_work (with_runner l x) (with_runner l' x) \<and> lk_end l' Runner = lk_end l Runner"
  using assms
proof (induction rule: link_work.induct)
  case (Write l s m again frame e)
  from link_work.Write [of "with_runner l x" s m again frame e] Write open_is_backend [OF Write(1,5)]
  show ?case by (simp add: with_runner_updates with_runner_push) (simp add: push_wire_def)
next
  case (Write_own l s m)
  from link_work.Write_own [of "with_runner l x" s m] Write_own open_is_backend [OF Write_own(1,2)]
  show ?case by (simp add: with_runner_push) (simp add: push_wire_def)
next
  case (Resend l s frame e)
  from link_work.Resend [of "with_runner l x" s frame e] Resend open_is_backend [OF Resend(1,4)]
  show ?case by (simp add: with_runner_push) (simp add: push_wire_def)
next
  case (Resent l s e)
  from link_work.Resent [of "with_runner l x" s e] Resent open_is_backend [OF Resent(1,4)]
  show ?case by (simp add: with_runner_updates)
next
  case (Acknowledge l s frame e)
  from link_work.Acknowledge [of "with_runner l x" s frame e] Acknowledge open_is_backend [OF Acknowledge(1,4)]
  show ?case by (simp add: with_runner_push) (simp add: push_wire_def)
next
  case (Read l s f rest now r e)
  from link_work.Read [of "with_runner l x" s f rest now r e] Read open_is_backend [OF Read(1,4)]
  show ?case by (simp add: with_runner_updates)
next
  case (Handle l s d ds now)
  from link_work.Handle [of "with_runner l x" s d ds now] Handle open_is_backend [OF Handle(1,3)]
  show ?case by (simp add: with_runner_updates)
next
  case (Drop l)
  show ?case using link_work.Drop [of "with_runner l x"]
    by (simp add: with_runner_updates(5) [unfolded dropped_def])
qed

lemma closed_only_drops: "link_work l l' \<Longrightarrow> (\<forall>s. \<not> lk_open l s) \<Longrightarrow> l' = dropped l"
  by (induction rule: link_work.induct) (auto simp: dropped_def)

lemma link_work_opens: "link_work l l' \<Longrightarrow> lk_open l' s \<Longrightarrow> lk_open l s"
  by (induction rule: link_work.induct) (auto simp: push_wire_def)

lemma runner_closed:
  assumes "pairing_ok p" "\<not> lk_open (pa_link p) Backend"
  shows "\<not> lk_open (pa_link p) s"
proof -
  have "\<not> lk_open (pa_link p) Runner"
  proof
    assume o: "lk_open (pa_link p) Runner"
    with assms(1) have "holds_session p" by (simp add: pairing_ok_def)
    with assms(1) have "link_ok (life p)" by (simp add: pairing_ok_def holds_session_def)
    with o assms(2) show False by (simp add: link_ok_def opening_ok_def life_def)
  qed
  with assms(2) show ?thesis by (cases s) auto
qed

lemma life_joined: "holds_session p \<Longrightarrow> life p = joined p"
  by (simp add: life_def joined_def)

lemma life_with_runner: "\<not> holds_session p \<Longrightarrow> life p = with_runner (joined p) new_session"
  by (simp add: life_def joined_def with_runner_def)

lemma ends_own: "ends (e Backend) (e Runner) = e"
  by (simp add: ends_def fun_eq_iff split: side.splits)

lemma ends_upd: "ends (e Backend) r = e(Runner := r)"
  by (simp add: ends_def fun_eq_iff split: side.splits)

lemma connected_ok:
  assumes ok: "pairing_ok p" and w: "link_work (joined p) l"
  shows "pairing_ok (p\<lparr>pa_link := l, pa_device := (pa_device p)\<lparr>ds_numbers := lk_end l Backend\<rparr>,
      pa_runner := (pa_runner p)\<lparr>ls_session := lk_end l Runner\<rparr>\<rparr>)" (is "pairing_ok ?p'")
proof -
  have opens: "lk_open l s \<Longrightarrow> lk_open (pa_link p) s" for s
    using link_work_opens [OF w] by (simp add: joined_def)
  have holds: "holds_session ?p' = holds_session p" by (simp add: holds_session_def)
  have "link_ok (life ?p') \<and> (lk_wire l Backend \<noteq> [] \<longrightarrow> lk_open l Backend)"
    if mine: "ds_instance (pa_device p) = Some (pa_inst p)"
  proof -
    have was: "link_ok (life p)" using ok mine by (simp add: pairing_ok_def)
    have "link_ok (life ?p')"
    proof (cases "holds_session p")
      case True
      then have "life ?p' = l" using holds by (simp add: life_def ends_own)
      with link_work_ok [OF w] was life_joined [OF True] show ?thesis by simp
    next
      case False
      then have "\<not> lk_open (joined p) Runner" using ok by (auto simp: pairing_ok_def joined_def)
      from closed_end_unused [OF w this, of new_session] have
        "link_work (life p) (with_runner l new_session)" using life_with_runner [OF False] by simp
      moreover have "life ?p' = with_runner l new_session"
        using holds False by (simp add: life_def with_runner_def ends_upd)
      ultimately show ?thesis using link_work_ok was by simp
    qed
    then show ?thesis using link_ok_way [of "life ?p'" Backend] by (auto simp: way_ok_def life_def)
  qed
  moreover have "\<not> lk_open l Backend \<and> lk_wire l Backend = []"
    if other: "ds_instance (pa_device p) \<noteq> Some (pa_inst p)"
  proof -
    have "\<not> lk_open (pa_link p) s" for s
      by (rule runner_closed [OF ok]) (use ok other in \<open>simp add: pairing_ok_def\<close>)
    then have "l = dropped (joined p)" by (intro closed_only_drops [OF w]) (simp add: joined_def)
    then show ?thesis by (simp add: dropped_def)
  qed
  moreover have "lk_wire l Backend \<noteq> [] \<longrightarrow> lk_open l Backend" using calculation by blast
  moreover have "lk_open l Runner \<longrightarrow> holds_session ?p'"
    using opens pairing_okD(1) [OF ok] holds by blast
  moreover have "lk_open l Backend \<longrightarrow> ds_instance (pa_device p) = Some (pa_inst p)"
    using opens pairing_okD(2) [OF ok] by blast
  moreover have fields: "pa_link ?p' = l" "ds_instance (pa_device ?p') = ds_instance (pa_device p)"
    "pa_inst ?p' = pa_inst p" "ls_number (pa_runner ?p') = ls_number (pa_runner p)" "pa_numbers ?p' = pa_numbers p"
    "ds_number (pa_device ?p') = ds_number (pa_device p)" "pa_insts ?p' = pa_insts p"
    "ls_ended (pa_runner ?p') = ls_ended (pa_runner p)"
    by simp_all
  ultimately show ?thesis using ok unfolding pairing_ok_def fields by blast
qed

lemma resume_new: "session_resume new_session n = Inr e \<Longrightarrow> e = new_session"
  by (auto simp: session_resume_def release_def new_session_def sent_count_def read_again_def
      split: sum.splits if_splits)

lemma greeting_ok:
  assumes ok: "pairing_ok p" and closed: "\<not> lk_open (pa_link p) Backend" and fresh: "fresh \<notin> pa_numbers p"
    and b: "begin_session (pa_device p) (pa_inst p) (link_resume (pa_runner p)) fresh = (b, d)"
  shows "pairing_ok (p\<lparr>pa_device := d, pa_numbers := insert fresh (pa_numbers p), pa_link := greeted (pa_link p) b\<rparr>)"
    (is "pairing_ok ?p'")
proof (cases b)
  case (Resumed n)
  from b [unfolded Resumed] obtain r e where r: "link_resume (pa_runner p) = Some r"
    "resumes (pa_device p) (pa_inst p) (Some r)" "session_resume (ds_numbers (pa_device p)) (re_received r) = Inr e"
    "n = ws_received e" "d = (pa_device p)\<lparr>ds_numbers := e\<rparr>"
    by (auto simp: begin_resumed)
  from r(1,2) have h: "holds_session p" and rec: "re_received r = ws_received (ls_session (pa_runner p))"
    by (auto simp: holds_session_def resumes_def link_resume_def)
  have "link_ok (joined p)" using ok h life_joined [OF h] by (simp add: pairing_ok_def holds_session_def)
  moreover have "\<not> lk_open (joined p) Backend" using closed by (simp add: joined_def)
  ultimately obtain e' where e': "session_resume (lk_end (joined p) Backend) (ws_received (lk_end (joined p) Runner)) = Inr e'"
    "link_ok ((joined p)\<lparr>lk_end := (lk_end (joined p))(Backend := e'),
      lk_wire := (lk_wire (joined p))(Backend := [Welcome (ws_received e')]),
      lk_open := (lk_open (joined p))(Backend := True), lk_resending := (lk_resending (joined p))(Backend := True)\<rparr>)"
    by (rule link_hello)
  have "e' = e" using e'(1) r(3) rec by (simp add: joined_def)
  have h': "holds_session ?p'" using h r(5) by (simp add: holds_session_def)
  have "life ?p' = (joined p)\<lparr>lk_end := (lk_end (joined p))(Backend := e),
      lk_wire := (lk_wire (joined p))(Backend := [Welcome (ws_received e)]),
      lk_open := (lk_open (joined p))(Backend := True), lk_resending := (lk_resending (joined p))(Backend := True)\<rparr>"
    using h' r(4,5) Resumed by (simp add: life_def joined_def greeted_def beginning_received_def Let_def)
  with e'(2) \<open>e' = e\<close> have "link_ok (life ?p')" by simp
  with ok h h' r(5) Resumed runner_closed [OF ok closed, of Runner] show ?thesis
    by (auto simp: pairing_ok_def greeted_def Let_def holds_session_def)
next
  case Started
  note d = begin_started [OF b [unfolded Started]]
  have new: "\<not> holds_session ?p'" using ok fresh d by (auto simp: pairing_ok_def holds_session_def)
  obtain e where e: "session_resume (lk_end link_start Backend) (ws_received (lk_end link_start Runner)) = Inr e"
    "link_ok (link_start\<lparr>lk_end := (lk_end link_start)(Backend := e),
      lk_wire := (lk_wire link_start)(Backend := [Welcome (ws_received e)]),
      lk_open := (lk_open link_start)(Backend := True), lk_resending := (lk_resending link_start)(Backend := True)\<rparr>)"
    by (rule link_hello [OF link_start_ok]) (simp_all add: link_start_def)
  have e_new: "e = new_session" using e(1) resume_new by (simp add: link_start_def)
  have same: "lk_end link_start = ends new_session new_session"
    by (simp add: link_start_def ends_def fun_eq_iff split: side.splits)
  have "life ?p' = link_start\<lparr>lk_end := (lk_end link_start)(Backend := e),
      lk_wire := (lk_wire link_start)(Backend := [Welcome (ws_received e)]),
      lk_open := (lk_open link_start)(Backend := True), lk_resending := (lk_resending link_start)(Backend := True)\<rparr>"
    unfolding same using new d Started e_new
    by (simp add: life_def greeted_def beginning_received_def Let_def) (simp add: new_session_def)
  with e(2) have "link_ok (life ?p')" by simp
  moreover have "\<not> lk_open (greeted (pa_link p) b) Runner" "lk_open (greeted (pa_link p) b) Backend"
    using Started by (simp_all add: greeted_def Let_def link_start_def)
  ultimately show ?thesis using ok d unfolding pairing_ok_def by simp
qed

lemma answered_ok:
  assumes ok: "pairing_ok p" and wire: "lk_wire (pa_link p) Backend = Welcome n # rest"
  shows "pairing_ok (p\<lparr>pa_runner := hello_ok (pa_runner p) (ds_number (pa_device p)) n,
      pa_link := (pa_link p)\<lparr>lk_wire := (lk_wire (pa_link p))(Backend := rest),
        lk_open := (lk_open (pa_link p))(Runner := True), lk_resending := (lk_resending (pa_link p))(Runner := True)\<rparr>\<rparr>)"
    (is "pairing_ok ?p'")
proof -
  have o: "lk_open (pa_link p) Backend" using ok wire by (simp add: pairing_ok_def)
  note mine = pairing_okD(2) [OF ok o]
  note was = pairing_okD(3) [OF ok mine]
  have w: "lk_wire (life p) Backend = Welcome n # rest" using wire by (simp add: life_def)
  obtain e where e: "session_resume (lk_end (life p) Runner) n = Inr e"
    "link_ok ((life p)\<lparr>lk_end := (lk_end (life p))(Runner := e), lk_wire := (lk_wire (life p))(Backend := rest),
      lk_open := (lk_open (life p))(Runner := True), lk_resending := (lk_resending (life p))(Runner := True)\<rparr>)"
    by (rule link_welcomed [OF was w])
  have runner: "ls_session (pa_runner ?p') = e \<and> ls_number (pa_runner ?p') = Some (ds_number (pa_device p))
      \<and> ls_ended (pa_runner ?p') \<noteq> Some NOT_RESUMED"
  proof (cases "holds_session p")
    case True
    then have "session_resume (ls_session (pa_runner p)) n = Inr e" using e(1) by (simp add: life_def)
    from hello_resumed [OF _ this] True ok show ?thesis by (simp add: holds_session_def pairing_ok_def)
  next
    case False
    then have "e = new_session" using e(1) resume_new by (simp add: life_def)
    moreover have "ls_number (pa_runner p) \<noteq> Some (ds_number (pa_device p))"
      using False mine by (simp add: holds_session_def)
    ultimately show ?thesis using hello_restarted [of "pa_runner p" "ds_number (pa_device p)" n] ok
      by (auto simp: pairing_ok_def SESSION_RESTARTED_def NOT_RESUMED_def)
  qed
  then have h: "holds_session ?p'" using mine by (simp add: holds_session_def)
  have "life ?p' = (life p)\<lparr>lk_end := (lk_end (life p))(Runner := e), lk_wire := (lk_wire (life p))(Backend := rest),
      lk_open := (lk_open (life p))(Runner := True), lk_resending := (lk_resending (life p))(Runner := True)\<rparr>"
    using h runner by (simp add: life_def)
  with e(2) have "link_ok (life ?p')" by simp
  with ok h runner mine o show ?thesis unfolding pairing_ok_def by simp
qed

lemma pairing_step_ok: "pairing_step p p' \<Longrightarrow> pairing_ok p \<Longrightarrow> pairing_ok p'"
proof (induction rule: pairing_step.induct)
  case (Told p)
  have "holds_session (p\<lparr>pa_runner := snd (take_ended (pa_runner p))\<rparr>) = holds_session p"
    "life (p\<lparr>pa_runner := snd (take_ended (pa_runner p))\<rparr>) = life p"
    by (simp_all add: holds_session_def life_def take_ended_def)
  with Told show ?case unfolding pairing_ok_def by (simp add: take_ended_def)
next
  case (Runner_starts inst p)
  then show ?case by (auto simp: pairing_ok_def dropped_def new_link_state_def)
next
  case (Backend_starts p)
  then show ?case by (auto simp: pairing_ok_def link_start_def new_device_session_def)
qed (auto intro: connected_ok greeting_ok answered_ok)

lemma pairing_reaches_ok: "pairing_step\<^sup>*\<^sup>* (pairing_start inst) p \<Longrightarrow> pairing_ok p"
  by (induction rule: rtranclp_induct) (auto intro: pairing_start_ok pairing_step_ok)

text \<open>Both ends of an open connection are in one session, and each handled what the other wrote in it.\<close>

lemma pairing_agrees:
  assumes "pairing_ok p" "lk_open (pa_link p) Runner"
  shows "ls_number (pa_runner p) = Some (ds_number (pa_device p))"
    "length (lk_took (pa_link p) (peer_of s)) \<le> length (lk_sent (pa_link p) s)
      \<and> list_all2 delivered (lk_took (pa_link p) (peer_of s))
          (take (length (lk_took (pa_link p) (peer_of s))) (lk_sent (pa_link p) s))"
proof -
  have h: "holds_session p" using pairing_okD(1) [OF assms] .
  then show "ls_number (pa_runner p) = Some (ds_number (pa_device p))" by (simp add: holds_session_def)
  have "link_ok (life p)" using pairing_okD(3) [OF assms(1)] h by (simp add: holds_session_def)
  from link_took [OF this, of s] show "length (lk_took (pa_link p) (peer_of s)) \<le> length (lk_sent (pa_link p) s)
      \<and> list_all2 delivered (lk_took (pa_link p) (peer_of s))
          (take (length (lk_took (pa_link p) (peer_of s))) (lk_sent (pa_link p) s))"
    by (simp add: life_def)
qed

end
