(* ===== verification/Lanes.thy ===== *)
theory Lanes imports Rust_Std begin

text \<open>
  The frames of a WebSocket that carries lanes, and a lane's messages in pieces
  (\<open>crates/shared-lanes/src/lib.rs\<close>). The lemmas show that a frame is read as it was written, and
  that the pieces of a lane's messages are put together into those messages, while a message
  longer than the lane takes is refused at the piece that passes the limit.
\<close>

definition CONNECTION_KIND :: byte where
  "CONNECTION_KIND = 0"

definition OPEN_KIND :: byte where
  "OPEN_KIND = 1"

definition OPENED_KIND :: byte where
  "OPENED_KIND = 2"

definition REFUSED_KIND :: byte where
  "REFUSED_KIND = 3"

definition DATA_FRAME :: byte where
  "DATA_FRAME = 4"

definition CLOSE_KIND :: byte where
  "CLOSE_KIND = 5"

definition CREDIT_KIND :: byte where
  "CREDIT_KIND = 6"

definition BINARY_FLAG :: byte where
  "BINARY_FLAG = 1"

definition MORE_FLAG :: byte where
  "MORE_FLAG = 2"

definition LANE_PIECE_BYTES :: nat where
  "LANE_PIECE_BYTES = 16 * 1024"

lemmas lane_kinds = CONNECTION_KIND_def OPEN_KIND_def OPENED_KIND_def REFUSED_KIND_def DATA_FRAME_def
  CLOSE_KIND_def CREDIT_KIND_def

section \<open>Frames\<close>

datatype lane_frame =
    LConnection "byte list"
  | LOpen u32 "byte list"
  | LOpened u32
  | LRefused u32 "byte list"
  | LData u32 byte "byte list"
  | LClose u32 u16 string
  | LCredit u32 u16

datatype lane_error =
    EmptyMessage | NoLane | NoFlags | NoCode | NoCount | UnknownKind

definition decode_body :: "byte \<Rightarrow> u32 \<Rightarrow> byte list \<Rightarrow> lane_error + lane_frame" where
  "decode_body kind lane rest =
     (if kind = OPEN_KIND then Inr (LOpen lane rest)
      else if kind = OPENED_KIND then Inr (LOpened lane)
      else if kind = REFUSED_KIND then Inr (LRefused lane rest)
      else if kind = DATA_FRAME then
        (case rest of [] \<Rightarrow> Inl NoFlags | flags # piece \<Rightarrow> Inr (LData lane flags piece))
      else if kind = CLOSE_KIND then
        (if length rest < 2 then Inl NoCode
         else Inr (LClose lane (word_of_nat (be_nat (take 2 rest))) (from_utf8_lossy (drop 2 rest))))
      else if kind = CREDIT_KIND then
        (if length rest < 2 then Inl NoCount
         else Inr (LCredit lane (word_of_nat (be_nat (take 2 rest)))))
      else Inl UnknownKind)"

definition lane_decode :: "byte list \<Rightarrow> lane_error + lane_frame" where
  "lane_decode bytes =
     (case bytes of
        [] \<Rightarrow> Inl EmptyMessage
      | kind # _ \<Rightarrow>
          if kind = CONNECTION_KIND then Inr (LConnection (drop 1 bytes))
          else if length bytes < 5 then Inl NoLane
          else decode_body kind (word_of_nat (be_nat (take 4 (drop 1 bytes)))) (drop 5 bytes))"

definition u32_bytes :: "u32 \<Rightarrow> byte list" where
  "u32_bytes w = be_bytes 4 (unat w)"

definition u16_bytes :: "u16 \<Rightarrow> byte list" where
  "u16_bytes w = be_bytes 2 (unat w)"

fun lane_encode :: "lane_frame \<Rightarrow> byte list" where
  "lane_encode (LConnection json) = CONNECTION_KIND # json"
| "lane_encode (LOpen lane target) = OPEN_KIND # u32_bytes lane @ target"
| "lane_encode (LOpened lane) = OPENED_KIND # u32_bytes lane"
| "lane_encode (LRefused lane refusal) = REFUSED_KIND # u32_bytes lane @ refusal"
| "lane_encode (LData lane flags piece) = DATA_FRAME # u32_bytes lane @ [flags] @ piece"
| "lane_encode (LClose lane code reason) = CLOSE_KIND # u32_bytes lane @ u16_bytes code @ to_bytes reason"
| "lane_encode (LCredit lane messages) = CREDIT_KIND # u32_bytes lane @ u16_bytes messages"

text \<open>A close's reason is a \<open>String\<close>.\<close>

fun lane_frame_ok :: "lane_frame \<Rightarrow> bool" where
  "lane_frame_ok (LClose lane code reason) = is_str reason"
| "lane_frame_ok _ = True"

lemma u16_read [simp]:
  "word_of_nat (be_nat (take 2 (u16_bytes w @ rest))) = w" "drop 2 (u16_bytes w @ rest) = rest"
  "word_of_nat (be_nat (u16_bytes w)) = w" "length (u16_bytes w) = 2"
  by (simp_all add: u16_bytes_def)

lemma decode_headed:
  "kind \<noteq> CONNECTION_KIND \<Longrightarrow> lane_decode (kind # u32_bytes lane @ rest) = decode_body kind lane rest"
proof -
  assume kind: "kind \<noteq> CONNECTION_KIND"
  have len: "length (u32_bytes lane) = 4" by (simp add: u32_bytes_def)
  then have "take 4 (u32_bytes lane @ rest) = u32_bytes lane" "drop 5 (kind # u32_bytes lane @ rest) = rest"
    by (simp_all add: eval_nat_numeral)
  then show ?thesis
    using kind len by (simp add: lane_decode_def) (simp add: u32_bytes_def)
qed

lemma kinds_distinct [simp]:
  "OPEN_KIND \<noteq> CONNECTION_KIND" "OPENED_KIND \<noteq> CONNECTION_KIND" "REFUSED_KIND \<noteq> CONNECTION_KIND"
  "DATA_FRAME \<noteq> CONNECTION_KIND" "CLOSE_KIND \<noteq> CONNECTION_KIND" "CREDIT_KIND \<noteq> CONNECTION_KIND"
  by (simp_all add: lane_kinds)

lemma decode_bodies [simp]:
  "decode_body OPEN_KIND lane rest = Inr (LOpen lane rest)"
  "decode_body OPENED_KIND lane rest = Inr (LOpened lane)"
  "decode_body REFUSED_KIND lane rest = Inr (LRefused lane rest)"
  "decode_body DATA_FRAME lane (flags # piece) = Inr (LData lane flags piece)"
  "decode_body CLOSE_KIND lane (u16_bytes code @ reason) = Inr (LClose lane code (from_utf8_lossy reason))"
  "decode_body CREDIT_KIND lane (u16_bytes messages) = Inr (LCredit lane messages)"
  by (simp_all add: decode_body_def lane_kinds)

lemma lane_round_trip: "lane_frame_ok f \<Longrightarrow> lane_decode (lane_encode f) = Inr f"
proof (cases f)
  case (LConnection json)
  then show ?thesis by (simp add: lane_decode_def)
next
  case (LOpened lane)
  then show ?thesis using decode_headed [of OPENED_KIND lane "[]"] by simp
qed (simp_all add: decode_headed from_utf8_lossy_to_bytes)

section \<open>A message in pieces\<close>

datatype lane_message = LText string | LBinary "byte list"

datatype assembly_error = TooBig | NotUtf8

type_synonym assembly = "(bool \<times> byte list) option"

definition piece_flags :: "bool \<Rightarrow> bool \<Rightarrow> byte" where
  "piece_flags binary later =
     or (if binary then BINARY_FLAG else 0) (if later then MORE_FLAG else 0)"

text \<open>The starts step by a piece's bytes over the message, from 0 even for an empty one.\<close>

fun pieces_from :: "u32 \<Rightarrow> bool \<Rightarrow> byte list list \<Rightarrow> lane_frame list" where
  "pieces_from lane binary [] = []"
| "pieces_from lane binary (p # ps) = LData lane (piece_flags binary (ps \<noteq> [])) p # pieces_from lane binary ps"

definition pieces_of :: "u32 \<Rightarrow> bool \<Rightarrow> byte list \<Rightarrow> lane_frame list" where
  "pieces_of lane binary message =
     pieces_from lane binary (if message = [] then [[]] else slices LANE_PIECE_BYTES message)"

definition whole_message :: "bool \<Rightarrow> byte list \<Rightarrow> nat \<Rightarrow> assembly_error + lane_message option" where
  "whole_message binary whole limit =
     (if limit < length whole then Inl TooBig
      else if binary then Inr (Some (LBinary whole))
      else case from_utf8 whole of
        Some text \<Rightarrow> Inr (Some (LText text))
      | None \<Rightarrow> Inl NotUtf8)"

definition assembly_take ::
  "assembly \<Rightarrow> byte \<Rightarrow> byte list \<Rightarrow> nat \<Rightarrow> (assembly_error + lane_message option) \<times> assembly" where
  "assembly_take pieces flags piece limit =
     (let later = (and flags MORE_FLAG \<noteq> 0)
      in if pieces = None \<and> \<not> later
         then (whole_message (and flags BINARY_FLAG \<noteq> 0) piece limit, None)
         else
           let (binary, whole) = (case pieces of
                 Some held \<Rightarrow> held
               | None \<Rightarrow> (and flags BINARY_FLAG \<noteq> 0, []))
           in if limit < length whole + length piece then (Inl TooBig, None)
              else if later then (Inr None, Some (binary, whole @ piece))
              else (whole_message binary (whole @ piece) limit, None))"

text \<open>A lane's owner takes its frames in order and stops at an error.\<close>

fun assemble :: "nat \<Rightarrow> assembly \<Rightarrow> lane_frame list \<Rightarrow> lane_message list \<times> assembly_error option \<times> assembly" where
  "assemble limit a [] = ([], None, a)"
| "assemble limit a (LData lane flags piece # fs) =
     (case assembly_take a flags piece limit of
        (Inl e, a') \<Rightarrow> ([], Some e, a')
      | (Inr None, a') \<Rightarrow> assemble limit a' fs
      | (Inr (Some m), a') \<Rightarrow> (case assemble limit a' fs of (ms, r) \<Rightarrow> (m # ms, r)))"
| "assemble limit a (f # fs) = assemble limit a fs"

fun message_bytes :: "lane_message \<Rightarrow> byte list" where
  "message_bytes (LText text) = to_bytes text"
| "message_bytes (LBinary bytes) = bytes"

fun is_binary :: "lane_message \<Rightarrow> bool" where
  "is_binary (LText _) = False"
| "is_binary (LBinary _) = True"

fun message_ok :: "lane_message \<Rightarrow> bool" where
  "message_ok (LText text) = is_str text"
| "message_ok (LBinary _) = True"

definition message_pieces :: "u32 \<Rightarrow> lane_message \<Rightarrow> lane_frame list" where
  "message_pieces lane m = pieces_of lane (is_binary m) (message_bytes m)"

lemma flags_read [simp]:
  "(and (piece_flags binary later) MORE_FLAG \<noteq> 0) = later"
  "(and (piece_flags binary later) BINARY_FLAG \<noteq> 0) = binary"
  by (cases binary; cases later; simp add: piece_flags_def BINARY_FLAG_def MORE_FLAG_def)+

lemma whole_message_of:
  "message_ok m \<Longrightarrow> whole_message (is_binary m) (message_bytes m) limit =
     (if limit < length (message_bytes m) then Inl TooBig else Inr (Some m))"
  by (cases m) (simp_all add: whole_message_def from_utf8_to_bytes)

lemma assemble_data:
  "assemble limit a (LData lane (piece_flags binary later) piece # fs) =
     (case assembly_take a (piece_flags binary later) piece limit of
        (Inl e, a') \<Rightarrow> ([], Some e, a')
      | (Inr None, a') \<Rightarrow> assemble limit a' fs
      | (Inr (Some m), a') \<Rightarrow> (case assemble limit a' fs of (ms, r) \<Rightarrow> (m # ms, r)))"
  by simp

lemma take_first:
  "assembly_take None (piece_flags binary True) piece limit =
     (if limit < length piece then (Inl TooBig, None) else (Inr None, Some (binary, piece)))"
  "assembly_take None (piece_flags binary False) piece limit = (whole_message binary piece limit, None)"
  by (simp_all add: assembly_take_def)

lemma take_later:
  "assembly_take (Some (binary, whole)) (piece_flags b later) piece limit =
     (if limit < length whole + length piece then (Inl TooBig, None)
      else if later then (Inr None, Some (binary, whole @ piece))
      else (whole_message binary (whole @ piece) limit, None))"
  by (simp add: assembly_take_def)

text \<open>The rest of a message of which \<open>whole\<close> arrived.\<close>

lemma assemble_rest:
  assumes "message_ok m" "whole @ concat ps = message_bytes m" "ps \<noteq> []"
  shows "assemble limit (Some (is_binary m, whole)) (pieces_from lane (is_binary m) ps @ fs) =
     (if limit < length (message_bytes m) then ([], Some TooBig, None)
      else case assemble limit None fs of (ms, r) \<Rightarrow> (m # ms, r))"
  using assms
proof (induction ps arbitrary: whole)
  case (Cons p ps)
  show ?case
  proof (cases "limit < length whole + length p")
    case True
    then have "limit < length (message_bytes m)"
      using Cons.prems(2) by (metis append_assoc concat.simps(2) length_append trans_less_add1)
    then show ?thesis using True by (simp add: assemble_data take_later del: assemble.simps)
  next
    case False
    show ?thesis
    proof (cases "ps = []")
      case True
      then have all: "whole @ p = message_bytes m" using Cons.prems(2) by simp
      then show ?thesis
        using False True Cons.prems(1) whole_message_of [of m limit]
        by (simp add: assemble_data take_later del: assemble.simps flip: all)
    next
      case later: False
      then show ?thesis
        using False Cons.IH [of "whole @ p"] Cons.prems by (simp add: assemble_data take_later del: assemble.simps)
    qed
  qed
qed simp

lemma assemble_pieces:
  assumes "message_ok m"
  shows "assemble limit None (message_pieces lane m @ fs) =
     (if limit < length (message_bytes m) then ([], Some TooBig, None)
      else case assemble limit None fs of (ms, r) \<Rightarrow> (m # ms, r))"
proof -
  define ps where "ps = (if message_bytes m = [] then [[]] else slices LANE_PIECE_BYTES (message_bytes m))"
  have all: "concat ps = message_bytes m" and ne: "ps \<noteq> []"
    by (simp_all add: ps_def concat_slices LANE_PIECE_BYTES_def slices_step)
  then obtain p rest where ps: "ps = p # rest" by (cases ps) auto
  have frames: "message_pieces lane m = pieces_from lane (is_binary m) (p # rest)"
    by (simp add: message_pieces_def pieces_of_def ps_def [symmetric] ps)
  show ?thesis
  proof (cases "rest = []")
    case True
    then show ?thesis
      using all ps frames assms whole_message_of [of m limit]
      by (simp add: assemble_data take_first del: assemble.simps)
  next
    case later: False
    show ?thesis
    proof (cases "limit < length p")
      case True
      then have "limit < length (message_bytes m)" using all ps by (metis concat.simps(2) length_append trans_less_add1)
      then show ?thesis using True later frames by (simp add: assemble_data take_first del: assemble.simps)
    next
      case False
      then show ?thesis
        using later frames assemble_rest [OF assms, of p rest] all ps
        by (simp add: assemble_data take_first del: assemble.simps)
    qed
  qed
qed

lemma assemble_messages:
  assumes "list_all message_ok ms" "list_all (\<lambda>m. length (message_bytes m) \<le> limit) ms"
  shows "assemble limit None (concat (map (message_pieces lane) ms) @ fs) =
     (case assemble limit None fs of (more_ms, r) \<Rightarrow> (ms @ more_ms, r))"
  using assms
proof (induction ms)
  case Nil
  show ?case by (simp split: prod.split)
next
  case (Cons m ms)
  then show ?case by (simp add: assemble_pieces not_less [symmetric] split: prod.split)
qed

lemma pieces_from_ok: "list_all (\<lambda>f. lane_frame_ok f) (pieces_from lane binary ps)"
  by (induction ps) simp_all

lemma pieces_small:
  "list_all (\<lambda>f. length (lane_encode f) \<le> 6 + LANE_PIECE_BYTES) (message_pieces lane m)"
proof -
  have "list_all (\<lambda>p. length p \<le> LANE_PIECE_BYTES) ps \<Longrightarrow>
      list_all (\<lambda>f. length (lane_encode f) \<le> 6 + LANE_PIECE_BYTES) (pieces_from lane b ps)" for ps b
    by (induction ps) (simp_all add: u32_bytes_def)
  moreover have "list_all (\<lambda>p. length p \<le> LANE_PIECE_BYTES) (slices LANE_PIECE_BYTES xs)" for xs :: "byte list"
    by (auto simp: list_all_iff dest: slices_sizes)
  ultimately show ?thesis by (simp add: message_pieces_def pieces_of_def)
qed

section \<open>What a reader hands on, whatever arrives\<close>

lemma decoded_ok: "lane_decode bytes = Inr f \<Longrightarrow> lane_frame_ok f"
  by (auto simp: lane_decode_def decode_body_def from_utf8_lossy_is_str split: list.splits if_splits)

lemma whole_ok: "whole_message b whole limit = Inr (Some m) \<Longrightarrow> message_ok m \<and> length (message_bytes m) \<le> limit"
  by (auto simp: whole_message_def from_utf8_is_str split: if_splits option.splits)
    (auto simp: from_utf8_def of_bytes_def split: if_splits)

lemma taken_ok:
  "assembly_take a flags piece limit = (Inr (Some m), a') \<Longrightarrow> message_ok m \<and> length (message_bytes m) \<le> limit"
  by (auto simp: assembly_take_def Let_def split: if_splits prod.splits option.splits dest: whole_ok)

lemma assembled_ok:
  "list_all (\<lambda>m. message_ok m \<and> length (message_bytes m) \<le> limit) (fst (assemble limit a fs))"
proof (induction limit a fs rule: assemble.induct)
  case (2 limit a lane flags piece fs)
  then show ?case using taken_ok [of a flags piece limit] by (auto split: prod.splits sum.splits option.splits)
qed simp_all

end
