(* ===== verification/Framing.thy ===== *)
theory Framing imports Rust_Std begin

text \<open>
  Frames read off a byte stream that has no message boundaries. A decoder holds the bytes that
  arrived and answers the next whole frame, nothing yet, or that the stream breaks the format;
  its owner takes frames until there is nothing yet. \<open>stream_decoder\<close> is what every decoder of
  the code promises; the lemmas show that the frames then do not depend on how the bytes were cut
  on their way. The pipes' decoder and the live views' splitter interpret it.
\<close>

section \<open>The owner's loop\<close>

type_synonym ('e, 'f) decoder = "byte list \<Rightarrow> ('e + 'f option) \<times> byte list"

text \<open>Takes whole frames, at most \<open>n\<close> calls; what is left is the buffer, or the error with it.\<close>

fun drain_upto :: "nat \<Rightarrow> ('e, 'f) decoder \<Rightarrow> byte list \<Rightarrow> 'f list \<times> 'e option \<times> byte list" where
  "drain_upto 0 decode bs = ([], None, bs)"
| "drain_upto (Suc n) decode bs =
     (case decode bs of
        (Inl e, rest) \<Rightarrow> ([], Some e, rest)
      | (Inr None, rest) \<Rightarrow> ([], None, rest)
      | (Inr (Some f), rest) \<Rightarrow> (case drain_upto n decode rest of (fs, r) \<Rightarrow> (f # fs, r)))"

text \<open>Each frame takes a byte at least, so one call more than there are bytes is enough.\<close>

definition drain :: "('e, 'f) decoder \<Rightarrow> byte list \<Rightarrow> 'f list \<times> 'e option \<times> byte list" where
  "drain decode bs = drain_upto (Suc (length bs)) decode bs"

fun feed :: "('e, 'f) decoder \<Rightarrow> byte list \<Rightarrow> byte list list \<Rightarrow> 'f list \<times> 'e option \<times> byte list" where
  "feed decode buf [] = ([], None, buf)"
| "feed decode buf (piece # pieces) =
     (case drain decode (buf @ piece) of
        (fs, Some e, rest) \<Rightarrow> (fs, Some e, rest @ concat pieces)
      | (fs, None, rest) \<Rightarrow> (case feed decode rest pieces of (gs, r) \<Rightarrow> (fs @ gs, r)))"

section \<open>What a decoder promises\<close>

locale stream_decoder =
  fixes decode :: "('e, 'f) decoder"
  assumes next_frame: "decode bs = (Inr (Some f), rest) \<Longrightarrow> decode (bs @ more) = (Inr (Some f), rest @ more)"
    and next_error: "decode bs = (Inl e, rest) \<Longrightarrow> decode (bs @ more) = (Inl e, rest @ more)"
    and next_waits: "decode bs = (Inr None, rest) \<Longrightarrow> rest = bs"
    and next_takes: "decode bs = (Inr (Some f), rest) \<Longrightarrow> length rest < length bs"
begin

lemma drain_more_fuel:
  "length bs < n \<Longrightarrow> length bs < m \<Longrightarrow> drain_upto n decode bs = drain_upto m decode bs"
proof (induction n arbitrary: bs m)
  case (Suc n)
  then obtain k where m: "m = Suc k" by (cases m) auto
  show ?case
  proof (cases "decode bs")
    case (Pair r rest)
    show ?thesis
    proof (cases "\<exists>f. r = Inr (Some f)")
      case True
      then obtain f where r: "r = Inr (Some f)" by blast
      have "length rest < n" "length rest < k"
        using next_takes [of bs f rest] Pair r Suc.prems m by auto
      then have "drain_upto n decode rest = drain_upto k decode rest" by (rule Suc.IH)
      then show ?thesis using Pair r m by simp
    next
      case False
      then show ?thesis using Pair m by (auto split: sum.split option.split)
    qed
  qed
qed simp

lemma drain_step:
  "drain decode bs =
     (case decode bs of
        (Inl e, rest) \<Rightarrow> ([], Some e, rest)
      | (Inr None, rest) \<Rightarrow> ([], None, rest)
      | (Inr (Some f), rest) \<Rightarrow> (case drain decode rest of (fs, r) \<Rightarrow> (f # fs, r)))"
proof -
  have "decode bs = (Inr (Some f), rest) \<Longrightarrow> drain_upto (length bs) decode rest = drain decode rest" for f rest
    unfolding drain_def using next_takes [of bs f rest] by (intro drain_more_fuel) auto
  then show ?thesis by (auto simp: drain_def split: sum.split option.split prod.split)
qed

lemma drain_rest:
  "drain decode bs = (fs, None, rest) \<Longrightarrow> drain decode rest = ([], None, rest)"
proof (induction "length bs" arbitrary: bs fs rule: less_induct)
  case less
  show ?case
  proof (cases "decode bs")
    case (Pair r left)
    consider (err) e where "r = Inl e" | (wait) "r = Inr None" | (frame) f where "r = Inr (Some f)"
      by (cases r) auto
    then show ?thesis
    proof cases
      case err
      then show ?thesis using less.prems Pair by (subst (asm) drain_step) simp
    next
      case wait
      then have "left = bs" using next_waits Pair by blast
      then show ?thesis using less.prems Pair wait drain_step [of bs] by auto
    next
      case frame
      obtain gs r' where d: "drain decode left = (gs, r')" by (cases "drain decode left")
      then have "r' = (None, rest)" using less.prems Pair frame drain_step [of bs] by auto
      then show ?thesis using less.hyps [of left gs] next_takes [of bs f left] Pair frame d by blast
    qed
  qed
qed

text \<open>The loop ends by itself: with an error, or with a decoder that waits for more.\<close>

lemma drain_fuel: "length bs < n \<Longrightarrow> drain_upto n decode bs = drain decode bs"
  unfolding drain_def by (rule drain_more_fuel) simp_all

lemma drain_waits: "drain decode bs = (fs, None, rest) \<Longrightarrow> decode rest = (Inr None, rest)"
proof -
  assume "drain decode bs = (fs, None, rest)"
  then have "drain decode rest = ([], None, rest)" by (rule drain_rest)
  then show ?thesis
    using drain_step [of rest] next_waits
    by (auto split: prod.splits sum.splits option.splits)
qed

lemma feed_waits: "decode buf = (Inr None, buf) \<Longrightarrow> feed decode buf pieces = (fs, None, rest) \<Longrightarrow> decode rest = (Inr None, rest)"
proof (induction pieces arbitrary: buf fs)
  case (Cons piece pieces)
  then show ?case by (auto split: prod.splits option.splits dest: drain_waits)
qed simp

lemma drain_upto_all:
  assumes "\<And>bs f rest. decode bs = (Inr (Some f), rest) \<Longrightarrow> P f"
  shows "list_all P (fst (drain_upto n decode bs))"
proof (induction n arbitrary: bs)
  case (Suc n)
  show ?case using assms Suc.IH [of "snd (decode bs)"] by (auto split: prod.splits sum.splits option.splits)
qed simp

lemma feed_all:
  assumes "\<And>bs f rest. decode bs = (Inr (Some f), rest) \<Longrightarrow> P f"
  shows "list_all P (fst (feed decode buf pieces))"
proof (induction pieces arbitrary: buf)
  case (Cons piece pieces)
  obtain fs e rest where d: "drain decode (buf @ piece) = (fs, e, rest)" by (cases "drain decode (buf @ piece)")
  moreover have "list_all P (fst (drain decode (buf @ piece)))"
    unfolding drain_def using assms by (rule drain_upto_all)
  ultimately have "list_all P fs" by simp
  with Cons.IH [of rest] d show ?case by (auto split: prod.splits option.splits)
qed simp

text \<open>Bytes that come later change nothing of what was read, and are read after it.\<close>

lemma drain_append:
  "drain decode (bs @ more) =
     (case drain decode bs of
        (fs, Some e, rest) \<Rightarrow> (fs, Some e, rest @ more)
      | (fs, None, rest) \<Rightarrow> (case drain decode (rest @ more) of (gs, r) \<Rightarrow> (fs @ gs, r)))"
proof (induction "length bs" arbitrary: bs rule: less_induct)
  case less
  show ?case
  proof (cases "decode bs")
    case (Pair r left)
    consider (err) e where "r = Inl e" | (wait) "r = Inr None" | (frame) f where "r = Inr (Some f)"
      by (cases r) auto
    then show ?thesis
    proof cases
      case err
      then show ?thesis
        using Pair next_error [of bs e left more] drain_step [of bs] drain_step [of "bs @ more"] by simp
    next
      case wait
      then have "left = bs" using next_waits Pair by blast
      then show ?thesis using Pair wait drain_step [of bs] by (simp split: prod.split)
    next
      case frame
      have IH: "drain decode (left @ more) =
          (case drain decode left of
             (fs, Some e, rest) \<Rightarrow> (fs, Some e, rest @ more)
           | (fs, None, rest) \<Rightarrow> (case drain decode (rest @ more) of (gs, r) \<Rightarrow> (fs @ gs, r)))"
        using less.hyps [of left] next_takes [of bs f left] Pair frame by blast
      show ?thesis
        using Pair frame next_frame [of bs f left more] drain_step [of bs] drain_step [of "bs @ more"] IH
        by (simp split: prod.split option.split)
    qed
  qed
qed

text \<open>Whatever pieces the bytes arrive in, the owner takes the same frames.\<close>

lemma feed_pieces:
  "drain decode buf = ([], None, buf) \<Longrightarrow> feed decode buf pieces = drain decode (buf @ concat pieces)"
proof (induction pieces arbitrary: buf)
  case Nil
  then show ?case by simp
next
  case (Cons piece pieces)
  obtain fs e rest where d: "drain decode (buf @ piece) = (fs, e, rest)" by (cases "drain decode (buf @ piece)")
  have all: "drain decode (buf @ concat (piece # pieces)) =
      (case drain decode (buf @ piece) of
        (fs, Some e, rest) \<Rightarrow> (fs, Some e, rest @ concat pieces)
      | (fs, None, rest) \<Rightarrow> (case drain decode (rest @ concat pieces) of (gs, r) \<Rightarrow> (fs @ gs, r)))"
    using drain_append [of "buf @ piece" "concat pieces"] by simp
  show ?case
  proof (cases e)
    case None
    then have "feed decode rest pieces = drain decode (rest @ concat pieces)"
      using Cons.IH drain_rest d by blast
    then show ?thesis using all d None by simp
  next
    case (Some e')
    then show ?thesis using all d by simp
  qed
qed

text \<open>Frames written one after another, each read alone.\<close>

lemma drain_frame: "decode bs = (Inr (Some f), rest) \<Longrightarrow> drain decode bs = (case drain decode rest of (fs, r) \<Rightarrow> (f # fs, r))"
  by (subst drain_step) simp

lemma drain_frames:
  assumes "list_all2 (\<lambda>bs f. decode bs = (Inr (Some f), [])) encoded frames" "decode [] = (Inr None, [])"
  shows "drain decode (concat encoded) = (frames, None, [])"
  using assms(1)
proof (induction rule: list_all2_induct)
  case Nil
  show ?case using assms(2) by (subst drain_step) simp
next
  case (Cons b bs f fs)
  have "decode (b @ concat bs) = (Inr (Some f), [] @ concat bs)" by (rule next_frame) (use Cons in simp)
  then show ?case using Cons drain_frame [of "b @ concat bs" f "concat bs"] by simp
qed

end

end
