(* ===== verification/Pipe_Frames.thy ===== *)
theory Pipe_Frames imports Framing begin

text \<open>
  The frames of a pipe's byte stream (\<open>crates/runner-protocol/src/wire/pipe_frames.rs\<close>): data,
  idle, end and moved. The maps of an end and a moved frame are MessagePack of a library that is
  not part of the program: \<open>pack_end\<close>, \<open>pack_moved\<close> and \<open>unpack_end\<close>, \<open>unpack_moved\<close> stand for
  its encoder and decoder. The lemmas show that the frames of a pipe are read as written in
  whatever pieces they arrive.
\<close>

definition PIPE_DATA_BYTES :: nat where
  "PIPE_DATA_BYTES = 64 * 1024"

definition PIPE_END_BYTES :: nat where
  "PIPE_END_BYTES = 64 * 1024"

definition PIPE_MOVED_BYTES :: nat where
  "PIPE_MOVED_BYTES = 1024"

definition HEAD_BYTES :: nat where
  "HEAD_BYTES = 5"

definition DATA_KIND :: byte where
  "DATA_KIND = 0x01"

definition IDLE_KIND :: byte where
  "IDLE_KIND = 0x02"

definition END_KIND :: byte where
  "END_KIND = 0x03"

definition MOVED_KIND :: byte where
  "MOVED_KIND = 0x04"

lemmas pipe_kinds = DATA_KIND_def IDLE_KIND_def END_KIND_def MOVED_KIND_def HEAD_BYTES_def

text \<open>How a pipe ended: whole (\<open>None\<close>), or broken with its reader's words.\<close>

type_synonym pipe_end = "string option"

datatype pipe_path = Relay | Direct

datatype pipe_frame =
    PipeData "byte list"
  | PipeIdle
  | PipeEnd pipe_end
  | PipeMoved pipe_path u64 string

record moved_record =
  mr_to :: pipe_path
  mr_at :: u64
  mr_source :: string

record end_record =
  en_ok :: bool
  en_cause :: "string option"

datatype pipe_frame_error =
    UnknownType byte
  | TooLong nat nat
  | InvalidEnd string
  | InvalidMoved string

section \<open>Writing\<close>

definition framed :: "byte \<Rightarrow> byte list \<Rightarrow> byte list" where
  "framed kind body = kind # be_bytes 4 (length body) @ body"

definition encode_data :: "byte list \<Rightarrow> byte list \<Rightarrow> byte list" where
  "encode_data bytes frames = frames @ concat (map (framed DATA_KIND) (slices PIPE_DATA_BYTES bytes))"

definition idle_frame :: "byte list" where
  "idle_frame = [IDLE_KIND]"

definition end_frame :: "(end_record \<Rightarrow> byte list) \<Rightarrow> pipe_end \<Rightarrow> byte list" where
  "end_frame pack_end ending =
     framed END_KIND
       (pack_end (case ending of
          None \<Rightarrow> \<lparr>en_ok = True, en_cause = None\<rparr>
        | Some cause \<Rightarrow> \<lparr>en_ok = False, en_cause = Some cause\<rparr>))"

definition moved_frame :: "(moved_record \<Rightarrow> byte list) \<Rightarrow> pipe_path \<Rightarrow> u64 \<Rightarrow> string \<Rightarrow> byte list" where
  "moved_frame pack_moved to at source =
     framed MOVED_KIND (pack_moved \<lparr>mr_to = to, mr_at = at, mr_source = source\<rparr>)"

section \<open>Reading\<close>

definition read_end :: "string + end_record \<Rightarrow> pipe_frame_error + pipe_frame option" where
  "read_end record =
     (case record of
        Inl e \<Rightarrow> Inl (InvalidEnd e)
      | Inr r \<Rightarrow>
          (case (en_ok r, en_cause r) of
             (True, None) \<Rightarrow> Inr (Some (PipeEnd None))
           | (False, Some cause) \<Rightarrow> Inr (Some (PipeEnd (Some cause)))
           | (True, Some _) \<Rightarrow> Inl (InvalidEnd ''a whole pipe's end names a cause'')
           | (False, None) \<Rightarrow> Inl (InvalidEnd ''a broken pipe's end names no cause'')))"

definition read_moved :: "string + moved_record \<Rightarrow> pipe_frame_error + pipe_frame option" where
  "read_moved record =
     (case record of
        Inl e \<Rightarrow> Inl (InvalidMoved e)
      | Inr r \<Rightarrow> Inr (Some (PipeMoved (mr_to r) (mr_at r) (mr_source r))))"

definition kind_limit :: "byte \<Rightarrow> nat option" where
  "kind_limit kind =
     (if kind = DATA_KIND then Some PIPE_DATA_BYTES
      else if kind = END_KIND then Some PIPE_END_BYTES
      else if kind = MOVED_KIND then Some PIPE_MOVED_BYTES
      else None)"

definition pipe_next ::
  "(byte list \<Rightarrow> string + end_record) \<Rightarrow> (byte list \<Rightarrow> string + moved_record)
     \<Rightarrow> (pipe_frame_error, pipe_frame) decoder" where
  "pipe_next unpack_end unpack_moved buffer =
     (case buffer of
        [] \<Rightarrow> (Inr None, buffer)
      | kind # _ \<Rightarrow>
          if kind = IDLE_KIND then (Inr (Some PipeIdle), drop 1 buffer)
          else case kind_limit kind of
            None \<Rightarrow> (Inl (UnknownType kind), buffer)
          | Some limit \<Rightarrow>
              if length buffer < HEAD_BYTES then (Inr None, buffer)
              else
                let len = be_nat (take 4 (drop 1 buffer))
                in if limit < len then (Inl (TooLong len limit), buffer)
                   else if length buffer < HEAD_BYTES + len then (Inr None, buffer)
                   else
                     let body = take len (drop HEAD_BYTES buffer);
                         rest = drop (HEAD_BYTES + len) buffer
                     in if kind = DATA_KIND then (Inr (Some (PipeData body)), rest)
                        else if kind = MOVED_KIND then (read_moved (unpack_moved body), rest)
                        else (read_end (unpack_end body), rest))"

definition decode_message ::
  "(byte list \<Rightarrow> string + end_record) \<Rightarrow> (byte list \<Rightarrow> string + moved_record)
     \<Rightarrow> byte list \<Rightarrow> pipe_frame_error + pipe_frame" where
  "decode_message unpack_end unpack_moved message =
     (case pipe_next unpack_end unpack_moved message of
        (Inl e, _) \<Rightarrow> Inl e
      | (Inr (Some frame), []) \<Rightarrow> Inr frame
      | _ \<Rightarrow> Inl (InvalidEnd ''a session message is not one whole frame''))"

lemma kind_limit_simps [simp]:
  "kind_limit DATA_KIND = Some PIPE_DATA_BYTES" "kind_limit END_KIND = Some PIPE_END_BYTES"
  "kind_limit MOVED_KIND = Some PIPE_MOVED_BYTES" "kind_limit IDLE_KIND = None"
  by (simp_all add: kind_limit_def pipe_kinds)

lemma kinds_differ [simp]:
  "DATA_KIND \<noteq> IDLE_KIND" "END_KIND \<noteq> IDLE_KIND" "MOVED_KIND \<noteq> IDLE_KIND"
  "END_KIND \<noteq> DATA_KIND" "DATA_KIND \<noteq> MOVED_KIND" "MOVED_KIND \<noteq> DATA_KIND" "END_KIND \<noteq> MOVED_KIND"
  by (simp_all add: pipe_kinds)

section \<open>The decoder keeps what a stream decoder promises\<close>

lemma read_never_waits: "read_end r \<noteq> Inr None" "read_moved m \<noteq> Inr None"
  by (auto simp: read_end_def read_moved_def split: sum.splits bool.splits option.splits)

lemma pipe_next_waits: "pipe_next ue um bs = (Inr None, rest) \<Longrightarrow> rest = bs"
  using read_never_waits
  by (cases bs) (auto simp: pipe_next_def Let_def split: option.splits if_splits)

lemma pipe_next_cases:
  assumes "pipe_next ue um bs = (r, rest)"
  shows "(r = Inr None \<and> rest = bs) \<or> (\<exists>later e. r = Inl e \<and> bs = later @ rest)
     \<or> (\<exists>f taken. r = Inr (Some f) \<and> taken \<noteq> [] \<and> bs = taken @ rest)"
proof (cases "r = Inr None")
  case True
  then show ?thesis using pipe_next_waits assms by blast
next
  case False
  show ?thesis
  proof (cases bs)
    case Nil
    then show ?thesis using assms by (simp add: pipe_next_def)
  next
    case (Cons kind tl)
    have "\<exists>n>0. rest = drop n bs \<or> (rest = bs \<and> isl r)"
      using assms Cons False
      by (auto simp: pipe_next_def Let_def HEAD_BYTES_def split: option.splits if_splits
            intro: exI [of _ 1] exI [of _ "5 + be_nat (take 4 tl)"])
    then obtain n where n: "0 < n" "rest = drop n bs \<or> (rest = bs \<and> isl r)" by blast
    have split: "bs = take n bs @ drop n bs" "take n bs \<noteq> []" using n(1) Cons by simp_all
    show ?thesis
    proof (cases r)
      case (Inl e)
      then show ?thesis using n(2) split(1) by (metis append_Nil)
    next
      case (Inr x)
      then obtain f where "r = Inr (Some f)" using False by (cases x) auto
      moreover from this have "bs = take n bs @ rest" using n(2) split(1) by auto
      ultimately show ?thesis using split(2) by blast
    qed
  qed
qed

lemma drop_head: "drop (5 + n) (k # xs) = drop (4 + n) xs"
  by (simp add: eval_nat_numeral)

lemma pipe_next_more:
  assumes "pipe_next ue um bs = (r, rest)" "r \<noteq> Inr None"
  shows "pipe_next ue um (bs @ later) = (r, rest @ later)"
proof (cases bs)
  case Nil
  then show ?thesis using assms by (simp add: pipe_next_def)
next
  case (Cons kind tl)
  show ?thesis
  proof (cases "kind = IDLE_KIND \<or> kind_limit kind = None")
    case True
    then show ?thesis using assms Cons by (auto simp: pipe_next_def split: option.splits)
  next
    case False
    then obtain limit where limit: "kind_limit kind = Some limit" "kind \<noteq> IDLE_KIND" by auto
    have len: "5 \<le> length bs"
      using assms limit Cons by (auto simp: pipe_next_def HEAD_BYTES_def not_less split: if_splits)
    then have head: "take 4 (drop 1 (bs @ later)) = take 4 (drop 1 bs)" by simp
    show ?thesis
      using assms limit Cons len head
      by (auto simp: pipe_next_def Let_def HEAD_BYTES_def drop_head split: if_splits)
  qed
qed

interpretation pipes: stream_decoder "pipe_next ue um" for ue um
proof unfold_locales
  fix bs f rest later e
  show "pipe_next ue um bs = (Inr (Some f), rest) \<Longrightarrow> pipe_next ue um (bs @ later) = (Inr (Some f), rest @ later)"
    using pipe_next_more [of ue um bs "Inr (Some f)" rest later] by simp
  show "pipe_next ue um bs = (Inl e, rest) \<Longrightarrow> pipe_next ue um (bs @ later) = (Inl e, rest @ later)"
    using pipe_next_more [of ue um bs "Inl e" rest later] by simp
  show "pipe_next ue um bs = (Inr None, rest) \<Longrightarrow> rest = bs"
    using pipe_next_cases [of ue um bs "Inr None" rest] by auto
  show "pipe_next ue um bs = (Inr (Some f), rest) \<Longrightarrow> length rest < length bs"
    using pipe_next_cases [of ue um bs "Inr (Some f)" rest] by auto
qed

section \<open>Frames are read as written\<close>

datatype pipe_item =
    SendData "byte list"
  | SendIdle
  | SendEnd pipe_end
  | SendMoved pipe_path u64 string

fun written_item :: "(end_record \<Rightarrow> byte list) \<Rightarrow> (moved_record \<Rightarrow> byte list) \<Rightarrow> pipe_item \<Rightarrow> byte list" where
  "written_item pe pm (SendData bytes) = encode_data bytes []"
| "written_item pe pm SendIdle = idle_frame"
| "written_item pe pm (SendEnd ending) = end_frame pe ending"
| "written_item pe pm (SendMoved to at source) = moved_frame pm to at source"

text \<open>A writer keeps the words of an end and the name of a source within their limits.\<close>

fun fits :: "(end_record \<Rightarrow> byte list) \<Rightarrow> (moved_record \<Rightarrow> byte list) \<Rightarrow> pipe_item \<Rightarrow> bool" where
  "fits pe pm (SendEnd ending) = (length (end_frame pe ending) \<le> HEAD_BYTES + PIPE_END_BYTES)"
| "fits pe pm (SendMoved to at source) = (length (moved_frame pm to at source) \<le> HEAD_BYTES + PIPE_MOVED_BYTES)"
| "fits pe pm _ = True"

fun frames_of :: "pipe_item \<Rightarrow> pipe_frame list" where
  "frames_of (SendData bytes) = map PipeData (slices PIPE_DATA_BYTES bytes)"
| "frames_of SendIdle = [PipeIdle]"
| "frames_of (SendEnd ending) = [PipeEnd ending]"
| "frames_of (SendMoved to at source) = [PipeMoved to at source]"

fun payload :: "pipe_frame \<Rightarrow> byte list" where
  "payload (PipeData bytes) = bytes"
| "payload _ = []"

fun sent_bytes :: "pipe_item \<Rightarrow> byte list" where
  "sent_bytes (SendData bytes) = bytes"
| "sent_bytes _ = []"

lemma framed_next:
  assumes "kind \<noteq> IDLE_KIND" "kind_limit kind = Some limit" "length body \<le> limit"
  shows "pipe_next ue um (framed kind body) =
     (if kind = DATA_KIND then Inr (Some (PipeData body))
      else if kind = MOVED_KIND then read_moved (um body) else read_end (ue body), [])"
proof -
  have "limit < 256 ^ 4"
    using assms(2) by (auto simp: kind_limit_def PIPE_DATA_BYTES_def PIPE_END_BYTES_def PIPE_MOVED_BYTES_def split: if_splits)
  then have len: "be_nat (be_bytes 4 (length body)) = length body" using assms(3) by (intro be_nat_bytes_small) simp
  have parts: "take 4 (be_bytes 4 (length body) @ body) = be_bytes 4 (length body)"
    "drop 4 (be_bytes 4 (length body) @ body) = body"
    by (simp_all only: take_be_bytes_append drop_be_bytes_append)
  have cut: "drop 5 (framed kind body) = body" "drop (5 + length body) (framed kind body) = []"
    using parts(2) drop_head [of 0 kind] drop_head [of "length body" kind] by (simp_all add: framed_def)
  have head: "framed kind body = kind # be_bytes 4 (length body) @ body" "take 4 (drop 1 (framed kind body)) = be_bytes 4 (length body)"
    using parts(1) by (simp_all add: framed_def)
  have "length (framed kind body) = 5 + length body" by (simp add: framed_def)
  then show ?thesis
    unfolding pipe_next_def HEAD_BYTES_def
    using assms cut head(2) len by (simp add: head(1) Let_def)
qed

lemma item_frames:
  assumes "\<And>r. ue (pe r) = Inr r" "\<And>r. um (pm r) = Inr r" "fits pe pm item"
  shows "\<exists>encoded. written_item pe pm item = concat encoded
     \<and> list_all2 (\<lambda>bs f. pipe_next ue um bs = (Inr (Some f), [])) encoded (frames_of item)"
proof (cases item)
  case (SendData bytes)
  have "pipe_next ue um (framed DATA_KIND s) = (Inr (Some (PipeData s)), [])"
    if "s \<in> set (slices PIPE_DATA_BYTES bytes)" for s
    using framed_next [of DATA_KIND PIPE_DATA_BYTES s] slices_sizes [OF that] by simp
  then have "list_all2 (\<lambda>bs f. pipe_next ue um bs = (Inr (Some f), []))
      (map (framed DATA_KIND) (slices PIPE_DATA_BYTES bytes)) (map PipeData (slices PIPE_DATA_BYTES bytes))"
    by (simp add: list_all2_map1 list_all2_map2 list.rel_refl_strong)
  then show ?thesis using SendData by (auto simp: encode_data_def)
next
  case SendIdle
  have "pipe_next ue um [IDLE_KIND] = (Inr (Some PipeIdle), [])" by (simp add: pipe_next_def)
  then show ?thesis using SendIdle by (intro exI [of _ "[idle_frame]"]) (simp add: idle_frame_def)
next
  case (SendEnd ending)
  then have "pipe_next ue um (end_frame pe ending) = (Inr (Some (PipeEnd ending)), [])"
    using assms framed_next [of END_KIND PIPE_END_BYTES]
    by (auto simp: end_frame_def framed_def HEAD_BYTES_def read_end_def split: option.splits)
  then show ?thesis using SendEnd by (intro exI [of _ "[end_frame pe ending]"]) simp
next
  case (SendMoved to at source)
  then have "pipe_next ue um (moved_frame pm to at source) = (Inr (Some (PipeMoved to at source)), [])"
    using assms framed_next [of MOVED_KIND PIPE_MOVED_BYTES]
    by (auto simp: moved_frame_def framed_def HEAD_BYTES_def read_moved_def)
  then show ?thesis using SendMoved by (intro exI [of _ "[moved_frame pm to at source]"]) simp
qed

lemma items_frames:
  assumes "\<And>r. ue (pe r) = Inr r" "\<And>r. um (pm r) = Inr r" "list_all (fits pe pm) items"
  shows "\<exists>encoded. concat (map (written_item pe pm) items) = concat encoded
     \<and> list_all2 (\<lambda>bs f. pipe_next ue um bs = (Inr (Some f), [])) encoded (concat (map frames_of items))"
  using assms(3)
proof (induction items)
  case Nil
  show ?case by (intro exI [of _ "[]"]) simp
next
  case (Cons item items)
  obtain e1 e2 where "written_item pe pm item = concat e1"
    "list_all2 (\<lambda>bs f. pipe_next ue um bs = (Inr (Some f), [])) e1 (frames_of item)"
    "concat (map (written_item pe pm) items) = concat e2"
    "list_all2 (\<lambda>bs f. pipe_next ue um bs = (Inr (Some f), [])) e2 (concat (map frames_of items))"
    using item_frames [where item = item, OF assms(1,2)] Cons by (auto simp del: split_paired_Ex)
  then show ?case by (intro exI [of _ "e1 @ e2"]) (simp add: list_all2_appendI)
qed

lemma pipe_read:
  assumes "\<And>r. ue (pe r) = Inr r" "\<And>r. um (pm r) = Inr r" "list_all (fits pe pm) items"
    and "concat arrivals = concat (map (written_item pe pm) items)"
  shows "feed (pipe_next ue um) [] arrivals = (concat (map frames_of items), None, [])"
proof -
  have empty: "pipe_next ue um [] = (Inr None, [])" by (simp add: pipe_next_def)
  obtain encoded where e: "concat (map (written_item pe pm) items) = concat encoded"
    "list_all2 (\<lambda>bs f. pipe_next ue um bs = (Inr (Some f), [])) encoded (concat (map frames_of items))"
    using items_frames [OF assms(1-3)] by blast
  have "drain (pipe_next ue um) [] = ([], None, [])"
    using pipes.drain_frames [of ue um "[]" "[]"] empty by simp
  then have "feed (pipe_next ue um) [] arrivals = drain (pipe_next ue um) (concat arrivals)"
    using pipes.feed_pieces [of ue um "[]" arrivals] by simp
  then show ?thesis using pipes.drain_frames [OF e(2) empty] assms(4) e(1) by simp
qed

lemma frames_payload: "concat (map payload (frames_of item)) = sent_bytes item"
  by (cases item) (simp_all add: comp_def concat_slices PIPE_DATA_BYTES_def)

lemma frames_payloads: "concat (map payload (concat (map frames_of items))) = concat (map sent_bytes items)"
  by (induction items) (simp_all add: frames_payload)

lemma frames_sizes: "f \<in> set (frames_of item) \<Longrightarrow> length (payload f) \<le> PIPE_DATA_BYTES"
  by (cases item) (auto dest: slices_sizes)

text \<open>What it hands on and what it holds are small, whatever it is sent.\<close>

lemma frame_small: "pipe_next ue um bs = (Inr (Some f), rest) \<Longrightarrow> length (payload f) \<le> PIPE_DATA_BYTES"
  by (auto simp: pipe_next_def Let_def read_end_def read_moved_def kind_limit_def
      split: list.splits option.splits if_splits sum.splits bool.splits)

lemma waiting_small: "pipe_next ue um rest = (Inr None, rest) \<Longrightarrow> length rest < HEAD_BYTES + PIPE_DATA_BYTES"
  using read_never_waits
  by (auto simp: pipe_next_def Let_def kind_limit_def PIPE_DATA_BYTES_def PIPE_END_BYTES_def PIPE_MOVED_BYTES_def
      HEAD_BYTES_def split: list.splits option.splits if_splits)

end
