(* ===== verification/Live_Frames.thy ===== *)
theory Live_Frames imports Framing begin

text \<open>
  The frames of a live view (\<open>crates/live-view-protocol/src/lib.rs\<close>,
  \<open>crates/live-view/src/frames.rs\<close>): the splitter of the stream, the header of a picture's chunk,
  the acknowledgements of chunks, and the chunks a picture is sent in. A time, an \<open>f64\<close>, is its
  64 bits, which travel as they are. The lemmas show that headers and acknowledgements are read as
  written, and that a picture's chunks are read back in order with all of its data, in whatever
  pieces the stream brings them, none larger than a chunk may be on the wire.
\<close>

definition CONTROL_FRAME :: byte where
  "CONTROL_FRAME = 1"

definition VIDEO_FRAME :: byte where
  "VIDEO_FRAME = 2"

definition ACK_FRAME :: byte where
  "ACK_FRAME = 3"

definition CHUNK_BYTES :: nat where
  "CHUNK_BYTES = 16 * 1024"

definition MAX_FRAME_BYTES :: nat where
  "MAX_FRAME_BYTES = 16 * 1024 * 1024"

definition VIDEO_HEADER_BYTES :: nat where
  "VIDEO_HEADER_BYTES = 44"

definition SOURCE_BYTES :: nat where
  "SOURCE_BYTES = 16"

definition CHUNK_DATA :: nat where
  "CHUNK_DATA = CHUNK_BYTES - 5 - VIDEO_HEADER_BYTES"

definition ACK_BYTES :: nat where
  "ACK_BYTES = 20"

lemmas live_sizes = CHUNK_BYTES_def MAX_FRAME_BYTES_def VIDEO_HEADER_BYTES_def SOURCE_BYTES_def
  CHUNK_DATA_def ACK_BYTES_def

section \<open>Splitting the stream\<close>

record live_frame =
  lf_kind :: byte
  lf_payload :: "byte list"

datatype frame_error = BadLength

definition next_raw :: "(frame_error, byte list) decoder" where
  "next_raw pending =
     (if length pending < 4 then (Inr None, pending)
      else
        let len = be_nat (take 4 pending)
        in if len = 0 \<or> MAX_FRAME_BYTES < len then (Inl BadLength, pending)
           else if length pending < 4 + len then (Inr None, pending)
           else (Inr (Some (take (4 + len) pending)), drop (4 + len) pending))"

definition live_next :: "(frame_error, live_frame) decoder" where
  "live_next pending =
     (case next_raw pending of
        (Inr (Some raw), rest) \<Rightarrow> (Inr (Some \<lparr>lf_kind = raw ! 4, lf_payload = drop 5 raw\<rparr>), rest)
      | (Inr None, rest) \<Rightarrow> (Inr None, rest)
      | (Inl e, rest) \<Rightarrow> (Inl e, rest))"

definition raw_kind :: "byte list \<Rightarrow> byte" where
  "raw_kind raw = raw ! 4"

lemma next_raw_more:
  "next_raw bs = (r, rest) \<Longrightarrow> r \<noteq> Inr None \<Longrightarrow> next_raw (bs @ later) = (r, rest @ later)"
  by (auto simp: next_raw_def Let_def split: if_splits)

interpretation raws: stream_decoder next_raw
proof unfold_locales
  fix bs f rest later e
  show "next_raw bs = (Inr (Some f), rest) \<Longrightarrow> next_raw (bs @ later) = (Inr (Some f), rest @ later)"
    using next_raw_more by blast
  show "next_raw bs = (Inl e, rest) \<Longrightarrow> next_raw (bs @ later) = (Inl e, rest @ later)"
    using next_raw_more by blast
  show "next_raw bs = (Inr None, rest) \<Longrightarrow> rest = bs"
    by (auto simp: next_raw_def Let_def split: if_splits)
  show "next_raw bs = (Inr (Some f), rest) \<Longrightarrow> length rest < length bs"
    by (auto simp: next_raw_def Let_def split: if_splits)
qed

interpretation lives: stream_decoder live_next
proof unfold_locales
  fix bs f rest later e
  show "live_next bs = (Inr (Some f), rest) \<Longrightarrow> live_next (bs @ later) = (Inr (Some f), rest @ later)"
    by (auto simp: live_next_def dest: raws.next_frame [where more = later] split: prod.splits sum.splits option.splits)
  show "live_next bs = (Inl e, rest) \<Longrightarrow> live_next (bs @ later) = (Inl e, rest @ later)"
    by (auto simp: live_next_def dest: raws.next_error [where more = later] split: prod.splits sum.splits option.splits)
  show "live_next bs = (Inr None, rest) \<Longrightarrow> rest = bs"
    by (auto simp: live_next_def dest: raws.next_waits split: prod.splits sum.splits option.splits)
  show "live_next bs = (Inr (Some f), rest) \<Longrightarrow> length rest < length bs"
    by (auto simp: live_next_def dest: raws.next_takes split: prod.splits sum.splits option.splits)
qed

section \<open>A chunk's header\<close>

text \<open>\<open>SourceId\<close>: 1 to 16 graphic ASCII characters.\<close>

definition is_source :: "string \<Rightarrow> bool" where
  "is_source s =
     (s \<noteq> [] \<and> length s \<le> SOURCE_BYTES \<and> list_all (\<lambda>c. (33 :: nat) \<le> of_char c \<and> of_char c \<le> (126 :: nat)) s)"

record video_header =
  vh_source :: string
  vh_generation :: u32
  vh_sequence :: u32
  vh_chunk :: u16
  vh_chunks :: u16
  vh_key :: bool
  vh_padding :: bool
  vh_timestamp :: u64
  vh_width :: u16
  vh_height :: u16

definition flag_bits :: "bool \<Rightarrow> bool \<Rightarrow> byte" where
  "flag_bits key padding = (if key then 1 else 0) + (if padding then 2 else 0)"

definition write_header :: "video_header \<Rightarrow> byte list" where
  "write_header h =
     to_bytes (vh_source h) @ replicate (SOURCE_BYTES - length (vh_source h)) 0
     @ be_bytes 4 (unat (vh_generation h)) @ be_bytes 4 (unat (vh_sequence h))
     @ be_bytes 2 (unat (vh_chunk h)) @ be_bytes 2 (unat (vh_chunks h))
     @ [flag_bits (vh_key h) (vh_padding h)] @ [0, 0, 0]
     @ be_bytes 8 (unat (vh_timestamp h))
     @ be_bytes 2 (unat (vh_width h)) @ be_bytes 2 (unat (vh_height h))"

text \<open>Why a payload is no chunk; the words of each error are not modelled.\<close>

datatype header_error = ShortHeader | SourceNotUtf8 | NotSource string | NotInFrame u16 u16

definition field :: "byte list \<Rightarrow> nat \<Rightarrow> nat \<Rightarrow> nat" where
  "field fs at count = be_nat (take count (drop at fs))"

definition header_of :: "string \<Rightarrow> byte list \<Rightarrow> video_header" where
  "header_of s fs =
     \<lparr>vh_source = s,
      vh_generation = word_of_nat (field fs 0 4),
      vh_sequence = word_of_nat (field fs 4 4),
      vh_chunk = word_of_nat (field fs 8 2),
      vh_chunks = word_of_nat (field fs 10 2),
      vh_key = (and (fs ! 12) 1 = 1),
      vh_padding = (and (fs ! 12) 2 = 2),
      vh_timestamp = word_of_nat (field fs 16 8),
      vh_width = word_of_nat (field fs 24 2),
      vh_height = word_of_nat (field fs 26 2)\<rparr>"

definition split_header :: "byte list \<Rightarrow> header_error + (video_header \<times> byte list)" where
  "split_header payload =
     (if length payload < VIDEO_HEADER_BYTES then Inl ShortHeader
      else
        let header = take VIDEO_HEADER_BYTES payload;
            source = take SOURCE_BYTES header;
            fs = drop SOURCE_BYTES header;
            len = (case position (\<lambda>b. b = 0) source of Some i \<Rightarrow> i | None \<Rightarrow> length source)
        in case from_utf8 (take len source) of
             None \<Rightarrow> Inl SourceNotUtf8
           | Some s \<Rightarrow>
               if \<not> is_source s then Inl (NotSource s)
               else
                 let h = header_of s fs
                 in if vh_chunks h = 0 \<or> vh_chunks h \<le> vh_chunk h
                    then Inl (NotInFrame (vh_chunk h) (vh_chunks h))
                    else Inr (h, drop VIDEO_HEADER_BYTES payload))"

lemma write_header_length: "is_source (vh_source h) \<Longrightarrow> length (write_header h) = VIDEO_HEADER_BYTES"
  by (simp add: write_header_def is_source_def live_sizes)

lemma flag_bits_read:
  "(and (flag_bits k p) 1 = 1) = k" "(and (flag_bits k p) 2 = 2) = p"
  by (cases k; cases p; simp add: flag_bits_def)+

lemma source_is_str: "is_source s \<Longrightarrow> is_str s"
  unfolding is_source_def by (intro ascii_is_str) (auto simp: list_all_iff)

lemma source_position:
  assumes "is_source s"
  shows "(case position (\<lambda>b. b = 0) (to_bytes s @ replicate n 0) of Some i \<Rightarrow> i
     | None \<Rightarrow> length (to_bytes s @ replicate n (0 :: byte))) = length s"
proof -
  have "\<forall>b\<in>set (to_bytes s). b \<noteq> 0"
  proof
    fix b assume "b \<in> set (to_bytes s)"
    then obtain c where c: "c \<in> set s" "b = word_of_nat (of_char c)" by (auto simp: to_bytes_def)
    then have "33 \<le> (of_char c :: nat)" "(of_char c :: nat) \<le> 126"
      using assms by (auto simp: is_source_def list_all_iff)
    then have "unat b = of_char c" using c(2) by (simp add: unat_of_nat)
    then show "b \<noteq> 0" using \<open>33 \<le> (of_char c :: nat)\<close> by auto
  qed
  then have "position (\<lambda>b. b = 0) (to_bytes s @ replicate n 0)
      = map_option ((+) (length s)) (position (\<lambda>b. b = (0 :: byte)) (replicate n 0))"
    by (simp add: position_append)
  then show ?thesis by (cases n) simp_all
qed

lemma field_at: "length pre = at \<Longrightarrow> length bs = count \<Longrightarrow> field (pre @ bs @ rest) at count = be_nat bs"
  by (simp add: field_def)

lemma header_of_written:
  "header_of s (be_bytes 4 (unat (vh_generation h)) @ be_bytes 4 (unat (vh_sequence h))
     @ be_bytes 2 (unat (vh_chunk h)) @ be_bytes 2 (unat (vh_chunks h))
     @ [flag_bits (vh_key h) (vh_padding h)] @ [0, 0, 0] @ be_bytes 8 (unat (vh_timestamp h))
     @ be_bytes 2 (unat (vh_width h)) @ be_bytes 2 (unat (vh_height h))) = h\<lparr>vh_source := s\<rparr>"
proof -
  let ?g = "be_bytes 4 (unat (vh_generation h))" and ?q = "be_bytes 4 (unat (vh_sequence h))"
  let ?c = "be_bytes 2 (unat (vh_chunk h))" and ?cs = "be_bytes 2 (unat (vh_chunks h))"
  let ?fl = "[flag_bits (vh_key h) (vh_padding h)]"
  let ?t = "be_bytes 8 (unat (vh_timestamp h))"
  let ?w = "be_bytes 2 (unat (vh_width h))" and ?h = "be_bytes 2 (unat (vh_height h))"
  define fs where "fs = ?g @ ?q @ ?c @ ?cs @ ?fl @ [0, 0, 0] @ ?t @ ?w @ ?h"
  have f: "field fs 0 4 = be_nat ?g" "field fs 4 4 = be_nat ?q" "field fs 8 2 = be_nat ?c"
    "field fs 10 2 = be_nat ?cs" "field fs 16 8 = be_nat ?t" "field fs 24 2 = be_nat ?w"
    "field fs 26 2 = be_nat ?h" "fs ! 12 = flag_bits (vh_key h) (vh_padding h)"
    unfolding fs_def
    using field_at [of "[]" 0 ?g 4] field_at [of ?g 4 ?q 4] field_at [of "?g @ ?q" 8 ?c 2]
      field_at [of "?g @ ?q @ ?c" 10 ?cs 2] field_at [of "?g @ ?q @ ?c @ ?cs @ ?fl @ [0, 0, 0]" 16 ?t 8]
      field_at [of "?g @ ?q @ ?c @ ?cs @ ?fl @ [0, 0, 0] @ ?t" 24 ?w 2]
      field_at [of "?g @ ?q @ ?c @ ?cs @ ?fl @ [0, 0, 0] @ ?t @ ?w" 26 ?h 2 "[]"]
    by (simp_all add: nth_append)
  show ?thesis
    unfolding fs_def [symmetric] header_of_def f flag_bits_read by (cases h) simp
qed

lemma split_write:
  assumes "is_source (vh_source h)" "vh_chunks h \<noteq> 0" "vh_chunk h < vh_chunks h"
  shows "split_header (write_header h @ body) = Inr (h, body)"
proof -
  define src where "src = to_bytes (vh_source h) @ replicate (16 - length (vh_source h)) (0 :: byte)"
  define fs where "fs = drop 16 (write_header h)"
  have small: "length (vh_source h) \<le> 16" using assms(1) by (simp add: is_source_def SOURCE_BYTES_def)
  have payload: "write_header h = src @ fs" and len: "length src = 16"
    using small by (simp_all add: fs_def src_def write_header_def SOURCE_BYTES_def)
  have fs: "header_of (vh_source h) fs = h"
    using header_of_written [of "vh_source h" h] small by (simp add: fs_def write_header_def SOURCE_BYTES_def)
  have all: "length fs = 28"
    using write_header_length [OF assms(1)] len by (simp add: payload VIDEO_HEADER_BYTES_def)
  have src: "(case position (\<lambda>b. b = 0) src of Some i \<Rightarrow> i | None \<Rightarrow> length src) = length (vh_source h)"
    unfolding src_def by (rule source_position [OF assms(1)])
  have taken: "take (length (vh_source h)) src = to_bytes (vh_source h)" by (simp add: src_def)
  have utf: "from_utf8 (to_bytes (vh_source h)) = Some (vh_source h)"
    by (rule from_utf8_to_bytes [OF source_is_str [OF assms(1)]])
  have "take 16 (take 44 (src @ fs @ body)) = src" "drop 16 (take 44 (src @ fs @ body)) = fs"
    "drop 44 (src @ fs @ body) = body" "\<not> length (src @ fs @ body) < 44"
    using len all by simp_all
  then show ?thesis
    unfolding split_header_def payload append_assoc VIDEO_HEADER_BYTES_def SOURCE_BYTES_def Let_def
    by (simp only: src taken utf fs option.case assms(1) not_True_eq_False if_False)
      (use assms in \<open>simp add: not_le\<close>)
qed

section \<open>Acknowledgements\<close>

record chunk_ack =
  ca_generation :: u32
  ca_sequence :: u32
  ca_chunk :: u16
  ca_padding :: bool
  ca_received :: u64

definition write_ack :: "chunk_ack \<Rightarrow> byte list" where
  "write_ack a =
     be_bytes 4 (unat (ca_generation a)) @ be_bytes 4 (unat (ca_sequence a))
     @ be_bytes 2 (unat (ca_chunk a)) @ [if ca_padding a then 1 else 0, 0]
     @ be_bytes 8 (unat (ca_received a))"

definition ack_of :: "byte list \<Rightarrow> chunk_ack" where
  "ack_of entry =
     \<lparr>ca_generation = word_of_nat (field entry 0 4), ca_sequence = word_of_nat (field entry 4 4),
      ca_chunk = word_of_nat (field entry 8 2), ca_padding = (and (entry ! 10) 1 = 1),
      ca_received = word_of_nat (field entry 12 8)\<rparr>"

text \<open>\<open>None\<close> refuses a payload whose length is no positive multiple of an acknowledgement's.\<close>

definition split_acks :: "byte list \<Rightarrow> chunk_ack list option" where
  "split_acks payload =
     (if payload = [] \<or> length payload mod ACK_BYTES \<noteq> 0 then None
      else Some (map ack_of (slices ACK_BYTES payload)))"

lemma write_ack_length [simp]: "length (write_ack a) = ACK_BYTES"
  by (simp add: write_ack_def ACK_BYTES_def)

lemma ack_of_written: "ack_of (write_ack a) = a"
proof -
  let ?g = "be_bytes 4 (unat (ca_generation a))" and ?q = "be_bytes 4 (unat (ca_sequence a))"
  let ?c = "be_bytes 2 (unat (ca_chunk a))" and ?p = "[if ca_padding a then 1 else 0 :: byte, 0]"
  let ?r = "be_bytes 8 (unat (ca_received a))"
  define bs where "bs = ?g @ ?q @ ?c @ ?p @ ?r"
  have f: "field bs 0 4 = be_nat ?g" "field bs 4 4 = be_nat ?q" "field bs 8 2 = be_nat ?c"
    "field bs 12 8 = be_nat ?r" "bs ! 10 = (if ca_padding a then 1 else 0)"
    unfolding bs_def
    using field_at [of "[]" 0 ?g 4] field_at [of ?g 4 ?q 4] field_at [of "?g @ ?q" 8 ?c 2]
      field_at [of "?g @ ?q @ ?c @ ?p" 12 ?r 8 "[]"]
    by (simp_all add: nth_append)
  have "write_ack a = bs" by (simp add: write_ack_def bs_def)
  then show ?thesis unfolding ack_of_def by (simp only: f be_u16 be_u32 be_u64) (cases a; simp)
qed

lemma slices_concat:
  "0 < n \<Longrightarrow> list_all (\<lambda>x. length x = n) xs \<Longrightarrow> slices n (concat xs) = xs"
proof (induction xs)
  case (Cons x xs)
  then have "concat (x # xs) \<noteq> []" by auto
  then show ?case using Cons by (simp add: slices_step)
qed simp

lemma split_written_acks:
  assumes "as \<noteq> []"
  shows "split_acks (concat (map write_ack as)) = Some as"
proof -
  have len: "length (concat (map write_ack as)) = ACK_BYTES * length as"
    by (induction "as") simp_all
  have "slices ACK_BYTES (concat (map write_ack as)) = map write_ack as"
    by (rule slices_concat) (simp_all add: ACK_BYTES_def list_all_iff write_ack_def)
  moreover have "concat (map write_ack as) \<noteq> []"
    using assms len by (metis ACK_BYTES_def length_0_conv mult_is_0 zero_neq_numeral)
  ultimately show ?thesis
    by (simp add: split_acks_def len comp_def ack_of_written)
qed

section \<open>A picture's chunks\<close>

record encoded_frame =
  ef_sequence :: u32
  ef_key :: bool
  ef_repeat :: bool
  ef_timestamp :: u64
  ef_width :: u16
  ef_height :: u16
  ef_data :: "byte list"

text \<open>
  A frame of \<open>kind\<close>. The code panics for a payload of 4 GiB or more, which nothing here writes.
\<close>

definition live_framed :: "byte \<Rightarrow> byte list \<Rightarrow> byte list" where
  "live_framed kind body = be_bytes 4 (1 + length body) @ kind # body"

definition chunk_header :: "string \<Rightarrow> u32 \<Rightarrow> encoded_frame \<Rightarrow> nat \<Rightarrow> nat \<Rightarrow> video_header" where
  "chunk_header source generation frame count i =
     \<lparr>vh_source = source, vh_generation = generation, vh_sequence = ef_sequence frame,
      vh_chunk = word_of_nat i, vh_chunks = word_of_nat count, vh_key = ef_key frame,
      vh_padding = False, vh_timestamp = ef_timestamp frame, vh_width = ef_width frame,
      vh_height = ef_height frame\<rparr>"

definition chunks_of :: "string \<Rightarrow> u32 \<Rightarrow> encoded_frame \<Rightarrow> byte list list option" where
  "chunks_of source generation frame =
     (let pieces = slices CHUNK_DATA (ef_data frame);
          count = max (length pieces) 1;
          header = (\<lambda>i. write_header (chunk_header source generation frame count i))
      in if 2 ^ 16 \<le> count then None
         else if ef_data frame = [] then Some [live_framed VIDEO_FRAME (header 0)]
         else Some (map (\<lambda>i. live_framed VIDEO_FRAME (header i @ pieces ! i)) [0..<length pieces]))"

definition padding_chunk :: "string \<Rightarrow> u32 \<Rightarrow> u32 \<Rightarrow> u16 \<Rightarrow> u16 \<Rightarrow> nat \<Rightarrow> byte list" where
  "padding_chunk source generation probe chunk count bytes =
     (let head = write_header
            \<lparr>vh_source = source, vh_generation = generation, vh_sequence = probe, vh_chunk = chunk,
             vh_chunks = count, vh_key = False, vh_padding = True, vh_timestamp = 0, vh_width = 0,
             vh_height = 0\<rparr>;
          filler = min (bytes - (5 + length head)) CHUNK_DATA
      in live_framed VIDEO_FRAME (head @ replicate filler 0))"

lemma framed_live_next:
  assumes "length body < MAX_FRAME_BYTES"
  shows "live_next (live_framed kind body) = (Inr (Some \<lparr>lf_kind = kind, lf_payload = body\<rparr>), [])"
proof -
  define head where "head = be_bytes 4 (1 + length body)"
  have len: "length head = 4" by (simp add: head_def)
  have n: "be_nat head = 1 + length body"
    unfolding head_def using assms by (intro be_nat_bytes_small) (simp add: MAX_FRAME_BYTES_def)
  have bs: "live_framed kind body = head @ kind # body" by (simp add: live_framed_def head_def)
  have "next_raw (head @ kind # body) = (Inr (Some (head @ kind # body)), [])"
    using assms len n by (simp add: next_raw_def Let_def)
  then show ?thesis
    using len by (simp add: live_next_def bs nth_append)
qed

text \<open>What a page reads: the chunk's frame, with the header the sender gave it and its part of the data.\<close>

lemma chunk_lt: "i < n \<Longrightarrow> n < 2 ^ 16 \<Longrightarrow> (word_of_nat i :: u16) < word_of_nat n"
  by (simp add: word_less_nat_alt unat_of_nat)

lemma chunk_next:
  assumes "is_source source" "length part \<le> CHUNK_DATA" "i < count" "count < 2 ^ 16"
  shows "live_next (live_framed VIDEO_FRAME (write_header (chunk_header source generation frame count i) @ part))
      = (Inr (Some \<lparr>lf_kind = VIDEO_FRAME,
           lf_payload = write_header (chunk_header source generation frame count i) @ part\<rparr>), [])"
    and "split_header (write_header (chunk_header source generation frame count i) @ part)
      = Inr (chunk_header source generation frame count i, part)"
    and "length (live_framed VIDEO_FRAME (write_header (chunk_header source generation frame count i) @ part))
      \<le> CHUNK_BYTES"
proof -
  let ?h = "chunk_header source generation frame count i"
  have len: "length (write_header ?h) = VIDEO_HEADER_BYTES"
    using assms(1) by (intro write_header_length) (simp add: chunk_header_def)
  show "live_next (live_framed VIDEO_FRAME (write_header ?h @ part))
      = (Inr (Some \<lparr>lf_kind = VIDEO_FRAME, lf_payload = write_header ?h @ part\<rparr>), [])"
    by (rule framed_live_next) (use assms(2) len in \<open>simp add: live_sizes\<close>)
  have less: "vh_chunk ?h < vh_chunks ?h"
    using chunk_lt [OF assms(3,4)] by (simp add: chunk_header_def)
  then show "split_header (write_header ?h @ part) = Inr (?h, part)"
    using assms(1) by (intro split_write) (auto simp: chunk_header_def)
  show "length (live_framed VIDEO_FRAME (write_header ?h @ part)) \<le> CHUNK_BYTES"
    using assms(2) len by (simp add: live_framed_def live_sizes)
qed

text \<open>The parts of a picture's data, one per chunk; a picture with no data has one empty part.\<close>

definition parts_of :: "byte list \<Rightarrow> byte list list" where
  "parts_of bytes = (if bytes = [] then [[]] else slices CHUNK_DATA bytes)"

lemma parts_of_facts:
  "concat (parts_of bytes) = bytes" "list_all (\<lambda>p. length p \<le> CHUNK_DATA) (parts_of bytes)"
  "length (parts_of bytes) = max (length (slices CHUNK_DATA bytes)) 1"
proof -
  have pos: "0 < CHUNK_DATA" by (simp add: live_sizes)
  show "concat (parts_of bytes) = bytes" using pos by (simp add: parts_of_def concat_slices)
  show "list_all (\<lambda>p. length p \<le> CHUNK_DATA) (parts_of bytes)"
    by (auto simp: parts_of_def list_all_iff dest: slices_sizes)
  show "length (parts_of bytes) = max (length (slices CHUNK_DATA bytes)) 1"
    using pos by (simp add: parts_of_def slices_step)
qed

definition chunk_bytes_of :: "string \<Rightarrow> u32 \<Rightarrow> encoded_frame \<Rightarrow> nat \<Rightarrow> byte list" where
  "chunk_bytes_of source generation frame i =
     write_header (chunk_header source generation frame (length (parts_of (ef_data frame))) i)
       @ parts_of (ef_data frame) ! i"

lemma chunks_of_parts:
  "chunks_of source generation frame =
     (if 2 ^ 16 \<le> length (parts_of (ef_data frame)) then None
      else Some (map (\<lambda>i. live_framed VIDEO_FRAME (chunk_bytes_of source generation frame i))
             [0..<length (parts_of (ef_data frame))]))"
proof (cases "ef_data frame = []")
  case True
  then show ?thesis by (simp add: chunks_of_def parts_of_def chunk_bytes_of_def)
next
  case False
  then have "max (length (slices CHUNK_DATA (ef_data frame))) 1 = length (slices CHUNK_DATA (ef_data frame))"
    by (simp add: slices_step live_sizes)
  then show ?thesis
    using False by (simp add: chunks_of_def Let_def parts_of_def chunk_bytes_of_def)
qed

lemma picture_read:
  assumes "is_source source" "chunks_of source generation frame = Some chunks"
    and "concat arrivals = concat chunks"
  shows "feed live_next [] arrivals =
      (map (\<lambda>i. \<lparr>lf_kind = VIDEO_FRAME, lf_payload = chunk_bytes_of source generation frame i\<rparr>)
         [0..<length (parts_of (ef_data frame))], None, [])"
    and "i < length (parts_of (ef_data frame)) \<Longrightarrow> split_header (chunk_bytes_of source generation frame i)
      = Inr (chunk_header source generation frame (length (parts_of (ef_data frame))) i, parts_of (ef_data frame) ! i)"
    and "list_all (\<lambda>c. length c \<le> CHUNK_BYTES) chunks"
proof -
  let ?n = "length (parts_of (ef_data frame))"
  have n: "?n < 2 ^ 16" and chunks: "chunks = map (\<lambda>i. live_framed VIDEO_FRAME (chunk_bytes_of source generation frame i)) [0..<?n]"
    using assms(2) by (auto simp: chunks_of_parts not_le split: if_splits)
  have part: "length (parts_of (ef_data frame) ! i) \<le> CHUNK_DATA" if "i < ?n" for i
    using parts_of_facts(2) [of "ef_data frame"] that by (simp add: list_all_length)
  have C: "live_next (live_framed VIDEO_FRAME (chunk_bytes_of source generation frame i))
      = (Inr (Some \<lparr>lf_kind = VIDEO_FRAME, lf_payload = chunk_bytes_of source generation frame i\<rparr>), [])"
    "split_header (chunk_bytes_of source generation frame i)
      = Inr (chunk_header source generation frame ?n i, parts_of (ef_data frame) ! i)"
    "length (live_framed VIDEO_FRAME (chunk_bytes_of source generation frame i)) \<le> CHUNK_BYTES"
    if "i < ?n" for i
    using chunk_next [OF assms(1) part [OF that] that n] by (simp_all add: chunk_bytes_of_def)
  show "i < ?n \<Longrightarrow> split_header (chunk_bytes_of source generation frame i)
      = Inr (chunk_header source generation frame ?n i, parts_of (ef_data frame) ! i)"
    by (rule C(2))
  show "list_all (\<lambda>c. length c \<le> CHUNK_BYTES) chunks"
    using C(3) by (simp add: chunks list_all_length)
  have empty: "live_next [] = (Inr None, [])" by (simp add: live_next_def next_raw_def)
  have "list_all2 (\<lambda>bs f. live_next bs = (Inr (Some f), [])) chunks
      (map (\<lambda>i. \<lparr>lf_kind = VIDEO_FRAME, lf_payload = chunk_bytes_of source generation frame i\<rparr>) [0..<?n])"
    using C(1) by (simp add: chunks list_all2_conv_all_nth)
  from lives.drain_frames [OF this empty] lives.feed_pieces [of "[]" arrivals] lives.drain_frames [of "[]" "[]"] empty
  show "feed live_next [] arrivals =
      (map (\<lambda>i. \<lparr>lf_kind = VIDEO_FRAME, lf_payload = chunk_bytes_of source generation frame i\<rparr>) [0..<?n], None, [])"
    using assms(3) by simp
qed

text \<open>
  The reader of a user stream (\<open>Reader::next\<close>): it takes frames as the chunks of its input arrive,
  and a stream that ends inside a frame ends in an error.
\<close>

datatype live_end = EndedWhole | EndedInside | EndedBad frame_error

definition read_stream :: "byte list list \<Rightarrow> live_frame list \<times> live_end" where
  "read_stream arrivals =
     (case feed live_next [] arrivals of
        (frames, Some e, _) \<Rightarrow> (frames, EndedBad e)
      | (frames, None, rest) \<Rightarrow> (frames, if rest = [] then EndedWhole else EndedInside))"

end
