(* ===== verification/Wire_Properties.thy ===== *)
theory Wire_Properties imports Handshake Lanes Pipe_Frames Live_Frames begin

text \<open>
  What the link of a runner, the pipes, the live views and the lanes promise of the bytes they carry:
  the properties of the theories \<open>Wire_Session\<close>, \<open>Link\<close>, \<open>Handshake\<close>, \<open>Pipe_Frames\<close>,
  \<open>Live_Frames\<close> and \<open>Lanes\<close>.
\<close>

section \<open>The link's session\<close>

text \<open>
  C19. Whatever connections a runner and the backend open and lose, each end has handled exactly the
  messages the other wrote, in the order written, none twice and none left out, up to where it is;
  a message that ends with its connection may come as nothing in its place.
\<close>

theorem link_handles_what_was_written:
  assumes "link_step\<^sup>*\<^sup>* link_start l"
  shows "length (lk_took l (peer_of s)) \<le> length (lk_sent l s)
    \<and> list_all2 delivered (lk_took l (peer_of s)) (take (length (lk_took l (peer_of s))) (lk_sent l s))"
  by (rule link_took [OF link_reaches_ok [OF assms]])

text \<open>A runner that writes one message, whose connection is lost, and that is served again.\<close>

lemma sample_link:
  "\<exists>l. link_step\<^sup>*\<^sup>* link_start l \<and> lk_sent l Runner = [([7], True)] \<and> lk_took l Backend = [Some [7]]"
proof -
  obtain m where m: "link_step\<^sup>*\<^sup>* link_start m" "served m" "\<forall>s. quiet m s" "lk_sent m = lk_sent link_start"
    using link_opens [OF link_start_ok] served_settles by (metis rtranclp_trans)
  have ok: "link_ok m" using m(2) by (simp add: served_def)
  obtain f e where fe: "session_stamp (lk_end m Runner) [7] True = (f, e)" by fastforce
  let ?w = "(push_wire m Runner f e)\<lparr>lk_sent := (lk_sent m)(Runner := lk_sent m Runner @ [([7], True)])\<rparr>"
  have w: "link_step m ?w"
    using m(2,3,4) by (intro link_step.Work Write [OF _ _ _ fe]) (simp_all add: served_open quiet_def link_start_def)
  obtain l where l: "link_step\<^sup>*\<^sup>* ?w l" "link_ok l" "lk_sent l = lk_sent ?w"
    "\<forall>s. length (lk_took l (peer_of s)) = length (lk_sent ?w s)"
    using link_delivers [OF link_step_ok [OF w ok]] by blast
  have sent: "lk_sent l Runner = [([7], True)]" using l(3) m(4) by (simp add: push_wire_def link_start_def)
  moreover have "list_all2 delivered (lk_took l Backend) [([7], True)]"
    using link_took [OF l(2), of Runner] l(4)[folded l(3), rule_format, of Runner] sent by simp
  then have "lk_took l Backend = [Some [7]]"
    by (auto simp: list_all2_Cons2 delivered_def split: option.splits)
  moreover have "link_step\<^sup>*\<^sup>* link_start l" using m(1) w l(1) by (meson converse_rtranclp_into_rtranclp rtranclp_trans)
  ultimately show ?thesis by blast
qed

theorem link_handles_what_was_written_witness:
  "\<exists>l. link_step\<^sup>*\<^sup>* link_start l \<and> lk_took l Backend = [Some [7]]
     \<and> list_all2 delivered (lk_took l Backend) (take (length (lk_took l Backend)) (lk_sent l Runner))"
proof -
  obtain l where l: "link_step\<^sup>*\<^sup>* link_start l" "lk_took l Backend = [Some [7]]" using sample_link by blast
  from link_handles_what_was_written [OF l(1), of Runner] l show ?thesis by auto
qed

text \<open>
  C20. From every state a link reaches, a connection can be opened and the work on it goes on until
  everything either end wrote has been handled by the other: nothing is lost for good, and neither
  end is ever stuck.
\<close>

theorem link_can_deliver_everything:
  assumes "link_step\<^sup>*\<^sup>* link_start l"
  shows "\<exists>l'. link_step\<^sup>*\<^sup>* l l' \<and> lk_sent l' = lk_sent l
    \<and> length (lk_took l' Runner) = length (lk_sent l Backend)
    \<and> length (lk_took l' Backend) = length (lk_sent l Runner)"
proof -
  obtain l' where l': "link_step\<^sup>*\<^sup>* l l'" "lk_sent l' = lk_sent l"
    "\<forall>s. length (lk_took l' (peer_of s)) = length (lk_sent l s)"
    using link_delivers [OF link_reaches_ok [OF assms]] by blast
  from l'(3)[rule_format, of Backend] l'(3)[rule_format, of Runner] l'(1,2) show ?thesis by auto
qed

theorem link_can_deliver_everything_witness:
  "\<exists>l l'. lk_sent l Runner = [([7], True)] \<and> link_step\<^sup>*\<^sup>* l l' \<and> length (lk_took l' Backend) = 1"
proof -
  obtain l where l: "link_step\<^sup>*\<^sup>* link_start l" "lk_sent l Runner = [([7], True)]" using sample_link by blast
  from link_can_deliver_everything [OF l(1)] l(2) show ?thesis by (metis length_Cons list.size(3) One_nat_def)
qed



text \<open>
  Reading any bytes at all, whatever their sender, changes of an end's counts only what the
  session allows: the messages it handled and the messages it wrote stay as counted, it forgets
  only messages the other end confirmed and those in order, and it waits for the next number
  exactly after a message or a skipped one.
\<close>

theorem read_keeps_the_counts:
  "case session_read e now frame of
     (r, e') \<Rightarrow>
       ws_received e' = ws_received e \<and> sent_count e' = sent_count e \<and> ws_confirmed e \<le> ws_confirmed e'
       \<and> ws_kept e' = drop (ws_confirmed e' - ws_confirmed e) (ws_kept e)
       \<and> ws_next e' = ws_next e + (case r of Inr (RMessage _) \<Rightarrow> 1 | Inr RSkipped \<Rightarrow> 1 | _ \<Rightarrow> 0)"
  by (auto simp: session_read_def read_numbered_def release_def sent_count_def Let_def
      split: list.split option.split if_split sum.split)

section \<open>Which session a connection carries on\<close>

text \<open>
  C23. Whenever a connection stands open at both ends, the runner and the backend are in the same
  session, however often either started anew and whatever connections were lost before, even
  between the backend's answer and the runner's reading it; each has handled exactly what the other
  wrote in this session, in order. And no session is ever given up because the runner could not
  resume the one the backend resumed.
\<close>

theorem connections_agree_on_the_session:
  assumes "pairing_step\<^sup>*\<^sup>* (pairing_start inst) p" "lk_open (pa_link p) Runner"
  shows "ls_number (pa_runner p) = Some (ds_number (pa_device p))
    \<and> ls_ended (pa_runner p) \<noteq> Some NOT_RESUMED
    \<and> length (lk_took (pa_link p) (peer_of s)) \<le> length (lk_sent (pa_link p) s)
    \<and> list_all2 delivered (lk_took (pa_link p) (peer_of s))
        (take (length (lk_took (pa_link p) (peer_of s))) (lk_sent (pa_link p) s))"
  using pairing_reaches_ok [OF assms(1)] pairing_agrees [OF _ assms(2)] by (simp add: pairing_ok_def)

theorem connections_agree_on_the_session_witness:
  "\<exists>p. pairing_step\<^sup>*\<^sup>* (pairing_start 5) (p :: nat pairing) \<and> lk_open (pa_link p) Runner
     \<and> ls_number (pa_runner p) = Some 1"
proof -
  let ?p = "pairing_start 5 :: nat pairing"
  obtain b d where bd: "begin_session (pa_device ?p) (pa_inst ?p) (link_resume (pa_runner ?p)) 1 = (b, d)" by fastforce
  have b: "b = Started" and d: "ds_number d = 1"
    using bd by (auto simp: pairing_start_def new_device_session_def new_link_state_def link_resume_def
        begin_session_def begin_anew_def)
  let ?q = "?p\<lparr>pa_device := d, pa_numbers := insert 1 (pa_numbers ?p), pa_link := greeted (pa_link ?p) b\<rparr>"
  have q: "pairing_step ?p ?q"
    by (rule Greeting [OF _ _ bd]) (simp_all add: pairing_start_def link_start_def)
  have wire: "lk_wire (pa_link ?q) Backend = Welcome 0 # []"
    using b by (simp add: greeted_def beginning_received_def Let_def)
  let ?r = "?q\<lparr>pa_runner := hello_ok (pa_runner ?q) (ds_number (pa_device ?q)) 0,
      pa_link := (pa_link ?q)\<lparr>lk_wire := (lk_wire (pa_link ?q))(Backend := []),
        lk_open := (lk_open (pa_link ?q))(Runner := True), lk_resending := (lk_resending (pa_link ?q))(Runner := True)\<rparr>\<rparr>"
  have r: "pairing_step ?q ?r" by (rule Answered [OF wire])
  have "pairing_step\<^sup>*\<^sup>* ?p ?r" using q r by (meson r_into_rtranclp rtranclp.rtrancl_into_rtrancl)
  moreover have o: "lk_open (pa_link ?r) Runner" by simp
  moreover have "ls_number (pa_runner ?r) = Some 1"
    using connections_agree_on_the_session [OF calculation(1) o] d by simp
  ultimately show ?thesis by blast
qed

text \<open>
  A hello either carries the session on, and then no call, no waiting message and no number of
  it changes, or starts a new one under the number just drawn, and then every call the old session
  had is stopped, each once, told whether the same runner start asks, and nothing of the old
  session waits to be sent.
\<close>

theorem beginning_keeps_or_ends_every_call:
  "case begin_session d inst resume fresh of
     (Resumed n, d') \<Rightarrow>
       ds_calls d' = ds_calls d \<and> ds_backlog d' = ds_backlog d \<and> ds_lost d' = ds_lost d
       \<and> ds_number d' = ds_number d \<and> ds_instance d' = Some inst
       \<and> n = ws_received (ds_numbers d) \<and> sent_count (ds_numbers d') = sent_count (ds_numbers d)
   | (Started, d') \<Rightarrow>
       ds_number d' = fresh \<and> ds_instance d' = Some inst \<and> ds_numbers d' = new_session \<and> ds_backlog d' = []
       \<and> (case ds_instance d of
            None \<Rightarrow> ds_calls d' = ds_calls d \<and> ds_lost d' = ds_lost d
          | Some before \<Rightarrow>
              ds_calls d' = []
              \<and> ds_lost d' = ds_lost d @ map (\<lambda>call. (call,
                  if before = inst then ''the runner did not resume the link's session'' else RUNNER_RESTARTED_CALLS,
                  True)) (map fst (ds_calls d)))"
proof (cases "begin_session d inst resume fresh")
  case (Pair b d')
  show ?thesis
  proof (cases b)
    case (Resumed n)
    show ?thesis
      unfolding Pair Resumed using Pair [unfolded Resumed begin_resumed]
      by (auto simp: resumes_def session_resume_def release_def sent_count_def read_again_def accepts_def Let_def
          split: option.splits sum.splits if_splits)
  next
    case Started
    show ?thesis
      unfolding Pair Started using Pair [unfolded Started] begin_started [OF Pair [unfolded Started]]
      by (auto simp: begin_session_def begin_anew_def device_restart_def stop_calls_def Let_def comp_def case_prod_beta
          split: option.splits sum.splits if_splits)
  qed
qed

section \<open>Pipes\<close>

text \<open>
  C25. What a pipe's writer frames, its reader reads: whatever pieces the network cuts the bytes
  into, the reader takes exactly the frames written, in order, with nothing left over and no error,
  and their data is the data written, each frame of no more than a frame may hold. The two laws are
  those of the MessagePack library: what it packs it unpacks.
\<close>

theorem pipe_is_read_as_written:
  assumes "\<And>r. unpack_end (pack_end r) = Inr r" "\<And>r. unpack_moved (pack_moved r) = Inr r"
    and "list_all (fits pack_end pack_moved) items"
    and "concat arrivals = concat (map (written_item pack_end pack_moved) items)"
  shows "feed (pipe_next unpack_end unpack_moved) [] arrivals = (concat (map frames_of items), None, [])
    \<and> concat (map payload (concat (map frames_of items))) = concat (map sent_bytes items)"
  using pipe_read [where pe = pack_end and pm = pack_moved, OF assms] frames_payloads by blast

text \<open>A packing of the two records, to see the laws hold of one.\<close>

definition sample_pack_end :: "end_record \<Rightarrow> byte list" where
  "sample_pack_end r = (if en_ok r then 1 else 0) # (case en_cause r of None \<Rightarrow> [] | Some c \<Rightarrow> 1 # to_bytes c)"

definition sample_unpack_end :: "byte list \<Rightarrow> string + end_record" where
  "sample_unpack_end bs =
     Inr \<lparr>en_ok = (hd bs = 1), en_cause = (case tl bs of [] \<Rightarrow> None | _ # c \<Rightarrow> Some (of_bytes c))\<rparr>"

definition sample_pack_moved :: "moved_record \<Rightarrow> byte list" where
  "sample_pack_moved r =
     (if mr_to r = Direct then 1 else 0) # be_bytes 8 (unat (mr_at r)) @ to_bytes (mr_source r)"

definition sample_unpack_moved :: "byte list \<Rightarrow> string + moved_record" where
  "sample_unpack_moved bs =
     Inr \<lparr>mr_to = (if hd bs = 1 then Direct else Relay), mr_at = word_of_nat (be_nat (take 8 (tl bs))),
          mr_source = of_bytes (drop 8 (tl bs))\<rparr>"

lemma sample_packing: "sample_unpack_end (sample_pack_end r) = Inr r" "sample_unpack_moved (sample_pack_moved m) = Inr m"
  by (simp_all add: sample_unpack_end_def sample_pack_end_def sample_unpack_moved_def sample_pack_moved_def
      split: option.split)
    (cases "mr_to m"; simp)

theorem pipe_is_read_as_written_witness:
  "feed (pipe_next sample_unpack_end sample_unpack_moved) [] [[1, 0, 0], [0, 2, 104], [105, 2, 3, 0, 0, 0, 1, 1]]
     = ([PipeData [104, 105], PipeIdle, PipeEnd None], None, [])"
proof -
  have two: "slices PIPE_DATA_BYTES [104, 105] = [[104, 105 :: byte]]"
    by (simp add: slices_step PIPE_DATA_BYTES_def)
  have arrive: "concat [[1, 0, 0], [0, 2, 104], [105, 2, 3, 0, 0, 0, 1, 1]] =
      concat (map (written_item sample_pack_end sample_pack_moved) [SendData [104, 105], SendIdle, SendEnd None])"
  proof -
    have "framed DATA_KIND [104, 105] = [1, 0, 0, 0, 2, 104, 105]"
      "end_frame sample_pack_end None = [3, 0, 0, 0, 1, 1]" "idle_frame = [2]"
      by code_simp+
    then show ?thesis by (simp add: two encode_data_def)
  qed
  have fit: "list_all (fits sample_pack_end sample_pack_moved) [SendData [104, 105], SendIdle, SendEnd None]"
    by (simp add: end_frame_def framed_def sample_pack_end_def HEAD_BYTES_def PIPE_END_BYTES_def)
  from pipe_is_read_as_written [OF sample_packing fit arrive] show ?thesis by (simp add: two)
qed

text \<open>
  A pipe's reader holds little, whatever it is sent: no frame it hands on has more than 64 KiB
  of data, and while it waits for more it holds less than one whole frame; a frame longer than its
  kind may be is refused at its head, before its bytes are held.
\<close>

theorem pipe_reader_holds_little:
  "case feed (pipe_next unpack_end unpack_moved) [] arrivals of
     (fs, e, rest) \<Rightarrow>
       list_all (\<lambda>f. length (payload f) \<le> PIPE_DATA_BYTES) fs
       \<and> (case e of None \<Rightarrow> length rest < HEAD_BYTES + PIPE_DATA_BYTES | Some _ \<Rightarrow> True)"
proof -
  obtain fs e rest where d: "feed (pipe_next unpack_end unpack_moved) [] arrivals = (fs, e, rest)"
    by (cases "feed (pipe_next unpack_end unpack_moved) [] arrivals")
  have "list_all (\<lambda>f. length (payload f) \<le> PIPE_DATA_BYTES) (fst (feed (pipe_next unpack_end unpack_moved) [] arrivals))"
    by (rule pipes.feed_all) (rule frame_small)
  moreover have "length rest < HEAD_BYTES + PIPE_DATA_BYTES" if "e = None"
    using pipes.feed_waits [OF _ d [unfolded that]] waiting_small by (simp add: pipe_next_def)
  ultimately show ?thesis using d by (simp split: option.split)
qed

text \<open>
  C27. Whoever takes frames off a pipe or a live view's stream until there is none comes to an end:
  a call for each byte held and one more is enough, and it stops at an error of the stream or where
  the decoder waits for more bytes, never for another reason.
\<close>

theorem taking_frames_ends:
  "drain_upto (Suc (length bs) + n) (pipe_next unpack_end unpack_moved) bs = drain (pipe_next unpack_end unpack_moved) bs
   \<and> (case drain (pipe_next unpack_end unpack_moved) bs of
        (_, None, rest) \<Rightarrow> pipe_next unpack_end unpack_moved rest = (Inr None, rest)
      | _ \<Rightarrow> True)
   \<and> drain_upto (Suc (length bs) + n) live_next bs = drain live_next bs
   \<and> (case drain live_next bs of (_, None, rest) \<Rightarrow> live_next rest = (Inr None, rest) | _ \<Rightarrow> True)"
  using pipes.drain_fuel [of bs "Suc (length bs) + n"] lives.drain_fuel [of bs "Suc (length bs) + n"]
    pipes.drain_waits lives.drain_waits
  by (auto split: prod.split option.split)

section \<open>Live views\<close>

text \<open>
  C28. A picture a live view sends comes back whole: cut into chunks no longer than the wire's
  16 KiB, in whatever pieces the stream brings them, the page splits off each chunk in order, and
  reads from chunk i the header it was sent with, which says i, and the i-th part of the picture;
  the parts together are the picture.
\<close>

theorem picture_comes_back_whole:
  assumes "is_source source" "chunks_of source generation frame = Some chunks"
    and "concat arrivals = concat chunks"
  shows "\<exists>payloads. feed live_next [] arrivals
        = (map (\<lambda>p. \<lparr>lf_kind = VIDEO_FRAME, lf_payload = p\<rparr>) payloads, None, [])
      \<and> map split_header payloads
        = map (\<lambda>(i, part). Inr (chunk_header source generation frame (length payloads) i, part))
            (enumerate 0 (parts_of (ef_data frame)))
      \<and> concat (parts_of (ef_data frame)) = ef_data frame
      \<and> list_all (\<lambda>c. length c \<le> CHUNK_BYTES) chunks"
proof -
  let ?n = "length (parts_of (ef_data frame))"
  let ?ps = "map (chunk_bytes_of source generation frame) [0..<?n]"
  note r = picture_read [OF assms]
  have "map split_header ?ps = map (\<lambda>(i, part). Inr (chunk_header source generation frame (length ?ps) i, part))
            (enumerate 0 (parts_of (ef_data frame)))"
    by (rule nth_equalityI) (simp_all add: r(2) nth_enumerate_eq)
  with r(1,3) parts_of_facts(1) show ?thesis
    by (intro exI [of _ ?ps]) (simp add: comp_def)
qed

definition sample_picture :: encoded_frame where
  "sample_picture =
     \<lparr>ef_sequence = 7, ef_key = True, ef_repeat = False, ef_timestamp = 0, ef_width = 2, ef_height = 1,
      ef_data = [1, 2, 3]\<rparr>"

theorem picture_comes_back_whole_witness:
  "\<exists>chunks payloads. chunks_of ''screen'' 1 sample_picture = Some chunks
     \<and> feed live_next [] [concat chunks]
        = (map (\<lambda>p. \<lparr>lf_kind = VIDEO_FRAME, lf_payload = p\<rparr>) payloads, None, [])
     \<and> map split_header payloads = [Inr (chunk_header ''screen'' 1 sample_picture 1 0, [1, 2, 3])]"
proof -
  have parts: "parts_of (ef_data sample_picture) = [[1, 2, 3]]"
    by (simp add: parts_of_def sample_picture_def slices_step live_sizes)
  have source: "is_source ''screen''" by (simp add: is_source_def SOURCE_BYTES_def)
  obtain chunks where chunks: "chunks_of ''screen'' 1 sample_picture = Some chunks"
    using parts by (simp add: chunks_of_parts)
  from picture_comes_back_whole [OF source chunks, of "[concat chunks]"]
  obtain payloads where p: "feed live_next [] [concat chunks]
        = (map (\<lambda>p. \<lparr>lf_kind = VIDEO_FRAME, lf_payload = p\<rparr>) payloads, None, [])"
    "map split_header payloads
        = map (\<lambda>(i, part). Inr (chunk_header ''screen'' 1 sample_picture (length payloads) i, part))
            (enumerate 0 (parts_of (ef_data sample_picture)))"
    by auto
  have "length (map split_header payloads) = 1" unfolding p(2) by (simp add: parts)
  then have "length payloads = 1" by simp
  then have "map split_header payloads = [Inr (chunk_header ''screen'' 1 sample_picture 1 0, [1, 2, 3])]"
    using p(2) by (simp add: parts)
  with chunks p(1) show ?thesis by (intro exI conjI)
qed

section \<open>Lanes\<close>

text \<open>
  A frame of a lane's WebSocket is read as the frame it was written from, for every kind of
  frame, every lane, every number and every text.
\<close>

theorem lane_frame_is_read_as_written:
  assumes "lane_frame_ok f"
  shows "lane_decode (lane_encode f) = Inr f"
  by (rule lane_round_trip [OF assms])

theorem lane_frame_is_read_as_written_witness:
  "lane_decode [5, 0, 0, 1, 0, 3, 232, 98, 121, 101] = Inr (LClose 256 1000 ''bye'')"
proof -
  have "lane_frame_ok (LClose 256 1000 ''bye'')" by (simp add: ascii_is_str)
  moreover have "lane_encode (LClose 256 1000 ''bye'') = [5, 0, 0, 1, 0, 3, 232, 98, 121, 101]"
    by code_simp
  ultimately show ?thesis using lane_frame_is_read_as_written by metis
qed

text \<open>
  C30. Whatever bytes and frames arrive, what a lane's readers hand on is well formed: a frame's
  text is UTF-8, and a message put together from pieces, of any flags and in any order, is UTF-8
  when it is a text and never longer than the lane takes.
\<close>

theorem lane_readers_hand_on_well_formed:
  "(case lane_decode bytes of Inr f \<Rightarrow> lane_frame_ok f | Inl _ \<Rightarrow> True)
   \<and> list_all (\<lambda>m. message_ok m \<and> length (message_bytes m) \<le> limit) (fst (assemble limit a fs))"
  using decoded_ok assembled_ok by (auto split: sum.split)

text \<open>
  C31. The messages of a lane, cut into pieces of at most 16 KiB, arrive as they were sent: put
  together again in order, texts as texts and bytes as bytes, when none is longer than the lane
  takes; each piece's frame is no longer than a piece and its head.
\<close>

theorem lane_messages_arrive:
  assumes "list_all message_ok ms" "list_all (\<lambda>m. length (message_bytes m) \<le> limit) ms"
  shows "assemble limit None (concat (map (message_pieces lane) ms)) = (ms, None, None)
    \<and> list_all (\<lambda>f. lane_decode (lane_encode f) = Inr f \<and> length (lane_encode f) \<le> 6 + LANE_PIECE_BYTES)
        (concat (map (message_pieces lane) ms))"
proof
  show "assemble limit None (concat (map (message_pieces lane) ms)) = (ms, None, None)"
    using assemble_messages [OF assms, of lane "[]"] by simp
  have "list_all lane_frame_ok (message_pieces lane m)" for m
    by (simp add: message_pieces_def pieces_of_def pieces_from_ok)
  then show "list_all (\<lambda>f. lane_decode (lane_encode f) = Inr f \<and> length (lane_encode f) \<le> 6 + LANE_PIECE_BYTES)
        (concat (map (message_pieces lane) ms))"
    using pieces_small [of lane] by (fastforce simp: list_all_iff lane_round_trip)
qed

theorem lane_messages_arrive_witness:
  "assemble 10 None (concat (map (message_pieces 3) [LText ''hi'', LBinary []])) = ([LText ''hi'', LBinary []], None, None)"
  using lane_messages_arrive [of "[LText ''hi'', LBinary []]" 10 3] by (simp add: ascii_is_str)

text \<open>
  A message longer than a lane takes is refused as too big, whatever its length and wherever
  its pieces are cut, and its lane's reader stops there holding none of it.
\<close>

theorem long_lane_message_is_refused:
  assumes "message_ok m" "limit < length (message_bytes m)"
  shows "assemble limit None (message_pieces lane m @ fs) = ([], Some TooBig, None)"
  using assemble_pieces [OF assms(1)] assms(2) by simp

theorem long_lane_message_is_refused_witness:
  "assemble 2 None (message_pieces 1 (LBinary [1, 2, 3])) = ([], Some TooBig, None)"
  using long_lane_message_is_refused [of "LBinary [1, 2, 3]" 2 1 "[]"] by simp

end
