(* ===== verification/Inputs.thy ===== *)
theory Inputs imports Blocks "HOL-Library.Multiset" begin

text \<open>
  A session's waiting input (\<open>crates/agent-session/src/input.rs\<close>): the steers it accepted, the agent
  messages it admitted and the command reports that arrived, in the order they came. The lemmas show
  that every operation keeps the order, that what a boundary takes and what it leaves are the queue
  between them, and that the count of arrivals never falls below what waits, so that subtracting a
  withdrawn input from it never stops at zero.
\<close>

record pending_steer =
  ps_id :: block_id
  ps_turn_id :: turn_id
  ps_model :: model_selection
  ps_content :: "user_content list"
  ps_comments :: "message_comment list"

record pending_agent_input =
  pi_turn_id :: turn_id
  pi_model :: model_selection
  pi_message :: agent_message

record queued_message =
  qm_id :: turn_id
  qm_content :: "user_content list"
  qm_comments :: "message_comment list"
  qm_schedule :: "schedule_mark option"

text \<open>Whether a waiting command report opens a turn of its own.\<close>

datatype opens = OpensTurn | OpensNothing

datatype input =
    InSteer pending_steer
  | InReport command_report opens
  | InAgent pending_agent_input

fun input_id :: "input \<Rightarrow> string option" where
  "input_id (InSteer s) = Some (ps_id s)"
| "input_id (InReport _ _) = None"
| "input_id (InAgent i) = Some (am_id (pi_message i))"

fun is_steer_input :: "input \<Rightarrow> bool" where
  "is_steer_input (InSteer _) = True"
| "is_steer_input _ = False"

fun is_agent_input :: "input \<Rightarrow> bool" where
  "is_agent_input (InAgent _) = True"
| "is_agent_input _ = False"

fun is_report_input :: "input \<Rightarrow> bool" where
  "is_report_input (InReport _ _) = True"
| "is_report_input _ = False"

text \<open>Which inputs a boundary writes.\<close>

datatype boundary_take = Everything | AgentMessages | AllButSteers

fun takes :: "boundary_take \<Rightarrow> input \<Rightarrow> bool" where
  "takes Everything i = True"
| "takes AgentMessages i = is_agent_input i"
| "takes AllButSteers i = (\<not> is_steer_input i)"

record input_queue =
  iq_entries :: "input list"
  iq_arrivals :: nat
  iq_admitted :: "string \<Rightarrow> timestamp option"

definition empty_queue :: input_queue where
  "empty_queue = \<lparr>iq_entries = [], iq_arrivals = 0, iq_admitted = (\<lambda>_. None)\<rparr>"

definition add_input :: "input \<Rightarrow> input_queue \<Rightarrow> input_queue" where
  "add_input i q = q\<lparr>iq_entries := iq_entries q @ [i], iq_arrivals := iq_arrivals q + 1\<rparr>"

definition restored_queue ::
  "pending_agent_input list \<Rightarrow> command_report list \<Rightarrow> command_report list \<Rightarrow> input_queue" where
  "restored_queue agents reports next_turn =
     fold add_input
       (map InAgent agents @ map (\<lambda>r. InReport r OpensTurn) reports @ map (\<lambda>r. InReport r OpensNothing) next_turn)
       empty_queue"

definition note_admitted :: "string \<Rightarrow> timestamp \<Rightarrow> input_queue \<Rightarrow> input_queue" where
  "note_admitted i at q = q\<lparr>iq_admitted := (iq_admitted q)(i := Some at)\<rparr>"

definition take_admitted :: "string \<Rightarrow> input_queue \<Rightarrow> timestamp option \<times> input_queue" where
  "take_admitted i q = (iq_admitted q i, q\<lparr>iq_admitted := (iq_admitted q)(i := None)\<rparr>)"

text \<open>\<open>Vec::remove\<close>, which the code calls within the list.\<close>

definition remove_nth :: "nat \<Rightarrow> 'a list \<Rightarrow> 'a list" where
  "remove_nth i xs = take i xs @ drop (Suc i) xs"

definition is_steer_of :: "block_id \<Rightarrow> input \<Rightarrow> bool" where
  "is_steer_of i input = (case input of InSteer s \<Rightarrow> ps_id s = i | _ \<Rightarrow> False)"

definition has_steer :: "block_id \<Rightarrow> input_queue \<Rightarrow> bool" where
  "has_steer i q = list_ex (is_steer_of i) (iq_entries q)"

definition withdraw_steer :: "block_id \<Rightarrow> input_queue \<Rightarrow> bool \<times> input_queue" where
  "withdraw_steer i q =
     (case position (is_steer_of i) (iq_entries q) of
        None \<Rightarrow> (False, q)
      | Some at \<Rightarrow>
          (True, q\<lparr>iq_entries := remove_nth at (iq_entries q), iq_arrivals := iq_arrivals q - 1,
                   iq_admitted := (iq_admitted q)(i := None)\<rparr>))"

definition waiting_steers :: "input_queue \<Rightarrow> pending_steer list" where
  "waiting_steers q = List.map_filter (\<lambda>i. case i of InSteer s \<Rightarrow> Some s | _ \<Rightarrow> None) (iq_entries q)"

definition agent_inputs :: "input_queue \<Rightarrow> pending_agent_input list" where
  "agent_inputs q = List.map_filter (\<lambda>i. case i of InAgent a \<Rightarrow> Some a | _ \<Rightarrow> None) (iq_entries q)"

definition waiting_reports :: "opens \<Rightarrow> input_queue \<Rightarrow> command_report list" where
  "waiting_reports which q =
     List.map_filter (\<lambda>i. case i of InReport r o' \<Rightarrow> if o' = which then Some r else None | _ \<Rightarrow> None) (iq_entries q)"

definition has_agent_input :: "input_queue \<Rightarrow> bool" where
  "has_agent_input q = list_ex is_agent_input (iq_entries q)"

definition has_report :: "input_queue \<Rightarrow> bool" where
  "has_report q = list_ex (\<lambda>i. case i of InReport _ OpensTurn \<Rightarrow> True | _ \<Rightarrow> False) (iq_entries q)"

definition contains_input :: "string \<Rightarrow> input_queue \<Rightarrow> bool" where
  "contains_input i q = list_ex (\<lambda>x. input_id x = Some i) (iq_entries q)"

definition waiting_message :: "block_id \<Rightarrow> input_queue \<Rightarrow> agent_message option" where
  "waiting_message i q =
     find_map (\<lambda>x. case x of
        InAgent a \<Rightarrow> if am_id (pi_message a) = i then Some (pi_message a) else None
      | _ \<Rightarrow> None) (iq_entries q)"

definition take_inputs :: "boundary_take \<Rightarrow> input_queue \<Rightarrow> input list \<times> input_queue" where
  "take_inputs t q =
     (case List.partition (takes t) (iq_entries q) of (taken, kept) \<Rightarrow> (taken, q\<lparr>iq_entries := kept\<rparr>))"

text \<open>The reports of the inputs \<open>extract_if\<close> takes out.\<close>

definition reports_in :: "input list \<Rightarrow> command_report list" where
  "reports_in is = List.map_filter (\<lambda>i. case i of InReport r _ \<Rightarrow> Some r | _ \<Rightarrow> None) is"

definition retain_reports :: "(command_report \<Rightarrow> bool) \<Rightarrow> input_queue \<Rightarrow> command_report list \<times> input_queue" where
  "retain_reports keep q =
     (case List.partition (\<lambda>i. case i of InReport r _ \<Rightarrow> \<not> keep r | _ \<Rightarrow> False) (iq_entries q) of
        (withdrawn, kept) \<Rightarrow>
          (reports_in withdrawn,
           q\<lparr>iq_entries := kept, iq_arrivals := iq_arrivals q - length (reports_in withdrawn)\<rparr>))"

definition take_reports :: "input_queue \<Rightarrow> command_report list \<times> input_queue" where
  "take_reports q =
     (case List.partition is_report_input (iq_entries q) of
        (taken, kept) \<Rightarrow> (reports_in taken, q\<lparr>iq_entries := kept\<rparr>))"

definition take_first_steer :: "input_queue \<Rightarrow> pending_steer option \<times> input_queue" where
  "take_first_steer q =
     (case position is_steer_input (iq_entries q) of
        None \<Rightarrow> (None, q)
      | Some at \<Rightarrow>
          (case iq_entries q ! at of
             InSteer s \<Rightarrow> (Some s, q\<lparr>iq_entries := remove_nth at (iq_entries q)\<rparr>)
           | _ \<Rightarrow> (None, q)))"

section \<open>What the operations keep\<close>

text \<open>Subtracting a withdrawn input never stops at zero: nothing waits that did not arrive.\<close>

definition counted :: "input_queue \<Rightarrow> bool" where
  "counted q = (length (iq_entries q) \<le> iq_arrivals q)"

lemma remove_nth_facts:
  assumes "i < length xs"
  shows "length (remove_nth i xs) = length xs - 1" "mset xs = add_mset (xs ! i) (mset (remove_nth i xs))"
proof -
  show "length (remove_nth i xs) = length xs - 1" using assms by (simp add: remove_nth_def)
  have "mset (take i xs @ xs ! i # drop (Suc i) xs) = mset xs" using assms by (simp flip: id_take_nth_drop)
  then show "mset xs = add_mset (xs ! i) (mset (remove_nth i xs))" by (simp add: remove_nth_def)
qed

lemma withdraw_steer_cases:
  obtains (none) "withdraw_steer i q = (False, q)" "\<not> has_steer i q"
    | (found) s q' where "withdraw_steer i q = (True, q')" "ps_id s = i"
        "mset (iq_entries q) = add_mset (InSteer s) (mset (iq_entries q'))" "iq_arrivals q' = iq_arrivals q - 1"
proof (cases "position (is_steer_of i) (iq_entries q)")
  case None
  then have "withdraw_steer i q = (False, q)" by (simp add: withdraw_steer_def)
  moreover have "\<not> has_steer i q" using None by (simp add: has_steer_def position_None list_ex_iff)
  ultimately show thesis by (rule none)
next
  case (Some at)
  then have at: "at < length (iq_entries q)" "is_steer_of i (iq_entries q ! at)" by (auto simp: position_Some)
  then obtain s where s: "iq_entries q ! at = InSteer s" "ps_id s = i"
    by (auto simp: is_steer_of_def split: input.splits)
  show thesis
    by (rule found [of "q\<lparr>iq_entries := remove_nth at (iq_entries q), iq_arrivals := iq_arrivals q - 1,
                   iq_admitted := (iq_admitted q)(i := None)\<rparr>" s])
      (use Some s remove_nth_facts(2) [OF at(1)] in \<open>simp_all add: withdraw_steer_def\<close>)
qed

lemma no_steers:
  "\<forall>x\<in>set xs. \<not> is_steer_input x \<Longrightarrow>
     List.map_filter (\<lambda>i. case i of InSteer s \<Rightarrow> Some s | _ \<Rightarrow> None) xs = ([] :: pending_steer list)"
  by (induction xs) (auto simp: map_filter_simps split: input.splits)

lemma take_first_steer_cases:
  obtains (none) "take_first_steer q = (None, q)" "waiting_steers q = []"
    | (found) s q' where "take_first_steer q = (Some s, q')" "waiting_steers q = s # waiting_steers q'"
        "mset (iq_entries q) = add_mset (InSteer s) (mset (iq_entries q'))" "iq_arrivals q' = iq_arrivals q"
        "filter (Not \<circ> is_steer_input) (iq_entries q') = filter (Not \<circ> is_steer_input) (iq_entries q)"
proof (cases "position is_steer_input (iq_entries q)")
  case None
  then have "\<forall>x\<in>set (iq_entries q). \<not> is_steer_input x" by (simp add: position_None)
  then have "waiting_steers q = []" unfolding waiting_steers_def by (rule no_steers)
  with None show thesis by (intro none) (simp_all add: take_first_steer_def)
next
  case (Some at)
  then have at: "at < length (iq_entries q)" "is_steer_input (iq_entries q ! at)"
    "\<forall>x\<in>set (take at (iq_entries q)). \<not> is_steer_input x"
    by (auto simp: position_Some in_set_conv_nth)
  then obtain s where s: "iq_entries q ! at = InSteer s" by (cases "iq_entries q ! at") auto
  have split: "iq_entries q = take at (iq_entries q) @ InSteer s # drop (Suc at) (iq_entries q)"
    using at(1) s id_take_nth_drop by fastforce
  let ?q' = "q\<lparr>iq_entries := remove_nth at (iq_entries q)\<rparr>"
  have "take_first_steer q = (Some s, ?q')" using Some s by (simp add: take_first_steer_def)
  moreover have "waiting_steers q = s # waiting_steers ?q'"
    unfolding waiting_steers_def using no_steers [OF at(3)]
    by (subst split) (simp add: remove_nth_def map_filter_def)
  moreover have "filter (Not \<circ> is_steer_input) (remove_nth at (iq_entries q)) = filter (Not \<circ> is_steer_input) (iq_entries q)"
    by (subst (2) split) (simp add: remove_nth_def)
  ultimately show thesis using found [of s ?q'] remove_nth_facts(2) [OF at(1)] s by simp
qed

lemma take_inputs_facts:
  "fst (take_inputs t q) = filter (takes t) (iq_entries q)"
  "iq_entries (snd (take_inputs t q)) = filter (Not \<circ> takes t) (iq_entries q)"
  "iq_arrivals (snd (take_inputs t q)) = iq_arrivals q"
  by (simp_all add: take_inputs_def)

lemma reports_in_length: "length (reports_in xs) = length (filter is_report_input xs)"
  by (induction xs) (auto simp: reports_in_def map_filter_simps split: input.splits)

lemma retain_reports_facts:
  "iq_entries (snd (retain_reports keep q)) = filter (\<lambda>i. case i of InReport r _ \<Rightarrow> keep r | _ \<Rightarrow> True) (iq_entries q)"
  "fst (retain_reports keep q) = filter (\<lambda>r. \<not> keep r) (reports_in (iq_entries q))"
proof -
  have "(Not \<circ> (\<lambda>i. case i of InReport r _ \<Rightarrow> \<not> keep r | _ \<Rightarrow> False)) = (\<lambda>i. case i of InReport r _ \<Rightarrow> keep r | _ \<Rightarrow> True)"
    by (auto simp: fun_eq_iff split: input.splits)
  then show "iq_entries (snd (retain_reports keep q)) = filter (\<lambda>i. case i of InReport r _ \<Rightarrow> keep r | _ \<Rightarrow> True) (iq_entries q)"
    by (simp add: retain_reports_def)
  have "reports_in (filter (\<lambda>i. case i of InReport r _ \<Rightarrow> \<not> keep r | _ \<Rightarrow> False) xs) = filter (\<lambda>r. \<not> keep r) (reports_in xs)" for xs
    by (induction xs) (auto simp: reports_in_def map_filter_simps split: input.splits)
  then show "fst (retain_reports keep q) = filter (\<lambda>r. \<not> keep r) (reports_in (iq_entries q))"
    by (simp add: retain_reports_def)
qed

lemma counted_ops:
  "counted empty_queue"
  "counted q \<Longrightarrow> counted (add_input i q)"
  "counted q \<Longrightarrow> counted (note_admitted n at q)"
  "counted q \<Longrightarrow> counted (snd (take_admitted n q))"
  "counted q \<Longrightarrow> counted (snd (withdraw_steer n q))"
  "counted q \<Longrightarrow> counted (snd (take_inputs t q))"
  "counted q \<Longrightarrow> counted (snd (take_reports q))"
  "counted q \<Longrightarrow> counted (snd (take_first_steer q))"
proof -
  show "counted q \<Longrightarrow> counted (snd (withdraw_steer n q))"
    by (cases n q rule: withdraw_steer_cases) (auto simp: counted_def dest: arg_cong [of _ _ size])
  show "counted q \<Longrightarrow> counted (snd (take_first_steer q))"
    by (cases q rule: take_first_steer_cases) (auto simp: counted_def dest: arg_cong [of _ _ size])
  have "length (iq_entries q) \<le> n \<Longrightarrow> length (filter P (iq_entries q)) \<le> n" for P n
    using length_filter_le [of P "iq_entries q"] by linarith
  then show "counted q \<Longrightarrow> counted (snd (take_inputs t q))" "counted q \<Longrightarrow> counted (snd (take_reports q))"
    unfolding counted_def by (simp_all add: take_inputs_def take_reports_def)
qed (simp_all add: counted_def empty_queue_def add_input_def note_admitted_def take_admitted_def)

lemma counted_retain: "counted q \<Longrightarrow> counted (snd (retain_reports keep q))"
proof -
  let ?P = "\<lambda>i. case i of InReport r _ \<Rightarrow> \<not> keep r | _ \<Rightarrow> False"
  have all: "length (filter is_report_input (filter ?P xs)) = length (filter ?P xs)" for xs
    by (induction xs) (auto split: input.splits)
  have "length (filter ?P (iq_entries q)) + length (filter (Not \<circ> ?P) (iq_entries q)) = length (iq_entries q)"
    by (simp add: comp_def sum_length_filter_compl)
  then show "counted q \<Longrightarrow> counted (snd (retain_reports keep q))"
    unfolding counted_def retain_reports_def by (simp add: reports_in_length all del: filter_filter)
qed

end
