(* ===== verification/Media.thy ===== *)
theory Media imports Cut begin

text \<open>
  Media by reference: the types a model can receive (\<open>crates/shared-types/src/media.rs\<close>), what a
  vendor takes in a request (\<open>crates/provider-common/src/contract.rs\<close>), and the bytes a session holds
  for the blobs its blocks name (\<open>crates/agent-store/src/media.rs\<close>). What
  a view holds for the media of its blocks is shown in \<open>Replay_Facts\<close> and \<open>Requests\<close>.
\<close>

section \<open>The types a model can receive\<close>

record model_media_type =
  mm_media_type :: string
  mm_kind :: model_media_kind
  mm_extension :: file_extension

definition media_type_entry :: "string \<Rightarrow> model_media_kind \<Rightarrow> file_extension \<Rightarrow> model_media_type" where
  "media_type_entry t kind extension = \<lparr>mm_media_type = t, mm_kind = kind, mm_extension = extension\<rparr>"

definition MODEL_MEDIA_TYPES :: "model_media_type list" where
  "MODEL_MEDIA_TYPES =
     [media_type_entry ''image/png'' MediaImage Png,
      media_type_entry ''image/jpeg'' MediaImage Jpeg,
      media_type_entry ''image/gif'' MediaImage Gif,
      media_type_entry ''image/webp'' MediaImage Webp,
      media_type_entry ''video/mp4'' MediaVideo Mp4,
      media_type_entry ''video/x-m4v'' MediaVideo M4v,
      media_type_entry ''video/quicktime'' MediaVideo Mov,
      media_type_entry ''video/webm'' MediaVideo Webm,
      media_type_entry ''application/pdf'' MediaDocument Pdf]"

definition model_media_type_for :: "string \<Rightarrow> model_media_type option" where
  "model_media_type_for t = find (\<lambda>m. mm_media_type m = t) MODEL_MEDIA_TYPES"

definition model_accepts_media_type :: "model_facts \<Rightarrow> string \<Rightarrow> bool" where
  "model_accepts_media_type model t =
     (case model_media_type_for t of
        None \<Rightarrow> False
      | Some m \<Rightarrow> file_extension_support (md_accepted_extensions model) (mm_extension m) = Some True)"

definition model_reads_images :: "model_facts \<Rightarrow> bool" where
  "model_reads_images model =
     list_ex (\<lambda>m. model_accepts_media_type model (mm_media_type m))
       (filter (\<lambda>m. mm_kind m = MediaImage) MODEL_MEDIA_TYPES)"

section \<open>What a vendor takes in a request\<close>

record tool_result_kinds =
  tk_image :: bool
  tk_video :: bool
  tk_document :: bool

definition KINDS_NONE :: tool_result_kinds where
  "KINDS_NONE = \<lparr>tk_image = False, tk_video = False, tk_document = False\<rparr>"

definition KINDS_IMAGES :: tool_result_kinds where
  "KINDS_IMAGES = \<lparr>tk_image = True, tk_video = False, tk_document = False\<rparr>"

definition KINDS_IMAGES_AND_DOCUMENTS :: tool_result_kinds where
  "KINDS_IMAGES_AND_DOCUMENTS = \<lparr>tk_image = True, tk_video = False, tk_document = True\<rparr>"

definition KINDS_ALL :: tool_result_kinds where
  "KINDS_ALL = \<lparr>tk_image = True, tk_video = True, tk_document = True\<rparr>"

fun carries :: "tool_result_kinds \<Rightarrow> model_media_kind \<Rightarrow> bool" where
  "carries k MediaImage = tk_image k"
| "carries k MediaVideo = tk_video k"
| "carries k MediaDocument = tk_document k"

definition kinds_read :: "tool_result_kinds \<Rightarrow> model_facts \<Rightarrow> string \<Rightarrow> bool" where
  "kinds_read k model t =
     ((case model_media_type_for t of Some m \<Rightarrow> carries k (mm_kind m) | None \<Rightarrow> False)
      \<and> model_accepts_media_type model t)"

definition viewable :: "tool_result_kinds \<Rightarrow> model_facts \<Rightarrow> string list option" where
  "viewable k model =
     (if md_accepted_extensions model = None \<and> k \<noteq> KINDS_NONE then None
      else Some (map mm_media_type (filter (\<lambda>m. kinds_read k model (mm_media_type m)) MODEL_MEDIA_TYPES)))"

record request_limits =
  lim_body_bytes :: "nat option"
  lim_images :: "nat option"
  lim_tool_results :: tool_result_kinds

definition OPENAI_LIMITS :: request_limits where
  "OPENAI_LIMITS = \<lparr>lim_body_bytes = Some 512000000, lim_images = Some 1500, lim_tool_results = KINDS_NONE\<rparr>"

definition anthropic_messages :: "model_facts \<Rightarrow> request_limits" where
  "anthropic_messages model =
     \<lparr>lim_body_bytes = Some 32000000, lim_images = Some (if md_context_window model \<le> 200000 then 100 else 600),
      lim_tool_results = KINDS_NONE\<rparr>"

section \<open>What a session holds\<close>

datatype held = HeldBytes "byte list" | HeldMissing

type_synonym held_media = "blob_ref \<Rightarrow> held option"

definition hold_media :: "blob_ref \<Rightarrow> byte list \<Rightarrow> held_media \<Rightarrow> held_media" where
  "hold_media blob bytes m = (case m blob of None \<Rightarrow> m(blob := Some (HeldBytes bytes)) | Some _ \<Rightarrow> m)"

definition absorb_media :: "held_media \<Rightarrow> held_media \<Rightarrow> held_media" where
  "absorb_media m other = (\<lambda>blob. case m blob of None \<Rightarrow> other blob | Some h \<Rightarrow> Some h)"

definition retain_media :: "blob_ref set \<Rightarrow> held_media \<Rightarrow> held_media" where
  "retain_media referenced m = (\<lambda>blob. if blob \<in> referenced then m blob else None)"

datatype medium_source =
    MediaSource media_source
  | DocumentSource document_source
  | ToolSource tool_media_source

fun source_reference :: "medium_source \<Rightarrow> blob_ref option" where
  "source_reference (MediaSource (SourceRef blob _ _ _)) = Some blob"
| "source_reference (DocumentSource (DocumentRef blob _ _)) = Some blob"
| "source_reference (ToolSource (ToolMediaRef blob _ _ _)) = Some blob"
| "source_reference (MediaSource (SourceUrl _)) = None"

fun content_source :: "user_content \<Rightarrow> medium_source option" where
  "content_source (CImage source) = Some (MediaSource source)"
| "content_source (CVideo source) = Some (MediaSource source)"
| "content_source (CDocument source) = Some (DocumentSource source)"
| "content_source _ = None"

definition content_sources :: "user_content list \<Rightarrow> medium_source list" where
  "content_sources content = List.map_filter content_source content"

definition comment_sources :: "message_comment list \<Rightarrow> medium_source list" where
  "comment_sources comments =
     concat (map (\<lambda>c. (case cm_picture c of Some p \<Rightarrow> [MediaSource p] | None \<Rightarrow> []) @ content_sources (cm_content c))
       comments)"

fun result_source :: "tool_result_content \<Rightarrow> medium_source option" where
  "result_source (RImage source) = Some (ToolSource source)"
| "result_source (RVideo source) = Some (ToolSource source)"
| "result_source (RDocument source) = Some (DocumentSource source)"
| "result_source (RText _) = None"
| "result_source (RGone _ _ _) = None"

fun sources :: "block \<Rightarrow> medium_source list" where
  "sources (User u) = comment_sources (u_comments u) @ content_sources (u_content u)"
| "sources (Steer s) = comment_sources (s_comments s) @ content_sources (s_content s)"
| "sources (ToolCall c) = List.map_filter result_source (tc_output c)"
| "sources (Wakeup w) = List.map_filter result_source (concat (map cr_media (w_reports w)))"
| "sources _ = []"

definition references :: "block \<Rightarrow> blob_ref list" where
  "references b = List.map_filter source_reference (sources b)"

definition content_references :: "user_content list \<Rightarrow> blob_ref list" where
  "content_references content = List.map_filter source_reference (content_sources content)"

definition comment_references :: "message_comment list \<Rightarrow> blob_ref list" where
  "comment_references comments = List.map_filter source_reference (comment_sources comments)"

text \<open>Every blob a block names, those of its shell command's edited files included.\<close>

definition block_blobs :: "block \<Rightarrow> blob_ref list" where
  "block_blobs b =
     references b
     @ (case b of
          ToolCall c \<Rightarrow>
            (case tc_view c of
               Some (ShellView v) \<Rightarrow>
                 concat (map (\<lambda>copies. [ec_original copies, ec_modified copies])
                   (List.map_filter es_copies
                     (concat (map ef_edits (case sv_files v of Some files \<Rightarrow> files | None \<Rightarrow> [])))))
             | _ \<Rightarrow> [])
        | _ \<Rightarrow> [])"

definition unheld :: "held_media \<Rightarrow> block list \<Rightarrow> blob_ref list" where
  "unheld m blocks =
     fold (\<lambda>blob found. if m blob = None \<and> blob \<notin> set found then found @ [blob] else found)
       (concat (map references blocks)) []"

definition select_media :: "held_media \<Rightarrow> block list \<Rightarrow> held_media" where
  "select_media m blocks = (\<lambda>blob. if blob \<in> set (concat (map references blocks)) then m blob else None)"

record model_view =
  mv_start :: nat
  mv_blocks :: "block list"
  mv_media :: held_media

text \<open>\<open>Inl\<close>: the blobs to read first.\<close>

definition model_view_of :: "nat \<Rightarrow> block list \<Rightarrow> held_media \<Rightarrow> blob_ref list + model_view" where
  "model_view_of start blocks m =
     (if unheld m blocks \<noteq> [] then Inl (unheld m blocks)
      else Inr \<lparr>mv_start = start, mv_blocks = blocks, mv_media = select_media m blocks\<rparr>)"

text \<open>What the view holds for a blob; \<open>None\<close> is the panic of a blob that no block of it names.\<close>

definition view_held :: "model_view \<Rightarrow> blob_ref \<Rightarrow> held option" where
  "view_held v blob = mv_media v blob"

definition missing_text :: "string \<Rightarrow> string" where
  "missing_text kind = ''[missing '' @ kind @ '']''"

section \<open>Storing and reading media\<close>

record media_bytes =
  mb_data :: "byte list"
  mb_media_type :: string

datatype result_part =
    PartText string
  | PartImage media_bytes
  | PartVideo media_bytes
  | PartDocument media_bytes string

text \<open>
  Storing one part of a tool's result: \<open>put\<close> answers the blob's name or the store's error, and
  \<open>pixels_of\<close> reads the size in pixels of bytes of a type.
\<close>

definition store_part ::
  "(byte list \<Rightarrow> string + blob_ref) \<Rightarrow> (byte list \<Rightarrow> string \<Rightarrow> (nat \<times> nat) option) \<Rightarrow> result_part
     \<Rightarrow> held_media \<Rightarrow> tool_result_content \<times> held_media" where
  "store_part put pixels_of part m =
     (let store = (\<lambda>kind b file_name.
        case put (mb_data b) of
          Inr blob \<Rightarrow>
            ((case file_name of
                Some name \<Rightarrow> RDocument (DocumentRef blob (mb_media_type b) name)
              | None \<Rightarrow>
                  let pixels = pixels_of (mb_data b) (mb_media_type b);
                      source = ToolMediaRef blob (mb_media_type b) (map_option fst pixels) (map_option snd pixels)
                  in if kind = MediaVideo then RVideo source else RImage source),
             hold_media blob (mb_data b) m)
        | Inl error \<Rightarrow> (RGone kind (mb_media_type b) (NotStored error), m))
      in case part of
           PartText text \<Rightarrow> (RText text, m)
         | PartImage b \<Rightarrow> store MediaImage b None
         | PartVideo b \<Rightarrow> store MediaVideo b None
         | PartDocument b name \<Rightarrow> store MediaDocument b (Some name))"

fun store_parts ::
  "(byte list \<Rightarrow> string + blob_ref) \<Rightarrow> (byte list \<Rightarrow> string \<Rightarrow> (nat \<times> nat) option) \<Rightarrow> result_part list
     \<Rightarrow> held_media \<Rightarrow> tool_result_content list \<times> held_media" where
  "store_parts put pixels_of [] m = ([], m)"
| "store_parts put pixels_of (part # parts) m =
     (let (p, m') = store_part put pixels_of part m; (ps, m'') = store_parts put pixels_of parts m' in (p # ps, m''))"

definition store_result ::
  "(byte list \<Rightarrow> string + blob_ref) \<Rightarrow> (byte list \<Rightarrow> string \<Rightarrow> (nat \<times> nat) option) \<Rightarrow> result_part list
     \<Rightarrow> tool_result_content list \<times> held_media" where
  "store_result put pixels_of output = store_parts put pixels_of output (\<lambda>_. None)"

text \<open>
  What reading blobs of a store finds: the bytes of each, or that it is missing; an error of the store
  ends it, the first of the list here, whichever comes first in the code.
\<close>

fun read_media :: "(blob_ref \<Rightarrow> string + byte list option) \<Rightarrow> blob_ref list \<Rightarrow> string + held_media" where
  "read_media get [] = Inr (\<lambda>_. None)"
| "read_media get (blob # blobs) =
     (case get blob of
        Inl error \<Rightarrow> Inl error
      | Inr found \<Rightarrow>
          map_sum id (\<lambda>m. m(blob := Some (case found of Some bytes \<Rightarrow> HeldBytes bytes | None \<Rightarrow> HeldMissing)))
            (read_media get blobs))"

end
