(* ===== verification/Replay.thy ===== *)
theory Replay imports Media begin

text \<open>
  What the model receives of a transcript (\<open>crates/agent-transcript/src/replay.rs\<close>): the inference
  items of the blocks from the last compaction on, with the text of command reports
  (\<open>reports.rs\<close>). JSON is read and written by \<open>serde_json\<close>, a record of functions here, as is the
  length of bytes in base64. A panic is \<open>None\<close>: only a medium the view holds nothing for is one.
\<close>

section \<open>What a request carries\<close>

datatype medium = ByBytes media_bytes | ByUrl string

datatype user_part =
    UserText string
  | UserImage medium
  | UserVideo medium
  | UserDocument media_bytes string

text \<open>A JSON value is told by whether it is a string; any other by its JSON text.\<close>

datatype json_value = JsonString string | JsonOther string

datatype inference_item =
    UserMessage "user_part list"
  | UserSteer "user_part list"
  | AssistantText string string
  | AssistantThinking string string "string option" bool
  | OpaqueStep string "vendor_entry list" bool
  | ToolUse string string string json_value
  | ToolResult string "result_part list" bool

record tool_definition =
  td_name :: string
  td_description :: string
  td_input_schema :: string

definition offers :: "tool_definition list \<Rightarrow> string \<Rightarrow> bool" where
  "offers tools name = list_ex (\<lambda>t. td_name t = name) tools"

datatype envelope_sender =
    SenderAgent nat string nat
  | SenderConversation string "string option" nat string
  | SenderProduct string

record envelope =
  en_sender :: envelope_sender
  en_event :: string
  en_timestamp :: timestamp
  en_content :: string
  en_outcome :: "string option"

record json_codec =
  js_parse :: "string \<Rightarrow> json_value option"
  js_envelope :: "envelope \<Rightarrow> string"
  js_message :: "agent_message \<Rightarrow> string"
  js_usage :: "token_usage option \<Rightarrow> string"
  js_tool :: "tool_definition \<Rightarrow> string"
  js_base64_len :: "nat \<Rightarrow> nat"

section \<open>Texts, cut in the middle\<close>

definition HEAD_CHARS :: nat where
  "HEAD_CHARS = 8000"

definition TAIL_CHARS :: nat where
  "TAIL_CHARS = 8000"

definition REPLAY_CHARS :: nat where
  "REPLAY_CHARS = HEAD_CHARS + TAIL_CHARS"

text \<open>\<open>char_indices().nth(chars)\<close>: the byte offset of a character, or the end.\<close>

fun offset_in :: "nat \<Rightarrow> nat list \<Rightarrow> nat" where
  "offset_in 0 bs = 0"
| "offset_in (Suc n) bs =
     (case utf8_step bs of
        Some (Scalar c r) \<Rightarrow> length bs - length r + offset_in n r
      | _ \<Rightarrow> length bs)"

definition char_offset :: "string \<Rightarrow> nat \<Rightarrow> nat" where
  "char_offset text n = offset_in n (str_bytes text)"

definition LF2 :: string where
  "LF2 = [CHR 0x0A, CHR 0x0A]"

definition bound_text :: "string \<Rightarrow> string" where
  "bound_text text =
     (let total = length (chars text)
      in if total \<le> REPLAY_CHARS then text
         else take (char_offset text HEAD_CHARS) text @ LF2
              @ ''[... truncated '' @ show_nat (total - HEAD_CHARS - TAIL_CHARS) @ '' characters ...]'' @ LF2
              @ drop (char_offset text (total - TAIL_CHARS)) text)"

definition bounded_part :: "string \<Rightarrow> user_part" where
  "bounded_part text = UserText (bound_text text)"

section \<open>Command reports (reports.rs)\<close>

definition duration_text :: "nat \<Rightarrow> string" where
  "duration_text ms =
     (let seconds = (ms + 500) div 1000; minutes = seconds div 60
      in if seconds < 60 then show_nat seconds @ ''s''
         else if minutes < 60 then
           (if seconds mod 60 = 0 then show_nat minutes @ ''m''
            else show_nat minutes @ ''m'' @ show_nat (seconds mod 60) @ ''s'')
         else if minutes mod 60 = 0 then show_nat (minutes div 60) @ ''h''
         else show_nat (minutes div 60) @ ''h'' @ show_nat (minutes mod 60) @ ''m'')"

definition labelled_output :: "string \<Rightarrow> string" where
  "labelled_output output = (if output = [] then ''output: (empty)'' else ''output:\<newline>'' @ output)"

definition named_command :: "command_id \<Rightarrow> string \<Rightarrow> string" where
  "named_command command title =
     (if title = [] then ''Command '' @ command else ''Command '' @ command @ '' ('' @ title @ '')'')"

definition report_headline :: "command_report \<Rightarrow> string" where
  "report_headline r =
     (let named = named_command (cr_command_id r) (cr_title r)
      in case cr_event r of
           ReportRunning running_ms idle_ms \<Rightarrow>
             named @ '' is still running after '' @ duration_text running_ms @ ''; no output for ''
               @ duration_text idle_ms @ ''.''
         | ReportEnded (Some code) \<Rightarrow> named @ '' ended with exit code '' @ show_int code @ ''.''
         | ReportEnded None \<Rightarrow> named @ '' ended.''
         | ReportStopped (Some ByUser) \<Rightarrow> named @ '' was stopped by the user.''
         | ReportStopped (Some (ByAgent number)) \<Rightarrow> named @ '' was stopped by agent '' @ show_nat number @ ''.''
         | ReportStopped None \<Rightarrow> named @ '' was stopped.''
         | ReportLost reason \<Rightarrow> named @ '' was lost: '' @ reason @ ''. Start it again if it is still needed.'')"

definition report_text :: "command_report \<Rightarrow> string" where
  "report_text r = report_headline r @ [CHR 0x0A] @ labelled_output (cr_output r)"

definition reports_text :: "command_report list \<Rightarrow> string" where
  "reports_text reports = join LF2 (map report_text reports)"

section \<open>Other texts\<close>

definition gone_text :: "model_media_kind \<Rightarrow> gone_cause \<Rightarrow> string" where
  "gone_text kind cause =
     (case cause of NotStored error \<Rightarrow> ''['' @ media_kind_name kind @ '' not stored: '' @ error @ '']'')"

definition RESUME_TEXT :: string where
  "RESUME_TEXT = ''Continue from where you left off.''"

definition resume_text :: "resume_block \<Rightarrow> string" where
  "resume_text r = (case r_reason r of Some reason \<Rightarrow> reason @ '' '' @ RESUME_TEXT | None \<Rightarrow> RESUME_TEXT)"

definition COMPACTION_NOTE :: string where
  "COMPACTION_NOTE =
     ''The conversation before this point was compacted: the user's messages as they were written, each with its index, ''
     @ ''then a summary of the rest. `demi conversation history` reads what the summary leaves out.''"

definition summary_text :: "string \<Rightarrow> string" where
  "summary_text summary = ''<summary>'' @ [CHR 0x0A] @ summary @ [CHR 0x0A] @ ''</summary>''"

definition INSTRUCTIONS_SOURCE :: string where
  "INSTRUCTIONS_SOURCE = ''instructions''"

definition unsent :: "string \<Rightarrow> string \<Rightarrow> string \<Rightarrow> string" where
  "unsent kind name reason = ''['' @ kind @ '':'' @ name @ '', not sent: '' @ reason @ '']''"

definition tool_input :: "json_codec \<Rightarrow> string \<Rightarrow> json_value" where
  "tool_input js input = (case js_parse js input of Some v \<Rightarrow> v | None \<Rightarrow> JsonString input)"

fun completion_word :: "completion_outcome \<Rightarrow> string" where
  "completion_word OutcomeCompleted = ''completed''"
| "completion_word OutcomeFailed = ''failed''"
| "completion_word OutcomeAborted = ''aborted''"

fun permission_word :: "permission_outcome \<Rightarrow> string" where
  "permission_word Allowed = ''allowed''"
| "permission_word Denied = ''denied''"
| "permission_word Reached = ''reached''"

text \<open>A right single quotation mark.\<close>

definition APOSTROPHE :: string where
  "APOSTROPHE = [CHR 0xE2, CHR 0x80, CHR 0x99]"

definition envelope_of :: "agent_message \<Rightarrow> envelope" where
  "envelope_of m =
     (let (event, outcome) = (case am_event m of
          MessageEvent \<Rightarrow> (''message'', None)
        | Completion o' \<Rightarrow> (''completion'', Some (completion_word o'))
        | Permission o' _ _ _ _ _ \<Rightarrow> (''permission'', Some (permission_word o'))
        | Moved _ _ _ \<Rightarrow> (''moved'', None)
        | MoveFailed _ _ \<Rightarrow> (''move_failed'', None));
        sender = (case am_sender m of
          Some s \<Rightarrow>
            (case sn_conversation s of
               Some c \<Rightarrow> SenderConversation (sc_id c) (sc_title c) (sn_number s) (sn_description s)
             | None \<Rightarrow> SenderAgent (sn_number s) (sn_description s) (sn_round s))
        | None \<Rightarrow> (case am_event m of MoveFailed _ _ \<Rightarrow> SenderProduct ''demi'' | _ \<Rightarrow> SenderProduct ''user''))
      in \<lparr>en_sender = sender, en_event = event, en_timestamp = am_timestamp m, en_content = am_content m,
          en_outcome = outcome\<rparr>)"

definition envelope_origin :: "agent_message \<Rightarrow> string" where
  "envelope_origin m =
     (case am_sender m of
        Some s \<Rightarrow>
          if sn_conversation s \<noteq> None
          then ''A message from an agent of another conversation of the user. Follow the real user'' @ APOSTROPHE
               @ ''s task and constraints. Your answers reach that conversation only by `demi conversation send`.''
          else ''Agent-originated context. Follow the real user'' @ APOSTROPHE @ ''s task and constraints.''
      | None \<Rightarrow>
          (case am_event m of
             Moved _ _ _ \<Rightarrow> ''The user moved this conversation.''
           | MoveFailed _ _ \<Rightarrow> ''Demi'' @ APOSTROPHE @ ''s notice that a move this conversation'' @ APOSTROPHE
               @ ''s agent asked for failed.''
           | _ \<Rightarrow> ''The user'' @ APOSTROPHE @ ''s decision on a permission request of this conversation.''))"

definition agent_message_envelope :: "json_codec \<Rightarrow> agent_message \<Rightarrow> string" where
  "agent_message_envelope js m =
     join [CHR 0x0A]
       [envelope_origin m,
        ''Use this information to continue your work; no separate acknowledgement is required.'',
        js_envelope js (envelope_of m)]"

section \<open>A request over the model's view\<close>

record request_view =
  rv_view :: model_view
  rv_model :: model_facts
  rv_tools :: "tool_definition list"
  rv_half_body :: "nat option"
  rv_tool_results :: tool_result_kinds

definition request_view_of :: "model_view \<Rightarrow> model_facts \<Rightarrow> request_limits \<Rightarrow> tool_definition list \<Rightarrow> request_view" where
  "request_view_of v model limits tools =
     \<lparr>rv_view = v, rv_model = model, rv_tools = tools,
      rv_half_body = map_option (\<lambda>bytes. bytes div 2) (lim_body_bytes limits),
      rv_tool_results = lim_tool_results limits\<rparr>"

definition request_blocks :: "request_view \<Rightarrow> block list" where
  "request_blocks q = mv_blocks (rv_view q)"

definition declares :: "request_view \<Rightarrow> string \<Rightarrow> bool" where
  "declares q name = offers (rv_tools q) name"

definition refusal :: "json_codec \<Rightarrow> request_view \<Rightarrow> bool \<Rightarrow> byte list \<Rightarrow> string option" where
  "refusal js q accepted data =
     (if \<not> accepted then Some ''the model does not accept it''
      else case rv_half_body q of
        None \<Rightarrow> None
      | Some half \<Rightarrow>
          if half < js_base64_len js (length data) then Some ''too large for the model's requests'' else None)"

text \<open>\<open>None\<close>: the view holds nothing for the blob. \<open>Inl\<close>: the text the medium goes as.\<close>

definition view_bytes ::
  "json_codec \<Rightarrow> request_view \<Rightarrow> string \<Rightarrow> blob_ref \<Rightarrow> string \<Rightarrow> string \<Rightarrow> bool \<Rightarrow> (string + media_bytes) option" where
  "view_bytes js q kind blob media_type name accepted =
     (case view_held (rv_view q) blob of
        None \<Rightarrow> None
      | Some HeldMissing \<Rightarrow> Some (Inl (missing_text kind))
      | Some (HeldBytes data) \<Rightarrow>
          (case refusal js q accepted data of
             Some reason \<Rightarrow> Some (Inl (unsent kind name reason))
           | None \<Rightarrow> Some (Inr \<lparr>mb_data = data, mb_media_type = media_type\<rparr>)))"

fun trim_start :: "nat list \<Rightarrow> nat list" where
  "trim_start [] = []"
| "trim_start (c # cs) = (if is_whitespace c then trim_start cs else c # cs)"

definition accepts_document :: "model_facts \<Rightarrow> string \<Rightarrow> bool" where
  "accepts_document model media_type =
     (rev (trim_start (rev (trim_start (chars (takeWhile (\<lambda>c. c \<noteq> CHR '';'') media_type))))) = chars ''application/pdf''
      \<and> file_extension_support (md_accepted_extensions model) Pdf = Some True)"

definition message_medium ::
  "json_codec \<Rightarrow> request_view \<Rightarrow> model_media_kind \<Rightarrow> media_source \<Rightarrow> (string + medium) option" where
  "message_medium js q kind source =
     (case source of
        SourceUrl url \<Rightarrow>
          let reads = (case kind of
                MediaImage \<Rightarrow> model_accepts_images (rv_model q)
              | MediaVideo \<Rightarrow> model_accepts_video (rv_model q)
              | MediaDocument \<Rightarrow> False)
          in Some (if reads then Inr (ByUrl url)
                   else Inl (unsent (media_kind_name kind) url ''the model does not accept it''))
      | SourceRef blob media_type _ _ \<Rightarrow>
          map_option (map_sum id ByBytes)
            (view_bytes js q (media_kind_name kind) blob media_type media_type
               (model_accepts_media_type (rv_model q) media_type)))"

definition message_document ::
  "json_codec \<Rightarrow> request_view \<Rightarrow> document_source \<Rightarrow> (string + media_bytes) option" where
  "message_document js q source =
     (case source of DocumentRef blob media_type file_name \<Rightarrow>
        view_bytes js q ''document'' blob media_type file_name (accepts_document (rv_model q) media_type))"

definition tool_document ::
  "json_codec \<Rightarrow> request_view \<Rightarrow> document_source \<Rightarrow> (string + media_bytes) option" where
  "tool_document js q source =
     (case source of DocumentRef blob media_type file_name \<Rightarrow>
        view_bytes js q ''document'' blob media_type file_name
          (carries (rv_tool_results q) MediaDocument \<and> accepts_document (rv_model q) media_type))"

definition tool_medium ::
  "json_codec \<Rightarrow> request_view \<Rightarrow> model_media_kind \<Rightarrow> tool_media_source \<Rightarrow> (string + media_bytes) option" where
  "tool_medium js q kind source =
     (case source of ToolMediaRef blob media_type _ _ \<Rightarrow>
        view_bytes js q (media_kind_name kind) blob media_type media_type
          (kinds_read (rv_tool_results q) (rv_model q) media_type))"

fun document_name :: "document_source \<Rightarrow> string" where
  "document_name (DocumentRef _ _ file_name) = file_name"

definition replay_user_part :: "json_codec \<Rightarrow> request_view \<Rightarrow> user_content \<Rightarrow> user_part option" where
  "replay_user_part js q part =
     (case part of
        CText text \<Rightarrow> Some (UserText text)
      | CReference reference \<Rightarrow> Some (UserText reference)
      | CAttachment a \<Rightarrow> Some (UserText (attachment_tag a))
      | CImage source \<Rightarrow> map_option (case_sum UserText UserImage) (message_medium js q MediaImage source)
      | CVideo source \<Rightarrow> map_option (case_sum UserText UserVideo) (message_medium js q MediaVideo source)
      | CDocument source \<Rightarrow>
          map_option (case_sum UserText (\<lambda>b. UserDocument b (document_name source))) (message_document js q source))"

definition replay_result :: "json_codec \<Rightarrow> request_view \<Rightarrow> tool_result_content \<Rightarrow> result_part option" where
  "replay_result js q part =
     (case part of
        RText text \<Rightarrow> Some (PartText (bound_text text))
      | RImage source \<Rightarrow> map_option (case_sum PartText PartImage) (tool_medium js q MediaImage source)
      | RVideo source \<Rightarrow> map_option (case_sum PartText PartVideo) (tool_medium js q MediaVideo source)
      | RDocument source \<Rightarrow>
          map_option (case_sum PartText (\<lambda>b. PartDocument b (document_name source))) (tool_document js q source)
      | RGone kind _ cause \<Rightarrow> Some (PartText (bound_text (gone_text kind cause))))"

fun result_as_part :: "result_part \<Rightarrow> user_part" where
  "result_as_part (PartText text) = UserText text"
| "result_as_part (PartImage b) = UserImage (ByBytes b)"
| "result_as_part (PartVideo b) = UserVideo (ByBytes b)"
| "result_as_part (PartDocument b file_name) = UserDocument b file_name"

text \<open>The parts of reports that arrived together, after the texts \<open>text\<close> not pushed yet.\<close>

fun report_parts ::
  "json_codec \<Rightarrow> request_view \<Rightarrow> string list \<Rightarrow> command_report list \<Rightarrow> user_part list option" where
  "report_parts js q text [] = Some (if text = [] then [] else [bounded_part (join LF2 text)])"
| "report_parts js q text (r # rs) =
     (if cr_media r = [] then report_parts js q (text @ [report_text r]) rs
      else case (those (map (replay_result js q) (cr_media r)), report_parts js q [] rs) of
        (Some parts, Some rest) \<Rightarrow>
          Some (bounded_part (join LF2 (text @ [report_text r])) # map result_as_part parts @ rest)
      | _ \<Rightarrow> None)"

fun json_text :: "json_value \<Rightarrow> string" where
  "json_text (JsonString text) = text"
| "json_text (JsonOther json) = json"

fun undeclared_part :: "tool_result_content \<Rightarrow> string" where
  "undeclared_part (RText text) = text"
| "undeclared_part (RImage (ToolMediaRef _ media_type _ _)) = ''['' @ media_type @ '']''"
| "undeclared_part (RVideo (ToolMediaRef _ media_type _ _)) = ''['' @ media_type @ '']''"
| "undeclared_part (RDocument (DocumentRef _ media_type _)) = ''['' @ media_type @ '']''"
| "undeclared_part (RGone kind _ cause) = gone_text kind cause"

definition undeclared_call :: "json_codec \<Rightarrow> tool_call_block \<Rightarrow> string" where
  "undeclared_call js c =
     (let input = json_text (tool_input js (tc_input c))
      in if tc_status c = Executing then ''[called '' @ tc_tool_name c @ '' '' @ input @ '']''
         else ''[called '' @ tc_tool_name c @ '' '' @ input @ '': ''
              @ join [CHR 0x0A] (map undeclared_part (tc_output c)) @ '']'')"

section \<open>The items of each block, and of a transcript\<close>

definition call_items :: "json_codec \<Rightarrow> request_view \<Rightarrow> tool_call_block \<Rightarrow> inference_item list option" where
  "call_items js q c =
     (if \<not> declares q (tc_tool_name c) then
        Some [AssistantText (md_id (ms_model (block_model c))) (bound_text (undeclared_call js c))]
      else
        let call = ToolUse (md_id (ms_model (block_model c))) (tc_tool_use_id c) (tc_tool_name c)
                     (tool_input js (tc_input c))
        in if tc_status c = Executing then Some [call]
           else map_option (\<lambda>output. [call, ToolResult (tc_tool_use_id c) output (tc_status c = CallError)])
                  (those (map (replay_result js q) (tc_output c))))"

definition boundary_items :: "compaction_boundary_block \<Rightarrow> inference_item list" where
  "boundary_items b =
     UserMessage [UserText COMPACTION_NOTE] # map (\<lambda>k. UserMessage [UserText (model_text k)]) (b_kept b)
       @ [UserMessage [UserText (summary_text (bound_text (b_summary b)))]]"

definition block_items :: "json_codec \<Rightarrow> request_view \<Rightarrow> bool \<Rightarrow> block \<Rightarrow> inference_item list option" where
  "block_items js q past b =
     (case b of
        User u \<Rightarrow>
          map_option (\<lambda>content. [UserMessage content])
            (those (map (replay_user_part js q) (lead_content u @ u_content u)))
      | Context c \<Rightarrow>
          Some [UserMessage [if c_source c = INSTRUCTIONS_SOURCE then UserText (c_text c) else bounded_part (c_text c)]]
      | Wakeup w \<Rightarrow>
          map_option (\<lambda>content. [case w_placement w of NewTurn \<Rightarrow> UserMessage content | AsSteer \<Rightarrow> UserSteer content])
            (report_parts js q [] (w_reports w))
      | Steer s \<Rightarrow>
          map_option (\<lambda>content. [UserSteer content])
            (those (map (replay_user_part js q) (comments_content (s_comments s) @ s_content s)))
      | AgentMessage m \<Rightarrow> Some [UserSteer [UserText (agent_message_envelope js (m_message m))]]
      | Resume r \<Rightarrow> Some [UserMessage [UserText (resume_text r)]]
      | Thinking th \<Rightarrow>
          Some [AssistantThinking (md_id (ms_model (block_model th)))
            (case th_signature th of Some _ \<Rightarrow> th_text th | None \<Rightarrow> bound_text (th_text th)) (th_signature th) past]
      | Opaque p \<Rightarrow> Some [OpaqueStep (md_id (ms_model (block_model p))) (o_entries p) past]
      | TextBlock x \<Rightarrow> Some [AssistantText (md_id (ms_model (block_model x))) (bound_text (t_text x))]
      | ToolCall c \<Rightarrow> call_items js q c
      | CompactionBoundary b \<Rightarrow> Some (boundary_items b)
      | _ \<Rightarrow> Some [])"

fun is_marker_of :: "block_id \<Rightarrow> block \<Rightarrow> bool" where
  "is_marker_of i (CompactionMarker mk) = (mk_boundary_id mk = i)"
| "is_marker_of i _ = False"

text \<open>The range of the blocks compaction kept after the summary replay starts at.\<close>

definition kept_past_summary :: "block list \<Rightarrow> nat \<Rightarrow> nat \<times> nat" where
  "kept_past_summary blocks start =
     (case get_at blocks start of
        Some (CompactionBoundary b) \<Rightarrow>
          (start + 1,
           case position (is_marker_of (block_id b)) (drop start blocks) of
             Some offset \<Rightarrow> start + offset
           | None \<Rightarrow> length blocks)
      | _ \<Rightarrow> (0, 0))"

text \<open>Where the content of each request answered since the last compaction ends, with the model that answered.\<close>

fun answered_loop ::
  "block list \<Rightarrow> nat \<Rightarrow> nat \<Rightarrow> (nat \<times> model_selection) list \<Rightarrow> block list \<Rightarrow> (nat \<times> model_selection) list" where
  "answered_loop blocks floor index answered [] = answered"
| "answered_loop blocks floor index answered (b # rest) =
     answered_loop blocks floor (index + 1)
       (case b of
          Response r \<Rightarrow>
            let ending = (case rposition (Not \<circ> is_answer) (drop floor (take index blocks)) of
                  Some before \<Rightarrow> floor + before + 1
                | None \<Rightarrow> floor)
            in if answered \<noteq> [] \<and> fst (last answered) = ending then answered
               else answered @ [(ending, block_model r)]
        | _ \<Rightarrow> answered) rest"

definition answered_requests :: "block list \<Rightarrow> (nat \<times> model_selection) list" where
  "answered_requests blocks =
     (let floor = (case rposition is_compaction blocks of Some c \<Rightarrow> c + 1 | None \<Rightarrow> 0)
      in answered_loop blocks floor floor [] (drop floor blocks))"

definition answered_ends :: "block list \<Rightarrow> nat list" where
  "answered_ends blocks = map fst (answered_requests blocks)"

definition latest_answer :: "block list \<Rightarrow> nat option" where
  "latest_answer blocks = (if answered_ends blocks = [] then None else Some (last (answered_ends blocks)))"

record replayed_block =
  rb_id :: block_id
  rb_items :: "nat \<times> nat"
  rb_entries :: "vendor_entry list"
  rb_past :: bool

record replay =
  rl_items :: "inference_item list"
  rl_blocks :: "replayed_block list"
  rl_answered :: nat

definition add_items :: "replay \<Rightarrow> block \<Rightarrow> bool \<Rightarrow> inference_item list \<Rightarrow> replay" where
  "add_items r b past new =
     (if new = [] then r
      else r\<lparr>rl_items := rl_items r @ new,
             rl_blocks := rl_blocks r @
               [\<lparr>rb_id = id_of b, rb_items = (length (rl_items r), length (rl_items r) + length new),
                 rb_entries = entries b, rb_past = past\<rparr>]\<rparr>)"

fun replay_loop ::
  "json_codec \<Rightarrow> request_view \<Rightarrow> nat option \<Rightarrow> nat \<times> nat \<Rightarrow> nat \<Rightarrow> block list \<Rightarrow> replay \<Rightarrow> replay option" where
  "replay_loop js q answer kept index [] r = Some r"
| "replay_loop js q answer kept index (b # bs) r =
     (let r = (if answer = Some index then r\<lparr>rl_answered := length (rl_items r)\<rparr> else r);
          past = (fst kept \<le> index \<and> index < snd kept)
      in case block_items js q past b of
           None \<Rightarrow> None
         | Some new \<Rightarrow> replay_loop js q answer kept (index + 1) bs (add_items r b past new))"

definition replay_of :: "json_codec \<Rightarrow> request_view \<Rightarrow> replay option" where
  "replay_of js q =
     (let blocks = request_blocks q; start = replay_start blocks
      in replay_loop js q (latest_answer blocks) (kept_past_summary blocks start) start (drop start blocks)
           \<lparr>rl_items = [], rl_blocks = [], rl_answered = 0\<rparr>)"

end
