(* ===== verification/Scheduler.thy ===== *)
theory Scheduler imports Persist Inputs Replay begin

text \<open>
  What a session does with the actions and the input it is given (\<open>crates/agent-session/src/core.rs\<close>):
  admission, the queue, which action starts next, steers, agent messages and command reports, what a
  boundary writes, the user's Stop, holds and dispose. The session's transcript, what it publishes
  and what is due for a save are the \<open>core\<close> of theory \<open>Persist\<close>.

  The identities and times an operation draws are its arguments, and so is the node's runtime, the
  trait \<open>SessionRuntime\<close>: what it answers may differ from one call to the next. What only the log's
  lines say (when an action was admitted or began, how long it waited) is left out, and so are the
  provider runtimes and the recorded model switch, which no operation here reads.
\<close>

record runtime =
  rt_user_recovers :: bool
  rt_is_below :: "node_id \<Rightarrow> bool"
  rt_end_seen :: "command_id \<Rightarrow> bool"
  rt_write_report :: "command_report \<Rightarrow> command_report"
  rt_look :: "command_id \<Rightarrow> nat \<Rightarrow> (string \<times> shell_tool_view) option"

datatype action_kind =
    SendAction "user_content list" "message_comment list" "schedule_mark option"
  | ContinueAction
  | RetryAction
  | ResumeAction "string option"
  | CompactAction bool
  | EditAction
  | SwitchAction block_id nat

datatype action_end = EndCompleted | EndAborted | EndDropped | EndDetached | EndDuplicate

text \<open>\<open>pn_reply\<close>: its caller waits for its end.\<close>

record pending_action =
  pn_kind :: action_kind
  pn_turn :: turn_id
  pn_reply :: bool

definition is_send :: "pending_action \<Rightarrow> bool" where
  "is_send a = (case pn_kind a of SendAction _ _ _ \<Rightarrow> True | _ \<Rightarrow> False)"

datatype turn_stage = Preparing | Streaming | ToolsStage | CompactingStage

datatype cancel_reason = CancelStop | CancelHold string | CancelShutdown

datatype send_now = NowSteer | NowMessage

record started_action =
  st_kind :: action_kind
  st_turn :: turn_id
  st_reply :: bool

text \<open>
  \<open>ar_cancelled\<close> and \<open>ar_given_back\<close> are the action's \<open>TurnCancel\<close>: the first reason it was
  cancelled for, and the message a Stop gave back.
\<close>

record action_run =
  ar_turn :: turn_id
  ar_cancelled :: "cancel_reason option"
  ar_given_back :: "queued_message option"
  ar_stage :: turn_stage
  ar_idle_compaction :: bool
  ar_started_at :: nat
  ar_unwritten :: "queued_message option"
  ar_sends :: bool
  ar_giving_back :: bool
  ar_send_now :: "send_now option"
  ar_start :: "started_action option"

datatype activity = ActIdle | ActRunning action_run | ActFinishing bool | ActClosed bool

record edit_in_flight =
  ed_operation :: string
  ed_digest :: string
  ed_accepted :: bool

record edit_receipt =
  rc_operation :: string
  rc_digest :: string
  rc_turn :: turn_id

datatype watch = WatchService | WatchUnreported | WatchSilenced

definition watch_started :: "bool \<Rightarrow> watch" where
  "watch_started service = (if service then WatchService else WatchUnreported)"

record agent_session =
  as_core :: core
  as_id :: node_id
  as_model :: model_selection
  as_pending :: "pending_action list"
  as_inputs :: input_queue
  as_watched :: "(command_id \<times> watch) list"
  as_calls :: "string \<Rightarrow> (command_id \<times> bool) option"
  as_writing :: "pending_call list"
  as_edits :: "edit_receipt list"
  as_editing :: "edit_in_flight option"
  as_activity :: activity
  as_held :: bool
  as_passed_failure :: "block_id option"
  as_disposing :: bool
  as_waiting_since :: "timestamp option"
  as_answers :: "(turn_id \<times> action_end) list"

abbreviation as_log :: "agent_session \<Rightarrow> log" where
  "as_log s \<equiv> co_log (as_core s)"

text \<open>A change of the transcript, committed.\<close>

definition written :: "agent_session \<Rightarrow> log \<Rightarrow> agent_session" where
  "written s l = s\<lparr>as_core := commit ((as_core s)\<lparr>co_log := l\<rparr>)\<rparr>"

definition answer :: "pending_action \<Rightarrow> action_end \<Rightarrow> agent_session \<Rightarrow> agent_session" where
  "answer a e s = (if pn_reply a then s\<lparr>as_answers := as_answers s @ [(pn_turn a, e)]\<rparr> else s)"

definition running :: "agent_session \<Rightarrow> action_run option" where
  "running s = (case as_activity s of ActRunning r \<Rightarrow> Some r | _ \<Rightarrow> None)"

definition with_run :: "agent_session \<Rightarrow> (action_run \<Rightarrow> action_run) \<Rightarrow> agent_session" where
  "with_run s f = (case as_activity s of ActRunning r \<Rightarrow> s\<lparr>as_activity := ActRunning (f r)\<rparr> | _ \<Rightarrow> s)"

definition cancel_run :: "cancel_reason \<Rightarrow> action_run \<Rightarrow> action_run" where
  "cancel_run reason r =
     (case ar_cancelled r of Some _ \<Rightarrow> r | None \<Rightarrow> r\<lparr>ar_cancelled := Some reason\<rparr>)"

section \<open>Commands that report\<close>

definition watch_command :: "agent_session \<Rightarrow> command_id \<Rightarrow> bool \<Rightarrow> agent_session" where
  "watch_command s command service =
     s\<lparr>as_watched := filter (\<lambda>(c, _). c \<noteq> command) (as_watched s) @ [(command, watch_started service)]\<rparr>"

definition awaits :: "agent_session \<Rightarrow> bool" where
  "awaits s = list_ex (\<lambda>(_, w). w \<noteq> WatchService) (as_watched s)"

definition report_is_end :: "command_report \<Rightarrow> bool" where
  "report_is_end r = (case cr_event r of ReportRunning _ _ \<Rightarrow> False | _ \<Rightarrow> True)"

definition end_seen :: "runtime \<Rightarrow> command_report \<Rightarrow> bool" where
  "end_seen rt r = (report_is_end r \<and> cr_media r = [] \<and> rt_end_seen rt (cr_command_id r))"

definition drop_seen_ends :: "runtime \<Rightarrow> agent_session \<Rightarrow> agent_session" where
  "drop_seen_ends rt s = s\<lparr>as_inputs := snd (retain_reports (\<lambda>r. \<not> end_seen rt r) (as_inputs s))\<rparr>"

definition arrived_since :: "runtime \<Rightarrow> agent_session \<Rightarrow> nat \<Rightarrow> bool \<times> agent_session" where
  "arrived_since rt s before =
     (let s' = drop_seen_ends rt s in (before < iq_arrivals (as_inputs s'), s'))"

section \<open>What a boundary writes\<close>

text \<open>
  The waiting input a boundary took, in arrival order; the command reports among it are one block
  where the first of them arrived. \<open>fresh\<close> is that block's identity.
\<close>

fun write_each ::
  "runtime \<Rightarrow> timestamp \<Rightarrow> block_id \<Rightarrow> turn_id \<Rightarrow> model_selection \<Rightarrow> command_report list \<Rightarrow> log \<Rightarrow> input list \<Rightarrow> log" where
  "write_each rt now fresh turn model reports l [] = l"
| "write_each rt now fresh turn model reports l (InSteer s # is) =
     write_each rt now fresh turn model reports
       (push_steer l now (ps_id s) turn (ps_model s) (ps_content s) (ps_comments s)) is"
| "write_each rt now fresh turn model reports l (InReport r opens # is) =
     (if reports = [] then write_each rt now fresh turn model [] l is
      else write_each rt now fresh turn model []
             (push_wakeup l now fresh turn model AsSteer (map (rt_write_report rt) reports)) is)"
| "write_each rt now fresh turn model reports l (InAgent i # is) =
     write_each rt now fresh turn model reports
       (push_agent_message l now turn (pi_model i) (pi_message i)
          (case am_sender (pi_message i) of Some from \<Rightarrow> rt_is_below rt (sn_id from) | None \<Rightarrow> False)) is"

definition write_inputs_into ::
  "runtime \<Rightarrow> timestamp \<Rightarrow> block_id \<Rightarrow> agent_session \<Rightarrow> turn_id \<Rightarrow> boundary_take \<Rightarrow> bool \<times> agent_session" where
  "write_inputs_into rt now fresh s turn t =
     (let s = drop_seen_ends rt s;
          (taken, inputs) = take_inputs t (as_inputs s);
          s = s\<lparr>as_inputs := inputs\<rparr>
      in if taken = [] then (False, s)
         else (list_ex is_agent_input taken,
               written s (write_each rt now fresh turn (as_model s) (reports_in taken) (as_log s) taken)))"

text \<open>The code panics when nothing runs; it is called by the running action alone.\<close>

definition write_inputs ::
  "runtime \<Rightarrow> timestamp \<Rightarrow> block_id \<Rightarrow> agent_session \<Rightarrow> boundary_take \<Rightarrow> (bool \<times> agent_session) option" where
  "write_inputs rt now fresh s t =
     (case running s of None \<Rightarrow> None | Some r \<Rightarrow> Some (write_inputs_into rt now fresh s (ar_turn r) t))"

definition open_continuation ::
  "runtime \<Rightarrow> timestamp \<Rightarrow> block_id \<Rightarrow> agent_session \<Rightarrow> (bool option \<times> agent_session) option" where
  "open_continuation rt now fresh s =
     (case running s of
        None \<Rightarrow> None
      | Some r \<Rightarrow>
          let s = drop_seen_ends rt s;
              (reports, inputs) = take_reports (as_inputs s);
              s' = s\<lparr>as_inputs := inputs\<rparr>
          in if reports \<noteq> [] then
               Some (Some False,
                 written s' (push_wakeup (as_log s') now fresh (ar_turn r) (as_model s') NewTurn
                   (map (rt_write_report rt) reports)))
             else if has_agent_input inputs then
               map_option (map_prod Some id) (write_inputs rt now fresh s' Everything)
             else Some (None, s'))"

section \<open>Admission, and which action starts next\<close>

datatype admission_error = AdmissionClosed | AdmissionEditing

definition preparing_edit :: "agent_session \<Rightarrow> bool" where
  "preparing_edit s = (case as_editing s of Some e \<Rightarrow> \<not> ed_accepted e | None \<Rightarrow> False)"

definition refuse_admission :: "agent_session \<Rightarrow> admission_error option" where
  "refuse_admission s =
     (if as_disposing s then Some AdmissionClosed
      else if preparing_edit s then Some AdmissionEditing else None)"

definition knows_turn :: "agent_session \<Rightarrow> turn_id \<Rightarrow> bool" where
  "knows_turn s i =
     ((case running s of Some r \<Rightarrow> ar_turn r = i | None \<Rightarrow> False)
      \<or> list_ex (\<lambda>a. is_send a \<and> pn_turn a = i) (as_pending s)
      \<or> has_user_turn (as_log s) i)"

definition failed_turn_holds :: "runtime \<Rightarrow> agent_session \<Rightarrow> bool" where
  "failed_turn_holds rt s =
     (rt_user_recovers rt
      \<and> (case turn_failure (as_log s) of Some e \<Rightarrow> as_passed_failure s \<noteq> Some (block_id e) | None \<Rightarrow> False))"

definition wants_continuation :: "runtime \<Rightarrow> agent_session \<Rightarrow> bool" where
  "wants_continuation rt s =
     (\<not> as_held s \<and> \<not> failed_turn_holds rt s \<and> (has_report (as_inputs s) \<or> has_agent_input (as_inputs s)))"

definition start_waiting :: "timestamp \<Rightarrow> agent_session \<Rightarrow> agent_session" where
  "start_waiting now s =
     (case as_waiting_since s of None \<Rightarrow> s\<lparr>as_waiting_since := Some now\<rparr> | Some _ \<Rightarrow> s)"

definition stop_waiting :: "agent_session \<Rightarrow> agent_session" where
  "stop_waiting s = s\<lparr>as_waiting_since := None\<rparr>"

definition start_action ::
  "timestamp \<Rightarrow> agent_session \<Rightarrow> action_kind \<Rightarrow> turn_id \<Rightarrow> bool \<Rightarrow> agent_session" where
  "start_action now s kind turn reply =
     (let s' = s\<lparr>as_held := False, as_activity := ActRunning
          \<lparr>ar_turn = turn, ar_cancelled = None, ar_given_back = None, ar_stage = Preparing,
           ar_idle_compaction = (kind = CompactAction True), ar_started_at = lg_revision (as_log s),
           ar_unwritten = (case kind of
              SendAction content comments schedule \<Rightarrow>
                Some \<lparr>qm_id = turn, qm_content = content, qm_comments = comments, qm_schedule = schedule\<rparr>
            | _ \<Rightarrow> None),
           ar_sends = (case kind of SendAction _ _ _ \<Rightarrow> True | _ \<Rightarrow> False),
           ar_giving_back = False, ar_send_now = None,
           ar_start = Some \<lparr>st_kind = kind, st_turn = turn, st_reply = reply\<rparr>\<rparr>\<rparr>
      in case kind of CompactAction _ \<Rightarrow> s' | _ \<Rightarrow> start_waiting now s')"

definition steer_action :: "pending_steer \<Rightarrow> pending_action" where
  "steer_action st = \<lparr>pn_kind = SendAction (ps_content st) (ps_comments st) None, pn_turn = ps_id st, pn_reply = False\<rparr>"

text \<open>The steers that wait go into the queue as messages, after its first \<open>ahead\<close> entries.\<close>

function queue_steers :: "nat \<Rightarrow> agent_session \<Rightarrow> agent_session" where
  "queue_steers ahead s =
     (case take_first_steer (as_inputs s) of
        (None, _) \<Rightarrow> s
      | (Some st, inputs) \<Rightarrow>
          queue_steers (ahead + 1) (s\<lparr>as_inputs := inputs,
            as_pending := take ahead (as_pending s) @ steer_action st # drop ahead (as_pending s)\<rparr>))"
  by pat_completeness auto

lemma take_first_steer_shorter: "take_first_steer q = (Some st, q') \<Longrightarrow> length (iq_entries q') < length (iq_entries q)"
  by (cases q rule: take_first_steer_cases) (auto dest: arg_cong [of _ _ size])

termination queue_steers
  by (relation "measure (\<lambda>(_, s). length (iq_entries (as_inputs s)))") (auto dest: take_first_steer_shorter [OF sym])

declare queue_steers.simps [simp del]

definition write_into_failed_turn :: "runtime \<Rightarrow> timestamp \<Rightarrow> block_id \<Rightarrow> agent_session \<Rightarrow> agent_session" where
  "write_into_failed_turn rt now fresh s =
     (if as_held s \<or> \<not> failed_turn_holds rt s then s
      else case log_last_turn (as_log s) of
        None \<Rightarrow> s
      | Some turn \<Rightarrow> snd (write_inputs_into rt now fresh s turn Everything))"

text \<open>\<open>fresh\<close> is the turn of a continuation, or the block of the reports a failed turn takes.\<close>

definition start_next :: "runtime \<Rightarrow> timestamp \<Rightarrow> string \<Rightarrow> agent_session \<Rightarrow> agent_session" where
  "start_next rt now fresh s =
     (if as_disposing s then (queue_steers 0 s)\<lparr>as_activity := ActClosed False\<rparr>
      else
        let message_next = (case as_pending s of a # _ \<Rightarrow> is_send a | [] \<Rightarrow> False);
            (steer, inputs) = (if message_next then (None, as_inputs s) else take_first_steer (as_inputs s))
        in case steer of
             Some st \<Rightarrow>
               start_action now (s\<lparr>as_inputs := snd (take_admitted (ps_id st) inputs)\<rparr>)
                 (SendAction (ps_content st) (ps_comments st) None) (ps_id st) False
           | None \<Rightarrow>
               (case as_pending s of
                  a # later \<Rightarrow> start_action now (s\<lparr>as_pending := later\<rparr>) (pn_kind a) (pn_turn a) (pn_reply a)
                | [] \<Rightarrow>
                    if wants_continuation rt s then start_action now s ContinueAction fresh False
                    else write_into_failed_turn rt now fresh (s\<lparr>as_activity := ActIdle\<rparr>)))"

definition push_action ::
  "runtime \<Rightarrow> timestamp \<Rightarrow> string \<Rightarrow> agent_session \<Rightarrow> action_kind \<Rightarrow> turn_id \<Rightarrow> bool \<Rightarrow> agent_session" where
  "push_action rt now fresh s kind turn reply =
     (let s' = s\<lparr>as_pending := as_pending s @ [\<lparr>pn_kind = kind, pn_turn = turn, pn_reply = reply\<rparr>]\<rparr>
      in case as_activity s' of ActIdle \<Rightarrow> start_next rt now fresh s' | _ \<Rightarrow> s')"

text \<open>A message; \<open>None\<close> for the error says it was admitted, or known already and answered.\<close>

definition admit_send ::
  "runtime \<Rightarrow> timestamp \<Rightarrow> string \<Rightarrow> agent_session \<Rightarrow> queued_message \<Rightarrow> admission_error option \<times> agent_session" where
  "admit_send rt now fresh s m =
     (case refuse_admission s of
        Some e \<Rightarrow> (Some e, s)
      | None \<Rightarrow>
          if knows_turn s (qm_id m) then (None, s\<lparr>as_answers := as_answers s @ [(qm_id m, EndDuplicate)]\<rparr>)
          else (None, push_action rt now fresh s (SendAction (qm_content m) (qm_comments m) (qm_schedule m)) (qm_id m) True))"

text \<open>A retry, a resume or a compaction pass, of the new turn \<open>turn\<close>.\<close>

definition admit ::
  "runtime \<Rightarrow> timestamp \<Rightarrow> string \<Rightarrow> agent_session \<Rightarrow> action_kind \<Rightarrow> turn_id \<Rightarrow> admission_error option \<times> agent_session" where
  "admit rt now fresh s kind turn =
     (case refuse_admission s of
        Some e \<Rightarrow> (Some e, s)
      | None \<Rightarrow> (None, push_action rt now fresh s kind turn True))"

definition admit_idle_compaction ::
  "runtime \<Rightarrow> timestamp \<Rightarrow> string \<Rightarrow> agent_session \<Rightarrow> turn_id \<Rightarrow> bool \<times> agent_session" where
  "admit_idle_compaction rt now fresh s turn =
     (if as_activity s \<noteq> ActIdle \<or> as_pending s \<noteq> [] \<or> wants_continuation rt s \<or> refuse_admission s \<noteq> None
      then (False, s)
      else (True, push_action rt now fresh s (CompactAction True) turn False))"

definition wake :: "runtime \<Rightarrow> timestamp \<Rightarrow> string \<Rightarrow> agent_session \<Rightarrow> agent_session" where
  "wake rt now fresh s =
     (if as_activity s = ActIdle \<and> as_pending s = [] then start_next rt now fresh s else s)"

definition wake_for_user :: "timestamp \<Rightarrow> string \<Rightarrow> agent_session \<Rightarrow> agent_session" where
  "wake_for_user now fresh s =
     (if as_activity s = ActIdle \<and> as_pending s = [] \<and> \<not> as_disposing s
      then start_action now s ContinueAction fresh False else s)"

definition hold_session :: "agent_session \<Rightarrow> agent_session" where
  "hold_session s = s\<lparr>as_held := True\<rparr>"

definition release_hold :: "runtime \<Rightarrow> timestamp \<Rightarrow> string \<Rightarrow> agent_session \<Rightarrow> agent_session" where
  "release_hold rt now fresh s = wake rt now fresh (s\<lparr>as_held := False\<rparr>)"

definition failure_passed :: "runtime \<Rightarrow> timestamp \<Rightarrow> string \<Rightarrow> agent_session \<Rightarrow> block_id \<Rightarrow> agent_session" where
  "failure_passed rt now fresh s record_id =
     (case turn_failure (as_log s) of
        Some e \<Rightarrow> if block_id e = record_id then wake rt now fresh (s\<lparr>as_passed_failure := Some record_id\<rparr>) else s
      | None \<Rightarrow> s)"

section \<open>A running action\<close>

definition take_started :: "agent_session \<Rightarrow> started_action option \<times> agent_session" where
  "take_started s =
     (case running s of
        Some r \<Rightarrow> (ar_start r, with_run s (\<lambda>r. r\<lparr>ar_start := None\<rparr>))
      | None \<Rightarrow> (None, s))"

definition set_stage :: "agent_session \<Rightarrow> turn_stage \<Rightarrow> agent_session" where
  "set_stage s stage = with_run s (\<lambda>r. r\<lparr>ar_stage := stage\<rparr>)"

definition take_over_turn :: "agent_session \<Rightarrow> turn_id \<Rightarrow> agent_session" where
  "take_over_turn s turn = with_run s (\<lambda>r. r\<lparr>ar_turn := turn\<rparr>)"

definition session_push_user ::
  "agent_session \<Rightarrow> stamp \<Rightarrow> turn_id \<Rightarrow> user_content list \<Rightarrow> message_comment list \<Rightarrow> string option
     \<Rightarrow> schedule_mark option \<Rightarrow> agent_session" where
  "session_push_user s st turn content comments preamble schedule =
     written (with_run s (\<lambda>r. r\<lparr>ar_unwritten := None\<rparr>))
       (push_user (as_log s) st turn (as_model s) content comments preamble schedule)"

definition mark_state_changed :: "core \<Rightarrow> core" where
  "mark_state_changed c = c\<lparr>co_persist := (co_persist c)\<lparr>pm_dirty := True\<rparr>, co_save_asked := True\<rparr>"

definition end_action :: "agent_session \<Rightarrow> agent_session" where
  "end_action s =
     (let s' = s\<lparr>as_activity := ActFinishing (case running s of Some r \<Rightarrow> ar_idle_compaction r | None \<Rightarrow> False)\<rparr>;
          core' = (if pm_recorded (co_persist (as_core s')) \<noteq> PhaseIdle then mark_state_changed (as_core s') else as_core s')
      in (stop_waiting s')\<lparr>as_core := core', as_editing := None\<rparr>)"

definition action_began :: "agent_session \<Rightarrow> bool" where
  "action_began s = (case running s of Some r \<Rightarrow> ar_started_at r \<noteq> lg_revision (as_log s) | None \<Rightarrow> False)"

section \<open>Calls that end without their result\<close>

definition INTERRUPTED_TURN_MESSAGE :: string where
  "INTERRUPTED_TURN_MESSAGE = ''The agent session was shut down while this turn was running.''"

datatype call_end = CallStopped | CallHeld string | CallShutdown | CallCrashed | CallFailed string

definition trim_end_dots :: "string \<Rightarrow> string" where
  "trim_end_dots s = rev (dropWhile (\<lambda>c. c = CHR ''.'') (rev s))"

definition interrupted_text :: "call_end \<Rightarrow> command_id option \<Rightarrow> string" where
  "interrupted_text e command =
     (case e of
        CallFailed reason \<Rightarrow> ''Tool call aborted: '' @ trim_end_dots reason @ ''.''
      | _ \<Rightarrow>
          let reason = (case e of
                CallStopped \<Rightarrow> ''Tool call aborted: the user stopped the turn''
              | CallHeld hold \<Rightarrow> ''Tool call aborted: '' @ hold
              | CallShutdown \<Rightarrow> ''Tool call interrupted: the backend shut down''
              | _ \<Rightarrow> ''Tool call interrupted: the backend stopped before its result was recorded'')
          in case command of
               None \<Rightarrow> reason @ ''.''
             | Some c \<Rightarrow>
                 (case e of
                    CallShutdown \<Rightarrow> reason @ '' while this call watched command '' @ c
                      @ '', which keeps running and wakes you when it ends.''
                  | CallCrashed \<Rightarrow> reason @ ''; command '' @ c @ '' keeps running if its device kept it.''
                  | _ \<Rightarrow> reason @ ''; command '' @ c @ '' was stopped.''))"

definition stops_commands :: "call_end \<Rightarrow> bool" where
  "stops_commands e = (case e of CallStopped \<Rightarrow> True | CallHeld _ \<Rightarrow> True | _ \<Rightarrow> False)"

definition abort_call :: "runtime \<Rightarrow> timestamp \<Rightarrow> call_end \<Rightarrow> agent_session \<Rightarrow> pending_call \<Rightarrow> agent_session" where
  "abort_call rt now e s call =
     (let started = as_calls s (pc_tool_use_id call);
          text = interrupted_text e (map_option fst started);
          (text, view) = (case started of
              None \<Rightarrow> (text, None)
            | Some (command, _) \<Rightarrow>
                let others = length (chars text) + length ''\<newline>output:\<newline>'';
                    (text, v) = (case rt_look rt command (REPLAY_CHARS - others) of
                        Some (output, v) \<Rightarrow> (text @ ''\<newline>'' @ labelled_output output, v)
                      | None \<Rightarrow> (text, shell_view_named command ViewRunning))
                in (text, Some (ShellView
                     (if stops_commands e \<and> sv_status v = ViewRunning then v\<lparr>sv_status := ViewAborted\<rparr> else v))));
          s = s\<lparr>as_calls := (as_calls s)(pc_tool_use_id call := None)\<rparr>;
          s = (case (e, started) of (CallShutdown, Some (command, service)) \<Rightarrow> watch_command s command service | _ \<Rightarrow> s)
      in s\<lparr>as_core := (as_core s)\<lparr>co_log :=
             complete_tool_call (as_log s) now (pc_tool_use_id call) [RText text] True view\<rparr>\<rparr>)"

definition abort_executing_calls :: "runtime \<Rightarrow> timestamp \<Rightarrow> call_end \<Rightarrow> agent_session \<Rightarrow> agent_session" where
  "abort_executing_calls rt now e s = foldl (abort_call rt now e) s (pending_tool_calls (as_log s))"

section \<open>Stop and dispose\<close>

datatype abort_target =
    ActiveTurn | ActiveProviderStream | ActiveTool | ActiveCompaction | AbortedMessage | AbortedAction

datatype abort_step = AbortRunning abort_target | AbortRemoved abort_target | AbortNothing

definition stage_target :: "turn_stage \<Rightarrow> abort_target" where
  "stage_target stage =
     (case stage of Preparing \<Rightarrow> ActiveTurn | Streaming \<Rightarrow> ActiveProviderStream
      | ToolsStage \<Rightarrow> ActiveTool | CompactingStage \<Rightarrow> ActiveCompaction)"

definition turn_message :: "turn_id \<Rightarrow> block \<Rightarrow> bool" where
  "turn_message turn b = (user_turn_of b = Some turn)"

definition is_context :: "block \<Rightarrow> bool" where
  "is_context b = (case b of Context _ \<Rightarrow> True | _ \<Rightarrow> False)"

definition would_give_back :: "agent_session \<Rightarrow> bool" where
  "would_give_back s =
     (case running s of
        None \<Rightarrow> False
      | Some r \<Rightarrow>
          if \<not> ar_sends r \<or> ar_cancelled r \<noteq> None \<or> waiting_steers (as_inputs s) \<noteq> [] \<or> as_writing s \<noteq> [] then False
          else case ar_unwritten r of
            Some m \<Rightarrow> qm_schedule m = None
          | None \<Rightarrow>
              (case rposition (turn_message (ar_turn r)) (lg_blocks (as_log s)) of
                 None \<Rightarrow> False
               | Some at \<Rightarrow>
                   (case lg_blocks (as_log s) ! at of
                      User u \<Rightarrow> u_schedule u = None \<and> list_all is_context (drop (at + 1) (lg_blocks (as_log s)))
                    | _ \<Rightarrow> False)))"

definition give_back :: "agent_session \<Rightarrow> agent_session" where
  "give_back s =
     (case running s of
        None \<Rightarrow> s
      | Some r \<Rightarrow>
          (case ar_unwritten r of
             Some m \<Rightarrow> with_run s (\<lambda>r. r\<lparr>ar_unwritten := None, ar_given_back := Some m\<rparr>)
           | None \<Rightarrow>
               (case rposition (turn_message (ar_turn r)) (lg_blocks (as_log s)) of
                  None \<Rightarrow> s
                | Some at \<Rightarrow>
                    (case lg_blocks (as_log s) ! at of
                       User u \<Rightarrow>
                         with_run
                           (s\<lparr>as_core := (as_core s)\<lparr>co_log := withdraw_from (as_log s) (lg_start (as_log s) + at)\<rparr>\<rparr>)
                           (\<lambda>r. r\<lparr>ar_given_back := Some
                              \<lparr>qm_id = ar_turn r, qm_content = u_content u, qm_comments = u_comments u, qm_schedule = None\<rparr>\<rparr>)
                     | _ \<Rightarrow> s))))"

definition abort_one :: "agent_session \<Rightarrow> abort_step \<times> agent_session" where
  "abort_one s =
     (if as_disposing s then (AbortNothing, s)
      else
        let giving = would_give_back s;
            stoppable = (case running s of Some r \<Rightarrow> ar_cancelled r = None | None \<Rightarrow> False)
        in if stoppable then
             (AbortRunning (case running s of Some r \<Rightarrow> stage_target (ar_stage r) | None \<Rightarrow> ActiveTurn),
              with_run s (\<lambda>r. cancel_run CancelStop (r\<lparr>ar_giving_back := giving\<rparr>)))
           else case as_pending s of
             a # later \<Rightarrow>
               (AbortRemoved (if is_send a then AbortedMessage else AbortedAction),
                answer a EndDropped (s\<lparr>as_pending := later\<rparr>))
           | [] \<Rightarrow> (AbortNothing, s))"

definition stop_running :: "agent_session \<Rightarrow> string \<Rightarrow> bool \<times> agent_session" where
  "stop_running s reason =
     (if as_disposing s then (False, s)
      else case running s of
        Some r \<Rightarrow>
          if ar_cancelled r = None then (True, with_run s (cancel_run (CancelHold reason))) else (False, s)
      | None \<Rightarrow> (False, s))"

definition can_abort_again :: "agent_session \<Rightarrow> bool" where
  "can_abort_again s =
     (\<not> as_disposing s
      \<and> ((case running s of Some r \<Rightarrow> ar_cancelled r = None | None \<Rightarrow> False) \<or> as_pending s \<noteq> []))"

definition append_interruption :: "stamp \<Rightarrow> agent_session \<Rightarrow> agent_session" where
  "append_interruption st s =
     (if ends_with_interruption (as_log s) then s
      else s\<lparr>as_core := (as_core s)\<lparr>co_log :=
        push_error (as_log s) st (as_model s) INTERRUPTED_TURN_MESSAGE (Some INTERRUPTED_CODE) None False None\<rparr>\<rparr>)"

definition record_interruption :: "stamp \<Rightarrow> agent_session \<Rightarrow> agent_session" where
  "record_interruption st s = (let s' = append_interruption st s in s'\<lparr>as_core := commit (as_core s')\<rparr>)"

text \<open>
  The message a stopped turn had not written: written for the user's Stop, first in the queue
  again for a hold.
\<close>

definition stop_unwritten :: "stamp \<Rightarrow> cancel_reason \<Rightarrow> agent_session \<Rightarrow> agent_session" where
  "stop_unwritten st reason s =
     (case running s of
        None \<Rightarrow> s
      | Some r \<Rightarrow>
          (case ar_unwritten r of
             None \<Rightarrow> s
           | Some m \<Rightarrow>
               let s' = with_run s (\<lambda>r. r\<lparr>ar_unwritten := None\<rparr>)
               in case reason of
                    CancelStop \<Rightarrow> session_push_user s' st (ar_turn r) (qm_content m) (qm_comments m) None (qm_schedule m)
                  | CancelHold _ \<Rightarrow>
                      s'\<lparr>as_pending := \<lparr>pn_kind = SendAction (qm_content m) (qm_comments m) (qm_schedule m),
                           pn_turn = ar_turn r, pn_reply = False\<rparr> # as_pending s'\<rparr>
                  | CancelShutdown \<Rightarrow> s'))"

text \<open>\<open>f1\<close>, \<open>f2\<close> and \<open>f3\<close> are the identities of the blocks the stop may write, in order.\<close>

definition record_stop ::
  "runtime \<Rightarrow> timestamp \<Rightarrow> block_id \<Rightarrow> block_id \<Rightarrow> block_id \<Rightarrow> cancel_reason \<Rightarrow> agent_session \<Rightarrow> agent_session option" where
  "record_stop rt now f1 f2 f3 reason s =
     (let giving = (reason = CancelStop \<and> (case running s of Some r \<Rightarrow> ar_giving_back r | None \<Rightarrow> False));
          s = (if giving then give_back s else s);
          s = stop_unwritten (f1, now) reason s
      in case (if reason = CancelShutdown then Some (False, s) else write_inputs rt now f2 s AllButSteers) of
           None \<Rightarrow> None
         | Some (_, s) \<Rightarrow>
             let s = abort_executing_calls rt now
                       (case reason of CancelStop \<Rightarrow> CallStopped | CancelHold h \<Rightarrow> CallHeld h | CancelShutdown \<Rightarrow> CallShutdown) s;
                 s = (if reason = CancelShutdown then append_interruption (f3, now) s
                      else if giving \<or> \<not> action_began s then s
                      else s\<lparr>as_core := (as_core s)\<lparr>co_log := push_abort (as_log s) (f3, now) (as_model s)\<rparr>\<rparr>)
             in Some (s\<lparr>as_core := commit (as_core s)\<rparr>))"

definition reject_edit :: "agent_session \<Rightarrow> agent_session" where
  "reject_edit s = s\<lparr>as_editing := None\<rparr>"

definition shut_down ::
  "runtime \<Rightarrow> timestamp \<Rightarrow> block_id \<Rightarrow> block_id \<Rightarrow> block_id \<Rightarrow> action_kind \<Rightarrow> turn_id \<Rightarrow> agent_session
     \<Rightarrow> (bool \<times> agent_session) option" where
  "shut_down rt now f1 f2 f3 kind turn s =
     (let began = action_began s;
          s = reject_edit s
      in case (if began then map_option (Pair 0) (record_stop rt now f1 f2 f3 CancelShutdown s)
               else case kind of
                 SendAction _ _ _ \<Rightarrow>
                   Some (1, s\<lparr>as_pending := \<lparr>pn_kind = kind, pn_turn = turn, pn_reply = False\<rparr> # as_pending s\<rparr>)
               | _ \<Rightarrow> Some (0, s)) of
           None \<Rightarrow> None
         | Some (ahead, s) \<Rightarrow>
             Some (began, (stop_waiting (queue_steers ahead s))\<lparr>as_activity := ActClosed began\<rparr>))"

definition fail_action :: "runtime \<Rightarrow> timestamp \<Rightarrow> block_id \<Rightarrow> string \<Rightarrow> agent_session \<Rightarrow> agent_session option" where
  "fail_action rt now fresh message s =
     (case write_inputs rt now fresh s AllButSteers of
        None \<Rightarrow> None
      | Some (_, s) \<Rightarrow>
          let s = abort_executing_calls rt now (CallFailed message) s
          in Some (s\<lparr>as_core := commit (as_core s)\<rparr>))"

definition begin_dispose :: "agent_session \<Rightarrow> agent_session" where
  "begin_dispose s =
     (if as_disposing s then s
      else
        let s = fold (\<lambda>a. answer a EndDetached) (as_pending s) (s\<lparr>as_disposing := True\<rparr>);
            s = s\<lparr>as_pending := map (\<lambda>a. a\<lparr>pn_reply := False\<rparr>) (filter is_send (as_pending s))\<rparr>;
            s = with_run s (cancel_run CancelShutdown)
        in if as_activity s = ActIdle then s\<lparr>as_activity := ActClosed False\<rparr> else s)"

section \<open>The queue\<close>

definition is_queued :: "turn_id \<Rightarrow> pending_action \<Rightarrow> bool" where
  "is_queued i a = (is_send a \<and> pn_turn a = i)"

definition take_queued :: "agent_session \<Rightarrow> turn_id \<Rightarrow> (pending_action \<times> agent_session) option" where
  "take_queued s i =
     (case position (is_queued i) (as_pending s) of
        None \<Rightarrow> None
      | Some at \<Rightarrow> Some (as_pending s ! at, s\<lparr>as_pending := remove_nth at (as_pending s)\<rparr>))"

definition dequeue :: "agent_session \<Rightarrow> turn_id \<Rightarrow> bool \<times> agent_session" where
  "dequeue s i =
     (if as_disposing s then (False, s)
      else case take_queued s i of
        None \<Rightarrow> (False, s)
      | Some (a, s') \<Rightarrow> (True, answer a EndDropped s'))"

definition send_next :: "agent_session \<Rightarrow> turn_id \<Rightarrow> bool \<times> agent_session" where
  "send_next s i =
     (if as_disposing s then (False, s)
      else case take_queued s i of
        None \<Rightarrow> (False, s)
      | Some (a, s') \<Rightarrow>
          let front = (case position is_send (as_pending s') of Some at \<Rightarrow> at | None \<Rightarrow> length (as_pending s'))
          in (True, s'\<lparr>as_pending := take front (as_pending s') @ a # drop front (as_pending s')\<rparr>))"

text \<open>What the user sent now: a message outranks a steer.\<close>

definition outranks :: "send_now option \<Rightarrow> send_now \<Rightarrow> send_now" where
  "outranks held asked = (if held = Some NowMessage then NowMessage else asked)"

definition cut_round :: "agent_session \<Rightarrow> send_now \<Rightarrow> agent_session" where
  "cut_round s asked =
     (if preparing_edit s then s
      else with_run s (\<lambda>r. if ar_cancelled r = None then r\<lparr>ar_send_now := Some (outranks (ar_send_now r) asked)\<rparr> else r))"

definition send_queued_now :: "agent_session \<Rightarrow> turn_id \<Rightarrow> bool \<times> agent_session" where
  "send_queued_now s i =
     (case send_next s i of
        (False, s') \<Rightarrow> (False, s')
      | (True, s') \<Rightarrow> (True, cut_round s' NowMessage))"

definition clear_queue :: "agent_session \<Rightarrow> nat \<times> agent_session" where
  "clear_queue s =
     (if as_disposing s then (0, s)
      else
        let cleared = filter is_send (as_pending s)
        in (length cleared,
            fold (\<lambda>a. answer a EndDropped) cleared (s\<lparr>as_pending := filter (Not \<circ> is_send) (as_pending s)\<rparr>)))"

definition queued_message_of :: "pending_action \<Rightarrow> queued_message option" where
  "queued_message_of a =
     (case pn_kind a of
        SendAction content comments schedule \<Rightarrow>
          Some \<lparr>qm_id = pn_turn a, qm_content = content, qm_comments = comments, qm_schedule = schedule\<rparr>
      | _ \<Rightarrow> None)"

definition queued_messages :: "agent_session \<Rightarrow> queued_message list" where
  "queued_messages s = List.map_filter queued_message_of (as_pending s)"

section \<open>Steers, agent messages and reports\<close>

definition add_to_inputs :: "input \<Rightarrow> agent_session \<Rightarrow> agent_session" where
  "add_to_inputs i s = s\<lparr>as_inputs := add_input i (as_inputs s)\<rparr>"

text \<open>\<open>False\<close>: the session is closed.\<close>

definition session_steer ::
  "runtime \<Rightarrow> timestamp \<Rightarrow> string \<Rightarrow> agent_session \<Rightarrow> block_id \<Rightarrow> user_content list \<Rightarrow> message_comment list
     \<Rightarrow> bool \<times> agent_session" where
  "session_steer rt now fresh s i content comments =
     (if has_steer i (as_inputs s) \<or> holds_steer (as_log s) i \<or> knows_turn s i then (True, s)
      else if as_disposing s \<or> (case as_activity s of ActClosed _ \<Rightarrow> True | _ \<Rightarrow> False) then (False, s)
      else if as_activity s = ActIdle then
        (True, push_action rt now fresh s (SendAction content comments None) i False)
      else
        let turn = (case running s of Some r \<Rightarrow> if ar_cancelled r = None then ar_turn r else i | None \<Rightarrow> i);
            s' = s\<lparr>as_inputs := note_admitted i now (as_inputs s)\<rparr>
        in (True, add_to_inputs (InSteer
              \<lparr>ps_id = i, ps_turn_id = turn, ps_model = as_model s, ps_content = content, ps_comments = comments\<rparr>) s'))"

definition cancel_steer :: "agent_session \<Rightarrow> block_id \<Rightarrow> bool \<times> agent_session" where
  "cancel_steer s i =
     (case withdraw_steer i (as_inputs s) of (recalled, inputs) \<Rightarrow> (recalled, s\<lparr>as_inputs := inputs\<rparr>))"

definition send_now_pending :: "agent_session \<Rightarrow> bool" where
  "send_now_pending s = (case running s of Some r \<Rightarrow> ar_send_now r \<noteq> None | None \<Rightarrow> False)"

definition take_send_now :: "agent_session \<Rightarrow> send_now option \<times> agent_session" where
  "take_send_now s =
     (case running s of
        Some r \<Rightarrow> (ar_send_now r, with_run s (\<lambda>r. r\<lparr>ar_send_now := None\<rparr>))
      | None \<Rightarrow> (None, s))"

definition steer_now :: "timestamp \<Rightarrow> agent_session \<Rightarrow> block_id \<Rightarrow> bool \<times> agent_session" where
  "steer_now now s i =
     (if \<not> has_steer i (as_inputs s) then (False, s)
      else
        let s' = cut_round s NowSteer
        in (True, if send_now_pending s' \<and> as_waiting_since s' \<noteq> None
                  then start_waiting now (stop_waiting s') else s'))"

datatype message_error = WrongRecipient | DifferentContent | MessageConflict | MessageClosed | MessageEditing

text \<open>\<open>stored\<close> is the block of the message's id before the window, as the store holds it.\<close>

definition admit_agent_message ::
  "runtime \<Rightarrow> timestamp \<Rightarrow> string \<Rightarrow> agent_session \<Rightarrow> agent_message \<Rightarrow> block option \<Rightarrow> message_error option \<times> agent_session" where
  "admit_agent_message rt now fresh s m stored =
     (if am_recipient_id m \<noteq> as_id s then (Some WrongRecipient, s)
      else if as_disposing s then (Some MessageClosed, s)
      else if preparing_edit s then (Some MessageEditing, s)
      else
        let written = (case log_find (as_log s) (am_id m) of Some b \<Rightarrow> Some b | None \<Rightarrow> stored);
            existing = (case waiting_message (am_id m) (as_inputs s) of
                Some e \<Rightarrow> Some e
              | None \<Rightarrow> (case written of Some (AgentMessage b) \<Rightarrow> Some (m_message b) | _ \<Rightarrow> None))
        in case existing of
             Some e \<Rightarrow> if e \<noteq> m then (Some DifferentContent, s) else (None, wake rt now fresh s)
           | None \<Rightarrow>
               if contains_input (am_id m) (as_inputs s) \<or> written \<noteq> None then (Some MessageConflict, s)
               else
                 let turn = (case running s of Some r \<Rightarrow> ar_turn r | None \<Rightarrow> am_id m);
                     s' = add_to_inputs (InAgent \<lparr>pi_turn_id = turn, pi_model = as_model s, pi_message = m\<rparr>)
                            (s\<lparr>as_inputs := note_admitted (am_id m) now (as_inputs s)\<rparr>)
                 in (None, if is_from_product (am_event m) then wake_for_user now fresh s' else wake rt now fresh s'))"

definition admit_report ::
  "runtime \<Rightarrow> timestamp \<Rightarrow> string \<Rightarrow> agent_session \<Rightarrow> command_report \<Rightarrow> opens \<Rightarrow> agent_session" where
  "admit_report rt now fresh s r opens =
     (if as_disposing s \<or> end_seen rt r then s
      else wake rt now fresh (add_to_inputs (InReport r opens) s))"

section \<open>What clients see\<close>

definition phase_of :: "agent_session \<Rightarrow> session_phase" where
  "phase_of s =
     (case as_activity s of
        ActRunning r \<Rightarrow>
          if ar_idle_compaction r then PhaseCompactingIdle
          else if ar_stage r = CompactingStage then PhaseCompacting else PhaseRunning
      | ActFinishing idle \<Rightarrow> if idle then PhaseCompactingIdle else PhaseRunning
      | ActClosed interrupted \<Rightarrow> if interrupted then PhaseRunning else PhaseIdle
      | ActIdle \<Rightarrow> PhaseIdle)"

definition recorded_phase :: "agent_session \<Rightarrow> session_phase" where
  "recorded_phase s =
     (case as_activity s of
        ActFinishing _ \<Rightarrow> PhaseIdle
      | _ \<Rightarrow> if phase_of s = PhaseCompactingIdle then PhaseIdle else phase_of s)"

datatype settle = SettleBusy | SettleSettled | SettleClosed

definition settle_of :: "agent_session \<Rightarrow> settle" where
  "settle_of s =
     (case as_activity s of
        ActClosed _ \<Rightarrow> SettleClosed
      | ActIdle \<Rightarrow> if as_pending s = [] then SettleSettled else SettleBusy
      | _ \<Rightarrow> SettleBusy)"

datatype execution =
    ExecIdle | ExecStreaming | ExecTools | ExecCompacting | ExecFinalizing | ExecWaiting

definition execution_of :: "agent_session \<Rightarrow> execution" where
  "execution_of s =
     (case as_activity s of
        ActRunning r \<Rightarrow>
          (case ar_stage r of ToolsStage \<Rightarrow> ExecTools | CompactingStage \<Rightarrow> ExecCompacting | _ \<Rightarrow> ExecStreaming)
      | ActFinishing _ \<Rightarrow> ExecFinalizing
      | _ \<Rightarrow> if as_watched s \<noteq> [] then ExecWaiting else ExecIdle)"

record session_status =
  stt_settle :: settle
  stt_input :: bool
  stt_commands :: bool
  stt_awaited :: bool

definition session_status_of :: "agent_session \<Rightarrow> session_status" where
  "session_status_of s =
     \<lparr>stt_settle = settle_of s, stt_input = (has_agent_input (as_inputs s) \<or> has_report (as_inputs s)),
      stt_commands = (as_watched s \<noteq> []), stt_awaited = awaits s\<rparr>"

definition starting_message :: "agent_session \<Rightarrow> queued_message option" where
  "starting_message s = (case running s of Some r \<Rightarrow> ar_unwritten r | None \<Rightarrow> None)"

text \<open>What the state row of a checkpoint keeps of all this (the model and the account are left out).\<close>

record kept_state =
  ks_phase :: session_phase
  ks_queue :: "queued_message list"
  ks_agent_inputs :: "pending_agent_input list"
  ks_reports :: "command_report list"
  ks_next_turn_reports :: "command_report list"
  ks_watches :: "(command_id \<times> watch) list"
  ks_edits :: "edit_receipt list"

definition kept_state_of :: "agent_session \<Rightarrow> kept_state" where
  "kept_state_of s =
     \<lparr>ks_phase = recorded_phase s, ks_queue = queued_messages s, ks_agent_inputs = agent_inputs (as_inputs s),
      ks_reports = waiting_reports OpensTurn (as_inputs s),
      ks_next_turn_reports = waiting_reports OpensNothing (as_inputs s), ks_watches = as_watched s,
      ks_edits = as_edits s\<rparr>"

section \<open>Edits and switches\<close>

datatype edit_error = EditConflict | EditClosed | EditBusy | EditStale

datatype edit_check = EditAccepted edit_receipt | EditInFlight | EditProceeds

definition input_waits :: "agent_session \<Rightarrow> bool" where
  "input_waits s =
     (has_agent_input (as_inputs s) \<or> has_report (as_inputs s) \<or> waiting_steers (as_inputs s) \<noteq> [])"

definition running_message :: "agent_session \<Rightarrow> block_id option" where
  "running_message s =
     (case running s of
        None \<Rightarrow> None
      | Some r \<Rightarrow>
          if ar_cancelled r \<noteq> None \<or> input_waits s \<or> as_pending s \<noteq> [] \<or> preparing_edit s then None
          else case rfind is_editable (lg_blocks (as_log s)) of
            Some (User u) \<Rightarrow> if u_turn_id u = ar_turn r then Some (block_id u) else None
          | Some (Steer x) \<Rightarrow> if s_turn_id x = ar_turn r then Some (block_id x) else None
          | _ \<Rightarrow> None)"

definition is_last_message :: "agent_session \<Rightarrow> block_id \<Rightarrow> bool" where
  "is_last_message s target =
     (case rfind is_editable (lg_blocks (as_log s)) of Some b \<Rightarrow> id_of b = target | None \<Rightarrow> False)"

definition stop_for_edit :: "agent_session \<Rightarrow> block_id \<Rightarrow> bool \<times> agent_session" where
  "stop_for_edit s target =
     (if running_message s \<noteq> Some target then (False, s) else (True, with_run s (cancel_run CancelStop)))"

definition check_settled :: "agent_session \<Rightarrow> version \<Rightarrow> edit_error option" where
  "check_settled s v =
     (if as_disposing s then Some EditClosed
      else if settle_of s \<noteq> SettleSettled \<or> as_editing s \<noteq> None \<or> input_waits s then Some EditBusy
      else if v \<noteq> log_version (as_log s) then Some EditStale
      else None)"

definition check_edit ::
  "agent_session \<Rightarrow> string \<Rightarrow> string \<Rightarrow> version \<Rightarrow> block_id \<Rightarrow> edit_error + edit_check" where
  "check_edit s operation digest v target =
     (case find (\<lambda>r. rc_operation r = operation) (as_edits s) of
        Some r \<Rightarrow> if rc_digest r \<noteq> digest then Inl EditConflict else Inr (EditAccepted r)
      | None \<Rightarrow>
          let proceed = (if running_message s = Some target then Inr EditProceeds
                         else case check_settled s v of Some e \<Rightarrow> Inl e | None \<Rightarrow> Inr EditProceeds)
          in case as_editing s of
               Some e \<Rightarrow>
                 if ed_operation e = operation
                 then (if ed_digest e \<noteq> digest then Inl EditConflict else Inr EditInFlight)
                 else proceed
             | None \<Rightarrow> proceed)"

definition admit_switch ::
  "runtime \<Rightarrow> timestamp \<Rightarrow> string \<Rightarrow> agent_session \<Rightarrow> block_id \<Rightarrow> nat \<Rightarrow> version \<Rightarrow> turn_id
     \<Rightarrow> edit_error option \<times> agent_session" where
  "admit_switch rt now fresh s target to v turn =
     (case check_settled s v of
        Some e \<Rightarrow> (Some e, s)
      | None \<Rightarrow> (None, push_action rt now fresh s (SwitchAction target to) turn True))"

definition admit_edit ::
  "runtime \<Rightarrow> timestamp \<Rightarrow> string \<Rightarrow> agent_session \<Rightarrow> string \<Rightarrow> string \<Rightarrow> version \<Rightarrow> block_id \<Rightarrow> turn_id
     \<Rightarrow> (edit_error + edit_check) \<times> agent_session" where
  "admit_edit rt now fresh s operation digest v target turn =
     (case check_edit s operation digest v target of
        Inr EditProceeds \<Rightarrow>
          (Inr EditInFlight,
           push_action rt now fresh
             (s\<lparr>as_editing := Some \<lparr>ed_operation = operation, ed_digest = digest, ed_accepted = False\<rparr>\<rparr>)
             EditAction turn False)
      | found \<Rightarrow> (found, s))"

text \<open>
  An edit its save made durable; \<open>None\<close> is the panic of a rewrite of a history the window does not
  start. The replacement's runtime and model are the caller's.
\<close>

definition adopt_edit :: "agent_session \<Rightarrow> block list \<Rightarrow> model_selection \<Rightarrow> edit_receipt \<Rightarrow> agent_session option" where
  "adopt_edit s blocks model receipt =
     (case adopt_rewrite (as_core s) blocks True of
        None \<Rightarrow> None
      | Some c \<Rightarrow> Some (s\<lparr>as_core := c, as_edits := as_edits s @ [receipt], as_model := model,
          as_editing := map_option (ed_accepted_update (\<lambda>_. True)) (as_editing s)\<rparr>))"

end
