(* ===== verification/Session_Steps.thy ===== *)
theory Session_Steps imports Scheduler begin

text \<open>
  A session with its worker (\<open>crates/agent-session/src/worker.rs\<close>): what the worker does with the
  action it took, and every call that changes the session in between. The session and its worker run
  on one thread, so each step is one critical section: a call of the session's interface, or what
  the worker does without awaiting. The steps are a function, so that a run of them evaluates, and
  \<open>session_reaches\<close> are the states any order of them leads to.

  What a running action writes into the transcript beyond the steps named here, and what a save
  does to it, is \<open>OpTranscript\<close>: any next core, whose revision does not go back. While no action runs
  such a change leaves the record of the last turn's failure as it is, which only blocks change.
\<close>

record session_node =
  nd_session :: agent_session
  nd_action :: "started_action option"

text \<open>The calls of the session's interface.\<close>

datatype session_call =
    CallSend queued_message
  | CallAdmit action_kind turn_id
  | CallIdleCompaction turn_id
  | CallSwitch block_id nat version turn_id
  | CallEdit string string version block_id turn_id
  | CallStopForEdit block_id
  | CallSteer block_id "user_content list" "message_comment list"
  | CallCancelSteer block_id
  | CallSteerNow block_id
  | CallAgentMessage agent_message "block option"
  | CallReport command_report opens
  | CallDequeue turn_id
  | CallSendNext turn_id
  | CallSendNow turn_id
  | CallClear
  | CallAbort
  | CallStopRunning string
  | CallHold
  | CallRelease
  | CallWake
  | CallFailurePassed block_id
  | CallDispose

text \<open>What the running action does to its session, and how it ends.\<close>

datatype action_step =
    ActStage turn_stage
  | ActTakeOver turn_id
  | ActTakeSendNow
  | ActPushMessage "string option"
  | ActContinue
  | ActBoundary boundary_take
  | ActAdoptEdit "block list" model_selection turn_id

datatype conclusion = Completed | Stopped | Failed string | EditRejected | SwitchEnded | ShutDown

datatype session_op =
    OpCall session_call
  | OpTakeStarted
  | OpAct action_step
  | OpConclude conclusion
  | OpStartNext
  | OpTranscript core

definition with_session :: "session_node \<Rightarrow> agent_session \<Rightarrow> session_node" where
  "with_session nd s = nd\<lparr>nd_session := s\<rparr>"

text \<open>The action the worker runs, while the session runs one.\<close>

definition working :: "session_node \<Rightarrow> (started_action \<times> action_run) option" where
  "working nd =
     (case nd_action nd of
        None \<Rightarrow> None
      | Some st \<Rightarrow> map_option (Pair st) (running (nd_session nd)))"

definition starts_a_send :: "started_action \<Rightarrow> bool" where
  "starts_a_send st = (case st_kind st of SendAction _ _ _ \<Rightarrow> True | _ \<Rightarrow> False)"

definition is_switch :: "started_action \<Rightarrow> bool" where
  "is_switch st = (case st_kind st of SwitchAction _ _ \<Rightarrow> True | _ \<Rightarrow> False)"

definition reruns :: "started_action \<Rightarrow> bool" where
  "reruns st = (case st_kind st of RetryAction \<Rightarrow> True | ResumeAction _ \<Rightarrow> True | _ \<Rightarrow> False)"

definition is_edit_action :: "started_action \<Rightarrow> bool" where
  "is_edit_action st = (case st_kind st of EditAction \<Rightarrow> True | _ \<Rightarrow> False)"

text \<open>The worker's action ends: it is the worker's no more.\<close>

definition action_ends :: "session_node \<Rightarrow> agent_session \<Rightarrow> session_node" where
  "action_ends nd s = nd\<lparr>nd_session := end_action s, nd_action := None\<rparr>"

text \<open>The worker's first write of a message, once what it reads for the preamble arrived.\<close>

definition push_message ::
  "stamp \<Rightarrow> string option \<Rightarrow> started_action \<Rightarrow> action_run \<Rightarrow> agent_session \<Rightarrow> agent_session option" where
  "push_message st preamble started r s =
     (case st_kind started of
        SendAction content comments schedule \<Rightarrow>
          if ar_unwritten r = None \<or> ar_cancelled r \<noteq> None then None
          else Some (session_push_user s st (ar_turn r) content comments preamble schedule)
      | _ \<Rightarrow> None)"

definition written_all :: "action_run \<Rightarrow> bool" where
  "written_all r = (ar_unwritten r = None)"

text \<open>
  What the worker does after the body of its action: an action that completes was not stopped, and
  only a stop ends the body of a send before its message is written.
\<close>

definition conclude_action ::
  "runtime \<Rightarrow> timestamp \<Rightarrow> (nat \<Rightarrow> string) \<Rightarrow> conclusion \<Rightarrow> started_action \<Rightarrow> action_run \<Rightarrow> session_node
     \<Rightarrow> session_node option" where
  "conclude_action rt now ids ending st r nd =
     (let s = nd_session nd;
          switches = is_switch st;
          stopped = ar_cancelled r
      in case ending of
        SwitchEnded \<Rightarrow> if switches then Some (action_ends nd s) else None
      | ShutDown \<Rightarrow>
          if switches \<or> stopped \<noteq> Some CancelShutdown then None
          else map_option (\<lambda>(_, s'). nd\<lparr>nd_session := s', nd_action := None\<rparr>)
                 (shut_down rt now (ids 0) (ids 1) (ids 2) (st_kind st) (st_turn st) s)
      | EditRejected \<Rightarrow>
          if switches \<or> \<not> preparing_edit s then None
          else Some (action_ends nd (reject_edit s))
      | Completed \<Rightarrow>
          if switches \<or> stopped \<noteq> None \<or> preparing_edit s \<or> \<not> written_all r then None
          else Some (action_ends nd s)
      | Stopped \<Rightarrow>
          (case stopped of
             None \<Rightarrow> None
           | Some reason \<Rightarrow>
               if switches \<or> reason = CancelShutdown \<or> preparing_edit s then None
               else map_option (action_ends nd) (record_stop rt now (ids 0) (ids 1) (ids 2) reason s))
      | Failed message \<Rightarrow>
          if switches \<or> preparing_edit s \<or> \<not> written_all r then None
          else map_option (action_ends nd) (fail_action rt now (ids 0) message s))"

definition act ::
  "runtime \<Rightarrow> timestamp \<Rightarrow> (nat \<Rightarrow> string) \<Rightarrow> action_step \<Rightarrow> started_action \<Rightarrow> action_run \<Rightarrow> agent_session
     \<Rightarrow> agent_session option" where
  "act rt now ids a st r s =
     (case a of
        ActStage stage \<Rightarrow> Some (set_stage s stage)
      | ActTakeOver turn \<Rightarrow> if reruns st then Some (take_over_turn s turn) else None
      | ActTakeSendNow \<Rightarrow> Some (snd (take_send_now s))
      | ActPushMessage preamble \<Rightarrow> push_message (ids 0, now) preamble st r s
      | ActContinue \<Rightarrow> map_option snd (open_continuation rt now (ids 0) s)
      | ActBoundary t \<Rightarrow> map_option snd (write_inputs rt now (ids 0) s t)
      | ActAdoptEdit blocks model turn \<Rightarrow>
          (case as_editing s of
             Some e \<Rightarrow>
               if is_edit_action st \<and> \<not> ed_accepted e
               then adopt_edit s blocks model \<lparr>rc_operation = ed_operation e, rc_digest = ed_digest e, rc_turn = turn\<rparr>
               else None
           | None \<Rightarrow> None))"

text \<open>Only a retry, a resume or a compaction the user asked for is admitted as such.\<close>

definition admitted_kind :: "action_kind \<Rightarrow> bool" where
  "admitted_kind kind =
     (case kind of RetryAction \<Rightarrow> True | ResumeAction _ \<Rightarrow> True | CompactAction idle \<Rightarrow> \<not> idle | _ \<Rightarrow> False)"

text \<open>An edit of the running turn's message stops the turn before anything else (\<open>CallStopForEdit\<close>).\<close>

definition call_session ::
  "runtime \<Rightarrow> timestamp \<Rightarrow> (nat \<Rightarrow> string) \<Rightarrow> session_call \<Rightarrow> agent_session \<Rightarrow> agent_session" where
  "call_session rt now ids c s =
     (case c of
        CallSend m \<Rightarrow> snd (admit_send rt now (ids 0) s m)
      | CallAdmit kind turn \<Rightarrow> if admitted_kind kind then snd (admit rt now (ids 0) s kind turn) else s
      | CallIdleCompaction turn \<Rightarrow> snd (admit_idle_compaction rt now (ids 0) s turn)
      | CallSwitch target to v turn \<Rightarrow> snd (admit_switch rt now (ids 0) s target to v turn)
      | CallEdit operation digest v target turn \<Rightarrow>
          if running_message s = Some target then s
          else snd (admit_edit rt now (ids 0) s operation digest v target turn)
      | CallStopForEdit target \<Rightarrow> snd (stop_for_edit s target)
      | CallSteer i content comments \<Rightarrow> snd (session_steer rt now (ids 0) s i content comments)
      | CallCancelSteer i \<Rightarrow> snd (cancel_steer s i)
      | CallSteerNow i \<Rightarrow> snd (steer_now now s i)
      | CallAgentMessage m stored \<Rightarrow> snd (admit_agent_message rt now (ids 0) s m stored)
      | CallReport r opens \<Rightarrow> admit_report rt now (ids 0) s r opens
      | CallDequeue i \<Rightarrow> snd (dequeue s i)
      | CallSendNext i \<Rightarrow> snd (send_next s i)
      | CallSendNow i \<Rightarrow> snd (send_queued_now s i)
      | CallClear \<Rightarrow> snd (clear_queue s)
      | CallAbort \<Rightarrow> snd (abort_one s)
      | CallStopRunning reason \<Rightarrow> snd (stop_running s reason)
      | CallHold \<Rightarrow> hold_session s
      | CallRelease \<Rightarrow> release_hold rt now (ids 0) s
      | CallWake \<Rightarrow> wake rt now (ids 0) s
      | CallFailurePassed i \<Rightarrow> failure_passed rt now (ids 0) s i
      | CallDispose \<Rightarrow> begin_dispose s)"

definition run_session_op ::
  "runtime \<Rightarrow> timestamp \<Rightarrow> (nat \<Rightarrow> string) \<Rightarrow> session_op \<Rightarrow> session_node \<Rightarrow> session_node option" where
  "run_session_op rt now ids op nd =
     (let s = nd_session nd
      in case op of
        OpCall c \<Rightarrow> Some (with_session nd (call_session rt now ids c s))
      | OpTakeStarted \<Rightarrow>
          (case take_started s of
             (Some st, s') \<Rightarrow> if nd_action nd = None then Some \<lparr>nd_session = s', nd_action = Some st\<rparr> else None
           | (None, _) \<Rightarrow> None)
      | OpAct a \<Rightarrow>
          (case working nd of
             None \<Rightarrow> None
           | Some (st, r) \<Rightarrow> map_option (with_session nd) (act rt now ids a st r s))
      | OpConclude ending \<Rightarrow>
          (case working nd of None \<Rightarrow> None | Some (st, r) \<Rightarrow> conclude_action rt now ids ending st r nd)
      | OpStartNext \<Rightarrow>
          (case as_activity s of
             ActFinishing _ \<Rightarrow> Some (with_session nd (start_next rt now (ids 0) s))
           | _ \<Rightarrow> None)
      | OpTranscript c \<Rightarrow>
          if lg_revision (co_log c) < lg_revision (as_log s)
             \<or> (running s = None \<and> turn_failure (co_log c) \<noteq> turn_failure (as_log s)) then None
          else Some (with_session nd (s\<lparr>as_core := c\<rparr>)))"

text \<open>A new session, or a restored one that was woken: nothing runs, and nothing waits that it would run.\<close>

definition session_begins :: "runtime \<Rightarrow> agent_session \<Rightarrow> bool" where
  "session_begins rt s =
     (as_activity s = ActIdle \<and> as_pending s = [] \<and> waiting_steers (as_inputs s) = [] \<and> \<not> as_disposing s
      \<and> as_editing s = None \<and> \<not> wants_continuation rt s \<and> counted (as_inputs s))"

inductive session_reaches :: "bool \<Rightarrow> session_node \<Rightarrow> bool" for recovers where
  begins: "session_begins rt s \<Longrightarrow> rt_user_recovers rt = recovers \<Longrightarrow> session_reaches recovers \<lparr>nd_session = s, nd_action = None\<rparr>"
| steps: "session_reaches recovers nd \<Longrightarrow> rt_user_recovers rt = recovers \<Longrightarrow> run_session_op rt now ids op nd = Some nd'
    \<Longrightarrow> session_reaches recovers nd'"

end
