(* ===== verification/Session_Facts.thy ===== *)
theory Session_Facts imports Session_Steps Log_Facts begin

text \<open>
  What every step of a session keeps: the invariant of its scheduler, that the message an action
  starts with is written, waits or was taken back, and that a session being disposed starts nothing.
\<close>

section \<open>What the operations leave alone\<close>

lemma with_run_fields [simp]:
  "as_core (with_run s f) = as_core s" "as_pending (with_run s f) = as_pending s"
  "as_inputs (with_run s f) = as_inputs s" "as_disposing (with_run s f) = as_disposing s"
  "as_held (with_run s f) = as_held s" "as_passed_failure (with_run s f) = as_passed_failure s"
  "as_editing (with_run s f) = as_editing s" "as_answers (with_run s f) = as_answers s"
  "running (with_run s f) = map_option f (running s)"
  by (simp_all add: with_run_def running_def split: activity.split)

lemma with_run_activity:
  "as_activity (with_run s f) = (case as_activity s of ActRunning r \<Rightarrow> ActRunning (f r) | a \<Rightarrow> a)"
  by (simp add: with_run_def split: activity.split)

lemma running_Some [simp]: "running s = Some r \<longleftrightarrow> as_activity s = ActRunning r"
  by (simp add: running_def split: activity.split)

lemma start_waiting_fields [simp]:
  "as_core (start_waiting now s) = as_core s" "as_pending (start_waiting now s) = as_pending s"
  "as_inputs (start_waiting now s) = as_inputs s" "as_disposing (start_waiting now s) = as_disposing s"
  "as_activity (start_waiting now s) = as_activity s" "as_held (start_waiting now s) = as_held s"
  "as_editing (start_waiting now s) = as_editing s" "as_passed_failure (start_waiting now s) = as_passed_failure s"
  by (simp_all add: start_waiting_def split: option.split)

definition fresh_run :: "agent_session \<Rightarrow> action_kind \<Rightarrow> turn_id \<Rightarrow> bool \<Rightarrow> action_run" where
  "fresh_run s kind turn reply =
     \<lparr>ar_turn = turn, ar_cancelled = None, ar_given_back = None, ar_stage = Preparing,
      ar_idle_compaction = (kind = CompactAction True), ar_started_at = lg_revision (as_log s),
      ar_unwritten = queued_message_of \<lparr>pn_kind = kind, pn_turn = turn, pn_reply = reply\<rparr>,
      ar_sends = is_send \<lparr>pn_kind = kind, pn_turn = turn, pn_reply = reply\<rparr>,
      ar_giving_back = False, ar_send_now = None,
      ar_start = Some \<lparr>st_kind = kind, st_turn = turn, st_reply = reply\<rparr>\<rparr>"

lemma start_action_fields [simp]:
  "as_core (start_action now s kind turn reply) = as_core s"
  "as_pending (start_action now s kind turn reply) = as_pending s"
  "as_inputs (start_action now s kind turn reply) = as_inputs s"
  "as_disposing (start_action now s kind turn reply) = as_disposing s"
  "as_editing (start_action now s kind turn reply) = as_editing s"
  "as_activity (start_action now s kind turn reply) = ActRunning (fresh_run s kind turn reply)"
  by (cases kind; simp add: start_action_def fresh_run_def queued_message_of_def is_send_def)+

lemma take_admitted_entries [simp]:
  "iq_entries (snd (take_admitted i q)) = iq_entries q" "iq_arrivals (snd (take_admitted i q)) = iq_arrivals q"
  by (simp_all add: take_admitted_def)

lemma steers_by_entries: "iq_entries q' = iq_entries q \<Longrightarrow> waiting_steers q' = waiting_steers q"
  by (simp add: waiting_steers_def)

lemma steers_in: "st \<in> set (waiting_steers q) \<longleftrightarrow> InSteer st \<in> set (iq_entries q)"
  by (force simp: waiting_steers_def List.map_filter_def split: input.splits)

lemma answer_fields [simp]:
  "as_core (answer a e s) = as_core s" "as_pending (answer a e s) = as_pending s"
  "as_inputs (answer a e s) = as_inputs s" "as_disposing (answer a e s) = as_disposing s"
  "as_activity (answer a e s) = as_activity s" "as_held (answer a e s) = as_held s"
  "as_editing (answer a e s) = as_editing s" "as_passed_failure (answer a e s) = as_passed_failure s"
  by (simp_all add: answer_def)

lemma answers_fields [simp]:
  "as_core (fold (\<lambda>a. answer a e) as s) = as_core s" "as_pending (fold (\<lambda>a. answer a e) as s) = as_pending s"
  "as_inputs (fold (\<lambda>a. answer a e) as s) = as_inputs s" "as_disposing (fold (\<lambda>a. answer a e) as s) = as_disposing s"
  "as_activity (fold (\<lambda>a. answer a e) as s) = as_activity s" "as_held (fold (\<lambda>a. answer a e) as s) = as_held s"
  "as_editing (fold (\<lambda>a. answer a e) as s) = as_editing s"
  "as_passed_failure (fold (\<lambda>a. answer a e) as s) = as_passed_failure s"
  by (induction as arbitrary: s) simp_all

text \<open>The queue the steers went into.\<close>

lemma queue_steers_result:
  "ahead \<le> length (as_pending s) \<Longrightarrow>
     as_pending (queue_steers ahead s)
       = take ahead (as_pending s) @ map steer_action (waiting_steers (as_inputs s)) @ drop ahead (as_pending s)"
  "waiting_steers (as_inputs (queue_steers ahead s)) = []"
proof (induction ahead s rule: queue_steers.induct)
  case (1 ahead s)
  case 1
  show ?case
  proof (cases "as_inputs s" rule: take_first_steer_cases)
    case none
    then show ?thesis by (subst queue_steers.simps) simp
  next
    case (found st q')
    with "1.IH"(1) [OF found(1) [symmetric] refl] 1 show ?thesis
      by (subst queue_steers.simps) (simp add: min_def)
  qed
next
  case (1 ahead s)
  case 2
  show ?case
  proof (cases "as_inputs s" rule: take_first_steer_cases)
    case none
    then show ?thesis by (subst queue_steers.simps) simp
  next
    case (found st q')
    with "1.IH"(2) [OF found(1) [symmetric] refl] show ?thesis
      by (subst queue_steers.simps) simp
  qed
qed

lemma queue_steers_fields [simp]:
  "as_core (queue_steers ahead s) = as_core s" "as_disposing (queue_steers ahead s) = as_disposing s"
  "as_activity (queue_steers ahead s) = as_activity s" "as_held (queue_steers ahead s) = as_held s"
  "as_editing (queue_steers ahead s) = as_editing s" "as_answers (queue_steers ahead s) = as_answers s"
  "counted (as_inputs s) \<Longrightarrow> counted (as_inputs (queue_steers ahead s))"
proof -
  have "as_core (queue_steers ahead s) = as_core s \<and> as_disposing (queue_steers ahead s) = as_disposing s
    \<and> as_activity (queue_steers ahead s) = as_activity s \<and> as_held (queue_steers ahead s) = as_held s
    \<and> as_editing (queue_steers ahead s) = as_editing s \<and> as_answers (queue_steers ahead s) = as_answers s
    \<and> (counted (as_inputs s) \<longrightarrow> counted (as_inputs (queue_steers ahead s)))"
  proof (induction ahead s rule: queue_steers.induct)
    case (1 ahead s)
    show ?case
    proof (cases "as_inputs s" rule: take_first_steer_cases)
      case none
      then show ?thesis by (subst (1 2 3 4 5 6 7) queue_steers.simps) simp
    next
      case (found st q')
      have "counted (as_inputs s) \<Longrightarrow> counted q'" using counted_ops(8) [of "as_inputs s"] found by simp
      with "1.IH" [OF found(1) [symmetric] refl] found show ?thesis
        by (subst (1 2 3 4 5 6 7) queue_steers.simps) simp
    qed
  qed
  then show "as_core (queue_steers ahead s) = as_core s" "as_disposing (queue_steers ahead s) = as_disposing s"
  "as_activity (queue_steers ahead s) = as_activity s" "as_held (queue_steers ahead s) = as_held s"
  "as_editing (queue_steers ahead s) = as_editing s" "as_answers (queue_steers ahead s) = as_answers s"
  "counted (as_inputs s) \<Longrightarrow> counted (as_inputs (queue_steers ahead s))" by blast+
qed

section \<open>The transcript goes on holding what it holds\<close>

definition block_facts :: "block \<Rightarrow> block_id \<times> turn_id option" where
  "block_facts b = (id_of b, user_turn_of b)"

text \<open>The blocks of a log, and those a window let go of, hold each id and each message they held.\<close>

definition keeps :: "log \<Rightarrow> log \<Rightarrow> bool" where
  "keeps l l' =
     (lg_earlier l' = lg_earlier l \<and> lg_revision l \<le> lg_revision l'
      \<and> block_facts ` set (lg_blocks l) \<subseteq> block_facts ` set (lg_blocks l'))"

lemma keeps_refl [simp]: "keeps l l"
  by (simp add: keeps_def)

lemma keeps_trans [trans]: "keeps l m \<Longrightarrow> keeps m n \<Longrightarrow> keeps l n"
  by (auto simp: keeps_def)

definition holds_message :: "log \<Rightarrow> string \<Rightarrow> bool" where
  "holds_message l i = (has_user_turn l i \<or> holds_steer l i)"

lemma holds_message_alt:
  "holds_message l i \<longleftrightarrow>
     has_user_turn_before (lg_earlier l) i \<or> holds_steer_before (lg_earlier l) i
     \<or> (\<exists>(j, turn)\<in>block_facts ` set (lg_blocks l). j = i \<or> turn = Some i)"
  by (auto simp: holds_message_def has_user_turn_def holds_steer_def log_position_def block_facts_def list_ex_iff
      rposition_None)

lemma keeps_message: "keeps l l' \<Longrightarrow> holds_message l i \<Longrightarrow> holds_message l' i"
  unfolding holds_message_alt keeps_def by fastforce

lemma keeps_revision: "keeps l l' \<Longrightarrow> lg_revision l \<le> lg_revision l'"
  by (simp add: keeps_def)

lemma note_end_blocks:
  "lg_blocks (note_end l) = lg_blocks l" "lg_earlier (note_end l) = lg_earlier l"
  "lg_revision (note_end l) = lg_revision l" "lg_journal (note_end l) = lg_journal l"
  using note_end_same [of l] by (simp_all add: same_path_def)

lemma note_input_blocks:
  "lg_blocks (note_input l b) = lg_blocks l" "lg_earlier (note_input l b) = lg_earlier l"
  "lg_revision (note_input l b) = lg_revision l"
  using note_input_same [of l b] by (simp_all add: same_path_def)

lemma block_facts_set [simp]:
  "block_facts (set_run r b) = block_facts b" "block_facts (set_request q b) = block_facts b"
  by (cases b; simp add: block_facts_def)+

lemma append_received_keeps [simp]: "keeps l (append_received l b below)"
  by (auto simp: keeps_def append_received_def Let_def note_end_blocks note_input_blocks)

lemma append_received_holds: "block_facts b \<in> block_facts ` set (lg_blocks (append_received l b below))"
  by (auto simp: append_received_def Let_def note_end_blocks note_input_blocks)

lemma append_keeps [simp]: "keeps l (append_block l b)"
  by (simp add: append_block_def)

lemma pushes_keep [simp]:
  "keeps l (push_user l st turn model content comments preamble schedule)"
  "keeps l (push_steer l now i turn model content comments)"
  "keeps l (push_wakeup l now i turn model placement reports)"
  "keeps l (push_agent_message l now turn model message below)"
  "keeps l (push_abort l st model)"
  "keeps l (push_error l st model text code diagnostics outside account)"
  by (simp_all add: push_defs)

lemma push_user_holds: "holds_message (push_user l st turn model content comments preamble schedule) turn"
  using append_received_holds [of "User
       \<lparr>block_id = fst st, created_at = snd st, request = None, block_model = model,
        u_turn_id = turn, u_content = content, u_comments = comments, u_preamble = preamble,
        u_schedule = schedule, u_entries = []\<rparr>" l True]
  by (force simp: holds_message_alt push_user_def append_block_def block_facts_def)

lemma push_steer_holds: "holds_message (push_steer l now i turn model content comments) i"
  using append_received_holds [of "Steer
       \<lparr>block_id = i, created_at = now, request = None, block_model = model, s_turn_id = turn,
        s_content = content, s_comments = comments, s_entries = []\<rparr>" l True]
  by (force simp: holds_message_alt push_steer_def append_block_def block_facts_def)

lemma put_block_keeps:
  assumes "at < length (lg_blocks l)" "block_facts b = block_facts (lg_blocks l ! at)"
  shows "keeps l (put_block l at b)"
proof -
  have "map block_facts ((lg_blocks l)[at := b]) = map block_facts (lg_blocks l)"
    using assms list_update_id [of "map block_facts (lg_blocks l)" at] by (simp add: map_update)
  then have "block_facts ` set ((lg_blocks l)[at := b]) = block_facts ` set (lg_blocks l)" by (metis set_map)
  then show ?thesis by (simp add: keeps_def put_block_def record_replace_def)
qed

lemma complete_tool_call_keeps [simp]: "keeps l (complete_tool_call l now use out err view)"
proof (cases "executing_call l use")
  case None
  then show ?thesis by (simp add: complete_tool_call_def)
next
  case (Some i)
  then have "i - lg_start l < length (lg_blocks l)"
    using found_at [of l _ i] by (auto simp: executing_call_def)
  moreover have "keeps l (record_replace l i)" by (simp add: keeps_def record_replace_def)
  ultimately show ?thesis
    using Some by (auto simp: complete_tool_call_def block_facts_def intro: put_block_keeps split: block.split)
qed

lemma take_patches_keeps: "take_patches l = (batch, l') \<Longrightarrow> keeps l l'"
  using take_patches_fields [of l batch l'] by (simp add: keeps_def)

lemma commit_log: "co_log (commit c) = snd (take_patches (co_log c))"
  by (simp add: commit_def split: prod.split option.split)

lemma commit_keeps [simp]: "keeps (co_log c) (co_log (commit c))"
  using take_patches_keeps [of "co_log c"] by (simp add: commit_log prod_eq_iff)

lemma written_fields [simp]:
  "as_pending (written s l) = as_pending s" "as_inputs (written s l) = as_inputs s"
  "as_disposing (written s l) = as_disposing s" "as_activity (written s l) = as_activity s"
  "as_held (written s l) = as_held s" "as_editing (written s l) = as_editing s"
  "as_passed_failure (written s l) = as_passed_failure s" "running (written s l) = running s"
  by (simp_all add: written_def running_def)

lemma written_keeps: "keeps l (as_log (written s l))"
  using commit_keeps [of "(as_core s)\<lparr>co_log := l\<rparr>"] by (simp add: written_def)

text \<open>A change of the transcript that adds a block gets a revision of its own.\<close>

lemma append_patches: "log_patches (append_block l b) \<noteq> []"
  by (auto simp: append_block_def append_received_def Let_def note_end_blocks journal_add_def
      split: if_splits)

lemma written_revision:
  "log_patches l \<noteq> [] \<Longrightarrow> lg_revision (as_log (written s l)) = lg_revision l + 1"
  using take_patches_fields(9) [of l] by (simp add: written_def commit_log prod_eq_iff)

section \<open>The invariant\<close>

text \<open>\<open>wants_continuation\<close> reads nothing of the runtime but whether the user recovers the node's turns.\<close>

definition wants_turn :: "bool \<Rightarrow> agent_session \<Rightarrow> bool" where
  "wants_turn recovers s =
     (\<not> as_held s
      \<and> \<not> (recovers \<and> (case turn_failure (as_log s) of
              Some e \<Rightarrow> as_passed_failure s \<noteq> Some (block_id e) | None \<Rightarrow> False))
      \<and> (has_report (as_inputs s) \<or> has_agent_input (as_inputs s)))"

lemma wants_turn_continuation: "wants_continuation rt s = wants_turn (rt_user_recovers rt) s"
  by (simp add: wants_continuation_def wants_turn_def failed_turn_holds_def)

text \<open>
  An idle session holds nothing it would run, a closed one no steer, and a session being disposed
  has stopped what it ran and keeps messages alone.
\<close>

definition scheduled :: "agent_session \<Rightarrow> bool" where
  "scheduled s =
     (counted (as_inputs s)
      \<and> (as_disposing s \<longrightarrow> list_all is_send (as_pending s))
      \<and> (case as_activity s of
           ActIdle \<Rightarrow> as_pending s = [] \<and> waiting_steers (as_inputs s) = [] \<and> \<not> as_disposing s
         | ActRunning r \<Rightarrow>
             (as_disposing s \<longrightarrow> ar_cancelled r \<noteq> None)
             \<and> (ar_cancelled r = Some CancelShutdown \<longrightarrow> as_disposing s)
         | ActFinishing _ \<Rightarrow> True
         | ActClosed _ \<Rightarrow> as_disposing s \<and> waiting_steers (as_inputs s) = []))"

definition scheduler_ok :: "bool \<Rightarrow> agent_session \<Rightarrow> bool" where
  "scheduler_ok recovers s = (scheduled s \<and> (as_activity s = ActIdle \<longrightarrow> \<not> wants_turn recovers s))"

text \<open>
  The action the worker took, or takes next, is the one that runs: it holds the message it writes
  first, and once that message is written the transcript has changed since it started. An edit is in
  flight only while its own action runs.
\<close>

definition run_ok :: "nat \<Rightarrow> started_action \<Rightarrow> action_run \<Rightarrow> bool" where
  "run_ok revision st r =
     (ar_started_at r \<le> revision
      \<and> (case ar_unwritten r of
           Some m \<Rightarrow> st_turn st = ar_turn r
             \<and> queued_message_of \<lparr>pn_kind = st_kind st, pn_turn = ar_turn r, pn_reply = False\<rparr> = Some m
         | None \<Rightarrow> starts_a_send st \<longrightarrow> ar_started_at r < revision))"

definition acts_ok :: "agent_session \<Rightarrow> started_action \<Rightarrow> action_run \<Rightarrow> bool" where
  "acts_ok s st r = (run_ok (lg_revision (as_log s)) st r \<and> (as_editing s \<noteq> None \<longrightarrow> is_edit_action st))"

definition worker_ok :: "session_node \<Rightarrow> bool" where
  "worker_ok nd =
     (case as_activity (nd_session nd) of
        ActRunning r \<Rightarrow>
          (case (ar_start r, nd_action nd) of
             (Some st, None) \<Rightarrow> acts_ok (nd_session nd) st r
           | (None, Some st) \<Rightarrow> acts_ok (nd_session nd) st r
           | _ \<Rightarrow> False)
      | _ \<Rightarrow> nd_action nd = None \<and> as_editing (nd_session nd) = None)"

section \<open>The messages that wait\<close>

text \<open>
  The user's messages no turn has written: those in the queue, the steers, and the one the running
  action starts with.
\<close>

definition unwritten_message :: "agent_session \<Rightarrow> turn_id option" where
  "unwritten_message s = (case as_activity s of ActRunning r \<Rightarrow> map_option qm_id (ar_unwritten r) | _ \<Rightarrow> None)"

definition waiting_messages :: "agent_session \<Rightarrow> turn_id set" where
  "waiting_messages s =
     pn_turn ` set (filter is_send (as_pending s)) \<union> ps_id ` set (waiting_steers (as_inputs s))
     \<union> set_option (unwritten_message s)"

lemma waiting_messages_cong:
  "as_pending s' = as_pending s \<Longrightarrow> as_inputs s' = as_inputs s \<Longrightarrow> as_activity s' = as_activity s \<Longrightarrow>
     waiting_messages s' = waiting_messages s"
  by (simp add: waiting_messages_def unwritten_message_def)

lemma unwritten_fresh:
  "unwritten_message (start_action now s kind turn reply)
     = (if is_send \<lparr>pn_kind = kind, pn_turn = turn, pn_reply = reply\<rparr> then Some turn else None)"
  by (simp add: unwritten_message_def fresh_run_def queued_message_of_def is_send_def split: action_kind.split)

lemma is_send_kind: "is_send \<lparr>pn_kind = kind, pn_turn = turn, pn_reply = reply\<rparr> = (case kind of SendAction _ _ _ \<Rightarrow> True | _ \<Rightarrow> False)"
  by (simp add: is_send_def)

lemma is_send_same: "is_send \<lparr>pn_kind = pn_kind a, pn_turn = i, pn_reply = r\<rparr> = is_send a"
  by (simp add: is_send_def)

lemma steer_action_fields [simp]: "is_send (steer_action st)" "pn_turn (steer_action st) = ps_id st"
  by (simp_all add: steer_action_def is_send_def)

section \<open>Starting what is next\<close>

lemma fresh_run_ok: "run_ok (lg_revision (as_log s)) \<lparr>st_kind = kind, st_turn = turn, st_reply = reply\<rparr> (fresh_run s kind turn reply)"
  by (auto simp: run_ok_def fresh_run_def queued_message_of_def starts_a_send_def split: action_kind.split)

text \<open>What a session becomes that starts its next action, whatever it held.\<close>

lemma start_next_cases:
  obtains (closes) "as_disposing s" "start_next rt now fresh s = (queue_steers 0 s)\<lparr>as_activity := ActClosed False\<rparr>"
    | (steer) st q where "\<not> as_disposing s" "take_first_steer (as_inputs s) = (Some st, q)"
        "start_next rt now fresh s =
           start_action now (s\<lparr>as_inputs := snd (take_admitted (ps_id st) q)\<rparr>)
             (SendAction (ps_content st) (ps_comments st) None) (ps_id st) False"
    | (action) a later where "\<not> as_disposing s" "as_pending s = a # later"
        "start_next rt now fresh s = start_action now (s\<lparr>as_pending := later\<rparr>) (pn_kind a) (pn_turn a) (pn_reply a)"
    | (continuation) "\<not> as_disposing s" "as_pending s = []" "waiting_steers (as_inputs s) = []" "wants_continuation rt s"
        "start_next rt now fresh s = start_action now s ContinueAction fresh False"
    | (idle) "\<not> as_disposing s" "as_pending s = []" "waiting_steers (as_inputs s) = []" "\<not> wants_continuation rt s"
        "start_next rt now fresh s = write_into_failed_turn rt now fresh (s\<lparr>as_activity := ActIdle\<rparr>)"
proof (cases "as_disposing s")
  case True
  then show thesis by (intro closes) (simp_all add: start_next_def)
next
  case live: False
  show thesis
  proof (cases "(case as_pending s of a # _ \<Rightarrow> is_send a | [] \<Rightarrow> False)")
    case True
    then obtain a later where "as_pending s = a # later" "is_send a" by (auto split: list.splits)
    with live show thesis by (intro action) (simp_all add: start_next_def)
  next
    case front: False
    show thesis
    proof (cases "as_inputs s" rule: take_first_steer_cases)
      case (found st q)
      with live front show thesis by (intro steer) (simp_all add: start_next_def)
    next
      case none
      show thesis
      proof (cases "as_pending s")
        case (Cons a later)
        with live front none show thesis by (intro action) (simp_all add: start_next_def)
      next
        case Nil
        with live none show thesis
          by (cases "wants_continuation rt s"; intro continuation idle) (simp_all add: start_next_def)
      qed
    qed
  qed
qed

lemma drop_seen_ends_fields [simp]:
  "as_core (drop_seen_ends rt s) = as_core s" "as_pending (drop_seen_ends rt s) = as_pending s"
  "as_disposing (drop_seen_ends rt s) = as_disposing s" "as_activity (drop_seen_ends rt s) = as_activity s"
  "as_held (drop_seen_ends rt s) = as_held s" "as_editing (drop_seen_ends rt s) = as_editing s"
  "as_passed_failure (drop_seen_ends rt s) = as_passed_failure s" "as_model (drop_seen_ends rt s) = as_model s"
  by (simp_all add: drop_seen_ends_def)

lemma retain_reports_steers: "waiting_steers (snd (retain_reports keep q)) = waiting_steers q"
  unfolding waiting_steers_def retain_reports_facts List.map_filter_def filter_filter
  by (rule arg_cong [of _ _ "map _"], rule filter_cong) (auto split: input.splits)

lemma drop_seen_ends_inputs:
  "waiting_steers (as_inputs (drop_seen_ends rt s)) = waiting_steers (as_inputs s)"
  "counted (as_inputs s) \<Longrightarrow> counted (as_inputs (drop_seen_ends rt s))"
  "has_agent_input (as_inputs (drop_seen_ends rt s)) \<Longrightarrow> has_agent_input (as_inputs s)"
  "has_report (as_inputs (drop_seen_ends rt s)) \<Longrightarrow> has_report (as_inputs s)"
  by (auto simp: drop_seen_ends_def retain_reports_steers counted_retain has_agent_input_def has_report_def
      retain_reports_facts list_ex_iff)

section \<open>Writing what waits\<close>

lemma write_each_keeps: "keeps l (write_each rt now fresh turn model reports l is)"
proof (induction "is" arbitrary: l reports)
  case (Cons i "is")
  then show ?case
    by (cases i) (auto intro: keeps_trans [OF pushes_keep(2)] keeps_trans [OF pushes_keep(3)] keeps_trans [OF pushes_keep(4)])
qed simp

lemma write_each_holds:
  "InSteer st \<in> set is \<Longrightarrow> holds_message (write_each rt now fresh turn model reports l is) (ps_id st)"
proof (induction "is" arbitrary: l reports)
  case (Cons i "is")
  show ?case
  proof (cases "InSteer st \<in> set is")
    case True
    with Cons.IH show ?thesis by (cases i) auto
  next
    case False
    with Cons.prems have "i = InSteer st" by simp
    then show ?thesis using keeps_message [OF write_each_keeps push_steer_holds] by simp
  qed
qed simp

text \<open>\<open>s'\<close> is \<open>s\<close> but for its transcript, which went on, and its waiting input, of which some was taken.\<close>

definition wrote :: "agent_session \<Rightarrow> agent_session \<Rightarrow> bool" where
  "wrote s s' =
     (as_pending s' = as_pending s \<and> as_disposing s' = as_disposing s \<and> as_activity s' = as_activity s
      \<and> as_held s' = as_held s \<and> as_editing s' = as_editing s \<and> as_passed_failure s' = as_passed_failure s
      \<and> keeps (as_log s) (as_log s')
      \<and> (counted (as_inputs s) \<longrightarrow> counted (as_inputs s'))
      \<and> set (iq_entries (as_inputs s')) \<subseteq> set (iq_entries (as_inputs s))
      \<and> (\<forall>st. InSteer st \<in> set (iq_entries (as_inputs s)) \<longrightarrow> InSteer st \<in> set (iq_entries (as_inputs s'))
           \<or> holds_message (as_log s') (ps_id st)))"

lemma wrote_refl [simp]: "wrote s s"
  by (simp add: wrote_def)

lemma wrote_trans [trans]: "wrote s s' \<Longrightarrow> wrote s' s'' \<Longrightarrow> wrote s s''"
  unfolding wrote_def by (auto intro: keeps_trans keeps_message)

lemma dropped_wrote [simp]: "wrote s (drop_seen_ends rt s)"
  by (auto simp: wrote_def drop_seen_ends_inputs drop_seen_ends_def retain_reports_facts counted_retain split: input.splits)

lemma write_inputs_into_alt:
  "snd (write_inputs_into rt now fresh s turn t) =
     (let s1 = drop_seen_ends rt s; taken = filter (takes t) (iq_entries (as_inputs s1));
          s2 = s1\<lparr>as_inputs := (as_inputs s1)\<lparr>iq_entries := filter (Not \<circ> takes t) (iq_entries (as_inputs s1))\<rparr>\<rparr>
      in if taken = [] then s2
         else written s2 (write_each rt now fresh turn (as_model s1) (reports_in taken) (as_log s1) taken))"
  by (simp add: write_inputs_into_def take_inputs_def Let_def)

lemma write_inputs_into_rest:
  "iq_entries (as_inputs (snd (write_inputs_into rt now fresh s turn t)))
     = filter (Not \<circ> takes t) (iq_entries (as_inputs (drop_seen_ends rt s)))"
  by (simp add: write_inputs_into_alt Let_def)

lemma counted_filter: "counted q \<Longrightarrow> counted (q\<lparr>iq_entries := filter P (iq_entries q)\<rparr>)"
  by (auto simp: counted_def intro: le_trans [OF length_filter_le])

lemma write_inputs_into_wrote: "wrote s (snd (write_inputs_into rt now fresh s turn t))"
proof -
  let ?s1 = "drop_seen_ends rt s"
  have "wrote ?s1 (snd (write_inputs_into rt now fresh s turn t))"
    unfolding wrote_def write_inputs_into_rest
  proof (intro conjI)
    let ?taken = "filter (takes t) (iq_entries (as_inputs ?s1))"
    show "\<forall>st. InSteer st \<in> set (iq_entries (as_inputs ?s1)) \<longrightarrow>
        InSteer st \<in> set (filter (Not \<circ> takes t) (iq_entries (as_inputs ?s1)))
        \<or> holds_message (as_log (snd (write_inputs_into rt now fresh s turn t))) (ps_id st)"
    proof (intro allI impI)
      fix st assume st: "InSteer st \<in> set (iq_entries (as_inputs ?s1))"
      show "InSteer st \<in> set (filter (Not \<circ> takes t) (iq_entries (as_inputs ?s1)))
        \<or> holds_message (as_log (snd (write_inputs_into rt now fresh s turn t))) (ps_id st)"
      proof (cases "takes t (InSteer st)")
        case True
        with st have "InSteer st \<in> set ?taken" by simp
        from write_each_holds [OF this] True st show ?thesis
          by (auto simp: write_inputs_into_alt Let_def filter_empty_conv intro: keeps_message [OF written_keeps])
      qed (use st in simp)
    qed
    show "keeps (as_log ?s1) (as_log (snd (write_inputs_into rt now fresh s turn t)))"
      by (auto simp: write_inputs_into_alt Let_def intro: keeps_trans [OF write_each_keeps written_keeps])
  qed (auto simp: write_inputs_into_alt Let_def counted_filter)
  with dropped_wrote show ?thesis by (rule wrote_trans)
qed

lemma write_inputs_wrote: "write_inputs rt now fresh s t = Some (b, s') \<Longrightarrow> wrote s s'"
  using write_inputs_into_wrote by (auto simp: write_inputs_def split: option.splits) (metis snd_conv)

lemma commit_wrote [simp]: "wrote s (s\<lparr>as_core := commit (as_core s)\<rparr>)"
  by (simp add: wrote_def)

lemma wrote_log:
  "keeps (as_log s) (co_log c) \<Longrightarrow> wrote s (s\<lparr>as_core := c\<rparr>)"
  by (simp add: wrote_def)

lemma abort_call_wrote: "wrote s (abort_call rt now e s call)"
  by (simp add: wrote_def abort_call_def watch_command_def Let_def split: option.split call_end.split)

lemma abort_calls_wrote: "wrote s (foldl (abort_call rt now e) s calls)"
  by (induction calls arbitrary: s) (auto intro: wrote_trans [OF abort_call_wrote])

lemma abort_executing_calls_wrote [simp]: "wrote s (abort_executing_calls rt now e s)"
  by (simp add: abort_executing_calls_def abort_calls_wrote)

lemma append_interruption_wrote [simp]: "wrote s (append_interruption st s)"
  by (simp add: append_interruption_def wrote_log)

lemma take_reports_facts:
  "iq_entries (snd (take_reports q)) = filter (Not \<circ> is_report_input) (iq_entries q)"
  "iq_arrivals (snd (take_reports q)) = iq_arrivals q"
  by (simp_all add: take_reports_def)

lemma taken_reports_wrote: "wrote s (s\<lparr>as_inputs := snd (take_reports (as_inputs s))\<rparr>)"
  using counted_ops(7) [of "as_inputs s"] by (auto simp: wrote_def take_reports_facts)

lemma written_wrote: "keeps (as_log s) l \<Longrightarrow> wrote s (written s l)"
  using keeps_trans [OF _ written_keeps] by (auto simp: wrote_def)

lemma open_continuation_wrote: "open_continuation rt now fresh s = Some (b, s') \<Longrightarrow> wrote s s'"
proof -
  assume opens: "open_continuation rt now fresh s = Some (b, s')"
  let ?s1 = "drop_seen_ends rt s"
  let ?s2 = "?s1\<lparr>as_inputs := snd (take_reports (as_inputs ?s1))\<rparr>"
  have taken: "wrote s ?s2" by (rule wrote_trans [OF dropped_wrote taken_reports_wrote])
  have "wrote ?s2 s'"
    using opens write_inputs_wrote [of rt now fresh ?s2 Everything]
    by (auto simp: open_continuation_def Let_def written_wrote split: option.splits prod.splits if_splits)
  with taken show ?thesis by (rule wrote_trans)
qed

text \<open>What holds of a session goes on holding when it only wrote.\<close>

lemma waiting_messages_iff:
  "i \<in> waiting_messages s \<longleftrightarrow>
     (\<exists>a\<in>set (as_pending s). is_send a \<and> pn_turn a = i)
     \<or> (\<exists>st. InSteer st \<in> set (iq_entries (as_inputs s)) \<and> ps_id st = i) \<or> unwritten_message s = Some i"
  by (auto simp: waiting_messages_def image_iff simp flip: steers_in)

lemma wrote_unwritten: "wrote s s' \<Longrightarrow> unwritten_message s' = unwritten_message s"
  by (simp add: wrote_def unwritten_message_def)

lemma wroteD:
  assumes "wrote s s'"
  shows "as_pending s' = as_pending s" "as_disposing s' = as_disposing s" "as_activity s' = as_activity s"
    "as_held s' = as_held s" "as_editing s' = as_editing s" "keeps (as_log s) (as_log s')"
    "counted (as_inputs s) \<Longrightarrow> counted (as_inputs s')"
    "set (iq_entries (as_inputs s')) \<subseteq> set (iq_entries (as_inputs s))"
    "InSteer st \<in> set (iq_entries (as_inputs s)) \<Longrightarrow>
       InSteer st \<in> set (iq_entries (as_inputs s')) \<or> holds_message (as_log s') (ps_id st)"
  using assms by (simp_all add: wrote_def)

lemma wrote_waiting:
  assumes "wrote s s'" "i \<in> waiting_messages s"
  shows "i \<in> waiting_messages s' \<or> holds_message (as_log s') i"
  using assms(2) wroteD(9) [OF assms(1)]
  unfolding waiting_messages_iff wrote_unwritten [OF assms(1)] wroteD(1) [OF assms(1)] by blast

lemma wrote_waits_less:
  assumes "wrote s s'"
  shows "waiting_messages s' \<subseteq> waiting_messages s"
  using wroteD(8) [OF assms]
  unfolding subset_iff waiting_messages_iff wrote_unwritten [OF assms] wroteD(1) [OF assms] by blast

lemma no_steers_iff: "waiting_steers q = [] \<longleftrightarrow> (\<forall>st. InSteer st \<notin> set (iq_entries q))"
  by (metis list.set_intros(1) neq_Nil_conv steers_in empty_iff list.set(1))

lemma wrote_no_steers: "wrote s s' \<Longrightarrow> waiting_steers (as_inputs s) = [] \<Longrightarrow> waiting_steers (as_inputs s') = []"
  unfolding no_steers_iff using wroteD(8) by blast

end
