(* ===== verification/Session_Invariant.thy ===== *)
theory Session_Invariant imports Session_Facts begin

text \<open>
  Every call of a session's interface and every step of its worker keeps the scheduler's invariant,
  so it holds of each state a session reaches.
\<close>

section \<open>Starting what is next\<close>

lemma scheduledI:
  "counted (as_inputs s) \<Longrightarrow> (as_disposing s \<Longrightarrow> list_all is_send (as_pending s)) \<Longrightarrow>
     as_activity s = ActRunning r \<Longrightarrow> (as_disposing s \<Longrightarrow> ar_cancelled r \<noteq> None) \<Longrightarrow>
     (ar_cancelled r = Some CancelShutdown \<Longrightarrow> as_disposing s) \<Longrightarrow> scheduled s"
  by (simp add: scheduled_def)

lemma list_all_steers: "list_all is_send (map steer_action sts)"
  by (simp add: list_all_iff)

lemma wants_turn_activity [simp]: "wants_turn recovers (s\<lparr>as_activity := a\<rparr>) = wants_turn recovers s"
  by (cases "turn_failure (as_log s)") (simp_all add: wants_turn_def)

lemma wants_turn_run [simp]: "wants_turn recovers (with_run s f) = wants_turn recovers s"
  by (cases "turn_failure (as_log s)") (simp_all add: wants_turn_def)

lemma fresh_run_start [simp]:
  "ar_start (fresh_run s kind turn reply) = Some \<lparr>st_kind = kind, st_turn = turn, st_reply = reply\<rparr>"
  "ar_cancelled (fresh_run s kind turn reply) = None"
  by (simp_all add: fresh_run_def)

lemma start_next_ok:
  assumes counted: "counted (as_inputs s)" and sends: "as_disposing s \<Longrightarrow> list_all is_send (as_pending s)"
  shows "scheduler_ok (rt_user_recovers rt) (start_next rt now fresh s)"
proof (cases rt now fresh s rule: start_next_cases [case_names closes steer action continuation idle])
  case closes
  then show ?thesis
    using sends counted by (simp add: scheduler_ok_def scheduled_def queue_steers_result list_all_steers)
next
  case (steer st q)
  then have "counted q" using counted_ops(8) [OF counted] by simp
  with steer show ?thesis by (simp add: scheduler_ok_def scheduled_def counted_def)
next
  case idle
  let ?s = "s\<lparr>as_activity := ActIdle\<rparr>"
  have still: "\<not> wants_turn (rt_user_recovers rt) ?s" using idle by (simp add: wants_turn_continuation)
  show ?thesis
  proof (cases "\<exists>turn. write_into_failed_turn rt now fresh ?s = snd (write_inputs_into rt now fresh ?s turn Everything)")
    case True
    then obtain turn where turn: "write_into_failed_turn rt now fresh ?s = snd (write_inputs_into rt now fresh ?s turn Everything)" ..
    let ?s' = "snd (write_inputs_into rt now fresh ?s turn Everything)"
    note kept = wroteD [OF write_inputs_into_wrote [of ?s rt now fresh turn Everything]]
    have "iq_entries (as_inputs ?s') = []" by (simp add: write_inputs_into_rest)
    then have "\<not> wants_turn r ?s'" "waiting_steers (as_inputs ?s') = []" for r
      by (simp_all add: wants_turn_def has_report_def has_agent_input_def waiting_steers_def map_filter_simps)
    with idle turn kept(1,2,3,7) counted show ?thesis by (simp add: scheduler_ok_def scheduled_def)
  next
    case False
    then have "write_into_failed_turn rt now fresh ?s = ?s"
      by (auto simp: write_into_failed_turn_def split: option.splits)
    with idle still counted show ?thesis by (simp add: scheduler_ok_def scheduled_def)
  qed
qed (use counted in \<open>simp_all add: scheduler_ok_def scheduled_def\<close>)

lemma start_next_waits:
  assumes "unwritten_message s = None"
  shows "waiting_messages (start_next rt now fresh s) = waiting_messages s"
proof (cases rt now fresh s rule: start_next_cases [case_names closes steer action continuation idle])
  case closes
  then show ?thesis
    using assms by (simp add: waiting_messages_def unwritten_message_def queue_steers_result image_Un image_image Un_ac filter_True)
next
  case (steer st q)
  have "waiting_steers (as_inputs s) = st # waiting_steers q"
    using steer(2) by (cases "as_inputs s" rule: take_first_steer_cases) auto
  then show ?thesis
    using steer(3) assms
    by (simp add: waiting_messages_def unwritten_fresh is_send_def steers_by_entries [OF take_admitted_entries(1)])
next
  case (action a later)
  then show ?thesis using assms by (auto simp: waiting_messages_def unwritten_fresh is_send_same)
next
  case continuation
  then show ?thesis using assms by (simp add: waiting_messages_def unwritten_fresh is_send_def)
next
  case idle
  let ?s = "s\<lparr>as_activity := ActIdle\<rparr>"
  have "wrote ?s (write_into_failed_turn rt now fresh ?s)"
    using write_inputs_into_wrote by (auto simp: write_into_failed_turn_def split: option.split)
  moreover have "waiting_messages ?s = {}" using idle by (simp add: waiting_messages_def unwritten_message_def)
  moreover have "waiting_messages s = {}" using idle assms by (simp add: waiting_messages_def)
  ultimately show ?thesis using wrote_waits_less idle(5) by fastforce
qed

text \<open>The worker's side of a change: the run goes on as it was, or a new one starts.\<close>

definition run_goes_on :: "action_run \<Rightarrow> action_run \<Rightarrow> bool" where
  "run_goes_on r r' =
     (ar_turn r' = ar_turn r \<and> ar_started_at r' = ar_started_at r \<and> ar_unwritten r' = ar_unwritten r
      \<and> ar_start r' = ar_start r \<and> (ar_cancelled r \<noteq> None \<longrightarrow> ar_cancelled r' \<noteq> None))"

definition moves :: "agent_session \<Rightarrow> agent_session \<Rightarrow> bool" where
  "moves s s' =
     (case as_activity s of
        ActRunning r \<Rightarrow>
          (case as_activity s' of ActRunning r' \<Rightarrow>
               run_goes_on r r' \<and> lg_revision (as_log s) \<le> lg_revision (as_log s') \<and> as_editing s' = as_editing s
           | _ \<Rightarrow> False)
      | _ \<Rightarrow>
          (case as_activity s' of
             ActRunning r' \<Rightarrow> (\<exists>s0 kind turn reply. r' = fresh_run s0 kind turn reply \<and> as_log s0 = as_log s'
               \<and> (as_editing s' = as_editing s \<or> kind = EditAction))
           | _ \<Rightarrow> as_editing s' = as_editing s))"

lemma moves_started:
  "\<forall>r. as_activity s \<noteq> ActRunning r \<Longrightarrow> as_editing s1 = as_editing s \<or> kind = EditAction \<Longrightarrow> moves s (start_action now s1 kind turn reply)"
  unfolding moves_def start_action_fields by (cases "as_activity s") (auto intro!: exI [of _ s1])

lemma moves_start: "\<forall>r. as_activity s \<noteq> ActRunning r \<Longrightarrow> moves s (start_next rt now fresh s)"
proof (cases rt now fresh s rule: start_next_cases [case_names closes steer action continuation idle])
  case idle
  have "wrote (s\<lparr>as_activity := ActIdle\<rparr>) (write_into_failed_turn rt now fresh (s\<lparr>as_activity := ActIdle\<rparr>))"
    using write_inputs_into_wrote by (auto simp: write_into_failed_turn_def split: option.split)
  from wroteD(3,5) [OF this] idle(5) show "\<forall>r. as_activity s \<noteq> ActRunning r \<Longrightarrow> ?thesis"
    by (simp add: moves_def split: activity.split)
next
  case closes
  then show "\<forall>r. as_activity s \<noteq> ActRunning r \<Longrightarrow> ?thesis" by (simp add: moves_def split: activity.split)
qed (simp_all add: moves_started)

lemma fresh_acts_ok:
  "as_log s0 = as_log s' \<Longrightarrow> as_editing s' = None \<or> kind = EditAction \<Longrightarrow>
     acts_ok s' \<lparr>st_kind = kind, st_turn = turn, st_reply = reply\<rparr> (fresh_run s0 kind turn reply)"
  using fresh_run_ok [of s0 kind turn reply] by (auto simp: acts_ok_def is_edit_action_def)

lemma moves_worker: "worker_ok nd \<Longrightarrow> moves (nd_session nd) s' \<Longrightarrow> worker_ok (with_session nd s')"
proof (cases "as_activity (nd_session nd)")
  case (ActRunning r)
  assume ok: "worker_ok nd" "moves (nd_session nd) s'"
  then obtain r' where r': "as_activity s' = ActRunning r'" "run_goes_on r r'"
      "lg_revision (as_log (nd_session nd)) \<le> lg_revision (as_log s')" "as_editing s' = as_editing (nd_session nd)"
    using ActRunning by (auto simp: moves_def split: activity.splits)
  have "acts_ok (nd_session nd) st r \<Longrightarrow> acts_ok s' st r'" for st
    using r'(2,3,4) by (auto simp: acts_ok_def run_ok_def run_goes_on_def split: option.splits)
  with ok(1) ActRunning r' show ?thesis
    by (auto simp: worker_ok_def with_session_def run_goes_on_def split: option.splits)
qed (auto simp: worker_ok_def with_session_def moves_def fresh_acts_ok split: activity.splits)

section \<open>Calls of the interface\<close>

text \<open>The messages a call takes back, which the user asks for by name, or all of the queue, or what is next in it.\<close>

definition stoppable :: "agent_session \<Rightarrow> bool" where
  "stoppable s = (case as_activity s of ActRunning r \<Rightarrow> ar_cancelled r = None | _ \<Rightarrow> False)"

fun withdrawn_by :: "session_call \<Rightarrow> agent_session \<Rightarrow> turn_id set" where
  "withdrawn_by (CallDequeue i) s = {i}"
| "withdrawn_by (CallCancelSteer i) s = {i}"
| "withdrawn_by CallClear s = pn_turn ` set (filter is_send (as_pending s))"
| "withdrawn_by CallAbort s = (if stoppable s then {} else pn_turn ` set (take 1 (as_pending s)))"
| "withdrawn_by _ s = {}"

text \<open>A session being disposed admits nothing and starts nothing.\<close>

definition stays_closed :: "agent_session \<Rightarrow> agent_session \<Rightarrow> bool" where
  "stays_closed s s' =
     (as_disposing s'
      \<and> (\<forall>r'. as_activity s' = ActRunning r' \<longrightarrow> (\<exists>r. as_activity s = ActRunning r))
      \<and> waiting_messages s' \<subseteq> waiting_messages s
      \<and> set (iq_entries (as_inputs s')) \<subseteq> set (iq_entries (as_inputs s)))"

definition answers_well :: "bool \<Rightarrow> turn_id set \<Rightarrow> agent_session \<Rightarrow> agent_session \<Rightarrow> bool" where
  "answers_well recovers gone s s' =
     (scheduler_ok recovers s' \<and> moves s s' \<and> waiting_messages s \<subseteq> waiting_messages s' \<union> gone
      \<and> (as_disposing s \<longrightarrow> stays_closed s s'))"

lemma stays_closed_refl [simp]: "as_disposing s \<Longrightarrow> stays_closed s s"
  by (simp add: stays_closed_def)

lemma moves_same: "as_activity s' = as_activity s \<Longrightarrow> as_core s' = as_core s \<Longrightarrow> as_editing s' = as_editing s \<Longrightarrow> moves s s'"
  by (simp add: moves_def run_goes_on_def split: activity.split)

lemma moves_via: "as_activity s1 = as_activity s \<Longrightarrow> as_core s1 = as_core s \<Longrightarrow> as_editing s1 = as_editing s \<Longrightarrow> moves s1 s' \<Longrightarrow> moves s s'"
  by (cases "as_activity s"; cases "as_activity s'"; simp add: moves_def)

lemma moves_with_run: "(\<And>r. run_goes_on r (f r)) \<Longrightarrow> moves s (with_run s f)"
  by (simp add: moves_def with_run_activity split: activity.split)

lemma answers_well_refl [simp]: "scheduler_ok recovers s \<Longrightarrow> answers_well recovers gone s s"
  by (auto simp: answers_well_def moves_same)

lemma scheduled_cong:
  "as_pending s' = as_pending s \<Longrightarrow> as_inputs s' = as_inputs s \<Longrightarrow> as_activity s' = as_activity s \<Longrightarrow>
     as_disposing s' = as_disposing s \<Longrightarrow> scheduled s' = scheduled s"
  by (cases "as_activity s") (simp_all add: scheduled_def)

text \<open>A change of what the scheduler does not read.\<close>

lemma answers_well_same:
  assumes "scheduler_ok recovers s" "as_pending s' = as_pending s" "as_inputs s' = as_inputs s"
    "as_activity s' = as_activity s" "as_core s' = as_core s" "as_disposing s' = as_disposing s"
    "as_held s' = as_held s \<or> as_held s'" "as_passed_failure s' = as_passed_failure s" "as_editing s' = as_editing s"
  shows "answers_well recovers gone s s'"
proof -
  have "wants_turn recovers s' \<Longrightarrow> wants_turn recovers s" using assms by (auto simp: wants_turn_def split: option.splits)
  then show ?thesis
    using assms waiting_messages_cong [of s' s] moves_same [of s' s] scheduled_cong [of s' s]
    by (auto simp: answers_well_def scheduler_ok_def stays_closed_def)
qed

text \<open>A change of the running action alone.\<close>

lemma answers_well_run:
  assumes "scheduler_ok recovers s" "\<And>r. run_goes_on r (f r)"
    "\<And>r. ar_cancelled (f r) = Some CancelShutdown \<Longrightarrow> ar_cancelled r = Some CancelShutdown"
  shows "answers_well recovers gone s (with_run s f)"
proof -
  have "ar_unwritten (f r) = ar_unwritten r" "ar_cancelled r \<noteq> None \<Longrightarrow> ar_cancelled (f r) \<noteq> None" for r
    using assms(2) by (simp_all add: run_goes_on_def)
  then have "unwritten_message (with_run s f) = unwritten_message s" "scheduler_ok recovers (with_run s f)"
    using assms(1,3)
    by (auto simp: unwritten_message_def with_run_activity scheduler_ok_def scheduled_def split: activity.splits)
  then show ?thesis
    using moves_with_run assms(2)
    by (auto simp: answers_well_def stays_closed_def waiting_messages_def with_run_activity split: activity.splits)
qed

lemma unwritten_idle: "as_activity s = ActIdle \<Longrightarrow> unwritten_message s = None"
  by (simp add: unwritten_message_def)

lemma push_action_waits:
  "waiting_messages (push_action rt now fresh s kind turn reply)
     = waiting_messages s \<union> (if is_send \<lparr>pn_kind = kind, pn_turn = turn, pn_reply = reply\<rparr> then {turn} else {})"
proof -
  let ?s = "s\<lparr>as_pending := as_pending s @ [\<lparr>pn_kind = kind, pn_turn = turn, pn_reply = reply\<rparr>]\<rparr>"
  have "waiting_messages (push_action rt now fresh s kind turn reply) = waiting_messages ?s"
  proof (cases "as_activity s")
    case ActIdle
    then show ?thesis using start_next_waits [of ?s] by (simp add: push_action_def unwritten_idle)
  qed (simp_all add: push_action_def)
  then show ?thesis by (auto simp: waiting_messages_def unwritten_message_def)
qed

lemma push_action_well:
  assumes "scheduled s1" "\<not> as_disposing s" "as_disposing s1 = as_disposing s" "as_pending s1 = as_pending s"
    "as_inputs s1 = as_inputs s" "as_activity s1 = as_activity s" "as_core s1 = as_core s" "as_editing s1 = as_editing s"
    "rt_user_recovers rt = recovers"
  shows "answers_well recovers gone s (push_action rt now fresh s1 kind turn reply)"
proof -
  let ?s = "s1\<lparr>as_pending := as_pending s1 @ [\<lparr>pn_kind = kind, pn_turn = turn, pn_reply = reply\<rparr>]\<rparr>"
  have "waiting_messages s1 = waiting_messages s" using assms by (intro waiting_messages_cong) simp_all
  moreover have "moves s (push_action rt now fresh s1 kind turn reply)"
  proof (cases "as_activity s1")
    case ActIdle
    then show ?thesis
      using moves_via [of ?s s] moves_start [of ?s] assms by (simp add: push_action_def)
  qed (use assms in \<open>simp_all add: push_action_def moves_same\<close>)
  moreover have "scheduler_ok recovers (push_action rt now fresh s1 kind turn reply)"
  proof (cases "as_activity s1")
    case ActIdle
    then show ?thesis
      using start_next_ok [of ?s rt] assms by (simp add: push_action_def scheduled_def)
  qed (use assms in \<open>simp_all add: push_action_def scheduler_ok_def scheduled_def\<close>)
  ultimately show ?thesis using assms(2) by (auto simp: answers_well_def push_action_waits)
qed

lemma push_well:
  "scheduler_ok recovers s \<Longrightarrow> \<not> as_disposing s \<Longrightarrow> rt_user_recovers rt = recovers \<Longrightarrow>
     answers_well recovers gone s (push_action rt now fresh s kind turn reply)"
  by (rule push_action_well) (simp_all add: scheduler_ok_def)

lemma wake_waits: "waiting_messages (wake rt now fresh s) = waiting_messages s"
  by (simp add: wake_def start_next_waits unwritten_idle)

lemma wake_ok: "scheduled s \<Longrightarrow> scheduler_ok (rt_user_recovers rt) (wake rt now fresh s)"
  using start_next_ok [of s rt] by (auto simp: wake_def scheduled_def scheduler_ok_def)

lemma wake_moves: "moves s (wake rt now fresh s)"
  by (simp add: wake_def moves_start moves_same)

lemma wake_for_user_waits: "waiting_messages (wake_for_user now fresh s) = waiting_messages s"
  by (simp add: wake_for_user_def waiting_messages_def unwritten_fresh is_send_def unwritten_idle)

lemma wake_for_user_ok: "scheduled s \<Longrightarrow> scheduler_ok recovers (wake_for_user now fresh s)"
  by (auto simp: wake_for_user_def scheduled_def scheduler_ok_def)

lemma wake_for_user_moves: "moves s (wake_for_user now fresh s)"
  by (simp add: wake_for_user_def moves_started moves_same)

text \<open>A session that takes input, or whose hold ends, and is woken.\<close>

lemma woken_well:
  assumes "scheduled s1" "as_activity s1 = as_activity s" "as_core s1 = as_core s" "as_editing s1 = as_editing s"
    "waiting_messages s \<subseteq> waiting_messages s1" "\<not> as_disposing s" "rt_user_recovers rt = recovers"
  shows "answers_well recovers gone s (wake rt now fresh s1)"
    "answers_well recovers gone s (wake_for_user now fresh s1)"
  using assms wake_ok [OF assms(1), of rt] wake_for_user_ok [OF assms(1)] moves_via [OF assms(2,3,4)]
  by (auto simp: answers_well_def wake_waits wake_for_user_waits wake_moves wake_for_user_moves)

lemma woken_closed:
  "scheduled s \<Longrightarrow> as_disposing s \<Longrightarrow> wake rt now fresh s = s"
  by (auto simp: wake_def scheduled_def)

lemma answers_well_pending:
  assumes "scheduler_ok recovers s" "\<not> as_disposing s" "set (as_pending s') \<subseteq> set (as_pending s)"
    "as_inputs s' = as_inputs s" "as_activity s' = as_activity s" "as_core s' = as_core s"
    "as_disposing s' = as_disposing s" "as_held s' = as_held s" "as_passed_failure s' = as_passed_failure s"
    "as_editing s' = as_editing s"
    "\<And>a. a \<in> set (as_pending s) \<Longrightarrow> is_send a \<Longrightarrow> a \<in> set (as_pending s') \<or> pn_turn a \<in> gone"
  shows "answers_well recovers gone s s'"
proof -
  have "wants_turn recovers s' = wants_turn recovers s"
    using assms by (cases "turn_failure (as_log s)") (simp_all add: wants_turn_def)
  moreover have "scheduled s'"
    using assms by (cases "as_activity s") (auto simp: scheduler_ok_def scheduled_def)
  moreover have "waiting_messages s \<subseteq> waiting_messages s' \<union> gone"
    using assms(4,5,11) by (auto simp: waiting_messages_def unwritten_message_def)
  ultimately show ?thesis using assms moves_same [of s' s] by (simp add: answers_well_def scheduler_ok_def)
qed

text \<open>An input comes or goes while the session keeps the rest.\<close>

lemma answers_well_inputs:
  assumes "scheduler_ok recovers s" "as_pending s' = as_pending s" "as_activity s' = as_activity s"
    "as_core s' = as_core s" "as_disposing s' = as_disposing s" "as_held s' = as_held s"
    "as_passed_failure s' = as_passed_failure s" "as_editing s' = as_editing s" "counted (as_inputs s')"
    "set (iq_entries (as_inputs s')) \<subseteq> set (iq_entries (as_inputs s)) \<or> \<not> as_disposing s \<and> as_activity s \<noteq> ActIdle"
    "\<And>st. InSteer st \<in> set (iq_entries (as_inputs s)) \<Longrightarrow> InSteer st \<in> set (iq_entries (as_inputs s')) \<or> ps_id st \<in> gone"
  shows "answers_well recovers gone s s'"
proof -
  have fewer: "wants_turn recovers s' \<Longrightarrow> wants_turn recovers s"
    if "set (iq_entries (as_inputs s')) \<subseteq> set (iq_entries (as_inputs s))"
    using that assms by (cases "turn_failure (as_log s)")
      (auto simp: wants_turn_def has_report_def has_agent_input_def list_ex_iff)
  have steers: "waiting_steers (as_inputs s) = [] \<Longrightarrow> waiting_steers (as_inputs s') = []"
    if "set (iq_entries (as_inputs s')) \<subseteq> set (iq_entries (as_inputs s))"
    using that by (auto simp: no_steers_iff)
  have "scheduler_ok recovers s'"
    using assms fewer steers by (cases "as_activity s") (auto simp: scheduler_ok_def scheduled_def)
  moreover have "unwritten_message s' = unwritten_message s" using assms by (simp add: unwritten_message_def)
  ultimately show ?thesis
    using assms moves_same [of s' s]
    by (auto simp: answers_well_def stays_closed_def waiting_messages_iff subset_iff)
qed

section \<open>Each call\<close>

lemma refused: "refuse_admission s = None \<Longrightarrow> \<not> as_disposing s"
  by (simp add: refuse_admission_def split: if_splits)

lemma session_scheduled: "scheduler_ok recovers s \<Longrightarrow> scheduled s"
  by (simp add: scheduler_ok_def)

lemma admit_send_well:
  "scheduler_ok recovers s \<Longrightarrow> rt_user_recovers rt = recovers \<Longrightarrow>
     answers_well recovers {} s (snd (admit_send rt now fresh s m))"
  by (auto simp: admit_send_def push_well answers_well_same dest: refused split: option.split)

lemma admit_well:
  "scheduler_ok recovers s \<Longrightarrow> rt_user_recovers rt = recovers \<Longrightarrow>
     answers_well recovers {} s (snd (admit rt now fresh s kind turn))"
  by (auto simp: admit_def push_well dest: refused split: option.split)

lemma admit_idle_compaction_well:
  "scheduler_ok recovers s \<Longrightarrow> rt_user_recovers rt = recovers \<Longrightarrow>
     answers_well recovers {} s (snd (admit_idle_compaction rt now fresh s turn))"
  by (auto simp: admit_idle_compaction_def push_well dest: refused)

lemma check_settled_live: "check_settled s v = None \<Longrightarrow> \<not> as_disposing s"
  by (simp add: check_settled_def split: if_splits)

lemma running_message_live: "scheduled s \<Longrightarrow> running_message s = Some i \<Longrightarrow> \<not> as_disposing s"
  by (auto simp: running_message_def scheduled_def split: option.splits if_splits)

lemma check_edit_live: "scheduled s \<Longrightarrow> check_edit s operation digest v target = Inr EditProceeds \<Longrightarrow> \<not> as_disposing s"
  by (auto simp: check_edit_def Let_def split: option.splits if_splits dest: check_settled_live running_message_live)

lemma admit_switch_well:
  "scheduler_ok recovers s \<Longrightarrow> rt_user_recovers rt = recovers \<Longrightarrow>
     answers_well recovers {} s (snd (admit_switch rt now fresh s target to v turn))"
  by (auto simp: admit_switch_def push_well dest: check_settled_live split: option.split)

text \<open>An edit is admitted while nothing runs or waits, so it starts at once.\<close>

lemma admit_edit_well:
  assumes "scheduler_ok recovers s" "rt_user_recovers rt = recovers" "running_message s \<noteq> Some target"
  shows "answers_well recovers {} s (snd (admit_edit rt now fresh s operation digest v target turn))"
proof (cases "check_edit s operation digest v target = Inr EditProceeds")
  case True
  then have settled: "check_settled s v = None"
    using assms(3) by (auto simp: check_edit_def Let_def split: option.splits if_splits)
  then have idle: "as_activity s = ActIdle" "as_pending s = []" "waiting_steers (as_inputs s) = []" "\<not> as_disposing s"
    by (auto simp: check_settled_def settle_of_def input_waits_def split: if_splits activity.splits)
  let ?s = "s\<lparr>as_editing := Some \<lparr>ed_operation = operation, ed_digest = digest, ed_accepted = False\<rparr>\<rparr>"
  have "take_first_steer (as_inputs s) = (None, as_inputs s)"
    using idle(3) by (cases "as_inputs s" rule: take_first_steer_cases) simp_all
  then have starts: "start_next rt now fresh (?s\<lparr>as_pending := [\<lparr>pn_kind = EditAction, pn_turn = turn, pn_reply = reply\<rparr>]\<rparr>)
      = start_action now (?s\<lparr>as_pending := []\<rparr>) EditAction turn reply" for reply
    using idle by (simp add: start_next_def is_send_def)
  have "moves s (start_action now (?s\<lparr>as_pending := []\<rparr>) EditAction turn reply)" for reply
    using idle(1) by (intro moves_started) simp_all
  moreover have "waiting_messages s = {}" using idle by (simp add: waiting_messages_def unwritten_idle)
  moreover have "scheduler_ok recovers (start_action now (?s\<lparr>as_pending := []\<rparr>) EditAction turn reply)" for reply
    using session_scheduled [OF assms(1)] idle(4) by (simp add: scheduler_ok_def scheduled_def)
  ultimately show ?thesis
    using True idle starts by (simp add: admit_edit_def push_action_def answers_well_def)
next
  case False
  then show ?thesis using assms by (auto simp: admit_edit_def split: sum.split edit_check.split)
qed

lemma run_goes_on_cancel: "run_goes_on r (cancel_run reason r)"
  by (simp add: run_goes_on_def cancel_run_def split: option.split)

lemma cancel_run_shutdown:
  "reason \<noteq> CancelShutdown \<Longrightarrow> ar_cancelled (cancel_run reason r) = Some CancelShutdown \<Longrightarrow> ar_cancelled r = Some CancelShutdown"
  by (simp add: cancel_run_def split: option.splits)

lemma stop_for_edit_well: "scheduler_ok recovers s \<Longrightarrow> answers_well recovers {} s (snd (stop_for_edit s target))"
  by (auto simp: stop_for_edit_def run_goes_on_cancel intro!: answers_well_run dest: cancel_run_shutdown [rotated])

lemma session_steer_well:
  assumes "scheduler_ok recovers s" "rt_user_recovers rt = recovers"
  shows "answers_well recovers {} s (snd (session_steer rt now fresh s i content comments))"
proof -
  have "counted (as_inputs s)" using session_scheduled [OF assms(1)] by (simp add: scheduled_def)
  then have "counted (add_input x (note_admitted i now (as_inputs s)))" for x by (simp add: counted_ops)
  then have "answers_well recovers {} s (add_to_inputs x (s\<lparr>as_inputs := note_admitted i now (as_inputs s)\<rparr>))"
    if "\<not> as_disposing s" "as_activity s \<noteq> ActIdle" for x
    using that assms(1) by (intro answers_well_inputs) (simp_all add: add_to_inputs_def add_input_def note_admitted_def)
  moreover have "as_activity s = ActIdle \<Longrightarrow> \<not> as_disposing s"
    using session_scheduled [OF assms(1)] by (simp add: scheduled_def)
  ultimately show ?thesis using assms by (simp add: session_steer_def Let_def push_well)
qed

lemma cancel_steer_well:
  assumes "scheduler_ok recovers s"
  shows "answers_well recovers {i} s (snd (cancel_steer s i))"
proof (cases i "as_inputs s" rule: withdraw_steer_cases)
  case none
  then show ?thesis using assms by (simp add: cancel_steer_def)
next
  case (found st q)
  have "counted (as_inputs s)" using session_scheduled [OF assms] by (simp add: scheduled_def)
  then have "counted q" using counted_ops(5) [of "as_inputs s" i] found(1) by simp
  moreover have "set (iq_entries (as_inputs s)) = insert (InSteer st) (set (iq_entries q))"
    using found(3) by (metis set_mset_add_mset_insert set_mset_mset)
  ultimately have "answers_well recovers {i} s (s\<lparr>as_inputs := q\<rparr>)"
    using assms found(2) by (intro answers_well_inputs) auto
  with found(1) show ?thesis by (simp add: cancel_steer_def)
qed

lemma cut_round_well: "scheduler_ok recovers s \<Longrightarrow> answers_well recovers {} s (cut_round s asked)"
  by (auto simp: cut_round_def run_goes_on_def intro!: answers_well_run split: if_splits)

lemma steer_now_well: "scheduler_ok recovers s \<Longrightarrow> answers_well recovers {} s (snd (steer_now now s i))"
proof -
  assume ok: "scheduler_ok recovers s"
  have again: "answers_well recovers {} s (start_waiting now (stop_waiting s'))" if "answers_well recovers {} s s'" for s'
  proof -
    let ?w = "start_waiting now (stop_waiting s')"
    have same: "as_pending ?w = as_pending s'" "as_inputs ?w = as_inputs s'" "as_activity ?w = as_activity s'"
      "as_core ?w = as_core s'" "as_disposing ?w = as_disposing s'" "as_held ?w = as_held s'"
      "as_passed_failure ?w = as_passed_failure s'" "as_editing ?w = as_editing s'"
      by (simp_all add: stop_waiting_def)
    have "wants_turn recovers ?w = wants_turn recovers s'"
      using same by (cases "turn_failure (as_log s')") (simp_all add: wants_turn_def)
    moreover have "scheduled ?w = scheduled s'" "waiting_messages ?w = waiting_messages s'"
      using same by (intro scheduled_cong waiting_messages_cong; simp)+
    moreover have "moves s s' \<Longrightarrow> moves s ?w" using same by (cases "as_activity s"; cases "as_activity s'"; simp add: moves_def)
    ultimately show ?thesis using that same by (simp add: answers_well_def stays_closed_def scheduler_ok_def)
  qed
  show ?thesis using ok again [OF cut_round_well [OF ok]] by (simp add: steer_now_def Let_def cut_round_well)
qed

lemma admit_agent_message_well:
  assumes "scheduler_ok recovers s" "rt_user_recovers rt = recovers"
  shows "answers_well recovers {} s (snd (admit_agent_message rt now fresh s m stored))"
proof -
  have counted: "counted (as_inputs s)" using session_scheduled [OF assms(1)] by (simp add: scheduled_def)
  let ?s = "\<lambda>x. add_to_inputs (InAgent x) (s\<lparr>as_inputs := note_admitted (am_id m) now (as_inputs s)\<rparr>)"
  have "counted (add_input x (note_admitted (am_id m) now (as_inputs s)))" for x using counted by (simp add: counted_ops)
  then have "scheduled (?s x)" "waiting_messages s \<subseteq> waiting_messages (?s x)" for x
    using session_scheduled [OF assms(1)]
    by (cases "as_activity s")
      (auto simp: scheduled_def add_to_inputs_def add_input_def note_admitted_def no_steers_iff waiting_messages_iff unwritten_message_def)
  then have "answers_well recovers {} s (wake rt now fresh (?s x))" "answers_well recovers {} s (wake_for_user now fresh (?s x))"
    if "\<not> as_disposing s" for x
    using that assms(2) by (intro woken_well; simp add: add_to_inputs_def)+
  moreover have "answers_well recovers {} s (wake rt now fresh s)" if "\<not> as_disposing s"
    using that assms session_scheduled [OF assms(1)] by (intro woken_well) simp_all
  ultimately show ?thesis
    using assms(1) by (simp add: admit_agent_message_def Let_def split: option.split)
qed

lemma admit_report_well:
  assumes "scheduler_ok recovers s" "rt_user_recovers rt = recovers"
  shows "answers_well recovers {} s (admit_report rt now fresh s r opens)"
proof -
  let ?s = "add_to_inputs (InReport r opens) s"
  have "counted (as_inputs s)" using session_scheduled [OF assms(1)] by (simp add: scheduled_def)
  then have "scheduled ?s" "waiting_messages s \<subseteq> waiting_messages ?s"
    using session_scheduled [OF assms(1)] counted_ops(2)
    by (cases "as_activity s",
        auto simp: scheduled_def add_to_inputs_def add_input_def no_steers_iff waiting_messages_iff unwritten_message_def counted_def)
  then have "answers_well recovers {} s (wake rt now fresh ?s)" if "\<not> as_disposing s"
    using that assms(2) by (intro woken_well) (simp_all add: add_to_inputs_def)
  with assms(1) show ?thesis by (simp add: admit_report_def)
qed

lemma release_hold_well:
  assumes "scheduler_ok recovers s" "rt_user_recovers rt = recovers"
  shows "answers_well recovers {} s (release_hold rt now fresh s)"
proof (cases "as_disposing s")
  case False
  have "scheduled (s\<lparr>as_held := False\<rparr>)" using session_scheduled [OF assms(1)] scheduled_cong [of "s\<lparr>as_held := False\<rparr>" s] by simp
  with False assms(2) show ?thesis
    unfolding release_hold_def by (intro woken_well) (simp_all add: waiting_messages_def unwritten_message_def)
next
  case True
  let ?s = "s\<lparr>as_held := False\<rparr>"
  have ok: "scheduled s" by (rule session_scheduled [OF assms(1)])
  then have "scheduled ?s" "as_activity s \<noteq> ActIdle" "wake rt now fresh ?s = ?s"
    using True scheduled_cong [of ?s s] by (auto simp: wake_def scheduled_def)
  moreover have "waiting_messages ?s = waiting_messages s" by (intro waiting_messages_cong) simp_all
  ultimately show ?thesis
    using True by (simp add: release_hold_def answers_well_def scheduler_ok_def moves_same stays_closed_def)
qed

lemma failure_passed_well:
  assumes "scheduler_ok recovers s" "rt_user_recovers rt = recovers"
  shows "answers_well recovers {} s (failure_passed rt now fresh s i)"
proof -
  let ?s = "s\<lparr>as_passed_failure := Some i\<rparr>"
  have ok: "scheduled ?s" using session_scheduled [OF assms(1)] scheduled_cong [of ?s s] by simp
  have waits: "waiting_messages ?s = waiting_messages s" by (intro waiting_messages_cong) simp_all
  have "answers_well recovers {} s (wake rt now fresh ?s)"
  proof (cases "as_disposing s")
    case True
    then have "as_activity s \<noteq> ActIdle" using ok by (auto simp: scheduled_def)
    with True ok waits show ?thesis by (simp add: wake_def answers_well_def scheduler_ok_def moves_same stays_closed_def)
  next
    case False
    with assms(2) ok waits show ?thesis by (intro woken_well) simp_all
  qed
  with assms(1) show ?thesis by (simp add: failure_passed_def split: option.split)
qed

lemma wake_well: "scheduler_ok recovers s \<Longrightarrow> rt_user_recovers rt = recovers \<Longrightarrow> answers_well recovers {} s (wake rt now fresh s)"
  using session_scheduled [of recovers s] woken_closed [of s]
  by (cases "as_disposing s") (auto intro: woken_well)

lemma take_queued_cases:
  obtains (none) "take_queued s i = None"
    | (found) a ps where "take_queued s i = Some (a, s\<lparr>as_pending := ps\<rparr>)" "is_send a" "pn_turn a = i"
        "set (as_pending s) = insert a (set ps)"
proof (cases "position (is_queued i) (as_pending s)")
  case None
  then show thesis by (intro none) (simp add: take_queued_def)
next
  case (Some at)
  then have at: "at < length (as_pending s)" "is_queued i (as_pending s ! at)" by (auto simp: position_Some)
  have "set (as_pending s) = insert (as_pending s ! at) (set (remove_nth at (as_pending s)))"
    using remove_nth_facts(2) [OF at(1)] by (metis set_mset_add_mset_insert set_mset_mset)
  with Some at show thesis
    by (intro found [of "as_pending s ! at" "remove_nth at (as_pending s)"]) (simp_all add: take_queued_def is_queued_def)
qed

lemma answer_passed [simp]: "as_passed_failure (answer a e s) = as_passed_failure s"
  by (simp add: answer_def)

lemma dequeue_well:
  assumes "scheduler_ok recovers s"
  shows "answers_well recovers {i} s (snd (dequeue s i))"
proof (cases s i rule: take_queued_cases)
  case none
  then show ?thesis using assms by (simp add: dequeue_def)
next
  case (found a ps)
  have "answers_well recovers {i} s (answer a EndDropped (s\<lparr>as_pending := ps\<rparr>))" if "\<not> as_disposing s"
    using assms that found by (intro answers_well_pending) auto
  with assms found(1) show ?thesis by (simp add: dequeue_def)
qed

lemma send_next_well:
  assumes "scheduler_ok recovers s"
  shows "answers_well recovers {} s (snd (send_next s i))"
proof (cases s i rule: take_queued_cases)
  case none
  then show ?thesis using assms by (simp add: send_next_def)
next
  case (found a ps)
  have "set (take n ps @ a # drop n ps) = insert a (set ps)" for n
    using set_append [of "take n ps" "drop n ps", unfolded append_take_drop_id] by auto
  then have "answers_well recovers {} s (s\<lparr>as_pending := take n ps @ a # drop n ps\<rparr>)" if "\<not> as_disposing s" for n
    using assms that found by (intro answers_well_pending) auto
  with assms found(1) show ?thesis by (simp add: send_next_def Let_def)
qed

lemma stays_closed_trans: "stays_closed s s' \<Longrightarrow> stays_closed s' s'' \<Longrightarrow> stays_closed s s''"
  unfolding stays_closed_def by blast

lemma answers_well_trans:
  assumes first: "answers_well recovers gone s s'" and second: "answers_well recovers {} s' s''"
    and same: "as_activity s' = as_activity s" "as_core s' = as_core s" "as_editing s' = as_editing s"
  shows "answers_well recovers gone s s''"
proof -
  have "moves s s''" using moves_via [OF same] second by (simp add: answers_well_def)
  moreover have "stays_closed s s''" if "as_disposing s"
    using first second that stays_closed_trans [of s s' s''] by (simp add: answers_well_def stays_closed_def)
  moreover have "waiting_messages s \<subseteq> waiting_messages s'' \<union> gone"
    using first second unfolding answers_well_def by blast
  ultimately show ?thesis using second by (simp add: answers_well_def)
qed

lemma send_queued_now_alt:
  "snd (send_queued_now s i)
     = (if fst (send_next s i) then cut_round (snd (send_next s i)) NowMessage else snd (send_next s i))"
  by (cases "send_next s i") (simp add: send_queued_now_def split: bool.split)

lemma send_queued_now_well:
  assumes "scheduler_ok recovers s"
  shows "answers_well recovers {} s (snd (send_queued_now s i))"
proof -
  have front: "answers_well recovers {} s (snd (send_next s i))" by (rule send_next_well [OF assms])
  then have "scheduler_ok recovers (snd (send_next s i))" by (simp add: answers_well_def)
  from cut_round_well [OF this] have "answers_well recovers {} s (cut_round (snd (send_next s i)) NowMessage)"
  proof (rule answers_well_trans [OF front])
    show "as_activity (snd (send_next s i)) = as_activity s" "as_core (snd (send_next s i)) = as_core s"
      "as_editing (snd (send_next s i)) = as_editing s"
      by (cases s i rule: take_queued_cases; simp add: send_next_def Let_def)+
  qed
  with front show ?thesis by (simp only: send_queued_now_alt split: if_split) simp
qed

lemma clear_queue_well:
  "scheduler_ok recovers s \<Longrightarrow> answers_well recovers (withdrawn_by CallClear s) s (snd (clear_queue s))"
  by (auto simp: clear_queue_def Let_def intro!: answers_well_pending)

lemma stop_test: "(case running s of Some r \<Rightarrow> ar_cancelled r = None | None \<Rightarrow> False) = stoppable s"
  by (simp add: stoppable_def running_def split: activity.split)

lemma abort_one_well:
  assumes "scheduler_ok recovers s"
  shows "answers_well recovers (withdrawn_by CallAbort s) s (snd (abort_one s))"
proof -
  have "run_goes_on r (cancel_run CancelStop (r\<lparr>ar_giving_back := giving\<rparr>))" for r giving
    by (auto simp: run_goes_on_def cancel_run_def split: option.split)
  moreover have "ar_cancelled r = Some CancelShutdown"
    if "ar_cancelled (cancel_run CancelStop (r\<lparr>ar_giving_back := giving\<rparr>)) = Some CancelShutdown" for r giving
    using that by (simp add: cancel_run_def split: option.splits)
  ultimately show ?thesis
    using assms
    by (auto simp: abort_one_def Let_def stop_test intro!: answers_well_run answers_well_pending split: list.split)
qed

lemma stop_running_well: "scheduler_ok recovers s \<Longrightarrow> answers_well recovers {} s (snd (stop_running s reason))"
  by (auto simp: stop_running_def run_goes_on_cancel intro!: answers_well_run dest: cancel_run_shutdown [rotated]
      split: option.split)

lemma hold_session_well: "scheduler_ok recovers s \<Longrightarrow> answers_well recovers {} s (hold_session s)"
  by (rule answers_well_same) (simp_all add: hold_session_def)

text \<open>Dispose keeps the messages that wait.\<close>

lemma begin_dispose_live:
  assumes "\<not> as_disposing s"
  defines "s' \<equiv> begin_dispose s"
  shows "as_inputs s' = as_inputs s" "as_core s' = as_core s" "as_disposing s'" "as_editing s' = as_editing s"
    "as_pending s' = map (\<lambda>a. a\<lparr>pn_reply := False\<rparr>) (filter is_send (as_pending s))"
    "as_activity s' = (case as_activity s of ActRunning r \<Rightarrow> ActRunning (cancel_run CancelShutdown r)
       | ActIdle \<Rightarrow> ActClosed False | a \<Rightarrow> a)"
  using assms(1) by (auto simp: s'_def begin_dispose_def Let_def with_run_activity split: activity.split)

lemma begin_dispose_well:
  assumes "scheduler_ok recovers s"
  shows "answers_well recovers {} s (begin_dispose s)"
proof (cases "as_disposing s")
  case True
  then have "begin_dispose s = s" by (simp add: begin_dispose_def)
  with assms show ?thesis by simp
next
  case False
  let ?s = "begin_dispose s"
  note after = begin_dispose_live [OF False]
  have unanswered: "is_send (a\<lparr>pn_reply := b\<rparr>) = is_send a" for a b by (simp add: is_send_def)
  then have sends: "list_all is_send (as_pending ?s)" "pn_turn ` set (filter is_send (as_pending ?s)) = pn_turn ` set (filter is_send (as_pending s))"
    by (auto simp: after list_all_iff image_iff)
  have unwritten: "unwritten_message ?s = unwritten_message s"
    by (simp add: unwritten_message_def after cancel_run_def split: activity.split option.split)
  have "scheduled ?s" "as_activity ?s \<noteq> ActIdle"
    using session_scheduled [OF assms] after sends
    by (auto simp: scheduled_def cancel_run_def split: activity.splits option.splits)
  moreover have "moves s ?s"
    using run_goes_on_cancel by (auto simp: moves_def after split: activity.split)
  moreover have "waiting_messages ?s = waiting_messages s"
    by (simp only: waiting_messages_def unwritten sends(2) after(1))
  ultimately show ?thesis using False by (simp add: answers_well_def scheduler_ok_def)
qed

lemma call_well:
  assumes "scheduler_ok recovers s" "rt_user_recovers rt = recovers"
  shows "answers_well recovers (withdrawn_by c s) s (call_session rt now ids c s)"
proof (cases "c = CallAbort")
  case True
  then show ?thesis using abort_one_well [OF assms(1)] by (simp only: call_session_def session_call.case)
next
  case False
  with assms show ?thesis
    by (cases c)
      (auto simp only: call_session_def session_call.case withdrawn_by.simps split: if_split
        intro!: answers_well_refl admit_send_well admit_well admit_idle_compaction_well admit_switch_well
        admit_edit_well stop_for_edit_well session_steer_well cancel_steer_well steer_now_well admit_agent_message_well
        admit_report_well dequeue_well send_next_well send_queued_now_well clear_queue_well [unfolded withdrawn_by.simps]
        stop_running_well hold_session_well release_hold_well wake_well failure_passed_well begin_dispose_well)
qed

end
