(* ===== verification/Session_Runs.thy ===== *)
theory Session_Runs imports Session_Invariant begin

text \<open>
  The worker's side of a session: each thing a running action does, and each way it ends, keeps the
  scheduler's invariant. With the calls of the interface this gives every state a session reaches
  (\<open>reached_ok\<close>), and what every step does with the messages that wait (\<open>step_passes\<close>).
\<close>

text \<open>A step that keeps the invariant, loses no message but those it takes back, and opens no closed session.\<close>

definition passes :: "bool \<Rightarrow> turn_id set \<Rightarrow> agent_session \<Rightarrow> agent_session \<Rightarrow> bool" where
  "passes recovers gone s s' =
     (scheduler_ok recovers s'
      \<and> (\<forall>i\<in>waiting_messages s. i \<in> waiting_messages s' \<or> holds_message (as_log s') i \<or> i \<in> gone)
      \<and> (as_disposing s \<longrightarrow> stays_closed s s'))"

lemma answers_pass: "answers_well recovers gone s s' \<Longrightarrow> passes recovers gone s s'"
  unfolding answers_well_def passes_def by blast

lemma passes_refl [simp]: "scheduler_ok recovers s \<Longrightarrow> passes recovers gone s s"
  by (simp add: passes_def)

section \<open>What a running action does\<close>

lemma wrote_scheduled:
  assumes "wrote s s'" "scheduled s"
  shows "scheduled s'"
proof -
  note w = wroteD [OF assms(1)]
  have "waiting_steers (as_inputs s) = [] \<Longrightarrow> waiting_steers (as_inputs s') = []" by (rule wrote_no_steers [OF assms(1)])
  then show ?thesis using w(1,2,3,7) assms(2) by (cases "as_activity s") (simp_all add: scheduled_def)
qed

lemma wrote_passes:
  assumes "wrote s s'" "scheduler_ok recovers s" "as_activity s = ActRunning r"
  shows "passes recovers {} s s'" "moves s s'"
proof -
  note w = wroteD [OF assms(1)]
  have "scheduler_ok recovers s'"
    using wrote_scheduled [OF assms(1) session_scheduled [OF assms(2)]] w(3) assms(3) by (simp add: scheduler_ok_def)
  then show "passes recovers {} s s'"
    using wrote_waiting [OF assms(1)] wrote_waits_less [OF assms(1)] w(2,3,8)
    by (auto simp: passes_def stays_closed_def)
  show "moves s s'" using w(3,5) keeps_revision [OF w(6)] assms(3) by (simp add: moves_def run_goes_on_def)
qed

lemma run_change_passes:
  assumes "scheduler_ok recovers s" "\<And>r. ar_unwritten (f r) = ar_unwritten r" "\<And>r. ar_cancelled (f r) = ar_cancelled r"
  shows "passes recovers {} s (with_run s f)"
proof -
  have "unwritten_message (with_run s f) = unwritten_message s" "scheduler_ok recovers (with_run s f)"
    using assms
    by (auto simp: unwritten_message_def with_run_activity scheduler_ok_def scheduled_def split: activity.splits)
  then show ?thesis
    by (auto simp: passes_def stays_closed_def waiting_messages_def with_run_activity split: activity.splits)
qed

text \<open>The first write of a message: it waits no more, the transcript holds it.\<close>

lemma push_user_revision:
  "lg_revision (as_log (session_push_user s st turn content comments preamble schedule)) = lg_revision (as_log s) + 1"
proof -
  let ?l = "push_user (as_log s) st turn (as_model s) content comments preamble schedule"
  have "lg_revision (as_log (written s' ?l)) = lg_revision ?l + 1" for s' :: agent_session
    by (rule written_revision) (simp add: push_user_def append_patches)
  moreover have "lg_revision ?l = lg_revision (as_log s)"
    by (simp add: push_user_def append_block_def append_received_def Let_def note_end_blocks note_input_blocks)
  moreover have "as_model (with_run s f) = as_model s" for f by (simp add: with_run_def split: activity.split)
  ultimately show ?thesis by (simp add: session_push_user_def)
qed

lemma push_user_facts:
  "as_pending (session_push_user s st turn content comments preamble schedule) = as_pending s"
    "as_inputs (session_push_user s st turn content comments preamble schedule) = as_inputs s"
    "as_disposing (session_push_user s st turn content comments preamble schedule) = as_disposing s"
    "as_editing (session_push_user s st turn content comments preamble schedule) = as_editing s"
    "as_held (session_push_user s st turn content comments preamble schedule) = as_held s"
    "as_activity (session_push_user s st turn content comments preamble schedule)
       = as_activity (with_run s (\<lambda>r. r\<lparr>ar_unwritten := None\<rparr>))"
    "holds_message (as_log (session_push_user s st turn content comments preamble schedule)) turn"
    "keeps (as_log s) (as_log (session_push_user s st turn content comments preamble schedule))"
  using keeps_message [OF written_keeps push_user_holds] keeps_trans [OF pushes_keep(1) written_keeps]
  by (simp_all add: session_push_user_def)

section \<open>How an action ends\<close>

text \<open>The messages of the queue and the steers: what waits beside the running action's own message.\<close>

definition kept_messages :: "agent_session \<Rightarrow> turn_id set" where
  "kept_messages s = pn_turn ` set (filter is_send (as_pending s)) \<union> ps_id ` set (waiting_steers (as_inputs s))"

lemma waiting_kept: "waiting_messages s = kept_messages s \<union> set_option (unwritten_message s)"
  by (simp add: waiting_messages_def kept_messages_def)

lemma end_action_fields [simp]:
  "as_pending (end_action s) = as_pending s" "as_inputs (end_action s) = as_inputs s"
  "as_disposing (end_action s) = as_disposing s" "as_log (end_action s) = as_log s" "as_editing (end_action s) = None"
  "\<exists>idle. as_activity (end_action s) = ActFinishing idle"
  by (simp_all add: end_action_def stop_waiting_def mark_state_changed_def Let_def)

lemma end_action_waits: "waiting_messages (end_action s) = kept_messages s"
proof -
  obtain idle where "as_activity (end_action s) = ActFinishing idle" using end_action_fields(6) by blast
  then show ?thesis by (simp add: waiting_kept unwritten_message_def kept_messages_def)
qed

lemma finish_passes:
  assumes "counted (as_inputs s1)" "as_disposing s1 = as_disposing s"
    and sends: "as_disposing s \<Longrightarrow> list_all is_send (as_pending s1)"
    and held: "\<And>i. i \<in> waiting_messages s \<Longrightarrow> i \<in> kept_messages s1 \<or> holds_message (as_log s1) i \<or> i \<in> gone"
    and fewer: "kept_messages s1 \<subseteq> waiting_messages s" "set (iq_entries (as_inputs s1)) \<subseteq> set (iq_entries (as_inputs s))"
  shows "passes recovers gone s (end_action s1)"
proof -
  obtain idle where idle: "as_activity (end_action s1) = ActFinishing idle" using end_action_fields(6) by blast
  then have "scheduler_ok recovers (end_action s1)" using assms(1,2) sends by (simp add: scheduler_ok_def scheduled_def)
  then show ?thesis
    using assms(2) held fewer idle by (auto simp: passes_def end_action_waits stays_closed_def)
qed

lemma wrote_kept:
  assumes "wrote s s'"
  shows "kept_messages s' \<subseteq> kept_messages s"
    "i \<in> kept_messages s \<Longrightarrow> i \<in> kept_messages s' \<or> holds_message (as_log s') i"
proof -
  have iff: "i \<in> kept_messages s \<longleftrightarrow> (\<exists>a\<in>set (as_pending s). is_send a \<and> pn_turn a = i)
      \<or> (\<exists>st. InSteer st \<in> set (iq_entries (as_inputs s)) \<and> ps_id st = i)" for s i
    by (auto simp: kept_messages_def image_iff simp flip: steers_in)
  show "kept_messages s' \<subseteq> kept_messages s"
    "i \<in> kept_messages s \<Longrightarrow> i \<in> kept_messages s' \<or> holds_message (as_log s') i"
    using wroteD(8,9) [OF assms] unfolding subset_iff iff wroteD(1) [OF assms] by blast+
qed

text \<open>What a stop does with the message its turn had not written.\<close>

lemma give_back_facts:
  assumes "as_activity s = ActRunning r"
  shows "as_pending (give_back s) = as_pending s" "as_inputs (give_back s) = as_inputs s"
    "as_disposing (give_back s) = as_disposing s" "as_editing (give_back s) = as_editing s"
    "\<exists>r'. as_activity (give_back s) = ActRunning r' \<and> ar_unwritten r' = None"
  using assms
  by (auto simp: give_back_def with_run_activity split: option.split block.split)

definition settled_stop :: "stamp \<Rightarrow> cancel_reason \<Rightarrow> agent_session \<Rightarrow> agent_session" where
  "settled_stop st reason s =
     stop_unwritten st reason
       (if reason = CancelStop \<and> (case running s of Some r \<Rightarrow> ar_giving_back r | None \<Rightarrow> False) then give_back s else s)"

lemma record_stop_wrote:
  "record_stop rt now f1 f2 f3 reason s = Some s' \<Longrightarrow> wrote (settled_stop (f1, now) reason s) s'"
proof -
  assume stop: "record_stop rt now f1 f2 f3 reason s = Some s'"
  let ?s1 = "settled_stop (f1, now) reason s"
  obtain b s2 where s2: "(if reason = CancelShutdown then Some (False, ?s1) else write_inputs rt now f2 ?s1 AllButSteers) = Some (b, s2)"
  proof (cases "if reason = CancelShutdown then Some (False, ?s1) else write_inputs rt now f2 ?s1 AllButSteers")
    case None
    then have "record_stop rt now f1 f2 f3 reason s = None"
      by (simp only: record_stop_def Let_def settled_stop_def [symmetric] option.case)
    with stop show thesis by simp
  qed (use that in fastforce)
  then have "wrote ?s1 s2" using write_inputs_wrote by (auto split: if_splits)
  also have "wrote s2 (abort_executing_calls rt now e s2)" for e by simp
  also obtain e where "wrote (abort_executing_calls rt now e s2) s'"
  proof -
    let ?e = "case reason of CancelStop \<Rightarrow> CallStopped | CancelHold h \<Rightarrow> CallHeld h | CancelShutdown \<Rightarrow> CallShutdown"
    let ?s3 = "abort_executing_calls rt now ?e s2"
    let ?giving = "reason = CancelStop \<and> (case running s of Some r \<Rightarrow> ar_giving_back r | None \<Rightarrow> False)"
    let ?s4 = "if reason = CancelShutdown then append_interruption (f3, now) ?s3
                else if ?giving \<or> \<not> action_began ?s3 then ?s3
                else ?s3\<lparr>as_core := (as_core ?s3)\<lparr>co_log := push_abort (as_log ?s3) (f3, now) (as_model ?s3)\<rparr>\<rparr>"
    have "record_stop rt now f1 f2 f3 reason s = Some (?s4\<lparr>as_core := commit (as_core ?s4)\<rparr>)"
      by (simp only: record_stop_def Let_def settled_stop_def [symmetric] s2 option.case prod.case)
    then have "s' = ?s4\<lparr>as_core := commit (as_core ?s4)\<rparr>" using stop by (simp only: option.inject)
    moreover have "wrote ?s3 ?s4" by (simp add: wrote_log)
    ultimately have "wrote ?s3 s'" using wrote_trans commit_wrote by blast
    then show thesis by (rule that)
  qed
  finally show ?thesis .
qed

lemma settled_stop_facts:
  fixes reason :: cancel_reason and st :: stamp and s :: agent_session
  assumes run: "as_activity s = ActRunning r" and named: "\<And>m. ar_unwritten r = Some m \<Longrightarrow> qm_id m = ar_turn r"
  defines "s1 \<equiv> settled_stop st reason s"
  shows "as_inputs s1 = as_inputs s" "as_disposing s1 = as_disposing s" "as_editing s1 = as_editing s"
    "list_all is_send (as_pending s) \<Longrightarrow> list_all is_send (as_pending s1)"
    "kept_messages s \<subseteq> kept_messages s1" "kept_messages s1 \<subseteq> waiting_messages s"
    "unwritten_message s = Some i \<Longrightarrow> i \<in> kept_messages s1 \<or> holds_message (as_log s1) i
       \<or> reason = CancelStop \<and> ar_giving_back r \<or> reason = CancelShutdown"
    "reason = CancelShutdown \<Longrightarrow> as_pending s1 = as_pending s \<and> as_core s1 = as_core s"
proof -
  consider (given) "reason = CancelStop" "ar_giving_back r" "s1 = give_back s"
    | (nothing) "ar_unwritten r = None" "s1 = s"
    | (written) m where "ar_unwritten r = Some m" "reason = CancelStop"
        "s1 = session_push_user (with_run s (\<lambda>r. r\<lparr>ar_unwritten := None\<rparr>)) st (ar_turn r) (qm_content m) (qm_comments m) None (qm_schedule m)"
    | (held) m h where "ar_unwritten r = Some m" "reason = CancelHold h"
        "s1 = (with_run s (\<lambda>r. r\<lparr>ar_unwritten := None\<rparr>))\<lparr>as_pending := \<lparr>pn_kind = SendAction (qm_content m) (qm_comments m) (qm_schedule m),
                           pn_turn = ar_turn r, pn_reply = False\<rparr> # as_pending s\<rparr>"
    | (closing) "reason = CancelShutdown" "s1 = with_run s (\<lambda>r. r\<lparr>ar_unwritten := None\<rparr>)"
  proof (cases "reason = CancelStop \<and> ar_giving_back r")
    case True
    obtain r' where "as_activity (give_back s) = ActRunning r'" "ar_unwritten r' = None"
      using give_back_facts(5) [OF run] by blast
    with True run show ?thesis by (intro given) (simp_all add: s1_def settled_stop_def stop_unwritten_def running_def)
  next
    case False
    then have s1: "s1 = stop_unwritten st reason s" using run by (auto simp: s1_def settled_stop_def running_def)
    show ?thesis
    proof (cases "ar_unwritten r")
      case None
      show ?thesis by (rule nothing) (use None s1 run in \<open>simp_all add: stop_unwritten_def running_def\<close>)
    next
      case (Some m)
      with s1 run show ?thesis
        by (cases reason) (simp_all add: stop_unwritten_def running_def written held closing)
    qed
  qed
  note cases = this
  show "as_inputs s1 = as_inputs s" "as_disposing s1 = as_disposing s" "as_editing s1 = as_editing s"
    by (rule cases; simp add: give_back_facts [OF run] push_user_facts)+
  show "list_all is_send (as_pending s) \<Longrightarrow> list_all is_send (as_pending s1)"
    by (rule cases) (simp_all add: give_back_facts [OF run] push_user_facts is_send_def)
  show "kept_messages s \<subseteq> kept_messages s1"
    by (rule cases) (auto simp: kept_messages_def give_back_facts [OF run] push_user_facts)
  show "kept_messages s1 \<subseteq> waiting_messages s"
    by (rule cases) (use named run in \<open>auto simp: kept_messages_def waiting_messages_def unwritten_message_def
      give_back_facts [OF run] push_user_facts\<close>)
  show "unwritten_message s = Some i \<Longrightarrow> i \<in> kept_messages s1 \<or> holds_message (as_log s1) i
       \<or> reason = CancelStop \<and> ar_giving_back r \<or> reason = CancelShutdown"
    by (rule cases) (use named run in \<open>auto simp: kept_messages_def unwritten_message_def push_user_facts is_send_def\<close>)
  show "reason = CancelShutdown \<Longrightarrow> as_pending s1 = as_pending s \<and> as_core s1 = as_core s"
    by (rule cases) simp_all
qed

definition gives_back :: "cancel_reason \<Rightarrow> agent_session \<Rightarrow> bool" where
  "gives_back reason s =
     (reason = CancelStop \<and> (case as_activity s of ActRunning r \<Rightarrow> ar_giving_back r | _ \<Rightarrow> False))"

lemma stopped_passes:
  assumes ok: "scheduler_ok recovers s" and run: "as_activity s = ActRunning r"
    and named: "\<And>m. ar_unwritten r = Some m \<Longrightarrow> qm_id m = ar_turn r"
    and stop: "record_stop rt now f1 f2 f3 reason s = Some s'" "reason \<noteq> CancelShutdown"
  shows "passes recovers (if gives_back reason s then set_option (unwritten_message s) else {}) s (end_action s')"
proof (rule finish_passes)
  let ?s1 = "settled_stop (f1, now) reason s"
  note wrote = record_stop_wrote [OF stop(1)]
  note w = wroteD [OF wrote]
  have sched: "counted (as_inputs s)" "as_disposing s \<Longrightarrow> list_all is_send (as_pending s)"
    using session_scheduled [OF ok] by (auto simp: scheduled_def)
  note f = settled_stop_facts [OF run named, where st = "(f1, now)" and reason = reason]
  show "counted (as_inputs s')" using w(7) sched f(1) by simp
  show "as_disposing s' = as_disposing s" using w(2) f(2) by simp
  show "as_disposing s \<Longrightarrow> list_all is_send (as_pending s')" using w(1) f(4) sched(2) by simp
  show "kept_messages s' \<subseteq> waiting_messages s" using wrote_kept(1) [OF wrote] f(6) by blast
  show "set (iq_entries (as_inputs s')) \<subseteq> set (iq_entries (as_inputs s))" using w(8) f(1) by simp
  fix i assume "i \<in> waiting_messages s"
  then consider "i \<in> kept_messages s" | "unwritten_message s = Some i" by (auto simp: waiting_kept)
  then have "i \<in> kept_messages ?s1 \<or> holds_message (as_log ?s1) i \<or> gives_back reason s \<and> unwritten_message s = Some i"
    using f(5,7) stop(2) run by cases (auto simp: gives_back_def)
  then show "i \<in> kept_messages s' \<or> holds_message (as_log s') i
      \<or> i \<in> (if gives_back reason s then set_option (unwritten_message s) else {})"
    using wrote_kept(2) [OF wrote] keeps_message [OF w(6)] by auto
qed

lemma failed_passes:
  assumes "scheduler_ok recovers s" "unwritten_message s = None" "fail_action rt now fresh message s = Some s'"
  shows "passes recovers {} s (end_action s')"
proof (rule finish_passes)
  obtain b s1 where "write_inputs rt now fresh s AllButSteers = Some (b, s1)"
      "s' = (abort_executing_calls rt now (CallFailed message) s1)\<lparr>as_core := commit (as_core (abort_executing_calls rt now (CallFailed message) s1))\<rparr>"
    using assms(3) by (auto simp: fail_action_def Let_def split: option.splits)
  then have wrote: "wrote s s'"
    using write_inputs_wrote wrote_trans [OF abort_executing_calls_wrote commit_wrote] wrote_trans by metis
  note w = wroteD [OF wrote]
  have sched: "counted (as_inputs s)" "as_disposing s \<Longrightarrow> list_all is_send (as_pending s)"
    using session_scheduled [OF assms(1)] by (auto simp: scheduled_def)
  show "counted (as_inputs s')" "as_disposing s' = as_disposing s" "as_disposing s \<Longrightarrow> list_all is_send (as_pending s')"
    "set (iq_entries (as_inputs s')) \<subseteq> set (iq_entries (as_inputs s))"
    using w(1,2,7,8) sched by simp_all
  show "kept_messages s' \<subseteq> waiting_messages s" using wrote_kept(1) [OF wrote] by (auto simp: waiting_kept)
  show "\<And>i. i \<in> waiting_messages s \<Longrightarrow> i \<in> kept_messages s' \<or> holds_message (as_log s') i \<or> i \<in> {}"
    using wrote_kept(2) [OF wrote] assms(2) by (auto simp: waiting_kept)
qed

lemma ended_passes:
  assumes "scheduler_ok recovers s" "unwritten_message s = None"
  shows "passes recovers {} s (end_action s)" "passes recovers {} s (end_action (reject_edit s))"
proof -
  have sched: "counted (as_inputs s)" "as_disposing s \<Longrightarrow> list_all is_send (as_pending s)"
    using session_scheduled [OF assms(1)] by (auto simp: scheduled_def)
  then show "passes recovers {} s (end_action s)"
    using assms(2) by (intro finish_passes) (auto simp: waiting_kept)
  have "kept_messages (reject_edit s) = kept_messages s" by (simp add: kept_messages_def reject_edit_def)
  with sched show "passes recovers {} s (end_action (reject_edit s))"
    using assms(2) by (intro finish_passes) (auto simp: waiting_kept reject_edit_def)
qed

section \<open>Shutting down\<close>

lemma reject_edit_fields [simp]:
  "as_pending (reject_edit s) = as_pending s" "as_inputs (reject_edit s) = as_inputs s"
  "as_disposing (reject_edit s) = as_disposing s" "as_activity (reject_edit s) = as_activity s"
  "as_core (reject_edit s) = as_core s" "as_editing (reject_edit s) = None"
  "kept_messages (reject_edit s) = kept_messages s"
  by (simp_all add: reject_edit_def kept_messages_def)

text \<open>The session that closes: its steers are in the queue, and nothing runs.\<close>

definition closed_as :: "nat \<Rightarrow> bool \<Rightarrow> agent_session \<Rightarrow> agent_session" where
  "closed_as ahead began s = (stop_waiting (queue_steers ahead s))\<lparr>as_activity := ActClosed began\<rparr>"

lemma closed_as_facts:
  assumes "ahead \<le> length (as_pending s)"
  shows "as_pending (closed_as ahead began s)
      = take ahead (as_pending s) @ map steer_action (waiting_steers (as_inputs s)) @ drop ahead (as_pending s)"
    "waiting_steers (as_inputs (closed_as ahead began s)) = []" "as_core (closed_as ahead began s) = as_core s"
    "as_disposing (closed_as ahead began s) = as_disposing s" "as_editing (closed_as ahead began s) = as_editing s"
    "as_activity (closed_as ahead began s) = ActClosed began"
    "counted (as_inputs s) \<Longrightarrow> counted (as_inputs (closed_as ahead began s))"
    "waiting_messages (closed_as ahead began s) = kept_messages s"
proof -
  have [simp]: "as_pending (stop_waiting s) = as_pending s" "as_inputs (stop_waiting s) = as_inputs s"
    "as_core (stop_waiting s) = as_core s" "as_disposing (stop_waiting s) = as_disposing s"
    "as_editing (stop_waiting s) = as_editing s" for s
    by (simp_all add: stop_waiting_def)
  show pending: "as_pending (closed_as ahead began s)
      = take ahead (as_pending s) @ map steer_action (waiting_steers (as_inputs s)) @ drop ahead (as_pending s)"
    using assms by (simp add: closed_as_def queue_steers_result)
  show steers: "waiting_steers (as_inputs (closed_as ahead began s)) = []" by (simp add: closed_as_def queue_steers_result)
  show "as_core (closed_as ahead began s) = as_core s" "as_disposing (closed_as ahead began s) = as_disposing s"
    "as_editing (closed_as ahead began s) = as_editing s" and activity: "as_activity (closed_as ahead began s) = ActClosed began"
    "counted (as_inputs s) \<Longrightarrow> counted (as_inputs (closed_as ahead began s))"
    by (simp_all add: closed_as_def)
  have "set (as_pending s) = set (take ahead (as_pending s)) \<union> set (drop ahead (as_pending s))"
    by (metis append_take_drop_id set_append)
  then show "waiting_messages (closed_as ahead began s) = kept_messages s"
    unfolding waiting_kept unwritten_message_def activity(1) kept_messages_def steers pending
    by (auto simp: image_Un image_image)
qed

lemma queue_steers_entries:
  "set (iq_entries (as_inputs (queue_steers ahead s))) \<subseteq> set (iq_entries (as_inputs s))"
proof (induction ahead s rule: queue_steers.induct)
  case (1 ahead s)
  show ?case
  proof (cases "as_inputs s" rule: take_first_steer_cases)
    case none
    then show ?thesis by (subst queue_steers.simps) simp
  next
    case (found st q')
    have "set (iq_entries q') \<subseteq> set (iq_entries (as_inputs s))"
      using found(3) by (metis set_mset_add_mset_insert set_mset_mset subset_insertI)
    with "1.IH" [OF found(1) [symmetric] refl] found show ?thesis
      by (subst queue_steers.simps) auto
  qed
qed

text \<open>The two ways an action that dispose stopped ends: interrupted, or as though it had not begun.\<close>

lemma shut_down_cases:
  assumes "shut_down rt now f1 f2 f3 kind turn s = Some (b, s')"
  obtains (interrupted) s1 where "action_began s" "record_stop rt now f1 f2 f3 CancelShutdown (reject_edit s) = Some s1"
      "s' = closed_as 0 True s1" "b"
    | (message) content comments schedule where "\<not> action_began s" "kind = SendAction content comments schedule" "\<not> b"
      "s' = closed_as 1 False ((reject_edit s)\<lparr>as_pending := \<lparr>pn_kind = kind, pn_turn = turn, pn_reply = False\<rparr> # as_pending s\<rparr>)"
    | (other) "\<not> action_began s" "\<not> is_send \<lparr>pn_kind = kind, pn_turn = turn, pn_reply = False\<rparr>" "\<not> b"
      "s' = closed_as 0 False (reject_edit s)"
  using assms
  by (cases "action_began s"; cases kind) (auto simp: shut_down_def Let_def closed_as_def is_send_def split: option.splits)

lemma shut_down_passes:
  assumes ok: "scheduler_ok recovers s" and run: "as_activity s = ActRunning r"
    and acts: "acts_ok s st r" and stopped: "ar_cancelled r = Some CancelShutdown"
    and shut: "shut_down rt now f1 f2 f3 (st_kind st) (st_turn st) s = Some (b, s')"
  shows "passes recovers (if action_began s then set_option (unwritten_message s) else {}) s s'"
    "as_editing s' = None" "as_activity s' = ActClosed b"
proof -
  have sched: "counted (as_inputs s)" "as_disposing s" "list_all is_send (as_pending s)"
    using session_scheduled [OF ok] run stopped by (auto simp: scheduled_def)
  have named: "\<And>m. ar_unwritten r = Some m \<Longrightarrow> qm_id m = ar_turn r"
    using acts by (auto simp: acts_ok_def run_ok_def queued_message_of_def split: action_kind.splits)
  have closes: "passes recovers gone s (closed_as ahead began s1)"
    if s1: "counted (as_inputs s1)" "as_disposing s1" "list_all is_send (as_pending s1)" "ahead \<le> length (as_pending s1)"
      "set (iq_entries (as_inputs s1)) \<subseteq> set (iq_entries (as_inputs s))" "kept_messages s1 \<subseteq> waiting_messages s"
      "\<And>i. i \<in> waiting_messages s \<Longrightarrow> i \<in> kept_messages s1 \<or> holds_message (as_log s1) i \<or> i \<in> gone"
    for ahead began s1 gone
  proof -
    note c = closed_as_facts [OF s1(4), of began]
    have "set (take ahead (as_pending s1)) \<subseteq> set (as_pending s1)" "set (drop ahead (as_pending s1)) \<subseteq> set (as_pending s1)"
      by (simp_all add: set_take_subset set_drop_subset)
    then have "list_all is_send (as_pending (closed_as ahead began s1))"
      using s1(3) unfolding c(1) by (auto simp: list_all_iff)
    then have "scheduler_ok recovers (closed_as ahead began s1)"
      using c s1(1,2) by (simp add: scheduler_ok_def scheduled_def)
    moreover have "set (iq_entries (as_inputs (closed_as ahead began s1))) \<subseteq> set (iq_entries (as_inputs s))"
      using queue_steers_entries [of ahead s1] s1(5) by (auto simp: closed_as_def stop_waiting_def)
    ultimately show ?thesis using c s1(2,6,7) by (auto simp: passes_def stays_closed_def)
  qed
  show "passes recovers (if action_began s then set_option (unwritten_message s) else {}) s s'"
  proof (rule shut_down_cases [OF shut], goal_cases interrupted message other)
    case (interrupted s1)
    note wrote = record_stop_wrote [OF interrupted(2)]
    note w = wroteD [OF wrote]
    note f = settled_stop_facts [of "reject_edit s" r, simplified, OF run named, where st = "(f1, now)" and reason = CancelShutdown]
    have "passes recovers (set_option (unwritten_message s)) s (closed_as 0 True s1)"
    proof (rule closes)
      show "counted (as_inputs s1)" "as_disposing s1" "list_all is_send (as_pending s1)"
        "set (iq_entries (as_inputs s1)) \<subseteq> set (iq_entries (as_inputs s))"
        using w f sched by simp_all
      show "kept_messages s1 \<subseteq> waiting_messages s"
        using wrote_kept(1) [OF wrote] f(6) run by (auto simp: waiting_kept unwritten_message_def)
      show "\<And>i. i \<in> waiting_messages s \<Longrightarrow> i \<in> kept_messages s1 \<or> holds_message (as_log s1) i \<or> i \<in> set_option (unwritten_message s)"
        using wrote_kept(2) [OF wrote] f(5) by (auto simp: waiting_kept)
    qed simp
    with interrupted show ?thesis by simp
  next
    case (message content comments schedule)
    have same: "ar_started_at r = lg_revision (as_log s)" using message(1) run by (simp add: action_began_def running_def)
    have "starts_a_send st" using message(2) by (simp add: starts_a_send_def)
    then obtain m where m: "ar_unwritten r = Some m" "st_turn st = ar_turn r" "qm_id m = ar_turn r"
      using acts same named by (cases "ar_unwritten r") (auto simp: acts_ok_def run_ok_def)
    then have unwritten: "unwritten_message s = Some (st_turn st)" using run by (simp add: unwritten_message_def)
    have "passes recovers {} s s'"
      unfolding message(4)
      by (rule closes)
        (use sched unwritten message(2) in \<open>auto simp: kept_messages_def waiting_kept is_send_def\<close>)
    with message show ?thesis by simp
  next
    case other
    have "ar_unwritten r = None"
      using acts other(2) by (auto simp: acts_ok_def run_ok_def queued_message_of_def is_send_def split: option.splits action_kind.splits)
    then have "unwritten_message s = None" using run by (simp add: unwritten_message_def)
    then have "passes recovers {} s s'"
      unfolding other(4) by (intro closes) (use sched in \<open>simp_all add: waiting_kept\<close>)
    with other show ?thesis by simp
  qed
  have "as_editing s1 = None" if "record_stop rt now f1 f2 f3 CancelShutdown (reject_edit s) = Some s1" for s1
    using wroteD(5) [OF record_stop_wrote [OF that]]
      settled_stop_facts(3) [of "reject_edit s" r, simplified, OF run named, where st = "(f1, now)" and reason = CancelShutdown]
    by simp
  note unedited = this
  show "as_editing s' = None"
    by (rule shut_down_cases [OF shut]) (simp_all add: closed_as_facts unedited)
  show "as_activity s' = ActClosed b"
    by (rule shut_down_cases [OF shut]) (simp_all add: closed_as_facts)
qed

section \<open>Every step\<close>

definition node_ok :: "bool \<Rightarrow> session_node \<Rightarrow> bool" where
  "node_ok recovers nd = (scheduler_ok recovers (nd_session nd) \<and> worker_ok nd)"

lemma working_ok:
  assumes "worker_ok nd" "working nd = Some (st, r)"
  shows "as_activity (nd_session nd) = ActRunning r" "nd_action nd = Some st" "ar_start r = None"
    "acts_ok (nd_session nd) st r"
  using assms by (auto simp: working_def worker_ok_def running_def split: option.splits activity.splits)

lemma acts_named: "acts_ok s st r \<Longrightarrow> ar_unwritten r = Some m \<Longrightarrow> qm_id m = ar_turn r"
  by (auto simp: acts_ok_def run_ok_def queued_message_of_def split: action_kind.splits)

lemma acts_unsent: "acts_ok s st r \<Longrightarrow> \<not> starts_a_send st \<Longrightarrow> ar_unwritten r = None"
  by (auto simp: acts_ok_def run_ok_def queued_message_of_def starts_a_send_def split: option.splits action_kind.splits)

lemma kinds_unsent: "is_switch st \<Longrightarrow> \<not> starts_a_send st" "is_edit_action st \<Longrightarrow> \<not> starts_a_send st" "reruns st \<Longrightarrow> \<not> starts_a_send st"
  by (auto simp: is_switch_def starts_a_send_def is_edit_action_def reruns_def split: action_kind.splits)

lemma ends_worker: "as_editing s = None \<Longrightarrow> \<forall>r. as_activity s \<noteq> ActRunning r \<Longrightarrow> worker_ok (nd\<lparr>nd_session := s, nd_action := None\<rparr>)"
  by (simp add: worker_ok_def split: activity.split)

lemma action_ends_worker: "worker_ok (action_ends nd s)"
proof -
  obtain idle where "as_activity (end_action s) = ActFinishing idle" using end_action_fields(6) by blast
  then show ?thesis unfolding action_ends_def by (intro ends_worker) simp_all
qed

text \<open>The messages a step takes back: a call's, a stop that gives its message back, and see \<open>shut_down_passes\<close>.\<close>

definition taken_back :: "session_op \<Rightarrow> session_node \<Rightarrow> turn_id set" where
  "taken_back op nd =
     (let s = nd_session nd
      in case op of
        OpCall c \<Rightarrow> withdrawn_by c s
      | OpConclude Stopped \<Rightarrow>
          (case as_activity s of
             ActRunning r \<Rightarrow> if ar_cancelled r = Some CancelStop \<and> ar_giving_back r then set_option (unwritten_message s) else {}
           | _ \<Rightarrow> {})
      | OpConclude ShutDown \<Rightarrow> if action_began s then set_option (unwritten_message s) else {}
      | _ \<Rightarrow> {})"

lemma conclude_passes:
  assumes ok: "node_ok recovers nd" and working: "working nd = Some (st, r)"
    and concludes: "conclude_action rt now ids ending st r nd = Some nd'"
  shows "passes recovers (taken_back (OpConclude ending) nd) (nd_session nd) (nd_session nd')" "worker_ok nd'"
proof -
  let ?s = "nd_session nd"
  have sched: "scheduler_ok recovers ?s" and worker: "worker_ok nd" using ok by (simp_all add: node_ok_def)
  note w = working_ok [OF worker working]
  note named = acts_named [OF w(4)]
  have unsent: "unwritten_message ?s = None" if "ar_unwritten r = None" using that w(1) by (simp add: unwritten_message_def)
  have edits: "unwritten_message ?s = None" if "preparing_edit ?s"
  proof -
    have "is_edit_action st" using that w(4) by (auto simp: preparing_edit_def acts_ok_def split: option.splits)
    then show ?thesis by (intro unsent acts_unsent [OF w(4)] kinds_unsent)
  qed
  have ends: "nd_session (action_ends nd s') = end_action s'" for s' by (simp add: action_ends_def)
  have "passes recovers (taken_back (OpConclude ending) nd) ?s (nd_session nd') \<and> worker_ok nd'"
  proof (cases ending)
    case Completed
    then show ?thesis
      using concludes ended_passes(1) [OF sched] unsent
      by (auto simp: conclude_action_def Let_def written_all_def ends taken_back_def action_ends_worker split: if_splits)
  next
    case Stopped
    then obtain reason s' where stop: "ar_cancelled r = Some reason" "reason \<noteq> CancelShutdown"
        "record_stop rt now (ids 0) (ids 1) (ids 2) reason ?s = Some s'" "nd' = action_ends nd s'"
      using concludes by (auto simp: conclude_action_def Let_def split: option.splits if_splits)
    have "taken_back (OpConclude ending) nd = (if gives_back reason ?s then set_option (unwritten_message ?s) else {})"
      using Stopped stop(1) w(1) by (simp add: taken_back_def gives_back_def)
    then show ?thesis using stopped_passes [OF sched w(1) named stop(3,2)] stop(4) by (simp add: ends action_ends_worker)
  next
    case (Failed message)
    then show ?thesis
      using concludes failed_passes [OF sched] unsent
      by (auto simp: conclude_action_def Let_def written_all_def ends taken_back_def action_ends_worker split: if_splits)
  next
    case EditRejected
    then show ?thesis
      using concludes ended_passes(2) [OF sched] edits
      by (auto simp: conclude_action_def Let_def ends taken_back_def action_ends_worker split: if_splits)
  next
    case SwitchEnded
    then show ?thesis
      using concludes ended_passes(1) [OF sched] unsent acts_unsent [OF w(4)] kinds_unsent(1)
      by (auto simp: conclude_action_def Let_def ends taken_back_def action_ends_worker split: if_splits)
  next
    case ShutDown
    then obtain b s' where shut: "ar_cancelled r = Some CancelShutdown"
        "shut_down rt now (ids 0) (ids 1) (ids 2) (st_kind st) (st_turn st) ?s = Some (b, s')"
        "nd' = nd\<lparr>nd_session := s', nd_action := None\<rparr>"
      using concludes by (auto simp: conclude_action_def Let_def split: if_splits)
    note down = shut_down_passes [OF sched w(1,4) shut(1,2)]
    have "worker_ok nd'" unfolding shut(3) by (rule ends_worker) (simp_all add: down(2,3))
    then show ?thesis using down(1) ShutDown shut(3) by (simp add: taken_back_def Let_def)
  qed
  then show "passes recovers (taken_back (OpConclude ending) nd) ?s (nd_session nd')" "worker_ok nd'" by blast+
qed

lemma acts_worker:
  assumes "nd_action nd = Some st" "as_activity s' = ActRunning r'" "ar_start r' = None" "acts_ok s' st r'"
  shows "worker_ok (with_session nd s')"
  using assms by (simp add: worker_ok_def with_session_def)

lemma act_passes:
  assumes ok: "node_ok recovers nd" and working: "working nd = Some (st, r)"
    and acts: "act rt now ids a st r (nd_session nd) = Some s'"
  shows "passes recovers {} (nd_session nd) s'" "worker_ok (with_session nd s')"
proof -
  let ?s = "nd_session nd"
  have sched: "scheduler_ok recovers ?s" and worker: "worker_ok nd" using ok by (simp_all add: node_ok_def)
  note w = working_ok [OF worker working]
  have "passes recovers {} ?s s' \<and> worker_ok (with_session nd s')"
  proof (cases a)
    case (ActStage stage)
    then show ?thesis
      using acts run_change_passes [OF sched, of "\<lambda>r. r\<lparr>ar_stage := stage\<rparr>"]
        moves_worker [OF worker moves_with_run, of "\<lambda>r. r\<lparr>ar_stage := stage\<rparr>"]
      by (auto simp: act_def set_stage_def run_goes_on_def)
  next
    case (ActTakeOver turn)
    then have s': "reruns st" "s' = with_run ?s (\<lambda>r. r\<lparr>ar_turn := turn\<rparr>)"
      using acts by (auto simp: act_def take_over_turn_def split: if_splits)
    have "acts_ok s' st (r\<lparr>ar_turn := turn\<rparr>)"
      using w(4) acts_unsent [OF w(4)] kinds_unsent(3) [OF s'(1)] s'(2) by (simp add: acts_ok_def run_ok_def)
    then have "worker_ok (with_session nd s')"
      using w s'(2) by (intro acts_worker) (simp_all add: with_run_activity)
    then show ?thesis using run_change_passes [OF sched, of "\<lambda>r. r\<lparr>ar_turn := turn\<rparr>"] s'(2) by simp
  next
    case ActTakeSendNow
    then have "s' = with_run ?s (\<lambda>r. r\<lparr>ar_send_now := None\<rparr>)"
      using acts w(1) by (auto simp: act_def take_send_now_def running_def)
    then show ?thesis
      using run_change_passes [OF sched, of "\<lambda>r. r\<lparr>ar_send_now := None\<rparr>"]
        moves_worker [OF worker moves_with_run, of "\<lambda>r. r\<lparr>ar_send_now := None\<rparr>"]
      by (simp add: run_goes_on_def)
  next
    case (ActPushMessage preamble)
    then obtain content comments schedule where pushed: "ar_unwritten r \<noteq> None"
        "s' = session_push_user ?s (ids 0, now) (ar_turn r) content comments preamble schedule"
      using acts by (auto simp: act_def push_message_def split: action_kind.splits if_splits)
    note p = push_user_facts [of ?s "(ids 0, now)" "ar_turn r" content comments preamble schedule, folded pushed(2)]
    have run': "as_activity s' = ActRunning (r\<lparr>ar_unwritten := None\<rparr>)" using p(6) w(1) by (simp add: with_run_activity)
    have "acts_ok s' st (r\<lparr>ar_unwritten := None\<rparr>)"
      using w(4) p(4) push_user_revision [of ?s "(ids 0, now)" "ar_turn r" content comments preamble schedule, folded pushed(2)]
      by (simp add: acts_ok_def run_ok_def)
    then have "worker_ok (with_session nd s')" using w(2,3) run' by (intro acts_worker) simp_all
    moreover have "passes recovers {} ?s s'"
    proof -
      have "scheduler_ok recovers s'"
        using session_scheduled [OF sched] p(1,2,3) run' w(1) by (simp add: scheduler_ok_def scheduled_def)
      moreover have "unwritten_message ?s = Some (ar_turn r)"
        using pushed(1) acts_named [OF w(4)] w(1) by (auto simp: unwritten_message_def)
      moreover have "kept_messages s' = kept_messages ?s" "unwritten_message s' = None"
        using p(1,2) run' by (simp_all add: kept_messages_def unwritten_message_def)
      ultimately show ?thesis using p(2,3,7) w(1) by (auto simp: passes_def stays_closed_def waiting_kept)
    qed
    ultimately show ?thesis by simp
  next
    case ActContinue
    then obtain b where "open_continuation rt now (ids 0) ?s = Some (b, s')" using acts by (auto simp: act_def)
    note wrote = wrote_passes [OF open_continuation_wrote [OF this] sched w(1)]
    show ?thesis using wrote(1) moves_worker [OF worker wrote(2)] ..
  next
    case (ActBoundary t)
    then obtain b where "write_inputs rt now (ids 0) ?s t = Some (b, s')" using acts by (auto simp: act_def)
    note wrote = wrote_passes [OF write_inputs_wrote [OF this] sched w(1)]
    show ?thesis using wrote(1) moves_worker [OF worker wrote(2)] ..
  next
    case (ActAdoptEdit blocks model turn)
    then obtain e c where e: "as_editing ?s = Some e" "is_edit_action st" "adopt_rewrite (as_core ?s) blocks True = Some c"
        "as_core s' = c" "as_pending s' = as_pending ?s" "as_inputs s' = as_inputs ?s" "as_activity s' = as_activity ?s"
        "as_disposing s' = as_disposing ?s"
      using acts by (auto simp: act_def adopt_edit_def split: option.splits if_splits)
    have "lg_revision (co_log c) = lg_revision (as_log ?s) + 1"
      using e(3) by (auto simp: adopt_rewrite_def replace_all_def replace_from_def Let_def split: option.splits if_splits)
    then have "acts_ok s' st r" using w(4) e(2,4) by (auto simp: acts_ok_def run_ok_def split: option.splits)
    then have "worker_ok (with_session nd s')" using w(1,2,3) e(7) by (intro acts_worker) simp_all
    moreover have "scheduler_ok recovers s'"
      using session_scheduled [OF sched] scheduled_cong [of s' ?s] e w(1) by (simp add: scheduler_ok_def)
    moreover have "waiting_messages s' = waiting_messages ?s" using e by (intro waiting_messages_cong) simp_all
    ultimately show ?thesis using e w(1) by (simp add: passes_def stays_closed_def)
  qed
  then show "passes recovers {} ?s s'" "worker_ok (with_session nd s')" by blast+
qed

lemma transcript_passes:
  assumes ok: "node_ok recovers nd" and runs: "run_session_op rt now ids (OpTranscript c) nd = Some nd'"
  shows "passes recovers {} (nd_session nd) (nd_session nd')" "worker_ok nd'"
proof -
  let ?s = "nd_session nd"
  have sched: "scheduler_ok recovers ?s" and worker: "worker_ok nd" using ok by (simp_all add: node_ok_def)
  have nd': "nd' = with_session nd (?s\<lparr>as_core := c\<rparr>)" "lg_revision (as_log ?s) \<le> lg_revision (co_log c)"
    "running ?s = None \<Longrightarrow> turn_failure (co_log c) = turn_failure (as_log ?s)"
    using runs by (auto simp: run_session_op_def Let_def split: if_splits)
  let ?s' = "?s\<lparr>as_core := c\<rparr>"
  have "wants_turn recovers ?s' = wants_turn recovers ?s" if "as_activity ?s = ActIdle"
    using nd'(3) that by (simp add: wants_turn_def running_def split: option.split)
  moreover have "scheduled ?s' = scheduled ?s" by (rule scheduled_cong) simp_all
  ultimately have "scheduler_ok recovers ?s'" using sched by (auto simp: scheduler_ok_def)
  moreover have "waiting_messages ?s' = waiting_messages ?s" by (intro waiting_messages_cong) simp_all
  ultimately show "passes recovers {} ?s (nd_session nd')" by (simp add: nd'(1) with_session_def passes_def stays_closed_def)
  have "moves ?s ?s'" using nd'(2) by (simp add: moves_def run_goes_on_def split: activity.split)
  then show "worker_ok nd'" unfolding nd'(1) by (rule moves_worker [OF worker])
qed

lemma take_started_passes:
  assumes ok: "node_ok recovers nd" and runs: "run_session_op rt now ids OpTakeStarted nd = Some nd'"
  shows "passes recovers {} (nd_session nd) (nd_session nd')" "worker_ok nd'"
proof -
  let ?s = "nd_session nd"
  have sched: "scheduler_ok recovers ?s" and worker: "worker_ok nd" using ok by (simp_all add: node_ok_def)
  obtain st r where st: "as_activity ?s = ActRunning r" "ar_start r = Some st" "nd_action nd = None"
      "nd' = \<lparr>nd_session = with_run ?s (\<lambda>r. r\<lparr>ar_start := None\<rparr>), nd_action = Some st\<rparr>"
    using runs by (auto simp: run_session_op_def Let_def take_started_def running_def split: option.splits if_splits activity.splits)
  show "passes recovers {} ?s (nd_session nd')"
    using run_change_passes [OF sched, of "\<lambda>r. r\<lparr>ar_start := None\<rparr>"] st(4) by simp
  show "worker_ok nd'"
    using worker st by (simp add: worker_ok_def with_run_activity acts_ok_def run_ok_def split: option.splits)
qed

lemma start_next_passes:
  assumes ok: "node_ok (rt_user_recovers rt) nd" and runs: "run_session_op rt now ids OpStartNext nd = Some nd'"
  shows "passes (rt_user_recovers rt) {} (nd_session nd) (nd_session nd')" "worker_ok nd'"
proof -
  let ?s = "nd_session nd"
  have sched: "scheduler_ok (rt_user_recovers rt) ?s" and worker: "worker_ok nd" using ok by (simp_all add: node_ok_def)
  obtain idle where idle: "as_activity ?s = ActFinishing idle" "nd' = with_session nd (start_next rt now (ids 0) ?s)"
    using runs by (auto simp: run_session_op_def Let_def split: activity.splits)
  have "unwritten_message ?s = None" using idle(1) by (simp add: unwritten_message_def)
  note waits = start_next_waits [OF this, of rt now "ids 0"]
  have next_ok: "scheduler_ok (rt_user_recovers rt) (start_next rt now (ids 0) ?s)"
    using session_scheduled [OF sched] by (intro start_next_ok) (simp_all add: scheduled_def)
  have "stays_closed ?s (start_next rt now (ids 0) ?s)" if "as_disposing ?s"
  proof -
    have "start_next rt now (ids 0) ?s = (queue_steers 0 ?s)\<lparr>as_activity := ActClosed False\<rparr>"
      using that by (simp add: start_next_def)
    then show ?thesis using that waits queue_steers_entries by (simp add: stays_closed_def)
  qed
  then show "passes (rt_user_recovers rt) {} ?s (nd_session nd')"
    using next_ok waits idle(2) by (simp add: passes_def with_session_def)
  have "moves ?s (start_next rt now (ids 0) ?s)" using idle(1) by (intro moves_start) simp
  then show "worker_ok nd'" unfolding idle(2) by (rule moves_worker [OF worker])
qed

text \<open>Each step keeps the invariant and the messages that wait; \<open>reached_ok\<close> holds of every reached state.\<close>

lemma step_passes:
  assumes ok: "node_ok recovers nd" and recovers: "rt_user_recovers rt = recovers"
    and runs: "run_session_op rt now ids op nd = Some nd'"
  shows "passes recovers (taken_back op nd) (nd_session nd) (nd_session nd')" "node_ok recovers nd'"
proof -
  have "passes recovers (taken_back op nd) (nd_session nd) (nd_session nd') \<and> worker_ok nd'"
  proof (cases op)
    case (OpCall c)
    have "answers_well recovers (withdrawn_by c (nd_session nd)) (nd_session nd) (call_session rt now ids c (nd_session nd))"
      using ok recovers by (intro call_well) (simp_all add: node_ok_def)
    then show ?thesis
      using answers_pass moves_worker [of nd] ok OpCall runs
      by (auto simp: run_session_op_def taken_back_def Let_def node_ok_def answers_well_def with_session_def)
  next
    case OpTakeStarted
    then show ?thesis using take_started_passes [OF ok] runs by (simp add: taken_back_def)
  next
    case (OpAct a)
    then obtain st r s' where "working nd = Some (st, r)" "act rt now ids a st r (nd_session nd) = Some s'" "nd' = with_session nd s'"
      using runs by (auto simp: run_session_op_def Let_def split: option.splits)
    then show ?thesis using act_passes [OF ok] OpAct by (simp add: taken_back_def with_session_def)
  next
    case (OpConclude ending)
    then obtain st r where "working nd = Some (st, r)" "conclude_action rt now ids ending st r nd = Some nd'"
      using runs by (auto simp: run_session_op_def Let_def split: option.splits)
    then show ?thesis using conclude_passes [OF ok] OpConclude by simp
  next
    case OpStartNext
    then show ?thesis using start_next_passes [of rt nd] ok recovers runs by (simp add: taken_back_def)
  next
    case (OpTranscript c)
    then show ?thesis using transcript_passes [OF ok] runs by (simp add: taken_back_def)
  qed
  then show "passes recovers (taken_back op nd) (nd_session nd) (nd_session nd')" "node_ok recovers nd'"
    by (simp_all add: passes_def node_ok_def)
qed

lemma reached_ok: "session_reaches recovers nd \<Longrightarrow> node_ok recovers nd"
proof (induction rule: session_reaches.induct)
  case (begins rt s)
  then show ?case
    by (auto simp: session_begins_def node_ok_def worker_ok_def scheduler_ok_def scheduled_def wants_turn_continuation)
next
  case (steps nd rt now ids op nd')
  then show ?case using step_passes(2) by blast
qed

end
