(* ===== verification/Session_Properties.thy ===== *)
theory Session_Properties imports Session_Runs Samples begin

text \<open>
  The properties of a session's scheduling, C33, C34 and C39 among them, over the states a session reaches with its
  worker (\<open>session_reaches\<close>).
\<close>

section \<open>Concrete sessions\<close>

definition sample_runtime :: runtime where
  "sample_runtime =
     \<lparr>rt_user_recovers = True, rt_is_below = (\<lambda>_. False), rt_end_seen = (\<lambda>_. False),
      rt_write_report = (\<lambda>r. r), rt_look = (\<lambda>_ _. None)\<rparr>"

definition sample_core :: core where
  "sample_core = \<lparr>co_log = log_new ''e'' [], co_persist = fresh_marks, co_save_asked = False, co_outbox = []\<rparr>"

definition sample_session :: agent_session where
  "sample_session =
     \<lparr>as_core = sample_core, as_id = ''n1'', as_model = sample_model, as_pending = [], as_inputs = empty_queue,
      as_watched = [], as_calls = (\<lambda>_. None), as_writing = [], as_edits = [], as_editing = None,
      as_activity = ActIdle, as_held = False, as_passed_failure = None, as_disposing = False,
      as_waiting_since = None, as_answers = []\<rparr>"

definition sample_message :: "string \<Rightarrow> queued_message" where
  "sample_message i = \<lparr>qm_id = i, qm_content = [CText i], qm_comments = [], qm_schedule = None\<rparr>"

definition sample_ids :: "nat \<Rightarrow> string" where
  "sample_ids n = ''f'' @ replicate n CHR ''x''"

fun run_session_ops :: "session_op list \<Rightarrow> session_node \<Rightarrow> session_node option" where
  "run_session_ops [] nd = Some nd"
| "run_session_ops (op # ops) nd =
     (case run_session_op sample_runtime 9 sample_ids op nd of None \<Rightarrow> None | Some nd' \<Rightarrow> run_session_ops ops nd')"

definition sample_node :: "session_op list \<Rightarrow> session_node" where
  "sample_node ops = the (run_session_ops ops \<lparr>nd_session = sample_session, nd_action = None\<rparr>)"

definition sample_runs :: "session_op list \<Rightarrow> bool" where
  "sample_runs ops = (\<not> Option.is_none (run_session_ops ops \<lparr>nd_session = sample_session, nd_action = None\<rparr>))"

lemma run_ops_reach: "session_reaches True nd \<Longrightarrow> run_session_ops ops nd = Some nd' \<Longrightarrow> session_reaches True nd'"
proof (induction ops arbitrary: nd)
  case (Cons op ops)
  then obtain nd1 where "run_session_op sample_runtime 9 sample_ids op nd = Some nd1" "run_session_ops ops nd1 = Some nd'"
    by (auto split: option.splits)
  moreover have "session_reaches True nd1"
    by (rule steps [OF Cons.prems(1) _ calculation(1)]) (simp add: sample_runtime_def)
  ultimately show ?case using Cons.IH by blast
qed simp

lemma sample_reached:
  assumes "sample_runs ops"
  shows "session_reaches True (sample_node ops)"
proof -
  have "\<not> wants_continuation sample_runtime sample_session"
    by (simp add: wants_continuation_def sample_session_def empty_queue_def has_report_def has_agent_input_def)
  then have "session_begins sample_runtime sample_session"
    by (simp add: session_begins_def sample_session_def empty_queue_def waiting_steers_def map_filter_simps counted_def)
  then have "session_reaches True \<lparr>nd_session = sample_session, nd_action = None\<rparr>"
    by (rule begins) (simp add: sample_runtime_def)
  moreover have "run_session_ops ops \<lparr>nd_session = sample_session, nd_action = None\<rparr> = Some (sample_node ops)"
    using assms by (auto simp: sample_runs_def sample_node_def Option.is_none_def)
  ultimately show ?thesis by (rule run_ops_reach)
qed

lemma run_ops_snoc:
  "run_session_ops (ops @ [op]) nd =
     (case run_session_ops ops nd of None \<Rightarrow> None | Some nd' \<Rightarrow> run_session_op sample_runtime 9 sample_ids op nd')"
  by (induction ops arbitrary: nd) (auto split: option.splits)

lemma sample_next:
  assumes "sample_runs (ops @ [op])"
  shows "run_session_op sample_runtime 9 sample_ids op (sample_node ops) = Some (sample_node (ops @ [op]))"
  using assms by (auto simp: sample_runs_def sample_node_def run_ops_snoc Option.is_none_def split: option.splits)

text \<open>Two messages, one of which runs and the other waits, and a steer.\<close>

definition sample_busy :: "session_op list" where
  "sample_busy =
     [OpCall (CallSend (sample_message ''t2'')), OpTakeStarted, OpCall (CallSend (sample_message ''t3'')),
      OpCall (CallSteer ''s1'' [CText ''also''] [])]"


lemmas session_eval =
  run_session_op_def call_session_def with_session_def admit_send_def refuse_admission_def preparing_edit_def
  knows_turn_def running_def has_user_turn_def push_action_def start_next_def start_action_def start_waiting_def
  is_send_def take_started_def with_run_def session_steer_def add_to_inputs_def add_input_def note_admitted_def
  has_steer_def holds_steer_def log_position_def sample_session_def sample_core_def sample_message_def empty_queue_def
  log_new_def no_earlier_def has_user_turn_before_def holds_steer_before_def is_steer_of_def Let_def
  begin_dispose_def cancel_run_def sample_runs_def sample_node_def sample_busy_def answer_def

lemma sample_settled: "session_reaches True (sample_node [])"
  by (rule sample_reached) (simp add: sample_runs_def)

lemma sample_busy_reached: "session_reaches True (sample_node sample_busy)"
  by (rule sample_reached) (simp add: session_eval)

section \<open>The messages a session keeps\<close>

definition steer_message :: "pending_steer \<Rightarrow> queued_message" where
  "steer_message st = \<lparr>qm_id = ps_id st, qm_content = ps_content st, qm_comments = ps_comments st, qm_schedule = None\<rparr>"

definition the_one :: "'a option \<Rightarrow> 'a list" where
  "the_one x = (case x of Some y \<Rightarrow> [y] | None \<Rightarrow> [])"

lemma queued_steer [simp]: "queued_message_of (steer_action st) = Some (steer_message st)"
  by (simp add: queued_message_of_def steer_action_def steer_message_def)

lemma queued_steers: "List.map_filter queued_message_of (map steer_action sts) = map steer_message sts"
  by (induction sts) (simp_all add: map_filter_simps)

lemma closed_as_queue:
  "ahead \<le> length (as_pending s) \<Longrightarrow>
     queued_messages (closed_as ahead began s)
       = List.map_filter queued_message_of (take ahead (as_pending s)) @ map steer_message (waiting_steers (as_inputs s))
         @ List.map_filter queued_message_of (drop ahead (as_pending s))"
  by (simp add: queued_messages_def closed_as_facts map_filter_append queued_steers)

text \<open>An interrupted action leaves the queue and the waiting input as they were.\<close>

lemma abort_calls_inputs: "as_inputs (foldl (abort_call rt now e) s calls) = as_inputs s"
proof (induction calls arbitrary: s)
  case (Cons call calls)
  have "as_inputs (abort_call rt now e s call) = as_inputs s"
    by (simp add: abort_call_def watch_command_def Let_def split: option.split call_end.split)
  with Cons show ?case by simp
qed simp

lemma interrupted_inputs:
  assumes "record_stop rt now f1 f2 f3 CancelShutdown s = Some s1" "as_activity s = ActRunning r"
    and "\<And>m. ar_unwritten r = Some m \<Longrightarrow> qm_id m = ar_turn r"
  shows "as_inputs s1 = as_inputs s" "as_pending s1 = as_pending s"
proof -
  let ?s1 = "settled_stop (f1, now) CancelShutdown s"
  have kept: "as_inputs ?s1 = as_inputs s" "as_pending ?s1 = as_pending s"
    using settled_stop_facts(1,8) [OF assms(2,3), where st = "(f1, now)" and reason = CancelShutdown] by simp_all
  have "s1 = (append_interruption (f3, now) (abort_executing_calls rt now CallShutdown ?s1))
      \<lparr>as_core := commit (as_core (append_interruption (f3, now) (abort_executing_calls rt now CallShutdown ?s1)))\<rparr>"
    using assms(1) by (simp add: record_stop_def settled_stop_def Let_def)
  then show "as_inputs s1 = as_inputs s" "as_pending s1 = as_pending s"
    using kept wroteD(1) [OF record_stop_wrote [OF assms(1)]]
    by (simp_all add: append_interruption_def abort_executing_calls_def abort_calls_inputs)
qed

lemma waiting_message_of_action:
  "acts_ok s st r \<Longrightarrow> ar_unwritten r = Some m \<Longrightarrow>
     queued_message_of \<lparr>pn_kind = st_kind st, pn_turn = st_turn st, pn_reply = b\<rparr> = Some m"
  by (auto simp: acts_ok_def run_ok_def queued_message_of_def split: action_kind.splits)

lemma shut_down_queue:
  assumes "node_ok recovers nd" "working nd = Some (st, r)" "ar_cancelled r = Some CancelShutdown"
    and "shut_down rt now f1 f2 f3 (st_kind st) (st_turn st) (nd_session nd) = Some (b, s')"
  shows "queued_messages s' =
    (if action_began (nd_session nd) then [] else the_one (starting_message (nd_session nd)))
      @ map steer_message (waiting_steers (as_inputs (nd_session nd))) @ queued_messages (nd_session nd)"
proof -
  let ?s = "nd_session nd"
  note w = working_ok [OF assms(1) [unfolded node_ok_def, THEN conjunct2] assms(2)]
  have starting: "starting_message ?s = ar_unwritten r" using w(1) by (simp add: starting_message_def running_def)
  show ?thesis
  proof (rule shut_down_cases [OF assms(4)], goal_cases interrupted message other)
    case (interrupted s1)
    have "as_inputs s1 = as_inputs ?s" "as_pending s1 = as_pending ?s"
      using interrupted_inputs [OF interrupted(2), of r] w(1) acts_named [OF w(4)] by simp_all
    with interrupted show ?case by (simp add: closed_as_queue [unfolded queued_messages_def] queued_messages_def map_filter_simps)
  next
    case (message content comments schedule)
    have "starts_a_send st" using message(2) by (simp add: starts_a_send_def)
    then obtain m where m: "ar_unwritten r = Some m"
      using w(1,4) message(1) by (cases "ar_unwritten r") (auto simp: acts_ok_def run_ok_def action_began_def running_def)
    from waiting_message_of_action [OF w(4) m] message m starting show ?case
      by (simp add: closed_as_queue [unfolded queued_messages_def] queued_messages_def the_one_def map_filter_simps)
  next
    case other
    then have "ar_unwritten r = None"
      using acts_unsent [OF w(4)] by (simp add: starts_a_send_def is_send_def)
    with other starting show ?case by (simp add: closed_as_queue [unfolded queued_messages_def] queued_messages_def the_one_def map_filter_simps)
  qed
qed

section \<open>What a boundary writes\<close>

definition reports_told :: "block \<Rightarrow> command_report list" where
  "reports_told b = (case b of Wakeup w \<Rightarrow> w_reports w | _ \<Rightarrow> [])"

definition told :: "block \<Rightarrow> block_id \<times> command_report list" where
  "told b = (id_of b, reports_told b)"

text \<open>What the inputs a boundary takes become, block for block: the reports are all where the first of them stood.\<close>

fun tells :: "block_id \<Rightarrow> command_report list \<Rightarrow> input list \<Rightarrow> (block_id \<times> command_report list) list" where
  "tells fresh reports [] = []"
| "tells fresh reports (InSteer st # is) = (ps_id st, []) # tells fresh reports is"
| "tells fresh reports (InAgent i # is) = (am_id (pi_message i), []) # tells fresh reports is"
| "tells fresh reports (InReport r opens # is) =
     (if reports = [] then tells fresh [] is else (fresh, reports) # tells fresh [] is)"

lemma told_set [simp]: "told (set_run r b) = told b" "told (set_request q b) = told b"
  by (cases b; simp add: told_def reports_told_def)+

lemma told_blocks [simp]:
  "told (Steer x) = (block_id x, [])" "told (Wakeup w) = (block_id w, w_reports w)" "told (AgentMessage m) = (block_id m, [])"
  by (simp_all add: told_def reports_told_def)

lemma append_received_told: "map told (lg_blocks (append_received l b below)) = map told (lg_blocks l) @ [told b]"
  by (simp add: append_received_def Let_def note_end_blocks note_input_blocks)

lemma write_each_told:
  "map told (lg_blocks (write_each rt now fresh turn model reports l is))
     = map told (lg_blocks l) @ tells fresh (map (rt_write_report rt) reports) is"
proof (induction "is" arbitrary: l reports)
  case (Cons i "is")
  then show ?case
    by (cases i) (auto simp: push_steer_def push_wakeup_def push_agent_message_def append_block_def
        append_received_told)
qed simp

section \<open>Sending twice\<close>

lemma start_next_knows:
  assumes "a \<in> set (as_pending s)" "is_send a" "\<not> as_disposing s"
  shows "knows_turn (start_next rt now fresh s) (pn_turn a)"
proof (cases rt now fresh s rule: start_next_cases [case_names closes steer action continuation idle])
  case (action b later)
  show ?thesis
  proof (cases "a = b")
    case True
    then show ?thesis using action(3) by (simp add: knows_turn_def running_def fresh_run_def)
  next
    case False
    then have "a \<in> set later" using assms(1) action(2) by simp
    then show ?thesis using action(3) assms(2) by (auto simp: knows_turn_def list_ex_iff)
  qed
next
  case (steer st q)
  then show ?thesis using assms by (auto simp: knows_turn_def list_ex_iff)
qed (use assms in simp_all)

lemma push_send_knows:
  assumes "\<not> as_disposing s"
  shows "knows_turn (push_action rt now fresh s (SendAction content comments schedule) i reply) i"
proof -
  let ?a = "\<lparr>pn_kind = SendAction content comments schedule, pn_turn = i, pn_reply = reply\<rparr>"
  let ?s = "s\<lparr>as_pending := as_pending s @ [?a]\<rparr>"
  have "knows_turn (start_next rt now fresh ?s) (pn_turn ?a)"
    using assms by (intro start_next_knows) (simp_all add: is_send_def)
  moreover have "knows_turn ?s i" by (auto simp: knows_turn_def is_send_def)
  ultimately show ?thesis by (simp add: push_action_def Let_def split: activity.split)
qed

lemma refuse_cong: "as_disposing s' = as_disposing s \<Longrightarrow> as_editing s' = as_editing s \<Longrightarrow> refuse_admission s' = refuse_admission s"
  by (simp add: refuse_admission_def preparing_edit_def)

lemma start_next_editing: "as_editing (start_next rt now fresh s) = as_editing s" "as_disposing (start_next rt now fresh s) = as_disposing s"
proof -
  have "as_editing (write_into_failed_turn rt now fresh s) = as_editing s" "as_disposing (write_into_failed_turn rt now fresh s) = as_disposing s" for s
    using wroteD(2,5) [OF write_inputs_into_wrote] by (auto simp: write_into_failed_turn_def split: option.split)
  then show "as_editing (start_next rt now fresh s) = as_editing s" "as_disposing (start_next rt now fresh s) = as_disposing s"
    by (cases rt now fresh s rule: start_next_cases; simp)+
qed

section \<open>The properties\<close>

text \<open>
  C33. In whatever order a session is called and its worker acts, it never rests with work left: an
  idle session has no action waiting, no steer, and no report or agent message that would open a
  turn, and is not being disposed; a closed one keeps no steer outside its queue, and its queue holds
  messages alone. The count of arrived inputs is never below what waits.
\<close>

theorem idle_session_has_nothing_to_run:
  assumes "session_reaches (rt_user_recovers rt) nd"
  shows "(case as_activity (nd_session nd) of
      ActIdle \<Rightarrow> as_pending (nd_session nd) = [] \<and> waiting_steers (as_inputs (nd_session nd)) = []
        \<and> \<not> wants_continuation rt (nd_session nd) \<and> \<not> as_disposing (nd_session nd)
    | ActClosed _ \<Rightarrow> waiting_steers (as_inputs (nd_session nd)) = [] \<and> list_all is_send (as_pending (nd_session nd))
    | _ \<Rightarrow> True)
    \<and> length (iq_entries (as_inputs (nd_session nd))) \<le> iq_arrivals (as_inputs (nd_session nd))"
proof -
  have "scheduler_ok (rt_user_recovers rt) (nd_session nd)" using reached_ok [OF assms] by (simp add: node_ok_def)
  then show ?thesis by (simp add: scheduler_ok_def scheduled_def counted_def wants_turn_continuation split: activity.splits)
qed

theorem idle_session_has_nothing_to_run_witness:
  "as_activity (nd_session (sample_node [])) = ActIdle \<and> \<not> wants_continuation sample_runtime (nd_session (sample_node []))"
  using idle_session_has_nothing_to_run [of sample_runtime "sample_node []"] sample_settled
  by (simp add: sample_runtime_def sample_node_def sample_session_def)

text \<open>
  C34. No step of a session or its worker loses a message the user sent it: a message that waits, in
  the queue, as a steer or as the start of the turn that runs, still waits afterwards, or is a block
  of the transcript, unless the step took it back by the user's own call (a withdrawal, a cleared
  queue, a Stop that removes or gives back), or a shutdown interrupted the action that had not
  written it although the transcript had changed since that action started.
\<close>

theorem no_step_loses_a_message:
  assumes "session_reaches (rt_user_recovers rt) nd" "run_session_op rt now ids op nd = Some nd'"
    and "i \<in> waiting_messages (nd_session nd)"
  shows "i \<in> waiting_messages (nd_session nd') \<or> has_user_turn (as_log (nd_session nd')) i
    \<or> holds_steer (as_log (nd_session nd')) i \<or> i \<in> taken_back op nd"
  using step_passes(1) [OF reached_ok [OF assms(1)] refl assms(2)] assms(3)
  unfolding passes_def holds_message_def by blast

theorem no_step_loses_a_message_witness:
  "''t2'' \<in> waiting_messages (nd_session (sample_node (sample_busy @ [OpCall CallDispose])))"
proof -
  have "sample_runs (sample_busy @ [OpCall CallDispose])" by (simp add: session_eval)
  note step = no_step_loses_a_message [where rt = sample_runtime, OF _ sample_next [OF this], of "''t2''"]
  have "''t2'' \<in> waiting_messages (nd_session (sample_node sample_busy))"
    by (simp add: waiting_messages_def unwritten_message_def session_eval waiting_steers_def map_filter_simps)
  moreover have "taken_back (OpCall CallDispose) nd = {}" for nd by (simp add: taken_back_def)
  moreover have "\<not> has_user_turn (as_log (nd_session (sample_node (sample_busy @ [OpCall CallDispose])))) ''t2''"
    "\<not> holds_steer (as_log (nd_session (sample_node (sample_busy @ [OpCall CallDispose])))) ''t2''"
    by (simp_all add: session_eval)
  ultimately show ?thesis using step sample_busy_reached by (simp add: sample_runtime_def)
qed

text \<open>
  A session being disposed admits nothing and starts nothing: whatever is called and whatever
  its worker does, it stays so, no turn starts that did not run, and neither a message nor any
  other input waits that did not wait before.
\<close>

theorem disposed_session_admits_nothing:
  assumes "session_reaches (rt_user_recovers rt) nd" "run_session_op rt now ids op nd = Some nd'"
    and "as_disposing (nd_session nd)"
  shows "as_disposing (nd_session nd') \<and> (running (nd_session nd) = None \<longrightarrow> running (nd_session nd') = None)
    \<and> waiting_messages (nd_session nd') \<subseteq> waiting_messages (nd_session nd)
    \<and> set (iq_entries (as_inputs (nd_session nd'))) \<subseteq> set (iq_entries (as_inputs (nd_session nd)))"
proof -
  have closed: "stays_closed (nd_session nd) (nd_session nd')"
    using step_passes(1) [OF reached_ok [OF assms(1)] refl assms(2)] assms(3) by (simp add: passes_def)
  then have "running (nd_session nd) = None \<longrightarrow> running (nd_session nd') = None"
    by (auto simp: stays_closed_def running_def split: activity.splits)
  with closed show ?thesis by (simp add: stays_closed_def)
qed

theorem disposed_session_admits_nothing_witness:
  "as_disposing (nd_session (sample_node (sample_busy @ [OpCall CallDispose] @ [OpCall (CallSend (sample_message ''t4''))])))"
proof -
  have runs: "sample_runs (sample_busy @ [OpCall CallDispose])"
    "sample_runs ((sample_busy @ [OpCall CallDispose]) @ [OpCall (CallSend (sample_message ''t4''))])"
    by (simp_all add: session_eval)
  have "as_disposing (nd_session (sample_node (sample_busy @ [OpCall CallDispose])))" by (simp add: session_eval)
  from disposed_session_admits_nothing [where rt = sample_runtime, OF _ sample_next [OF runs(2)] this]
  show ?thesis using sample_reached [OF runs(1)] by (simp add: sample_runtime_def)
qed

text \<open>
  A session that shuts down while an action runs keeps the messages that wait in its queue, which
  its checkpoint saves, in the order they would have run: the message the action had not begun
  with, then the steers as they came, then the queue as it was.
\<close>

theorem shutdown_keeps_the_queue:
  assumes "session_reaches (rt_user_recovers rt) nd" "run_session_op rt now ids (OpConclude ShutDown) nd = Some nd'"
  shows "queued_messages (nd_session nd') =
    (if action_began (nd_session nd) then []
     else case starting_message (nd_session nd) of Some m \<Rightarrow> [m] | None \<Rightarrow> [])
      @ map steer_message (waiting_steers (as_inputs (nd_session nd))) @ queued_messages (nd_session nd)"
proof -
  obtain st r b s' where "working nd = Some (st, r)" "ar_cancelled r = Some CancelShutdown"
      "shut_down rt now (ids 0) (ids 1) (ids 2) (st_kind st) (st_turn st) (nd_session nd) = Some (b, s')" "nd_session nd' = s'"
    using assms(2) by (auto simp: run_session_op_def conclude_action_def Let_def split: option.splits if_splits)
  then show ?thesis using shut_down_queue [OF reached_ok [OF assms(1)]] by (simp add: the_one_def)
qed

theorem shutdown_keeps_the_queue_witness:
  "map qm_id (queued_messages (nd_session (sample_node ((sample_busy @ [OpCall CallDispose]) @ [OpConclude ShutDown]))))
     = [''t2'', ''s1'', ''t3'']"
proof -
  let ?ops = "sample_busy @ [OpCall CallDispose]"
  have runs: "sample_runs ?ops" by (simp add: session_eval)
  have "\<not> Option.is_none (run_session_op sample_runtime 9 sample_ids (OpConclude ShutDown) (sample_node ?ops))"
    by (simp add: session_eval working_def conclude_action_def is_switch_def shut_down_def action_began_def)
  then have "sample_runs (?ops @ [OpConclude ShutDown])"
    using runs by (auto simp: sample_runs_def sample_node_def run_ops_snoc Option.is_none_def simp del: append_assoc)
  note step = shutdown_keeps_the_queue [where rt = sample_runtime, OF _ sample_next [OF this]]
  have reached: "session_reaches (rt_user_recovers sample_runtime) (sample_node ?ops)"
    using sample_reached [OF runs] by (simp add: sample_runtime_def)
  show ?thesis
    unfolding step [OF reached]
    by (simp add: session_eval action_began_def starting_message_def waiting_steers_def map_filter_simps
        steer_message_def queued_messages_def queued_message_of_def)
qed

text \<open>
  A message is run once however often it is sent: once a session admitted it, as a turn that
  started or as a message of the queue, or knew it already, sending it again with nothing between is
  acknowledged as a duplicate, and changes nothing but that answer.
\<close>

theorem message_sent_again_runs_once:
  assumes "admit_send rt now fresh s m = (None, s')"
  shows "admit_send rt' now' fresh' s' m = (None, s'\<lparr>as_answers := as_answers s' @ [(qm_id m, EndDuplicate)]\<rparr>)"
proof -
  have live: "refuse_admission s = None" using assms by (simp add: admit_send_def split: option.splits)
  show ?thesis
  proof (cases "knows_turn s (qm_id m)")
    case True
    then have s': "s' = s\<lparr>as_answers := as_answers s @ [(qm_id m, EndDuplicate)]\<rparr>" using assms live by (simp add: admit_send_def)
    then have "refuse_admission s' = None" "knows_turn s' (qm_id m)"
      using live True refuse_cong [of s' s] by (simp_all add: knows_turn_def running_def)
    then show ?thesis by (simp add: admit_send_def)
  next
    case False
    then have s': "s' = push_action rt now fresh s (SendAction (qm_content m) (qm_comments m) (qm_schedule m)) (qm_id m) True"
      using assms live by (simp add: admit_send_def)
    then have "knows_turn s' (qm_id m)" using push_send_knows refused [OF live] by simp
    moreover have "refuse_admission s' = None"
      using live refuse_cong [of s' s] s' by (simp add: push_action_def Let_def start_next_editing split: activity.split)
    ultimately show ?thesis by (simp add: admit_send_def)
  qed
qed

theorem message_sent_again_runs_once_witness:
  "admit_send sample_runtime 10 ''f'' (snd (admit_send sample_runtime 9 ''f'' sample_session (sample_message ''t2''))) (sample_message ''t2'')
     = (None, (snd (admit_send sample_runtime 9 ''f'' sample_session (sample_message ''t2'')))\<lparr>as_answers := [(''t2'', EndDuplicate)]\<rparr>)"
proof -
  have "admit_send sample_runtime 9 ''f'' sample_session (sample_message ''t2'')
      = (None, snd (admit_send sample_runtime 9 ''f'' sample_session (sample_message ''t2'')))"
    "as_answers (snd (admit_send sample_runtime 9 ''f'' sample_session (sample_message ''t2''))) = []"
    by (simp_all add: session_eval)
  from message_sent_again_runs_once [OF this(1), of sample_runtime 10 "''f''"] this(2)
  show ?thesis by (simp add: sample_message_def)
qed

text \<open>
  A boundary writes what it takes in the order it came, one block for each steer and agent
  message, and one for all the command reports, where the first of them stood; it takes nothing
  else, drops only the ends a look already showed, and says whether an agent message was among it.
\<close>

theorem boundary_writes_what_came:
  assumes "write_inputs rt now fresh s t = Some (b, s')"
  defines "live \<equiv> filter (\<lambda>i. case i of InReport r _ \<Rightarrow> \<not> end_seen rt r | _ \<Rightarrow> True) (iq_entries (as_inputs s))"
  shows "map told (lg_blocks (as_log s'))
      = map told (lg_blocks (as_log s))
        @ tells fresh (map (rt_write_report rt) (reports_in (filter (takes t) live))) (filter (takes t) live)
    \<and> iq_entries (as_inputs s') = filter (Not \<circ> takes t) live
    \<and> b = list_ex is_agent_input (filter (takes t) live)"
proof -
  obtain turn where boundary: "write_inputs_into rt now fresh s turn t = (b, s')"
    using assms(1) by (auto simp: write_inputs_def split: option.splits)
  let ?s1 = "drop_seen_ends rt s"
  have live: "iq_entries (as_inputs ?s1) = live" by (simp add: drop_seen_ends_def retain_reports_facts live_def)
  have entries: "iq_entries (as_inputs s') = filter (Not \<circ> takes t) live"
    using boundary write_inputs_into_rest [of rt now fresh s turn t] live by simp
  let ?taken = "filter (takes t) live"
  show ?thesis
  proof (cases "?taken = []")
    case True
    with boundary live entries show ?thesis by (auto simp: write_inputs_into_def take_inputs_def Let_def)
  next
    case False
    let ?l = "write_each rt now fresh turn (as_model s) (reports_in ?taken) (as_log s) ?taken"
    have "b = list_ex is_agent_input ?taken" "\<exists>s2. s' = written s2 ?l"
      using boundary live False by (auto simp: write_inputs_into_def take_inputs_def Let_def)
    moreover have "lg_blocks (as_log (written s2 l)) = lg_blocks l" for s2 l
      using take_patches_fields(1) [of l] by (simp add: written_def commit_log prod_eq_iff)
    ultimately show ?thesis using entries by (auto simp: write_each_told)
  qed
qed

theorem boundary_writes_what_came_witness:
  "\<exists>s'. write_inputs sample_runtime 9 ''f'' (nd_session (sample_node sample_busy)) Everything = Some (False, s')
     \<and> map told (lg_blocks (as_log s')) = [(''s1'', [])] \<and> iq_entries (as_inputs s') = []"
proof -
  let ?s = "nd_session (sample_node sample_busy)"
  obtain b s' where some: "write_inputs sample_runtime 9 ''f'' ?s Everything = Some (b, s')"
    by (cases "write_inputs sample_runtime 9 ''f'' ?s Everything") (auto simp: write_inputs_def session_eval)
  have "iq_entries (as_inputs ?s) = [InSteer \<lparr>ps_id = ''s1'', ps_turn_id = ''t2'', ps_model = sample_model,
      ps_content = [CText ''also''], ps_comments = []\<rparr>]" "lg_blocks (as_log ?s) = []"
    by (simp_all add: session_eval)
  with boundary_writes_what_came [OF some] some show ?thesis by simp
qed


end
