(* ===== verification/Replay_Facts.thy ===== *)
theory Replay_Facts imports Replay "HOL-Library.Sublist" begin

text \<open>
  What replay keeps: a text is cut between characters, a view holds what its blocks name, the items
  are those of each block in turn, and they depend on what the model reads of the blocks alone.
\<close>

section \<open>Strings of characters\<close>

lemma utf8_step_append: "utf8_step a = Some (Scalar c r) \<Longrightarrow> utf8_step (a @ b) = Some (Scalar c (r @ b))"
  by (cases a) (auto split: if_splits list.splits)

lemma utf8_append: "utf8_scalars a = Some x \<Longrightarrow> utf8_scalars (a @ b) = map_option ((@) x) (utf8_scalars b)"
proof (induction a arbitrary: x rule: utf8_scalars.induct)
  case (1 a)
  show ?case
  proof (cases "utf8_step a")
    case None
    then have "a = []" by (cases a) auto
    with "1.prems" show ?thesis by (simp add: utf8_scalars.simps [of "[]"] option.map_ident)
  next
    case (Some st)
    with "1.prems" obtain c r y where st: "st = Scalar c r" and r: "utf8_scalars r = Some y" and x: "x = c # y"
      by (cases st) (auto simp: utf8_scalars.simps [of a] split: option.splits)
    have "utf8_scalars (r @ b) = map_option ((@) y) (utf8_scalars b)" using "1.IH" [OF Some st r] .
    then show ?thesis
      using utf8_step_append [of a c r b] Some st x
      by (simp add: utf8_scalars.simps [of "a @ b"] option.map_comp comp_def)
  qed
qed

lemma offset_in_splits:
  "utf8_scalars bs = Some cs \<Longrightarrow>
     utf8_scalars (take (offset_in n bs) bs) = Some (take n cs) \<and> utf8_scalars (drop (offset_in n bs) bs) = Some (drop n cs)"
proof (induction n arbitrary: bs cs)
  case 0
  then show ?case by (simp add: utf8_scalars.simps [of "[]"])
next
  case (Suc n)
  show ?case
  proof (cases "utf8_step bs")
    case None
    then have "bs = []" by (cases bs) auto
    with Suc.prems show ?thesis by (simp add: utf8_scalars.simps [of "[]"])
  next
    case (Some st)
    with Suc.prems obtain c r y where st: "utf8_step bs = Some (Scalar c r)" and r: "utf8_scalars r = Some y" and cs: "cs = c # y"
      by (cases st) (auto simp: utf8_scalars.simps [of bs] split: option.splits)
    obtain p where bs: "bs = p @ r" using utf8_step_suffix [OF st] by blast
    then have p: "length bs - length r = length p" by simp
    have "utf8_step (p @ take (offset_in n r) r) = Some (Scalar c (take (offset_in n r) r))"
      using utf8_step_again [OF st, of "take (offset_in n r) r"] bs by simp
    then have "utf8_scalars (p @ take (offset_in n r) r) = Some (c # take n y)"
      using Suc.IH [OF r] by (simp add: utf8_scalars.simps [of "p @ _"])
    then show ?thesis using st bs p cs Suc.IH [OF r] by simp
  qed
qed

lemma str_bytes_split: "str_bytes (take n s) = take n (str_bytes s)" "str_bytes (drop n s) = drop n (str_bytes s)"
    "str_bytes (a @ b) = str_bytes a @ str_bytes b"
  by (simp_all add: str_bytes_def take_map drop_map)

lemma is_str_append:
  assumes "is_str a" "is_str b"
  shows "is_str (a @ b)" "chars (a @ b) = chars a @ chars b"
  using assms by (auto simp: is_str_def valid_utf8_def chars_def str_bytes_split utf8_append)

lemma char_offset_splits:
  assumes "is_str s"
  shows "is_str (take (char_offset s n) s)" "chars (take (char_offset s n) s) = take n (chars s)"
    and "is_str (drop (char_offset s n) s)" "chars (drop (char_offset s n) s) = drop n (chars s)"
  using assms offset_in_splits [of "str_bytes s" _ n]
  by (auto simp: is_str_def valid_utf8_def chars_def str_bytes_split char_offset_def)

definition ascii :: "string \<Rightarrow> bool" where
  "ascii s = list_all (\<lambda>c. of_char c < (128 :: nat)) s"

lemma ascii_append [simp]: "ascii (a @ b) = (ascii a \<and> ascii b)"
  by (simp add: ascii_def)

lemma ascii_chars: "ascii s \<Longrightarrow> chars s = str_bytes s"
proof -
  have "list_all (\<lambda>b. b < 128) bs \<Longrightarrow> utf8_scalars bs = Some bs" for bs
  proof (induction bs)
    case Nil
    show ?case by (simp add: utf8_scalars.simps)
  next
    case (Cons b bs)
    then show ?case by (simp add: utf8_scalars.simps [of "b # bs"])
  qed
  then show "ascii s \<Longrightarrow> chars s = str_bytes s"
    by (simp add: chars_def str_bytes_def ascii_def list_all_iff)
qed

lemma ascii_string: "ascii s \<Longrightarrow> is_str s"
  unfolding ascii_def by (rule ascii_is_str)

lemma ascii_show_nat: "ascii (show_nat n)"
proof (induction n rule: show_nat.induct)
  case (1 n)
  have digit: "m < 10 \<Longrightarrow> of_char (char_of (48 + m) :: char) < (128 :: nat)" for m :: nat
    by (simp add: of_char_of)
  show ?case
  proof (cases "n < 10")
    case True
    with digit show ?thesis by (subst show_nat.simps) (simp add: ascii_def)
  next
    case False
    then have "ascii (show_nat (n div 10))" by (rule "1")
    with False digit [of "n mod 10"] show ?thesis by (subst show_nat.simps) (simp add: ascii_def)
  qed
qed

definition cut_note :: "nat \<Rightarrow> string" where
  "cut_note omitted = LF2 @ ''[... truncated '' @ show_nat omitted @ '' characters ...]'' @ LF2"

lemma cut_note_ascii: "ascii (cut_note n)"
  using ascii_show_nat [of n] by (simp add: cut_note_def LF2_def ascii_def)

lemma bound_text_chars:
  assumes "is_str text" "REPLAY_CHARS < length (chars text)"
  shows "is_str (bound_text text)"
    "chars (bound_text text) = take HEAD_CHARS (chars text) @ chars (cut_note (length (chars text) - REPLAY_CHARS))
       @ drop (length (chars text) - TAIL_CHARS) (chars text)"
proof -
  let ?n = "length (chars text)"
  have marks: "is_str (cut_note m)" for m by (rule ascii_string [OF cut_note_ascii])
  have form: "bound_text text = take (char_offset text HEAD_CHARS) text @ cut_note (?n - REPLAY_CHARS)
      @ drop (char_offset text (?n - TAIL_CHARS)) text"
    using assms(2) by (simp add: bound_text_def Let_def cut_note_def REPLAY_CHARS_def diff_diff_left)
  show "is_str (bound_text text)"
    unfolding form using assms(1) marks by (simp add: is_str_append char_offset_splits)
  show "chars (bound_text text) = take HEAD_CHARS (chars text) @ chars (cut_note (?n - REPLAY_CHARS))
       @ drop (?n - TAIL_CHARS) (chars text)"
    unfolding form using assms(1) marks by (simp add: is_str_append char_offset_splits)
qed

section \<open>A view holds what its blocks name\<close>

lemma unheld_Nil: "unheld m blocks = [] \<longleftrightarrow> (\<forall>b\<in>set blocks. \<forall>blob\<in>set (references b). m blob \<noteq> None)"
proof -
  have fold: "set (fold (\<lambda>blob found. if m blob = None \<and> blob \<notin> set found then found @ [blob] else found) xs acc)
      = set acc \<union> {blob \<in> set xs. m blob = None}" for xs acc
    by (induction xs arbitrary: acc) auto
  show ?thesis using fold [of "concat (map references blocks)" "[]"] by (auto simp: unheld_def set_empty [symmetric])
qed

lemma view_of_holds:
  assumes "model_view_of start blocks m = Inr v" "b \<in> set blocks" "blob \<in> set (references b)"
  shows "mv_media v blob = m blob" "m blob \<noteq> None"
  using assms unheld_Nil [of m blocks] by (auto simp: model_view_of_def select_media_def split: if_splits)

lemma view_of_blocks: "model_view_of start blocks m = Inr v \<Longrightarrow> mv_blocks v = blocks \<and> mv_start v = start"
  by (auto simp: model_view_of_def split: if_splits)

text \<open>The media of comments are those of the content they become.\<close>

lemma content_sources_simps [simp]:
  "content_sources [] = []"
  "content_sources (p # ps) = (case content_source p of Some s \<Rightarrow> s # content_sources ps | None \<Rightarrow> content_sources ps)"
  "content_sources (ps @ qs) = content_sources ps @ content_sources qs"
  by (simp_all add: content_sources_def map_filter_simps map_filter_def split: option.splits)

lemma push_text_sources: "content_sources (push_text content text) = content_sources content"
proof (cases content rule: rev_cases)
  case (snoc ys y)
  then show ?thesis by (cases y) (simp_all add: push_text_def)
qed (simp add: push_text_def)

lemma push_part_sources: "content_sources (push_part content p) = content_sources content @ content_sources [p]"
  by (cases p) (simp_all add: push_text_sources)

lemma comments_content_sources: "content_sources (comments_content cs) = comment_sources cs"
proof -
  have parts: "content_sources (foldl push_part acc ps) = content_sources acc @ content_sources ps" for acc ps
    by (induction ps arbitrary: acc) (simp_all add: push_part_sources split: option.splits)
  have "content_sources (push_comment acc c) = content_sources acc
      @ (case cm_picture c of Some p \<Rightarrow> [MediaSource p] | None \<Rightarrow> []) @ content_sources (cm_content c)" for acc c
    by (simp add: push_comment_def parts push_text_sources split: option.splits)
  then have "content_sources (foldl push_comment acc cs) = content_sources acc @ comment_sources cs" for acc
    by (induction cs arbitrary: acc) (simp_all add: comment_sources_def)
  from this [of "[]"] show ?thesis by (simp add: comments_content_def)
qed

section \<open>The items are those of each block in turn\<close>

text \<open>The items of each block, where \<open>kept\<close> are the positions kept past the summary.\<close>

fun loop_parts ::
  "json_codec \<Rightarrow> request_view \<Rightarrow> nat \<times> nat \<Rightarrow> nat \<Rightarrow> block list \<Rightarrow> inference_item list list option" where
  "loop_parts js q kept index [] = Some []"
| "loop_parts js q kept index (b # bs) =
     (case block_items js q (fst kept \<le> index \<and> index < snd kept) b of
        None \<Rightarrow> None
      | Some new \<Rightarrow> map_option ((#) new) (loop_parts js q kept (index + 1) bs))"

lemma add_items_items [simp]: "rl_items (add_items r b past new) = rl_items r @ new"
  by (simp add: add_items_def)

lemma replay_loop_items:
  "map_option rl_items (replay_loop js q answer kept index bs r)
     = map_option (\<lambda>parts. rl_items r @ concat parts) (loop_parts js q kept index bs)"
proof (induction bs arbitrary: index r)
  case (Cons b bs)
  let ?r = "if answer = Some index then r\<lparr>rl_answered := length (rl_items r)\<rparr> else r"
  have "rl_items ?r = rl_items r" by simp
  with Cons.IH show ?case
    by (simp add: Let_def option.map_comp comp_def split del: if_split split: option.split)
qed simp

lemma replay_items:
  "map_option rl_items (replay_of js q)
     = map_option concat (loop_parts js q (kept_past_summary (request_blocks q) (replay_start (request_blocks q)))
         (replay_start (request_blocks q)) (drop (replay_start (request_blocks q)) (request_blocks q)))"
  by (simp add: replay_of_def Let_def replay_loop_items)

lemma loop_parts_append:
  "loop_parts js q kept index (xs @ ys) =
     (case loop_parts js q kept index xs of
        None \<Rightarrow> None
      | Some parts \<Rightarrow> map_option ((@) parts) (loop_parts js q kept (index + length xs) ys))"
  by (induction xs arbitrary: index) (auto simp: map_option_case split: option.splits)

lemma loop_parts_same:
  assumes "list_all2 (\<lambda>b b'. \<forall>past. block_items js q past b = block_items js q' past b') xs xs'"
    and "\<And>j. j < length xs \<Longrightarrow> (fst k \<le> index + j \<and> index + j < snd k) = (fst k' \<le> index + j \<and> index + j < snd k')"
  shows "loop_parts js q k index xs = loop_parts js q' k' index xs'"
  using assms
proof (induction arbitrary: index rule: list_all2_induct)
  case Nil
  show ?case by simp
next
  case (Cons b bs b' bs')
  have "loop_parts js q k (Suc index) bs = loop_parts js q' k' (Suc index) bs'"
  proof (rule Cons.IH)
    fix j
    assume "j < length bs"
    with Cons.prems [of "Suc j"] show "(fst k \<le> Suc index + j \<and> Suc index + j < snd k) = (fst k' \<le> Suc index + j \<and> Suc index + j < snd k')"
      by simp
  qed
  with Cons.hyps(1) Cons.prems [of 0] show ?case by (simp split: option.split)
qed

lemma loop_parts_length: "loop_parts js q k i bs = Some parts \<Longrightarrow> length parts = length bs"
  by (induction bs arbitrary: i parts) (auto split: option.splits)

lemma loop_parts_nth:
  "loop_parts js q k i bs = Some parts \<Longrightarrow> j < length bs \<Longrightarrow>
     block_items js q (fst k \<le> i + j \<and> i + j < snd k) (bs ! j) = Some (parts ! j)"
proof (induction bs arbitrary: i j parts)
  case (Cons b bs)
  then show ?case using Cons.IH [of "Suc i" _ "j - 1"] by (cases j) (auto split: option.splits)
qed simp

section \<open>Replay never panics on a view\<close>

lemma those_map_Some: "(\<forall>x\<in>set xs. f x \<noteq> None) \<Longrightarrow> those (map f xs) \<noteq> None"
  by (induction xs) auto

definition view_has :: "request_view \<Rightarrow> blob_ref list \<Rightarrow> bool" where
  "view_has q blobs = (\<forall>blob\<in>set blobs. mv_media (rv_view q) blob \<noteq> None)"

lemma view_bytes_Some: "mv_media (rv_view q) blob \<noteq> None \<Longrightarrow> view_bytes js q kind blob t name ok \<noteq> None"
  by (auto simp: view_bytes_def view_held_def split: held.splits option.splits)

lemma source_held:
  assumes "view_has q (List.map_filter source_reference srcs)" "s \<in> set srcs" "source_reference s = Some blob"
  shows "mv_media (rv_view q) blob \<noteq> None"
  using assms by (force simp: view_has_def map_filter_def)

lemma user_part_Some:
  assumes "view_has q (content_references content)" "part \<in> set content"
  shows "replay_user_part js q part \<noteq> None"
proof -
  have held: "content_source part = Some s \<Longrightarrow> source_reference s = Some blob \<Longrightarrow> mv_media (rv_view q) blob \<noteq> None" for s blob
    using assms source_held [of q "content_sources content" s blob] 
    by (force simp: content_references_def content_sources_def map_filter_def)
  show ?thesis
  proof (cases part)
    case (CImage source)
    with held show ?thesis
      by (cases source) (auto simp: replay_user_part_def message_medium_def Let_def view_bytes_Some)
  next
    case (CVideo source)
    with held show ?thesis
      by (cases source) (auto simp: replay_user_part_def message_medium_def Let_def view_bytes_Some)
  next
    case (CDocument source)
    with held show ?thesis
      by (cases source) (auto simp: replay_user_part_def message_document_def view_bytes_Some)
  qed (simp_all add: replay_user_part_def)
qed

lemma result_Some:
  assumes "view_has q (List.map_filter source_reference (List.map_filter result_source output))" "part \<in> set output"
  shows "replay_result js q part \<noteq> None"
proof -
  have held: "result_source part = Some s \<Longrightarrow> source_reference s = Some blob \<Longrightarrow> mv_media (rv_view q) blob \<noteq> None" for s blob
    using assms source_held [of q "List.map_filter result_source output" s blob] by (force simp: map_filter_def)
  show ?thesis
  proof (cases part)
    case (RImage source)
    with held show ?thesis by (cases source) (auto simp: replay_result_def tool_medium_def view_bytes_Some)
  next
    case (RVideo source)
    with held show ?thesis by (cases source) (auto simp: replay_result_def tool_medium_def view_bytes_Some)
  next
    case (RDocument source)
    with held show ?thesis by (cases source) (auto simp: replay_result_def tool_document_def view_bytes_Some)
  qed (simp_all add: replay_result_def)
qed

declare map_filter_append [simp]

lemma view_has_append [simp]: "view_has q (xs @ ys) = (view_has q xs \<and> view_has q ys)"
  by (auto simp: view_has_def)

lemma reports_Some:
  "view_has q (List.map_filter source_reference (List.map_filter result_source (concat (map cr_media rs)))) \<Longrightarrow>
     report_parts js q texts rs \<noteq> None"
proof (induction rs arbitrary: texts)
  case (Cons r rs)
  have "those (map (replay_result js q) (cr_media r)) \<noteq> None"
    by (intro those_map_Some ballI) (rule result_Some, use Cons.prems in simp_all)
  moreover obtain y z where "report_parts js q [] rs = Some y" "report_parts js q (texts @ [report_text r]) rs = Some z"
    using Cons.IH [of "[]"] Cons.IH [of "texts @ [report_text r]"] Cons.prems by auto
  ultimately show ?case by (auto split: option.splits)
qed simp

lemma lead_content_sources: "content_sources (lead_content u) = comment_sources (u_comments u)"
  by (simp add: lead_content_def comments_content_sources split: option.splits)

lemma block_items_Some:
  assumes "view_has q (references b)"
  shows "block_items js q past b \<noteq> None"
proof (cases b)
  case (User u)
  have "view_has q (content_references (lead_content u @ u_content u))"
    using assms by (simp add: User references_def content_references_def lead_content_sources)
  then have "those (map (replay_user_part js q) (lead_content u @ u_content u)) \<noteq> None"
    by (intro those_map_Some ballI) (rule user_part_Some)
  with User show ?thesis by (simp add: block_items_def)
next
  case (Steer s)
  have "view_has q (content_references (comments_content (s_comments s) @ s_content s))"
    using assms by (simp add: Steer references_def content_references_def comments_content_sources)
  then have "those (map (replay_user_part js q) (comments_content (s_comments s) @ s_content s)) \<noteq> None"
    by (intro those_map_Some ballI) (rule user_part_Some)
  with Steer show ?thesis by (simp add: block_items_def)
next
  case (ToolCall c)
  have "those (map (replay_result js q) (tc_output c)) \<noteq> None"
    by (intro those_map_Some ballI) (use assms result_Some in \<open>simp add: ToolCall references_def\<close>)
  with ToolCall show ?thesis by (simp add: block_items_def call_items_def Let_def)
next
  case (Wakeup w)
  with assms show ?thesis by (simp add: block_items_def references_def reports_Some)
qed (simp_all add: block_items_def)

lemma loop_parts_Some: "\<forall>b\<in>set bs. view_has q (references b) \<Longrightarrow> loop_parts js q k i bs \<noteq> None"
  by (induction bs arbitrary: i) (auto simp: block_items_Some split: option.splits)

section \<open>What the model reads of a block\<close>

text \<open>Two blocks the model reads the same of: their times, turns, requests, views and runs may differ.\<close>

definition reads_alike :: "block \<Rightarrow> block \<Rightarrow> bool" where
  "reads_alike b b' =
     (case b of
        User u \<Rightarrow> (case b' of User u' \<Rightarrow>
            u_preamble u = u_preamble u' \<and> u_comments u = u_comments u' \<and> u_content u = u_content u' | _ \<Rightarrow> False)
      | Context c \<Rightarrow> (case b' of Context c' \<Rightarrow> c_source c = c_source c' \<and> c_text c = c_text c' | _ \<Rightarrow> False)
      | Wakeup w \<Rightarrow> (case b' of Wakeup w' \<Rightarrow> w_placement w = w_placement w' \<and> w_reports w = w_reports w' | _ \<Rightarrow> False)
      | Steer s \<Rightarrow> (case b' of Steer s' \<Rightarrow> s_comments s = s_comments s' \<and> s_content s = s_content s' | _ \<Rightarrow> False)
      | AgentMessage m \<Rightarrow> (case b' of AgentMessage m' \<Rightarrow> m_message m = m_message m' | _ \<Rightarrow> False)
      | Resume r \<Rightarrow> (case b' of Resume r' \<Rightarrow> r_reason r = r_reason r' | _ \<Rightarrow> False)
      | Thinking th \<Rightarrow> (case b' of Thinking th' \<Rightarrow>
            md_id (ms_model (block_model th)) = md_id (ms_model (block_model th')) \<and> th_text th = th_text th'
            \<and> th_signature th = th_signature th' | _ \<Rightarrow> False)
      | Opaque p \<Rightarrow> (case b' of Opaque p' \<Rightarrow>
            md_id (ms_model (block_model p)) = md_id (ms_model (block_model p')) \<and> o_entries p = o_entries p' | _ \<Rightarrow> False)
      | TextBlock x \<Rightarrow> (case b' of TextBlock x' \<Rightarrow>
            md_id (ms_model (block_model x)) = md_id (ms_model (block_model x')) \<and> t_text x = t_text x' | _ \<Rightarrow> False)
      | ToolCall c \<Rightarrow> (case b' of ToolCall c' \<Rightarrow>
            md_id (ms_model (block_model c)) = md_id (ms_model (block_model c')) \<and> tc_tool_use_id c = tc_tool_use_id c'
            \<and> tc_tool_name c = tc_tool_name c' \<and> tc_input c = tc_input c' \<and> tc_status c = tc_status c'
            \<and> tc_output c = tc_output c' | _ \<Rightarrow> False)
      | CompactionBoundary y \<Rightarrow> (case b' of CompactionBoundary y' \<Rightarrow>
            block_id y = block_id y' \<and> b_summary y = b_summary y' \<and> b_kept y = b_kept y' | _ \<Rightarrow> False)
      | CompactionMarker k \<Rightarrow> (case b' of CompactionMarker k' \<Rightarrow> mk_boundary_id k = mk_boundary_id k' | _ \<Rightarrow> False)
      | Abort _ \<Rightarrow> (case b' of Abort _ \<Rightarrow> True | _ \<Rightarrow> False)
      | Response _ \<Rightarrow> (case b' of Response _ \<Rightarrow> True | _ \<Rightarrow> False)
      | Error _ \<Rightarrow> (case b' of Error _ \<Rightarrow> True | _ \<Rightarrow> False)
      | AccountSwitch _ \<Rightarrow> (case b' of AccountSwitch _ \<Rightarrow> True | _ \<Rightarrow> False))"

lemma reads_alike_refl: "reads_alike b b"
  by (cases b) (simp_all add: reads_alike_def)

lemma alike_kinds:
  assumes "reads_alike b b'"
  shows "is_boundary b = is_boundary b'" "is_marker_of i b = is_marker_of i b'" "references b = references b'"
  using assms by (cases b; cases b'; simp add: reads_alike_def references_def)+

text \<open>Two requests of one model, with the same tools and limits.\<close>

definition same_request :: "request_view \<Rightarrow> request_view \<Rightarrow> bool" where
  "same_request q q' = (rv_model q = rv_model q' \<and> rv_tools q = rv_tools q' \<and> rv_half_body q = rv_half_body q'
     \<and> rv_tool_results q = rv_tool_results q')"

definition same_media :: "request_view \<Rightarrow> request_view \<Rightarrow> blob_ref list \<Rightarrow> bool" where
  "same_media q q' blobs = (\<forall>blob\<in>set blobs. mv_media (rv_view q) blob = mv_media (rv_view q') blob)"

lemma same_media_append [simp]: "same_media q q' (xs @ ys) = (same_media q q' xs \<and> same_media q q' ys)"
  by (auto simp: same_media_def)

lemma view_bytes_same:
  assumes "same_request q q'" "mv_media (rv_view q) blob = mv_media (rv_view q') blob"
  shows "view_bytes js q kind blob t name ok = view_bytes js q' kind blob t name ok"
proof -
  have "refusal js q ok = refusal js q' ok"
    using assms(1) by (simp add: fun_eq_iff refusal_def same_request_def)
  with assms(2) show ?thesis by (simp add: view_bytes_def view_held_def split: option.split held.split)
qed

lemma source_same:
  assumes "same_media q q' (List.map_filter source_reference srcs)" "s \<in> set srcs" "source_reference s = Some blob"
  shows "mv_media (rv_view q) blob = mv_media (rv_view q') blob"
  using assms by (force simp: same_media_def map_filter_def)

lemma user_part_same:
  assumes "same_request q q'" "same_media q q' (content_references content)" "part \<in> set content"
  shows "replay_user_part js q part = replay_user_part js q' part"
proof -
  have held: "content_source part = Some s \<Longrightarrow> source_reference s = Some blob \<Longrightarrow>
      mv_media (rv_view q) blob = mv_media (rv_view q') blob" for s blob
    using assms source_same [of q q' "content_sources content" s blob]
    by (force simp: content_references_def content_sources_def map_filter_def)
  show ?thesis
    using assms(1) held view_bytes_same [OF assms(1)]
    by (cases part)
      (simp_all add: replay_user_part_def message_medium_def message_document_def same_request_def Let_def
        split: media_source.split document_source.split)
qed

lemma result_same:
  assumes "same_request q q'" "same_media q q' (List.map_filter source_reference (List.map_filter result_source output))"
    and "part \<in> set output"
  shows "replay_result js q part = replay_result js q' part"
proof -
  have held: "result_source part = Some s \<Longrightarrow> source_reference s = Some blob \<Longrightarrow>
      mv_media (rv_view q) blob = mv_media (rv_view q') blob" for s blob
    using assms source_same [of q q' "List.map_filter result_source output" s blob] by (force simp: map_filter_def)
  show ?thesis
    using assms(1) held view_bytes_same [OF assms(1)]
    by (cases part)
      (simp_all add: replay_result_def tool_medium_def tool_document_def same_request_def
        split: tool_media_source.split document_source.split)
qed

lemma reports_same:
  "same_request q q' \<Longrightarrow>
     same_media q q' (List.map_filter source_reference (List.map_filter result_source (concat (map cr_media rs)))) \<Longrightarrow>
     report_parts js q texts rs = report_parts js q' texts rs"
proof (induction rs arbitrary: texts)
  case (Cons r rs)
  have "map (replay_result js q) (cr_media r) = map (replay_result js q') (cr_media r)"
    by (rule map_cong [OF refl], rule result_same [OF Cons.prems(1)]) (use Cons.prems(2) in simp_all)
  with Cons show ?case by (simp del: map_eq_conv)
qed simp

lemma block_items_alike:
  assumes "same_request q q'" "reads_alike b b'" "same_media q q' (references b)"
  shows "block_items js q past b = block_items js q' past b'"
proof -
  have "block_items js q past b = block_items js q' past b"
  proof (cases b)
    case (User u)
    have "same_media q q' (content_references (lead_content u @ u_content u))"
      using assms(3) by (simp add: User references_def content_references_def lead_content_sources)
    from user_part_same [OF assms(1) this] have "map (replay_user_part js q) (lead_content u @ u_content u)
        = map (replay_user_part js q') (lead_content u @ u_content u)" by (intro map_cong refl)
    with User show ?thesis by (simp add: block_items_def del: map_append map_eq_conv)
  next
    case (Steer s)
    have "same_media q q' (content_references (comments_content (s_comments s) @ s_content s))"
      using assms(3) by (simp add: Steer references_def content_references_def comments_content_sources)
    from user_part_same [OF assms(1) this] have "map (replay_user_part js q) (comments_content (s_comments s) @ s_content s)
        = map (replay_user_part js q') (comments_content (s_comments s) @ s_content s)" by (intro map_cong refl)
    with Steer show ?thesis by (simp add: block_items_def del: map_append map_eq_conv)
  next
    case (ToolCall c)
    have "map (replay_result js q) (tc_output c) = map (replay_result js q') (tc_output c)"
      by (rule map_cong [OF refl], rule result_same [OF assms(1)]) (use assms(3) in \<open>simp_all add: ToolCall references_def\<close>)
    with ToolCall assms(1) show ?thesis by (simp add: block_items_def call_items_def declares_def same_request_def Let_def del: map_eq_conv)
  next
    case (Wakeup w)
    with assms(3) reports_same [OF assms(1), of "w_reports w" js "[]"] show ?thesis
      by (simp add: block_items_def references_def)
  qed (simp_all add: block_items_def)
  also have "\<dots> = block_items js q' past b'"
    using assms(2)
    by (cases b; cases b';
        simp add: reads_alike_def block_items_def call_items_def boundary_items_def lead_content_def resume_text_def
          undeclared_call_def Let_def split: option.split)
  finally show ?thesis .
qed

end
