(* ===== verification/Requests.thy ===== *)
theory Requests imports Replay_Facts begin

text \<open>
  One request after another: a request's items begin with those of the request before it
  (\<open>request_extends\<close>), the ranges of its blocks cover its items, and each call stands before its result.
\<close>

section \<open>A request begins with the one before it\<close>

lemma rposition_alike: "list_all2 (\<lambda>a b. P a = Q b) xs ys \<Longrightarrow> rposition P xs = rposition Q ys"
  by (induction rule: list_all2_induct) simp_all

lemma position_alike: "list_all2 (\<lambda>a b. P a = Q b) xs ys \<Longrightarrow> position P xs = position Q ys"
  by (induction rule: list_all2_induct) simp_all

lemma position_either:
  "position P (xs @ ys) = (case position P xs of Some i \<Rightarrow> Some i | None \<Rightarrow> map_option ((+) (length xs)) (position P ys))"
  by (induction xs) (auto simp: map_option_case split: option.splits)

lemma replay_start_extends:
  assumes "list_all2 reads_alike xs xs'" "\<forall>b\<in>set ys. \<not> is_boundary b"
  shows "replay_start (xs' @ ys) = replay_start xs"
proof -
  have "list_all2 (\<lambda>a b. is_boundary a = is_boundary b) xs xs'"
    using assms(1) by (rule list_all2_mono) (simp add: alike_kinds)
  then have "rposition is_boundary xs = rposition is_boundary xs'" by (rule rposition_alike)
  moreover have "rposition is_boundary ys = None" using assms(2) by (simp add: rposition_None)
  ultimately show ?thesis by (simp add: replay_start_def rposition_append)
qed

lemma replay_start_within: "replay_start xs \<le> length xs" "xs \<noteq> [] \<Longrightarrow> replay_start xs < length xs"
  by (auto simp: replay_start_def dest: rposition_less split: option.splits)

lemma kept_past_summary_at:
  "s < length blocks \<Longrightarrow> kept_past_summary blocks s =
     (case blocks ! s of
        CompactionBoundary b \<Rightarrow>
          (s + 1, case position (is_marker_of (block_id b)) (drop s blocks) of Some i \<Rightarrow> s + i | None \<Rightarrow> length blocks)
      | _ \<Rightarrow> (0, 0))"
  by (simp add: kept_past_summary_def get_at_def)

lemma kept_flags_extend:
  fixes xs xs' ys :: "block list"
  assumes "list_all2 reads_alike xs xs'" "s < length xs" "j < length xs"
  defines "k \<equiv> kept_past_summary xs s" and "k' \<equiv> kept_past_summary (xs' @ ys) s"
  shows "(fst k \<le> j \<and> j < snd k) = (fst k' \<le> j \<and> j < snd k')"
proof -
  have len: "length xs' = length xs" using assms(1) by (simp add: list_all2_lengthD)
  have at: "(xs' @ ys) ! s = xs' ! s" "reads_alike (xs ! s) (xs' ! s)"
    using assms(1,2) len by (simp_all add: nth_append list_all2_nthD)
  have k: "k = (case xs ! s of
        CompactionBoundary b \<Rightarrow>
          (s + 1, case position (is_marker_of (block_id b)) (drop s xs) of Some i \<Rightarrow> s + i | None \<Rightarrow> length xs)
      | _ \<Rightarrow> (0, 0))" using assms(2) by (simp add: k_def kept_past_summary_at)
  have k': "k' = (case xs' ! s of
        CompactionBoundary b \<Rightarrow>
          (s + 1, case position (is_marker_of (block_id b)) (drop s (xs' @ ys)) of Some i \<Rightarrow> s + i | None \<Rightarrow> length (xs' @ ys))
      | _ \<Rightarrow> (0, 0))" using assms(2) len at(1) kept_past_summary_at [of s "xs' @ ys"] unfolding k'_def by simp
  have later: "list_all2 reads_alike (drop s xs) (drop s xs')" using assms(1) by simp
  have markers: "position (is_marker_of i) (drop s xs) = position (is_marker_of i) (drop s xs')" for i
    using list_all2_mono [OF later, of "\<lambda>a b. is_marker_of i a = is_marker_of i b"]
    by (intro position_alike) (simp add: alike_kinds)
  show ?thesis
  proof (cases "xs ! s")
    case (CompactionBoundary b)
    then obtain b' where b': "xs' ! s = CompactionBoundary b'" "block_id b' = block_id b"
      using at(2) by (cases "xs' ! s") (auto simp: reads_alike_def)
    have "position (is_marker_of (block_id b)) (drop s (xs' @ ys)) =
        (case position (is_marker_of (block_id b)) (drop s xs) of
           Some i \<Rightarrow> Some i | None \<Rightarrow> map_option ((+) (length xs - s)) (position (is_marker_of (block_id b)) ys))"
      using assms(2) len by (simp add: position_either markers split: option.split)
    moreover have "position (is_marker_of (block_id b)) (drop s xs) = Some i \<Longrightarrow> s + i < length xs" for i
      by (auto simp: position_Some)
    ultimately show ?thesis
      unfolding k k' CompactionBoundary b'(1) block.case b'(2)
      using assms(2,3) len
      by (cases "position (is_marker_of (block_id b)) (drop s xs)"; cases "position (is_marker_of (block_id b)) ys")
        (auto simp del: drop_append)
  qed (use at(2) in \<open>cases "xs' ! s"; simp add: k k' reads_alike_def\<close>)+
qed

text \<open>What a session holds only grows while its blocks name it.\<close>

lemma hold_keeps: "m blob = Some h \<Longrightarrow> hold_media b bytes m blob = Some h" "m blob = Some h \<Longrightarrow> absorb_media m other blob = Some h"
  by (auto simp: hold_media_def absorb_media_def split: option.splits)

lemma request_view_fields [simp]:
  "rv_view (request_view_of v model limits tools) = v" "request_blocks (request_view_of v model limits tools) = mv_blocks v"
  "rv_model (request_view_of v model limits tools) = model" "rv_tools (request_view_of v model limits tools) = tools"
  by (simp_all add: request_view_of_def request_blocks_def)

lemma same_request_views: "same_request (request_view_of v model limits tools) (request_view_of v' model limits tools)"
  by (simp add: same_request_def request_view_of_def)

lemma replay_exists:
  assumes "model_view_of start xs m = Inr v"
  shows "\<exists>r. replay_of js (request_view_of v model limits tools) = Some r"
proof -
  let ?q = "request_view_of v model limits tools"
  have blocks: "request_blocks ?q = xs" using view_of_blocks [OF assms] by simp
  have "view_has ?q (references b)" if "b \<in> set xs" for b
    using view_of_holds [OF assms that] by (simp add: view_has_def)
  then have "loop_parts js ?q k i (drop s xs) \<noteq> None" for k i s
    by (intro loop_parts_Some) (auto dest: in_set_dropD)
  then have "map_option rl_items (replay_of js ?q) \<noteq> None" unfolding replay_items blocks by simp
  then show ?thesis by auto
qed

lemma request_extends:
  assumes "model_view_of start xs m = Inr v" "model_view_of start' zs m' = Inr v'"
    and held: "\<And>blob h. m blob = Some h \<Longrightarrow> m' blob = Some h"
    and alike: "list_all2 reads_alike xs (take (length xs) zs)" "\<forall>b\<in>set (drop (length xs) zs). \<not> is_boundary b"
    and r: "replay_of js (request_view_of v model limits tools) = Some r"
  shows "\<exists>r'. replay_of js (request_view_of v' model limits tools) = Some r' \<and> prefix (rl_items r) (rl_items r')"
proof -
  let ?q = "request_view_of v model limits tools" and ?q' = "request_view_of v' model limits tools"
  define xs' where "xs' = take (length xs) zs"
  define ys where "ys = drop (length xs) zs"
  define s where "s = replay_start xs"
  have zs: "zs = xs' @ ys" by (simp add: xs'_def ys_def)
  have al: "list_all2 reads_alike xs xs'" "\<forall>b\<in>set ys. \<not> is_boundary b" using alike by (simp_all add: xs'_def ys_def)
  have blocks: "request_blocks ?q = xs" "request_blocks ?q' = xs' @ ys"
    using view_of_blocks [OF assms(1)] view_of_blocks [OF assms(2)] by (simp_all add: zs)
  have start: "replay_start (xs' @ ys) = s" using replay_start_extends [OF al] by (simp add: s_def)
  have s: "s \<le> length xs'" using replay_start_within(1) [of xs] al(1) by (simp add: s_def list_all2_lengthD)
  obtain r' where r': "replay_of js ?q' = Some r'" using replay_exists [OF assms(2)] by blast
  define k where "k = kept_past_summary xs s"
  define k' where "k' = kept_past_summary (xs' @ ys) s"
  have same: "loop_parts js ?q k s (drop s xs) = loop_parts js ?q' k' s (drop s xs')"
  proof (rule loop_parts_same)
    show "list_all2 (\<lambda>b b'. \<forall>past. block_items js ?q past b = block_items js ?q' past b') (drop s xs) (drop s xs')"
      unfolding list_all2_conv_all_nth
    proof (intro conjI allI impI)
      show "length (drop s xs) = length (drop s xs')" using al(1) by (simp add: list_all2_lengthD)
      fix i past
      assume i: "i < length (drop s xs)"
      then have in_xs: "xs ! (s + i) \<in> set xs" and in_zs: "xs' ! (s + i) \<in> set zs"
        and read: "reads_alike (xs ! (s + i)) (xs' ! (s + i))"
        using al(1) by (auto simp: zs list_all2_conv_all_nth)
      have "same_media ?q ?q' (references (xs ! (s + i)))"
        unfolding same_media_def
      proof
        fix blob
        assume "blob \<in> set (references (xs ! (s + i)))"
        with view_of_holds [OF assms(1) in_xs this] view_of_holds(1) [OF assms(2) in_zs, of blob] held alike_kinds(3) [OF read]
        show "mv_media (rv_view ?q) blob = mv_media (rv_view ?q') blob" by (cases "m blob") auto
      qed
      from block_items_alike [OF same_request_views read this] i
      show "block_items js ?q past (drop s xs ! i) = block_items js ?q' past (drop s xs' ! i)"
        using al(1) by (simp add: list_all2_lengthD)
    qed
    fix j
    assume "j < length (drop s xs)"
    then show "(fst k \<le> s + j \<and> s + j < snd k) = (fst k' \<le> s + j \<and> s + j < snd k')"
      unfolding k_def k'_def by (intro kept_flags_extend [OF al(1)]) simp_all
  qed
  have "map_option rl_items (replay_of js ?q) = map_option concat (loop_parts js ?q k s (drop s xs))"
    unfolding replay_items blocks(1) by (simp add: s_def k_def)
  moreover have "map_option rl_items (replay_of js ?q') = map_option concat (loop_parts js ?q' k' s (drop s xs' @ ys))"
    unfolding replay_items blocks(2) start using s by (simp add: k'_def)
  ultimately have "prefix (rl_items r) (rl_items r')"
    using r r' same by (auto simp: loop_parts_append map_option_case split: option.splits)
  with r' show ?thesis by blast
qed

section \<open>The ranges of the blocks, and the calls and their results\<close>

text \<open>Ranges one after another, from a first position to a last one, none of them empty.\<close>

fun consecutive :: "nat \<Rightarrow> (nat \<times> nat) list \<Rightarrow> nat \<Rightarrow> bool" where
  "consecutive s [] e = (s = e)"
| "consecutive s ((a, b) # ranges) e = (a = s \<and> a < b \<and> consecutive b ranges e)"

lemma consecutive_snoc: "consecutive s (ranges @ [(a, b)]) e = (consecutive s ranges a \<and> a < b \<and> b = e)"
  by (induction s ranges a rule: consecutive.induct) auto

definition ranges_ok :: "replay \<Rightarrow> bool" where
  "ranges_ok r = (consecutive 0 (map rb_items (rl_blocks r)) (length (rl_items r)) \<and> rl_answered r \<le> length (rl_items r))"

lemma loop_ranges: "ranges_ok r \<Longrightarrow> replay_loop js q answer kept index bs r = Some r' \<Longrightarrow> ranges_ok r'"
proof (induction bs arbitrary: index r)
  case (Cons b bs)
  let ?r = "if answer = Some index then r\<lparr>rl_answered := length (rl_items r)\<rparr> else r"
  obtain new past where "replay_loop js q answer kept (index + 1) bs (add_items ?r b past new) = Some r'"
    using Cons.prems(2) by (auto simp: Let_def split: option.splits)
  moreover have "ranges_ok (add_items ?r b past new)"
    using Cons.prems(1) by (auto simp: ranges_ok_def add_items_def consecutive_snoc)
  ultimately show ?case by (rule Cons.IH [rotated])
qed simp

lemma replay_ranges: "replay_of js q = Some r \<Longrightarrow> ranges_ok r"
  by (rule loop_ranges) (auto simp: replay_of_def Let_def ranges_ok_def)

text \<open>Each result stands after its call, of a tool the request declares; \<open>settled\<close>: each call has its result.\<close>

fun paired :: "request_view \<Rightarrow> bool \<Rightarrow> inference_item list \<Rightarrow> bool" where
  "paired q settled [] = True"
| "paired q settled (ToolUse m i n v # ToolResult j output e # rest) = (declares q n \<and> i = j \<and> paired q settled rest)"
| "paired q settled (ToolUse m i n v # rest) = (declares q n \<and> \<not> settled \<and> paired q settled rest)"
| "paired q settled (ToolResult j output e # rest) = False"
| "paired q settled (item # rest) = paired q settled rest"

lemma paired_append: "paired q settled xs \<Longrightarrow> paired q settled ys \<Longrightarrow> paired q settled (xs @ ys)"
proof (induction q settled xs rule: paired.induct, goal_cases)
  case 3
  then show ?case by (cases ys rule: list.exhaust; cases "hd ys") auto
qed auto

lemma paired_concat: "\<forall>part\<in>set parts. paired q settled part \<Longrightarrow> paired q settled (concat parts)"
  by (induction parts) (simp_all add: paired_append)

definition executing_free :: "block list \<Rightarrow> bool" where
  "executing_free blocks = list_all (\<lambda>b. case b of ToolCall c \<Rightarrow> tc_status c \<noteq> Executing | _ \<Rightarrow> True) blocks"

lemma paired_plain: "\<forall>item\<in>set items. (case item of ToolUse _ _ _ _ \<Rightarrow> False | ToolResult _ _ _ \<Rightarrow> False | _ \<Rightarrow> True) \<Longrightarrow>
    paired q settled items"
proof (induction items)
  case (Cons item items)
  then show ?case by (cases item) auto
qed simp

lemma boundary_items_plain: "item \<in> set (boundary_items b) \<Longrightarrow> \<exists>content. item = UserMessage content"
  by (auto simp: boundary_items_def)

lemma block_items_paired:
  assumes "block_items js q past b = Some items" "settled \<Longrightarrow> executing_free [b]"
  shows "paired q settled items"
proof (cases b)
  case (ToolCall c)
  with assms show ?thesis
    by (auto simp: block_items_def call_items_def Let_def executing_free_def split: if_splits)
next
  case (CompactionBoundary y)
  with assms(1) have "items = boundary_items y" by (simp add: block_items_def)
  then show ?thesis by (intro paired_plain) (auto dest: boundary_items_plain)
next
  case (Wakeup w)
  with assms show ?thesis by (cases "w_placement w") (auto simp: block_items_def)
qed (use assms in \<open>auto simp: block_items_def\<close>)

lemma loop_parts_paired:
  "loop_parts js q k i bs = Some parts \<Longrightarrow> (settled \<Longrightarrow> executing_free bs) \<Longrightarrow> \<forall>part\<in>set parts. paired q settled part"
proof (induction bs arbitrary: i parts)
  case (Cons b bs)
  then obtain new rest where "block_items js q (fst k \<le> i \<and> i < snd k) b = Some new"
      "loop_parts js q k (i + 1) bs = Some rest" "parts = new # rest"
    by (auto split: option.splits)
  with Cons block_items_paired [of js q _ b new settled] show ?case by (auto simp: executing_free_def)
qed simp

lemma replay_paired:
  assumes "replay_of js q = Some r" "settled \<Longrightarrow> executing_free (drop (replay_start (request_blocks q)) (request_blocks q))"
  shows "paired q settled (rl_items r)"
proof -
  obtain parts where "loop_parts js q (kept_past_summary (request_blocks q) (replay_start (request_blocks q)))
      (replay_start (request_blocks q)) (drop (replay_start (request_blocks q)) (request_blocks q)) = Some parts"
      "rl_items r = concat parts"
    using assms(1) replay_items [of js q]
    by (cases "loop_parts js q (kept_past_summary (request_blocks q) (replay_start (request_blocks q)))
      (replay_start (request_blocks q)) (drop (replay_start (request_blocks q)) (request_blocks q))") auto
  with loop_parts_paired assms(2) show ?thesis by (simp add: paired_concat)
qed

lemma paired_use: "paired q settled (ToolUse m i n v # later) \<Longrightarrow>
    declares q n \<and> (settled \<longrightarrow> (\<exists>output e rest. later = ToolResult i output e # rest))"
  by (cases later; cases "hd later") auto

lemma paired_later: "paired q settled (before @ item # later) \<Longrightarrow> (\<forall>i output e. item \<noteq> ToolResult i output e) \<Longrightarrow>
    paired q settled (item # later)"
proof (induction q settled before rule: paired.induct, goal_cases)
  case 3
  then show ?case by (cases item) auto
qed auto

lemma paired_result: "paired q settled (before @ ToolResult i output e # later) \<Longrightarrow>
    \<exists>earlier m n v. before = earlier @ [ToolUse m i n v]"
proof (induction q settled before rule: paired.induct)
  case (2 q settled m i n v j out e rest)
  then show ?case by auto
qed auto

end
