(* ===== verification/Estimate.thy ===== *)
theory Estimate imports Replay begin

text \<open>
  How full the context is: the token estimates (\<open>crates/agent-transcript/src/estimate.rs\<close>), what fills
  the context as the card shows it (\<open>crates/agent-session/src/breakdown.rs\<close>), and the thresholds a
  session compacts at (\<open>crates/agent-session/src/compaction.rs\<close>). Token counts are natural numbers. A
  medium the request's view holds nothing for is a panic, \<open>None\<close>.
\<close>

definition IMAGE_TOKENS :: nat where
  "IMAGE_TOKENS = 1600"

definition IMAGE_BYTES_PER_TOKEN :: nat where
  "IMAGE_BYTES_PER_TOKEN = 1000"

definition DOCUMENT_BYTES_PER_TOKEN :: nat where
  "DOCUMENT_BYTES_PER_TOKEN = 4"

definition TOOL_CALL_FRAMING_TOKENS :: nat where
  "TOOL_CALL_FRAMING_TOKENS = 50"

section \<open>The output a model streams\<close>

record output_estimate =
  oe_characters :: nat
  oe_cjk :: nat
  oe_calls :: nat

definition is_cjk :: "nat \<Rightarrow> bool" where
  "is_cjk c =
     list_ex (\<lambda>(low, high). low \<le> c \<and> c \<le> high)
       [(0x1100, 0x11FF), (0x2E80, 0x2FDF), (0x3000, 0x303F), (0x3040, 0x30FF), (0x3130, 0x318F),
        (0x31F0, 0x31FF), (0x3400, 0x4DBF), (0x4E00, 0x9FFF), (0xAC00, 0xD7AF), (0xF900, 0xFAFF),
        (0xFF00, 0xFFEF), (0x20000, 0x3134F)]"

definition add_output_char :: "output_estimate \<Rightarrow> nat \<Rightarrow> output_estimate" where
  "add_output_char e c =
     (if is_cjk c then e\<lparr>oe_cjk := oe_cjk e + 1\<rparr> else e\<lparr>oe_characters := oe_characters e + 1\<rparr>)"

definition add_output_text :: "output_estimate \<Rightarrow> string \<Rightarrow> output_estimate" where
  "add_output_text e text = foldl add_output_char e (chars text)"

definition add_output_call :: "output_estimate \<Rightarrow> output_estimate" where
  "add_output_call e = e\<lparr>oe_calls := oe_calls e + 1\<rparr>"

definition output_tokens_of :: "output_estimate \<Rightarrow> nat" where
  "output_tokens_of e = oe_cjk e + div_ceil (oe_characters e) 4 + oe_calls e * TOOL_CALL_FRAMING_TOKENS"

section \<open>A block's estimate\<close>

definition image_weight :: "byte list \<Rightarrow> nat" where
  "image_weight data = max IMAGE_TOKENS (div_ceil (length data) IMAGE_BYTES_PER_TOKEN)"

definition document_estimate :: "document_source \<Rightarrow> string + media_bytes \<Rightarrow> string \<times> nat" where
  "document_estimate source found =
     (case found of
        Inr b \<Rightarrow> (document_name source @ '' '' @ mb_media_type b, div_ceil (length (mb_data b)) DOCUMENT_BYTES_PER_TOKEN)
      | Inl text \<Rightarrow> (text, 0))"

definition content_part_estimate :: "json_codec \<Rightarrow> request_view \<Rightarrow> user_content \<Rightarrow> (string \<times> nat) option" where
  "content_part_estimate js q part =
     (case part of
        CText text \<Rightarrow> Some (text, 0)
      | CReference reference \<Rightarrow> Some (reference, 0)
      | CAttachment a \<Rightarrow> Some (at_id a @ '' '' @ at_name a, 0)
      | CImage source \<Rightarrow>
          map_option (\<lambda>found. case found of
              Inr (ByBytes b) \<Rightarrow> (mb_media_type b, image_weight (mb_data b))
            | Inr (ByUrl url) \<Rightarrow> (url, IMAGE_TOKENS)
            | Inl text \<Rightarrow> (text, 0)) (message_medium js q MediaImage source)
      | CVideo source \<Rightarrow>
          map_option (\<lambda>found. case found of
              Inr (ByBytes b) \<Rightarrow> (mb_media_type b, 0)
            | Inr (ByUrl url) \<Rightarrow> (url, 0)
            | Inl text \<Rightarrow> (text, 0)) (message_medium js q MediaVideo source)
      | CDocument source \<Rightarrow> map_option (document_estimate source) (message_document js q source))"

definition result_estimate :: "json_codec \<Rightarrow> request_view \<Rightarrow> tool_result_content \<Rightarrow> (string \<times> nat) option" where
  "result_estimate js q part =
     (case part of
        RText text \<Rightarrow> Some (bound_text text, 0)
      | RGone kind _ cause \<Rightarrow> Some (gone_text kind cause, 0)
      | RImage source \<Rightarrow>
          map_option (case_sum (\<lambda>text. (text, 0)) (\<lambda>b. (mb_media_type b, image_weight (mb_data b))))
            (tool_medium js q MediaImage source)
      | RVideo source \<Rightarrow>
          map_option (case_sum (\<lambda>text. (text, 0)) (\<lambda>b. (mb_media_type b, 0))) (tool_medium js q MediaVideo source)
      | RDocument source \<Rightarrow> map_option (document_estimate source) (tool_document js q source))"

definition content_estimate :: "json_codec \<Rightarrow> request_view \<Rightarrow> user_content list \<Rightarrow> (string \<times> nat) option" where
  "content_estimate js q content =
     map_option (\<lambda>parts. (join [CHR 0x0A] (map fst parts), sum_list (map snd parts)))
       (those (map (content_part_estimate js q) content))"

definition with_comments ::
  "json_codec \<Rightarrow> request_view \<Rightarrow> user_content list \<Rightarrow> message_comment list \<Rightarrow> (string \<times> nat) option" where
  "with_comments js q content comments =
     (case content_estimate js q content of
        None \<Rightarrow> None
      | Some (text, media) \<Rightarrow>
          if comments_content comments = [] then Some (text, media)
          else map_option (\<lambda>(lead, lead_media). (lead @ [CHR 0x0A] @ text, media + lead_media))
                 (content_estimate js q (comments_content comments)))"

definition lines_estimate ::
  "json_codec \<Rightarrow> request_view \<Rightarrow> string list \<Rightarrow> tool_result_content list \<Rightarrow> (string \<times> nat) option" where
  "lines_estimate js q lines output =
     map_option (\<lambda>parts. (join [CHR 0x0A] (lines @ map fst parts), sum_list (map snd parts)))
       (those (map (result_estimate js q) output))"

definition block_estimate :: "json_codec \<Rightarrow> request_view \<Rightarrow> block \<Rightarrow> (string \<times> nat) option" where
  "block_estimate js q b =
     (case b of
        User u \<Rightarrow> with_comments js q (u_content u) (u_comments u)
      | Steer s \<Rightarrow> with_comments js q (s_content s) (s_comments s)
      | ToolCall c \<Rightarrow> lines_estimate js q [tc_tool_name c, tc_input c] (tc_output c)
      | Wakeup w \<Rightarrow>
          lines_estimate js q [bound_text (reports_text (w_reports w))] (concat (map cr_media (w_reports w)))
      | Context c \<Rightarrow> Some (if c_source c = INSTRUCTIONS_SOURCE then c_text c else bound_text (c_text c), 0)
      | AgentMessage m \<Rightarrow> Some (js_message js (m_message m), 0)
      | Resume r \<Rightarrow> Some (resume_text r, 0)
      | Thinking th \<Rightarrow> Some (case th_signature th of Some _ \<Rightarrow> th_text th | None \<Rightarrow> bound_text (th_text th), 0)
      | Opaque p \<Rightarrow> Some (join [CHR 0x0A] (map entry_json (o_entries p)), 0)
      | TextBlock x \<Rightarrow> Some (bound_text (t_text x), 0)
      | Response r \<Rightarrow> Some (js_usage js (rs_usage r), 0)
      | Error e \<Rightarrow> Some (e_message e, 0)
      | Abort _ \<Rightarrow> Some (''aborted'', 0)
      | AccountSwitch _ \<Rightarrow> Some ('''', 0)
      | CompactionBoundary y \<Rightarrow>
          Some (join [CHR 0x0A] (COMPACTION_NOTE # map model_text (b_kept y) @ [bound_text (b_summary y)]), 0)
      | CompactionMarker k \<Rightarrow> Some (show_nat (mk_compacted_tokens k), 0))"

definition block_tokens :: "json_codec \<Rightarrow> request_view \<Rightarrow> block \<Rightarrow> nat option" where
  "block_tokens js q b = map_option (\<lambda>(text, media). text_tokens text + media) (block_estimate js q b)"

definition blocks_tokens :: "json_codec \<Rightarrow> request_view \<Rightarrow> block list \<Rightarrow> nat option" where
  "blocks_tokens js q blocks = map_option sum_list (those (map (block_tokens js q) blocks))"

definition tool_tokens :: "json_codec \<Rightarrow> tool_definition \<Rightarrow> nat" where
  "tool_tokens js t = text_tokens (js_tool js t)"

definition prompt_tokens :: "json_codec \<Rightarrow> string \<Rightarrow> tool_definition list \<Rightarrow> nat" where
  "prompt_tokens js prompt tools = text_tokens prompt + sum_list (map (tool_tokens js) tools)"

section \<open>The estimate of the next request\<close>

record context_anchor =
  ca_anchored :: bool
  ca_tokens :: nat
  ca_from :: nat

text \<open>The blocks from the last one back: the latest usage above zero, and where it is.\<close>

fun usage_scan :: "block list \<Rightarrow> (nat \<times> nat) option" where
  "usage_scan [] = None"
| "usage_scan (b # before) =
     (case b of
        CompactionBoundary _ \<Rightarrow> None
      | CompactionMarker _ \<Rightarrow> None
      | Response r \<Rightarrow>
          (case rs_usage r of
             Some u \<Rightarrow>
               let tokens = input_tokens u + output_tokens u + cache_read_tokens u + cache_write_tokens u
               in if 0 < tokens then Some (length before, tokens) else usage_scan before
           | None \<Rightarrow> usage_scan before)
      | _ \<Rightarrow> usage_scan before)"

fun boundary_id :: "block \<Rightarrow> block_id option" where
  "boundary_id (CompactionBoundary b) = Some (block_id b)"
| "boundary_id _ = None"

definition usage_anchor :: "block list \<Rightarrow> (nat \<times> nat) option" where
  "usage_anchor blocks =
     (case rfind_map boundary_id blocks of
        Some boundary \<Rightarrow> if list_ex (is_marker_of boundary) blocks then usage_scan (rev blocks) else None
      | None \<Rightarrow> usage_scan (rev blocks))"

definition context_anchor_of :: "block list \<Rightarrow> model_facts \<Rightarrow> context_anchor" where
  "context_anchor_of blocks model =
     (case usage_anchor blocks of
        Some (index, tokens) \<Rightarrow>
          if md_context_window model = 0 \<or> tokens \<le> md_context_window model
          then \<lparr>ca_anchored = True, ca_tokens = tokens, ca_from = index + 1\<rparr>
          else \<lparr>ca_anchored = False, ca_tokens = 0, ca_from = replay_start blocks\<rparr>
      | None \<Rightarrow> \<lparr>ca_anchored = False, ca_tokens = 0, ca_from = replay_start blocks\<rparr>)"

definition anchor_tokens :: "json_codec \<Rightarrow> context_anchor \<Rightarrow> string \<Rightarrow> tool_definition list \<Rightarrow> nat" where
  "anchor_tokens js a prompt tools = (if ca_anchored a then ca_tokens a else prompt_tokens js prompt tools)"

definition context_tokens :: "json_codec \<Rightarrow> request_view \<Rightarrow> string \<Rightarrow> nat option" where
  "context_tokens js q prompt =
     (let blocks = request_blocks q; a = context_anchor_of blocks (rv_model q)
      in map_option ((+) (anchor_tokens js a prompt (rv_tools q))) (blocks_tokens js q (drop (ca_from a) blocks)))"

text \<open>\<open>SessionCore::context_estimate\<close> over the replayed blocks from \<open>start\<close>; \<open>Inl\<close>: the blobs to read first.\<close>

definition context_estimate ::
  "json_codec \<Rightarrow> nat \<Rightarrow> block list \<Rightarrow> held_media \<Rightarrow> model_facts \<Rightarrow> request_limits \<Rightarrow> tool_definition list \<Rightarrow> string
     \<Rightarrow> (blob_ref list + nat) option" where
  "context_estimate js start replayed m model limits tools prompt =
     (let a = context_anchor_of replayed model
      in case model_view_of (start + ca_from a) (drop (ca_from a) replayed) m of
           Inl blobs \<Rightarrow> Some (Inl blobs)
         | Inr weighed \<Rightarrow>
             map_option (\<lambda>n. Inr (anchor_tokens js a prompt tools + n))
               (blocks_tokens js (request_view_of weighed model limits tools) (mv_blocks weighed)))"

section \<open>When a session compacts\<close>

definition MANUAL_COMPACTION_PERCENT :: nat where
  "MANUAL_COMPACTION_PERCENT = 50"

definition IDLE_COMPACTION_WINDOW :: nat where
  "IDLE_COMPACTION_WINDOW = 300000"

definition ANSWER_ROOM :: nat where
  "ANSWER_ROOM = 20000"

definition SUMMARY_ROOM :: nat where
  "SUMMARY_ROOM = 13000"

definition KEPT_WORK :: nat where
  "KEPT_WORK = 10000"

definition KEPT_WORK_PERCENT :: nat where
  "KEPT_WORK_PERCENT = 15"

definition share :: "nat \<Rightarrow> nat \<Rightarrow> nat" where
  "share limit percent = limit * percent div 100"

definition token_threshold :: "nat \<Rightarrow> nat option \<Rightarrow> nat" where
  "token_threshold window output_limit =
     (let answer = (case output_limit of None \<Rightarrow> ANSWER_ROOM | Some limit \<Rightarrow> min limit ANSWER_ROOM)
      in max (window - (answer + SUMMARY_ROOM)) (window div 2))"

definition compaction_threshold :: "bool \<Rightarrow> nat option \<Rightarrow> model_facts \<Rightarrow> nat option" where
  "compaction_threshold automatic window model =
     (case window of
        Some w \<Rightarrow> if automatic then Some (token_threshold w (md_output_limit model)) else None
      | None \<Rightarrow> None)"

text \<open>\<open>CompactionConfig::reached\<close>: the tokens and the threshold of a pass a response's usage starts.\<close>

definition usage_reached :: "bool \<Rightarrow> nat option \<Rightarrow> model_facts \<Rightarrow> token_usage \<Rightarrow> (nat \<times> nat) option" where
  "usage_reached automatic window model u =
     (let input = input_tokens u + cache_read_tokens u + cache_write_tokens u
      in if 0 < md_context_window model \<and> md_context_window model < input then None
         else case compaction_threshold automatic window model of
           None \<Rightarrow> None
         | Some threshold \<Rightarrow>
             if threshold \<le> input + output_tokens u then Some (input + output_tokens u, threshold) else None)"

definition over_token_threshold ::
  "json_codec \<Rightarrow> bool \<Rightarrow> request_view \<Rightarrow> string \<Rightarrow> nat option \<Rightarrow> (nat \<times> nat) option option" where
  "over_token_threshold js automatic q prompt window =
     (case compaction_threshold automatic window (rv_model q) of
        None \<Rightarrow> Some None
      | Some threshold \<Rightarrow>
          map_option (\<lambda>estimate. if threshold \<le> estimate then Some (estimate, threshold) else None)
            (context_tokens js q prompt))"

definition compact_from :: "nat option \<Rightarrow> nat option" where
  "compact_from window = map_option (\<lambda>w. share w MANUAL_COMPACTION_PERCENT) window"

definition admits_compaction :: "nat \<Rightarrow> nat option \<Rightarrow> bool" where
  "admits_compaction tokens from_tokens = (case from_tokens of None \<Rightarrow> True | Some f \<Rightarrow> f \<le> tokens)"

text \<open>The share in percent a refused request names; \<open>None\<close> of a panic is a window of zero tokens.\<close>

definition compaction_refusal :: "nat \<Rightarrow> nat option \<Rightarrow> bool \<Rightarrow> nat option option" where
  "compaction_refusal tokens window size_refused =
     (if size_refused \<or> admits_compaction tokens (compact_from window) then Some None
      else case window of
        None \<Rightarrow> Some None
      | Some w \<Rightarrow> if w = 0 then None else Some (Some (tokens * 100 div w)))"

section \<open>What fills the context\<close>

datatype context_row_kind =
    RowMessages | RowSystemPrompt | RowCommands | RowInstructions | RowSkills | RowOtherContext | RowSummary
  | RowCompactionBuffer | RowFreeSpace

record context_row =
  row_kind :: context_row_kind
  row_tokens :: nat
  row_estimated :: bool

definition SKILLS_SOURCE :: string where
  "SKILLS_SOURCE = ''skills''"

record context_fill =
  fill_prompt_tokens :: nat
  fill_commands :: nat
  fill_instructions :: nat
  fill_skills :: nat
  fill_other_context :: nat
  fill_summary :: nat

definition fill_add :: "context_fill \<Rightarrow> block \<Rightarrow> nat \<Rightarrow> context_fill" where
  "fill_add f b tokens =
     (case b of
        Context c \<Rightarrow>
          if c_source c = INSTRUCTIONS_SOURCE then f\<lparr>fill_instructions := fill_instructions f + tokens\<rparr>
          else if c_source c = SKILLS_SOURCE then f\<lparr>fill_skills := fill_skills f + tokens\<rparr>
          else f\<lparr>fill_other_context := fill_other_context f + tokens\<rparr>
      | CompactionBoundary _ \<Rightarrow> f\<lparr>fill_summary := fill_summary f + tokens\<rparr>
      | _ \<Rightarrow> f)"

definition fill_rows :: "context_fill \<Rightarrow> nat \<Rightarrow> (nat \<times> nat option) option \<Rightarrow> context_row list" where
  "fill_rows f estimate window =
     (let carried =
            [(RowSystemPrompt, fill_prompt_tokens f - fill_commands f), (RowCommands, fill_commands f),
             (RowInstructions, fill_instructions f), (RowSkills, fill_skills f),
             (RowOtherContext, fill_other_context f), (RowSummary, fill_summary f)];
          above = sum_list (map snd carried);
          messages = estimate - above;
          row = (\<lambda>(kind, tokens) estimated. \<lparr>row_kind = kind, row_tokens = tokens, row_estimated = estimated\<rparr>)
      in filter (\<lambda>r. 0 < row_tokens r)
           (row (RowMessages, messages) True # map (\<lambda>c. row c True) carried
            @ (case window of
                 None \<Rightarrow> []
               | Some (w, output_limit) \<Rightarrow>
                   let buffer = w - token_threshold w output_limit
                   in [row (RowCompactionBuffer, buffer) False,
                       row (RowFreeSpace, w - (above + messages + buffer)) False])))"

text \<open>The replayed blocks the session can weigh; \<open>None\<close>: the blocks left still name a medium not held.\<close>

definition weighable_view :: "nat \<Rightarrow> block list \<Rightarrow> held_media \<Rightarrow> model_view option" where
  "weighable_view start replayed m =
     (case model_view_of start replayed m of
        Inr v \<Rightarrow> Some v
      | Inl missing \<Rightarrow>
          (case model_view_of start (filter (\<lambda>b. \<not> list_ex (\<lambda>blob. blob \<in> set missing) (references b)) replayed) m of
             Inr v \<Rightarrow> Some v
           | Inl _ \<Rightarrow> None))"

text \<open>\<open>commands\<close>: the texts of the prompt's command layers.\<close>

definition breakdown_rows ::
  "json_codec \<Rightarrow> nat \<Rightarrow> block list \<Rightarrow> held_media \<Rightarrow> model_facts \<Rightarrow> request_limits \<Rightarrow> tool_definition list \<Rightarrow> string
     \<Rightarrow> string list \<Rightarrow> nat \<Rightarrow> nat option \<Rightarrow> context_row list option" where
  "breakdown_rows js start replayed m model limits tools prompt commands estimate window =
     (case weighable_view start replayed m of
        None \<Rightarrow> None
      | Some v \<Rightarrow>
          (case those (map (block_tokens js (request_view_of v model limits tools)) (mv_blocks v)) of
             None \<Rightarrow> None
           | Some tokens \<Rightarrow>
               Some (fill_rows
                 (foldl (\<lambda>f (b, n). fill_add f b n)
                    \<lparr>fill_prompt_tokens = prompt_tokens js prompt tools,
                     fill_commands = sum_list (map text_tokens commands), fill_instructions = 0, fill_skills = 0,
                     fill_other_context = 0, fill_summary = 0\<rparr> (zip (mv_blocks v) tokens))
                 estimate (map_option (\<lambda>w. (w, md_output_limit model)) window))))"

end
