(* ===== verification/Compaction.thy ===== *)
theory Compaction imports Estimate Transcript_Log begin

text \<open>
  A compaction pass (\<open>crates/agent-transcript/src/compaction.rs\<close>,
  \<open>crates/agent-session/src/compaction.rs\<close>): the window it summarizes, the user's messages it keeps, how
  it asks again when its request is too long, and what it writes. The summary itself is what a copy of
  the session answers, a parameter here.
\<close>

section \<open>The window a pass summarizes\<close>

record compaction_window =
  cw_start :: nat
  cw_cut :: nat

definition same_model :: "model_selection \<Rightarrow> model_selection \<Rightarrow> bool" where
  "same_model a b = (ms_provider_id a = ms_provider_id b \<and> md_id (ms_model a) = md_id (ms_model b))"

definition unanswered_input :: "block list \<Rightarrow> nat" where
  "unanswered_input blocks =
     (let answered = (case rposition is_response blocks of Some r \<Rightarrow> r + 1 | None \<Rightarrow> 0)
      in case rposition is_user (drop answered blocks) of Some u \<Rightarrow> answered + u | None \<Rightarrow> answered)"

text \<open>The ends from the last one back, with the estimate of what is after \<open>from\<close>.\<close>

fun cut_with_budget ::
  "json_codec \<Rightarrow> request_view \<Rightarrow> nat \<Rightarrow> nat \<Rightarrow> nat \<Rightarrow> nat \<Rightarrow> nat list \<Rightarrow> nat option" where
  "cut_with_budget js q budget current later from_index [] = Some current"
| "cut_with_budget js q budget current later from_index (e # ends) =
     (case blocks_tokens js q (drop e (take from_index (request_blocks q))) of
        None \<Rightarrow> None
      | Some n \<Rightarrow>
          if budget \<le> later + n then Some e
          else cut_with_budget js q budget current (later + n) e ends)"

definition compaction_window_of ::
  "json_codec \<Rightarrow> request_view \<Rightarrow> model_selection \<Rightarrow> nat \<Rightarrow> compaction_window option" where
  "compaction_window_of js q model budget =
     (let blocks = request_blocks q; start = replay_start blocks; answered = answered_requests blocks
      in if answered = [] then Some \<lparr>cw_start = start, cw_cut = max (unanswered_input blocks) start\<rparr>
         else
           let ends = map fst (filter (\<lambda>(_, by_model). same_model by_model model) answered)
           in if ends = [] then Some \<lparr>cw_start = start, cw_cut = fst (last answered)\<rparr>
              else map_option (\<lambda>c. \<lparr>cw_start = start, cw_cut = c\<rparr>)
                     (cut_with_budget js q budget (last ends) 0 (length blocks) (rev ends)))"

fun kept_candidates :: "nat \<Rightarrow> block list \<Rightarrow> kept_message list" where
  "kept_candidates index [] = []"
| "kept_candidates index (b # bs) =
     (case b of
        CompactionBoundary y \<Rightarrow> b_kept y
      | User u \<Rightarrow> [kept_of index (lead_content u @ u_content u)]
      | Steer s \<Rightarrow> [kept_of index (comments_content (s_comments s) @ s_content s)]
      | _ \<Rightarrow> []) @ kept_candidates (index + 1) bs"

definition kept_messages_of :: "block list \<Rightarrow> nat \<Rightarrow> nat \<Rightarrow> kept_message list" where
  "kept_messages_of window first budget = choose_kept (kept_candidates first window) budget"

section \<open>The pass\<close>

definition kept_work_budget :: "nat option \<Rightarrow> nat" where
  "kept_work_budget window = (case window of None \<Rightarrow> KEPT_WORK | Some w \<Rightarrow> min KEPT_WORK (share w KEPT_WORK_PERCENT))"

text \<open>
  The window and its first block after the last boundary and its marker; the inner \<open>None\<close> is a pass
  that compacts nothing, the outer one the panic of an estimate.
\<close>

definition pass_window ::
  "json_codec \<Rightarrow> request_view \<Rightarrow> model_selection \<Rightarrow> nat \<Rightarrow> bool \<Rightarrow> (nat \<times> nat \<times> nat) option option" where
  "pass_window js q model budget calls_pending =
     (if calls_pending then Some None
      else case compaction_window_of js q model budget of
        None \<Rightarrow> None
      | Some w \<Rightarrow>
          Some (map_option (\<lambda>offset. (cw_start w, cw_cut w, cw_start w + offset))
            (position (Not \<circ> is_compaction) (drop (cw_start w) (take (cw_cut w) (request_blocks q))))))"

text \<open>What is asked after a request that was too long: whether for the whole history, and the cut.\<close>

definition next_attempt :: "nat \<Rightarrow> nat \<Rightarrow> nat \<Rightarrow> bool \<times> nat \<Rightarrow> (bool \<times> nat) option" where
  "next_attempt len start first state =
     (case state of (whole, c) \<Rightarrow>
        if whole \<and> c < len then Some (False, c)
        else if c \<le> first + 1 then None
        else Some (False, max (start + (c - start) div 2) (first + 1)))"

text \<open>The cuts a pass asks at while each request is too long.\<close>

function attempts :: "nat \<Rightarrow> nat \<Rightarrow> nat \<Rightarrow> bool \<times> nat \<Rightarrow> (bool \<times> nat) list" where
  "attempts len start first state =
     (if start \<le> first \<and> first < snd state then
        state # (case next_attempt len start first state of None \<Rightarrow> [] | Some s \<Rightarrow> attempts len start first s)
      else [])"
  by pat_completeness auto

lemma next_attempt_smaller:
  assumes "start \<le> first" "first < c" "next_attempt len start first (whole, c) = Some (whole', c')"
  shows "\<not> whole' \<and> first < c' \<and> (c' < c \<or> (whole \<and> c' = c))"
  using assms by (auto simp: next_attempt_def split: if_splits)

termination attempts
proof (relation "measure (\<lambda>(len, start, first, whole, c). 2 * c + of_bool whole)", simp)
  fix len start first :: nat and state x :: "bool \<times> nat"
  assume "start \<le> first \<and> first < snd state" "next_attempt len start first state = Some x"
  then show "((len, start, first, x), len, start, first, state)
      \<in> measure (\<lambda>(len, start, first, whole, c). 2 * c + of_bool whole)"
    using next_attempt_smaller [of start first "snd state" len "fst state" "fst x" "snd x"]
    by (cases state; cases x) auto
qed

declare attempts.simps [simp del]

definition EXECUTION_SOURCE :: string where
  "EXECUTION_SOURCE = ''execution''"

text \<open>The commands with their titles and the subagents with their descriptions that still run.\<close>

definition running_text :: "(command_id \<times> string) list \<Rightarrow> (nat \<times> string) list \<Rightarrow> string option" where
  "running_text commands subagents =
     (if commands = [] \<and> subagents = [] then None
      else Some (join [CHR 0x0A]
        (''[Still running after compaction]''
         # map (\<lambda>(command, title). if title = [] then ''Command '' @ command @ '' is still running.''
                 else ''Command '' @ command @ '' ('' @ title @ '') is still running.'') commands
         @ map (\<lambda>(number, description). if description = [] then ''Subagent '' @ show_nat number @ '' is still working.''
                 else ''Subagent '' @ show_nat number @ '' ('' @ description @ '') is still working.'') subagents)))"

text \<open>
  What the pass writes once its summary came: the boundary where the window ends, the marker at the
  end, and what still runs. \<open>ids\<close> are the identities of the three blocks. The session commits the
  journal after the marker (\<open>commit\<close> of \<open>Persist\<close>), which changes no block.
\<close>

definition write_pass ::
  "log \<Rightarrow> (nat \<Rightarrow> block_id) \<Rightarrow> timestamp \<Rightarrow> timestamp \<Rightarrow> turn_id \<Rightarrow> model_selection \<Rightarrow> nat \<Rightarrow> string
     \<Rightarrow> kept_message list \<Rightarrow> nat \<Rightarrow> bool \<Rightarrow> string option \<Rightarrow> log option" where
  "write_pass l ids now began turn model index summary kept compacted idle still_running =
     (case insert_compaction_boundary l (ids 0, now) index model summary (text_tokens summary) kept of
        None \<Rightarrow> None
      | Some (boundary, l) \<Rightarrow>
          let l = push_compaction_marker l (ids 1, now) model boundary compacted idle began
          in Some (case still_running of
               None \<Rightarrow> l
             | Some text \<Rightarrow> push_context l (ids 2, now) turn model EXECUTION_SOURCE text [] None))"

section \<open>The instruction of a summary request\<close>

definition is_input_item :: "inference_item \<Rightarrow> bool" where
  "is_input_item i = (case i of UserMessage _ \<Rightarrow> True | UserSteer _ \<Rightarrow> True | _ \<Rightarrow> False)"

fun extend_input :: "inference_item \<Rightarrow> user_part list \<Rightarrow> inference_item" where
  "extend_input (UserMessage content) parts = UserMessage (content @ parts)"
| "extend_input (UserSteer content) parts = UserSteer (content @ parts)"
| "extend_input item parts = item"

definition join_instruction :: "string \<Rightarrow> replay \<Rightarrow> replay" where
  "join_instruction instruction r =
     (let items = rl_items r; n = length items
      in if n < 2 then r
         else case items ! (n - 1) of
           UserMessage content \<Rightarrow>
             if content = [UserText instruction] \<and> is_input_item (items ! (n - 2))
             then r\<lparr>rl_items := (take (n - 1) items)[n - 2 := extend_input (items ! (n - 2)) content],
                    rl_blocks := butlast (rl_blocks r)\<rparr>
             else r
         | _ \<Rightarrow> r)"

end
