(* ===== verification/Compaction_Facts.thy ===== *)
theory Compaction_Facts imports Requests Compaction Log_Facts begin

text \<open>
  What a compaction pass does to the next request, what the estimates read, and where a pass cuts.
\<close>

section \<open>The request after a pass\<close>

lemma note_end_keeps: "lg_blocks (note_end l) = lg_blocks l" "lg_start (note_end l) = lg_start l"
  by (auto simp: note_end_def Let_def split: option.splits)

lemma note_input_keeps: "lg_blocks (note_input l b) = lg_blocks l" "lg_start (note_input l b) = lg_start l"
  by (auto simp: note_input_def Let_def split: option.splits)

lemma runs_read_alike: "reads_alike b (set_request r (set_run s b))"
  by (cases b) (simp_all add: reads_alike_def)

lemma append_block_alike:
  "\<exists>b'. lg_blocks (append_block l b) = lg_blocks l @ [b'] \<and> reads_alike b b'" "lg_start (append_block l b) = lg_start l"
  using runs_read_alike [of b]
  by (auto simp: append_block_def append_received_def Let_def note_end_keeps note_input_keeps)

lemma alike_marker: "reads_alike (CompactionMarker k) b' \<Longrightarrow> \<exists>k'. b' = CompactionMarker k' \<and> mk_boundary_id k' = mk_boundary_id k"
  by (cases b') (auto simp: reads_alike_def)

lemma alike_context: "reads_alike (Context c) b' \<Longrightarrow> \<exists>c'. b' = Context c' \<and> c_source c' = c_source c \<and> c_text c' = c_text c"
  by (cases b') (auto simp: reads_alike_def)

definition still_items :: "string option \<Rightarrow> inference_item list" where
  "still_items still_running = (case still_running of None \<Rightarrow> [] | Some text \<Rightarrow> [UserMessage [bounded_part text]])"

lemma write_pass_blocks:
  assumes "write_pass l ids now began turn model index summary kept compacted idle still_running = Some l'"
  obtains y k rest where "lg_start l' = lg_start l" "lg_start l \<le> index" "index \<le> log_len l"
    "lg_blocks l' = take (index - lg_start l) (lg_blocks l) @ CompactionBoundary y
       # drop (index - lg_start l) (lg_blocks l) @ CompactionMarker k # rest"
    "block_id y = ids 0" "b_summary y = summary" "b_kept y = kept" "mk_boundary_id k = ids 0"
    "\<forall>b\<in>set rest. \<not> is_boundary b"
    "\<And>js q kept_range i. map_option concat (loop_parts js q kept_range i rest) = Some (still_items still_running)"
proof -
  obtain l1 y where insert: "insert_compaction_boundary l (ids 0, now) index model summary (text_tokens summary) kept = Some (ids 0, l1)"
      "lg_blocks l1 = insert_at (index - lg_start l) (CompactionBoundary y) (lg_blocks l)" "lg_start l1 = lg_start l"
      "block_id y = ids 0" "b_summary y = summary" "b_kept y = kept" "lg_start l \<le> index" "index \<le> log_len l"
    using assms by (auto simp: write_pass_def insert_compaction_boundary_def Let_def split: if_splits option.splits)
  define l2 where "l2 = push_compaction_marker l1 (ids 1, now) model (ids 0) compacted idle began"
  obtain k where k: "lg_blocks l2 = lg_blocks l1 @ [CompactionMarker k]" "mk_boundary_id k = ids 0" "lg_start l2 = lg_start l"
    using append_block_alike [of l1 "CompactionMarker
       \<lparr>block_id = ids 1, created_at = now, request = None, block_model = model,
        mk_started_at = Some began, mk_boundary_id = ids 0, mk_compacted_tokens = compacted, mk_idle = idle\<rparr>"] insert(3)
    by (auto simp: l2_def push_compaction_marker_def dest: alike_marker)
  have base: "lg_blocks l2 = take (index - lg_start l) (lg_blocks l) @ CompactionBoundary y
       # drop (index - lg_start l) (lg_blocks l) @ [CompactionMarker k]"
    using k(1) insert(2) by (simp add: insert_at_def)
  show thesis
  proof (cases still_running)
    case None
    then have "l' = l2" using assms insert(1) by (simp add: write_pass_def l2_def)
    then show thesis
      using that [of y k "[]"] base k insert(4-8) None by (simp add: still_items_def)
  next
    case (Some still)
    then have l': "l' = push_context l2 (ids 2, now) turn model EXECUTION_SOURCE still [] None"
      using assms insert(1) by (simp add: write_pass_def l2_def)
    obtain c where c: "lg_blocks l' = lg_blocks l2 @ [Context c]" "c_source c = EXECUTION_SOURCE" "c_text c = still"
        "lg_start l' = lg_start l"
      using append_block_alike [of l2 "Context
       \<lparr>block_id = ids 2, created_at = now, request = None, block_model = model,
        c_turn_id = turn, c_source = EXECUTION_SOURCE, c_text = still, c_instructions = [],
        c_cwd = None, c_entries = []\<rparr>"] k(3)
      by (auto simp: l' push_context_def dest: alike_context)
    show thesis
      using that [of y k "[Context c]"] base k(2) insert(4-8) c Some
      by (simp add: still_items_def block_items_def EXECUTION_SOURCE_def INSTRUCTIONS_SOURCE_def)
  qed
qed

lemma no_boundary_after: "replay_start bs < n \<Longrightarrow> b \<in> set (drop n bs) \<Longrightarrow> \<not> is_boundary b"
proof -
  assume n: "replay_start bs < n" and b: "b \<in> set (drop n bs)"
  from b obtain i where i: "i < length bs - n" "b = bs ! (n + i)" by (auto simp: in_set_conv_nth)
  then have "bs ! (n + i) \<in> set bs" by simp
  with n i show "\<not> is_boundary b"
    by (auto simp: replay_start_def rposition_Some rposition_None split: option.splits)
qed

lemma replay_start_first: "is_boundary b \<Longrightarrow> \<forall>x\<in>set bs. \<not> is_boundary x \<Longrightarrow> replay_start (pre @ b # bs) = length pre"
proof -
  assume b: "is_boundary b" and bs: "\<forall>x\<in>set bs. \<not> is_boundary x"
  then have "rposition is_boundary bs = None" by (simp add: rposition_None)
  with b show "replay_start (pre @ b # bs) = length pre" by (simp add: replay_start_def rposition_append)
qed

lemma loop_parts_flagged:
  assumes "\<And>j. j < length bs \<Longrightarrow> fst k \<le> i + j \<and> i + j < snd k"
  shows "loop_parts js q k i bs = those (map (block_items js q True) bs)"
  using assms
proof (induction bs arbitrary: i)
  case (Cons b bs)
  have "loop_parts js q k (Suc i) bs = those (map (block_items js q True) bs)"
    by (rule Cons.IH) (use Cons.prems [of "Suc _"] in simp)
  with Cons.prems [of 0] show ?case by (simp split: option.split)
qed simp

lemma replay_after_pass:
  assumes pass: "write_pass l ids now began turn model (log_replay_start l + c) summary kept compacted idle still_running = Some l'"
    and c: "0 < c"
    and fresh: "\<forall>b\<in>set (lg_blocks l). \<not> is_marker_of (ids 0) b"
    and view: "model_view_of (log_replay_start l') (log_from l' (log_replay_start l')) m = Inr v"
  defines "rest \<equiv> drop c (log_from l (log_replay_start l))"
  shows "log_replay_start l' = log_replay_start l + c"
    and "\<exists>r parts. replay_of js (request_view_of v facts limits tools) = Some r
      \<and> those (map (block_items js (request_view_of v facts limits tools) True) rest) = Some parts
      \<and> rl_items r = UserMessage [UserText COMPACTION_NOTE] # map (\<lambda>k. UserMessage [UserText (model_text k)]) kept
          @ [UserMessage [UserText (summary_text (bound_text summary))]] @ concat parts @ still_items still_running"
proof -
  let ?q = "request_view_of v facts limits tools"
  define n where "n = replay_start (lg_blocks l) + c"
  obtain y k more where W: "lg_start l' = lg_start l" "n \<le> length (lg_blocks l)"
      "lg_blocks l' = take n (lg_blocks l) @ CompactionBoundary y # drop n (lg_blocks l) @ CompactionMarker k # more"
      "block_id y = ids 0" "b_summary y = summary" "b_kept y = kept" "mk_boundary_id k = ids 0"
      "\<forall>b\<in>set more. \<not> is_boundary b"
      "\<And>js q kept_range i. map_option concat (loop_parts js q kept_range i more) = Some (still_items still_running)"
    by (rule write_pass_blocks [OF pass]) (rule that; simp add: log_replay_start_def log_len_def n_def)
  have rest: "rest = drop n (lg_blocks l)"
    using W(2) by (simp add: rest_def log_from_def log_replay_start_def n_def min_def add.commute)
  have later: "\<forall>b\<in>set (drop n (lg_blocks l) @ CompactionMarker k # more). \<not> is_boundary b"
    using W(8) no_boundary_after [of "lg_blocks l" n] c by (auto simp: n_def)
  have start: "replay_start (lg_blocks l') = n"
    unfolding W(3) using replay_start_first [OF _ later, of "CompactionBoundary y" "take n (lg_blocks l)"] W(2) by simp
  then show "log_replay_start l' = log_replay_start l + c" using W(1) by (simp add: log_replay_start_def n_def)
  define bs where "bs = CompactionBoundary y # rest @ CompactionMarker k # more"
  have "log_from l' (log_replay_start l') = bs"
    using W(2,3) start by (simp add: log_from_def log_replay_start_def bs_def rest)
  with view have blocks: "request_blocks ?q = bs" using view_of_blocks by fastforce
  have zero: "replay_start bs = 0"
    using replay_start_first [OF _ later, of "CompactionBoundary y" "[]"] by (simp add: bs_def rest)
  have unmarked: "\<forall>b\<in>set (CompactionBoundary y # rest). \<not> is_marker_of (ids 0) b"
    using fresh by (auto simp: rest dest: in_set_dropD)
  have "position (is_marker_of (ids 0)) bs = Some (Suc (length rest))"
    using position_append [OF unmarked, of "CompactionMarker k # more"] W(7) by (simp add: bs_def)
  then have kept: "kept_past_summary bs 0 = (1, Suc (length rest))"
    using kept_past_summary_at [of 0 bs] W(4) by (simp add: bs_def)
  obtain r where r: "replay_of js ?q = Some r" using replay_exists [OF view] by blast
  let ?k = "(1, Suc (length rest))"
  have "loop_parts js ?q ?k 1 rest = those (map (block_items js ?q True) rest)" by (rule loop_parts_flagged) simp
  then have "loop_parts js ?q ?k 0 bs = (case those (map (block_items js ?q True) rest) of
      None \<Rightarrow> None
    | Some parts \<Rightarrow> map_option (\<lambda>later. boundary_items y # parts @ [] # later) (loop_parts js ?q ?k (Suc (Suc (length rest))) more))"
    by (simp add: bs_def loop_parts_append block_items_def option.map_comp comp_def split: option.split)
  moreover have "map_option rl_items (replay_of js ?q) = map_option concat (loop_parts js ?q ?k 0 bs)"
    unfolding replay_items blocks zero kept by simp
  moreover obtain last where "loop_parts js ?q ?k (Suc (Suc (length rest))) more = Some last" "concat last = still_items still_running"
    using W(9) [of js ?q ?k "Suc (Suc (length rest))"] by auto
  ultimately show "\<exists>r parts. replay_of js ?q = Some r \<and> those (map (block_items js ?q True) rest) = Some parts
      \<and> rl_items r = UserMessage [UserText COMPACTION_NOTE] # map (\<lambda>k. UserMessage [UserText (model_text k)]) kept
          @ [UserMessage [UserText (summary_text (bound_text summary))]] @ concat parts @ still_items still_running"
    using r W(5,6) by (auto simp: boundary_items_def split: option.splits)
qed

end
