(* ===== verification/Estimate_Facts.thy ===== *)
theory Estimate_Facts imports Requests Compaction begin

text \<open>
  What the estimates read: only the media of the blocks they weigh. Where a compaction pass cuts: at
  the end of an answered request, the latest that leaves the budget after it.
\<close>

section \<open>An estimate reads the media of its blocks\<close>

lemma medium_same:
  assumes "same_request q q'" "\<And>blob. source_reference (MediaSource source) = Some blob \<Longrightarrow>
      mv_media (rv_view q) blob = mv_media (rv_view q') blob"
  shows "message_medium js q kind source = message_medium js q' kind source"
  using assms view_bytes_same [OF assms(1)] by (cases source; cases kind) (simp_all add: message_medium_def same_request_def)

lemma document_same:
  assumes "same_request q q'" "\<And>blob. source_reference (DocumentSource source) = Some blob \<Longrightarrow>
      mv_media (rv_view q) blob = mv_media (rv_view q') blob"
  shows "message_document js q source = message_document js q' source" "tool_document js q source = tool_document js q' source"
  using assms view_bytes_same [OF assms(1)]
  by (cases source; simp add: message_document_def tool_document_def same_request_def)+

lemma tool_medium_same:
  assumes "same_request q q'" "\<And>blob. source_reference (ToolSource source) = Some blob \<Longrightarrow>
      mv_media (rv_view q) blob = mv_media (rv_view q') blob"
  shows "tool_medium js q kind source = tool_medium js q' kind source"
  using assms view_bytes_same [OF assms(1)] by (cases source) (simp add: tool_medium_def same_request_def)

lemma content_estimate_same:
  assumes "same_request q q'" "same_media q q' (content_references content)"
  shows "content_estimate js q content = content_estimate js q' content"
proof -
  have "content_part_estimate js q part = content_part_estimate js q' part" if "part \<in> set content" for part
  proof -
    have held: "content_source part = Some s \<Longrightarrow> source_reference s = Some blob \<Longrightarrow>
        mv_media (rv_view q) blob = mv_media (rv_view q') blob" for s blob
      using assms(2) that source_same [of q q' "content_sources content" s blob]
      by (force simp: content_references_def content_sources_def map_filter_def)
    show ?thesis
    proof (cases part)
      case (CImage source)
      with held medium_same [OF assms(1), of source] show ?thesis by (simp add: content_part_estimate_def)
    next
      case (CVideo source)
      with held medium_same [OF assms(1), of source] show ?thesis by (simp add: content_part_estimate_def)
    next
      case (CDocument source)
      with held document_same [OF assms(1), of source] show ?thesis by (simp add: content_part_estimate_def)
    qed (simp_all add: content_part_estimate_def)
  qed
  then have "map (content_part_estimate js q) content = map (content_part_estimate js q') content" by simp
  then show ?thesis by (simp add: content_estimate_def del: map_eq_conv)
qed

lemma lines_estimate_same:
  assumes "same_request q q'" "same_media q q' (List.map_filter source_reference (List.map_filter result_source output))"
  shows "lines_estimate js q lines output = lines_estimate js q' lines output"
proof -
  have "result_estimate js q part = result_estimate js q' part" if "part \<in> set output" for part
  proof -
    have held: "result_source part = Some s \<Longrightarrow> source_reference s = Some blob \<Longrightarrow>
        mv_media (rv_view q) blob = mv_media (rv_view q') blob" for s blob
      using assms(2) that source_same [of q q' "List.map_filter result_source output" s blob] by (force simp: map_filter_def)
    show ?thesis
    proof (cases part)
      case (RImage source)
      with held tool_medium_same [OF assms(1), of source] show ?thesis by (simp add: result_estimate_def)
    next
      case (RVideo source)
      with held tool_medium_same [OF assms(1), of source] show ?thesis by (simp add: result_estimate_def)
    next
      case (RDocument source)
      with held document_same [OF assms(1), of source] show ?thesis by (simp add: result_estimate_def)
    qed (simp_all add: result_estimate_def)
  qed
  then have "map (result_estimate js q) output = map (result_estimate js q') output" by simp
  then show ?thesis by (simp add: lines_estimate_def del: map_eq_conv)
qed

lemma with_comments_same:
  assumes "same_request q q'" "same_media q q' (List.map_filter source_reference (comment_sources comments @ content_sources content))"
  shows "with_comments js q content comments = with_comments js q' content comments"
  using assms content_estimate_same [OF assms(1), of content js] content_estimate_same [OF assms(1), of "comments_content comments" js]
  by (simp add: with_comments_def content_references_def comments_content_sources split: option.split)

lemma block_tokens_same:
  assumes "same_request q q'" "same_media q q' (references b)"
  shows "block_tokens js q b = block_tokens js q' b"
proof -
  have "block_estimate js q b = block_estimate js q' b"
    using assms with_comments_same [OF assms(1)] lines_estimate_same [OF assms(1)]
    by (cases b) (simp_all add: block_estimate_def references_def)
  then show ?thesis by (simp add: block_tokens_def)
qed

section \<open>A view weighs every block\<close>

lemma medium_Some:
  assumes "\<And>blob. source_reference (MediaSource source) = Some blob \<Longrightarrow> mv_media (rv_view q) blob \<noteq> None"
  shows "message_medium js q kind source \<noteq> None"
  using assms by (cases source) (auto simp: message_medium_def Let_def view_bytes_Some)

lemma content_estimate_Some:
  assumes "view_has q (content_references content)"
  shows "content_estimate js q content \<noteq> None"
proof -
  have "content_part_estimate js q part \<noteq> None" if "part \<in> set content" for part
    using user_part_Some [OF assms that, of js]
    by (cases part) (simp_all add: replay_user_part_def content_part_estimate_def)
  then show ?thesis using those_map_Some [of content "content_part_estimate js q"] by (simp add: content_estimate_def)
qed

lemma lines_estimate_Some:
  assumes "view_has q (List.map_filter source_reference (List.map_filter result_source output))"
  shows "lines_estimate js q lines output \<noteq> None"
proof -
  have "result_estimate js q part \<noteq> None" if "part \<in> set output" for part
    using result_Some [OF assms that, of js]
    by (cases part) (simp_all add: replay_result_def result_estimate_def)
  then show ?thesis using those_map_Some [of "output" "result_estimate js q"] by (simp add: lines_estimate_def)
qed

lemma with_comments_Some:
  assumes "view_has q (List.map_filter source_reference (comment_sources comments @ content_sources content))"
  shows "with_comments js q content comments \<noteq> None"
  using assms content_estimate_Some [of q content js] content_estimate_Some [of q "comments_content comments" js]
  by (auto simp: with_comments_def content_references_def comments_content_sources split: option.splits)

lemma block_tokens_Some:
  assumes "view_has q (references b)"
  shows "block_tokens js q b \<noteq> None"
proof -
  have "block_estimate js q b \<noteq> None"
    using assms with_comments_Some [of q] lines_estimate_Some [of q]
    by (cases b) (simp_all add: block_estimate_def references_def)
  then show ?thesis by (simp add: block_tokens_def)
qed

lemma blocks_tokens_Some: "\<forall>b\<in>set bs. view_has q (references b) \<Longrightarrow> blocks_tokens js q bs \<noteq> None"
  using those_map_Some [of bs "block_tokens js q"] by (simp add: blocks_tokens_def block_tokens_Some)

lemma those_append:
  "those (xs @ ys) = (case those xs of None \<Rightarrow> None | Some as \<Rightarrow> map_option ((@) as) (those ys))"
  by (induction xs) (auto simp: map_option_case split: option.splits)

lemma blocks_tokens_append:
  "blocks_tokens js q (xs @ ys) =
     (case blocks_tokens js q xs of None \<Rightarrow> None | Some a \<Rightarrow> map_option ((+) a) (blocks_tokens js q ys))"
  by (auto simp: blocks_tokens_def those_append map_option_case split: option.splits)

section \<open>The session's estimate is the request's\<close>

lemma view_of_suffix:
  assumes "model_view_of start blocks m = Inr v"
  shows "\<exists>v'. model_view_of (start + n) (drop n blocks) m = Inr v'"
proof -
  have "unheld m blocks = []" using assms by (simp add: model_view_of_def split: if_splits)
  then have "unheld m (drop n blocks) = []" unfolding unheld_Nil by (auto dest: in_set_dropD)
  then show ?thesis by (simp add: model_view_of_def)
qed

lemma estimate_of_view:
  assumes "model_view_of start replayed m = Inr v"
  shows "context_estimate js start replayed m model limits tools prompt
      = map_option Inr (context_tokens js (request_view_of v model limits tools) prompt)"
    and "context_tokens js (request_view_of v model limits tools) prompt \<noteq> None"
proof -
  let ?q = "request_view_of v model limits tools"
  define a where "a = context_anchor_of replayed model"
  obtain v' where v': "model_view_of (start + ca_from a) (drop (ca_from a) replayed) m = Inr v'"
    using view_of_suffix [OF assms] by blast
  let ?q' = "request_view_of v' model limits tools"
  have "block_tokens js ?q b = block_tokens js ?q' b" if "b \<in> set (drop (ca_from a) replayed)" for b
    by (rule block_tokens_same [OF same_request_views])
      (use that in \<open>auto simp: same_media_def view_of_holds [OF assms] view_of_holds [OF v'] dest: in_set_dropD\<close>)
  then have "map (block_tokens js ?q) (drop (ca_from a) replayed) = map (block_tokens js ?q') (drop (ca_from a) replayed)" by simp
  then have same: "blocks_tokens js ?q (drop (ca_from a) replayed) = blocks_tokens js ?q' (drop (ca_from a) replayed)"
    by (simp add: blocks_tokens_def del: map_eq_conv)
  have blocks: "mv_blocks v = replayed" "mv_blocks v' = drop (ca_from a) replayed"
    using view_of_blocks [OF assms] view_of_blocks [OF v'] by simp_all
  show "context_estimate js start replayed m model limits tools prompt = map_option Inr (context_tokens js ?q prompt)"
    using v' same blocks by (simp add: context_estimate_def context_tokens_def Let_def a_def option.map_comp comp_def)
  have "view_has ?q (references b)" if "b \<in> set replayed" for b
    using view_of_holds [OF assms that] by (simp add: view_has_def)
  then have "blocks_tokens js ?q (drop (ca_from a) replayed) \<noteq> None"
    by (intro blocks_tokens_Some) (auto dest: in_set_dropD)
  then show "context_tokens js ?q prompt \<noteq> None" using blocks by (simp add: context_tokens_def Let_def a_def)
qed

end
