(* ===== verification/Window_Facts.thy ===== *)
theory Window_Facts imports Estimate_Facts begin

text \<open>
  Where a compaction pass cuts: the ends of the answered requests are in order, each right before an
  answer, and the cut is the last of the model's own that leaves the budget after it.
\<close>

section \<open>The ends of answered requests\<close>

text \<open>
  An end: the blocks from it to the next response are an answer, and the block before it, if it is
  not where the search starts, is not part of one.
\<close>

definition answer_begins :: "block list \<Rightarrow> nat \<Rightarrow> nat \<Rightarrow> bool" where
  "answer_begins blocks floor e =
     (floor \<le> e \<and> (e = floor \<or> \<not> is_answer (blocks ! (e - 1)))
      \<and> (\<exists>k<length blocks. e \<le> k \<and> is_response (blocks ! k) \<and> (\<forall>j. e \<le> j \<and> j < k \<longrightarrow> is_answer (blocks ! j))))"

lemma response_no_answer: "is_response b \<Longrightarrow> \<not> is_answer b"
  by (cases b) auto

lemma answer_start:
  assumes "index < length blocks" "floor \<le> index" "is_response (blocks ! index)"
  defines "e \<equiv> case rposition (Not \<circ> is_answer) (drop floor (take index blocks)) of
      Some before \<Rightarrow> floor + before + 1 | None \<Rightarrow> floor"
  shows "answer_begins blocks floor e" "e \<le> index"
    and "\<And>k. floor \<le> k \<Longrightarrow> k < index \<Longrightarrow> \<not> is_answer (blocks ! k) \<Longrightarrow> k < e"
proof -
  let ?xs = "drop floor (take index blocks)"
  have len: "length ?xs = index - floor" and at: "j < index - floor \<Longrightarrow> ?xs ! j = blocks ! (floor + j)" for j
    using assms(1,2) by simp_all
  have "e \<le> index \<and> floor \<le> e \<and> (e = floor \<or> \<not> is_answer (blocks ! (e - 1)))
      \<and> (\<forall>j. e \<le> j \<and> j < index \<longrightarrow> is_answer (blocks ! j))"
  proof (cases "rposition (Not \<circ> is_answer) ?xs")
    case None
    then have "is_answer (blocks ! j)" if "floor \<le> j" "j < index" for j
      using that at [of "j - floor"] len nth_mem [of "j - floor" ?xs] by (simp add: rposition_None)
    with None assms(2) show ?thesis by (simp add: e_def)
  next
    case (Some i)
    then have i: "i < index - floor" "\<not> is_answer (blocks ! (floor + i))"
      "\<And>j. i < j \<Longrightarrow> j < index - floor \<Longrightarrow> is_answer (blocks ! (floor + j))"
      using len at by (auto simp: rposition_Some)
    have "is_answer (blocks ! j)" if "floor + i + 1 \<le> j" "j < index" for j
      using i(3) [of "j - floor"] that by simp
    with Some i(1,2) show ?thesis by (simp add: e_def)
  qed
  then show "answer_begins blocks floor e" "e \<le> index"
      "\<And>k. floor \<le> k \<Longrightarrow> k < index \<Longrightarrow> \<not> is_answer (blocks ! k) \<Longrightarrow> k < e"
    using assms(1,3) unfolding answer_begins_def by (auto simp: not_less)
qed

lemma answered_loop_facts:
  assumes "floor \<le> index" "index \<le> length blocks"
    and "\<forall>e\<in>fst ` set acc. answer_begins blocks floor e" "sorted_wrt (<) (map fst acc)"
    and "acc \<noteq> [] \<Longrightarrow> \<exists>k. fst (last acc) \<le> k \<and> floor \<le> k \<and> k < index \<and> is_response (blocks ! k)"
  shows "(\<forall>e\<in>fst ` set (answered_loop blocks floor index acc (drop index blocks)). answer_begins blocks floor e)
    \<and> sorted_wrt (<) (map fst (answered_loop blocks floor index acc (drop index blocks)))"
  using assms
proof (induction "length blocks - index" arbitrary: index acc)
  case 0
  then show ?case by simp
next
  case (Suc n)
  then have index: "index < length blocks" by simp
  then have step: "drop index blocks = blocks ! index # drop (Suc index) blocks" by (simp add: Cons_nth_drop_Suc)
  have IH: "\<And>acc'. \<forall>e\<in>fst ` set acc'. answer_begins blocks floor e \<Longrightarrow> sorted_wrt (<) (map fst acc') \<Longrightarrow>
      (acc' \<noteq> [] \<Longrightarrow> \<exists>k. fst (last acc') \<le> k \<and> floor \<le> k \<and> k < Suc index \<and> is_response (blocks ! k)) \<Longrightarrow>
      (\<forall>e\<in>fst ` set (answered_loop blocks floor (Suc index) acc' (drop (Suc index) blocks)). answer_begins blocks floor e)
      \<and> sorted_wrt (<) (map fst (answered_loop blocks floor (Suc index) acc' (drop (Suc index) blocks)))"
    by (rule Suc.hyps(1)) (use Suc.hyps(2) Suc.prems(1) index in simp_all)
  show ?case
  proof (cases "is_response (blocks ! index)")
    case False
    then have "answered_loop blocks floor index acc (drop index blocks)
        = answered_loop blocks floor (Suc index) acc (drop (Suc index) blocks)"
      unfolding step by (cases "blocks ! index") simp_all
    moreover have "acc \<noteq> [] \<Longrightarrow> \<exists>k. fst (last acc) \<le> k \<and> floor \<le> k \<and> k < Suc index \<and> is_response (blocks ! k)"
      using Suc.prems(5) less_SucI by blast
    ultimately show ?thesis using IH [OF Suc.prems(3,4)] by simp
  next
    case True
    then obtain r where r: "blocks ! index = Response r" by (cases "blocks ! index") auto
    define e where "e = (case rposition (Not \<circ> is_answer) (drop floor (take index blocks)) of
        Some before \<Rightarrow> floor + before + 1 | None \<Rightarrow> floor)"
    note E = answer_start [OF index Suc.prems(1) True, folded e_def]
    have later: "fst (last acc) < e" if "acc \<noteq> []"
    proof -
      from Suc.prems(5) [OF that] obtain k where k: "fst (last acc) \<le> k" "floor \<le> k" "k < index" "is_response (blocks ! k)" by blast
      with E(3) [OF k(2,3) response_no_answer [OF k(4)]] show ?thesis by simp
    qed
    let ?acc = "acc @ [(e, block_model r)]"
    have eq: "answered_loop blocks floor index acc (drop index blocks) = answered_loop blocks floor (Suc index) ?acc (drop (Suc index) blocks)"
      unfolding step r using later by (auto simp: e_def [symmetric] Let_def)
    have begins: "\<forall>x\<in>fst ` set ?acc. answer_begins blocks floor x" using Suc.prems(3) E(1) by simp
    have sorted: "sorted_wrt (<) (map fst ?acc)"
    proof -
      have sorted: "sorted_wrt (<) (map fst xs) \<Longrightarrow> x \<in> fst ` set xs \<Longrightarrow> x \<le> fst (last xs)" for x :: nat and xs :: "(nat \<times> model_selection) list"
        by (induction xs rule: rev_induct) (auto simp: sorted_wrt_append less_imp_le)
      have "x < e" if "x \<in> fst ` set acc" for x
        using sorted [OF Suc.prems(4) that] later that by fastforce
      with Suc.prems(4) show ?thesis by (simp add: sorted_wrt_append)
    qed
    have response: "\<exists>k. fst (last ?acc) \<le> k \<and> floor \<le> k \<and> k < Suc index \<and> is_response (blocks ! k)"
      using E(2) True Suc.prems(1) by (intro exI [of _ index]) simp
    show ?thesis unfolding eq by (rule IH [OF begins sorted response])
  qed
qed

definition answer_floor :: "block list \<Rightarrow> nat" where
  "answer_floor blocks = (case rposition is_compaction blocks of Some c \<Rightarrow> c + 1 | None \<Rightarrow> 0)"

lemma answer_floor_within: "answer_floor blocks \<le> length blocks" "replay_start blocks \<le> answer_floor blocks"
proof -
  show "answer_floor blocks \<le> length blocks"
    by (auto simp: answer_floor_def dest: rposition_less split: option.splits)
  have kinds: "is_boundary b \<Longrightarrow> is_compaction b" for b by (cases b) auto
  show "replay_start blocks \<le> answer_floor blocks"
  proof (cases "rposition is_boundary blocks")
    case (Some i)
    then have i: "i < length blocks" "is_compaction (blocks ! i)" by (auto simp: rposition_Some kinds)
    then obtain c where c: "rposition is_compaction blocks = Some c" by (cases "rposition is_compaction blocks") (auto simp: rposition_None)
    with i have "i \<le> c" by (auto simp: rposition_Some not_less [symmetric])
    with Some c show ?thesis by (simp add: replay_start_def answer_floor_def)
  qed (simp add: replay_start_def)
qed

lemma answered_ends_facts:
  "\<forall>e\<in>set (answered_ends blocks). answer_begins blocks (answer_floor blocks) e" "sorted_wrt (<) (answered_ends blocks)"
  using answered_loop_facts [of "answer_floor blocks" "answer_floor blocks" blocks "[]"] answer_floor_within(1)
  by (simp_all add: answered_ends_def answered_requests_def Let_def answer_floor_def)

section \<open>The last end that leaves the budget\<close>

definition tokens_after :: "json_codec \<Rightarrow> request_view \<Rightarrow> nat \<Rightarrow> nat" where
  "tokens_after js q n = (case blocks_tokens js q (drop n (request_blocks q)) of Some t \<Rightarrow> t | None \<Rightarrow> 0)"

lemma tokens_split:
  assumes "\<forall>b\<in>set (request_blocks q). view_has q (references b)" "e \<le> n" "n \<le> length (request_blocks q)"
  shows "blocks_tokens js q (drop e (take n (request_blocks q))) = Some (tokens_after js q e - tokens_after js q n)
    \<and> tokens_after js q n \<le> tokens_after js q e"
proof -
  let ?bs = "request_blocks q"
  have "drop e ?bs = drop e (take n ?bs) @ drop n ?bs"
    using assms(2,3) by (metis append_take_drop_id drop_append drop_drop le_add_diff_inverse2 length_take min.absorb2 diff_is_0_eq drop0)
  moreover obtain a b where "blocks_tokens js q (drop e (take n ?bs)) = Some a" "blocks_tokens js q (drop n ?bs) = Some b"
  proof -
    have "blocks_tokens js q (drop e (take n ?bs)) \<noteq> None" "blocks_tokens js q (drop n ?bs) \<noteq> None"
      using assms(1) by (auto intro!: blocks_tokens_Some dest!: in_set_dropD in_set_takeD simp del: not_None_eq)
    then show thesis using that by blast
  qed
  ultimately show ?thesis by (simp add: tokens_after_def blocks_tokens_append)
qed

lemma cut_with_budget_finds:
  assumes "\<forall>b\<in>set (request_blocks q). view_has q (references b)"
    and "sorted_wrt (>) (n # ends)" "n \<le> length (request_blocks q)"
  shows "cut_with_budget js q budget current (tokens_after js q n) n ends
    = Some (case find (\<lambda>e. budget \<le> tokens_after js q e) ends of Some e \<Rightarrow> e | None \<Rightarrow> current)"
  using assms(2,3)
proof (induction ends arbitrary: n)
  case (Cons e ends)
  have split: "blocks_tokens js q (drop e (take n (request_blocks q))) = Some (tokens_after js q e - tokens_after js q n)"
      "tokens_after js q n \<le> tokens_after js q e"
    using tokens_split [OF assms(1), of e n js] Cons.prems by simp_all
  have "cut_with_budget js q budget current (tokens_after js q e) e ends
      = Some (case find (\<lambda>e. budget \<le> tokens_after js q e) ends of Some e \<Rightarrow> e | None \<Rightarrow> current)"
    using Cons by simp
  with split show ?case by simp
qed simp

end
