(* ===== verification/Replay_Properties.thy ===== *)
theory Replay_Properties imports Compaction_Facts Window_Facts Samples begin

text \<open>
  The properties of what the model receives: C10, C16 and C18 of replay, C22 and C24 of a
  compaction pass, C32 of the estimates.
\<close>

section \<open>Concrete requests\<close>

definition sample_js :: json_codec where
  "sample_js =
     \<lparr>js_parse = (\<lambda>_. None), js_envelope = en_content, js_message = am_content, js_usage = (\<lambda>_. ''{}''),
      js_tool = td_name, js_base64_len = (\<lambda>n. 4 * div_ceil n 3)\<rparr>"

definition sample_tool :: tool_definition where
  "sample_tool = \<lparr>td_name = ''shell'', td_description = ''Runs a command.'', td_input_schema = ''{}''\<rparr>"

definition sample_limits :: request_limits where
  "sample_limits = anthropic_messages (ms_model sample_model)"

definition sample_call :: block where
  "sample_call = ToolCall
     \<lparr>block_id = ''c1'', created_at = 3, request = Some ''u1'', block_model = sample_model,
      tc_tool_use_id = ''call1'', tc_tool_name = ''shell'', tc_input = ''ls'', tc_status = CallCompleted,
      tc_output = [RText ''a.txt''], tc_view = None, tc_writing_started_at = None, tc_ended_at = Some 4,
      tc_run = None, tc_entries = []\<rparr>"

definition sample_response :: block where
  "sample_response = Response
     \<lparr>block_id = ''r1'', created_at = 6, request = Some ''u1'', block_model = sample_model, rs_sent_at = None,
      rs_first_sent_at = None, rs_first_output_at = None,
      rs_usage = Some \<lparr>input_tokens = 10, output_tokens = 5, cache_read_tokens = 0, cache_write_tokens = 0\<rparr>\<rparr>"

text \<open>The view of blocks that name no medium.\<close>

definition plain_view :: "block list \<Rightarrow> model_view" where
  "plain_view blocks = \<lparr>mv_start = 0, mv_blocks = blocks, mv_media = (\<lambda>_. None)\<rparr>"

definition sample_request :: "block list \<Rightarrow> request_view" where
  "sample_request blocks = request_view_of (plain_view blocks) (ms_model sample_model) sample_limits [sample_tool]"

lemmas sample_blocks = sample_user_def sample_call_def sample_completed_def sample_response_def

lemma sample_references [simp]:
  "references sample_user = []" "references sample_call = []" "references sample_completed = []" "references sample_response = []"
  by (simp_all add: sample_blocks references_def comment_sources_def map_filter_simps)

lemma plain_view_of: "\<forall>b\<in>set blocks. references b = [] \<Longrightarrow> model_view_of 0 blocks (\<lambda>_. None) = Inr (plain_view blocks)"
proof -
  assume "\<forall>b\<in>set blocks. references b = []"
  then have "unheld (\<lambda>_. None) blocks = []" by (simp add: unheld_Nil)
  then show ?thesis by (simp add: model_view_of_def plain_view_def select_media_def)
qed

lemma kept_plain: "\<forall>b\<in>set blocks. \<not> is_boundary b \<Longrightarrow> kept_past_summary blocks s = (0, 0)"
proof -
  assume plain: "\<forall>b\<in>set blocks. \<not> is_boundary b"
  show ?thesis
  proof (cases "s < length blocks")
    case True
    then have "\<not> is_boundary (blocks ! s)" using plain by simp
    with True show ?thesis by (cases "blocks ! s") (simp_all add: kept_past_summary_at)
  qed (simp add: kept_past_summary_def get_at_def)
qed

lemma sample_kinds [simp]:
  "\<not> is_boundary sample_user" "\<not> is_compaction sample_user" "id_of sample_user = ''u1''" "entries sample_user = []"
  "\<not> is_boundary sample_completed" "\<not> is_boundary sample_call" "\<not> is_boundary sample_response"
  "\<not> is_compaction sample_completed" "\<not> is_compaction sample_call" "\<not> is_compaction sample_response"
  by (simp_all add: sample_blocks)

lemma short_text: "length (chars text) \<le> 16000 \<Longrightarrow> bound_text text = text"
  by (simp add: bound_text_def REPLAY_CHARS_def HEAD_CHARS_def TAIL_CHARS_def)

lemma sample_items:
  "block_items sample_js (sample_request bs) past sample_user = Some [UserMessage [UserText ''hello'']]"
  "block_items sample_js (sample_request bs) past sample_call =
     Some [ToolUse ''m'' ''call1'' ''shell'' (JsonString ''ls''), ToolResult ''call1'' [PartText ''a.txt''] False]"
  "block_items sample_js (sample_request bs) past sample_completed = Some [AssistantText ''m'' ''done'']"
  "block_items sample_js (sample_request bs) past sample_response = Some []"
proof -
  have short: "bound_text ''a.txt'' = ''a.txt''" "bound_text ''done'' = ''done''"
    by (intro short_text; simp add: ascii_chars ascii_def str_bytes_def)+
  show "block_items sample_js (sample_request bs) past sample_user = Some [UserMessage [UserText ''hello'']]"
    "block_items sample_js (sample_request bs) past sample_call =
      Some [ToolUse ''m'' ''call1'' ''shell'' (JsonString ''ls''), ToolResult ''call1'' [PartText ''a.txt''] False]"
    "block_items sample_js (sample_request bs) past sample_completed = Some [AssistantText ''m'' ''done'']"
    "block_items sample_js (sample_request bs) past sample_response = Some []"
    by (simp_all add: sample_blocks block_items_def call_items_def lead_content_def comments_content_def
        replay_user_part_def replay_result_def declares_def offers_def sample_request_def sample_tool_def tool_input_def
        sample_js_def sample_model_def short)
qed

lemma sample_replay:
  "replay_of sample_js (sample_request [sample_user]) =
     Some \<lparr>rl_items = [UserMessage [UserText ''hello'']],
           rl_blocks = [\<lparr>rb_id = ''u1'', rb_items = (0, 1), rb_entries = [], rb_past = False\<rparr>], rl_answered = 0\<rparr>"
  using sample_items(1) [of "[sample_user]"]
  by (simp add: replay_of_def Let_def sample_request_def plain_view_def replay_start_def latest_answer_def answered_ends_def
      answered_requests_def kept_plain add_items_def sample_user_def [THEN arg_cong, of "\<lambda>b. case b of Response r \<Rightarrow> True | _ \<Rightarrow> False"])

section \<open>The properties\<close>

text \<open>
  C10. A request begins with the request before it: as long as no compaction, switch, edit or retry
  comes between, blocks only follow those the last request carried, which may change in what the
  model does not read (their times, turns, views, runs), the session only comes to hold more media,
  and every item of the last request is an item of the next at its place. This keeps a vendor's
  prompt cache.
\<close>

theorem requests_begin_with_the_last_one:
  assumes "model_view_of start xs m = Inr v" "model_view_of start' zs m' = Inr v'"
    and "\<And>blob h. m blob = Some h \<Longrightarrow> m' blob = Some h"
    and "list_all2 reads_alike xs (take (length xs) zs)" "\<forall>b\<in>set (drop (length xs) zs). \<not> is_boundary b"
    and "replay_of js (request_view_of v model limits tools) = Some r"
  shows "\<exists>r'. replay_of js (request_view_of v' model limits tools) = Some r' \<and> prefix (rl_items r) (rl_items r')"
  by (rule request_extends [OF assms])

theorem requests_begin_with_the_last_one_witness:
  "\<exists>r. replay_of sample_js (sample_request [sample_user, sample_call, sample_response]) = Some r
     \<and> prefix [UserMessage [UserText ''hello'']] (rl_items r)"
  using requests_begin_with_the_last_one [OF plain_view_of [of "[sample_user]"]
      plain_view_of [of "[sample_user, sample_call, sample_response]"] _ _ _ sample_replay [unfolded sample_request_def]]
  by (simp add: sample_request_def reads_alike_refl)

text \<open>
  C16. Once there is a model's view of the blocks, replay never panics on it, whatever it holds: it
  gives items for the blocks from the last compaction on, the ranges of the blocks it lists follow one
  another without a gap from the first item to the last, none of them empty, and what the last
  answered request carried is among the items.
\<close>

theorem view_is_replayed_whole:
  assumes "model_view_of start blocks m = Inr v"
  shows "\<exists>r. replay_of js (request_view_of v model limits tools) = Some r
    \<and> consecutive 0 (map rb_items (rl_blocks r)) (length (rl_items r)) \<and> rl_answered r \<le> length (rl_items r)"
  using replay_exists [OF assms, of js model limits tools] replay_ranges by (fastforce simp: ranges_ok_def)

theorem view_is_replayed_whole_witness:
  "\<exists>r. replay_of sample_js (sample_request [sample_user, sample_call]) = Some r
    \<and> consecutive 0 (map rb_items (rl_blocks r)) (length (rl_items r))"
  using view_is_replayed_whole [OF plain_view_of [of "[sample_user, sample_call]"], of sample_js "ms_model sample_model" sample_limits "[sample_tool]"]
  by (auto simp: sample_request_def)

text \<open>
  C18. In a request every tool result stands right after its call, and every call is of a tool the
  request declares; once no call executes, each call is followed by its result.
\<close>

theorem results_follow_their_calls:
  assumes "replay_of js q = Some r"
  shows "(\<forall>before i output e later. rl_items r = before @ ToolResult i output e # later \<longrightarrow>
      (\<exists>earlier m n v. before = earlier @ [ToolUse m i n v]))
    \<and> (\<forall>before m i n v later. rl_items r = before @ ToolUse m i n v # later \<longrightarrow>
      declares q n \<and> (executing_free (drop (replay_start (request_blocks q)) (request_blocks q)) \<longrightarrow>
        (\<exists>output e rest. later = ToolResult i output e # rest)))"
proof -
  have "paired q False (rl_items r)" by (rule replay_paired [OF assms]) simp
  moreover have "executing_free (drop (replay_start (request_blocks q)) (request_blocks q)) \<Longrightarrow> paired q True (rl_items r)"
    by (rule replay_paired [OF assms])
  ultimately show ?thesis using paired_result paired_later paired_use by (metis inference_item.distinct(41))
qed

theorem results_follow_their_calls_witness:
  "declares (sample_request [sample_user, sample_call]) ''shell''"
proof -
  obtain r where r: "replay_of sample_js (sample_request [sample_user, sample_call]) = Some r"
    using replay_exists [OF plain_view_of [of "[sample_user, sample_call]"], of sample_js "ms_model sample_model" sample_limits "[sample_tool]"]
    by (auto simp: sample_request_def)
  have "map_option rl_items (replay_of sample_js (sample_request [sample_user, sample_call]))
      = Some ([UserMessage [UserText ''hello'']] @ ToolUse ''m'' ''call1'' ''shell'' (JsonString ''ls'')
          # [ToolResult ''call1'' [PartText ''a.txt''] False])"
    unfolding replay_items using sample_items [of "[sample_user, sample_call]"]
    by (simp add: sample_request_def plain_view_def kept_plain replay_start_def)
  with r have "rl_items r = [UserMessage [UserText ''hello'']] @ ToolUse ''m'' ''call1'' ''shell'' (JsonString ''ls'')
          # [ToolResult ''call1'' [PartText ''a.txt''] False]" by simp
  with results_follow_their_calls [OF r] show ?thesis by blast
qed

text \<open>
  C22. A compaction pass replaces the blocks before its cut and nothing else: the next request starts
  at the new boundary and carries the note, each of the user's messages it kept, the summary, then the
  items of every block after the cut, in order and marked as kept past a summary, and last what still
  runs. The boundary's identity is new: no marker names it yet.
\<close>

theorem pass_replaces_its_window:
  assumes "write_pass l ids now began turn model (log_replay_start l + c) summary kept compacted idle still_running = Some l'"
    and "0 < c" "\<forall>b\<in>set (lg_blocks l). \<not> is_marker_of (ids 0) b"
    and "model_view_of (log_replay_start l') (log_from l' (log_replay_start l')) m = Inr v"
  shows "log_replay_start l' = log_replay_start l + c
    \<and> (\<exists>r parts. replay_of js (request_view_of v facts limits tools) = Some r
      \<and> those (map (block_items js (request_view_of v facts limits tools) True)
          (drop c (log_from l (log_replay_start l)))) = Some parts
      \<and> rl_items r = UserMessage [UserText COMPACTION_NOTE] # map (\<lambda>k. UserMessage [UserText (model_text k)]) kept
          @ [UserMessage [UserText (summary_text (bound_text summary))]] @ concat parts
          @ (case still_running of None \<Rightarrow> [] | Some text \<Rightarrow> [UserMessage [bounded_part text]]))"
  using replay_after_pass(1) [OF assms]
    replay_after_pass(2) [OF assms, where js = js and facts = facts and limits = limits and tools = tools]
  by (simp add: still_items_def)

theorem pass_replaces_its_window_witness:
  "\<exists>l' r. write_pass sample_log (\<lambda>n. ''k'' @ show_nat n) 9 8 ''t1'' sample_model 1 ''so far'' [] 4 False None = Some l'
     \<and> log_replay_start l' = 1
     \<and> replay_of sample_js (request_view_of \<lparr>mv_start = 1, mv_blocks = log_from l' 1, mv_media = (\<lambda>_. None)\<rparr>
         (ms_model sample_model) sample_limits []) = Some r
     \<and> take 2 (rl_items r) = [UserMessage [UserText COMPACTION_NOTE], UserMessage [UserText (summary_text (bound_text ''so far''))]]"
proof -
  let ?ids = "\<lambda>n. ''k'' @ show_nat n"
  have start: "log_replay_start sample_log = 0"
    by (simp add: log_replay_start_def sample_log_eval replay_start_def sample_user_def sample_text_def)
  obtain l' where l': "write_pass sample_log ?ids 9 8 ''t1'' sample_model (log_replay_start sample_log + 1) ''so far'' [] 4 False None = Some l'"
    by (simp add: write_pass_def insert_compaction_boundary_def sample_log_eval log_len_def start Let_def)
  obtain y k more where W: "lg_start l' = 0" "lg_blocks l' = [sample_user, CompactionBoundary y, sample_text ''hi there'' 3, CompactionMarker k] @ more"
    by (rule write_pass_blocks [OF l']) (simp add: start sample_log_eval)
  have more: "more = []"
  proof -
    have "length (lg_blocks l') = 4"
      using l' by (auto simp: write_pass_def insert_compaction_boundary_def sample_log_eval log_len_def start Let_def
          push_compaction_marker_def append_block_def append_received_def note_end_keeps note_input_keeps insert_at_def)
    with W(2) show ?thesis by simp
  qed
  have blocks: "log_from l' 1 = [CompactionBoundary y, sample_text ''hi there'' 3, CompactionMarker k]"
    using W more by (simp add: log_from_def)
  have restart: "log_replay_start l' = 1"
    using W more by (simp add: log_replay_start_def replay_start_def sample_user_def sample_text_def)
  have "model_view_of 0 (log_from l' 1) (\<lambda>_. None) = Inr (plain_view (log_from l' 1))"
    by (rule plain_view_of, unfold blocks) (simp add: references_def sample_text_def map_filter_simps)
  then have "unheld (\<lambda>_. None) (log_from l' 1) = []" by (simp add: model_view_of_def split: if_splits)
  then have view: "model_view_of (log_replay_start l') (log_from l' (log_replay_start l')) (\<lambda>_. None)
      = Inr \<lparr>mv_start = 1, mv_blocks = log_from l' 1, mv_media = (\<lambda>_. None)\<rparr>"
    by (simp add: model_view_of_def restart select_media_def)
  have fresh: "\<forall>b\<in>set (lg_blocks sample_log). \<not> is_marker_of (?ids 0) b"
    by (simp add: sample_log_eval sample_user_def sample_text_def)
  from pass_replaces_its_window [OF l' _ fresh view, of sample_js "ms_model sample_model" sample_limits "[]"] start l' restart
  show ?thesis by fastforce
qed

text \<open>
  C24. A pass cuts where a request was answered: its window starts where the next request would and
  lies within the blocks; with an answer since the last compaction the cut is right before one, so
  that what follows begins with an answer the model gave; among the ends of the model's own requests
  it is the last whose blocks after it are worth the budget, and the last of them when none is. The
  blocks after any later end are worth less than the budget.
\<close>

definition own_ends :: "model_selection \<Rightarrow> block list \<Rightarrow> nat list" where
  "own_ends model blocks = map fst (filter (\<lambda>(_, by_model). same_model by_model model) (answered_requests blocks))"

lemma find_last:
  fixes xs :: "nat list" and P :: "nat \<Rightarrow> bool"
  assumes "sorted_wrt (<) xs" "xs \<noteq> []"
  defines "e \<equiv> case find P (rev xs) of Some e \<Rightarrow> e | None \<Rightarrow> last xs"
  shows "e \<in> set xs \<and> (\<forall>x\<in>set xs. e < x \<longrightarrow> \<not> P x) \<and> (\<not> P e \<longrightarrow> (\<forall>x\<in>set xs. x \<le> e \<and> \<not> P x))"
  using assms(1,2) unfolding e_def
proof (induction xs rule: rev_induct)
  case (snoc x xs)
  have below: "\<forall>y\<in>set xs. y < x" and sorted: "sorted_wrt (<) xs" using snoc.prems(1) by (simp_all add: sorted_wrt_append)
  show ?case
  proof (cases "P x")
    case True
    with below show ?thesis by force
  next
    case False
    show ?thesis
    proof (cases "find P (rev xs)")
      case None
      then have "\<forall>y\<in>set xs. \<not> P y" by (auto simp: find_None_iff)
      with None False below show ?thesis by (auto simp: less_imp_le)
    next
      case (Some y)
      then have "xs \<noteq> []" "P y" by (auto simp: find_Some_iff)
      with snoc.IH [OF sorted] Some False below show ?thesis by auto
    qed
  qed
qed simp

theorem pass_cuts_at_an_answer:
  assumes "model_view_of start blocks m = Inr v"
  shows "\<exists>w. compaction_window_of js (request_view_of v facts limits tools) model budget = Some w
    \<and> cw_start w = replay_start blocks \<and> cw_start w \<le> cw_cut w \<and> cw_cut w \<le> length blocks
    \<and> (answered_ends blocks \<noteq> [] \<longrightarrow> answer_begins blocks (answer_floor blocks) (cw_cut w))
    \<and> (own_ends model blocks \<noteq> [] \<longrightarrow> cw_cut w \<in> set (own_ends model blocks)
        \<and> (\<forall>e\<in>set (own_ends model blocks). cw_cut w < e \<longrightarrow>
             tokens_after js (request_view_of v facts limits tools) e < budget)
        \<and> (tokens_after js (request_view_of v facts limits tools) (cw_cut w) < budget \<longrightarrow>
             (\<forall>e\<in>set (own_ends model blocks). e \<le> cw_cut w
               \<and> tokens_after js (request_view_of v facts limits tools) e < budget)))"
proof -
  let ?q = "request_view_of v facts limits tools" and ?own = "own_ends model blocks"
  have q: "mv_blocks v = blocks" using view_of_blocks [OF assms] by simp
  have begins: "answer_begins blocks (answer_floor blocks) e \<and> replay_start blocks \<le> e \<and> e < length blocks"
    if "e \<in> set (answered_ends blocks)" for e
    using answered_ends_facts(1) that answer_floor_within(2) [of blocks] by (force simp: answer_begins_def)
  have ends: "set ?own \<subseteq> set (answered_ends blocks)" by (auto simp: own_ends_def answered_ends_def)
  have sorted: "sorted_wrt (<) ?own"
    using answered_ends_facts(2) [of blocks] by (auto simp: own_ends_def answered_ends_def sorted_wrt_map intro: sorted_wrt_filter)
  consider (unanswered) "answered_requests blocks = []" | (foreign) "answered_requests blocks \<noteq> []" "?own = []"
    | (own) "answered_requests blocks \<noteq> []" "?own \<noteq> []" by blast
  then show ?thesis
  proof cases
    case unanswered
    have "unanswered_input blocks \<le> length blocks"
      by (auto simp: unanswered_input_def rposition_Some Let_def split: option.splits simp: position_Some)
    with unanswered show ?thesis
      using answer_floor_within [of blocks] by (simp add: compaction_window_of_def q Let_def answered_ends_def own_ends_def)
  next
    case foreign
    then have "fst (last (answered_requests blocks)) \<in> set (answered_ends blocks)" by (simp add: answered_ends_def)
    from begins [OF this] foreign show ?thesis
      by (auto simp: compaction_window_of_def q Let_def own_ends_def [symmetric])
  next
    case own
    define cut_at where "cut_at = (case find (\<lambda>e. budget \<le> tokens_after js ?q e) (rev ?own) of Some e \<Rightarrow> e | None \<Rightarrow> last ?own)"
    note found = find_last [OF sorted own(2), of "\<lambda>e. budget \<le> tokens_after js ?q e", folded cut_at_def, unfolded not_le]
    have held: "\<forall>b\<in>set (request_blocks ?q). view_has ?q (references b)"
      using view_of_holds [OF assms] by (simp add: q view_has_def)
    have "sorted_wrt (>) (length blocks # rev ?own)"
      using sorted ends begins by (auto simp: sorted_wrt_rev)
    from cut_with_budget_finds [OF held this, of js budget "last ?own"]
    have "compaction_window_of js ?q model budget = Some \<lparr>cw_start = replay_start blocks, cw_cut = cut_at\<rparr>"
      using own by (simp add: compaction_window_of_def q Let_def own_ends_def [symmetric] tokens_after_def blocks_tokens_def
          cut_at_def)
    moreover have at: "cut_at \<in> set (answered_ends blocks)" using found ends by blast
    ultimately show ?thesis using begins [OF at] found
      by (intro exI [of _ "\<lparr>cw_start = replay_start blocks, cw_cut = cut_at\<rparr>"]) (simp add: less_imp_le)
  qed
qed

theorem pass_cuts_at_an_answer_witness:
  "\<exists>w. compaction_window_of sample_js (sample_request [sample_user, sample_call, sample_completed, sample_response]) sample_model 0 = Some w
     \<and> cw_start w = 0 \<and> cw_cut w \<in> set (own_ends sample_model [sample_user, sample_call, sample_completed, sample_response])"
proof -
  let ?bs = "[sample_user, sample_call, sample_completed, sample_response]"
  have own: "own_ends sample_model ?bs \<noteq> []"
    by (simp add: own_ends_def answered_requests_def sample_blocks same_model_def)
  have "replay_start ?bs = 0" by (simp add: replay_start_def)
  with own pass_cuts_at_an_answer [OF plain_view_of [of ?bs], of sample_js "ms_model sample_model" sample_limits "[sample_tool]" sample_model 0]
  show ?thesis by (auto simp: sample_request_def)
qed

text \<open>
  C32. The session estimates its context without assembling the request: from the blocks after the
  last usage it can rely on, with only their media, it gets what the whole request's view gives, and
  where the view exists it neither fails nor panics.
\<close>

theorem session_estimates_the_request:
  assumes "model_view_of start replayed m = Inr v"
  shows "\<exists>n. context_estimate js start replayed m model limits tools prompt = Some (Inr n)
    \<and> context_tokens js (request_view_of v model limits tools) prompt = Some n"
  using estimate_of_view [OF assms, of js model limits tools prompt] by auto

theorem session_estimates_the_request_witness:
  "\<exists>n. context_estimate sample_js 0 [sample_user, sample_call] (\<lambda>_. None) (ms_model sample_model) sample_limits [sample_tool] ''prompt'' = Some (Inr n)"
  using session_estimates_the_request [OF plain_view_of [of "[sample_user, sample_call]"], of sample_js "ms_model sample_model"
      sample_limits "[sample_tool]" "''prompt''"]
  by auto

text \<open>
  A text of a request is bounded by characters, never within one: a text of more than 16,000 keeps
  its first 8,000 and its last 8,000, with a note between them of how many were cut, and is valid
  UTF-8 again; a shorter one is as it was.
\<close>

theorem bounded_text_keeps_both_ends:
  assumes "is_str t"
  shows "is_str (bound_text t)
    \<and> (length (chars t) \<le> 16000 \<longrightarrow> bound_text t = t)
    \<and> (16000 < length (chars t) \<longrightarrow>
        chars (bound_text t) = take 8000 (chars t) @ chars (cut_note (length (chars t) - 16000))
          @ drop (length (chars t) - 8000) (chars t))"
  using bound_text_chars [OF assms] short_text [of t] assms
  by (cases "length (chars t) \<le> 16000") (simp_all add: REPLAY_CHARS_def HEAD_CHARS_def TAIL_CHARS_def)

theorem bounded_text_keeps_both_ends_witness:
  "chars (bound_text (replicate 16001 CHR ''a''))
    = chars (replicate 8000 CHR ''a'') @ chars (cut_note 1) @ chars (replicate 8000 CHR ''a'')"
proof -
  have ascii: "ascii (replicate n CHR ''a'')" for n by (induction n) (simp_all add: ascii_def)
  then have "is_str (replicate 16001 CHR ''a'')" by (rule ascii_string)
  from bounded_text_keeps_both_ends [OF this] show ?thesis using ascii
    by (simp add: ascii_chars str_bytes_def map_replicate min_def)
qed

end
