(* ===== verification/Changes.thy ===== *)
theory Changes imports Runs begin

text \<open>
  The files a call, its run and its request changed (\<open>crates/agent-store/src/changes.rs\<close>): a tracking
  of files across calls, the lists a shell call's view holds, and making them again of a stored
  transcript. The diff of two texts is a library's, a parameter, and so is \<open>is_inside\<close>, which
  rests on a library of paths. A panic is \<open>None\<close>.
\<close>

section \<open>Lines (command-protocol/src/line\_counts.rs, media.rs)\<close>

definition begins_with :: "byte list \<Rightarrow> nat list \<Rightarrow> bool" where
  "begins_with bytes start = (map unat (take (length start) bytes) = start)"

definition sniff_media_type :: "byte list \<Rightarrow> string option" where
  "sniff_media_type bytes =
     (if length bytes < 12 then None
      else if begins_with bytes [0x89, 0x50, 0x4E, 0x47] then Some ''image/png''
      else if begins_with bytes [0xFF, 0xD8, 0xFF] then Some ''image/jpeg''
      else if begins_with bytes (str_bytes ''GIF87a'') \<or> begins_with bytes (str_bytes ''GIF89a'') then Some ''image/gif''
      else if begins_with bytes (str_bytes ''RIFF'') \<and> map unat (take 4 (drop 8 bytes)) = str_bytes ''WEBP''
        then Some ''image/webp''
      else if begins_with bytes [0x1A, 0x45, 0xDF, 0xA3] then Some ''video/webm''
      else if begins_with bytes (str_bytes ''%PDF-'') then Some ''application/pdf''
      else if map unat (take 4 (drop 4 bytes)) = str_bytes ''ftyp'' then
        (let brand = take 4 (drop 8 bytes)
         in if map unat brand = str_bytes ''qt  '' then Some ''video/quicktime''
            else if begins_with brand (str_bytes ''M4V'') then Some ''video/x-m4v''
            else Some ''video/mp4'')
      else None)"

definition BINARY_NUL_BYTES :: nat where
  "BINARY_NUL_BYTES = 8 * 1024"

definition is_binary :: "byte list \<Rightarrow> bool" where
  "is_binary bytes = (0 \<in> set (take BINARY_NUL_BYTES bytes) \<or> sniff_media_type bytes \<noteq> None)"

definition line_count :: "byte list \<Rightarrow> nat" where
  "line_count bytes =
     (let newlines = length (filter (\<lambda>b. b = 0x0A) bytes)
      in if bytes = [] then 0 else if last bytes = 0x0A then newlines else newlines + 1)"

type_synonym diff = "byte list \<Rightarrow> byte list \<Rightarrow> nat \<times> nat"

definition lines_between :: "diff \<Rightarrow> byte list option \<Rightarrow> byte list option \<Rightarrow> nat \<times> nat" where
  "lines_between diff before after =
     (if (case before of Some b \<Rightarrow> is_binary b | None \<Rightarrow> False) \<or> (case after of Some a \<Rightarrow> is_binary a | None \<Rightarrow> False)
      then (0, 0)
      else case (before, after) of
        (None, Some a) \<Rightarrow> (line_count a, 0)
      | (Some b, None) \<Rightarrow> (0, line_count b)
      | (Some b, Some a) \<Rightarrow> diff b a
      | (None, None) \<Rightarrow> (0, 0))"

section \<open>Paths of a device\<close>

definition is_separator :: "char \<Rightarrow> bool" where
  "is_separator c = (c = CHR ''/'' \<or> c = CHR 0x5C)"

definition trim_separators :: "string \<Rightarrow> string" where
  "trim_separators path = rev (dropWhile is_separator (rev path))"

definition strip_slash :: "string \<Rightarrow> string" where
  "strip_slash path = (if path \<noteq> [] \<and> last path = CHR ''/'' then butlast path else path)"

definition is_within :: "string \<Rightarrow> string \<Rightarrow> bool" where
  "is_within path parent =
     (let parent = trim_separators parent
      in path = parent
         \<or> (take (length parent) path = parent
            \<and> (case drop (length parent) path of c # _ \<Rightarrow> is_separator c | [] \<Rightarrow> False)))"

text \<open>\<open>max_by_key\<close>: the last of the longest.\<close>

fun nearest :: "edited_file option \<Rightarrow> edited_file list \<Rightarrow> edited_file option" where
  "nearest best [] = best"
| "nearest best (f # fs) =
     nearest (case best of None \<Rightarrow> Some f | Some b \<Rightarrow> if length (ef_path b) \<le> length (ef_path f) then Some f else best) fs"

definition marked :: "edited_file list \<Rightarrow> string \<Rightarrow> bool" where
  "marked own path =
     (case nearest None (filter (\<lambda>f. is_within path (ef_path f)) own) of Some f \<Rightarrow> ef_outside f | None \<Rightarrow> False)"

section \<open>Files followed across calls\<close>

record tracked =
  tr_path :: string
  tr_existed :: bool
  tr_removed :: bool
  tr_from :: "string option"
  tr_outside :: bool
  tr_edits :: "file_edit list"

definition tracked_kind :: "tracked \<Rightarrow> edit_kind" where
  "tracked_kind t =
     (if tr_removed t then Deleted else if \<not> tr_existed t then Added else if tr_from t \<noteq> None then Renamed else Modified)"

text \<open>The calls by their command, numbered as they come, and the files.\<close>

record tracking =
  tg_order :: "(command_id \<times> nat) list"
  tg_files :: "tracked list"

definition no_tracking :: tracking where
  "no_tracking = \<lparr>tg_order = [], tg_files = []\<rparr>"

fun remove_tracked :: "string \<Rightarrow> bool \<Rightarrow> tracked \<Rightarrow> tracked option" where
  "remove_tracked path outside t =
     (if \<not> is_within (tr_path t) path then Some t
      else if \<not> tr_existed t then None
      else Some (t\<lparr>tr_removed := True, tr_outside := outside,
                   tr_path := (case tr_from t of Some from \<Rightarrow> from | None \<Rightarrow> tr_path t), tr_from := None\<rparr>))"

definition tracking_remove :: "string \<Rightarrow> edited_file list \<Rightarrow> tracked list \<Rightarrow> tracked list" where
  "tracking_remove path own files =
     (let outside = marked own (strip_slash path)
      in List.map_filter (remove_tracked path outside) files
         @ (if list_ex (\<lambda>t. is_within (tr_path t) path) files then []
            else [\<lparr>tr_path = strip_slash path, tr_existed = True, tr_removed = True, tr_from = None,
                   tr_outside = outside, tr_edits = []\<rparr>]))"

definition edit_rank :: "(command_id \<times> nat) list \<Rightarrow> file_edit \<Rightarrow> nat" where
  "edit_rank order edit = (case map_of order (fe_call edit) of Some n \<Rightarrow> n | None \<Rightarrow> 0)"

text \<open>The new path of a file within a renamed one; \<open>None\<close>: the slice of its old path panics.\<close>

definition renamed_path :: "string \<Rightarrow> string \<Rightarrow> string \<Rightarrow> string option" where
  "renamed_path from to old =
     (let n = length (strip_slash from) in if is_char_boundary old n then Some (to @ drop n old) else None)"

text \<open>One file a rename moves, at a position, with the paths that arrived so far.\<close>

definition move_tracked ::
  "edited_file list \<Rightarrow> (command_id \<times> nat) list \<Rightarrow> string \<Rightarrow> string \<Rightarrow> nat \<Rightarrow> tracked list \<times> string list
     \<Rightarrow> (tracked list \<times> string list) option" where
  "move_tracked own order from to at state =
     (case state of (files, arrived) \<Rightarrow>
        if length files \<le> at then None
        else let t = files ! at; old = tr_path t
        in case renamed_path from to old of
             None \<Rightarrow> None
           | Some path \<Rightarrow>
               (case position (\<lambda>x. tr_path x = path) files of
                  None \<Rightarrow>
                    let original = (case tr_from t of Some o' \<Rightarrow> o' | None \<Rightarrow> old);
                        from' = (if tr_existed t then (if original \<noteq> path then Some original else None) else tr_from t)
                    in Some (files[at := t\<lparr>tr_from := from', tr_outside := marked own path, tr_path := path\<rparr>],
                             arrived @ [path])
                | Some target \<Rightarrow>
                    let kept = files ! target;
                        merged = kept\<lparr>tr_edits := sort_key (edit_rank order) (tr_edits kept @ tr_edits t),
                                      tr_removed := False, tr_outside := marked own path\<rparr>;
                        left = take (max at target) files @ drop (Suc (max at target)) files
                    in if min at target < length left then Some (left[min at target := merged], arrived) else None))"

fun move_each ::
  "edited_file list \<Rightarrow> (command_id \<times> nat) list \<Rightarrow> string \<Rightarrow> string \<Rightarrow> nat list \<Rightarrow> tracked list \<times> string list
     \<Rightarrow> (tracked list \<times> string list) option" where
  "move_each own order from to [] state = Some state"
| "move_each own order from to (at # ats) state =
     (case move_tracked own order from to at state of
        None \<Rightarrow> None
      | Some state \<Rightarrow> move_each own order from to ats state)"

definition tracking_rename ::
  "edited_file list \<Rightarrow> (command_id \<times> nat) list \<Rightarrow> string \<Rightarrow> string \<Rightarrow> tracked list \<times> string list
     \<Rightarrow> (tracked list \<times> string list) option" where
  "tracking_rename own order from to state =
     (case state of (files, arrived) \<Rightarrow>
        let moved = filter (\<lambda>at. \<not> tr_removed (files ! at) \<and> is_within (tr_path (files ! at)) from) [0..<length files]
        in if moved = [] then
             (if list_ex (\<lambda>t. tr_path t = to) files then Some (files, arrived)
              else Some (files @ [\<lparr>tr_path = to, tr_existed = True, tr_removed = False, tr_from = Some from,
                                   tr_outside = marked own to, tr_edits = []\<rparr>], arrived @ [to]))
           else move_each own order from to (rev moved) (files, arrived))"

fun apply_changes ::
  "edited_file list \<Rightarrow> (command_id \<times> nat) list \<Rightarrow> path_change list \<Rightarrow> tracked list \<times> string list
     \<Rightarrow> (tracked list \<times> string list) option" where
  "apply_changes own order [] state = Some state"
| "apply_changes own order (change # changes) state =
     (case (case change of
              PathRemoved path \<Rightarrow> Some (tracking_remove path own (fst state), snd state)
            | PathRenamed from to \<Rightarrow> tracking_rename own order from to state) of
        None \<Rightarrow> None
      | Some state \<Rightarrow> apply_changes own order changes state)"

definition call_edits :: "command_id \<Rightarrow> edited_file \<Rightarrow> file_edit list" where
  "call_edits call f =
     map (\<lambda>(segment, e). \<lparr>fe_call = call, fe_path = ef_path f, fe_segment = min segment 4294967295,
            fe_created = (ef_kind f = Added \<and> segment = 0), fe_copies = es_copies e, fe_binary = es_binary e\<rparr>)
       (enumerate 0 (ef_edits f))"

text \<open>A file the call wrote joins the tracked ones.\<close>

definition join_file ::
  "command_id \<Rightarrow> edited_file list \<Rightarrow> string list \<Rightarrow> tracked list \<Rightarrow> edited_file \<Rightarrow> tracked list" where
  "join_file call own arrived files f =
     (let files' = (if list_ex (\<lambda>t. tr_path t = ef_path f) files then files
                    else files @ [\<lparr>tr_path = ef_path f, tr_existed = (ef_kind f = Modified), tr_removed = False,
                                   tr_from = None, tr_outside = False, tr_edits = []\<rparr>])
      in case position (\<lambda>t. tr_path t = ef_path f) files' of
           None \<Rightarrow> files'
         | Some at \<Rightarrow>
             let t = files' ! at;
                 replaced = (ef_path f \<in> set arrived \<and> ef_kind f = Modified)
             in files'[at := t\<lparr>tr_existed := tr_existed t \<or> replaced,
                               tr_from := (if replaced then None else tr_from t),
                               tr_removed := False, tr_outside := marked own (ef_path f),
                               tr_edits := tr_edits t @ call_edits call f\<rparr>])"

definition note_call :: "command_id \<Rightarrow> (command_id \<times> nat) list \<Rightarrow> (command_id \<times> nat) list" where
  "note_call call order = (if map_of order call = None then order @ [(call, length order)] else order)"

definition tracking_add ::
  "command_id \<Rightarrow> edited_file list \<Rightarrow> path_change list \<Rightarrow> edited_file list \<Rightarrow> tracking \<Rightarrow> tracking option" where
  "tracking_add call report changes own tg =
     (let order = note_call call (tg_order tg)
      in case apply_changes own order changes (tg_files tg, []) of
           None \<Rightarrow> None
         | Some (files, arrived) \<Rightarrow>
             Some \<lparr>tg_order = order, tg_files = foldl (join_file call own arrived) files report\<rparr>)"

section \<open>The lists\<close>

type_synonym ends = "blob_ref \<times> blob_ref option"

definition first_edit :: "changed_file \<Rightarrow> file_edit option" where
  "first_edit f =
     (case (if cf_kind f = Added then None else find (\<lambda>e. \<not> fe_created e) (cf_edits f)) of
        Some e \<Rightarrow> Some e
      | None \<Rightarrow> get_at (cf_edits f) 0)"

definition ends_of :: "changed_file \<Rightarrow> ends option" where
  "ends_of f =
     (case first_edit f of
        None \<Rightarrow> None
      | Some e \<Rightarrow>
          (case fe_copies e of
             None \<Rightarrow> None
           | Some copies \<Rightarrow>
               if cf_kind f = Deleted then Some (ec_original copies, None)
               else map_option (\<lambda>c. (ec_original copies, Some (ec_modified c))) (fe_copies (last (cf_edits f)))))"

definition listed_file :: "tracked \<Rightarrow> changed_file" where
  "listed_file t =
     \<lparr>cf_path = tr_path t, cf_kind = tracked_kind t, cf_from = tr_from t, cf_lines = None, cf_edits = tr_edits t\<rparr>"

definition listed :: "tracking \<Rightarrow> (changed_file \<times> ends option) list" where
  "listed tg = map (\<lambda>t. (listed_file t, ends_of (listed_file t))) (filter (\<lambda>t. \<not> tr_outside t) (tg_files tg))"

definition view_files :: "shell_tool_view \<Rightarrow> edited_file list" where
  "view_files view = (case sv_files view of Some files \<Rightarrow> files | None \<Rightarrow> [])"

definition reported :: "shell_tool_view \<Rightarrow> edited_file list" where
  "reported view = filter (\<lambda>f. ef_kind f = Added \<or> ef_kind f = Modified) (view_files view)"

definition change_file :: "path_change \<Rightarrow> edited_file" where
  "change_file change =
     (case change of
        PathRemoved path \<Rightarrow>
          \<lparr>ef_path = strip_slash path, ef_kind = Deleted, ef_from = None, ef_added = 0, ef_removed = 0,
           ef_outside = False, ef_edits = []\<rparr>
      | PathRenamed from to \<Rightarrow>
          \<lparr>ef_path = to, ef_kind = Renamed, ef_from = Some from, ef_added = 0, ef_removed = 0,
           ef_outside = False, ef_edits = []\<rparr>)"

definition add_change :: "nat \<Rightarrow> edited_file list \<Rightarrow> path_change \<Rightarrow> edited_file list" where
  "add_change written files change =
     (let f = change_file change
      in if list_ex (\<lambda>x. ef_path x = ef_path f) (take written files) then files
         else filter (\<lambda>x. ef_path x \<noteq> ef_path f) files @ [f])"

definition call_files :: "(string \<Rightarrow> string \<Rightarrow> bool) \<Rightarrow> shell_tool_view \<Rightarrow> string option \<Rightarrow> edited_file list" where
  "call_files is_inside view directory =
     (let files = foldl (add_change (length (reported view))) (reported view) (sv_path_changes view)
      in map (\<lambda>f. f\<lparr>ef_outside :=
           (case directory of
              Some d \<Rightarrow> \<not> is_inside d (ef_path f)
            | None \<Rightarrow> list_ex (\<lambda>stored. ef_path stored = ef_path f \<and> ef_outside stored) (view_files view))\<rparr>) files)"

fun shell_view :: "block \<Rightarrow> shell_tool_view option" where
  "shell_view (ToolCall c) = (case tc_view c of Some (ShellView view) \<Rightarrow> Some view | _ \<Rightarrow> None)"
| "shell_view _ = None"

type_synonym counts = "ends \<Rightarrow> line_counts option option"

record planned =
  pl_files :: "edited_file list"
  pl_run :: "(changed_file \<times> ends option) list"
  pl_request :: "(changed_file \<times> ends option) list option"
  pl_counted :: counts

definition request_list :: "planned \<Rightarrow> (changed_file \<times> ends option) list" where
  "request_list p = (case pl_request p of Some fs \<Rightarrow> fs | None \<Rightarrow> [])"

definition uncounted :: "planned \<Rightarrow> ends list" where
  "uncounted p =
     fold (\<lambda>(_, e) found. case e of
             Some e \<Rightarrow> if pl_counted p e = None \<and> e \<notin> set found then found @ [e] else found
           | None \<Rightarrow> found)
       (pl_run p @ request_list p) []"

definition known_lines :: "planned \<Rightarrow> counts \<Rightarrow> ends option \<Rightarrow> line_counts option" where
  "known_lines p counted e =
     (case e of
        None \<Rightarrow> None
      | Some e \<Rightarrow>
          (case (case pl_counted p e of Some n \<Rightarrow> Some n | None \<Rightarrow> counted e) of Some n \<Rightarrow> n | None \<Rightarrow> None))"

definition finish_list :: "planned \<Rightarrow> counts \<Rightarrow> (changed_file \<times> ends option) list \<Rightarrow> changed_file list" where
  "finish_list p counted files = map (\<lambda>(f, e). f\<lparr>cf_lines := known_lines p counted e\<rparr>) files"

definition finish :: "planned \<Rightarrow> counts \<Rightarrow> shell_tool_view \<Rightarrow> shell_tool_view" where
  "finish p counted view =
     view\<lparr>sv_files := (if pl_files p = [] then None else Some (pl_files p)),
          sv_run_files := Some (finish_list p counted (pl_run p)),
          sv_request_files := map_option (finish_list p counted) (pl_request p)\<rparr>"

text \<open>What a plan gathers of the calls before: the request's files, the run's, the lines counted.\<close>

definition note_lines :: "changed_file list \<Rightarrow> counts \<Rightarrow> counts" where
  "note_lines files counted =
     fold (\<lambda>f counted. case ends_of f of Some e \<Rightarrow> counted(e := Some (cf_lines f)) | None \<Rightarrow> counted) files counted"

definition view_lists :: "shell_tool_view \<Rightarrow> changed_file list" where
  "view_lists view =
     (case sv_run_files view of Some fs \<Rightarrow> fs | None \<Rightarrow> [])
     @ (case sv_request_files view of Some fs \<Rightarrow> fs | None \<Rightarrow> [])"

definition add_view :: "shell_tool_view \<Rightarrow> edited_file list \<Rightarrow> tracking \<Rightarrow> tracking option" where
  "add_view view own tg = tracking_add (sv_command_id view) (reported view) (sv_path_changes view) own tg"

definition gather_call ::
  "block_id option \<Rightarrow> block \<Rightarrow> tracking \<times> tracking \<times> counts \<Rightarrow> (tracking \<times> tracking \<times> counts) option" where
  "gather_call run b state =
     (case shell_view b of
        None \<Rightarrow> Some state
      | Some view \<Rightarrow>
          (case state of (request_tg, run_tg, counted) \<Rightarrow>
             case (add_view view (view_files view) request_tg,
                   if run \<noteq> None \<and> run_of_block b = run then add_view view (view_files view) run_tg else Some run_tg) of
               (Some request_tg, Some run_tg) \<Rightarrow> Some (request_tg, run_tg, note_lines (view_lists view) counted)
             | _ \<Rightarrow> None))"

fun gather ::
  "block_id option \<Rightarrow> block list \<Rightarrow> tracking \<times> tracking \<times> counts \<Rightarrow> (tracking \<times> tracking \<times> counts) option" where
  "gather run [] state = Some state"
| "gather run (b # bs) state = (case gather_call run b state of None \<Rightarrow> None | Some state \<Rightarrow> gather run bs state)"

definition plan ::
  "(string \<Rightarrow> string \<Rightarrow> bool) \<Rightarrow> block list \<Rightarrow> nat \<Rightarrow> shell_tool_view \<Rightarrow> string option \<Rightarrow> planned option" where
  "plan is_inside blocks index view directory =
     (if length blocks \<le> index then None
      else
        let before = take index blocks;
            run = (case run_of_block (blocks ! index) of Some r \<Rightarrow> Some r | None \<Rightarrow> run_of before (blocks ! index) True);
            start = rposition is_user before
        in case gather run (drop (case start of Some s \<Rightarrow> s | None \<Rightarrow> 0) before) (no_tracking, no_tracking, \<lambda>_. None) of
             None \<Rightarrow> None
           | Some (request_tg, run_tg, counted) \<Rightarrow>
               let own = call_files is_inside view directory
               in case (add_view view own request_tg, add_view view own run_tg) of
                    (Some request_tg, Some run_tg) \<Rightarrow>
                      Some \<lparr>pl_files = own, pl_run = listed run_tg, pl_request = map_option (\<lambda>_. listed request_tg) start,
                            pl_counted = counted\<rparr>
                  | _ \<Rightarrow> None)"

section \<open>Counting, and listing again\<close>

definition to_u32 :: "nat \<Rightarrow> nat" where
  "to_u32 n = min n 4294967295"

definition counts_between :: "diff \<Rightarrow> byte list \<Rightarrow> byte list option \<Rightarrow> line_counts" where
  "counts_between diff before after =
     (let (added, removed) = lines_between diff (Some before) after in \<lparr>lc_added = to_u32 added, lc_removed = to_u32 removed\<rparr>)"

text \<open>\<open>Inl\<close>: reading a blob failed; an \<open>Inr None\<close> of \<open>read\<close> is a blob that is missing.\<close>

definition count_ends ::
  "diff \<Rightarrow> (blob_ref \<Rightarrow> 'e + byte list option) \<Rightarrow> ends \<Rightarrow> 'e + line_counts option" where
  "count_ends diff read e =
     (case read (fst e) of
        Inl error \<Rightarrow> Inl error
      | Inr None \<Rightarrow> Inr None
      | Inr (Some before) \<Rightarrow>
          (case snd e of
             None \<Rightarrow> Inr (Some (counts_between diff before None))
           | Some modified \<Rightarrow>
               (case read modified of
                  Inl error \<Rightarrow> Inl error
                | Inr None \<Rightarrow> Inr None
                | Inr (Some after) \<Rightarrow> Inr (Some (counts_between diff before (Some after))))))"

text \<open>\<open>count\<close>: a blob that cannot be read is taken for missing.\<close>

definition ignore_errors :: "(blob_ref \<Rightarrow> 'e + byte list option) \<Rightarrow> blob_ref \<Rightarrow> unit + byte list option" where
  "ignore_errors read blob = (case read blob of Inl _ \<Rightarrow> Inr None | Inr found \<Rightarrow> Inr found)"

definition count_all :: "diff \<Rightarrow> (blob_ref \<Rightarrow> 'e + byte list option) \<Rightarrow> ends list \<Rightarrow> counts" where
  "count_all diff read es =
     (\<lambda>e. if e \<in> set es then (case count_ends diff (ignore_errors read) e of Inr n \<Rightarrow> Some n | Inl _ \<Rightarrow> Some None) else None)"

fun count_each :: "diff \<Rightarrow> (blob_ref \<Rightarrow> 'e + byte list option) \<Rightarrow> ends list \<Rightarrow> 'e + counts" where
  "count_each diff read [] = Inr (\<lambda>_. None)"
| "count_each diff read (e # es) =
     (case count_ends diff read e of
        Inl error \<Rightarrow> Inl error
      | Inr n \<Rightarrow> map_sum id (\<lambda>counted. counted(e := Some n)) (count_each diff read es))"

definition with_view :: "shell_tool_view \<Rightarrow> block \<Rightarrow> block" where
  "with_view view b = (case b of ToolCall c \<Rightarrow> ToolCall (c\<lparr>tc_view := Some (ShellView view)\<rparr>) | _ \<Rightarrow> b)"

fun relist_from ::
  "diff \<Rightarrow> (string \<Rightarrow> string \<Rightarrow> bool) \<Rightarrow> (blob_ref \<Rightarrow> 'e + byte list option) \<Rightarrow> nat list \<Rightarrow> block list
     \<Rightarrow> ('e + block list) option" where
  "relist_from diff is_inside read [] blocks = Some (Inr blocks)"
| "relist_from diff is_inside read (i # is) blocks =
     (case shell_view (blocks ! i) of
        None \<Rightarrow> relist_from diff is_inside read is blocks
      | Some view \<Rightarrow>
          (case plan is_inside blocks i view None of
             None \<Rightarrow> None
           | Some p \<Rightarrow>
               (case count_each diff read (uncounted p) of
                  Inl error \<Rightarrow> Some (Inl error)
                | Inr counted \<Rightarrow>
                    relist_from diff is_inside read is (blocks[i := with_view (finish p counted view) (blocks ! i)]))))"

definition relist ::
  "diff \<Rightarrow> (string \<Rightarrow> string \<Rightarrow> bool) \<Rightarrow> (blob_ref \<Rightarrow> 'e + byte list option) \<Rightarrow> block list \<Rightarrow> ('e + block list) option" where
  "relist diff is_inside read blocks = relist_from diff is_inside read [0..<length blocks] (set_runs blocks)"

definition later_in_request :: "block list \<Rightarrow> nat \<Rightarrow> nat list" where
  "later_in_request blocks index =
     (let from = index + 1;
          until = (case position is_user (drop from blocks) of Some n \<Rightarrow> from + n | None \<Rightarrow> length blocks)
      in filter (\<lambda>at. case shell_view (blocks ! at) of Some view \<Rightarrow> sv_run_files view \<noteq> None | None \<Rightarrow> False)
           [from..<until])"

section \<open>The session's listing (agent-session/src/turn.rs)\<close>

text \<open>
  What the session reads of the store when the window, which starts at \<open>start\<close> of the stored path,
  begins inside a request: its \<open>user\<close> block and the tool calls after it.
\<close>

fun is_tool_call :: "block \<Rightarrow> bool" where
  "is_tool_call (ToolCall _) = True"
| "is_tool_call _ = False"

definition request_calls_before :: "block list \<Rightarrow> nat \<Rightarrow> block list" where
  "request_calls_before stored start =
     (case rposition is_user (take start stored) of
        None \<Rightarrow> []
      | Some opened \<Rightarrow> filter (\<lambda>b. is_user b \<or> is_tool_call b) (drop opened (take start stored)))"

text \<open>The view with its lists; \<open>stored\<close> is \<open>None\<close> when reading it failed.\<close>

definition with_lists ::
  "diff \<Rightarrow> (string \<Rightarrow> string \<Rightarrow> bool) \<Rightarrow> (blob_ref \<Rightarrow> 'e + byte list option) \<Rightarrow> block list option \<Rightarrow> nat \<Rightarrow> block list
     \<Rightarrow> nat \<Rightarrow> shell_tool_view \<Rightarrow> string option \<Rightarrow> shell_tool_view option" where
  "with_lists diff is_inside read stored start window index view directory =
     (let opened = list_ex is_user (take (index - start) window);
          earlier = (if 0 < start \<and> \<not> opened
                     then (case stored of Some path \<Rightarrow> request_calls_before path start | None \<Rightarrow> []) else [])
      in map_option (\<lambda>p. finish p (count_all diff read (uncounted p)) view)
           (plan is_inside (earlier @ window) (index - start + length earlier) view directory))"

end
