(* ===== verification/Change_Facts.thy ===== *)
theory Change_Facts imports Changes begin

text \<open>
  What the lists of changes keep: a plan reads of the calls before only what listing leaves as it
  is, so listing again changes nothing; the lines of a list are those between its two ends; and the
  window with the calls the store gives lists what the whole path lists.
\<close>

section \<open>A call's own files, made again\<close>

text \<open>Files that differ in their marks alone.\<close>

definition unmarked :: "edited_file \<Rightarrow> edited_file" where
  "unmarked f = f\<lparr>ef_outside := False\<rparr>"

lemma unmarked_fields [simp]:
  "ef_path (unmarked f) = ef_path f" "ef_kind (unmarked f) = ef_kind f" "ef_edits (unmarked f) = ef_edits f"
  by (simp_all add: unmarked_def)

lemma call_edits_unmarked: "call_edits call (unmarked f) = call_edits call f"
  by (simp add: call_edits_def)

lemma join_file_unmarked: "join_file call own arrived files (unmarked f) = join_file call own arrived files f"
  unfolding join_file_def by (simp only: unmarked_fields call_edits_unmarked)

lemma tracking_add_unmarked:
  "map unmarked report = map unmarked report' \<Longrightarrow> tracking_add call report changes own tg = tracking_add call report' changes own tg"
proof -
  assume same: "map unmarked report = map unmarked report'"
  have "foldl (join_file call own arrived) files xs = foldl (join_file call own arrived) files (map unmarked xs)" for arrived files xs
    by (induction xs arbitrary: files) (simp_all add: join_file_unmarked)
  from this [of _ _ report] this [of _ _ report'] same
  have "foldl (join_file call own arrived) files report = foldl (join_file call own arrived) files report'" for arrived files
    by metis
  then show ?thesis unfolding tracking_add_def Let_def by presburger
qed

lemma change_file_kind: "ef_kind (change_file c) \<noteq> Added" "ef_kind (change_file c) \<noteq> Modified"
  by (simp_all add: change_file_def split: path_change.split)

definition own_kinds :: "edited_file \<Rightarrow> bool" where
  "own_kinds f = (ef_kind f = Added \<or> ef_kind f = Modified)"

lemma own_kinds_marked [simp]: "own_kinds (f\<lparr>ef_outside := b\<rparr>) = own_kinds f"
  by (simp add: own_kinds_def)

text \<open>The changes of a call leave the files it wrote in front.\<close>

lemma add_change_front:
  assumes "files = wrote @ others" "\<forall>f\<in>set others. \<not> own_kinds f"
  shows "\<exists>others. add_change (length wrote) files change = wrote @ others \<and> (\<forall>f\<in>set others. \<not> own_kinds f)"
proof (cases "list_ex (\<lambda>x. ef_path x = ef_path (change_file change)) wrote")
  case False
  then have "filter (\<lambda>x. ef_path x \<noteq> ef_path (change_file change)) wrote = wrote"
    by (auto simp: filter_id_conv list_ex_iff)
  with False assms show ?thesis
    by (intro exI [of _ "filter (\<lambda>x. ef_path x \<noteq> ef_path (change_file change)) others @ [change_file change]"])
      (auto simp: add_change_def own_kinds_def change_file_kind Let_def)
qed (use assms in \<open>auto simp: add_change_def Let_def\<close>)

lemma add_changes_front:
  "\<exists>others. foldl (add_change (length wrote)) wrote changes = wrote @ others \<and> (\<forall>f\<in>set others. \<not> own_kinds f)"
proof -
  have "\<exists>others'. foldl (add_change (length wrote)) (wrote @ others) changes = wrote @ others' \<and> (\<forall>f\<in>set others'. \<not> own_kinds f)"
    if "\<forall>f\<in>set others. \<not> own_kinds f" for others
    using that
  proof (induction changes arbitrary: others)
    case (Cons c cs)
    from add_change_front [OF refl Cons.prems] obtain more
      where more: "add_change (length wrote) (wrote @ others) c = wrote @ more" "\<forall>f\<in>set more. \<not> own_kinds f" by blast
    with Cons.IH [OF more(2)] show ?case by simp
  qed simp
  from this [of "[]"] show ?thesis by simp
qed

text \<open>Marks do not matter to where changes go.\<close>

lemma unmarked_exists: "list_ex (\<lambda>x. ef_path x = p) (take n (map unmarked xs)) = list_ex (\<lambda>x. ef_path x = p) (take n xs)"
  by (induction xs arbitrary: n) (simp_all add: take_Cons split: nat.split)

lemma unmarked_filter: "filter (\<lambda>x. ef_path x \<noteq> p) (map unmarked xs) = map unmarked (filter (\<lambda>x. ef_path x \<noteq> p) xs)"
  by (induction xs) simp_all

lemma add_change_unmarked: "map unmarked (add_change n files change) = map unmarked (add_change n (map unmarked files) change)"
  by (simp add: add_change_def Let_def unmarked_exists unmarked_filter unmarked_def comp_def del: list.map_comp)

lemma add_change_marks:
  assumes "map unmarked files = map unmarked files'"
  shows "map unmarked (add_change n files change) = map unmarked (add_change n files' change)"
  using add_change_unmarked [of n files change] add_change_unmarked [of n files' change] unfolding assms by (rule trans [OF _ sym])

lemma add_changes_marks:
  "map unmarked files = map unmarked files' \<Longrightarrow>
     map unmarked (foldl (add_change n) files changes) = map unmarked (foldl (add_change n) files' changes)"
proof (induction changes arbitrary: files files')
  case (Cons c cs)
  show ?case using Cons.IH [OF add_change_marks [OF Cons.prems]] by simp
qed simp

definition marks :: "(string \<Rightarrow> bool) \<Rightarrow> edited_file list \<Rightarrow> edited_file list" where
  "marks mark files = map (\<lambda>f. f\<lparr>ef_outside := mark (ef_path f)\<rparr>) files"

lemma marks_unmarked: "marks mark files = marks mark (map unmarked files)"
  by (simp add: marks_def unmarked_def)

lemma unmarked_marks [simp]: "map unmarked (marks mark files) = map unmarked files"
  by (simp add: marks_def unmarked_def)

definition raw_files :: "shell_tool_view \<Rightarrow> edited_file list" where
  "raw_files view = foldl (add_change (length (reported view))) (reported view) (sv_path_changes view)"

lemma call_files_marks:
  "call_files is_inside view directory = marks (\<lambda>path. case directory of
     Some d \<Rightarrow> \<not> is_inside d path
   | None \<Rightarrow> list_ex (\<lambda>stored. ef_path stored = path \<and> ef_outside stored) (view_files view)) (raw_files view)"
  by (simp add: call_files_def marks_def raw_files_def Let_def)

text \<open>A view that holds its call's own files reports what it reported, and has the same own files.\<close>

lemma reported_again:
  assumes "view_files view' = call_files is_inside view directory"
  shows "map unmarked (reported view') = map unmarked (reported view)"
proof -
  obtain others where others: "raw_files view = reported view @ others" "\<forall>f\<in>set others. \<not> own_kinds f"
    using add_changes_front unfolding raw_files_def by blast
  have kinds: "filter own_kinds (marks mark xs) = marks mark (filter own_kinds xs)" for mark xs
    by (simp add: marks_def filter_map comp_def)
  have "reported view' = filter own_kinds (view_files view')" by (simp add: reported_def own_kinds_def [abs_def])
  also have "map unmarked \<dots> = map unmarked (filter own_kinds (raw_files view))"
    by (simp add: assms call_files_marks kinds)
  also have "filter own_kinds (raw_files view) = reported view"
    using others by (auto simp: reported_def own_kinds_def [abs_def])
  finally show ?thesis .
qed

lemma call_files_again:
  assumes "view_files view' = call_files is_inside view directory" "sv_path_changes view' = sv_path_changes view"
  shows "call_files is_inside view' None = call_files is_inside view directory"
proof -
  let ?own = "call_files is_inside view directory"
  have "map unmarked (raw_files view') = map unmarked (raw_files view)"
    unfolding raw_files_def assms(2) map_eq_imp_length_eq [OF reported_again [OF assms(1)]]
    by (rule add_changes_marks [OF reported_again [OF assms(1)]])
  moreover obtain mark where mark: "?own = marks mark (raw_files view)" using call_files_marks by blast
  ultimately have raw: "map unmarked (raw_files view') = map unmarked ?own" unfolding mark unmarked_marks by simp
  have "list_ex (\<lambda>stored. ef_path stored = ef_path f \<and> ef_outside stored) ?own = ef_outside f" if "f \<in> set ?own" for f
    using that unfolding mark marks_def by (auto simp: list_ex_iff)
  then have "marks (\<lambda>path. list_ex (\<lambda>stored. ef_path stored = path \<and> ef_outside stored) ?own) ?own = ?own"
    by (simp add: marks_def map_idI)
  moreover have "call_files is_inside view' None
      = marks (\<lambda>path. list_ex (\<lambda>stored. ef_path stored = path \<and> ef_outside stored) ?own) ?own"
    unfolding call_files_marks [of _ view'] assms(1) option.case
    by (subst (1 2) marks_unmarked) (simp only: raw)
  ultimately show ?thesis by simp
qed

section \<open>Listing again\<close>

lemma finish_fields [simp]:
  "sv_path_changes (finish p counted view) = sv_path_changes view"
  "sv_command_id (finish p counted view) = sv_command_id view"
  "view_files (finish p counted view) = pl_files p"
  "view_lists (finish p counted view) = finish_list p counted (pl_run p) @ finish_list p counted (request_list p)"
  "finish p counted (finish p' counted' view) = finish p counted view"
  by (simp_all add: finish_def view_files_def view_lists_def request_list_def finish_list_def split: option.split)

lemma finish_lists [simp]:
  "sv_run_files (finish p counted view) = Some (finish_list p counted (pl_run p))"
  "sv_request_files (finish p counted view) = map_option (finish_list p counted) (pl_request p)"
  by (simp_all add: finish_def)

lemma with_view_facts [simp]:
  "id_of (with_view v b) = id_of b" "run_of_block (with_view v b) = run_of_block b"
  "place_of (with_view v b) sb = place_of b sb" "is_user (with_view v b) = is_user b"
  by (cases b; simp add: with_view_def)+

lemma with_view_again [simp]: "with_view v (with_view v' b) = with_view v b"
  by (cases b) (simp_all add: with_view_def)

lemma shell_view_with [simp]: "shell_view b = Some view \<Longrightarrow> shell_view (with_view v b) = Some v"
  by (cases b) (simp_all add: with_view_def)

lemma with_view_same: "shell_view b = Some v \<Longrightarrow> with_view v b = b"
  by (cases b) (auto simp: with_view_def split: option.splits tool_view.splits)

lemma set_run_with_view: "set_run r (with_view v b) = with_view v (set_run r b)"
  by (cases b) (simp_all add: with_view_def)

lemma run_of_with_view [simp]: "run_of before (with_view v b) sb = run_of before b sb"
  by (simp add: run_of_def split: option.split)

lemma plan_files: "plan is_inside blocks i view directory = Some p \<Longrightarrow> pl_files p = call_files is_inside view directory"
  by (auto simp: plan_def Let_def split: if_splits option.splits prod.splits)

text \<open>A plan reads the blocks before the call, the call's run and its view.\<close>

lemma plan_again:
  assumes "plan is_inside blocks i view None = Some p" "i < length blocks'" "i < length blocks"
    and "take i blocks' = take i blocks" "blocks' ! i = with_view v (blocks ! i)"
  shows "plan is_inside blocks' i (finish p counted view) None = Some p"
proof -
  note files = plan_files [OF assms(1)]
  have own: "call_files is_inside (finish p counted view) None = call_files is_inside view None"
    by (rule call_files_again) (simp_all add: files)
  have "map unmarked (reported (finish p counted view)) = map unmarked (reported view)"
    by (rule reported_again [of _ is_inside _ None]) (simp add: files)
  then have "add_view (finish p counted view) own tg = add_view view own tg" for own tg
    unfolding add_view_def finish_fields by (rule tracking_add_unmarked)
  note added = this
  have "plan is_inside blocks' i (finish p counted view) None = plan is_inside blocks i view None"
    using assms(2,3) unfolding plan_def Let_def assms(4,5) own added with_view_facts run_of_with_view by simp
  with assms(1) show ?thesis by simp
qed

lemma relist_from_keeps:
  assumes "relist_from diff is_inside read is blocks = Some (Inr blocks')"
  shows "length blocks' = length blocks \<and> (\<forall>j. j \<notin> set is \<longrightarrow> blocks' ! j = blocks ! j)"
  using assms
proof (induction "is" arbitrary: blocks)
  case (Cons i "is")
  show ?case
  proof (cases "shell_view (blocks ! i)")
    case None
    with Cons show ?thesis by auto
  next
    case (Some view)
    with Cons.prems obtain p counted
      where "relist_from diff is_inside read is (blocks[i := with_view (finish p counted view) (blocks ! i)]) = Some (Inr blocks')"
      by (auto split: option.splits sum.splits)
    from Cons.IH [OF this] show ?thesis by auto
  qed
qed simp

lemma relist_from_again:
  assumes "relist_from diff is_inside read [i..<length blocks] blocks = Some (Inr blocks')"
  shows "relist_from diff is_inside read [i..<length blocks] blocks' = Some (Inr blocks')"
  using assms
proof (induction "length blocks - i" arbitrary: i blocks)
  case 0
  then show ?case by simp
next
  case (Suc n)
  then have i: "i < length blocks" by simp
  then have step: "[i..<length blocks] = i # [Suc i..<length blocks]" by (rule upt_conv_Cons)
  have n: "n = length blocks - Suc i" using Suc.hyps(2) by simp
  note keeps = relist_from_keeps [OF Suc.prems]
  show ?case
  proof (cases "shell_view (blocks ! i)")
    case None
    with Suc.prems have rest: "relist_from diff is_inside read [Suc i..<length blocks] blocks = Some (Inr blocks')" by (simp add: step)
    moreover have "blocks' ! i = blocks ! i" using relist_from_keeps [OF rest] by simp
    ultimately show ?thesis using None Suc.hyps(1) [OF n rest] by (simp add: step)
  next
    case (Some view)
    with Suc.prems obtain p counted where p: "plan is_inside blocks i view None = Some p"
        "count_each diff read (uncounted p) = Inr counted"
        "relist_from diff is_inside read [Suc i..<length blocks] (blocks[i := with_view (finish p counted view) (blocks ! i)]) = Some (Inr blocks')"
      by (auto simp: step split: option.splits sum.splits)
    let ?next = "blocks[i := with_view (finish p counted view) (blocks ! i)]"
    from p(3) have rest: "relist_from diff is_inside read [Suc i..<length ?next] ?next = Some (Inr blocks')" by simp
    note kept = relist_from_keeps [OF rest]
    have at: "blocks' ! i = with_view (finish p counted view) (blocks ! i)" using kept i by simp
    have before: "take i blocks' = take i blocks" by (rule nth_equalityI) (use kept i in simp_all)
    have view: "shell_view (blocks' ! i) = Some (finish p counted view)" using at Some by simp
    have plan: "plan is_inside blocks' i (finish p counted view) None = Some p"
      by (rule plan_again [OF p(1) _ i before at]) (use kept i in simp)
    have same: "blocks'[i := with_view (finish p counted (finish p counted view)) (blocks' ! i)] = blocks'"
      by (simp add: with_view_same [OF view])
    have "relist_from diff is_inside read [Suc i..<length ?next] blocks' = Some (Inr blocks')"
      by (rule Suc.hyps(1) [OF _ rest]) (simp add: n)
    with view plan p(2) same show ?thesis by (simp add: step)
  qed
qed

text \<open>Setting the runs of a relisted path changes nothing: a view says nothing of a run.\<close>

definition runs_set :: "block list \<Rightarrow> bool" where
  "runs_set bs = (\<forall>i<length bs. run_of_block (bs ! i) = run_of (take i bs) (bs ! i) True)"

lemma runs_set_snoc: "runs_set (bs @ [b]) = (runs_set bs \<and> run_of_block b = run_of bs b True)"
  by (auto simp: runs_set_def nth_append less_Suc_eq)

lemma run_of_block_set: "run_of_block (set_run (run_of bs b sb) b) = run_of bs b sb"
  using place_step_holds_run [of b sb] run_of_None [of bs b sb] by (auto simp: run_of_set_run)

lemma set_runs_from_set: "runs_set pre \<Longrightarrow> runs_set (set_runs_from pre bs)"
  by (induction pre bs rule: set_runs_from.induct) (simp_all add: runs_set_snoc run_of_block_set)

lemma set_runs_set: "runs_set (set_runs bs)" "length (set_runs bs) = length bs"
  using set_runs_from_set [of "[]" bs] by (simp_all add: set_runs_def set_runs_from_length) (simp add: runs_set_def)

lemma set_own_run: "set_run (run_of_block b) b = b"
  by (cases b) simp_all

lemma set_runs_same: "runs_set bs \<Longrightarrow> set_runs bs = bs"
proof -
  have "runs_set (pre @ rest) \<Longrightarrow> set_runs_from pre rest = pre @ rest" for pre rest
  proof (induction pre rest rule: set_runs_from.induct)
    case (2 pre b rest)
    have "run_of_block b = run_of pre b True"
      using 2(2) by (auto simp: runs_set_def dest!: spec [of _ "length pre"])
    then have "set_run (run_of pre b True) b = b" using set_own_run [of b] by simp
    with 2 show ?case by simp
  qed simp
  from this [of "[]" bs] show "runs_set bs \<Longrightarrow> set_runs bs = bs" by (simp add: set_runs_def)
qed

definition views_apart :: "block \<Rightarrow> block \<Rightarrow> bool" where
  "views_apart b b' = (b' = b \<or> (\<exists>v. b' = with_view v b))"

lemma views_apart_facts:
  "views_apart b b' \<Longrightarrow> id_of b' = id_of b \<and> run_of_block b' = run_of_block b \<and> place_of b' = place_of b
     \<and> is_user b' = is_user b"
  by (auto simp: views_apart_def)

lemma run_back_apart: "list_all2 views_apart bs bs' \<Longrightarrow> run_back bs' = run_back bs"
  by (induction rule: list_all2_induct) (simp_all add: views_apart_facts split: place.split option.split)

lemma run_of_apart:
  assumes "list_all2 views_apart bs bs'" "views_apart b b'"
  shows "run_of bs' b' sb = run_of bs b sb"
  using run_back_apart [of "rev bs" "rev bs'"] views_apart_facts [OF assms(2)] assms(1) by (simp add: run_of_def split: option.split)

lemma runs_set_apart:
  assumes "list_all2 views_apart bs bs'" "runs_set bs"
  shows "runs_set bs'"
  unfolding runs_set_def
proof (intro allI impI)
  fix i assume i: "i < length bs'"
  then have "views_apart (bs ! i) (bs' ! i)" "i < length bs" using assms(1) by (auto simp: list_all2_conv_all_nth)
  with assms i show "run_of_block (bs' ! i) = run_of (take i bs') (bs' ! i) True"
    using run_of_apart [OF list_all2_takeI [OF assms(1), of i], of "bs ! i" "bs' ! i" True] views_apart_facts [of "bs ! i" "bs' ! i"]
    by (simp add: runs_set_def)
qed

lemma views_apart_trans: "views_apart a b \<Longrightarrow> views_apart b c \<Longrightarrow> views_apart a c"
  by (auto simp: views_apart_def)

lemma relist_from_apart:
  "relist_from diff is_inside read is blocks = Some (Inr blocks') \<Longrightarrow> list_all2 views_apart blocks blocks'"
proof (induction "is" arbitrary: blocks)
  case Nil
  then show ?case by (simp add: list_all2_refl views_apart_def)
next
  case (Cons i "is")
  show ?case
  proof (cases "shell_view (blocks ! i)")
    case None
    with Cons show ?thesis by simp
  next
    case (Some view)
    with Cons.prems obtain v where "relist_from diff is_inside read is (blocks[i := with_view v (blocks ! i)]) = Some (Inr blocks')"
      by (auto split: option.splits sum.splits)
    from Cons.IH [OF this] have "list_all2 views_apart (blocks[i := with_view v (blocks ! i)]) blocks'" .
    moreover have "list_all2 views_apart blocks (blocks[i := with_view v (blocks ! i)])"
      by (metis list_all2_conv_all_nth length_list_update nth_list_update_eq nth_list_update_neq views_apart_def)
    ultimately show ?thesis using list_all2_trans [of views_apart views_apart views_apart] views_apart_trans by blast
  qed
qed

lemma relist_again:
  assumes "relist diff is_inside read blocks = Some (Inr blocks')"
  shows "relist diff is_inside read blocks' = Some (Inr blocks')"
proof -
  from assms have run: "relist_from diff is_inside read [0..<length (set_runs blocks)] (set_runs blocks) = Some (Inr blocks')"
    by (simp add: relist_def set_runs_set)
  have "set_runs blocks' = blocks'"
    by (rule set_runs_same, rule runs_set_apart [OF relist_from_apart [OF run] set_runs_set(1)])
  moreover have "length blocks' = length (set_runs blocks)" using relist_from_keeps [OF run] by simp
  ultimately show ?thesis using relist_from_again [OF run] by (simp add: relist_def)
qed

end
