(* ===== verification/List_Facts.thy ===== *)
theory List_Facts imports Change_Facts begin

text \<open>
  What the lists of changes say: the lines between the ends of each file, whatever window of the path
  they were made in; and what a tracking of files keeps of each.
\<close>

section \<open>The lines of a list\<close>

definition lines_right :: "diff \<Rightarrow> (blob_ref \<Rightarrow> 'e + byte list option) \<Rightarrow> changed_file \<Rightarrow> bool" where
  "lines_right diff read f =
     (case ends_of f of None \<Rightarrow> cf_lines f = None | Some e \<Rightarrow> count_ends diff read e = Inr (cf_lines f))"

definition counted_right :: "diff \<Rightarrow> (blob_ref \<Rightarrow> 'e + byte list option) \<Rightarrow> counts \<Rightarrow> bool" where
  "counted_right diff read counted = (\<forall>e n. counted e = Some n \<longrightarrow> count_ends diff read e = Inr n)"

lemma ends_of_lines [simp]: "ends_of (f\<lparr>cf_lines := n\<rparr>) = ends_of f"
proof -
  have fields: "cf_kind (f\<lparr>cf_lines := n\<rparr>) = cf_kind f" "cf_edits (f\<lparr>cf_lines := n\<rparr>) = cf_edits f" by simp_all
  show ?thesis unfolding ends_of_def first_edit_def fields ..
qed

lemma note_lines_right:
  "\<forall>f\<in>set fs. lines_right diff read f \<Longrightarrow> counted_right diff read counted \<Longrightarrow> counted_right diff read (note_lines fs counted)"
  unfolding note_lines_def
proof (induction fs arbitrary: counted)
  case (Cons f fs)
  have "counted_right diff read (case ends_of f of Some e \<Rightarrow> counted(e := Some (cf_lines f)) | None \<Rightarrow> counted)"
    using Cons.prems by (auto simp: counted_right_def lines_right_def split: option.split)
  with Cons show ?case by simp
qed simp

definition view_right :: "diff \<Rightarrow> (blob_ref \<Rightarrow> 'e + byte list option) \<Rightarrow> block \<Rightarrow> bool" where
  "view_right diff read b = (\<forall>view. shell_view b = Some view \<longrightarrow> (\<forall>f\<in>set (view_lists view). lines_right diff read f))"

lemma gather_call_right:
  assumes "gather_call run b state = Some state'" "view_right diff read b" "counted_right diff read (snd (snd state))"
  shows "counted_right diff read (snd (snd state'))"
proof (cases "shell_view b")
  case None
  with assms show ?thesis by (simp add: gather_call_def)
next
  case (Some view)
  have "counted_right diff read (note_lines (view_lists view) (snd (snd state)))"
    by (rule note_lines_right) (use assms(2,3) Some in \<open>simp_all add: view_right_def\<close>)
  with assms(1) Some show ?thesis by (auto simp: gather_call_def split: prod.splits option.splits)
qed

lemma gather_right:
  "gather run bs state = Some state' \<Longrightarrow> \<forall>b\<in>set bs. view_right diff read b \<Longrightarrow>
     counted_right diff read (snd (snd state)) \<Longrightarrow> counted_right diff read (snd (snd state'))"
proof (induction bs arbitrary: state)
  case (Cons b bs)
  then obtain s where s: "gather_call run b state = Some s" "gather run bs s = Some state'" by (auto split: option.splits)
  show ?case
    by (rule Cons.IH [OF s(2)]) (use gather_call_right [OF s(1), of diff read] Cons.prems in simp_all)
qed simp

lemma count_each_right:
  "count_each diff read es = Inr counted \<Longrightarrow> counted_right diff read counted \<and> (\<forall>e\<in>set es. counted e \<noteq> None)"
proof (induction es arbitrary: counted)
  case (Cons e es)
  from Cons.prems obtain n more where more: "count_ends diff read e = Inr n" "count_each diff read es = Inr more" "counted = more(e := Some n)"
    by (cases "count_each diff read es") (auto split: sum.splits)
  with Cons.IH [OF more(2)] show ?case by (auto simp: counted_right_def)
qed (simp add: counted_right_def)

lemma uncounted_all:
  assumes "(f, Some e) \<in> set (pl_run p @ request_list p)" "pl_counted p e = None"
  shows "e \<in> set (uncounted p)"
proof -
  have "set found \<subseteq> set (fold (\<lambda>(_, e) found. case e of
             Some e \<Rightarrow> if pl_counted p e = None \<and> e \<notin> set found then found @ [e] else found
           | None \<Rightarrow> found) xs found)
      \<and> (\<forall>f e. (f, Some e) \<in> set xs \<and> pl_counted p e = None \<longrightarrow> e \<in> set (fold (\<lambda>(_, e) found. case e of
             Some e \<Rightarrow> if pl_counted p e = None \<and> e \<notin> set found then found @ [e] else found
           | None \<Rightarrow> found) xs found))" for xs :: "(changed_file \<times> ends option) list" and found
  proof (induction xs arbitrary: found)
    case (Cons x xs)
    obtain f e' where x: "x = (f, e')" by (cases x)
    let ?next = "case e' of Some e \<Rightarrow> if pl_counted p e = None \<and> e \<notin> set found then found @ [e] else found | None \<Rightarrow> found"
    have "set found \<subseteq> set ?next" "\<forall>e. e' = Some e \<and> pl_counted p e = None \<longrightarrow> e \<in> set ?next"
      by (auto split: option.split)
    with Cons.IH [of ?next] show ?case unfolding x by auto
  qed simp
  from this [of "[]" "pl_run p @ request_list p"] assms show ?thesis unfolding uncounted_def by blast
qed

lemma listed_ends: "(f, e) \<in> set (listed tg) \<Longrightarrow> e = ends_of f"
  by (auto simp: listed_def)

lemma plan_ends: "plan is_inside blocks i view directory = Some p \<Longrightarrow> (f, e) \<in> set (pl_run p @ request_list p) \<Longrightarrow> e = ends_of f"
  by (auto simp: plan_def Let_def request_list_def map_option_case split: if_splits option.splits prod.splits dest: listed_ends)

lemma plan_counted_right:
  assumes "plan is_inside blocks i view directory = Some p" "\<forall>b\<in>set (take i blocks). view_right diff read b"
  shows "counted_right diff read (pl_counted p)"
proof -
  from assms(1) obtain run start request_tg run_tg where
      "gather run (drop start (take i blocks)) (no_tracking, no_tracking, \<lambda>_. None) = Some (request_tg, run_tg, pl_counted p)"
    by (auto simp: plan_def Let_def split: if_splits option.splits prod.splits dest: spec [of _ 0] intro: that [of _ 0])
  from gather_right [OF this, of diff read] assms(2) show ?thesis
    by (auto simp: counted_right_def dest: in_set_dropD)
qed

lemma finish_right:
  assumes "plan is_inside blocks i view directory = Some p" "\<forall>b\<in>set (take i blocks). view_right diff read b"
    and "count_each diff read (uncounted p) = Inr counted"
  shows "\<forall>f\<in>set (view_lists (finish p counted view)). lines_right diff read f"
proof -
  note counted = count_each_right [OF assms(3)] plan_counted_right [OF assms(1,2)]
  have "lines_right diff read (f\<lparr>cf_lines := known_lines p counted e\<rparr>)" if at: "(f, e) \<in> set (pl_run p @ request_list p)" for f e
  proof (cases e)
    case None
    then show ?thesis using plan_ends [OF assms(1) at] by (simp add: lines_right_def known_lines_def)
  next
    case (Some e')
    have listed: "e' \<in> set (uncounted p)" if "pl_counted p e' = None" using uncounted_all that at Some by blast
    have "count_ends diff read e' = Inr (known_lines p counted e)"
    proof (cases "pl_counted p e'")
      case None
      then obtain n where "counted e' = Some n" using counted(1) listed by blast
      moreover from this have "count_ends diff read e' = Inr n" using counted(1) unfolding counted_right_def by blast
      ultimately show ?thesis using None Some by (simp add: known_lines_def)
    next
      case (Some n)
      then have "count_ends diff read e' = Inr n" using counted(2) unfolding counted_right_def by blast
      with Some \<open>e = Some e'\<close> show ?thesis by (simp add: known_lines_def)
    qed
    with Some plan_ends [OF assms(1) at] show ?thesis by (simp add: lines_right_def)
  qed
  then show ?thesis by (auto simp: finish_list_def)
qed

lemma relist_from_right:
  assumes "relist_from diff is_inside read [i..<length blocks] blocks = Some (Inr blocks')"
    and "\<forall>b\<in>set (take i blocks). view_right diff read b"
  shows "\<forall>b\<in>set blocks'. view_right diff read b"
  using assms
proof (induction "length blocks - i" arbitrary: i blocks)
  case 0
  then show ?case by simp
next
  case (Suc n)
  then have i: "i < length blocks" by simp
  then have step: "[i..<length blocks] = i # [Suc i..<length blocks]" by (rule upt_conv_Cons)
  show ?case
  proof (cases "shell_view (blocks ! i)")
    case None
    have "\<forall>b\<in>set (take (Suc i) blocks). view_right diff read b"
      using Suc.prems(2) None i by (auto simp: take_Suc_conv_app_nth view_right_def)
    from Suc.hyps(1) [OF _ _ this] None Suc.prems(1) Suc.hyps(2) show ?thesis by (simp add: step)
  next
    case (Some view)
    with Suc.prems(1) obtain p counted where p: "plan is_inside blocks i view None = Some p"
        "count_each diff read (uncounted p) = Inr counted"
        "relist_from diff is_inside read [Suc i..<length blocks] (blocks[i := with_view (finish p counted view) (blocks ! i)]) = Some (Inr blocks')"
      by (auto simp: step split: option.splits sum.splits)
    let ?next = "blocks[i := with_view (finish p counted view) (blocks ! i)]"
    have "view_right diff read (with_view (finish p counted view) (blocks ! i))"
      using finish_right [OF p(1) Suc.prems(2) p(2)] Some by (simp add: view_right_def)
    then have right: "\<forall>b\<in>set (take (Suc i) ?next). view_right diff read b"
      using Suc.prems(2) i by (auto simp: take_Suc_conv_app_nth)
    show ?thesis
      by (rule Suc.hyps(1) [where blocks = ?next and i = "Suc i"]) (use p(3) right Suc.hyps(2) in simp_all)
  qed
qed

lemma relist_right:
  assumes "relist diff is_inside read blocks = Some (Inr blocks')" "b \<in> set blocks'" "shell_view b = Some view"
    and "f \<in> set (view_lists view)"
  shows "lines_right diff read f"
proof -
  from assms(1) have "relist_from diff is_inside read [0..<length (set_runs blocks)] (set_runs blocks) = Some (Inr blocks')"
    by (simp add: relist_def set_runs_set)
  from relist_from_right [OF this] assms(2-4) show ?thesis by (simp add: view_right_def)
qed

section \<open>The window lists what the whole path lists\<close>

lemma gather_filter: "(\<And>b. shell_view b \<noteq> None \<Longrightarrow> P b) \<Longrightarrow> gather run (filter P bs) state = gather run bs state"
proof (induction bs arbitrary: state)
  case (Cons b bs)
  show ?case
  proof (cases "P b")
    case False
    then have "shell_view b = None" using Cons.prems by blast
    with False Cons show ?thesis by (simp add: gather_call_def)
  next
    case True
    then show ?thesis using Cons.IH [OF Cons.prems] by (simp split: option.split)
  qed
qed simp

lemma gather_append: "gather run (xs @ ys) state = (case gather run xs state of None \<Rightarrow> None | Some s \<Rightarrow> gather run ys s)"
  by (induction xs arbitrary: state) (simp_all split: option.split)

lemma shell_view_call: "shell_view b \<noteq> None \<Longrightarrow> is_user b \<or> is_tool_call b"
  by (cases b) auto

lemma window_plan:
  fixes pre window :: "block list"
  assumes "index < length window" "run_of_block (window ! index) \<noteq> None" "list_ex is_user (pre @ take index window)"
  defines "earlier \<equiv> if pre \<noteq> [] \<and> \<not> list_ex is_user (take index window) then request_calls_before pre (length pre) else []"
  shows "plan is_inside (earlier @ window) (length earlier + index) view directory
    = plan is_inside (pre @ window) (length pre + index) view directory"
proof -
  let ?w = "take index window"
  obtain r where r: "run_of_block (window ! index) = Some r" using assms(2) by blast
  have same: "gather (Some r) (drop (case rposition is_user (earlier @ ?w) of Some s \<Rightarrow> s | None \<Rightarrow> 0) (earlier @ ?w)) st
      = gather (Some r) (drop (case rposition is_user (pre @ ?w) of Some s \<Rightarrow> s | None \<Rightarrow> 0) (pre @ ?w)) st
    \<and> (rposition is_user (earlier @ ?w) = None) = (rposition is_user (pre @ ?w) = None)" for st
  proof (cases "rposition is_user ?w")
    case (Some s)
    then have "list_ex is_user ?w" using rposition_None [of is_user ?w] by (auto simp: list_ex_iff simp del: rposition_None)
    then have "earlier = []" by (simp add: earlier_def)
    with Some show ?thesis by (simp add: rposition_append)
  next
    case None
    then have none: "\<not> list_ex is_user ?w" by (auto simp: rposition_None list_ex_iff)
    with assms(3) have "list_ex is_user pre" by simp
    then obtain opened where opened: "rposition is_user pre = Some opened"
      by (cases "rposition is_user pre") (auto simp: rposition_None list_ex_iff)
    have pre: "pre \<noteq> []" using \<open>list_ex is_user pre\<close> by auto
    let ?calls = "filter (\<lambda>b. is_user b \<or> is_tool_call b) (drop opened pre)"
    have earlier: "earlier = ?calls" using none pre opened by (simp add: earlier_def request_calls_before_def)
    have at: "opened < length pre" "is_user (pre ! opened)" "\<forall>j. opened < j \<and> j < length pre \<longrightarrow> \<not> is_user (pre ! j)"
      using opened by (auto simp: rposition_Some)
    have split: "drop opened pre = pre ! opened # drop (Suc opened) pre" using at(1) by (simp add: Cons_nth_drop_Suc)
    have later: "\<forall>b\<in>set (drop (Suc opened) pre). \<not> is_user b"
      using at(3) by (auto simp: in_set_conv_nth)
    have "rposition is_user earlier = Some 0"
    proof -
      have "rposition is_user (filter (\<lambda>b. is_user b \<or> is_tool_call b) (drop (Suc opened) pre)) = None"
        using later by (auto simp: rposition_None)
      with at(2) show ?thesis unfolding earlier split by simp
    qed
    then have "rposition is_user (earlier @ ?w) = Some 0" "rposition is_user (pre @ ?w) = Some opened"
      using None opened by (simp_all add: rposition_append)
    moreover have "gather (Some r) (earlier @ ?w) st = gather (Some r) (drop opened (pre @ ?w)) st"
      using at(1) gather_filter [of "\<lambda>b. is_user b \<or> is_tool_call b", OF shell_view_call]
      by (simp add: gather_append earlier)
    ultimately show ?thesis by simp
  qed
  have nth: "(pre @ window) ! (length pre + index) = window ! index" "(earlier @ window) ! (length earlier + index) = window ! index"
    by (simp_all add: nth_append)
  have take: "take (length pre + index) (pre @ window) = pre @ ?w" "take (length earlier + index) (earlier @ window) = earlier @ ?w"
    by simp_all
  have requests: "map_option (\<lambda>_. x) (rposition is_user (earlier @ ?w)) = map_option (\<lambda>_. x) (rposition is_user (pre @ ?w))"
    for x :: "(changed_file \<times> ends option) list"
    using same by (cases "rposition is_user (earlier @ ?w)"; cases "rposition is_user (pre @ ?w)") auto
  show ?thesis
    unfolding plan_def Let_def nth take r option.case same [THEN conjunct1] requests using assms(1) by simp
qed

end
