(* ===== verification/Track_Facts.thy ===== *)
theory Track_Facts imports List_Facts begin

text \<open>
  Files followed across calls: what holds of each, that renames of plain paths never panic, and that
  every edit of a list is one a call of it reported.
\<close>

section \<open>What holds of a tracked file\<close>

text \<open>
  A file is listed removed only if it was there before, and has an old path only while it is there
  and was before. \<open>known\<close> says which edits the calls reported.
\<close>

definition tracked_ok :: "(file_edit \<Rightarrow> bool) \<Rightarrow> tracked \<Rightarrow> bool" where
  "tracked_ok known t =
     ((tr_removed t \<longrightarrow> tr_existed t) \<and> (tr_from t \<noteq> None \<longrightarrow> tr_existed t \<and> \<not> tr_removed t)
      \<and> (\<forall>e\<in>set (tr_edits t). known e))"

abbreviation files_ok :: "(file_edit \<Rightarrow> bool) \<Rightarrow> tracked list \<Rightarrow> bool" where
  "files_ok known files \<equiv> \<forall>t\<in>set files. tracked_ok known t"

lemma tracking_remove_ok: "files_ok known files \<Longrightarrow> files_ok known (tracking_remove path own files)"
  by (auto simp: tracking_remove_def Let_def map_filter_def tracked_ok_def split: if_splits)

lemma files_ok_update: "files_ok known files \<Longrightarrow> tracked_ok known t \<Longrightarrow> files_ok known (files[i := t])"
  by (auto dest: set_update_subset_insert [THEN subsetD])

text \<open>One move: the files before it keep their paths and stay, and what it gives is in order.\<close>

lemma move_tracked_cases:
  assumes "move_tracked own order from to at (files, arrived) = Some (files', arrived')"
  obtains (moved) path where "at < length files" "renamed_path from to (tr_path (files ! at)) = Some path"
      "files' = files[at := (files ! at)\<lparr>tr_from := (if tr_existed (files ! at)
           then (if (case tr_from (files ! at) of Some o' \<Rightarrow> o' | None \<Rightarrow> tr_path (files ! at)) \<noteq> path
                 then Some (case tr_from (files ! at) of Some o' \<Rightarrow> o' | None \<Rightarrow> tr_path (files ! at)) else None)
           else tr_from (files ! at)), tr_outside := marked own path, tr_path := path\<rparr>]"
    | (merged) path target where "at < length files" "renamed_path from to (tr_path (files ! at)) = Some path"
      "target < length files" "tr_path (files ! target) = path"
      "files' = (take (max at target) files @ drop (Suc (max at target)) files)[min at target := (files ! target)
           \<lparr>tr_edits := sort_key (edit_rank order) (tr_edits (files ! target) @ tr_edits (files ! at)),
             tr_removed := False, tr_outside := marked own path\<rparr>]"
proof -
  from assms obtain path where at: "at < length files" and path: "renamed_path from to (tr_path (files ! at)) = Some path"
    by (auto simp: move_tracked_def Let_def split: if_splits option.splits)
  show thesis
  proof (cases "position (\<lambda>x. tr_path x = path) files")
    case None
    show thesis by (rule moved [OF at path]) (use assms at path None in \<open>simp add: move_tracked_def Let_def\<close>)
  next
    case (Some target)
    then have "target < length files" "tr_path (files ! target) = path" by (auto simp: position_Some)
    then show thesis by (rule merged [OF at path]) (use assms at path Some in \<open>simp add: move_tracked_def Let_def split: if_splits\<close>)
  qed
qed

lemma removed_at [simp]:
  "j < i \<Longrightarrow> i < length xs \<Longrightarrow> (take i xs @ drop (Suc i) xs) ! j = xs ! j"
  by (simp add: nth_append)

lemma move_tracked_before:
  assumes "move_tracked own order from to at (files, arrived) = Some (files', arrived')" "j < at"
  shows "j < length files' \<and> tr_path (files' ! j) = tr_path (files ! j) \<and> (\<not> tr_removed (files ! j) \<longrightarrow> \<not> tr_removed (files' ! j))"
  using assms(1)
proof (cases rule: move_tracked_cases)
  case (moved path)
  with assms(2) show ?thesis by simp
next
  case (merged path target)
  have max: "max at target < length files" and j: "j < max at target" using merged assms(2) by simp_all
  have len: "length files' = length files - 1" using merged max by simp
  show ?thesis
  proof (cases "j = min at target")
    case True
    then have "j = target" using assms(2) by (simp add: min_def split: if_splits)
    with True merged(5) max j len show ?thesis by (simp add: nth_list_update)
  next
    case False
    with merged(5) max j len show ?thesis by (simp add: nth_list_update)
  qed
qed

lemma move_tracked_ok:
  assumes "move_tracked own order from to at (files, arrived) = Some (files', arrived')" "files_ok known files"
    and "\<not> tr_removed (files ! at)"
  shows "files_ok known files'"
  using assms(1)
proof (cases rule: move_tracked_cases)
  case (moved path)
  have "tracked_ok known (files ! at)" using assms(2) moved(1) by simp
  with assms(3) show ?thesis
    unfolding moved(3) by (intro files_ok_update [OF assms(2)]) (auto simp: tracked_ok_def)
next
  case (merged path target)
  have "tracked_ok known (files ! at)" "tracked_ok known (files ! target)" using assms(2) merged(1,3) by simp_all
  then show ?thesis
    unfolding merged(5) using assms(2)
    by (intro files_ok_update) (auto simp: tracked_ok_def dest: in_set_takeD in_set_dropD)
qed

lemma move_each_ok:
  assumes "move_each own order from to ats (files, arrived) = Some (files', arrived')" "files_ok known files"
    and "sorted_wrt (>) ats" "\<forall>at\<in>set ats. \<not> tr_removed (files ! at)"
  shows "files_ok known files'"
  using assms
proof (induction ats arbitrary: files arrived)
  case (Cons at ats)
  then obtain files1 arrived1 where one: "move_tracked own order from to at (files, arrived) = Some (files1, arrived1)"
      "move_each own order from to ats (files1, arrived1) = Some (files', arrived')"
    by (auto split: option.splits)
  have "files_ok known files1" by (rule move_tracked_ok [OF one(1) Cons.prems(2)]) (use Cons.prems in simp)
  moreover have "\<forall>at\<in>set ats. \<not> tr_removed (files1 ! at)"
    using move_tracked_before [OF one(1)] Cons.prems(3,4) by auto
  ultimately show ?case using Cons.IH [OF one(2)] Cons.prems(3) by simp
qed simp

definition moved_places :: "string \<Rightarrow> tracked list \<Rightarrow> nat list" where
  "moved_places from files = filter (\<lambda>at. \<not> tr_removed (files ! at) \<and> is_within (tr_path (files ! at)) from) [0..<length files]"

lemma moved_places_facts:
  "sorted_wrt (>) (rev (moved_places from files))"
  "at \<in> set (rev (moved_places from files)) \<Longrightarrow> at < length files \<and> \<not> tr_removed (files ! at) \<and> is_within (tr_path (files ! at)) from"
  by (auto simp: moved_places_def sorted_wrt_rev intro: sorted_wrt_filter)

lemma tracking_rename_eq:
  "tracking_rename own order from to (files, arrived) =
     (if moved_places from files = [] then
        (if list_ex (\<lambda>t. tr_path t = to) files then Some (files, arrived)
         else Some (files @ [\<lparr>tr_path = to, tr_existed = True, tr_removed = False, tr_from = Some from,
                              tr_outside = marked own to, tr_edits = []\<rparr>], arrived @ [to]))
      else move_each own order from to (rev (moved_places from files)) (files, arrived))"
  unfolding tracking_rename_def moved_places_def Let_def prod.case ..

lemma tracking_rename_ok:
  assumes "tracking_rename own order from to (files, arrived) = Some (files', arrived')" "files_ok known files"
  shows "files_ok known files'"
proof (cases "moved_places from files = []")
  case True
  then show ?thesis using assms unfolding tracking_rename_eq by (auto simp: tracked_ok_def split: if_splits)
next
  case False
  with assms(1) have each: "move_each own order from to (rev (moved_places from files)) (files, arrived) = Some (files', arrived')"
    unfolding tracking_rename_eq by simp
  show ?thesis by (rule move_each_ok [OF each assms(2) moved_places_facts(1)]) (use moved_places_facts(2) in blast)
qed

lemma apply_changes_ok:
  "apply_changes own order changes state = Some state' \<Longrightarrow> files_ok known (fst state) \<Longrightarrow> files_ok known (fst state')"
proof (induction changes arbitrary: state)
  case (Cons c cs)
  then obtain s where s: "(case c of PathRemoved path \<Rightarrow> Some (tracking_remove path own (fst state), snd state)
      | PathRenamed from to \<Rightarrow> tracking_rename own order from to state) = Some s" "apply_changes own order cs s = Some state'"
    by (auto split: option.splits)
  have "files_ok known (fst s)"
  proof (cases c)
    case (PathRemoved path)
    with s(1) Cons.prems(2) tracking_remove_ok show ?thesis by auto
  next
    case (PathRenamed a b)
    with s(1) Cons.prems(2) show ?thesis
      using tracking_rename_ok [of own order a b "fst state" "snd state" "fst s" "snd s" known] by simp
  qed
  with Cons.IH [OF s(2)] show ?case by simp
qed simp

lemma join_file_ok:
  assumes "files_ok known files" "\<forall>e\<in>set (call_edits call f). known e"
  shows "files_ok known (join_file call own arrived files f)"
proof -
  let ?files = "if list_ex (\<lambda>t. tr_path t = ef_path f) files then files
      else files @ [\<lparr>tr_path = ef_path f, tr_existed = (ef_kind f = Modified), tr_removed = False,
                     tr_from = None, tr_outside = False, tr_edits = []\<rparr>]"
  have ok: "files_ok known ?files" using assms(1) by (auto simp: tracked_ok_def)
  show ?thesis
  proof (cases "position (\<lambda>t. tr_path t = ef_path f) ?files")
    case None
    then show ?thesis using ok unfolding join_file_def Let_def by simp
  next
    case (Some at)
    then have "tracked_ok known (?files ! at)" using ok by (auto simp only: position_Some nth_mem)
    then show ?thesis using Some assms(2) unfolding join_file_def Let_def
      by (simp only: option.case, intro files_ok_update [OF ok]) (auto simp: tracked_ok_def)
  qed
qed

lemma tracking_add_ok:
  assumes "tracking_add call report changes own tg = Some tg'" "files_ok known (tg_files tg)"
    and "\<forall>f\<in>set report. \<forall>e\<in>set (call_edits call f). known e"
  shows "files_ok known (tg_files tg')"
proof -
  from assms(1) obtain files arrived where files: "apply_changes own (note_call call (tg_order tg)) changes (tg_files tg, []) = Some (files, arrived)"
      "tg_files tg' = foldl (join_file call own arrived) files report"
    by (auto simp: tracking_add_def Let_def split: option.splits prod.splits)
  have "files_ok known files" using apply_changes_ok [OF files(1)] assms(2) by simp
  then have "files_ok known (foldl (join_file call own arrived) files report)" using assms(3)
  proof (induction report arbitrary: files)
    case (Cons f fs)
    show ?case using Cons.IH [OF join_file_ok [OF Cons.prems(1), of call f own arrived]] Cons.prems(2) by simp
  qed simp
  with files(2) show ?thesis by simp
qed

section \<open>Renames of plain paths\<close>

lemma strip_plain: "trim_separators path = path \<Longrightarrow> strip_slash path = path"
proof -
  assume trim: "trim_separators path = path"
  show ?thesis
  proof (cases "path = []")
    case False
    have "\<not> is_separator (last path)"
    proof
      assume sep: "is_separator (last path)"
      obtain xs x where path: "path = xs @ [x]" using False by (cases path rule: rev_cases) auto
      have "length (trim_separators path) \<le> length xs"
        using sep length_dropWhile_le [of is_separator "rev xs"] by (simp add: path trim_separators_def)
      with trim path show False by simp
    qed
    then show ?thesis by (simp add: strip_slash_def is_separator_def)
  qed (simp add: strip_slash_def)
qed

lemma within_splits:
  assumes "is_within old from" "trim_separators from = from"
  obtains rest where "old = from @ rest" "rest = [] \<or> is_separator (hd rest)"
proof -
  from assms consider "old = from" | "take (length from) old = from" "is_separator (hd (drop (length from) old))"
    by (auto simp: is_within_def Let_def split: list.splits)
  then show thesis
  proof cases
    case 1
    then show thesis by (intro that [of "[]"]) simp_all
  next
    case 2
    then show thesis by (intro that [of "drop (length from) old"]) (metis append_take_drop_id, simp)
  qed
qed

lemma renamed_within:
  assumes "is_within old from" "trim_separators from = from"
  obtains rest where "old = from @ rest" "renamed_path from to old = Some (to @ rest)"
proof -
  obtain rest where rest: "old = from @ rest" "rest = [] \<or> is_separator (hd rest)" by (rule within_splits [OF assms])
  have "is_char_boundary old (length from)"
    using rest by (cases rest) (auto simp: is_char_boundary_def nth_append is_separator_def continuation_def)
  then show thesis using that rest(1) by (simp add: renamed_path_def strip_plain [OF assms(2)] Let_def)
qed

lemma move_tracked_some:
  assumes "at < length files" "is_within (tr_path (files ! at)) from" "trim_separators from = from" "from \<noteq> to"
  shows "move_tracked own order from to at (files, arrived) \<noteq> None"
proof -
  obtain rest where rest: "tr_path (files ! at) = from @ rest" "renamed_path from to (tr_path (files ! at)) = Some (to @ rest)"
    by (rule renamed_within [OF assms(2,3)])
  show ?thesis
  proof (cases "position (\<lambda>x. tr_path x = to @ rest) files")
    case None
    with rest assms(1) show ?thesis by (simp add: move_tracked_def Let_def)
  next
    case (Some target)
    then have target: "target < length files" "tr_path (files ! target) = to @ rest" by (auto simp: position_Some)
    then have "target \<noteq> at" using rest(1) assms(4) by auto
    with target assms(1) have "min at target < length (take (max at target) files @ drop (Suc (max at target)) files)"
      by (auto simp: min_def max_def)
    with rest(2) assms(1) Some show ?thesis by (simp add: move_tracked_def Let_def)
  qed
qed

lemma move_each_some:
  assumes "sorted_wrt (>) ats" "\<forall>at\<in>set ats. at < length files \<and> is_within (tr_path (files ! at)) from"
    and "trim_separators from = from" "from \<noteq> to"
  shows "move_each own order from to ats (files, arrived) \<noteq> None"
  using assms(1,2)
proof (induction ats arbitrary: files arrived)
  case (Cons at ats)
  obtain files1 arrived1 where one: "move_tracked own order from to at (files, arrived) = Some (files1, arrived1)"
    using move_tracked_some [of at files "from" to own order arrived] assms(3,4) Cons.prems(2)
    by (cases "move_tracked own order from to at (files, arrived)") auto
  have "\<forall>a\<in>set ats. a < length files1 \<and> is_within (tr_path (files1 ! a)) from"
    using move_tracked_before [OF one] Cons.prems by auto
  with Cons.IH [of files1 arrived1] Cons.prems(1) one show ?case by simp
qed simp

definition plain_renames :: "path_change list \<Rightarrow> bool" where
  "plain_renames changes = (\<forall>from to. PathRenamed from to \<in> set changes \<longrightarrow> trim_separators from = from \<and> from \<noteq> to)"

lemma apply_changes_some: "plain_renames changes \<Longrightarrow> apply_changes own order changes state \<noteq> None"
proof (induction changes arbitrary: state)
  case (Cons c cs)
  have plain: "plain_renames cs" using Cons.prems by (auto simp: plain_renames_def)
  have "(case c of PathRemoved path \<Rightarrow> Some (tracking_remove path own (fst state), snd state)
      | PathRenamed from to \<Rightarrow> tracking_rename own order from to state) \<noteq> None"
  proof (cases c)
    case (PathRenamed a b)
    then have ab: "trim_separators a = a" "a \<noteq> b" using Cons.prems by (auto simp: plain_renames_def)
    obtain files arrived where state: "state = (files, arrived)" by (cases state)
    have "move_each own order a b (rev (moved_places a files)) (files, arrived) \<noteq> None"
      by (rule move_each_some [OF moved_places_facts(1) _ ab]) (use moved_places_facts(2) in blast)
    then show ?thesis by (simp add: PathRenamed state tracking_rename_eq)
  qed simp
  then show ?case using Cons.IH [OF plain] by (auto split: option.splits)
qed simp

lemma tracking_add_some: "plain_renames changes \<Longrightarrow> tracking_add call report changes own tg \<noteq> None"
  using apply_changes_some [of changes own "note_call call (tg_order tg)" "(tg_files tg, [])"]
  by (auto simp: tracking_add_def Let_def split: option.splits)

section \<open>A plan's lists\<close>

definition plain_view_renames :: "block \<Rightarrow> bool" where
  "plain_view_renames b = (\<forall>view. shell_view b = Some view \<longrightarrow> plain_renames (sv_path_changes view))"

lemma gather_some: "\<forall>b\<in>set bs. plain_view_renames b \<Longrightarrow> gather run bs state \<noteq> None"
proof (induction bs arbitrary: state)
  case (Cons b bs)
  have "gather_call run b state \<noteq> None"
  proof (cases "shell_view b")
    case (Some view)
    then have "\<forall>own tg. \<exists>tg'. add_view view own tg = Some tg'"
      using Cons.prems tracking_add_some by (simp add: add_view_def plain_view_renames_def)
    then obtain g where "\<And>own tg. add_view view own tg = Some (g own tg)" by metis
    then show ?thesis using Some by (simp add: gather_call_def split: prod.split)
  qed (simp add: gather_call_def)
  with Cons show ?case by (auto split: option.splits)
qed simp

lemma plan_some:
  assumes "i < length blocks" "\<forall>b\<in>set (take i blocks). plain_view_renames b" "plain_renames (sv_path_changes view)"
  shows "plan is_inside blocks i view directory \<noteq> None"
proof -
  have "\<forall>own tg. \<exists>tg'. add_view view own tg = Some tg'" using tracking_add_some [OF assms(3)] by (simp add: add_view_def)
  then obtain add where add: "\<And>own tg. add_view view own tg = Some (add own tg)" by metis
  have "gather run (drop start (take i blocks)) state \<noteq> None" for run start state
    by (rule gather_some) (use assms(2) in_set_dropD in fastforce)
  then have "\<forall>run start state. \<exists>s. gather run (drop start (take i blocks)) state = Some s" by simp
  then obtain g where "\<And>run start state. gather run (drop start (take i blocks)) state = Some (g run start state)" by metis
  with add assms(1) show ?thesis unfolding plan_def Let_def by (simp only: option.case prod.case if_False not_le split: prod.split) simp
qed

text \<open>What a plan is made of.\<close>

lemma plan_elim:
  assumes "plan is_inside blocks i view directory = Some p"
  obtains run start request_tg run_tg request_tg' run_tg' where
    "gather run (drop start (take i blocks)) (no_tracking, no_tracking, \<lambda>_. None) = Some (request_tg, run_tg, pl_counted p)"
    "add_view view (pl_files p) request_tg = Some request_tg'" "add_view view (pl_files p) run_tg = Some run_tg'"
    "pl_run p = listed run_tg'" "request_list p = listed request_tg' \<or> request_list p = []"
proof -
  define run where "run = (case run_of_block (blocks ! i) of Some r \<Rightarrow> Some r | None \<Rightarrow> run_of (take i blocks) (blocks ! i) True)"
  define start where "start = (case rposition is_user (take i blocks) of Some s \<Rightarrow> s | None \<Rightarrow> 0)"
  have i: "\<not> length blocks \<le> i" using assms by (auto simp: plan_def)
  note body = assms [unfolded plan_def Let_def, folded run_def start_def, unfolded if_not_P [OF i]]
  then obtain request_tg run_tg counted where
      g: "gather run (drop start (take i blocks)) (no_tracking, no_tracking, \<lambda>_. None) = Some (request_tg, run_tg, counted)"
    by (auto split: option.splits)
  with body obtain request_tg' run_tg' where
      "add_view view (call_files is_inside view directory) request_tg = Some request_tg'"
      "add_view view (call_files is_inside view directory) run_tg = Some run_tg'"
      "p = \<lparr>pl_files = call_files is_inside view directory, pl_run = listed run_tg',
            pl_request = map_option (\<lambda>_. listed request_tg') (rposition is_user (take i blocks)), pl_counted = counted\<rparr>"
    by (auto split: option.splits)
  with g show thesis
    by (intro that [of run start request_tg run_tg request_tg' run_tg']) (simp_all add: request_list_def split: option.split)
qed

text \<open>The edits a call reported of a file.\<close>

definition view_edits :: "shell_tool_view \<Rightarrow> file_edit set" where
  "view_edits view = (\<Union>f\<in>set (reported view). set (call_edits (sv_command_id view) f))"

lemma add_view_ok:
  "add_view view own tg = Some tg' \<Longrightarrow> files_ok known (tg_files tg) \<Longrightarrow> \<forall>e\<in>view_edits view. known e \<Longrightarrow> files_ok known (tg_files tg')"
  unfolding add_view_def view_edits_def by (rule tracking_add_ok) auto

lemma gather_ok:
  assumes "gather run bs state = Some state'"
    and "\<And>b view e. b \<in> set bs \<Longrightarrow> shell_view b = Some view \<Longrightarrow> e \<in> view_edits view \<Longrightarrow> known e"
    and "files_ok known (tg_files (fst state))" "files_ok known (tg_files (fst (snd state)))"
  shows "files_ok known (tg_files (fst state')) \<and> files_ok known (tg_files (fst (snd state')))"
  using assms
proof (induction bs arbitrary: state)
  case (Cons b bs)
  then obtain s where s: "gather_call run b state = Some s" "gather run bs s = Some state'" by (auto split: option.splits)
  have "files_ok known (tg_files (fst s)) \<and> files_ok known (tg_files (fst (snd s)))"
  proof (cases "shell_view b")
    case None
    with s(1) Cons.prems show ?thesis by (simp add: gather_call_def)
  next
    case (Some view)
    then have edits: "\<forall>e\<in>view_edits view. known e" using Cons.prems(2) by auto
    show ?thesis
      using s(1) Some Cons.prems(3,4) add_view_ok [OF _ _ edits]
      by (auto simp: gather_call_def split: prod.splits option.splits if_splits)
  qed
  with Cons.IH [OF s(2)] Cons.prems(2) show ?case by auto
qed simp

lemma plan_ok:
  assumes "plan is_inside blocks i view directory = Some p" "(f, e) \<in> set (pl_run p @ request_list p)"
    and "\<And>b view e. b \<in> set (take i blocks) \<Longrightarrow> shell_view b = Some view \<Longrightarrow> e \<in> view_edits view \<Longrightarrow> known e"
    and "\<And>e. e \<in> view_edits view \<Longrightarrow> known e"
  shows "(cf_kind f = Renamed) = (cf_from f \<noteq> None) \<and> (\<forall>e\<in>set (cf_edits f). known e)"
proof -
  obtain run start request_tg run_tg request_tg' run_tg' where
      g: "gather run (drop start (take i blocks)) (no_tracking, no_tracking, \<lambda>_. None) = Some (request_tg, run_tg, pl_counted p)"
      and adds: "add_view view (pl_files p) request_tg = Some request_tg'" "add_view view (pl_files p) run_tg = Some run_tg'"
      and lists: "pl_run p = listed run_tg'" "request_list p = listed request_tg' \<or> request_list p = []"
    by (rule plan_elim [OF assms(1)])
  have "files_ok known (tg_files request_tg)" "files_ok known (tg_files run_tg)"
    using gather_ok [OF g, of known] assms(3) by (auto simp: no_tracking_def dest: in_set_dropD)
  then have "files_ok known (tg_files request_tg')" "files_ok known (tg_files run_tg')"
    using add_view_ok [OF adds(1), of known] add_view_ok [OF adds(2), of known] assms(4) by auto
  moreover have "\<exists>t. (t \<in> set (tg_files request_tg') \<or> t \<in> set (tg_files run_tg')) \<and> f = listed_file t"
    using assms(2) lists by (auto simp: listed_def)
  ultimately obtain t where "tracked_ok known t" "f = listed_file t" by blast
  then show ?thesis by (auto simp: listed_file_def tracked_ok_def tracked_kind_def)
qed

section \<open>Listing again ends in a list, or as the store fails\<close>

lemma count_each_error: "count_each diff read es = Inl error \<Longrightarrow> \<exists>blob. read blob = Inl error"
proof (induction es)
  case (Cons e es)
  show ?case
  proof (cases "count_ends diff read e")
    case (Inl error')
    with Cons.prems show ?thesis by (auto simp: count_ends_def split: sum.splits option.splits)
  next
    case (Inr n)
    with Cons show ?thesis by (cases "count_each diff read es") auto
  qed
qed simp

lemma plain_with_view:
  "shell_view b = Some view \<Longrightarrow> plain_view_renames b \<Longrightarrow> plain_view_renames (with_view (finish p counted view) b)"
  by (simp add: plain_view_renames_def)

lemma relist_from_some:
  assumes "\<forall>b\<in>set blocks. plain_view_renames b" "\<forall>i\<in>set is. i < length blocks"
  shows "case relist_from diff is_inside read is blocks of None \<Rightarrow> False | Some (Inl error) \<Rightarrow> \<exists>blob. read blob = Inl error | Some (Inr _) \<Rightarrow> True"
  using assms
proof (induction "is" arbitrary: blocks)
  case (Cons i "is")
  show ?case
  proof (cases "shell_view (blocks ! i)")
    case None
    with Cons show ?thesis by simp
  next
    case (Some view)
    have i: "i < length blocks" and at: "plain_view_renames (blocks ! i)" using Cons.prems by simp_all
    have "plan is_inside blocks i view None \<noteq> None"
      by (rule plan_some [OF i]) (use Cons.prems at Some in \<open>auto simp: plain_view_renames_def dest: in_set_takeD\<close>)
    then obtain p where p: "plan is_inside blocks i view None = Some p" by blast
    show ?thesis
    proof (cases "count_each diff read (uncounted p)")
      case (Inl error)
      with Some p count_each_error [OF Inl] show ?thesis by simp
    next
      case (Inr counted)
      let ?next = "blocks[i := with_view (finish p counted view) (blocks ! i)]"
      have "\<forall>b\<in>set ?next. plain_view_renames b"
        using Cons.prems(1) plain_with_view [OF Some at, of p counted] set_update_subset_insert [of blocks i] by blast
      from Cons.IH [OF this] Cons.prems(2) Inr Some p show ?thesis by simp
    qed
  qed
qed simp

lemma plain_set_run: "plain_view_renames (set_run r b) = plain_view_renames b"
proof -
  have "shell_view (set_run r b) = shell_view b" by (cases b) simp_all
  then show ?thesis by (simp add: plain_view_renames_def)
qed

lemma set_runs_plain: "\<forall>b\<in>set blocks. plain_view_renames b \<Longrightarrow> \<forall>b\<in>set (set_runs blocks). plain_view_renames b"
proof -
  have "\<forall>b\<in>set (pre @ rest). plain_view_renames b \<Longrightarrow> \<forall>b\<in>set (set_runs_from pre rest). plain_view_renames b" for pre rest
    by (induction pre rest rule: set_runs_from.induct) (simp_all add: plain_set_run)
  from this [of "[]" blocks] show "\<forall>b\<in>set blocks. plain_view_renames b \<Longrightarrow> ?thesis" by (simp add: set_runs_def)
qed

end
