(* ===== verification/Sibling_Versions.thy ===== *)
theory Sibling_Versions imports Journal begin

text \<open>
  Which version of its place a row is (\<open>crates/agent-store/src/versions.rs\<close>): the rows that follow
  the same row, each written in place of an older one or beginning a version of its own. The walk
  to the first row of a version may not end for rows that replace each other in a circle, so it is
  a partial function; rows replace older ones only (\<open>replaces_older\<close>), and then it ends.
\<close>

section \<open>The rows of a version\<close>

record sibling =
  sb_row :: nat
  sb_replaces :: "nat option"

definition replaced_row :: "sibling list \<Rightarrow> nat \<Rightarrow> nat option" where
  "replaced_row siblings row =
     (case find (\<lambda>s. sb_row s = row) siblings of
        None \<Rightarrow> None
      | Some s \<Rightarrow>
          (case sb_replaces s of
             None \<Rightarrow> None
           | Some r \<Rightarrow> if list_ex (\<lambda>x. sb_row x = r) siblings then Some r else None))"

partial_function (option) version_start :: "sibling list \<Rightarrow> nat \<Rightarrow> nat option" where
  "version_start siblings row =
     (case replaced_row siblings row of None \<Rightarrow> Some row | Some replaced \<Rightarrow> version_start siblings replaced)"

definition row_starts :: "sibling list \<Rightarrow> (nat \<times> nat) list option" where
  "row_starts siblings =
     those (map (\<lambda>s. map_option (Pair (sb_row s)) (version_start siblings (sb_row s))) siblings)"

definition starts :: "sibling list \<Rightarrow> nat list option" where
  "starts siblings = map_option (\<lambda>rs. sort (map fst (filter (\<lambda>(row, start). start = row) rs))) (row_starts siblings)"

definition fits_u32 :: "nat \<Rightarrow> bool" where
  "fits_u32 n = (n < 2 ^ 32)"

definition versions_of :: "sibling list \<Rightarrow> nat \<Rightarrow> versions option option" where
  "versions_of siblings row =
     (case starts siblings of
        None \<Rightarrow> None
      | Some firsts \<Rightarrow>
          if length firsts < 2 then Some None
          else case version_start siblings row of
            None \<Rightarrow> None
          | Some start \<Rightarrow>
              Some (case position (\<lambda>first. first = start) firsts of
                None \<Rightarrow> None
              | Some i \<Rightarrow> if fits_u32 (i + 1) \<and> fits_u32 (length firsts) then Some \<lparr>v_index = i + 1, v_count = length firsts\<rparr> else None))"

definition version_rows :: "sibling list \<Rightarrow> nat \<Rightarrow> nat list option option" where
  "version_rows siblings version =
     (case starts siblings of
        None \<Rightarrow> None
      | Some firsts \<Rightarrow>
          (case if version = 0 then None else get_at firsts (version - 1) of
             None \<Rightarrow> Some None
           | Some start \<Rightarrow>
               map_option (\<lambda>rs. Some (map fst (filter (\<lambda>(row, s). s = start) rs))) (row_starts siblings)))"

section \<open>Each row is of one version\<close>

definition replaces_older :: "sibling list \<Rightarrow> bool" where
  "replaces_older siblings = (\<forall>s\<in>set siblings. \<forall>r. sb_replaces s = Some r \<longrightarrow> r < sb_row s)"

definition sibling_rows :: "sibling list \<Rightarrow> nat list" where
  "sibling_rows siblings = map sb_row siblings"

lemma replaced_row_older:
  assumes "replaces_older siblings" "replaced_row siblings row = Some r"
  shows "r < row" "r \<in> set (sibling_rows siblings)"
proof -
  from assms(2) obtain s where s: "find (\<lambda>s. sb_row s = row) siblings = Some s" "sb_replaces s = Some r"
      "list_ex (\<lambda>x. sb_row x = r) siblings"
    by (auto simp: replaced_row_def split: option.splits if_splits)
  from s(1) have "s \<in> set siblings" "sb_row s = row" by (auto simp: find_Some_iff)
  with s assms(1) show "r < row" "r \<in> set (sibling_rows siblings)"
    by (auto simp: replaces_older_def sibling_rows_def list_ex_iff)
qed

text \<open>The first row of a version is a row, and begins its own version.\<close>

lemma version_start_ends:
  assumes "replaces_older siblings"
  shows "row \<in> set (sibling_rows siblings) \<Longrightarrow> \<exists>start. version_start siblings row = Some start
    \<and> start \<in> set (sibling_rows siblings) \<and> version_start siblings start = Some start"
proof (induction row rule: less_induct)
  case (less row)
  show ?case
  proof (cases "replaced_row siblings row")
    case None
    then have "version_start siblings row = Some row" by (simp add: version_start.simps)
    with less.prems show ?thesis by simp
  next
    case (Some r)
    then have "version_start siblings row = version_start siblings r" by (simp add: version_start.simps)
    with less.IH [OF replaced_row_older [OF assms Some]] show ?thesis by simp
  qed
qed

definition start_of :: "sibling list \<Rightarrow> nat \<Rightarrow> nat" where
  "start_of siblings row = (case version_start siblings row of Some start \<Rightarrow> start | None \<Rightarrow> row)"

lemma start_of_facts:
  assumes "replaces_older siblings" "row \<in> set (sibling_rows siblings)"
  shows "version_start siblings row = Some (start_of siblings row)" "start_of siblings row \<in> set (sibling_rows siblings)"
    "start_of siblings (start_of siblings row) = start_of siblings row"
  using version_start_ends [OF assms] by (auto simp: start_of_def)

lemma row_starts_eq:
  assumes "replaces_older siblings"
  shows "row_starts siblings = Some (map (\<lambda>row. (row, start_of siblings row)) (sibling_rows siblings))"
proof -
  have "those (map (\<lambda>s. map_option (Pair (sb_row s)) (version_start siblings (sb_row s))) xs)
      = Some (map (\<lambda>s. (sb_row s, start_of siblings (sb_row s))) xs)" if "set xs \<subseteq> set siblings" for xs
    using that
  proof (induction xs)
    case (Cons x xs)
    have "sb_row x \<in> set (sibling_rows siblings)" using Cons.prems by (simp add: sibling_rows_def)
    with Cons start_of_facts(1) [OF assms this] show ?case by simp
  qed simp
  then show ?thesis by (simp add: row_starts_def sibling_rows_def comp_def)
qed

definition firsts_of :: "sibling list \<Rightarrow> nat list" where
  "firsts_of siblings = sort (filter (\<lambda>row. start_of siblings row = row) (sibling_rows siblings))"

lemma filter_pairs: "map fst (filter (\<lambda>(row, s). P row s) (map (\<lambda>row. (row, g row)) rows)) = filter (\<lambda>row. P row (g row)) rows"
  by (induction rows) simp_all

lemma starts_eq: "replaces_older siblings \<Longrightarrow> starts siblings = Some (firsts_of siblings)"
  using filter_pairs [of "\<lambda>row start. start = row" "start_of siblings" "sibling_rows siblings"]
  by (simp add: starts_def row_starts_eq firsts_of_def)

lemma firsts_facts:
  "replaces_older siblings \<Longrightarrow> row \<in> set (sibling_rows siblings) \<Longrightarrow> start_of siblings row \<in> set (firsts_of siblings)"
  "distinct (sibling_rows siblings) \<Longrightarrow> distinct (firsts_of siblings)"
  "length (firsts_of siblings) \<le> length siblings"
  using start_of_facts(2,3) [of siblings row]
  by (auto simp: firsts_of_def) (simp add: sibling_rows_def order_trans [OF length_filter_le])

lemma version_rows_eq:
  assumes "replaces_older siblings"
  shows "version_rows siblings version = Some (if version = 0 \<or> length (firsts_of siblings) < version then None
    else Some (filter (\<lambda>row. start_of siblings row = firsts_of siblings ! (version - 1)) (sibling_rows siblings)))"
  using filter_pairs [of "\<lambda>row start. start = firsts_of siblings ! (version - 1)" "start_of siblings" "sibling_rows siblings"]
  by (auto simp: version_rows_def starts_eq [OF assms] row_starts_eq [OF assms] get_at_def)

lemma versions_of_eq:
  assumes "replaces_older siblings" "row \<in> set (sibling_rows siblings)" "distinct (sibling_rows siblings)" "length siblings < 2 ^ 32"
  obtains i where "i < length (firsts_of siblings)" "firsts_of siblings ! i = start_of siblings row"
    "versions_of siblings row = Some (if length (firsts_of siblings) < 2 then None else Some \<lparr>v_index = i + 1, v_count = length (firsts_of siblings)\<rparr>)"
proof -
  obtain i where i: "position (\<lambda>first. first = start_of siblings row) (firsts_of siblings) = Some i"
    using firsts_facts(1) [OF assms(1,2)]
    by (cases "position (\<lambda>first. first = start_of siblings row) (firsts_of siblings)") (auto simp: position_None)
  then have at: "i < length (firsts_of siblings)" "firsts_of siblings ! i = start_of siblings row" by (auto simp: position_Some)
  have "fits_u32 (i + 1)" "fits_u32 (length (firsts_of siblings))"
    using at(1) assms(4) firsts_facts(3) [of siblings] by (simp_all add: fits_u32_def)
  with i show thesis
    by (intro that [OF at]) (simp add: versions_of_def starts_eq [OF assms(1)] start_of_facts(1) [OF assms(1,2)])
qed

end
