(* ===== verification/Change_Properties.thy ===== *)
theory Change_Properties imports Track_Facts Sibling_Versions Samples begin

text \<open>
  The properties of the lists of changes, C11 and C15, and of the versions of a place, C29.
\<close>

section \<open>A concrete call\<close>

definition sample_written :: edited_file where
  "sample_written = \<lparr>ef_path = ''/w/a'', ef_kind = Added, ef_from = None, ef_added = 1, ef_removed = 0,
     ef_outside = False, ef_edits = [\<lparr>es_copies = Some \<lparr>ec_original = ''o'', ec_modified = ''m''\<rparr>, es_binary = False\<rparr>]\<rparr>"

definition sample_shell_view :: shell_tool_view where
  "sample_shell_view = (shell_view_named ''cmd1'' ViewExited)
     \<lparr>sv_files := Some [sample_written], sv_path_changes := [PathRenamed ''/w/b'' ''/w/c'', PathRemoved ''/w/d/'']\<rparr>"

definition sample_shell_call :: block where
  "sample_shell_call = ToolCall
     \<lparr>block_id = ''c1'', created_at = 3, request = Some ''u1'', block_model = sample_model,
      tc_tool_use_id = ''call1'', tc_tool_name = ''shell'', tc_input = ''ls'', tc_status = CallCompleted,
      tc_output = [], tc_view = Some (ShellView sample_shell_view), tc_writing_started_at = None, tc_ended_at = Some 4,
      tc_run = Some ''c1'', tc_entries = []\<rparr>"

definition no_blob :: "blob_ref \<Rightarrow> string + byte list option" where
  "no_blob blob = Inr None"

lemma sample_shell_simps [simp]:
  "shell_view sample_shell_call = Some sample_shell_view" "run_of_block sample_shell_call = Some ''c1''"
  "\<not> is_user sample_shell_call" "is_user sample_user" "shell_view sample_user = None"
  by (simp_all add: sample_shell_call_def sample_user_def)

lemma sample_plain: "plain_renames (sv_path_changes sample_shell_view)"
  by (simp add: plain_renames_def sample_shell_view_def trim_separators_def is_separator_def)

section \<open>The properties\<close>

text \<open>
  C11. Listing a stored transcript again panics on no transcript whose renames name plain paths, and
  fails only as reading a blob fails. Each list it makes gives each file the lines between its two
  ends, none where one was not kept, and listing what it gives once more changes nothing.
\<close>

theorem listing_again_changes_nothing:
  fixes read :: "blob_ref \<Rightarrow> 'e + byte list option"
  assumes "\<forall>b\<in>set blocks. plain_view_renames b"
  shows "case relist diff is_inside read blocks of
      None \<Rightarrow> False
    | Some (Inl error) \<Rightarrow> \<exists>blob. read blob = Inl error
    | Some (Inr bs) \<Rightarrow>
        relist diff is_inside read bs = Some (Inr bs)
        \<and> (\<forall>b\<in>set bs. \<forall>view. shell_view b = Some view \<longrightarrow> (\<forall>f\<in>set (view_lists view).
             case ends_of f of None \<Rightarrow> cf_lines f = None | Some e \<Rightarrow> count_ends diff read e = Inr (cf_lines f)))"
proof -
  have "case relist diff is_inside read blocks of None \<Rightarrow> False | Some (Inl error) \<Rightarrow> \<exists>blob. read blob = Inl error | Some (Inr _) \<Rightarrow> True"
    unfolding relist_def using set_runs_plain [OF assms] by (intro relist_from_some) (simp_all add: set_runs_set)
  then consider error blob where "relist diff is_inside read blocks = Some (Inl error)" "read blob = Inl error"
    | bs where "relist diff is_inside read blocks = Some (Inr bs)"
    by (auto split: option.splits sum.splits)
  then show ?thesis
  proof cases
    case 2
    then show ?thesis using relist_again [OF 2] relist_right [OF 2] by (simp add: lines_right_def)
  qed auto
qed

theorem listing_again_changes_nothing_witness:
  "\<exists>bs. relist (\<lambda>_ _. (0, 0)) (\<lambda>_ _. True) no_blob [sample_user, sample_shell_call] = Some (Inr bs)
     \<and> relist (\<lambda>_ _. (0, 0)) (\<lambda>_ _. True) no_blob bs = Some (Inr bs)"
proof -
  have "\<forall>b\<in>set [sample_user, sample_shell_call]. plain_view_renames b" using sample_plain by (simp add: plain_view_renames_def)
  from listing_again_changes_nothing [OF this, of no_blob "\<lambda>_ _. (0, 0)" "\<lambda>_ _. True"]
  show ?thesis by (auto simp: no_blob_def split: option.splits sum.splits)
qed

text \<open>
  C15. The lists of a call made in a session's window, with the calls the store gives of a request
  that began before it, are those made of the whole path, and making them panics on no request whose
  renames name plain paths. A listed file has an old path exactly when it is listed renamed, its
  lines are asked for between its ends, and each of its edits is one a call up to it reported.
\<close>

theorem window_lists_the_request:
  fixes read :: "blob_ref \<Rightarrow> 'e + byte list option"
  assumes "start \<le> index" "index < length path" "run_of_block (path ! index) \<noteq> None"
    and "list_ex is_user (take index path)"
    and "\<forall>b\<in>set (take index path). plain_view_renames b" "plain_renames (sv_path_changes view)"
  shows "\<exists>p. plan is_inside path index view directory = Some p
    \<and> with_lists diff is_inside read (Some path) start (drop start path) index view directory
        = Some (finish p (count_all diff read (uncounted p)) view)
    \<and> (\<forall>(f, e)\<in>set (pl_run p @ request_list p). e = ends_of f \<and> (cf_kind f = Renamed) = (cf_from f \<noteq> None)
        \<and> (\<forall>edit\<in>set (cf_edits f). edit \<in> view_edits view
            \<or> (\<exists>b\<in>set (take index path). \<exists>earlier. shell_view b = Some earlier \<and> edit \<in> view_edits earlier)))"
proof -
  obtain p where p: "plan is_inside path index view directory = Some p"
    using plan_some [OF assms(2,5,6)] by blast
  let ?pre = "take start path" and ?window = "drop start path"
  have path: "?pre @ ?window = path" "length ?pre + (index - start) = index" using assms(1,2) by simp_all
  have "take index path = ?pre @ take (index - start) ?window" using assms(1) by (metis le_add_diff_inverse take_add)
  then have users: "list_ex is_user (?pre @ take (index - start) ?window)" using assms(4) by simp
  define earlier where "earlier = (if ?pre \<noteq> [] \<and> \<not> list_ex is_user (take (index - start) ?window)
      then request_calls_before ?pre (length ?pre) else [])"
  have "plan is_inside (earlier @ ?window) (length earlier + (index - start)) view directory
      = plan is_inside (?pre @ ?window) (length ?pre + (index - start)) view directory"
    unfolding earlier_def by (rule window_plan) (use assms(1-3) users in simp_all)
  then have windowed: "plan is_inside (earlier @ ?window) (index - start + length earlier) view directory = Some p"
    using p path by (simp add: add.commute)
  have "earlier = (if 0 < start \<and> \<not> list_ex is_user (take (index - start) ?window) then request_calls_before path start else [])"
    using assms(1,2) by (auto simp: earlier_def request_calls_before_def split: option.split)
  then have "with_lists diff is_inside read (Some path) start ?window index view directory
      = Some (finish p (count_all diff read (uncounted p)) view)"
    using windowed
    by (cases "0 < start"; cases "list_ex is_user (take (index - start) ?window)"; simp add: with_lists_def Let_def)
  moreover have "e = ends_of f \<and> (cf_kind f = Renamed) = (cf_from f \<noteq> None)
      \<and> (\<forall>edit\<in>set (cf_edits f). edit \<in> view_edits view
            \<or> (\<exists>b\<in>set (take index path). \<exists>earlier. shell_view b = Some earlier \<and> edit \<in> view_edits earlier))"
    if "(f, e) \<in> set (pl_run p @ request_list p)" for f e
    using plan_ends [OF p that] plan_ok [OF p that, of "\<lambda>edit. edit \<in> view_edits view
            \<or> (\<exists>b\<in>set (take index path). \<exists>earlier. shell_view b = Some earlier \<and> edit \<in> view_edits earlier)"] by blast
  ultimately show ?thesis using p by blast
qed

theorem window_lists_the_request_witness:
  "\<exists>p. plan (\<lambda>_ _. True) [sample_user, sample_shell_call] 1 sample_shell_view (Some ''/w'') = Some p
    \<and> with_lists (\<lambda>_ _. (0, 0)) (\<lambda>_ _. True) no_blob (Some [sample_user, sample_shell_call]) 1 [sample_shell_call] 1
        sample_shell_view (Some ''/w'')
      = Some (finish p (count_all (\<lambda>_ _. (0, 0)) no_blob (uncounted p)) sample_shell_view)"
  using window_lists_the_request [of 1 1 "[sample_user, sample_shell_call]" sample_shell_view "\<lambda>_ _. True" "Some ''/w''"
      "\<lambda>_ _. (0, 0)" no_blob] sample_plain
  by (auto simp: plain_view_renames_def)

text \<open>
  C29. Among the rows that follow the same row, each replacing older ones only, the walk to a
  version's first row always ends, and each row is of exactly one version: there are as many versions
  as first rows, from 1 up, and where a row stands is told as the number of the version whose rows
  hold it, when there is more than one.
\<close>

theorem row_is_of_one_version:
  assumes "replaces_older siblings" "distinct (sibling_rows siblings)" "length siblings < 2 ^ 32"
  shows "\<exists>count. (\<forall>v. version_rows siblings v = Some None \<longleftrightarrow> v = 0 \<or> count < v)
    \<and> (\<forall>row\<in>set (sibling_rows siblings). \<exists>v rows. version_rows siblings v = Some (Some rows) \<and> row \<in> set rows
        \<and> (\<forall>v' rows'. version_rows siblings v' = Some (Some rows') \<and> row \<in> set rows' \<longrightarrow> v' = v)
        \<and> versions_of siblings row = Some (if count < 2 then None else Some \<lparr>v_index = v, v_count = count\<rparr>))"
proof (rule exI [of _ "length (firsts_of siblings)"], intro conjI allI ballI)
  fix v show "version_rows siblings v = Some None \<longleftrightarrow> v = 0 \<or> length (firsts_of siblings) < v"
    by (simp add: version_rows_eq [OF assms(1)])
next
  fix row assume row: "row \<in> set (sibling_rows siblings)"
  obtain i where i: "i < length (firsts_of siblings)" "firsts_of siblings ! i = start_of siblings row"
      "versions_of siblings row = Some (if length (firsts_of siblings) < 2 then None
         else Some \<lparr>v_index = i + 1, v_count = length (firsts_of siblings)\<rparr>)"
    by (rule versions_of_eq [OF assms(1) row assms(2,3)])
  have only: "\<forall>v' rows'. version_rows siblings v' = Some (Some rows') \<and> row \<in> set rows' \<longrightarrow> v' = i + 1"
  proof (intro allI impI, elim conjE)
    fix v' rows' assume that: "version_rows siblings v' = Some (Some rows')" "row \<in> set rows'"
    then have v': "v' \<noteq> 0" "v' - 1 < length (firsts_of siblings)" "firsts_of siblings ! (v' - 1) = firsts_of siblings ! i"
      using i(2) by (auto simp: version_rows_eq [OF assms(1)] split: if_splits)
    with i(1) have "v' - 1 = i" using nth_eq_iff_index_eq [OF firsts_facts(2) [OF assms(2)]] by blast
    with v'(1) show "v' = i + 1" by simp
  qed
  obtain rows where rows: "version_rows siblings (i + 1) = Some (Some rows)" "row \<in> set rows"
    using i(1,2) row by (simp add: version_rows_eq [OF assms(1)])
  show "\<exists>v rows. version_rows siblings v = Some (Some rows) \<and> row \<in> set rows
        \<and> (\<forall>v' rows'. version_rows siblings v' = Some (Some rows') \<and> row \<in> set rows' \<longrightarrow> v' = v)
        \<and> versions_of siblings row = Some (if length (firsts_of siblings) < 2 then None
             else Some \<lparr>v_index = v, v_count = length (firsts_of siblings)\<rparr>)"
    by (rule exI [of _ "i + 1"], rule exI [of _ rows], intro conjI) (fact rows only i(3))+
qed

theorem row_is_of_one_version_witness:
  "\<exists>count v. versions_of [\<lparr>sb_row = 1, sb_replaces = None\<rparr>, \<lparr>sb_row = 4, sb_replaces = None\<rparr>, \<lparr>sb_row = 7, sb_replaces = Some 1\<rparr>] 7
     = Some (if count < 2 then None else Some \<lparr>v_index = v, v_count = count\<rparr>)"
proof -
  let ?s = "[\<lparr>sb_row = 1, sb_replaces = None\<rparr>, \<lparr>sb_row = 4, sb_replaces = None\<rparr>, \<lparr>sb_row = 7, sb_replaces = Some 1\<rparr>]"
  have "replaces_older ?s" "distinct (sibling_rows ?s)" "length ?s < 2 ^ 32" "7 \<in> set (sibling_rows ?s)"
    by (auto simp: replaces_older_def sibling_rows_def)
  from row_is_of_one_version [OF this(1-3)] this(4) show ?thesis by blast
qed

end
