(* ===== verification/Page_Sync.thy ===== *)
theory Page_Sync imports Prelude "HOL-Library.Char_ord" "HOL-Library.List_Lexorder" begin

text \<open>
  The registry of each user's open synchronization channels (\<open>crates/backend-page-sync/src/lib.rs\<close>):
  whoever commits a change marks its part, which joins the marks of each channel that follows it and
  the log of the user's latest changes. A \<open>Mutex\<close> section is one step here. A channel is named by a
  number (its \<open>Arc\<close>), and the epoch of a new log is an argument. Revisions are natural numbers.
\<close>

section \<open>Parts\<close>

type_synonym user_id = string
type_synonym conversation_id = string
type_synonym token_hash = string

datatype part =
  PartConversation conversation_id
| PartMetadata conversation_id
| PartConversationOrder
| PartPreferences
| PartUser
| PartWorkspaces
| PartProjects
| PartDevices
| PartProviders
| PartLogins
| PartCloud
| PartSubagents
| PartInstructions
| PartCredentials
| PartPortForwards
| PartPasskeys
| PartSessions
| PartUsers
| PartCloudIsolation
| PartServerUpgrade
| PartInstance
| PartUpdate
| PartPlugins
| PartPlugin string
| PartModels

text \<open>The derived order: by constructor, then by the identity (\<open>str\<close> compares by its bytes).\<close>

fun part_rank :: "part \<Rightarrow> nat" where
  "part_rank (PartConversation _) = 0"
| "part_rank (PartMetadata _) = 1"
| "part_rank PartConversationOrder = 2"
| "part_rank PartPreferences = 3"
| "part_rank PartUser = 4"
| "part_rank PartWorkspaces = 5"
| "part_rank PartProjects = 6"
| "part_rank PartDevices = 7"
| "part_rank PartProviders = 8"
| "part_rank PartLogins = 9"
| "part_rank PartCloud = 10"
| "part_rank PartSubagents = 11"
| "part_rank PartInstructions = 12"
| "part_rank PartCredentials = 13"
| "part_rank PartPortForwards = 14"
| "part_rank PartPasskeys = 15"
| "part_rank PartSessions = 16"
| "part_rank PartUsers = 17"
| "part_rank PartCloudIsolation = 18"
| "part_rank PartServerUpgrade = 19"
| "part_rank PartInstance = 20"
| "part_rank PartUpdate = 21"
| "part_rank PartPlugins = 22"
| "part_rank (PartPlugin _) = 23"
| "part_rank PartModels = 24"

fun part_name :: "part \<Rightarrow> string" where
  "part_name (PartConversation c) = c"
| "part_name (PartMetadata c) = c"
| "part_name (PartPlugin p) = p"
| "part_name _ = []"

lemma part_of_rank: "part_rank p = part_rank q \<Longrightarrow> part_name p = part_name q \<Longrightarrow> p = q"
  by (cases p; cases q) simp_all

instantiation part :: linorder
begin

definition less_eq_part :: "part \<Rightarrow> part \<Rightarrow> bool" where
  "less_eq_part p q = (part_rank p < part_rank q \<or> (part_rank p = part_rank q \<and> part_name p \<le> part_name q))"

definition less_part :: "part \<Rightarrow> part \<Rightarrow> bool" where
  "less_part p q = (part_rank p < part_rank q \<or> (part_rank p = part_rank q \<and> part_name p < part_name q))"

instance
proof
  fix p q r :: part
  show "p < q \<longleftrightarrow> p \<le> q \<and> \<not> q \<le> p" by (auto simp: less_eq_part_def less_part_def)
  show "p \<le> p" by (simp add: less_eq_part_def)
  show "p \<le> q \<Longrightarrow> q \<le> r \<Longrightarrow> p \<le> r" by (auto simp: less_eq_part_def)
  show "p \<le> q \<Longrightarrow> q \<le> p \<Longrightarrow> p = q" by (auto simp: less_eq_part_def intro: part_of_rank)
  show "p \<le> q \<or> q \<le> p" by (auto simp: less_eq_part_def)
qed

end

section \<open>The log of a user's changes\<close>

definition RECENT_CHANGES :: nat where
  "RECENT_CHANGES = 1000"

record state_version =
  pv_epoch :: string
  pv_revision :: nat

record state_log =
  sl_epoch :: string
  sl_revision :: nat
  sl_recent :: "part list list"

definition state_log_new :: "string \<Rightarrow> state_log" where
  "state_log_new epoch = \<lparr>sl_epoch = epoch, sl_revision = 0, sl_recent = []\<rparr>"

definition state_version_of :: "state_log \<Rightarrow> state_version" where
  "state_version_of l = \<lparr>pv_epoch = sl_epoch l, pv_revision = sl_revision l\<rparr>"

definition state_record :: "part list \<Rightarrow> state_log \<Rightarrow> state_log" where
  "state_record parts l =
     (let recent = sl_recent l @ [parts]
      in l\<lparr>sl_revision := sl_revision l + 1,
           sl_recent := (if RECENT_CHANGES < length recent then tl recent else recent)\<rparr>)"

text \<open>\<open>None\<close>: the log does not reach the version (\<open>Stale\<close>).\<close>

definition state_since :: "state_version \<Rightarrow> state_log \<Rightarrow> part set option" where
  "state_since held l =
     (if pv_epoch held \<noteq> sl_epoch l \<or> sl_revision l < pv_revision held then None
      else let missed = sl_revision l - pv_revision held
           in if length (sl_recent l) < missed then None
              else Some (set (concat (drop (length (sl_recent l) - missed) (sl_recent l)))))"

section \<open>Channels\<close>

datatype follows = FollowsEvery | FollowsConversation conversation_id | FollowsNothing

record marks =
  mk_parts :: "part set"
  mk_revision :: "nat option"
  mk_session_ended :: bool

definition no_marks :: marks where
  "no_marks = \<lparr>mk_parts = {}, mk_revision = None, mk_session_ended = False\<rparr>"

definition marks_empty :: "marks \<Rightarrow> bool" where
  "marks_empty m = (mk_parts m = {} \<and> mk_revision m = None \<and> \<not> mk_session_ended m)"

text \<open>\<open>cn_permit\<close>: the permit \<open>Notify\<close> keeps for the channel's task.\<close>

record channel =
  cn_id :: nat
  cn_session :: "token_hash option"
  cn_follows :: follows
  cn_marked :: marks
  cn_permit :: bool

fun follows_part :: "follows \<Rightarrow> part \<Rightarrow> bool" where
  "follows_part FollowsEvery (PartMetadata _) = False"
| "follows_part FollowsEvery _ = True"
| "follows_part (FollowsConversation c) (PartConversation d) = (d = c)"
| "follows_part (FollowsConversation c) (PartMetadata d) = (d = c)"
| "follows_part (FollowsConversation _) _ = False"
| "follows_part FollowsNothing _ = False"

definition channel_mark :: "part list \<Rightarrow> nat \<Rightarrow> channel \<Rightarrow> channel" where
  "channel_mark parts revision c =
     (let followed = filter (follows_part (cn_follows c)) parts; m = cn_marked c
      in if followed = [] then c
         else c\<lparr>cn_marked := m\<lparr>mk_parts := mk_parts m \<union> set followed,
                                mk_revision := (if cn_follows c = FollowsEvery then Some revision else mk_revision m)\<rparr>,
                cn_permit := True\<rparr>)"

section \<open>A user's entry\<close>

record user_entry =
  ue_log :: state_log
  ue_channels :: "channel list"

definition entry_new :: "string \<Rightarrow> user_entry" where
  "entry_new epoch = \<lparr>ue_log = state_log_new epoch, ue_channels = []\<rparr>"

definition entry_add :: "nat \<Rightarrow> token_hash option \<Rightarrow> follows \<Rightarrow> user_entry \<Rightarrow> user_entry" where
  "entry_add cid session fs e =
     e\<lparr>ue_channels := ue_channels e
         @ [\<lparr>cn_id = cid, cn_session = session, cn_follows = fs, cn_marked = no_marks, cn_permit = False\<rparr>]\<rparr>"

text \<open>The parts a mark is of: the catalog of models lists the providers and reads the preferences.\<close>

definition marked_parts :: "part \<Rightarrow> part list" where
  "marked_parts p = p # (if p = PartProviders \<or> p = PartPreferences then [PartModels] else [])"

fun is_metadata :: "part \<Rightarrow> bool" where
  "is_metadata (PartMetadata _) = True"
| "is_metadata _ = False"

definition mark_entry :: "part \<Rightarrow> user_entry \<Rightarrow> user_entry" where
  "mark_entry p e =
     (let parts = marked_parts p;
          l = (if is_metadata p then ue_log e else state_record parts (ue_log e))
      in e\<lparr>ue_log := l, ue_channels := map (channel_mark parts (sl_revision l)) (ue_channels e)\<rparr>)"

definition entry_end_session :: "token_hash \<Rightarrow> user_entry \<Rightarrow> user_entry" where
  "entry_end_session session e =
     e\<lparr>ue_channels := map (\<lambda>c. if cn_session c = Some session
         then c\<lparr>cn_marked := (cn_marked c)\<lparr>mk_session_ended := True\<rparr>, cn_permit := True\<rparr> else c) (ue_channels e)\<rparr>"

text \<open>What a registration does with its channel of the entry.\<close>

definition entry_channel :: "nat \<Rightarrow> user_entry \<Rightarrow> channel option" where
  "entry_channel cid e = find (\<lambda>c. cn_id c = cid) (ue_channels e)"

definition on_channel :: "nat \<Rightarrow> (channel \<Rightarrow> channel) \<Rightarrow> user_entry \<Rightarrow> user_entry" where
  "on_channel cid f e = e\<lparr>ue_channels := map (\<lambda>c. if cn_id c = cid then f c else c) (ue_channels e)\<rparr>"

definition entry_follow_since :: "nat \<Rightarrow> state_version \<Rightarrow> user_entry \<Rightarrow> user_entry option" where
  "entry_follow_since cid held e =
     (case state_since held (ue_log e) of
        None \<Rightarrow> None
      | Some parts \<Rightarrow>
          Some (if pv_revision held < sl_revision (ue_log e)
                then on_channel cid (\<lambda>c. c\<lparr>cn_marked := (cn_marked c)\<lparr>mk_parts := mk_parts (cn_marked c) \<union> parts,
                        mk_revision := Some (sl_revision (ue_log e))\<rparr>, cn_permit := True\<rparr>) e
                else e))"

definition entry_mark_part :: "nat \<Rightarrow> part \<Rightarrow> user_entry \<Rightarrow> user_entry" where
  "entry_mark_part cid p =
     on_channel cid (\<lambda>c. c\<lparr>cn_marked := (cn_marked c)\<lparr>mk_parts := insert p (mk_parts (cn_marked c))\<rparr>, cn_permit := True\<rparr>)"

definition entry_take :: "nat \<Rightarrow> user_entry \<Rightarrow> marks \<times> user_entry" where
  "entry_take cid e =
     (case entry_channel cid e of Some c \<Rightarrow> cn_marked c | None \<Rightarrow> no_marks,
      on_channel cid (\<lambda>c. c\<lparr>cn_marked := no_marks\<rparr>) e)"

definition entry_drop :: "nat \<Rightarrow> user_entry \<Rightarrow> user_entry" where
  "entry_drop cid e = e\<lparr>ue_channels := filter (\<lambda>c. cn_id c \<noteq> cid) (ue_channels e)\<rparr>"

section \<open>The registry of every user\<close>

type_synonym registry = "user_id \<Rightarrow> user_entry option"

text \<open>A user's entry, made with the epoch when there is none.\<close>

definition entry_of :: "user_id \<Rightarrow> string \<Rightarrow> registry \<Rightarrow> user_entry" where
  "entry_of user epoch r = (case r user of Some e \<Rightarrow> e | None \<Rightarrow> entry_new epoch)"

definition registry_add ::
  "user_id \<Rightarrow> string \<Rightarrow> nat \<Rightarrow> token_hash option \<Rightarrow> follows \<Rightarrow> registry \<Rightarrow> registry" where
  "registry_add user epoch cid session fs r = r(user \<mapsto> entry_add cid session fs (entry_of user epoch r))"

definition watch :: "user_id \<Rightarrow> string \<Rightarrow> nat \<Rightarrow> registry \<Rightarrow> registry" where
  "watch user epoch cid = registry_add user epoch cid None FollowsEvery"

definition watch_conversation :: "user_id \<Rightarrow> string \<Rightarrow> nat \<Rightarrow> conversation_id \<Rightarrow> registry \<Rightarrow> registry" where
  "watch_conversation user epoch cid c = registry_add user epoch cid None (FollowsConversation c)"

definition watch_session :: "user_id \<Rightarrow> string \<Rightarrow> nat \<Rightarrow> token_hash \<Rightarrow> registry \<Rightarrow> registry" where
  "watch_session user epoch cid session = registry_add user epoch cid (Some session) FollowsNothing"

definition version_at :: "user_id \<Rightarrow> string \<Rightarrow> registry \<Rightarrow> state_version \<times> registry" where
  "version_at user epoch r =
     (let e = entry_of user epoch r in (state_version_of (ue_log e), r(user \<mapsto> e)))"

definition forget_user :: "user_id \<Rightarrow> registry \<Rightarrow> registry" where
  "forget_user user r =
     (case r user of Some e \<Rightarrow> if ue_channels e = [] then r(user := None) else r | None \<Rightarrow> r)"

definition on_entry :: "user_id \<Rightarrow> (user_entry \<Rightarrow> user_entry) \<Rightarrow> registry \<Rightarrow> registry" where
  "on_entry user f r = r(user := map_option f (r user))"

definition registry_mark :: "user_id \<Rightarrow> part \<Rightarrow> registry \<Rightarrow> registry" where
  "registry_mark user p = on_entry user (mark_entry p)"

definition mark_everyone :: "part \<Rightarrow> registry \<Rightarrow> registry" where
  "mark_everyone p r = (\<lambda>user. map_option (mark_entry p) (r user))"

definition end_session :: "user_id \<Rightarrow> token_hash \<Rightarrow> registry \<Rightarrow> registry" where
  "end_session user session = on_entry user (entry_end_session session)"

definition follow_since :: "user_id \<Rightarrow> nat \<Rightarrow> state_version \<Rightarrow> registry \<Rightarrow> registry option" where
  "follow_since user cid held r =
     (case r user of None \<Rightarrow> None | Some e \<Rightarrow> map_option (\<lambda>e. r(user \<mapsto> e)) (entry_follow_since cid held e))"

definition mark_part :: "user_id \<Rightarrow> nat \<Rightarrow> part \<Rightarrow> registry \<Rightarrow> registry" where
  "mark_part user cid p = on_entry user (entry_mark_part cid p)"

definition take_marks :: "user_id \<Rightarrow> nat \<Rightarrow> registry \<Rightarrow> marks \<times> registry" where
  "take_marks user cid r =
     (case r user of None \<Rightarrow> (no_marks, r) | Some e \<Rightarrow> let (m, e) = entry_take cid e in (m, r(user \<mapsto> e)))"

definition drop_registration :: "user_id \<Rightarrow> nat \<Rightarrow> registry \<Rightarrow> registry" where
  "drop_registration user cid = on_entry user (entry_drop cid)"

section \<open>Counts of a conversation's changes\<close>

definition revisions_of :: "(conversation_id \<Rightarrow> nat option) \<Rightarrow> conversation_id \<Rightarrow> nat" where
  "revisions_of counts c = (case counts c of Some n \<Rightarrow> n | None \<Rightarrow> 0)"

definition revisions_raise :: "conversation_id \<Rightarrow> (conversation_id \<Rightarrow> nat option) \<Rightarrow> (conversation_id \<Rightarrow> nat option)" where
  "revisions_raise c counts = counts(c \<mapsto> revisions_of counts c + 1)"

section \<open>Calls in any order\<close>

datatype sync_call =
  CallWatch user_id string nat "token_hash option" follows
| CallVersion user_id string
| CallForget user_id
| CallMark user_id part
| CallMarkEveryone part
| CallEndSession user_id token_hash
| CallFollow user_id nat state_version
| CallMarkPart user_id nat part
| CallTake user_id nat
| CallDrop user_id nat

fun run_call :: "sync_call \<Rightarrow> registry \<Rightarrow> registry" where
  "run_call (CallWatch user epoch cid session fs) r = registry_add user epoch cid session fs r"
| "run_call (CallVersion user epoch) r = snd (version_at user epoch r)"
| "run_call (CallForget user) r = forget_user user r"
| "run_call (CallMark user p) r = registry_mark user p r"
| "run_call (CallMarkEveryone p) r = mark_everyone p r"
| "run_call (CallEndSession user session) r = end_session user session r"
| "run_call (CallFollow user cid held) r = (case follow_since user cid held r of Some r \<Rightarrow> r | None \<Rightarrow> r)"
| "run_call (CallMarkPart user cid p) r = mark_part user cid p r"
| "run_call (CallTake user cid) r = snd (take_marks user cid r)"
| "run_call (CallDrop user cid) r = drop_registration user cid r"

definition run_calls :: "sync_call list \<Rightarrow> registry \<Rightarrow> registry" where
  "run_calls = fold run_call"

text \<open>The changes of a user's state that calls mark, and the epochs they may make.\<close>

fun call_changes :: "user_id \<Rightarrow> sync_call \<Rightarrow> part list list" where
  "call_changes user (CallMark user' p) = (if user' = user \<and> \<not> is_metadata p then [marked_parts p] else [])"
| "call_changes user (CallMarkEveryone p) = (if is_metadata p then [] else [marked_parts p])"
| "call_changes user _ = []"

fun call_epochs :: "sync_call \<Rightarrow> string set" where
  "call_epochs (CallWatch _ epoch _ _ _) = {epoch}"
| "call_epochs (CallVersion _ epoch) = {epoch}"
| "call_epochs _ = {}"

section \<open>What a version is told\<close>

definition log_ok :: "state_log \<Rightarrow> bool" where
  "log_ok l = (length (sl_recent l) = min (sl_revision l) RECENT_CHANGES)"

lemma log_ok_new [simp]: "log_ok (state_log_new epoch)"
  by (simp add: log_ok_def state_log_new_def)

lemma log_ok_record [simp]: "log_ok l \<Longrightarrow> log_ok (state_record parts l)"
  by (auto simp: log_ok_def state_record_def Let_def RECENT_CHANGES_def)

lemma record_fields [simp]:
  "sl_epoch (state_record parts l) = sl_epoch l" "sl_revision (state_record parts l) = sl_revision l + 1"
  by (simp_all add: state_record_def Let_def)

lemma since_record:
  assumes "log_ok l" "pv_revision held \<le> sl_revision l"
  shows "state_since held (state_record parts l) =
    (case state_since held l of
       None \<Rightarrow> None
     | Some ps \<Rightarrow> if sl_revision l - pv_revision held < RECENT_CHANGES then Some (ps \<union> set parts) else None)"
proof -
  define n where "n = sl_revision l - pv_revision held"
  have missed: "Suc (sl_revision l) - pv_revision held = Suc n" "pv_revision held \<le> Suc (sl_revision l)"
    using assms(2) by (simp_all add: n_def)
  consider "length (sl_recent l) < RECENT_CHANGES" "length (sl_recent l) = sl_revision l"
    | x xs where "sl_recent l = x # xs" "Suc (length xs) = RECENT_CHANGES"
  proof (cases "length (sl_recent l) < RECENT_CHANGES")
    case True
    with assms(1) that(1) show thesis by (auto simp: log_ok_def min_def split: if_splits)
  next
    case False
    with assms(1) have "length (sl_recent l) = RECENT_CHANGES" by (auto simp: log_ok_def min_def split: if_splits)
    with that(2) show thesis by (cases "sl_recent l") (simp_all add: RECENT_CHANGES_def)
  qed
  then show ?thesis
  proof cases
    case 1
    moreover have "n \<le> length (sl_recent l)" using 1(2) by (simp add: n_def)
    moreover have "sl_recent (state_record parts l) = sl_recent l @ [parts]" using 1(1) by (simp add: state_record_def Let_def)
    ultimately show ?thesis using assms(2) missed by (auto simp: state_since_def n_def [symmetric])
  next
    case 2
    have new: "sl_recent (state_record parts l) = xs @ [parts]" using 2 by (simp add: state_record_def Let_def)
    have *: "Suc (length xs) - n = Suc (length xs - n)" if "n < Suc (length xs)" using that by simp
    show ?thesis using assms(2) missed
      by (auto simp: state_since_def n_def [symmetric] new 2(1) 2(2) [symmetric] * not_less)
  qed
qed

lemma since_self [simp]: "state_since (state_version_of l) l = Some {}"
  by (simp add: state_since_def state_version_of_def)

lemma since_other_epoch: "pv_epoch held \<noteq> sl_epoch l \<Longrightarrow> state_since held l = None"
  by (simp add: state_since_def)

text \<open>The log of an entry answers a version with the changes after it.\<close>

definition tells :: "state_version \<Rightarrow> part list list \<Rightarrow> state_log \<Rightarrow> bool" where
  "tells v changes l =
     (log_ok l
      \<and> (sl_epoch l = pv_epoch v \<longrightarrow>
           sl_revision l = pv_revision v + length changes
           \<and> state_since v l = (if length changes \<le> RECENT_CHANGES then Some (set (concat changes)) else None)))"

lemma tells_record: "tells v changes l \<Longrightarrow> tells v (changes @ [parts]) (state_record parts l)"
  by (auto simp: tells_def since_record Un_commute)

lemma tells_other: "pv_epoch v \<noteq> epoch \<Longrightarrow> tells v changes (state_log_new epoch)"
  by (simp add: tells_def) (simp add: state_log_new_def)

definition entry_tells :: "user_id \<Rightarrow> state_version \<Rightarrow> part list list \<Rightarrow> registry \<Rightarrow> bool" where
  "entry_tells user v changes r = (case r user of Some e \<Rightarrow> tells v changes (ue_log e) | None \<Rightarrow> True)"

lemma on_channel_log [simp]: "ue_log (on_channel cid f e) = ue_log e"
  by (simp add: on_channel_def)

lemma entry_logs [simp]:
  "ue_log (entry_add cid session fs e) = ue_log e" "ue_log (entry_end_session hash e) = ue_log e"
  "ue_log (entry_mark_part cid p e) = ue_log e" "ue_log (snd (entry_take cid e)) = ue_log e"
  "ue_log (entry_drop cid e) = ue_log e"
  "ue_log (mark_entry p e) = (if is_metadata p then ue_log e else state_record (marked_parts p) (ue_log e))"
  by (auto simp: entry_add_def entry_end_session_def entry_mark_part_def entry_take_def entry_drop_def
      entry_follow_since_def mark_entry_def Let_def split: option.splits)

lemma follow_since_log: "entry_follow_since cid held e = Some e' \<Longrightarrow> ue_log e' = ue_log e"
  by (auto simp: entry_follow_since_def split: option.splits if_splits)

lemma entry_of_tells: "entry_tells user v changes r \<Longrightarrow> epoch \<noteq> pv_epoch v \<Longrightarrow> tells v changes (ue_log (entry_of user epoch r))"
  by (auto simp: entry_tells_def entry_of_def entry_new_def intro: tells_other split: option.splits)

lemma run_call_tells:
  assumes "entry_tells user v changes r" "pv_epoch v \<notin> call_epochs call"
  shows "entry_tells user v (changes @ call_changes user call) (run_call call r)"
proof (cases call)
  case (CallWatch user' epoch cid session fs)
  with assms entry_of_tells [OF assms(1), of epoch] show ?thesis
    by (auto simp: entry_tells_def registry_add_def)
next
  case (CallVersion user' epoch)
  with assms entry_of_tells [OF assms(1), of epoch] show ?thesis
    by (auto simp: entry_tells_def version_at_def Let_def)
next
  case (CallTake user' cid)
  with assms show ?thesis
    by (auto simp: entry_tells_def take_marks_def Let_def entry_logs(4) [unfolded prod.collapse] split: option.splits prod.splits)
       (metis entry_logs(4) snd_conv)
qed (use assms in \<open>auto simp: entry_tells_def forget_user_def registry_mark_def on_entry_def mark_everyone_def
    end_session_def follow_since_def mark_part_def drop_registration_def tells_record dest: follow_since_log
    split: option.splits if_splits\<close>)

lemma run_calls_tell:
  "entry_tells user v changes r \<Longrightarrow> pv_epoch v \<notin> \<Union> (call_epochs ` set calls)
    \<Longrightarrow> entry_tells user v (changes @ concat (map (call_changes user) calls)) (run_calls calls r)"
proof (induction calls arbitrary: changes r)
  case Nil
  then show ?case by (simp add: run_calls_def)
next
  case (Cons call calls)
  from Cons.IH [OF run_call_tells [OF Cons.prems(1)]] Cons.prems(2) show ?case by (simp add: run_calls_def)
qed

text \<open>Every log of a registry is in order.\<close>

definition logs_ok :: "registry \<Rightarrow> bool" where
  "logs_ok r = (\<forall>user. case r user of Some e \<Rightarrow> log_ok (ue_log e) | None \<Rightarrow> True)"

lemma entry_of_ok: "logs_ok r \<Longrightarrow> log_ok (ue_log (entry_of user epoch r))"
  by (auto simp: logs_ok_def entry_of_def entry_new_def dest: spec [of _ user] split: option.splits)

lemma logs_ok_put: "logs_ok r \<Longrightarrow> log_ok (ue_log e) \<Longrightarrow> logs_ok (r(user \<mapsto> e))"
  by (auto simp: logs_ok_def)

lemma logs_ok_entry:
  assumes "logs_ok r" "\<And>e. log_ok (ue_log e) \<Longrightarrow> log_ok (ue_log (f e))"
  shows "logs_ok (on_entry user f r)" "logs_ok (\<lambda>user. map_option f (r user))"
  using assms(1) unfolding logs_ok_def on_entry_def by (auto simp: assms(2) split: option.splits)

lemma run_call_ok: "logs_ok r \<Longrightarrow> logs_ok (run_call call r)"
proof (cases call)
  case (CallForget user)
  then show "logs_ok r \<Longrightarrow> ?thesis" by (auto simp: logs_ok_def forget_user_def split: option.splits)
next
  case (CallFollow user cid held)
  assume ok: "logs_ok r"
  have "log_ok (ue_log e')" if "r user = Some e" "entry_follow_since cid held e = Some e'" for e e'
    using ok that follow_since_log [OF that(2)] by (auto simp: logs_ok_def dest: spec [of _ user])
  with ok CallFollow show ?thesis by (auto simp: follow_since_def intro: logs_ok_put split: option.splits)
next
  case (CallTake user cid)
  assume ok: "logs_ok r"
  have "log_ok (ue_log e)" if "r user = Some e" for e using ok that by (auto simp: logs_ok_def dest: spec [of _ user])
  with ok CallTake show ?thesis
    by (auto simp: take_marks_def case_prod_unfold Let_def intro: logs_ok_put split: option.splits)
qed (auto simp: registry_add_def version_at_def Let_def registry_mark_def mark_everyone_def end_session_def
    mark_part_def drop_registration_def entry_of_ok intro: logs_ok_put logs_ok_entry)

lemma run_calls_ok: "logs_ok r \<Longrightarrow> logs_ok (run_calls calls r)"
  by (induction calls arbitrary: r) (simp_all add: run_calls_def run_call_ok)

lemma no_registry_ok: "logs_ok (\<lambda>_. None)"
  by (simp add: logs_ok_def)

lemma tells_itself: "log_ok l \<Longrightarrow> tells (state_version_of l) [] l"
  unfolding tells_def by simp (simp add: state_version_of_def)

lemma version_tells:
  assumes "logs_ok r" "version_at user epoch r = (v, r')"
  shows "entry_tells user v [] r'"
proof -
  have "v = state_version_of (ue_log (entry_of user epoch r))" "r' user = Some (entry_of user epoch r)"
    using assms(2) by (auto simp: version_at_def Let_def)
  then show ?thesis using tells_itself [OF entry_of_ok [OF assms(1)]] by (simp add: entry_tells_def)
qed

end
