(* ===== verification/Sync_Channel.thy ===== *)
theory Sync_Channel imports Page_Sync begin

text \<open>
  A page's synchronization channel in the user's shard (\<open>backend-user-shard/src/sync/channel.rs\<close>, with
  \<open>read_part\<close> of \<open>sync/state.rs\<close> and the messages of \<open>web-api-protocol/src/state.rs\<close>): what the page
  follows, what the channel reads and sends, and how it goes on between its waits. What a part shows
  is any value (\<open>'v\<close>); the hash behind an entity tag is a parameter, \<open>etag\<close>.
\<close>

section \<open>Messages\<close>

datatype followed_value =
  FollowedState
| FollowedInstructions
| FollowedSubagents
| FollowedCredentials
| FollowedPortForwards
| FollowedPasskeys
| FollowedSessions
| FollowedUsers
| FollowedCloudIsolation

datatype follow_held = HoldsTag string | HoldsVersion state_version bool

record sync_follow =
  fw_value :: followed_value
  fw_holds :: follow_held

datatype page_message =
  PageOpen "sync_follow list"
| PageFollow sync_follow
| PageUnfollow followed_value
| PageShowing "conversation_id option" bool
| PageUsed

datatype account_role = RoleUser | RoleAdmin | RoleMaster

record user_dto =
  ud_id :: user_id
  ud_email :: string
  ud_nickname :: string
  ud_role :: account_role
  ud_created_at :: nat
  ud_disabled :: bool
  ud_chooses_password :: bool

datatype 'v sync_event =
  EvSynced state_version
| EvStale followed_value
| EvConversation conversation_id 'v
| EvConversationDeleted conversation_id
| EvConversationOrder 'v
| EvPreferences 'v
| EvInstance 'v
| EvUser user_dto
| EvWorkspaces 'v
| EvProjects 'v
| EvDevices 'v
| EvPlugins 'v
| EvPlugin string 'v
| EvProviders 'v
| EvModels 'v
| EvCloud 'v
| EvLogins 'v
| EvSubagents 'v string
| EvInstructions 'v string
| EvCredentials 'v string
| EvPortForwards 'v string
| EvPasskeys 'v string
| EvSessions 'v string
| EvUsers 'v string
| EvCloudIsolation 'v string
| EvServerUpgrade 'v
| EvUpdate 'v

section \<open>Reading a part\<close>

text \<open>What the stores and the shard hold when a part is read; a conversation the user has, or none.\<close>

record 'v shard_data =
  sd_conversation :: "conversation_id \<Rightarrow> 'v option"
  sd_order :: 'v
  sd_instance :: 'v
  sd_preferences :: 'v
  sd_account :: "user_dto option"
  sd_workspaces :: 'v
  sd_projects :: 'v
  sd_devices :: 'v
  sd_subagents :: 'v
  sd_instructions :: 'v
  sd_credentials :: 'v
  sd_port_forwards :: 'v
  sd_passkeys :: 'v
  sd_sessions :: 'v
  sd_users :: 'v
  sd_isolation :: 'v
  sd_upgrade :: "'v option"
  sd_update :: 'v
  sd_plugins :: 'v
  sd_plugin :: "string \<Rightarrow> 'v option"
  sd_providers :: 'v
  sd_models :: 'v
  sd_logins :: 'v
  sd_cloud :: 'v

fun read_part :: "('v \<Rightarrow> string) \<Rightarrow> part \<Rightarrow> account_role \<Rightarrow> 'v shard_data \<Rightarrow> 'v sync_event option" where
  "read_part etag (PartMetadata _) role d = None"
| "read_part etag (PartConversation c) role d =
     Some (case sd_conversation d c of None \<Rightarrow> EvConversationDeleted c | Some v \<Rightarrow> EvConversation c v)"
| "read_part etag PartConversationOrder role d = Some (EvConversationOrder (sd_order d))"
| "read_part etag PartInstance role d = Some (EvInstance (sd_instance d))"
| "read_part etag PartPreferences role d = Some (EvPreferences (sd_preferences d))"
| "read_part etag PartUser role d = map_option EvUser (sd_account d)"
| "read_part etag PartWorkspaces role d = Some (EvWorkspaces (sd_workspaces d))"
| "read_part etag PartProjects role d = Some (EvProjects (sd_projects d))"
| "read_part etag PartDevices role d = Some (EvDevices (sd_devices d))"
| "read_part etag PartSubagents role d = Some (EvSubagents (sd_subagents d) (etag (sd_subagents d)))"
| "read_part etag PartInstructions role d = Some (EvInstructions (sd_instructions d) (etag (sd_instructions d)))"
| "read_part etag PartCredentials role d = Some (EvCredentials (sd_credentials d) [])"
| "read_part etag PartPortForwards role d = Some (EvPortForwards (sd_port_forwards d) (etag (sd_port_forwards d)))"
| "read_part etag PartPasskeys role d = Some (EvPasskeys (sd_passkeys d) (etag (sd_passkeys d)))"
| "read_part etag PartSessions role d = Some (EvSessions (sd_sessions d) [])"
| "read_part etag PartUsers role d =
     (if role = RoleUser then None else Some (EvUsers (sd_users d) (etag (sd_users d))))"
| "read_part etag PartCloudIsolation role d =
     (if role \<noteq> RoleMaster then None else Some (EvCloudIsolation (sd_isolation d) []))"
| "read_part etag PartServerUpgrade role d =
     (if role = RoleUser then None else map_option EvServerUpgrade (sd_upgrade d))"
| "read_part etag PartUpdate role d = Some (EvUpdate (sd_update d))"
| "read_part etag PartPlugins role d = Some (EvPlugins (sd_plugins d))"
| "read_part etag (PartPlugin p) role d = map_option (EvPlugin p) (sd_plugin d p)"
| "read_part etag PartProviders role d = Some (EvProviders (sd_providers d))"
| "read_part etag PartModels role d = Some (EvModels (sd_models d))"
| "read_part etag PartLogins role d = Some (EvLogins (sd_logins d))"
| "read_part etag PartCloud role d = Some (EvCloud (sd_cloud d))"

section \<open>What a page follows\<close>

record channel_follows =
  fl_lists :: "followed_value \<Rightarrow> string option"
  fl_state :: "string option"
  fl_opened :: bool
  fl_stale :: "followed_value list"
  fl_wake :: bool

definition no_follows :: channel_follows where
  "no_follows = \<lparr>fl_lists = (\<lambda>_. None), fl_state = None, fl_opened = False, fl_stale = [], fl_wake = False\<rparr>"

fun list_of :: "part \<Rightarrow> followed_value option" where
  "list_of PartInstructions = Some FollowedInstructions"
| "list_of PartSubagents = Some FollowedSubagents"
| "list_of PartCredentials = Some FollowedCredentials"
| "list_of PartPortForwards = Some FollowedPortForwards"
| "list_of PartPasskeys = Some FollowedPasskeys"
| "list_of PartSessions = Some FollowedSessions"
| "list_of PartUsers = Some FollowedUsers"
| "list_of PartCloudIsolation = Some FollowedCloudIsolation"
| "list_of _ = None"

fun part_of :: "followed_value \<Rightarrow> part option" where
  "part_of FollowedState = None"
| "part_of FollowedInstructions = Some PartInstructions"
| "part_of FollowedSubagents = Some PartSubagents"
| "part_of FollowedCredentials = Some PartCredentials"
| "part_of FollowedPortForwards = Some PartPortForwards"
| "part_of FollowedPasskeys = Some PartPasskeys"
| "part_of FollowedSessions = Some PartSessions"
| "part_of FollowedUsers = Some PartUsers"
| "part_of FollowedCloudIsolation = Some PartCloudIsolation"

definition wants :: "channel_follows \<Rightarrow> part \<Rightarrow> bool" where
  "wants fl p = (case list_of p of Some l \<Rightarrow> fl_lists fl l \<noteq> None | None \<Rightarrow> fl_state fl \<noteq> None)"

datatype channel_end = BackendClosing | UnexpectedMessage | InternalError | PageGone

text \<open>\<open>Follows::follow\<close>, over the user's entry and the channel's number in it.\<close>

definition end_stale :: "followed_value \<Rightarrow> channel_follows \<Rightarrow> channel_follows" where
  "end_stale v fl = fl\<lparr>fl_stale := fl_stale fl @ [v], fl_wake := True\<rparr>"

fun follow_value ::
  "nat \<Rightarrow> followed_value \<Rightarrow> follow_held \<Rightarrow> user_entry \<times> channel_follows
     \<Rightarrow> channel_end + user_entry \<times> channel_follows" where
  "follow_value cid FollowedState (HoldsVersion held _) (e, fl) =
     (case entry_follow_since cid held e of
        Some e \<Rightarrow> Inr (e, fl\<lparr>fl_state := Some (pv_epoch held)\<rparr>)
      | None \<Rightarrow> Inr (e, end_stale FollowedState (fl\<lparr>fl_state := None\<rparr>)))"
| "follow_value cid FollowedState (HoldsTag _) (e, fl) = Inl UnexpectedMessage"
| "follow_value cid l (HoldsTag tag) (e, fl) =
     Inr (case part_of l of Some p \<Rightarrow> entry_mark_part cid p e | None \<Rightarrow> e, fl\<lparr>fl_lists := (fl_lists fl)(l \<mapsto> tag)\<rparr>)"
| "follow_value cid l (HoldsVersion _ _) (e, fl) = Inl UnexpectedMessage"

definition unfollow_value :: "followed_value \<Rightarrow> channel_follows \<Rightarrow> channel_follows" where
  "unfollow_value v fl =
     (if v = FollowedState then fl\<lparr>fl_state := None\<rparr> else fl\<lparr>fl_lists := (fl_lists fl)(v := None)\<rparr>)"

fun follow_all ::
  "nat \<Rightarrow> sync_follow list \<Rightarrow> user_entry \<times> channel_follows \<Rightarrow> channel_end + user_entry \<times> channel_follows" where
  "follow_all cid [] s = Inr s"
| "follow_all cid (f # fs) s =
     (case follow_value cid (fw_value f) (fw_holds f) s of Inl fin \<Rightarrow> Inl fin | Inr s \<Rightarrow> follow_all cid fs s)"

text \<open>A message of the page; what it shows and when it was used are not the channel's.\<close>

fun take_message ::
  "nat \<Rightarrow> page_message \<Rightarrow> user_entry \<times> channel_follows \<Rightarrow> channel_end + user_entry \<times> channel_follows" where
  "take_message cid (PageOpen fs) (e, fl) =
     (if fl_opened fl then Inl UnexpectedMessage else follow_all cid fs (e, fl\<lparr>fl_opened := True\<rparr>))"
| "take_message cid (PageFollow f) (e, fl) = follow_value cid (fw_value f) (fw_holds f) (e, fl)"
| "take_message cid (PageUnfollow v) (e, fl) = Inr (e, unfollow_value v fl)"
| "take_message cid (PageShowing _ _) s = Inr s"
| "take_message cid PageUsed s = Inr s"

section \<open>What is sent\<close>

text \<open>The list an event is of, with its tag, as \<open>followed\<close> tells them apart.\<close>

fun event_list :: "'v sync_event \<Rightarrow> (followed_value \<times> string) option" where
  "event_list (EvInstructions _ tag) = Some (FollowedInstructions, tag)"
| "event_list (EvSubagents _ tag) = Some (FollowedSubagents, tag)"
| "event_list (EvCredentials _ tag) = Some (FollowedCredentials, tag)"
| "event_list (EvPortForwards _ tag) = Some (FollowedPortForwards, tag)"
| "event_list (EvPasskeys _ tag) = Some (FollowedPasskeys, tag)"
| "event_list (EvSessions _ tag) = Some (FollowedSessions, tag)"
| "event_list (EvUsers _ tag) = Some (FollowedUsers, tag)"
| "event_list _ = None"

fun is_user_event :: "'v sync_event \<Rightarrow> bool" where
  "is_user_event (EvUser _) = True"
| "is_user_event _ = False"

definition followed_event ::
  "'v sync_event \<Rightarrow> bool \<Rightarrow> channel_follows \<Rightarrow> 'v sync_event option \<times> channel_follows" where
  "followed_event event choosing fl =
     (case event_list event of
        None \<Rightarrow> (if (is_user_event event \<and> choosing) \<or> fl_state fl \<noteq> None then Some event else None, fl)
      | Some (l, tag) \<Rightarrow>
          (case fl_lists fl l of
             None \<Rightarrow> (None, fl)
           | Some held \<Rightarrow>
               if tag \<noteq> [] \<and> held = tag then (None, fl)
               else (Some event, fl\<lparr>fl_lists := (fl_lists fl)(l \<mapsto> tag)\<rparr>)))"

section \<open>The channel at its waits\<close>

text \<open>
  Where \<open>serve\<close> is: about to wait, asleep until it is woken, telling the page its stale follows, about
  to take the next marks with the parts still to be read and the latest revision it saw, reading a
  part, with a part read, sending what a promoted account starts to see, ended.
\<close>

datatype 'v serve_at =
  SvWaiting
| SvAsleep
| SvStale "followed_value list"
| SvTaking "part set" "nat option"
| SvReading part "part set" "nat option"
| SvRead part "'v sync_event" "part set" "nat option"
| SvPromoting "part list" "part set" "nat option"
| SvEnded channel_end

record 'v served =
  sr_at :: "'v serve_at"
  sr_choosing :: bool
  sr_user :: user_dto
  sr_wire :: "'v sync_event list"
  sr_entry :: user_entry
  sr_follows :: channel_follows

definition later :: "nat option \<Rightarrow> nat option \<Rightarrow> nat option" where
  "later a b = (case (a, b) of (Some m, Some n) \<Rightarrow> Some (max m n) | (Some m, None) \<Rightarrow> Some m | (None, b) \<Rightarrow> b)"

definition pop_first :: "part set \<Rightarrow> (part \<times> part set) option" where
  "pop_first ps = (if ps = {} then None else Some (Min ps, ps - {Min ps}))"

definition send_event :: "'v sync_event \<Rightarrow> 'v served \<Rightarrow> 'v served" where
  "send_event event s = s\<lparr>sr_wire := sr_wire s @ [event]\<rparr>"

text \<open>The channel wakes: by its marks, or by a stale follow to tell.\<close>

definition serve_check :: "nat \<Rightarrow> 'v served \<Rightarrow> 'v served" where
  "serve_check cid s =
     (case entry_channel cid (sr_entry s) of
        Some c \<Rightarrow> if marks_empty (cn_marked c) then s\<lparr>sr_at := SvAsleep\<rparr> else s\<lparr>sr_at := SvTaking {} None\<rparr>
      | None \<Rightarrow> s)"

definition serve_woken :: "nat \<Rightarrow> 'v served \<Rightarrow> 'v served" where
  "serve_woken cid s =
     s\<lparr>sr_at := SvWaiting, sr_entry := on_channel cid (\<lambda>c. c\<lparr>cn_permit := False\<rparr>) (sr_entry s)\<rparr>"

definition serve_stale :: "'v served \<Rightarrow> 'v served" where
  "serve_stale s =
     s\<lparr>sr_at := SvStale (fl_stale (sr_follows s)), sr_follows := (sr_follows s)\<lparr>fl_stale := [], fl_wake := False\<rparr>\<rparr>"

definition serve_tell :: "'v served \<Rightarrow> 'v served" where
  "serve_tell s =
     (case sr_at s of
        SvStale [] \<Rightarrow> s\<lparr>sr_at := SvWaiting\<rparr>
      | SvStale (v # vs) \<Rightarrow> (send_event (EvStale v) s)\<lparr>sr_at := SvStale vs\<rparr>
      | _ \<Rightarrow> s)"

text \<open>The head of the loop: the marks join what is to be read, and the first part goes, or the pass ends.\<close>

definition serve_take :: "nat \<Rightarrow> 'v served \<Rightarrow> 'v served" where
  "serve_take cid s =
     (case sr_at s of
        SvTaking pending current \<Rightarrow>
          (case entry_take cid (sr_entry s) of
             (m, e) \<Rightarrow>
               let s = s\<lparr>sr_entry := e\<rparr>; current = later current (mk_revision m)
               in case pop_first (pending \<union> mk_parts m) of
                    Some (p, pending) \<Rightarrow>
                      if (if sr_choosing s then p \<noteq> PartUser else \<not> wants (sr_follows s) p)
                      then s\<lparr>sr_at := SvTaking pending current\<rparr>
                      else s\<lparr>sr_at := SvReading p pending current\<rparr>
                  | None \<Rightarrow>
                      (case (current, fl_state (sr_follows s)) of
                         (Some revision, Some epoch) \<Rightarrow>
                           (send_event (EvSynced \<lparr>pv_epoch = epoch, pv_revision = revision\<rparr>) s)\<lparr>sr_at := SvWaiting\<rparr>
                       | _ \<Rightarrow> s\<lparr>sr_at := SvWaiting\<rparr>))
      | _ \<Rightarrow> s)"

definition serve_read :: "('v \<Rightarrow> string) \<Rightarrow> 'v shard_data \<Rightarrow> 'v served \<Rightarrow> 'v served" where
  "serve_read etag d s =
     (case sr_at s of
        SvReading p pending current \<Rightarrow>
          (case read_part etag p (ud_role (sr_user s)) d of
             None \<Rightarrow> s\<lparr>sr_at := SvTaking pending current\<rparr>
           | Some event \<Rightarrow> s\<lparr>sr_at := SvRead p event pending current\<rparr>)
      | _ \<Rightarrow> s)"

text \<open>
  \<open>send_read\<close>: a list is sent only when what the page holds of it differs, and an account made an
  admin is sent what it starts to see; the answer says whether that follows.
\<close>

definition send_read :: "'v sync_event \<Rightarrow> bool \<Rightarrow> 'v served \<Rightarrow> 'v served \<times> bool" where
  "send_read event choosing s =
     (case followed_event event choosing (sr_follows s) of
        (None, fl) \<Rightarrow> (s\<lparr>sr_follows := fl\<rparr>, False)
      | (Some event, fl) \<Rightarrow>
          let s = s\<lparr>sr_follows := fl\<rparr>
          in case event of
               EvUser user \<Rightarrow>
                 (send_event event (s\<lparr>sr_user := user\<rparr>), ud_role (sr_user s) = RoleUser \<and> ud_role user \<noteq> RoleUser)
             | _ \<Rightarrow> (send_event event s, False))"

definition serve_send :: "nat \<Rightarrow> 'v served \<Rightarrow> 'v served" where
  "serve_send cid s =
     (case sr_at s of
        SvRead p event pending current \<Rightarrow>
          (case entry_take cid (sr_entry s) of
             (m, e) \<Rightarrow>
               let s = s\<lparr>sr_entry := e\<rparr>; pending = pending \<union> mk_parts m; current = later current (mk_revision m)
               in if pending \<noteq> {} \<and> Min pending < p then s\<lparr>sr_at := SvTaking (insert p pending) current\<rparr>
                  else case send_read event (sr_choosing s) s of
                    (s, promoted) \<Rightarrow>
                      s\<lparr>sr_at := (if promoted then SvPromoting [PartUsers, PartServerUpgrade] pending current
                                  else SvTaking pending current),
                        sr_choosing := (sr_choosing s \<and> ud_chooses_password (sr_user s))\<rparr>)
      | _ \<Rightarrow> s)"

definition serve_promoted :: "('v \<Rightarrow> string) \<Rightarrow> 'v shard_data \<Rightarrow> 'v served \<Rightarrow> 'v served" where
  "serve_promoted etag d s =
     (case sr_at s of
        SvPromoting [] pending current \<Rightarrow> s\<lparr>sr_at := SvTaking pending current\<rparr>
      | SvPromoting (p # ps) pending current \<Rightarrow>
          (case read_part etag p (ud_role (sr_user s)) d of
             None \<Rightarrow> s\<lparr>sr_at := SvPromoting ps pending current\<rparr>
           | Some event \<Rightarrow> (fst (send_read event False s))\<lparr>sr_at := SvPromoting ps pending current\<rparr>)
      | _ \<Rightarrow> s)"

text \<open>A channel begins and ends (\<open>serve_sync_channel\<close>).\<close>

definition serve_begin :: "nat \<Rightarrow> user_dto \<Rightarrow> user_entry \<Rightarrow> 'v served" where
  "serve_begin cid user e =
     \<lparr>sr_at = SvWaiting, sr_choosing = ud_chooses_password user, sr_user = user,
      sr_wire = (if ud_chooses_password user then [EvUser user] else []),
      sr_entry = entry_add cid None FollowsEvery e, sr_follows = no_follows\<rparr>"

definition serve_end :: "nat \<Rightarrow> channel_end \<Rightarrow> 'v served \<Rightarrow> 'v served" where
  "serve_end cid fin s = s\<lparr>sr_at := SvEnded fin, sr_entry := entry_drop cid (sr_entry s)\<rparr>"

definition serve_message :: "nat \<Rightarrow> page_message \<Rightarrow> 'v served \<Rightarrow> 'v served" where
  "serve_message cid msg s =
     (case take_message cid msg (sr_entry s, sr_follows s) of
        Inl fin \<Rightarrow> serve_end cid fin s
      | Inr (e, fl) \<Rightarrow> s\<lparr>sr_entry := e, sr_follows := fl\<rparr>)"

end
