(* ===== verification/Sync_Steps.thy ===== *)
theory Sync_Steps imports Sync_Channel begin

text \<open>
  A page, its synchronization channel and what changes under them, as a step relation: changes are
  committed and then marked, from anywhere and at any time; the channel goes on between its waits;
  the page reads the state and lists by their routes, follows them, and receives what was sent;
  connections are lost with what was on its way, and opened again.
\<close>

section \<open>The page\<close>

text \<open>
  What a page holds of each part, the version it holds the state at, and which parts of the state it
  read since it asked for that version.
\<close>

record 'v page =
  pg_parts :: "part \<Rightarrow> 'v sync_event option"
  pg_base :: "state_version option"
  pg_got :: "part set"

fun event_part :: "'v sync_event \<Rightarrow> part option" where
  "event_part (EvSynced _) = None"
| "event_part (EvStale _) = None"
| "event_part (EvConversation c _) = Some (PartConversation c)"
| "event_part (EvConversationDeleted c) = Some (PartConversation c)"
| "event_part (EvConversationOrder _) = Some PartConversationOrder"
| "event_part (EvPreferences _) = Some PartPreferences"
| "event_part (EvInstance _) = Some PartInstance"
| "event_part (EvUser _) = Some PartUser"
| "event_part (EvWorkspaces _) = Some PartWorkspaces"
| "event_part (EvProjects _) = Some PartProjects"
| "event_part (EvDevices _) = Some PartDevices"
| "event_part (EvPlugins _) = Some PartPlugins"
| "event_part (EvPlugin p _) = Some (PartPlugin p)"
| "event_part (EvProviders _) = Some PartProviders"
| "event_part (EvModels _) = Some PartModels"
| "event_part (EvCloud _) = Some PartCloud"
| "event_part (EvLogins _) = Some PartLogins"
| "event_part (EvSubagents _ _) = Some PartSubagents"
| "event_part (EvInstructions _ _) = Some PartInstructions"
| "event_part (EvCredentials _ _) = Some PartCredentials"
| "event_part (EvPortForwards _ _) = Some PartPortForwards"
| "event_part (EvPasskeys _ _) = Some PartPasskeys"
| "event_part (EvSessions _ _) = Some PartSessions"
| "event_part (EvUsers _ _) = Some PartUsers"
| "event_part (EvCloudIsolation _ _) = Some PartCloudIsolation"
| "event_part (EvServerUpgrade _) = Some PartServerUpgrade"
| "event_part (EvUpdate _) = Some PartUpdate"

definition page_receive :: "'v sync_event \<Rightarrow> 'v page \<Rightarrow> 'v page" where
  "page_receive event pg =
     (case event of
        EvSynced v \<Rightarrow> pg\<lparr>pg_base := Some v\<rparr>
      | _ \<Rightarrow> (case event_part event of Some p \<Rightarrow> pg\<lparr>pg_parts := (pg_parts pg)(p \<mapsto> event)\<rparr> | None \<Rightarrow> pg))"

definition no_page :: "'v page" where
  "no_page = \<lparr>pg_parts = (\<lambda>_. None), pg_base = None, pg_got = {}\<rparr>"

text \<open>The parts of the state whose reading is the same for every account, and those of the lists too.\<close>

definition role_free :: "part \<Rightarrow> bool" where
  "role_free p = (p \<noteq> PartUsers \<and> p \<noteq> PartCloudIsolation \<and> p \<noteq> PartServerUpgrade \<and> \<not> is_metadata p)"

definition state_part :: "part \<Rightarrow> bool" where
  "state_part p = (role_free p \<and> list_of p = None)"

definition state_event :: "'v sync_event \<Rightarrow> bool" where
  "state_event e =
     ((\<exists>v. e = EvSynced v) \<or> (case event_part e of Some p \<Rightarrow> list_of p = None | None \<Rightarrow> False))"

text \<open>A list is the same when its tag is.\<close>

definition same_event :: "'v sync_event \<Rightarrow> 'v sync_event \<Rightarrow> bool" where
  "same_event e e' = (e = e' \<or> (\<exists>l t. event_list e = Some (l, t) \<and> event_list e' = Some (l, t) \<and> t \<noteq> []))"

definition part_now :: "('v \<Rightarrow> string) \<Rightarrow> 'v shard_data \<Rightarrow> part \<Rightarrow> 'v sync_event option" where
  "part_now etag d p = read_part etag p RoleUser d"

text \<open>What the page holds of a part is what the part shows now.\<close>

definition right :: "('v \<Rightarrow> string) \<Rightarrow> 'v shard_data \<Rightarrow> 'v page \<Rightarrow> part \<Rightarrow> bool" where
  "right etag d pg p =
     (case part_now etag d p of
        None \<Rightarrow> True
      | Some e' \<Rightarrow> (case pg_parts pg p of Some e \<Rightarrow> same_event e e' | None \<Rightarrow> False))"

section \<open>The steps\<close>

record 'v sync_world =
  sw_served :: "'v served"
  sw_channel :: nat
  sw_data :: "'v shard_data"
  sw_unmarked :: "part set"
  sw_page :: "'v page"

fun at_end :: "'v serve_at \<Rightarrow> bool" where
  "at_end (SvEnded _) = True"
| "at_end _ = False"

abbreviation sw_entry :: "'v sync_world \<Rightarrow> user_entry" where
  "sw_entry w \<equiv> sr_entry (sw_served w)"

abbreviation sw_fl :: "'v sync_world \<Rightarrow> channel_follows" where
  "sw_fl w \<equiv> sr_follows (sw_served w)"

abbreviation sw_wire :: "'v sync_world \<Rightarrow> 'v sync_event list" where
  "sw_wire w \<equiv> sr_wire (sw_served w)"

abbreviation sw_at :: "'v sync_world \<Rightarrow> 'v serve_at" where
  "sw_at w \<equiv> sr_at (sw_served w)"

text \<open>No event of a part is on its way; none of the state is.\<close>

definition quiet_part :: "part \<Rightarrow> 'v sync_world \<Rightarrow> bool" where
  "quiet_part p w = (\<forall>e\<in>set (sw_wire w). event_part e \<noteq> Some p)"

definition quiet_state :: "'v sync_world \<Rightarrow> bool" where
  "quiet_state w = (\<forall>e\<in>set (sw_wire w). \<not> state_event e)"

text \<open>
  What a page says it holds: the state whole, at no later version than it was told, or a version of
  another log; a list at the tag of what it holds, or at none.
\<close>

fun truthful :: "'v sync_world \<Rightarrow> followed_value \<Rightarrow> follow_held \<Rightarrow> bool" where
  "truthful w FollowedState (HoldsVersion v _) =
     (pv_epoch v \<noteq> sl_epoch (ue_log (sw_entry w))
      \<or> (quiet_state w \<and> {p. state_part p} \<subseteq> pg_got (sw_page w)
         \<and> (case pg_base (sw_page w) of
              Some b \<Rightarrow> pv_epoch v = pv_epoch b \<and> pv_revision v \<le> pv_revision b | None \<Rightarrow> False)))"
| "truthful w l (HoldsTag tag) =
     (tag = []
      \<or> (case part_of l of
           None \<Rightarrow> True
         | Some p \<Rightarrow> quiet_part p w
             \<and> (case pg_parts (sw_page w) p of Some e \<Rightarrow> event_list e = Some (l, tag) | None \<Rightarrow> False)))"
| "truthful w _ (HoldsVersion _ _) = True"

definition truthful_follow :: "'v sync_world \<Rightarrow> sync_follow \<Rightarrow> bool" where
  "truthful_follow w f = (\<not> sr_choosing (sw_served w) \<and> truthful w (fw_value f) (fw_holds f))"

fun truthful_message :: "'v sync_world \<Rightarrow> page_message \<Rightarrow> bool" where
  "truthful_message w (PageOpen fs) = (\<forall>f\<in>set fs. truthful_follow w f)"
| "truthful_message w (PageFollow f) = truthful_follow w f"
| "truthful_message w _ = True"

text \<open>The channel's next step, when it is not asleep.\<close>

definition serve_next :: "('v \<Rightarrow> string) \<Rightarrow> 'v sync_world \<Rightarrow> 'v served \<Rightarrow> 'v served" where
  "serve_next etag w s =
     (case sr_at s of
        SvWaiting \<Rightarrow> serve_check (sw_channel w) s
      | SvAsleep \<Rightarrow> s
      | SvStale _ \<Rightarrow> serve_tell s
      | SvTaking _ _ \<Rightarrow> serve_take (sw_channel w) s
      | SvReading _ _ _ \<Rightarrow> serve_read etag (sw_data w) s
      | SvRead _ _ _ _ \<Rightarrow> serve_send (sw_channel w) s
      | SvPromoting _ _ _ \<Rightarrow> serve_promoted etag (sw_data w) s
      | SvEnded _ \<Rightarrow> s)"

text \<open>A page may ask for the state: nothing of it is followed, read or on its way.\<close>

fun reading :: "'v serve_at \<Rightarrow> bool" where
  "reading (SvReading _ _ _) = True"
| "reading (SvRead _ _ _ _) = True"
| "reading _ = False"

definition may_ask :: "'v sync_world \<Rightarrow> bool" where
  "may_ask w =
     (quiet_state w
      \<and> (at_end (sw_at w) \<or> (\<not> sr_choosing (sw_served w) \<and> fl_state (sw_fl w) = None \<and> \<not> reading (sw_at w))))"

inductive sync_step :: "('v \<Rightarrow> string) \<Rightarrow> 'v sync_world \<Rightarrow> 'v sync_world \<Rightarrow> bool" for etag where
  Committed: "(\<And>q role. q \<notin> set (marked_parts p) \<Longrightarrow> read_part etag q role d = read_part etag q role (sw_data w))
    \<Longrightarrow> sync_step etag w (w\<lparr>sw_data := d, sw_unmarked := insert p (sw_unmarked w)\<rparr>)"
| Marked: "sync_step etag w (w\<lparr>sw_served := (sw_served w)\<lparr>sr_entry := mark_entry p (sw_entry w)\<rparr>,
      sw_unmarked := sw_unmarked w - {p}\<rparr>)"
| Others: "ue_log e = ue_log (sw_entry w) \<Longrightarrow> entry_channel (sw_channel w) e = entry_channel (sw_channel w) (sw_entry w)
    \<Longrightarrow> sync_step etag w (w\<lparr>sw_served := (sw_served w)\<lparr>sr_entry := e\<rparr>\<rparr>)"
| Serves: "sync_step etag w (w\<lparr>sw_served := serve_next etag w (sw_served w)\<rparr>)"
| Wakes: "sw_at w = SvAsleep \<Longrightarrow> entry_channel (sw_channel w) (sw_entry w) = Some c \<Longrightarrow> cn_permit c
    \<Longrightarrow> sync_step etag w (w\<lparr>sw_served := serve_woken (sw_channel w) (sw_served w)\<rparr>)"
| Told: "sw_at w = SvAsleep \<or> sw_at w = SvWaiting \<Longrightarrow> fl_wake (sw_fl w)
    \<Longrightarrow> sync_step etag w (w\<lparr>sw_served := serve_stale (sw_served w)\<rparr>)"
| Says: "\<not> at_end (sw_at w) \<Longrightarrow> truthful_message w msg
    \<Longrightarrow> sync_step etag w (w\<lparr>sw_served := serve_message (sw_channel w) msg (sw_served w)\<rparr>)"
| Receives: "sw_wire w = event # rest
    \<Longrightarrow> sync_step etag w (w\<lparr>sw_served := (sw_served w)\<lparr>sr_wire := rest\<rparr>, sw_page := page_receive event (sw_page w)\<rparr>)"
| Lost: "\<not> at_end (sw_at w)
    \<Longrightarrow> sync_step etag w (w\<lparr>sw_served := (serve_end (sw_channel w) fin (sw_served w))\<lparr>sr_wire := []\<rparr>\<rparr>)"
| Connects: "at_end (sw_at w) \<Longrightarrow> entry_channel cid (sw_entry w) = None
    \<Longrightarrow> (ud_chooses_password user \<Longrightarrow> pg_base (sw_page w) = None)
    \<Longrightarrow> sync_step etag w (w\<lparr>sw_served := serve_begin cid user (sw_entry w), sw_channel := cid\<rparr>)"
| Forgotten: "at_end (sw_at w) \<Longrightarrow> sw_wire w = [] \<Longrightarrow> ue_channels (sw_entry w) = []
    \<Longrightarrow> (\<And>b. pg_base (sw_page w) = Some b \<Longrightarrow> pv_epoch b \<noteq> epoch)
    \<Longrightarrow> sync_step etag w (w\<lparr>sw_served := (sw_served w)\<lparr>sr_entry := entry_new epoch\<rparr>\<rparr>)"
| Asks: "may_ask w
    \<Longrightarrow> sync_step etag w (w\<lparr>sw_page := (sw_page w)\<lparr>pg_base := Some (state_version_of (ue_log (sw_entry w))), pg_got := {}\<rparr>\<rparr>)"
| Reads: "may_ask w \<Longrightarrow> state_part p
    \<Longrightarrow> sync_step etag w (w\<lparr>sw_page := (sw_page w)\<lparr>pg_parts := (pg_parts (sw_page w))(p := part_now etag (sw_data w) p),
      pg_got := insert p (pg_got (sw_page w))\<rparr>\<rparr>)"
| Reads_list: "list_of p = Some l \<Longrightarrow> quiet_part p w \<Longrightarrow> at_end (sw_at w) \<or> fl_lists (sw_fl w) l = None
    \<Longrightarrow> sync_step etag w (w\<lparr>sw_page := (sw_page w)\<lparr>pg_parts := (pg_parts (sw_page w))(p := part_now etag (sw_data w) p)\<rparr>\<rparr>)"

definition sync_start :: "string \<Rightarrow> user_dto \<Rightarrow> 'v shard_data \<Rightarrow> 'v sync_world" where
  "sync_start epoch user d =
     \<lparr>sw_served = \<lparr>sr_at = SvEnded PageGone, sr_choosing = False, sr_user = user, sr_wire = [],
        sr_entry = entry_new epoch, sr_follows = no_follows\<rparr>,
      sw_channel = 0, sw_data = d, sw_unmarked = {}, sw_page = no_page\<rparr>"

inductive sync_reaches :: "('v \<Rightarrow> string) \<Rightarrow> 'v sync_world \<Rightarrow> 'v sync_world \<Rightarrow> bool" for etag w where
  Here: "sync_reaches etag w w"
| Further: "sync_reaches etag w w' \<Longrightarrow> sync_step etag w' w'' \<Longrightarrow> sync_reaches etag w w''"

end
