(* ===== verification/Sync_Facts.thy ===== *)
theory Sync_Facts imports Sync_Steps begin

text \<open>
  What a page and its channel keep: a part the page does not hold as it is now changed after the
  version the page holds, and while it is followed it waits in the channel's marks or is being read.
\<close>

section \<open>Events and parts\<close>

lemma event_list_part: "event_list e = Some (l, t) \<Longrightarrow> \<exists>p. event_part e = Some p \<and> list_of p = Some l \<and> part_of l = Some p"
  by (cases e) auto

lemma read_event_part: "read_part etag p role d = Some e \<Longrightarrow> event_part e = Some p"
  by (cases p) (auto split: if_splits option.splits)

lemma read_role_free: "role_free p \<Longrightarrow> read_part etag p role d = part_now etag d p"
  by (cases p) (auto simp: role_free_def part_now_def)

lemma part_of_list_of: "part_of l = Some p \<Longrightarrow> list_of p = Some l"
  by (cases l) auto

lemma list_of_part_of: "list_of p = Some l \<Longrightarrow> part_of l = Some p"
  by (cases p) auto

lemma list_event: "event_part e = Some p \<Longrightarrow> role_free p \<Longrightarrow> list_of p = Some l \<Longrightarrow> \<exists>t. event_list e = Some (l, t)"
  by (cases e) (auto simp: role_free_def)

lemma state_event_list: "event_part e = Some p \<Longrightarrow> list_of p = None \<Longrightarrow> event_list e = None"
  using event_list_part by (cases "event_list e") fastforce+

lemma list_event_quiet: "event_list e = Some (l, t) \<Longrightarrow> \<not> state_event e"
  using event_list_part [of e l t] by (auto simp: state_event_def)

lemma receive_part:
  "event_part e = Some p \<Longrightarrow> page_receive e pg = pg\<lparr>pg_parts := (pg_parts pg)(p \<mapsto> e)\<rparr>"
  by (cases e) (auto simp: page_receive_def)

lemma receive_other: "event_part e = None \<Longrightarrow> pg_parts (page_receive e pg) = pg_parts pg"
  by (cases e) (auto simp: page_receive_def)

lemma receive_parts [simp]:
  "pg_parts (page_receive e pg) = (case event_part e of Some p \<Rightarrow> (pg_parts pg)(p \<mapsto> e) | None \<Rightarrow> pg_parts pg)"
  by (cases "event_part e") (simp_all add: receive_part receive_other)

lemma receive_base [simp]:
  "pg_base (page_receive e pg) = (case e of EvSynced v \<Rightarrow> Some v | _ \<Rightarrow> pg_base pg)"
  by (cases e) (auto simp: page_receive_def)

lemma receive_got [simp]: "pg_got (page_receive e pg) = pg_got pg"
  by (cases e) (auto simp: page_receive_def)

section \<open>Channels of an entry\<close>

lemma find_map_same: "(\<And>c. P (f c) = P c) \<Longrightarrow> find P (map f cs) = map_option f (find P cs)"
  by (induction cs) simp_all

lemma channel_on [simp]:
  assumes "\<And>c. cn_id (f c) = cn_id c"
  shows "entry_channel cid (on_channel cid f e) = map_option f (entry_channel cid e)"
proof -
  have "find (\<lambda>c. cn_id c = cid) (map (\<lambda>c. if cn_id c = cid then f c else c) cs) = map_option f (find (\<lambda>c. cn_id c = cid) cs)" for cs
    using assms by (induction cs) auto
  then show ?thesis by (simp add: entry_channel_def on_channel_def)
qed

lemma channel_marked [simp]:
  "entry_channel cid (mark_entry p e) =
     map_option (channel_mark (marked_parts p) (sl_revision (ue_log (mark_entry p e)))) (entry_channel cid e)"
  unfolding entry_channel_def mark_entry_def Let_def
  by (simp add: find_map_same channel_mark_def Let_def)

lemma find_none_snoc: "find P xs = None \<Longrightarrow> find P (xs @ [x]) = (if P x then Some x else None)"
  by (induction xs) (auto split: if_splits)

lemma channel_added [simp]:
  "entry_channel cid e = None \<Longrightarrow> entry_channel cid (entry_add cid session fs e)
     = Some \<lparr>cn_id = cid, cn_session = session, cn_follows = fs, cn_marked = no_marks, cn_permit = False\<rparr>"
  by (simp add: entry_channel_def entry_add_def find_none_snoc)

lemma channel_taken:
  "entry_take cid e = (m, e') \<Longrightarrow> entry_channel cid e = Some c
    \<Longrightarrow> m = cn_marked c \<and> entry_channel cid e' = Some (c\<lparr>cn_marked := no_marks\<rparr>) \<and> ue_log e' = ue_log e"
  by (auto simp: entry_take_def)

lemma no_marks_fields [simp]:
  "mk_parts no_marks = {}" "mk_revision no_marks = None" "marks_empty no_marks"
  by (simp_all add: no_marks_def marks_empty_def)

lemma every_follows: "follows_part FollowsEvery p = (\<not> is_metadata p)"
  by (cases p) simp_all

lemma marked_every:
  assumes "cn_follows c = FollowsEvery"
  shows "mk_parts (cn_marked (channel_mark ps r c)) = mk_parts (cn_marked c) \<union> {p \<in> set ps. \<not> is_metadata p}"
    "cn_follows (channel_mark ps r c) = FollowsEvery"
    "marks_empty (cn_marked c) \<or> cn_permit c \<Longrightarrow> marks_empty (cn_marked (channel_mark ps r c)) \<or> cn_permit (channel_mark ps r c)"
    "\<forall>n. mk_revision (cn_marked c) = Some n \<longrightarrow> n \<le> r \<Longrightarrow> mk_revision (cn_marked (channel_mark ps r c)) = Some n \<Longrightarrow> n \<le> r"
  using assms by (auto simp: channel_mark_def Let_def every_follows filter_empty_conv split: if_splits)

section \<open>Behind a version\<close>

definition behind :: "state_version \<Rightarrow> state_log \<Rightarrow> part \<Rightarrow> bool" where
  "behind b l p = (case state_since b l of None \<Rightarrow> True | Some ps \<Rightarrow> p \<in> ps)"

definition reached :: "state_version \<Rightarrow> state_log \<Rightarrow> bool" where
  "reached b l = (pv_epoch b = sl_epoch l \<longrightarrow> pv_revision b \<le> sl_revision l)"

lemma behind_record:
  assumes "log_ok l" "reached b l" "behind b l p \<or> p \<in> set ps"
  shows "behind b (state_record ps l) p"
proof (cases "pv_epoch b = sl_epoch l")
  case True
  with assms since_record [of l b ps] show ?thesis by (auto simp: behind_def reached_def split: option.splits)
qed (simp add: behind_def since_other_epoch)

lemma reached_record: "reached b l \<Longrightarrow> reached b (state_record ps l)"
  by (auto simp: reached_def)

lemma behind_earlier:
  assumes "pv_epoch v = pv_epoch b" "pv_revision v \<le> pv_revision b" "state_since v l = Some ps" "behind b l p" "reached b l"
  shows "p \<in> ps"
proof -
  from assms(1,3,5) have e: "pv_epoch v = sl_epoch l" "pv_epoch b = sl_epoch l" and r: "pv_revision b \<le> sl_revision l"
    and n: "sl_revision l - pv_revision v \<le> length (sl_recent l)"
    and ps: "ps = set (concat (drop (length (sl_recent l) - (sl_revision l - pv_revision v)) (sl_recent l)))"
    by (auto simp: state_since_def reached_def Let_def split: if_splits)
  let ?v = "length (sl_recent l) - (sl_revision l - pv_revision v)"
  let ?b = "length (sl_recent l) - (sl_revision l - pv_revision b)"
  have "state_since b l = Some (set (concat (drop ?b (sl_recent l))))"
    using e r n assms(2) by (auto simp: state_since_def Let_def)
  with assms(4) have "p \<in> set (concat (drop ?b (sl_recent l)))" by (simp add: behind_def)
  moreover have "set (drop ?b (sl_recent l)) \<subseteq> set (drop ?v (sl_recent l))"
    using assms(2) r by (intro set_drop_subset_set_drop) simp
  ultimately show ?thesis unfolding ps by auto
qed

section \<open>The pages there may be\<close>

text \<open>The page now, and after each of the messages on their way.\<close>

fun pages :: "'v sync_event list \<Rightarrow> 'v page \<Rightarrow> 'v page list" where
  "pages [] pg = [pg]"
| "pages (e # es) pg = pg # pages es (page_receive e pg)"

lemma pages_snoc: "pages (es @ [e]) pg = pages es pg @ [page_receive e (fold page_receive es pg)]"
  by (induction es arbitrary: pg) simp_all

lemma last_page: "fold page_receive es pg \<in> set (pages es pg)"
  by (induction es arbitrary: pg) simp_all

lemma first_page: "pg \<in> set (pages es pg)"
  by (cases es) simp_all

lemma pages_got: "pg' \<in> set (pages es pg) \<Longrightarrow> pg_got pg' = pg_got pg"
  by (induction es arbitrary: pg) auto

lemma pages_quiet_part:
  "pg' \<in> set (pages es pg) \<Longrightarrow> \<forall>e\<in>set es. event_part e \<noteq> Some p \<Longrightarrow> pg_parts pg' p = pg_parts pg p"
  by (induction es arbitrary: pg) (auto split: option.splits)

lemma pages_quiet_state:
  "pg' \<in> set (pages es pg) \<Longrightarrow> \<forall>e\<in>set es. \<not> state_event e
    \<Longrightarrow> pg_base pg' = pg_base pg \<and> (list_of p = None \<longrightarrow> pg_parts pg' p = pg_parts pg p)"
  by (induction es arbitrary: pg) (auto simp: state_event_def split: option.splits sync_event.splits)

end
