(* ===== verification/Sync_Invariant.thy ===== *)
theory Sync_Invariant imports Sync_Facts begin

text \<open>
  The invariant of a page, its channel and what changes under them, and that every step keeps it.
\<close>

section \<open>The invariant\<close>

definition sw_log :: "'v sync_world \<Rightarrow> state_log" where
  "sw_log w = ue_log (sw_entry w)"

definition committed :: "'v sync_world \<Rightarrow> part set" where
  "committed w = (\<Union>p\<in>sw_unmarked w. set (marked_parts p))"

definition waiting :: "'v sync_world \<Rightarrow> part set" where
  "waiting w = (case entry_channel (sw_channel w) (sw_entry w) of Some c \<Rightarrow> mk_parts (cn_marked c) | None \<Rightarrow> {})"

fun in_hand :: "'v serve_at \<Rightarrow> part set" where
  "in_hand (SvTaking q _) = q"
| "in_hand (SvReading p q _) = insert p q"
| "in_hand (SvRead p _ q _) = insert p q"
| "in_hand (SvPromoting _ q _) = q"
| "in_hand _ = {}"

fun at_current :: "'v serve_at \<Rightarrow> nat option" where
  "at_current (SvTaking _ n) = n"
| "at_current (SvReading _ _ n) = n"
| "at_current (SvRead _ _ _ n) = n"
| "at_current (SvPromoting _ _ n) = n"
| "at_current _ = None"

definition sent_page :: "'v sync_world \<Rightarrow> 'v page" where
  "sent_page w = fold page_receive (sw_wire w) (sw_page w)"

text \<open>What a page does not hold as it is now changed after the version it holds, or is not marked yet.\<close>

definition part_safe :: "('v \<Rightarrow> string) \<Rightarrow> 'v sync_world \<Rightarrow> 'v page \<Rightarrow> part \<Rightarrow> state_version \<Rightarrow> bool" where
  "part_safe etag w pg p b = (right etag (sw_data w) pg p \<or> p \<in> committed w \<or> behind b (sw_log w) p)"

definition page_safe :: "('v \<Rightarrow> string) \<Rightarrow> 'v sync_world \<Rightarrow> 'v page \<Rightarrow> bool" where
  "page_safe etag w pg =
     (\<forall>b. pg_base pg = Some b \<longrightarrow> reached b (sw_log w) \<and> (\<forall>p\<in>pg_got pg. state_part p \<longrightarrow> part_safe etag w pg p b))"

definition pages_safe :: "('v \<Rightarrow> string) \<Rightarrow> 'v sync_world \<Rightarrow> bool" where
  "pages_safe etag w = (\<forall>pg\<in>set (pages (sw_wire w) (sw_page w)). page_safe etag w pg)"

text \<open>What a followed part lacks is on its way to being read.\<close>

definition debts :: "('v \<Rightarrow> string) \<Rightarrow> 'v sync_world \<Rightarrow> bool" where
  "debts etag w =
     (\<forall>p. role_free p \<and> wants (sw_fl w) p
        \<longrightarrow> right etag (sw_data w) (sent_page w) p \<or> p \<in> committed w \<union> waiting w \<union> in_hand (sw_at w))"

definition hand_ok :: "('v \<Rightarrow> string) \<Rightarrow> 'v sync_world \<Rightarrow> bool" where
  "hand_ok etag w =
     (case sw_at w of
        SvRead p e q _ \<Rightarrow>
          event_part e = Some p
          \<and> (role_free p \<longrightarrow> part_now etag (sw_data w) p = Some e \<or> p \<in> committed w \<union> waiting w \<union> q)
          \<and> (state_part p \<longrightarrow> (\<forall>b. pg_base (sent_page w) = Some b
               \<longrightarrow> part_now etag (sw_data w) p = Some e \<or> p \<in> committed w \<or> behind b (sw_log w) p))
      | SvPromoting ps _ _ \<Rightarrow> set ps \<subseteq> {PartUsers, PartServerUpgrade}
      | _ \<Rightarrow> True)"

definition tags_ok :: "'v sync_world \<Rightarrow> bool" where
  "tags_ok w =
     (\<forall>l t. fl_lists (sw_fl w) l = Some t \<and> t \<noteq> []
        \<longrightarrow> (\<exists>p e. part_of l = Some p \<and> pg_parts (sent_page w) p = Some e \<and> event_list e = Some (l, t)))"

definition awake :: "'v sync_world \<Rightarrow> channel \<Rightarrow> bool" where
  "awake w c =
     (entry_channel (sw_channel w) (sw_entry w) = Some c \<and> cn_follows c = FollowsEvery
      \<and> (sw_at w = SvAsleep \<longrightarrow> marks_empty (cn_marked c) \<or> cn_permit c)
      \<and> (\<forall>r. mk_revision (cn_marked c) = Some r \<longrightarrow> r \<le> sl_revision (sw_log w)))"

definition alive :: "'v sync_world \<Rightarrow> bool" where
  "alive w =
     ((\<exists>c. awake w c)
      \<and> (\<forall>r. at_current (sw_at w) = Some r \<longrightarrow> r \<le> sl_revision (sw_log w))
      \<and> (\<forall>p. wants (sw_fl w) p \<longrightarrow> \<not> sr_choosing (sw_served w)))"

definition sync_ok :: "('v \<Rightarrow> string) \<Rightarrow> 'v sync_world \<Rightarrow> bool" where
  "sync_ok etag w =
     (log_ok (sw_log w) \<and> pages_safe etag w
      \<and> (\<not> at_end (sw_at w) \<longrightarrow> debts etag w \<and> hand_ok etag w \<and> tags_ok w \<and> alive w))"

lemmas sync_parts = sw_log_def committed_def waiting_def sent_page_def
lemmas served_parts = debts_def hand_ok_def tags_ok_def alive_def awake_def

section \<open>Changes\<close>

lemma committed_insert [simp]: "committed (w\<lparr>sw_data := d, sw_unmarked := insert p (sw_unmarked w)\<rparr>) = set (marked_parts p) \<union> committed w"
  by (simp add: committed_def)

lemma right_now: "part_now etag d p = part_now etag d' p \<Longrightarrow> right etag d pg p = right etag d' pg p"
  by (simp add: right_def)

lemma committed_ok:
  assumes "sync_ok etag w" "\<And>q role. q \<notin> set (marked_parts p) \<Longrightarrow> read_part etag q role d = read_part etag q role (sw_data w)"
  shows "sync_ok etag (w\<lparr>sw_data := d, sw_unmarked := insert p (sw_unmarked w)\<rparr>)" (is "sync_ok _ ?w")
proof -
  have now: "part_now etag d q = part_now etag (sw_data w) q" "right etag d pg q = right etag (sw_data w) pg q"
    if "q \<notin> set (marked_parts p)" for q pg
    using that assms(2) by (simp_all add: part_now_def right_def)
  have same: "sw_log ?w = sw_log w" "waiting ?w = waiting w" "sent_page ?w = sent_page w"
    by (simp_all add: sync_parts)
  have "part_safe etag ?w pg q b" if "part_safe etag w pg q b" for pg q b
    using that now(2) [of q pg] by (cases "q \<in> set (marked_parts p)") (auto simp: part_safe_def same)
  then have "pages_safe etag ?w" using assms(1) by (auto simp: sync_ok_def pages_safe_def page_safe_def same)
  moreover have "debts etag ?w" if "debts etag w"
    using that now(2) by (auto simp: debts_def same)
  moreover have "hand_ok etag ?w" if "hand_ok etag w"
    using that now(1) by (auto simp: hand_ok_def same split: serve_at.splits)
  ultimately show ?thesis using assms(1) by (auto simp: sync_ok_def same tags_ok_def alive_def awake_def)
qed

text \<open>A mark: what was committed joins the log and the channel's marks.\<close>

lemma marked_ok:
  assumes "sync_ok etag w"
  shows "sync_ok etag (w\<lparr>sw_served := (sw_served w)\<lparr>sr_entry := mark_entry p (sw_entry w)\<rparr>, sw_unmarked := sw_unmarked w - {p}\<rparr>)"
    (is "sync_ok _ ?w")
proof -
  have log: "sw_log ?w = (if is_metadata p then sw_log w else state_record (marked_parts p) (sw_log w))"
    by (simp add: sw_log_def)
  have left: "q \<in> committed ?w \<or> (q \<in> set (marked_parts p) \<and> \<not> is_metadata p)" if "q \<in> committed w" "role_free q" for q
    using that by (cases p) (auto simp: committed_def marked_parts_def role_free_def split: if_splits)
  have same: "sent_page ?w = sent_page w" by (simp add: sent_page_def)
  have rest: "reached b (sw_log ?w)" "behind b (sw_log ?w) q"
    if "reached b (sw_log w)" "behind b (sw_log w) q \<or> (q \<in> set (marked_parts p) \<and> \<not> is_metadata p)" for b q
    using that assms by (auto simp: log sync_ok_def reached_record intro: behind_record)
  have safe: "part_safe etag ?w pg q b" if "part_safe etag w pg q b" "reached b (sw_log w)" "role_free q" for pg q b
    using that left rest(2) [OF that(2), of q] by (auto simp: part_safe_def)
  have reached: "reached b (sw_log ?w)" if "reached b (sw_log w)" for b
    using that by (simp add: log reached_record)
  have "pages_safe etag ?w" using assms safe reached
    by (auto simp: sync_ok_def pages_safe_def page_safe_def state_part_def)
  moreover have "debts etag ?w \<and> hand_ok etag ?w \<and> tags_ok ?w \<and> alive ?w" if on: "\<not> at_end (sw_at w)"
  proof -
    obtain c where c: "awake w c" using assms on by (auto simp: sync_ok_def alive_def)
    then have waits: "waiting ?w = waiting w \<union> {q \<in> set (marked_parts p). \<not> is_metadata q}"
      by (simp add: waiting_def awake_def marked_every(1))
    have more: "q \<in> committed ?w \<union> waiting ?w" if "q \<in> committed w \<union> waiting w" "role_free q" for q
      using that left [of q] by (auto simp: waits role_free_def)
    have "debts etag ?w" using assms on more by (fastforce simp: sync_ok_def debts_def same)
    moreover have "hand_ok etag ?w"
    proof (cases "sw_at w")
      case (SvRead r e q n)
      have base: "reached b (sw_log w)" if "pg_base (sent_page w) = Some b" for b
        using assms that last_page [of "sw_wire w" "sw_page w"] by (auto simp: sync_ok_def pages_safe_def page_safe_def sent_page_def)
      have h: "event_part e = Some r"
        "role_free r \<Longrightarrow> part_now etag (sw_data w) r = Some e \<or> r \<in> committed w \<union> waiting w \<union> q"
        "\<And>b. state_part r \<Longrightarrow> pg_base (sent_page w) = Some b
           \<Longrightarrow> part_now etag (sw_data w) r = Some e \<or> r \<in> committed w \<or> behind b (sw_log w) r"
        using assms on SvRead by (auto simp: sync_ok_def hand_ok_def)
      have "part_now etag (sw_data w) r = Some e \<or> r \<in> committed ?w \<or> behind b (sw_log ?w) r"
        if "state_part r" "pg_base (sent_page w) = Some b" for b
        using h(3) [OF that] left [of r] rest(2) [OF base [OF that(2)], of r] that(1) by (auto simp: state_part_def)
      then show ?thesis using h(1,2) more [of r] SvRead by (auto simp: hand_ok_def same)
    qed (use assms on in \<open>auto simp: sync_ok_def hand_ok_def\<close>)
    moreover have "tags_ok ?w" using assms on by (simp add: sync_ok_def tags_ok_def same)
    moreover have "alive ?w"
    proof -
      have le: "sl_revision (sw_log w) \<le> sl_revision (sw_log ?w)" by (simp add: log)
      define r where "r = sl_revision (sw_log ?w)"
      have "\<forall>n. mk_revision (cn_marked c) = Some n \<longrightarrow> n \<le> r" using c le by (auto simp: awake_def r_def)
      then have "awake ?w (channel_mark (marked_parts p) r c)"
        using c marked_every(2-4) [where c = c and ps = "marked_parts p" and r = r] by (simp add: awake_def r_def) (simp add: sw_log_def)
      then show ?thesis using assms on le by (fastforce simp: sync_ok_def alive_def)
    qed
    ultimately show ?thesis by blast
  qed
  ultimately show ?thesis using assms by (simp add: sync_ok_def log)
qed

end
