(* ===== verification/Sync_Served.thy ===== *)
theory Sync_Served imports Sync_Invariant begin

text \<open>
  Every step of the channel between its waits keeps the invariant, and so does every message of its
  page.
\<close>

section \<open>The parts of the invariant a channel's step rests on\<close>

lemma wants_same: "fl_lists fl = fl_lists fl' \<Longrightarrow> fl_state fl = fl_state fl' \<Longrightarrow> wants fl = wants fl'"
  by (intro ext) (simp add: wants_def split: option.split)

lemma right_parts: "pg_parts pg p = pg_parts pg' p \<Longrightarrow> right etag d pg p = right etag d pg' p"
  by (simp add: right_def split: option.split)

lemma sync_okD:
  assumes "sync_ok etag w" "\<not> at_end (sw_at w)"
  obtains c where "log_ok (sw_log w)" "pages_safe etag w" "debts etag w" "hand_ok etag w" "tags_ok w" "awake w c"
    "\<forall>r. at_current (sw_at w) = Some r \<longrightarrow> r \<le> sl_revision (sw_log w)"
    "\<forall>p. wants (sw_fl w) p \<longrightarrow> \<not> sr_choosing (sw_served w)"
  using assms unfolding sync_ok_def alive_def by blast

lemma sync_okI:
  assumes "log_ok (sw_log w)" "pages_safe etag w" "debts etag w" "hand_ok etag w" "tags_ok w" "awake w c"
    "\<And>r. at_current (sw_at w) = Some r \<Longrightarrow> r \<le> sl_revision (sw_log w)"
    "\<And>p. wants (sw_fl w) p \<Longrightarrow> \<not> sr_choosing (sw_served w)"
  shows "sync_ok etag w"
  using assms unfolding sync_ok_def alive_def by blast

lemma tags_okD:
  assumes "tags_ok w" "fl_lists (sw_fl w) l = Some t" "t \<noteq> []"
  obtains p e where "part_of l = Some p" "pg_parts (sent_page w) p = Some e" "event_list e = Some (l, t)"
  using assms unfolding tags_ok_def by blast

text \<open>A step that moves the channel on: what is in its hands and its marks, nothing sent.\<close>

lemma moved_ok:
  assumes ok: "sync_ok etag w" "\<not> at_end (sw_at w)" "awake w c"
    and same: "ue_log (sr_entry s) = sw_log w" "sr_wire s = sw_wire w" "sr_choosing s = sr_choosing (sw_served w)"
      "fl_lists (sr_follows s) = fl_lists (sw_fl w)" "fl_state (sr_follows s) = fl_state (sw_fl w)"
    and channel: "entry_channel (sw_channel w) (sr_entry s) = Some c'" "cn_follows c' = FollowsEvery"
      "sr_at s = SvAsleep \<longrightarrow> marks_empty (cn_marked c') \<or> cn_permit c'"
      "\<forall>r. mk_revision (cn_marked c') = Some r \<longrightarrow> mk_revision (cn_marked c) = Some r"
    and hands: "\<And>p. role_free p \<Longrightarrow> wants (sw_fl w) p \<Longrightarrow> p \<in> mk_parts (cn_marked c) \<union> in_hand (sw_at w)
        \<Longrightarrow> right etag (sw_data w) (sent_page w) p \<or> p \<in> mk_parts (cn_marked c') \<union> in_hand (sr_at s)"
    and "hand_ok etag (w\<lparr>sw_served := s\<rparr>)"
    and current: "\<And>r. at_current (sr_at s) = Some r \<Longrightarrow> at_current (sw_at w) = Some r \<or> mk_revision (cn_marked c) = Some r"
  shows "sync_ok etag (w\<lparr>sw_served := s\<rparr>)" (is "sync_ok _ ?w")
proof -
  obtain log: "log_ok (sw_log w)" and safe: "pages_safe etag w" and debts: "debts etag w" and tags: "tags_ok w"
    and le: "\<forall>r. at_current (sw_at w) = Some r \<longrightarrow> r \<le> sl_revision (sw_log w)"
    and none: "\<forall>p. wants (sw_fl w) p \<longrightarrow> \<not> sr_choosing (sw_served w)"
    using ok(1,2) by (rule sync_okD) blast
  have keep: "sw_log ?w = sw_log w" "committed ?w = committed w" "sent_page ?w = sent_page w"
    "wants (sr_follows s) = wants (sw_fl w)"
    using same(1,2) wants_same [OF same(4,5)] by (simp_all add: sync_parts)
  have waits: "waiting w = mk_parts (cn_marked c)" "waiting ?w = mk_parts (cn_marked c')"
    using ok(3) channel(1) by (simp_all add: waiting_def awake_def)
  show ?thesis
  proof (rule sync_okI [where c = c'])
    show "log_ok (sw_log ?w)" using log keep by simp
    show "pages_safe etag ?w" using safe same(2) by (simp add: pages_safe_def page_safe_def part_safe_def keep)
    show "debts etag ?w"
      unfolding debts_def
    proof (intro allI impI, elim conjE)
      fix p assume p: "role_free p" "wants (sw_fl ?w) p"
      then have w: "wants (sw_fl w) p" by (simp add: keep)
      then have "right etag (sw_data w) (sent_page w) p \<or> p \<in> committed w \<union> waiting w \<union> in_hand (sw_at w)"
        using debts p(1) by (simp add: debts_def)
      then show "right etag (sw_data ?w) (sent_page ?w) p \<or> p \<in> committed ?w \<union> waiting ?w \<union> in_hand (sw_at ?w)"
        using hands [OF p(1) w] by (auto simp: keep waits)
    qed
    show "tags_ok ?w" using tags same(4) by (simp add: tags_ok_def keep)
    show "awake ?w c'" using channel ok(3) by (simp add: awake_def keep)
    show "r \<le> sl_revision (sw_log ?w)" if "at_current (sw_at ?w) = Some r" for r
      using current [of r] that le ok(3) by (auto simp: keep awake_def)
    show "\<not> sr_choosing (sw_served ?w)" if "wants (sw_fl ?w) p" for p
      using none that same(3) by (auto simp: keep)
  qed (use assms in simp)
qed

section \<open>Waiting and telling\<close>

lemma check_ok:
  assumes "sync_ok etag w" "sw_at w = SvWaiting"
  shows "sync_ok etag (w\<lparr>sw_served := serve_check (sw_channel w) (sw_served w)\<rparr>)"
proof -
  obtain c where c: "awake w c" using assms by (auto elim: sync_okD)
  show ?thesis
    by (rule moved_ok [OF assms(1) _ c, where c' = c])
      (use assms(2) c in \<open>auto simp: serve_check_def awake_def sw_log_def hand_ok_def split: if_splits\<close>)
qed

lemma woken_ok:
  assumes "sync_ok etag w" "sw_at w = SvAsleep"
  shows "sync_ok etag (w\<lparr>sw_served := serve_woken (sw_channel w) (sw_served w)\<rparr>)"
proof -
  obtain c where c: "awake w c" using assms by (auto elim: sync_okD)
  show ?thesis
    by (rule moved_ok [OF assms(1) _ c, where c' = "c\<lparr>cn_permit := False\<rparr>"])
      (use assms(2) c in \<open>auto simp: serve_woken_def awake_def sw_log_def hand_ok_def\<close>)
qed

lemma stale_ok:
  assumes "sync_ok etag w" "sw_at w = SvAsleep \<or> sw_at w = SvWaiting"
  shows "sync_ok etag (w\<lparr>sw_served := serve_stale (sw_served w)\<rparr>)"
proof -
  obtain c where c: "awake w c" using assms by (auto elim: sync_okD)
  show ?thesis
    by (rule moved_ok [OF assms(1) _ c, where c' = c])
      (use assms(2) c in \<open>auto simp: serve_stale_def awake_def sw_log_def hand_ok_def\<close>)
qed

lemma take_skips:
  assumes "sync_ok etag w" "sw_at w = SvTaking q n" "entry_take (sw_channel w) (sw_entry w) = (m, e)"
    "pop_first (q \<union> mk_parts m) = Some (p, q')"
  shows "sync_ok etag (w\<lparr>sw_served := serve_take (sw_channel w) (sw_served w)\<rparr>)"
proof -
  have on: "\<not> at_end (sw_at w)" using assms(2) by simp
  obtain c where c: "awake w c" and none: "\<forall>p. wants (sw_fl w) p \<longrightarrow> \<not> sr_choosing (sw_served w)"
    using assms(1) on by (rule sync_okD) blast
  then have taken: "m = cn_marked c" "entry_channel (sw_channel w) e = Some (c\<lparr>cn_marked := no_marks\<rparr>)" "ue_log e = sw_log w"
    using channel_taken [OF assms(3)] by (simp_all add: awake_def sw_log_def)
  have q': "q \<union> mk_parts (cn_marked c) \<subseteq> insert p q'"
    using assms(4) taken(1) by (auto simp: pop_first_def split: if_splits)
  define skip where "skip = (if sr_choosing (sw_served w) then p \<noteq> PartUser else \<not> wants (sw_fl w) p)"
  have s: "serve_take (sw_channel w) (sw_served w) = (sw_served w)\<lparr>sr_entry := e,
      sr_at := (if skip then SvTaking q' (later n (mk_revision m)) else SvReading p q' (later n (mk_revision m)))\<rparr>"
    using assms(2,3,4) by (simp add: serve_take_def Let_def skip_def)
  show ?thesis
  proof (rule moved_ok [OF assms(1) on c, where c' = "c\<lparr>cn_marked := no_marks\<rparr>"])
    fix r assume r: "role_free r" "wants (sw_fl w) r" "r \<in> mk_parts (cn_marked c) \<union> in_hand (sw_at w)"
    then have "r \<in> insert p q'" using q' assms(2) by auto
    moreover have "r \<noteq> p" if skip using that r(2) none by (auto simp: skip_def)
    ultimately show "right etag (sw_data w) (sent_page w) r
        \<or> r \<in> mk_parts (cn_marked (c\<lparr>cn_marked := no_marks\<rparr>)) \<union> in_hand (sr_at (serve_take (sw_channel w) (sw_served w)))"
      by (auto simp: s)
  next
    fix r assume "at_current (sr_at (serve_take (sw_channel w) (sw_served w))) = Some r"
    then show "at_current (sw_at w) = Some r \<or> mk_revision (cn_marked c) = Some r"
      using assms(2) taken(1) by (auto simp: s later_def max_def split: option.splits if_splits)
  qed (use c taken assms(2) in \<open>auto simp: s awake_def hand_ok_def\<close>)
qed

section \<open>Sending\<close>

text \<open>What goes to the page with an event, by what the page then holds.\<close>

lemma sent_snoc: "sw_wire w' = sw_wire w @ [e] \<Longrightarrow> sw_page w' = sw_page w \<Longrightarrow> sent_page w' = page_receive e (sent_page w)"
  by (simp add: sent_page_def)

lemma safe_snoc:
  assumes "pages_safe etag w" "sw_wire w' = sw_wire w @ [e]" "sw_page w' = sw_page w" "sw_log w' = sw_log w"
    "sw_data w' = sw_data w" "sw_unmarked w' = sw_unmarked w" "page_safe etag w' (page_receive e (sent_page w))"
  shows "pages_safe etag w'"
proof -
  have "page_safe etag w' pg" if "page_safe etag w pg" for pg
    using that assms(4-6) by (simp add: page_safe_def part_safe_def committed_def)
  then show ?thesis
    using assms by (auto simp: pages_safe_def pages_snoc sent_page_def)
qed

lemma sent_page_safe: "pages_safe etag w \<Longrightarrow> page_safe etag w (sent_page w)"
  using last_page by (auto simp: pages_safe_def sent_page_def)

lemma receive_stale [simp]: "page_receive (EvStale v) pg = pg"
  by (simp add: page_receive_def)

lemma tell_ok:
  assumes "sync_ok etag w" "sw_at w = SvStale vs"
  shows "sync_ok etag (w\<lparr>sw_served := serve_tell (sw_served w)\<rparr>)" (is "sync_ok _ ?w")
proof (cases vs)
  case Nil
  obtain c where c: "awake w c" using assms by (auto elim: sync_okD)
  show ?thesis
    by (rule moved_ok [OF assms(1) _ c, where c' = c])
      (use assms(2) Nil c in \<open>auto simp: serve_tell_def awake_def sw_log_def hand_ok_def\<close>)
next
  case (Cons v vs')
  have on: "\<not> at_end (sw_at w)" using assms(2) by simp
  obtain c where k: "log_ok (sw_log w)" "pages_safe etag w" "debts etag w" "tags_ok w" "awake w c"
    "\<forall>p. wants (sw_fl w) p \<longrightarrow> \<not> sr_choosing (sw_served w)"
    using assms(1) on by (rule sync_okD) blast
  let ?v = "w\<lparr>sw_served := (sw_served w)\<lparr>sr_wire := sw_wire w @ [EvStale v], sr_at := SvStale vs'\<rparr>\<rparr>"
  have s: "serve_tell (sw_served w) = (sw_served w)\<lparr>sr_wire := sw_wire w @ [EvStale v], sr_at := SvStale vs'\<rparr>"
    using assms(2) Cons by (simp add: serve_tell_def send_event_def)
  have same: "sw_log ?v = sw_log w" "committed ?v = committed w" "waiting ?v = waiting w" "sent_page ?v = sent_page w"
    by (simp_all add: sync_parts)
  have pg: "page_safe etag ?v (page_receive (EvStale v) (sent_page w))"
    using sent_page_safe [OF k(2)] by (simp add: page_safe_def part_safe_def same)
  have "sync_ok etag ?v"
  proof (rule sync_okI [where c = c])
    show "pages_safe etag ?v" by (rule safe_snoc [OF k(2) _ _ _ _ _ pg]) (simp_all add: same)
    show "debts etag ?v" using k(3) assms(2) by (simp add: debts_def same)
    show "tags_ok ?v" using k(4) by (simp add: tags_ok_def same)
    show "awake ?v c" using k(5) by (simp add: awake_def same)
  qed (use k(1,6) in \<open>auto simp: hand_ok_def same\<close>)
  then show ?thesis by (simp add: s)
qed

text \<open>The pass ends: what is followed is as it was at the latest revision, or not marked yet.\<close>

lemma take_ends:
  assumes "sync_ok etag w" "sw_at w = SvTaking q n" "entry_take (sw_channel w) (sw_entry w) = (m, e)"
    "pop_first (q \<union> mk_parts m) = None"
  shows "sync_ok etag (w\<lparr>sw_served := serve_take (sw_channel w) (sw_served w)\<rparr>)" (is "sync_ok _ ?w")
proof -
  have on: "\<not> at_end (sw_at w)" using assms(2) by simp
  obtain c where k: "log_ok (sw_log w)" "pages_safe etag w" "debts etag w" "tags_ok w" "awake w c"
    "\<forall>r. at_current (sw_at w) = Some r \<longrightarrow> r \<le> sl_revision (sw_log w)"
    "\<forall>p. wants (sw_fl w) p \<longrightarrow> \<not> sr_choosing (sw_served w)"
    using assms(1) on by (rule sync_okD) blast
  have taken: "m = cn_marked c" "entry_channel (sw_channel w) e = Some (c\<lparr>cn_marked := no_marks\<rparr>)" "ue_log e = sw_log w"
    using channel_taken [OF assms(3)] k(5) by (simp_all add: awake_def sw_log_def)
  have none: "q = {}" "mk_parts (cn_marked c) = {}" using assms(4) taken(1) by (auto simp: pop_first_def split: if_splits)
  have le: "r \<le> sl_revision (sw_log w)" if "later n (mk_revision m) = Some r" for r
    using that k(5,6) taken(1) assms(2) by (auto simp: later_def max_def awake_def split: option.splits if_splits)
  have right: "right etag (sw_data w) (sent_page w) p \<or> p \<in> committed w" if "role_free p" "wants (sw_fl w) p" for p
    using k(3,5) that none assms(2) by (auto simp: debts_def waiting_def awake_def)
  show ?thesis
  proof (cases "later n (mk_revision m) \<noteq> None \<and> fl_state (sw_fl w) \<noteq> None")
    case False
    then have s: "serve_take (sw_channel w) (sw_served w) = (sw_served w)\<lparr>sr_entry := e, sr_at := SvWaiting\<rparr>"
      using assms(2-4) by (auto simp: serve_take_def Let_def split: option.split)
    show ?thesis
      by (rule moved_ok [OF assms(1) on k(5), where c' = "c\<lparr>cn_marked := no_marks\<rparr>"])
        (use taken k(5) none assms(2) in \<open>auto simp: s awake_def hand_ok_def\<close>)
  next
    case True
    then obtain r epoch where r: "later n (mk_revision m) = Some r" "fl_state (sw_fl w) = Some epoch" by auto
    let ?v = "\<lparr>pv_epoch = epoch, pv_revision = r\<rparr>"
    have s: "serve_take (sw_channel w) (sw_served w)
        = (sw_served w)\<lparr>sr_entry := e, sr_wire := sw_wire w @ [EvSynced ?v], sr_at := SvWaiting\<rparr>"
      using assms(2-4) r by (simp add: serve_take_def Let_def send_event_def)
    let ?u = "w\<lparr>sw_served := (sw_served w)\<lparr>sr_entry := e, sr_wire := sw_wire w @ [EvSynced ?v], sr_at := SvWaiting\<rparr>\<rparr>"
    have same: "sw_log ?u = sw_log w" "committed ?u = committed w" "waiting ?u = {}"
        "sent_page ?u = page_receive (EvSynced ?v) (sent_page w)"
      using taken(2,3) by (simp_all add: sync_parts)
    have same_right: "right etag d (page_receive (EvSynced ?v) (sent_page w)) p = right etag d (sent_page w) p" for d p
      by (rule right_parts) simp
    have "wants (sw_fl w) p" if "state_part p" for p using that r(2) by (auto simp: wants_def state_part_def)
    moreover have "reached ?v (sw_log ?u)" using le [OF r(1)] by (simp add: reached_def same)
    ultimately have pg: "page_safe etag ?u (page_receive (EvSynced ?v) (sent_page w))"
      using right by (auto simp: page_safe_def part_safe_def same same_right state_part_def)
    have "sync_ok etag ?u"
    proof (rule sync_okI [where c = "c\<lparr>cn_marked := no_marks\<rparr>"])
      show "pages_safe etag ?u" by (rule safe_snoc [OF k(2) _ _ _ _ _ pg]) (simp_all add: same(1))
      show "debts etag ?u" using right by (auto simp: debts_def same same_right)
      show "tags_ok ?u" using k(4) by (simp add: tags_ok_def same)
      show "awake ?u (c\<lparr>cn_marked := no_marks\<rparr>)" using k(5) taken(2) by (simp add: awake_def)
    qed (use k(1,7) in \<open>auto simp: hand_ok_def same\<close>)
    then show ?thesis by (simp add: s)
  qed
qed

lemma take_ok:
  assumes "sync_ok etag w" "sw_at w = SvTaking q n"
  shows "sync_ok etag (w\<lparr>sw_served := serve_take (sw_channel w) (sw_served w)\<rparr>)"
proof (cases "entry_take (sw_channel w) (sw_entry w)")
  case (Pair m e)
  then show ?thesis
    using take_skips [OF assms Pair] take_ends [OF assms Pair] by (cases "pop_first (q \<union> mk_parts m)") (auto split: prod.splits)
qed

lemma read_ok:
  assumes "sync_ok etag w" "sw_at w = SvReading p q n"
  shows "sync_ok etag (w\<lparr>sw_served := serve_read etag (sw_data w) (sw_served w)\<rparr>)"
proof -
  have on: "\<not> at_end (sw_at w)" using assms(2) by simp
  obtain c where c: "awake w c" using assms(1) on by (rule sync_okD)
  show ?thesis
  proof (cases "read_part etag p (ud_role (sr_user (sw_served w))) (sw_data w)")
    case None
    then have s: "serve_read etag (sw_data w) (sw_served w) = (sw_served w)\<lparr>sr_at := SvTaking q n\<rparr>"
      using assms(2) by (simp add: serve_read_def)
    have "right etag (sw_data w) (sent_page w) p" if "role_free p"
      using that None by (simp add: right_def read_role_free)
    then show ?thesis
      by (intro moved_ok [OF assms(1) on c, where c' = c]) (use c assms(2) in \<open>auto simp: s awake_def sw_log_def hand_ok_def\<close>)
  next
    case (Some e)
    then have s: "serve_read etag (sw_data w) (sw_served w) = (sw_served w)\<lparr>sr_at := SvRead p e q n\<rparr>"
      using assms(2) by (simp add: serve_read_def)
    have "part_now etag (sw_data w) p = Some e" if "role_free p" using that Some by (simp add: read_role_free)
    then show ?thesis
      using read_event_part [OF Some]
      by (intro moved_ok [OF assms(1) on c, where c' = c])
        (use c assms(2) in \<open>auto simp: s awake_def sw_log_def hand_ok_def state_part_def\<close>)
  qed
qed

text \<open>What \<open>send_read\<close> does: nothing, or the event goes and a list's tag with it.\<close>

lemma followed_event_cases:
  obtains (Nothing) "followed_event e ch fl = (None, fl)"
      "case event_list e of None \<Rightarrow> fl_state fl = None
       | Some (l, tag) \<Rightarrow> fl_lists fl l = None \<or> (fl_lists fl l = Some tag \<and> tag \<noteq> [])"
  | (Sent) fl' where "followed_event e ch fl = (Some e, fl')" "fl_state fl' = fl_state fl" "wants fl' = wants fl"
      "fl_lists fl' = (case event_list e of None \<Rightarrow> fl_lists fl | Some (l, tag) \<Rightarrow> (fl_lists fl)(l \<mapsto> tag))"
proof (cases "event_list e")
  case None
  show thesis
  proof (cases "(is_user_event e \<and> ch) \<or> fl_state fl \<noteq> None")
    case True
    with None show thesis by (intro that(2) [of fl]) (simp_all add: followed_event_def)
  next
    case False
    with None show thesis by (intro that(1)) (auto simp: followed_event_def)
  qed
next
  case (Some lt)
  obtain l tag where lt: "lt = (l, tag)" by (cases lt)
  show thesis
  proof (cases "fl_lists fl l")
    case None
    with Some lt show thesis by (intro that(1)) (auto simp: followed_event_def)
  next
    case held: (Some held)
    show thesis
    proof (cases "tag \<noteq> [] \<and> held = tag")
      case True
      with Some lt held show thesis by (intro that(1)) (auto simp: followed_event_def)
    next
      case False
      let ?fl = "fl\<lparr>fl_lists := (fl_lists fl)(l \<mapsto> tag)\<rparr>"
      have "wants ?fl = wants fl" using held by (intro ext) (auto simp: wants_def split: option.split)
      with Some lt held False show thesis by (intro that(2) [of ?fl]) (auto simp: followed_event_def)
    qed
  qed
qed

lemma send_read_other:
  "\<forall>u. e \<noteq> EvUser u \<Longrightarrow> followed_event e ch (sr_follows s) = (Some e, fl')
    \<Longrightarrow> send_read e ch s = (s\<lparr>sr_follows := fl', sr_user := sr_user s, sr_wire := sr_wire s @ [e]\<rparr>, False)"
  by (cases e; cases s) (simp_all add: send_read_def send_event_def)

lemma send_read_cases:
  obtains (Nothing) "send_read e ch s = (s, False)"
      "case event_list e of None \<Rightarrow> fl_state (sr_follows s) = None
       | Some (l, tag) \<Rightarrow> fl_lists (sr_follows s) l = None \<or> (fl_lists (sr_follows s) l = Some tag \<and> tag \<noteq> [])"
  | (Sent) fl' u promoted where
      "send_read e ch s = (s\<lparr>sr_follows := fl', sr_user := u, sr_wire := sr_wire s @ [e]\<rparr>, promoted)"
      "wants fl' = wants (sr_follows s)"
      "fl_lists fl' = (case event_list e of None \<Rightarrow> fl_lists (sr_follows s) | Some (l, tag) \<Rightarrow> (fl_lists (sr_follows s))(l \<mapsto> tag))"
proof (cases rule: followed_event_cases [of e ch "sr_follows s"])
  case Nothing
  then show thesis by (intro that(1)) (simp_all add: send_read_def)
next
  case (Sent fl')
  show thesis
  proof (cases "\<exists>u. e = EvUser u")
    case True
    then obtain u where "e = EvUser u" by blast
    with Sent show thesis by (intro that(2) [where fl' = fl' and u = u]) (simp_all add: send_read_def send_event_def)
  next
    case False
    with Sent show thesis by (intro that(2) [OF send_read_other]) auto
  qed
qed

lemma part_of_event: "event_list e = Some (l, t) \<Longrightarrow> event_part e = Some p \<Longrightarrow> part_of l = Some p \<and> list_of p = Some l"
  using event_list_part by fastforce

text \<open>
  A part that was read is sent, or needs not be: the page then has it as it is now, or it is still
  to be read again.
\<close>

lemma sending_ok:
  assumes ok: "sync_ok etag w" "\<not> at_end (sw_at w)" "awake w c"
    and entry: "ue_log (sr_entry s) = sw_log w" "entry_channel (sw_channel w) (sr_entry s) = Some c'" "cn_follows c' = FollowsEvery"
      "\<forall>r. mk_revision (cn_marked c') = Some r \<longrightarrow> mk_revision (cn_marked c) = Some r"
    and s: "sr_wire s = sw_wire w" "sr_follows s = sw_fl w" "sr_choosing s = sr_choosing (sw_served w)"
    and event: "event_part ev = Some p"
    and hands: "\<And>r. r \<in> waiting w \<union> in_hand (sw_at w) \<Longrightarrow> r \<noteq> p \<Longrightarrow> r \<in> mk_parts (cn_marked c') \<union> in_hand at"
    and now: "role_free p \<Longrightarrow> part_now etag (sw_data w) p = Some ev \<or> p \<in> committed w \<union> mk_parts (cn_marked c') \<union> in_hand at"
    and base: "\<And>b. state_part p \<Longrightarrow> pg_base (sent_page w) = Some b
      \<Longrightarrow> part_now etag (sw_data w) p = Some ev \<or> p \<in> committed w \<or> behind b (sw_log w) p"
    and at: "(\<exists>q n. at = SvTaking q n) \<or> (\<exists>ps q n. at = SvPromoting ps q n \<and> set ps \<subseteq> {PartUsers, PartServerUpgrade})"
      "\<And>r. at_current at = Some r \<Longrightarrow> at_current (sw_at w) = Some r \<or> mk_revision (cn_marked c) = Some r"
    and choosing: "ch' \<Longrightarrow> sr_choosing (sw_served w)"
  shows "sync_ok etag (w\<lparr>sw_served := (fst (send_read ev ch s))\<lparr>sr_at := at, sr_choosing := ch'\<rparr>\<rparr>)"
proof -
  obtain k: "log_ok (sw_log w)" "pages_safe etag w" "debts etag w" "tags_ok w"
    "\<forall>r. at_current (sw_at w) = Some r \<longrightarrow> r \<le> sl_revision (sw_log w)"
    "\<forall>p. wants (sw_fl w) p \<longrightarrow> \<not> sr_choosing (sw_served w)"
    using ok(1,2) by (rule sync_okD) blast
  have not_asleep: "at \<noteq> SvAsleep" using at(1) by auto
  have le: "r \<le> sl_revision (sw_log w)" if "at_current at = Some r" for r
    using at(2) [OF that] k(5) ok(3) by (auto simp: awake_def)
  have list: "\<exists>t. event_list ev = Some (l, t)" if "role_free p" "list_of p = Some l" for l
    by (rule list_event [OF event that])
  have owed: "right etag (sw_data w) (sent_page w) r \<or> r \<in> committed w \<union> mk_parts (cn_marked c') \<union> in_hand at"
    if "role_free r" "wants (sw_fl w) r" "r \<noteq> p" for r
    using k(3) that hands [of r] by (auto simp: debts_def)
  show ?thesis
  proof (cases rule: send_read_cases [of ev ch s])
    case Nothing
    let ?w = "w\<lparr>sw_served := s\<lparr>sr_at := at, sr_choosing := ch'\<rparr>\<rparr>"
    have same: "sw_log ?w = sw_log w" "committed ?w = committed w" "waiting ?w = mk_parts (cn_marked c')" "sent_page ?w = sent_page w"
      using entry s by (simp_all add: sync_parts)
    have p: "right etag (sw_data w) (sent_page w) p \<or> p \<in> committed w \<union> mk_parts (cn_marked c') \<union> in_hand at"
      if rf: "role_free p" and wants: "wants (sw_fl w) p"
    proof (cases "list_of p")
      case None
      then have "event_list ev = None" using state_event_list [OF event] by simp
      with Nothing(2) wants None show ?thesis by (simp add: s(2) wants_def)
    next
      case (Some l)
      then obtain t where t: "event_list ev = Some (l, t)" using list rf by blast
      with Nothing(2) wants Some have "fl_lists (sw_fl w) l = Some t" "t \<noteq> []" by (auto simp: s(2) wants_def)
      with k(4) obtain e0 where "pg_parts (sent_page w) p = Some e0" "event_list e0 = Some (l, t)"
        using list_of_part_of [OF Some] unfolding tags_ok_def by fastforce
      with t \<open>t \<noteq> []\<close> have "same_event e0 ev" by (auto simp: same_event_def)
      with now [OF rf] \<open>pg_parts (sent_page w) p = Some e0\<close> show ?thesis by (auto simp: right_def)
    qed
    have "sync_ok etag ?w"
    proof (rule sync_okI [where c = c'])
      show "pages_safe etag ?w" using k(2) s(1) by (simp add: pages_safe_def page_safe_def part_safe_def same)
      show "debts etag ?w" unfolding debts_def
      proof (intro allI impI, elim conjE)
        fix r assume "role_free r" "wants (sw_fl ?w) r"
        then show "right etag (sw_data ?w) (sent_page ?w) r \<or> r \<in> committed ?w \<union> waiting ?w \<union> in_hand (sw_at ?w)"
          using owed [of r] p by (cases "r = p") (simp_all add: same s(2))
      qed
      show "hand_ok etag ?w" using at(1) by (auto simp: hand_ok_def)
      show "tags_ok ?w" using k(4) s(2) by (simp add: tags_ok_def same)
      show "awake ?w c'" using entry ok(3) not_asleep by (auto simp: awake_def same)
    qed (use k(1,6) le choosing s(2) in \<open>auto simp: same\<close>)
    then show ?thesis using Nothing(1) by simp
  next
    case (Sent fl' u promoted)
    let ?w = "w\<lparr>sw_served := s\<lparr>sr_follows := fl', sr_user := u, sr_wire := sr_wire s @ [ev], sr_at := at, sr_choosing := ch'\<rparr>\<rparr>"
    have same: "sw_log ?w = sw_log w" "committed ?w = committed w" "waiting ?w = mk_parts (cn_marked c')"
      "sent_page ?w = page_receive ev (sent_page w)"
      using entry s by (simp_all add: sync_parts)
    have page: "pg_parts (page_receive ev (sent_page w)) = (pg_parts (sent_page w))(p \<mapsto> ev)"
      "pg_base (page_receive ev (sent_page w)) = pg_base (sent_page w)"
      using event by (simp_all split: sync_event.splits) (cases ev; simp)
    have others: "right etag d (page_receive ev (sent_page w)) r = right etag d (sent_page w) r" if "r \<noteq> p" for d r
      by (rule right_parts) (subst page(1), simp add: that)
    have itself: "right etag (sw_data w) (page_receive ev (sent_page w)) p" if "part_now etag (sw_data w) p = Some ev"
      using that event by (simp add: right_def same_event_def)
    have before: "page_safe etag w (sent_page w)" by (rule sent_page_safe [OF k(2)])
    have pg: "page_safe etag ?w (page_receive ev (sent_page w))"
      unfolding page_safe_def
    proof (intro allI impI conjI ballI)
      fix b assume "pg_base (page_receive ev (sent_page w)) = Some b"
      then have b: "pg_base (sent_page w) = Some b" by (simp only: page(2))
      with before show "reached b (sw_log ?w)" by (simp add: page_safe_def same)
      fix r assume r: "r \<in> pg_got (page_receive ev (sent_page w))" "state_part r"
      show "part_safe etag ?w (page_receive ev (sent_page w)) r b"
      proof (cases "r = p")
        case True
        with base [OF _ b] itself r(2) show ?thesis by (auto simp: part_safe_def same)
      next
        case False
        with before b r show ?thesis by (auto simp: page_safe_def part_safe_def same others)
      qed
    qed
    have "sync_ok etag ?w"
    proof (rule sync_okI [where c = c'])
      have "sw_wire ?w = sw_wire w @ [ev]" by (simp add: s(1))
      then show "pages_safe etag ?w" by (rule safe_snoc [OF k(2) _ _ same(1) _ _ pg]) simp_all
      show "debts etag ?w" unfolding debts_def
      proof (intro allI impI, elim conjE)
        fix r assume r: "role_free r" "wants (sw_fl ?w) r"
        then have "wants (sw_fl w) r" using Sent(2) by (simp add: s(2))
        then show "right etag (sw_data ?w) (sent_page ?w) r \<or> r \<in> committed ?w \<union> waiting ?w \<union> in_hand (sw_at ?w)"
          using owed [OF r(1)] others [of r] now itself r(1) by (cases "r = p") (auto simp: same)
      qed
      show "hand_ok etag ?w" using at(1) by (auto simp: hand_ok_def)
      show "tags_ok ?w" unfolding tags_ok_def
      proof (intro allI impI, elim conjE)
        fix l t assume lt: "fl_lists (sw_fl ?w) l = Some t" "t \<noteq> []"
        show "\<exists>r e. part_of l = Some r \<and> pg_parts (sent_page ?w) r = Some e \<and> event_list e = Some (l, t)"
        proof (cases "event_list ev = Some (l, t)")
          case True
          then show ?thesis using part_of_event [OF True event] by (simp add: same event)
        next
          case False
          then have "fl_lists (sw_fl w) l = Some t"
            using lt(1) Sent(3) by (auto simp: s(2) split: option.splits if_splits)
          then obtain r e where r: "part_of l = Some r" "pg_parts (sent_page w) r = Some e" "event_list e = Some (l, t)"
            using k(4) lt(2) by (auto elim: tags_okD)
          have "r \<noteq> p"
          proof
            assume "r = p"
            then have "list_of p = Some l" using part_of_list_of [OF r(1)] by simp
            then show False
              using event r(3) lt(1) Sent(3) False by (cases ev; cases e) (auto simp: s(2) split: if_splits)
          qed
          with r show ?thesis by (auto simp: same event)
        qed
      qed
      show "awake ?w c'" using entry ok(3) not_asleep by (auto simp: awake_def same)
    qed (use k(1,6) le choosing s(2) Sent(2) in \<open>auto simp: same\<close>)
    then show ?thesis using Sent(1) by simp
  qed
qed

text \<open>The end of a read, and what a promoted account is sent.\<close>

lemma send_ok:
  fixes w :: "'v sync_world"
  assumes "sync_ok etag w" "sw_at w = SvRead p ev q n"
  shows "sync_ok etag (w\<lparr>sw_served := serve_send (sw_channel w) (sw_served w)\<rparr>)"
proof (cases "entry_take (sw_channel w) (sw_entry w)")
  case (Pair m e)
  have on: "\<not> at_end (sw_at w)" using assms(2) by simp
  obtain c where c: "awake w c" and hand: "hand_ok etag w"
    using assms(1) on by (rule sync_okD)
  have taken: "m = cn_marked c" "entry_channel (sw_channel w) e = Some (c\<lparr>cn_marked := no_marks\<rparr>)" "ue_log e = sw_log w"
    using channel_taken [OF Pair] c by (simp_all add: awake_def sw_log_def)
  have waits: "waiting w = mk_parts m" using c taken(1) by (simp add: waiting_def awake_def)
  have h: "event_part ev = Some p"
    "role_free p \<Longrightarrow> part_now etag (sw_data w) p = Some ev \<or> p \<in> committed w \<union> waiting w \<union> q"
    "\<And>b. state_part p \<Longrightarrow> pg_base (sent_page w) = Some b
      \<Longrightarrow> part_now etag (sw_data w) p = Some ev \<or> p \<in> committed w \<or> behind b (sw_log w) p"
    using hand assms(2) by (auto simp: hand_ok_def)
  define q' where "q' = q \<union> mk_parts m"
  define n' where "n' = later n (mk_revision m)"
  have n': "at_current (sw_at w) = Some r \<or> mk_revision (cn_marked c) = Some r" if "n' = Some r" for r
    using that assms(2) taken(1) by (auto simp: n'_def later_def max_def split: option.splits if_splits)
  show ?thesis
  proof (cases "q' \<noteq> {} \<and> Min q' < p")
    case True
    then have s: "serve_send (sw_channel w) (sw_served w) = (sw_served w)\<lparr>sr_entry := e, sr_at := SvTaking (insert p q') n'\<rparr>"
      using assms(2) Pair by (simp add: serve_send_def Let_def q'_def n'_def)
    show ?thesis
      by (rule moved_ok [OF assms(1) on c, where c' = "c\<lparr>cn_marked := no_marks\<rparr>"])
        (use c taken assms(2) n' in \<open>auto simp: s awake_def hand_ok_def q'_def\<close>)
  next
    case False
    define s where "s = (sw_served w)\<lparr>sr_entry := e\<rparr>"
    define r where "r = send_read ev (sr_choosing (sw_served w)) s"
    define at :: "'v serve_at" where "at = (if snd r then SvPromoting [PartUsers, PartServerUpgrade] q' n' else SvTaking q' n')"
    have "serve_send (sw_channel w) (sw_served w)
        = (fst r)\<lparr>sr_at := at, sr_choosing := sr_choosing (fst r) \<and> ud_chooses_password (sr_user (fst r))\<rparr>"
      using assms(2) Pair False by (auto simp: serve_send_def Let_def q'_def n'_def at_def r_def s_def case_prod_unfold)
    moreover have "sync_ok etag (w\<lparr>sw_served := (fst r)\<lparr>sr_at := at, sr_choosing := sr_choosing (fst r) \<and> ud_chooses_password (sr_user (fst r))\<rparr>\<rparr>)"
      unfolding r_def
    proof (rule sending_ok [OF assms(1) on c, where c' = "c\<lparr>cn_marked := no_marks\<rparr>" and p = p])
      show "sr_choosing (sw_served w)"
        if "sr_choosing (fst (send_read ev (sr_choosing (sw_served w)) s)) \<and> ud_chooses_password (sr_user (fst (send_read ev (sr_choosing (sw_served w)) s)))"
        using that by (cases rule: send_read_cases [of ev "sr_choosing (sw_served w)" s]) (auto simp: s_def)
      show "at_current (sw_at w) = Some r \<or> mk_revision (cn_marked c) = Some r" if "at_current at = Some r" for r
        using that n' [of r] by (simp add: at_def split: if_splits)
      show "part_now etag (sw_data w) p = Some ev \<or> p \<in> committed w \<union> mk_parts (cn_marked (c\<lparr>cn_marked := no_marks\<rparr>)) \<union> in_hand at"
        if "role_free p"
        using h(2) [OF that] waits by (auto simp: at_def q'_def)
    qed (use c taken h waits assms(2) in \<open>auto simp: s_def awake_def at_def q'_def\<close>)
    ultimately show ?thesis by simp
  qed
qed

lemma promoted_ok:
  assumes "sync_ok etag w" "sw_at w = SvPromoting ps q n"
  shows "sync_ok etag (w\<lparr>sw_served := serve_promoted etag (sw_data w) (sw_served w)\<rparr>)"
proof -
  have on: "\<not> at_end (sw_at w)" using assms(2) by simp
  obtain c where c: "awake w c" and hand: "hand_ok etag w"
    using assms(1) on by (rule sync_okD)
  have ps: "set ps \<subseteq> {PartUsers, PartServerUpgrade}" using hand assms(2) by (simp add: hand_ok_def)
  show ?thesis
  proof (cases ps)
    case Nil
    then show ?thesis
      by (intro moved_ok [OF assms(1) on c, where c' = c])
        (use c assms(2) in \<open>auto simp: serve_promoted_def awake_def sw_log_def hand_ok_def\<close>)
  next
    case (Cons p ps')
    show ?thesis
    proof (cases "read_part etag p (ud_role (sr_user (sw_served w))) (sw_data w)")
      case None
      then have s: "serve_promoted etag (sw_data w) (sw_served w) = (sw_served w)\<lparr>sr_at := SvPromoting ps' q n\<rparr>"
        using assms(2) Cons by (simp add: serve_promoted_def)
      show ?thesis
        by (intro moved_ok [OF assms(1) on c, where c' = c])
          (use c assms(2) ps Cons in \<open>auto simp: s awake_def sw_log_def hand_ok_def\<close>)
    next
      case (Some ev)
      let ?s = "fst (send_read ev False (sw_served w))"
      have "serve_promoted etag (sw_data w) (sw_served w) = ?s\<lparr>sr_at := SvPromoting ps' q n, sr_choosing := sr_choosing (sw_served w)\<rparr>"
        using assms(2) Cons Some
        by (cases rule: send_read_cases [of ev False "sw_served w"]) (simp_all add: serve_promoted_def)
      moreover have "\<not> role_free p" "\<not> state_part p" using ps Cons by (auto simp: role_free_def state_part_def)
      then have "sync_ok etag (w\<lparr>sw_served := ?s\<lparr>sr_at := SvPromoting ps' q n, sr_choosing := sr_choosing (sw_served w)\<rparr>\<rparr>)"
        by (intro sending_ok [OF assms(1) on c, where c' = c and p = p])
          (use c read_event_part [OF Some] ps Cons assms(2) in \<open>auto simp: awake_def sw_log_def waiting_def\<close>)
      ultimately show ?thesis by simp
    qed
  qed
qed

lemma serve_next_ok:
  assumes "sync_ok etag w"
  shows "sync_ok etag (w\<lparr>sw_served := serve_next etag w (sw_served w)\<rparr>)"
  using assms check_ok tell_ok take_ok read_ok send_ok promoted_ok by (cases "sw_at w") (simp_all add: serve_next_def)

section \<open>Messages of the page\<close>

lemma waiting_grows:
  assumes "awake w c" "ue_log e = sw_log w" "entry_channel (sw_channel w) e = Some c'"
    "cn_follows c' = FollowsEvery" "cn_permit c' \<or> c' = c"
    "\<forall>r. mk_revision (cn_marked c') = Some r \<longrightarrow> mk_revision (cn_marked c) = Some r \<or> r = sl_revision (sw_log w)"
  shows "awake (w\<lparr>sw_served := (sw_served w)\<lparr>sr_entry := e, sr_follows := fl\<rparr>\<rparr>) c'"
  using assms by (auto simp: awake_def sw_log_def)

text \<open>A follow changes what waits and what is followed only.\<close>

lemma followed_ok:
  assumes ok: "sync_ok etag w" "\<not> at_end (sw_at w)" "awake w c"
    and entry: "ue_log e = sw_log w" "entry_channel (sw_channel w) e = Some c'" "cn_follows c' = FollowsEvery"
      "cn_permit c' \<or> c' = c"
      "\<forall>r. mk_revision (cn_marked c') = Some r \<longrightarrow> mk_revision (cn_marked c) = Some r \<or> r = sl_revision (sw_log w)"
      "mk_parts (cn_marked c) \<subseteq> mk_parts (cn_marked c')"
    and wants: "\<And>p. role_free p \<Longrightarrow> wants fl p \<Longrightarrow> \<not> wants (sw_fl w) p
      \<Longrightarrow> right etag (sw_data w) (sent_page w) p \<or> p \<in> committed w \<union> mk_parts (cn_marked c')"
    and tags: "\<And>l t. fl_lists fl l = Some t \<Longrightarrow> t \<noteq> [] \<Longrightarrow> fl_lists (sw_fl w) l = Some t
      \<or> (\<exists>p e. part_of l = Some p \<and> pg_parts (sent_page w) p = Some e \<and> event_list e = Some (l, t))"
    and choosing: "\<And>p. wants fl p \<Longrightarrow> \<not> wants (sw_fl w) p \<Longrightarrow> \<not> sr_choosing (sw_served w)"
  shows "sync_ok etag (w\<lparr>sw_served := (sw_served w)\<lparr>sr_entry := e, sr_follows := fl\<rparr>\<rparr>)" (is "sync_ok _ ?w")
proof -
  obtain k: "log_ok (sw_log w)" "pages_safe etag w" "debts etag w" "hand_ok etag w" "tags_ok w"
    "\<forall>r. at_current (sw_at w) = Some r \<longrightarrow> r \<le> sl_revision (sw_log w)"
    "\<forall>p. wants (sw_fl w) p \<longrightarrow> \<not> sr_choosing (sw_served w)"
    using ok(1,2) by (rule sync_okD) blast
  have same: "sw_log ?w = sw_log w" "committed ?w = committed w" "waiting ?w = mk_parts (cn_marked c')" "sent_page ?w = sent_page w"
    using entry by (simp_all add: sync_parts)
  have waits: "waiting w = mk_parts (cn_marked c)" using ok(3) by (simp add: waiting_def awake_def)
  show ?thesis
  proof (rule sync_okI [where c = c'])
    show "pages_safe etag ?w" using k(2) by (simp add: pages_safe_def page_safe_def part_safe_def same)
    show "debts etag ?w" unfolding debts_def
    proof (intro allI impI, elim conjE)
      fix p assume "role_free p" "wants (sw_fl ?w) p"
      then show "right etag (sw_data ?w) (sent_page ?w) p \<or> p \<in> committed ?w \<union> waiting ?w \<union> in_hand (sw_at ?w)"
        using k(3) wants [of p] entry(6) waits by (cases "wants (sw_fl w) p") (auto simp: debts_def same)
    qed
    show "hand_ok etag ?w" using k(4) entry(6) waits by (auto simp: hand_ok_def same split: serve_at.splits)
    show "tags_ok ?w" unfolding tags_ok_def
    proof (intro allI impI, elim conjE)
      fix l t assume "fl_lists (sw_fl ?w) l = Some t" "t \<noteq> []"
      then show "\<exists>p e. part_of l = Some p \<and> pg_parts (sent_page ?w) p = Some e \<and> event_list e = Some (l, t)"
        using tags [of l t] k(5) by (auto simp: same elim: tags_okD)
    qed
    show "awake ?w c'" by (rule waiting_grows [OF ok(3) entry(1-5)])
    show "\<not> sr_choosing (sw_served ?w)" if "wants (sw_fl ?w) p" for p
      using that k(7) choosing [of p] by (cases "wants (sw_fl w) p") auto
  qed (use k(1,6) in \<open>auto simp: same\<close>)
qed

lemma same_wants:
  "wants (fl\<lparr>fl_state := None\<rparr>) p \<Longrightarrow> wants fl p" "wants (fl\<lparr>fl_lists := (fl_lists fl)(l := None)\<rparr>) p \<Longrightarrow> wants fl p"
  "wants (end_stale v fl) = wants fl"
  by (auto simp: wants_def end_stale_def split: option.splits if_splits)

lemma unfollow_ok:
  assumes "sync_ok etag w" "\<not> at_end (sw_at w)"
  shows "sync_ok etag (w\<lparr>sw_served := (sw_served w)\<lparr>sr_entry := sw_entry w, sr_follows := unfollow_value v (sw_fl w)\<rparr>\<rparr>)"
proof -
  obtain c where c: "awake w c" using assms by (auto elim: sync_okD)
  have fewer: "wants (unfollow_value v fl) p \<Longrightarrow> wants fl p" for fl p
    using same_wants(1,2) [of fl] by (simp add: unfollow_value_def split: if_splits)
  show ?thesis
    by (rule followed_ok [OF assms c, where c' = c])
      (use c in \<open>auto simp: awake_def sw_log_def dest: fewer, auto simp: unfollow_value_def split: if_splits\<close>)
qed

lemma opened_ok:
  assumes "sync_ok etag w" "\<not> at_end (sw_at w)"
  shows "sync_ok etag (w\<lparr>sw_served := (sw_served w)\<lparr>sr_entry := sw_entry w, sr_follows := (sw_fl w)\<lparr>fl_opened := True\<rparr>\<rparr>\<rparr>)"
proof -
  obtain c where c: "awake w c" using assms by (auto elim: sync_okD)
  have "wants ((sw_fl w)\<lparr>fl_opened := True\<rparr>) = wants (sw_fl w)" by (rule wants_same) simp_all
  then show ?thesis
    by (intro followed_ok [OF assms c, where c' = c]) (use c in \<open>auto simp: awake_def sw_log_def\<close>)
qed

lemma sent_page_quiet:
  assumes "quiet_state w"
  shows "pg_base (sent_page w) = pg_base (sw_page w)" "list_of p = None \<Longrightarrow> pg_parts (sent_page w) p = pg_parts (sw_page w) p"
    "pg_got (sent_page w) = pg_got (sw_page w)"
  using pages_quiet_state [OF last_page, of "sw_wire w" "sw_page w" p] pages_got [OF last_page, of "sw_wire w" "sw_page w"] assms
  by (auto simp: sent_page_def quiet_state_def)

text \<open>Following the state from a version: what the page lacks of it is marked with the follow.\<close>

lemma follow_state_ok:
  assumes ok: "sync_ok etag w" "\<not> at_end (sw_at w)" and "\<not> sr_choosing (sw_served w)"
    and true: "truthful w FollowedState (HoldsVersion v b)"
    and "follow_value (sw_channel w) FollowedState (HoldsVersion v b) (sw_entry w, sw_fl w) = Inr (e, fl)"
  shows "sync_ok etag (w\<lparr>sw_served := (sw_served w)\<lparr>sr_entry := e, sr_follows := fl\<rparr>\<rparr>)"
proof -
  obtain c where c: "awake w c" and safe: "pages_safe etag w" using ok by (rule sync_okD)
  show ?thesis
  proof (cases "state_since v (sw_log w)")
    case None
    then have "e = sw_entry w" "fl = end_stale FollowedState ((sw_fl w)\<lparr>fl_state := None\<rparr>)"
      using assms(5) by (simp_all add: entry_follow_since_def sw_log_def)
    then show ?thesis
      by (intro followed_ok [OF ok c, where c' = c])
        (use c in \<open>auto simp: awake_def sw_log_def same_wants(3) dest: same_wants(1), auto simp: end_stale_def\<close>)
  next
    case (Some parts)
    then have epoch: "pv_epoch v = sl_epoch (sw_log w)" "pv_revision v \<le> sl_revision (sw_log w)"
      by (auto simp: state_since_def split: if_splits)
    then obtain base where q: "quiet_state w" and got: "{p. state_part p} \<subseteq> pg_got (sw_page w)"
      and base: "pg_base (sw_page w) = Some base" "pv_epoch v = pv_epoch base" "pv_revision v \<le> pv_revision base"
      using true by (auto simp: sw_log_def split: option.splits)
    have "page_safe etag w (sent_page w)" by (rule sent_page_safe [OF safe])
    then have reached: "reached base (sw_log w)"
      and safe': "\<And>p. state_part p \<Longrightarrow> right etag (sw_data w) (sent_page w) p \<or> p \<in> committed w \<or> behind base (sw_log w) p"
      using base(1) got sent_page_quiet [OF q] by (auto simp: page_safe_def part_safe_def)
    have lacks: "right etag (sw_data w) (sent_page w) p \<or> p \<in> committed w \<or> p \<in> parts" if "state_part p" for p
      using safe' [OF that] behind_earlier [OF base(2,3) Some _ reached] by blast
    have none: "parts = {}" if "\<not> pv_revision v < sl_revision (sw_log w)"
      using that Some epoch by (auto simp: state_since_def)
    define c' where "c' = (if pv_revision v < sl_revision (sw_log w)
        then c\<lparr>cn_marked := (cn_marked c)\<lparr>mk_parts := mk_parts (cn_marked c) \<union> parts, mk_revision := Some (sl_revision (sw_log w))\<rparr>,
               cn_permit := True\<rparr> else c)"
    have e: "ue_log e = sw_log w" "entry_channel (sw_channel w) e = Some c'"
      and fl: "fl = (sw_fl w)\<lparr>fl_state := Some (pv_epoch v)\<rparr>"
      using assms(5) Some c by (auto simp: entry_follow_since_def sw_log_def awake_def c'_def)
    show ?thesis
    proof (rule followed_ok [OF ok c e])
      fix p assume "role_free p" "wants fl p" "\<not> wants (sw_fl w) p"
      then have "state_part p" by (auto simp: fl wants_def state_part_def split: option.splits)
      with lacks none show "right etag (sw_data w) (sent_page w) p \<or> p \<in> committed w \<union> mk_parts (cn_marked c')"
        by (auto simp: c'_def)
    qed (use c assms(3) in \<open>auto simp: c'_def fl awake_def\<close>)
  qed
qed

lemma follow_list_ok:
  assumes ok: "sync_ok etag w" "\<not> at_end (sw_at w)" and "\<not> sr_choosing (sw_served w)"
    and true: "truthful w l (HoldsTag tag)" and l: "l \<noteq> FollowedState"
    and "follow_value (sw_channel w) l (HoldsTag tag) (sw_entry w, sw_fl w) = Inr (e, fl)"
  shows "sync_ok etag (w\<lparr>sw_served := (sw_served w)\<lparr>sr_entry := e, sr_follows := fl\<rparr>\<rparr>)"
proof -
  obtain c where c: "awake w c" using ok by (rule sync_okD)
  obtain p where p: "part_of l = Some p" using l by (cases l) simp_all
  define c' where "c' = c\<lparr>cn_marked := (cn_marked c)\<lparr>mk_parts := insert p (mk_parts (cn_marked c))\<rparr>, cn_permit := True\<rparr>"
  have e: "ue_log e = sw_log w" "entry_channel (sw_channel w) e = Some c'" and fl: "fl = (sw_fl w)\<lparr>fl_lists := (fl_lists (sw_fl w))(l \<mapsto> tag)\<rparr>"
    using assms(6) c p l by (cases l; auto simp: entry_mark_part_def sw_log_def awake_def c'_def)+
  show ?thesis
  proof (rule followed_ok [OF ok c e])
    fix r assume "role_free r" "wants fl r" "\<not> wants (sw_fl w) r"
    then have "list_of r = Some l" by (auto simp: fl wants_def split: option.splits if_splits)
    then have "r = p" using list_of_part_of [of r l] p by simp
    then show "right etag (sw_data w) (sent_page w) r \<or> r \<in> committed w \<union> mk_parts (cn_marked c')" by (simp add: c'_def)
  next
    fix k t assume kt: "fl_lists fl k = Some t" "t \<noteq> []"
    show "fl_lists (sw_fl w) k = Some t
      \<or> (\<exists>p e. part_of k = Some p \<and> pg_parts (sent_page w) p = Some e \<and> event_list e = Some (k, t))"
    proof (cases "k = l")
      case True
      with kt have "t = tag" "tag \<noteq> []" by (simp_all add: fl)
      moreover obtain ev where "quiet_part p w" "pg_parts (sw_page w) p = Some ev" "event_list ev = Some (l, tag)"
        using true p \<open>tag \<noteq> []\<close> l by (cases l) (auto split: option.splits)
      ultimately show ?thesis
        using True p pages_quiet_part [OF last_page, of "sw_wire w" p "sw_page w"] by (auto simp: quiet_part_def sent_page_def)
    qed (use kt in \<open>simp add: fl\<close>)
  qed (use c assms(3) in \<open>auto simp: c'_def fl awake_def\<close>)
qed

lemma follow_ok:
  assumes "sync_ok etag w" "\<not> at_end (sw_at w)" "truthful_follow w f"
    "follow_value (sw_channel w) (fw_value f) (fw_holds f) (sw_entry w, sw_fl w) = Inr (e, fl)"
  shows "sync_ok etag (w\<lparr>sw_served := (sw_served w)\<lparr>sr_entry := e, sr_follows := fl\<rparr>\<rparr>)"
proof (cases "fw_value f = FollowedState")
  case True
  then obtain v b where "fw_holds f = HoldsVersion v b" using assms(4) by (cases "fw_holds f") simp_all
  with True assms show ?thesis by (intro follow_state_ok [of etag w v b]) (auto simp: truthful_follow_def)
next
  case False
  then obtain tag where "fw_holds f = HoldsTag tag" using assms(4) by (cases "fw_holds f"; cases "fw_value f") simp_all
  with False assms show ?thesis by (intro follow_list_ok [of etag w "fw_value f" tag]) (auto simp: truthful_follow_def)
qed

lemma put_back: "w\<lparr>sw_served := (sw_served w)\<lparr>sr_entry := sw_entry w, sr_follows := sw_fl w\<rparr>\<rparr> = w"
  by simp

lemma follow_value_log:
  "follow_value cid v h (e, fl) = Inr (e', fl') \<Longrightarrow> ue_log e' = ue_log e"
  by (cases v; cases h) (auto dest: follow_since_log split: option.splits)

lemma truthful_same:
  assumes "sl_epoch (ue_log (sw_entry w')) = sl_epoch (ue_log (sw_entry w))" "sw_wire w' = sw_wire w" "sw_page w' = sw_page w"
    "sr_choosing (sw_served w') = sr_choosing (sw_served w)"
  shows "truthful_follow w' f = truthful_follow w f"
proof -
  have "truthful w' v h = truthful w v h" for v h
    using assms(1-3) by (cases v; cases h) (simp_all add: quiet_state_def quiet_part_def split: option.split)
  then show ?thesis using assms(4) by (simp add: truthful_follow_def)
qed

lemma follow_all_ok:
  assumes "sync_ok etag w" "\<not> at_end (sw_at w)" "\<forall>f\<in>set fs. truthful_follow w f"
    "follow_all (sw_channel w) fs (sw_entry w, sw_fl w) = Inr (e, fl)"
  shows "sync_ok etag (w\<lparr>sw_served := (sw_served w)\<lparr>sr_entry := e, sr_follows := fl\<rparr>\<rparr>)"
  using assms
proof (induction fs arbitrary: w)
  case Nil
  then show ?case using put_back [of w] by auto
next
  case (Cons f fs)
  obtain e1 fl1 where one: "follow_value (sw_channel w) (fw_value f) (fw_holds f) (sw_entry w, sw_fl w) = Inr (e1, fl1)"
    and rest: "follow_all (sw_channel w) fs (e1, fl1) = Inr (e, fl)"
    using Cons.prems(4) by (auto split: sum.splits prod.splits)
  let ?w = "w\<lparr>sw_served := (sw_served w)\<lparr>sr_entry := e1, sr_follows := fl1\<rparr>\<rparr>"
  have "truthful_follow ?w g = truthful_follow w g" for g
    using follow_value_log [OF one] by (intro truthful_same) simp_all
  then have "\<forall>g\<in>set fs. truthful_follow ?w g" using Cons.prems(3) by simp
  moreover have "sync_ok etag ?w" using follow_ok [OF Cons.prems(1,2) _ one] Cons.prems(3) by simp
  ultimately show ?case using Cons.IH [of ?w] Cons.prems(2) rest by simp
qed

text \<open>When the channel ends, what is left is what its page holds.\<close>

lemma ended_ok:
  assumes "sync_ok etag w" "at_end (sr_at s)" "ue_log (sr_entry s) = sw_log w"
    "set (pages (sr_wire s) (sw_page w)) \<subseteq> set (pages (sw_wire w) (sw_page w))"
  shows "sync_ok etag (w\<lparr>sw_served := s\<rparr>)"
proof -
  have "sw_log (w\<lparr>sw_served := s\<rparr>) = sw_log w" "committed (w\<lparr>sw_served := s\<rparr>) = committed w"
    using assms(3) by (simp_all add: sync_parts)
  then have "page_safe etag (w\<lparr>sw_served := s\<rparr>) pg = page_safe etag w pg" for pg
    by (simp add: page_safe_def part_safe_def)
  then have "pages_safe etag (w\<lparr>sw_served := s\<rparr>)" if "pages_safe etag w"
    using that assms(4) by (auto simp: pages_safe_def)
  then show ?thesis using assms(1-3) by (simp add: sync_ok_def sw_log_def)
qed

lemma message_ok:
  assumes "sync_ok etag w" "\<not> at_end (sw_at w)" "truthful_message w msg"
  shows "sync_ok etag (w\<lparr>sw_served := serve_message (sw_channel w) msg (sw_served w)\<rparr>)"
proof (cases "take_message (sw_channel w) msg (sw_entry w, sw_fl w)")
  case (Inl fin)
  then show ?thesis
    by (intro ended_ok [OF assms(1)]) (simp_all add: serve_message_def serve_end_def sw_log_def)
next
  case (Inr s)
  obtain e fl where s: "s = (e, fl)" by (cases s)
  have "sync_ok etag (w\<lparr>sw_served := (sw_served w)\<lparr>sr_entry := e, sr_follows := fl\<rparr>\<rparr>)"
  proof (cases msg)
    case (PageOpen fs)
    let ?w = "w\<lparr>sw_served := (sw_served w)\<lparr>sr_entry := sw_entry w, sr_follows := (sw_fl w)\<lparr>fl_opened := True\<rparr>\<rparr>\<rparr>"
    have "truthful_follow ?w f = truthful_follow w f" for f by (rule truthful_same) simp_all
    moreover have "follow_all (sw_channel w) fs (sw_entry w, (sw_fl w)\<lparr>fl_opened := True\<rparr>) = Inr (e, fl)"
      using Inr PageOpen s by (simp split: if_splits)
    ultimately show ?thesis
      using follow_all_ok [OF opened_ok [OF assms(1,2)], of fs e fl] assms(2,3) PageOpen by simp
  next
    case (PageFollow f)
    then show ?thesis using follow_ok [OF assms(1,2)] assms(3) Inr s by simp
  next
    case (PageUnfollow v)
    then show ?thesis using unfollow_ok [OF assms(1,2), of v] Inr s by auto
  qed (use Inr s assms(1) put_back [of w] in auto)
  then show ?thesis using Inr s by (simp add: serve_message_def)
qed

section \<open>The other steps\<close>

lemma others_ok:
  assumes "sync_ok etag w" "ue_log e = ue_log (sw_entry w)" "entry_channel (sw_channel w) e = entry_channel (sw_channel w) (sw_entry w)"
  shows "sync_ok etag (w\<lparr>sw_served := (sw_served w)\<lparr>sr_entry := e\<rparr>\<rparr>)" (is "sync_ok _ ?w")
proof -
  have same: "sw_log ?w = sw_log w" "committed ?w = committed w" "waiting ?w = waiting w" "sent_page ?w = sent_page w"
    using assms(2,3) by (simp_all add: sync_parts)
  have "pages_safe etag ?w = pages_safe etag w" "debts etag ?w = debts etag w" "hand_ok etag ?w = hand_ok etag w"
    "tags_ok ?w = tags_ok w" "alive ?w = alive w"
    using assms(3) by (simp_all add: pages_safe_def page_safe_def part_safe_def served_parts same cong: serve_at.case_cong)
  then show ?thesis using assms(1) by (simp add: sync_ok_def same)
qed

lemma receive_ok:
  assumes "sync_ok etag w" "sw_wire w = event # rest"
  shows "sync_ok etag (w\<lparr>sw_served := (sw_served w)\<lparr>sr_wire := rest\<rparr>, sw_page := page_receive event (sw_page w)\<rparr>)" (is "sync_ok _ ?w")
proof -
  have same: "sw_log ?w = sw_log w" "committed ?w = committed w" "waiting ?w = waiting w" "sent_page ?w = sent_page w"
    using assms(2) by (simp_all add: sync_parts)
  have "pages_safe etag ?w" if "pages_safe etag w"
    using that assms(2) by (simp add: pages_safe_def page_safe_def part_safe_def same)
  moreover have "debts etag ?w = debts etag w" "hand_ok etag ?w = hand_ok etag w" "tags_ok ?w = tags_ok w" "alive ?w = alive w"
    by (simp_all add: served_parts same cong: serve_at.case_cong)
  ultimately show ?thesis using assms(1) by (simp add: sync_ok_def same)
qed

lemma lost_ok:
  assumes "sync_ok etag w"
  shows "sync_ok etag (w\<lparr>sw_served := (serve_end (sw_channel w) fin (sw_served w))\<lparr>sr_wire := []\<rparr>\<rparr>)"
  by (rule ended_ok [OF assms]) (simp_all add: serve_end_def sw_log_def first_page)

lemma connect_ok:
  assumes "sync_ok etag w" "entry_channel cid (sw_entry w) = None" "ud_chooses_password user \<Longrightarrow> pg_base (sw_page w) = None"
  shows "sync_ok etag (w\<lparr>sw_served := serve_begin cid user (sw_entry w), sw_channel := cid\<rparr>)" (is "sync_ok _ ?w")
proof -
  have same: "sw_log ?w = sw_log w" "committed ?w = committed w" by (simp_all add: sync_parts serve_begin_def)
  have "page_safe etag ?w (sw_page w) = page_safe etag w (sw_page w)"
    unfolding page_safe_def part_safe_def same by simp
  moreover have "page_safe etag w (sw_page w)" using assms(1) first_page by (auto simp: sync_ok_def pages_safe_def)
  ultimately have safe: "page_safe etag ?w (sw_page w)" by simp
  have none: "wants no_follows p = False" for p by (simp add: wants_def no_follows_def split: option.split)
  show ?thesis
  proof (rule sync_okI)
    show "pages_safe etag ?w"
    proof (cases "ud_chooses_password user")
      case True
      with assms(3) safe show ?thesis by (simp add: pages_safe_def serve_begin_def) (simp add: page_safe_def page_receive_def)
    next
      case False
      with safe show ?thesis by (simp add: pages_safe_def serve_begin_def)
    qed
    show "awake ?w \<lparr>cn_id = cid, cn_session = None, cn_follows = FollowsEvery, cn_marked = no_marks, cn_permit = False\<rparr>"
      using assms(2) by (simp add: awake_def serve_begin_def)
    show "log_ok (sw_log ?w)" using assms(1) by (simp add: sync_ok_def same)
  qed (simp_all add: served_parts serve_begin_def none, simp add: no_follows_def)
qed

lemma forgotten_ok:
  assumes "sync_ok etag w" "at_end (sw_at w)" "sw_wire w = []" "\<And>b. pg_base (sw_page w) = Some b \<Longrightarrow> pv_epoch b \<noteq> epoch"
  shows "sync_ok etag (w\<lparr>sw_served := (sw_served w)\<lparr>sr_entry := entry_new epoch\<rparr>\<rparr>)" (is "sync_ok _ ?w")
proof -
  have log: "sw_log ?w = state_log_new epoch" by (simp add: sw_log_def entry_new_def)
  have "behind b (sw_log ?w) p" "reached b (sw_log ?w)" if "pg_base (sw_page w) = Some b" for b p
    using assms(4) [OF that] since_other_epoch [of b "sw_log ?w"]
    by (simp_all add: log behind_def reached_def) (simp_all add: state_log_new_def)
  then have "pages_safe etag ?w" using assms(3) by (auto simp: pages_safe_def page_safe_def part_safe_def)
  then show ?thesis using assms(2) by (simp add: sync_ok_def log)
qed

lemma asks_ok:
  assumes "sync_ok etag w" "may_ask w"
  shows "sync_ok etag (w\<lparr>sw_page := (sw_page w)\<lparr>pg_base := Some (state_version_of (ue_log (sw_entry w))), pg_got := {}\<rparr>\<rparr>)"
    (is "sync_ok _ (w\<lparr>sw_page := ?pg\<rparr>)")
proof -
  let ?w = "w\<lparr>sw_page := ?pg\<rparr>"
  have quiet: "\<forall>e\<in>set (sw_wire w). \<not> state_event e" using assms(2) by (simp add: may_ask_def quiet_state_def)
  have parts: "pg_parts (fold page_receive es ?pg) = pg_parts (fold page_receive es (sw_page w))" for es
  proof -
    have *: "pg_parts (fold page_receive es pg) = pg_parts (fold page_receive es pg')" if "pg_parts pg = pg_parts pg'" for pg pg' :: "'a page"
      using that
    proof (induction es arbitrary: pg pg')
      case (Cons e es)
      then have "pg_parts (page_receive e pg) = pg_parts (page_receive e pg')" by (simp split: option.split)
      from Cons.IH [OF this] show ?case by simp
    qed simp
    show ?thesis by (rule *) simp
  qed
  have same: "sw_log ?w = sw_log w" "committed ?w = committed w" "waiting ?w = waiting w" "pg_parts (sent_page ?w) = pg_parts (sent_page w)"
    using parts by (simp_all add: sync_parts)
  then have rights: "right etag d (sent_page ?w) p = right etag d (sent_page w) p" for d p by (intro right_parts) simp
  have "page_safe etag ?w pg" if "pg \<in> set (pages (sw_wire w) ?pg)" for pg
    using pages_quiet_state [OF that quiet] pages_got [OF that]
    by (simp add: page_safe_def same(1)) (simp add: reached_def state_version_of_def sw_log_def)
  then have "pages_safe etag ?w" by (simp add: pages_safe_def)
  moreover have "debts etag ?w = debts etag w" "tags_ok ?w = tags_ok w" "alive ?w = alive w"
    by (simp_all add: served_parts same rights)
  moreover have "hand_ok etag ?w = hand_ok etag w" if "\<not> at_end (sw_at w)"
    using that assms(2) by (cases "sw_at w") (simp_all add: hand_ok_def may_ask_def)
  ultimately show ?thesis using assms(1) by (simp add: sync_ok_def same)
qed

text \<open>A page reads a part itself, of which nothing is on its way.\<close>

lemma pages_update:
  assumes "\<forall>e\<in>set es. event_part e \<noteq> Some p"
  shows "pages es (pg\<lparr>pg_parts := (pg_parts pg)(p := x), pg_got := g\<rparr>)
      = map (\<lambda>q. q\<lparr>pg_parts := (pg_parts q)(p := x), pg_got := g\<rparr>) (pages es pg)"
    "fold page_receive es (pg\<lparr>pg_parts := (pg_parts pg)(p := x), pg_got := g\<rparr>)
      = (fold page_receive es pg)\<lparr>pg_parts := (pg_parts (fold page_receive es pg))(p := x), pg_got := g\<rparr>"
proof -
  have step: "page_receive e (pg\<lparr>pg_parts := (pg_parts pg)(p := x), pg_got := g\<rparr>)
      = (page_receive e pg)\<lparr>pg_parts := (pg_parts (page_receive e pg))(p := x), pg_got := g\<rparr>"
    if "event_part e \<noteq> Some p" for e pg
    using that by (cases e) (auto simp: page_receive_def fun_upd_twist)
  show "pages es (pg\<lparr>pg_parts := (pg_parts pg)(p := x), pg_got := g\<rparr>)
      = map (\<lambda>q. q\<lparr>pg_parts := (pg_parts q)(p := x), pg_got := g\<rparr>) (pages es pg)"
    using assms by (induction es arbitrary: pg) (simp_all add: step del: receive_parts)
  show "fold page_receive es (pg\<lparr>pg_parts := (pg_parts pg)(p := x), pg_got := g\<rparr>)
      = (fold page_receive es pg)\<lparr>pg_parts := (pg_parts (fold page_receive es pg))(p := x), pg_got := g\<rparr>"
    using assms by (induction es arbitrary: pg) (simp_all add: step del: receive_parts)
qed

lemma reads_part_ok:
  assumes "sync_ok etag w" "quiet_part p w" "g \<subseteq> insert p (pg_got (sw_page w))"
    "\<And>l. list_of p = Some l \<Longrightarrow> \<not> at_end (sw_at w) \<Longrightarrow> fl_lists (sw_fl w) l = None"
  shows "sync_ok etag (w\<lparr>sw_page := (sw_page w)\<lparr>pg_parts := (pg_parts (sw_page w))(p := part_now etag (sw_data w) p), pg_got := g\<rparr>\<rparr>)"
    (is "sync_ok _ (w\<lparr>sw_page := ?pg\<rparr>)")
proof -
  let ?w = "w\<lparr>sw_page := ?pg\<rparr>"
  let ?up = "\<lambda>q :: 'a page. q\<lparr>pg_parts := (pg_parts q)(p := part_now etag (sw_data w) p), pg_got := g\<rparr>"
  have quiet: "\<forall>e\<in>set (sw_wire w). event_part e \<noteq> Some p" using assms(2) by (simp add: quiet_part_def)
  have pages: "pages (sw_wire ?w) (sw_page ?w) = map ?up (pages (sw_wire w) (sw_page w))"
    and sent: "sent_page ?w = ?up (sent_page w)"
    using pages_update [OF quiet] by (simp_all add: sent_page_def)
  have same: "sw_log ?w = sw_log w" "committed ?w = committed w" "waiting ?w = waiting w" by (simp_all add: sync_parts)
  have itself: "right etag (sw_data w) (?up pg) p" for pg
    by (auto simp: right_def same_event_def split: option.split)
  have others: "right etag d (?up pg) q = right etag d pg q" if "q \<noteq> p" for d pg q
    using that by (intro right_parts) simp
  have "page_safe etag ?w (?up pg)" if "page_safe etag w pg" "pg_got pg = pg_got (sw_page w)" for pg
    unfolding page_safe_def
  proof (intro allI impI conjI ballI)
    fix b assume "pg_base (?up pg) = Some b"
    then have b: "pg_base pg = Some b" by simp
    with that(1) show "reached b (sw_log ?w)" by (simp add: page_safe_def same)
    fix q assume "q \<in> pg_got (?up pg)" "state_part q"
    then show "part_safe etag ?w (?up pg) q b"
      using that b assms(3) itself others by (cases "q = p") (auto simp: page_safe_def part_safe_def same)
  qed
  then have "pages_safe etag ?w" if "pages_safe etag w"
    using that pages_got [of _ "sw_wire w" "sw_page w"] unfolding pages_safe_def pages by auto
  moreover have "debts etag ?w" if "debts etag w"
    unfolding debts_def
  proof (intro allI impI, elim conjE)
    fix q assume q: "role_free q" "wants (sw_fl ?w) q"
    show "right etag (sw_data ?w) (sent_page ?w) q \<or> q \<in> committed ?w \<union> waiting ?w \<union> in_hand (sw_at ?w)"
      using that q itself others by (cases "q = p") (auto simp: debts_def same sent)
  qed
  moreover have "hand_ok etag ?w = hand_ok etag w"
    by (simp add: hand_ok_def same sent split: serve_at.split)
  moreover have "tags_ok ?w" if tags: "tags_ok w" "\<not> at_end (sw_at w)"
    unfolding tags_ok_def
  proof (intro allI impI, elim conjE)
    fix l t assume lt: "fl_lists (sw_fl ?w) l = Some t" "t \<noteq> []"
    then obtain r e where r: "part_of l = Some r" "pg_parts (sent_page w) r = Some e" "event_list e = Some (l, t)"
      using tags(1) by (auto elim: tags_okD)
    moreover have "r \<noteq> p" using assms(4) [of l] tags(2) part_of_list_of [OF r(1)] lt(1) by auto
    ultimately show "\<exists>r e. part_of l = Some r \<and> pg_parts (sent_page ?w) r = Some e \<and> event_list e = Some (l, t)"
      by (simp add: sent)
  qed
  moreover have "alive ?w = alive w" by (simp add: alive_def awake_def same)
  ultimately show ?thesis using assms(1) by (simp add: sync_ok_def same)
qed

lemma quiet_state_part: "quiet_state w \<Longrightarrow> list_of p = None \<Longrightarrow> quiet_part p w"
  by (force simp: quiet_state_def quiet_part_def state_event_def)

lemma sync_step_ok:
  assumes "sync_step etag w w'" "sync_ok etag w"
  shows "sync_ok etag w'"
  using assms
proof (cases rule: sync_step.cases)
  case (Committed p d)
  with assms(2) show ?thesis using committed_ok by metis
next
  case (Marked p)
  with assms(2) show ?thesis using marked_ok by metis
next
  case (Others e)
  with assms(2) show ?thesis using others_ok by metis
next
  case Serves
  with assms(2) show ?thesis using serve_next_ok by metis
next
  case (Wakes c)
  with assms(2) show ?thesis using woken_ok by metis
next
  case Told
  with assms(2) show ?thesis using stale_ok by metis
next
  case (Says msg)
  with assms(2) show ?thesis using message_ok by metis
next
  case (Receives event rest)
  with assms(2) show ?thesis using receive_ok by metis
next
  case (Lost fin)
  with assms(2) show ?thesis using lost_ok by metis
next
  case (Connects cid user)
  with assms(2) show ?thesis using connect_ok [of etag w cid user] by simp
next
  case (Forgotten epoch)
  with assms(2) show ?thesis using forgotten_ok [of etag w epoch] by simp
next
  case Asks
  with assms(2) show ?thesis using asks_ok by metis
next
  case (Reads p)
  then have "quiet_part p w" by (intro quiet_state_part) (simp_all add: may_ask_def state_part_def)
  with Reads assms(2) show ?thesis
    using reads_part_ok [of etag w p "insert p (pg_got (sw_page w))"] by (simp add: state_part_def)
next
  case (Reads_list p l)
  with assms(2) show ?thesis using reads_part_ok [of etag w p "pg_got (sw_page w)"] by auto
qed

lemma start_ok: "sync_ok etag (sync_start epoch user d)"
  by (simp add: sync_ok_def pages_safe_def page_safe_def sync_start_def sw_log_def entry_new_def no_page_def)

lemma reaches_sync_ok: "sync_reaches etag w w' \<Longrightarrow> sync_ok etag w \<Longrightarrow> sync_ok etag w'"
  by (induction rule: sync_reaches.induct) (auto intro: sync_step_ok)

end
