(* ===== verification/Sync_Properties.thy ===== *)
theory Sync_Properties imports Sync_Served begin

text \<open>
  The properties of what pages follow, C13 of a page and its channel and C26 of the registry's log.
\<close>

section \<open>A page and its channel\<close>









text \<open>
  A page that follows the isolation of the Cloud's settings is sent it only while it follows the state:
  \<open>followed\<close> takes its event, unlike those of the other lists, for a part of the state.
\<close>

lemma isolation_goes_with_the_state:
  "fl_state fl = None \<Longrightarrow> followed_event (EvCloudIsolation v tag) ch fl = (None, fl)"
  by (simp add: followed_event_def)

section \<open>The log of changes\<close>

lemma run_call_keeps:
  assumes "r user = Some e" "call \<noteq> CallForget user"
  shows "\<exists>e'. run_call call r user = Some e' \<and> sl_epoch (ue_log e') = sl_epoch (ue_log e)"
proof (cases call)
  case (CallFollow user' cid held)
  with assms show ?thesis by (auto simp: follow_since_def split: option.split) (metis follow_since_log)
next
  case (CallTake user' cid)
  with assms show ?thesis by (auto simp: take_marks_def case_prod_unfold Let_def split: option.split)
qed (use assms in \<open>auto simp: registry_add_def entry_of_def version_at_def Let_def forget_user_def registry_mark_def on_entry_def
    mark_everyone_def end_session_def mark_part_def drop_registration_def split: option.split\<close>)

lemma run_calls_keep:
  "r user = Some e \<Longrightarrow> CallForget user \<notin> set calls
    \<Longrightarrow> \<exists>e'. run_calls calls r user = Some e' \<and> sl_epoch (ue_log e') = sl_epoch (ue_log e)"
proof (induction calls arbitrary: r e)
  case Nil
  then show ?case by (simp add: run_calls_def)
next
  case (Cons call calls)
  then obtain e' where "run_call call r user = Some e'" "sl_epoch (ue_log e') = sl_epoch (ue_log e)"
    using run_call_keeps [of r user e call] by auto
  with Cons.IH [of "run_call call r" e'] Cons.prems(2) show ?case by (simp add: run_calls_def)
qed

text \<open>
  C26. Whatever was called before, a version of a user's state taken then is told by the log, after
  any further calls on the registry, exactly the parts of the changes since; it is told that it is
  stale when there were more than a thousand, or when the user's entry was freed meanwhile. The log
  never holds more than a thousand changes.
\<close>

theorem log_tells_what_changed:
  assumes "version_at user epoch (run_calls calls0 (\<lambda>_. None)) = (v, r)"
    and "pv_epoch v \<notin> \<Union> (call_epochs ` set calls)"
    and "changes = concat (map (call_changes user) calls)"
  shows "case run_calls calls r user of
      None \<Rightarrow> CallForget user \<in> set calls
    | Some e \<Rightarrow>
        length (sl_recent (ue_log e)) \<le> RECENT_CHANGES
        \<and> state_since v (ue_log e)
            = (if sl_epoch (ue_log e) = pv_epoch v \<and> length changes \<le> RECENT_CHANGES
               then Some (set (concat changes)) else None)
        \<and> (CallForget user \<notin> set calls \<longrightarrow> sl_epoch (ue_log e) = pv_epoch v)"
proof -
  have "entry_tells user v [] r"
    by (rule version_tells [OF run_calls_ok [OF no_registry_ok] assms(1)])
  from run_calls_tell [OF this assms(2)] have tells: "entry_tells user v changes (run_calls calls r)"
    by (simp add: assms(3))
  obtain e0 where e0: "r user = Some e0" "sl_epoch (ue_log e0) = pv_epoch v"
    using assms(1) by (auto simp: version_at_def Let_def state_version_of_def)
  show ?thesis
  proof (cases "run_calls calls r user")
    case None
    then show ?thesis using run_calls_keep [of r user e0 calls] e0 by auto
  next
    case (Some e)
    with tells have t: "tells v changes (ue_log e)" by (simp add: entry_tells_def)
    moreover have "sl_epoch (ue_log e) = pv_epoch v" if "CallForget user \<notin> set calls"
      using run_calls_keep [of r user e0 calls] e0 that Some by auto
    ultimately show ?thesis
      using Some since_other_epoch [of v "ue_log e"] by (auto simp: tells_def log_ok_def)
  qed
qed

theorem log_tells_what_changed_witness:
  "case run_calls [CallMark ''u'' PartProviders] (snd (version_at ''u'' ''e'' (run_calls [] (\<lambda>_. None)))) ''u'' of
      None \<Rightarrow> False
    | Some e \<Rightarrow> state_since \<lparr>pv_epoch = ''e'', pv_revision = 0\<rparr> (ue_log e) = Some {PartProviders, PartModels}"
proof -
  let ?v = "\<lparr>pv_epoch = ''e'', pv_revision = 0\<rparr>"
  have v: "version_at ''u'' ''e'' (run_calls [] (\<lambda>_. None)) = (?v, snd (version_at ''u'' ''e'' (run_calls [] (\<lambda>_. None))))"
    by (simp add: version_at_def Let_def run_calls_def entry_of_def entry_new_def state_version_of_def state_log_new_def)
  have fresh: "pv_epoch ?v \<notin> \<Union> (call_epochs ` set [CallMark ''u'' PartProviders])" by simp
  from log_tells_what_changed [OF v fresh refl]
  show ?thesis by (simp add: marked_parts_def RECENT_CHANGES_def insert_commute split: option.splits)
qed

end
