(* ===== verification/Whole_Output.thy ===== *)
theory Whole_Output imports Replay_Facts Changes begin

text \<open>
  A command's whole output and its lines of text (\<open>crates/device-interface/src/output.rs\<close>): the
  records of the kept output, the text a reading takes of them, and its pieces read forward and
  backward. Sizes and offsets count bytes held in memory, so sums of them are natural numbers.
\<close>

section \<open>The records of an output\<close>

datatype output_record =
    RecOutput stream_kind "byte list"
  | RecLeftOut nat

record missing_output =
  mi_bytes :: nat
  mi_reason :: string

definition missing_line :: "missing_output \<Rightarrow> string" where
  "missing_line m = ''[... '' @ show_nat (mi_bytes m) @ '' bytes '' @ mi_reason m @ '' ...]''"

record whole_output =
  wo_records :: "output_record list"
  wo_missing :: "missing_output option"

text \<open>How many bytes of each stream a reader has seen; \<open>u64::MAX\<close> stands for all of an output.\<close>

record seen_output =
  so_stdout :: nat
  so_stderr :: nat

definition SEEN_ALL :: seen_output where
  "SEEN_ALL = \<lparr>so_stdout = 2 ^ 64 - 1, so_stderr = 2 ^ 64 - 1\<rparr>"

definition seen_none :: seen_output where
  "seen_none = \<lparr>so_stdout = 0, so_stderr = 0\<rparr>"

fun seen_of :: "stream_kind \<Rightarrow> seen_output \<Rightarrow> nat" where
  "seen_of Stdout s = so_stdout s"
| "seen_of Stderr s = so_stderr s"

fun seen_more :: "stream_kind \<Rightarrow> nat \<Rightarrow> seen_output \<Rightarrow> seen_output" where
  "seen_more Stdout n s = s\<lparr>so_stdout := so_stdout s + n\<rparr>"
| "seen_more Stderr n s = s\<lparr>so_stderr := so_stderr s + n\<rparr>"

fun seen_from :: "output_record list \<Rightarrow> seen_output \<Rightarrow> seen_output" where
  "seen_from [] s = s"
| "seen_from (RecOutput stream bytes # rs) s = seen_from rs (seen_more stream (length bytes) s)"
| "seen_from (RecLeftOut n # rs) s = s"

definition seen_through :: "whole_output \<Rightarrow> seen_output" where
  "seen_through w = seen_from (wo_records w) seen_none"

text \<open>The kept bytes of a stream on each side of where the kept output left bytes out.\<close>

fun stream_part_step :: "stream_kind \<Rightarrow> output_record \<Rightarrow> byte list \<times> byte list \<times> bool \<Rightarrow> byte list \<times> byte list \<times> bool" where
  "stream_part_step stream (RecOutput kind bytes) (early, late, after) =
     (if kind = stream then if after then (early, late @ bytes, after) else (early @ bytes, late, after)
      else (early, late, after))"
| "stream_part_step stream (RecLeftOut n) (early, late, after) = (early, late, True)"

definition stream_parts :: "whole_output \<Rightarrow> stream_kind \<Rightarrow> byte list \<times> byte list" where
  "stream_parts w stream =
     (case fold (stream_part_step stream) (wo_records w) ([], [], False) of (early, late, after) \<Rightarrow> (early, late))"

record binary_info =
  bi_truncated :: bool
  bi_total_bytes :: nat
  bi_limit_bytes :: nat

record binary_output =
  bo_bytes :: "byte list"
  bo_info :: binary_info

definition binary_stdout_length :: "whole_output \<Rightarrow> nat option" where
  "binary_stdout_length w =
     (let (early, late) = stream_parts w Stdout
      in if is_binary early then Some (length early + length late) else None)"

definition binary_stdout :: "whole_output \<Rightarrow> nat \<Rightarrow> nat \<Rightarrow> binary_output option" where
  "binary_stdout w size_all limit =
     (if binary_stdout_length w = None then None
      else let (early, late) = stream_parts w Stdout;
               all = (late = [] \<and> length early = size_all \<and> length early \<le> limit)
           in Some \<lparr>bo_bytes = (if all then early else []),
                    bo_info = \<lparr>bi_truncated = (\<not> all), bi_total_bytes = size_all, bi_limit_bytes = limit\<rparr>\<rparr>)"

section \<open>The text of an output\<close>

datatype streams = BothStreams | OnlyStream stream_kind

fun takes_stream :: "streams \<Rightarrow> stream_kind \<Rightarrow> bool" where
  "takes_stream BothStreams stream = True"
| "takes_stream (OnlyStream only) stream = (only = stream)"

record output_text =
  ot_first_line :: nat
  ot_bytes :: "byte list"
  ot_spans :: "(nat \<times> stream_kind) list"
  ot_gap :: "(nat \<times> nat) option"
  ot_missing :: "missing_output option"
  ot_unseen :: "nat option"

definition binary_line :: "nat \<Rightarrow> string" where
  "binary_line n = ''<binary stdout: '' @ show_nat n @ '' bytes>''"

abbreviation LF_byte :: byte where "LF_byte \<equiv> 10"

text \<open>What the loop over the records keeps: the text so far, each stream's position until bytes were
  left out, and whether the line of a binary stdout was shown.\<close>

record text_state =
  tx_bytes :: "byte list"
  tx_gap :: "(nat \<times> nat) option"
  tx_unseen :: "nat option"
  tx_positions :: "seen_output option"
  tx_spans :: "(nat \<times> stream_kind) list"
  tx_binary_shown :: bool

definition text_start :: text_state where
  "text_start = \<lparr>tx_bytes = [], tx_gap = None, tx_unseen = None, tx_positions = Some seen_none,
     tx_spans = [], tx_binary_shown = False\<rparr>"

fun or_insert :: "nat \<Rightarrow> nat option \<Rightarrow> nat option" where
  "or_insert n None = Some n"
| "or_insert n (Some m) = Some m"

definition span_at :: "nat \<Rightarrow> stream_kind \<Rightarrow> (nat \<times> stream_kind) list \<Rightarrow> (nat \<times> stream_kind) list" where
  "span_at at stream spans =
     (if spans \<noteq> [] \<and> snd (last spans) = stream then spans else spans @ [(at, stream)])"

definition text_unseen :: "seen_output \<Rightarrow> stream_kind \<Rightarrow> nat option \<Rightarrow> nat \<Rightarrow> nat \<Rightarrow> nat option \<Rightarrow> nat option" where
  "text_unseen seen stream place amount at unseen =
     (case unseen of Some u \<Rightarrow> Some u
      | None \<Rightarrow>
          (case place of
             Some p \<Rightarrow> if p + amount \<le> seen_of stream seen then None else Some (at + (seen_of stream seen - p))
           | None \<Rightarrow> Some at))"

fun text_record :: "streams \<Rightarrow> nat option \<Rightarrow> seen_output \<Rightarrow> output_record \<Rightarrow> text_state \<Rightarrow> text_state" where
  "text_record streams binary seen (RecLeftOut count) st =
     st\<lparr>tx_gap := Some (length (tx_bytes st), count), tx_positions := None,
        tx_unseen := or_insert (length (tx_bytes st)) (tx_unseen st)\<rparr>"
| "text_record streams binary seen (RecOutput stream data) st =
     (let place = map_option (seen_of stream) (tx_positions st);
          st' = st\<lparr>tx_positions := map_option (seen_more stream (length data)) (tx_positions st)\<rparr>;
          at = length (tx_bytes st)
      in if \<not> takes_stream streams stream then st'
         else if stream = Stdout \<and> binary \<noteq> None then
           (if tx_binary_shown st then st'
            else st'\<lparr>tx_binary_shown := True, tx_unseen := or_insert at (tx_unseen st),
                     tx_spans := span_at at stream (tx_spans st),
                     tx_bytes := tx_bytes st @ to_bytes (binary_line (the binary)) @ [LF_byte]\<rparr>)
         else st'\<lparr>tx_unseen := text_unseen seen stream place (length data) at (tx_unseen st),
                  tx_spans := span_at at stream (tx_spans st),
                  tx_bytes := tx_bytes st @ data\<rparr>)"

definition text_of :: "whole_output \<Rightarrow> streams \<Rightarrow> nat option \<Rightarrow> seen_output \<Rightarrow> output_text" where
  "text_of w streams binary seen =
     (let st = fold (text_record streams binary seen) (wo_records w) text_start
      in \<lparr>ot_first_line = 1, ot_bytes = tx_bytes st, ot_spans = tx_spans st, ot_gap = tx_gap st,
          ot_missing = wo_missing w,
          ot_unseen = (if wo_missing w = None then tx_unseen st
                       else or_insert (length (tx_bytes st)) (tx_unseen st))\<rparr>)"

text \<open>Text a reader has not seen, whose first line has the number given, 1 at least.\<close>

definition text_received :: "string \<Rightarrow> nat \<Rightarrow> output_text" where
  "text_received s first =
     \<lparr>ot_first_line = max first 1, ot_bytes = to_bytes s, ot_spans = [(0, Stdout)], ot_gap = None,
      ot_missing = None, ot_unseen = (if s = '''' then None else Some 0)\<rparr>"

definition gap_note :: "nat \<Rightarrow> string" where
  "gap_note n = ''[... '' @ show_nat n @ '' bytes left out ...]''"

definition text_notes :: "output_text \<Rightarrow> string list" where
  "text_notes t =
     (case ot_gap t of Some (at, n) \<Rightarrow> [gap_note n] | None \<Rightarrow> [])
     @ (case ot_missing t of Some m \<Rightarrow> [missing_line m] | None \<Rightarrow> [])"

section \<open>Its lines\<close>

definition newlines :: "byte list \<Rightarrow> nat" where
  "newlines bs = length (filter (\<lambda>b. b = LF_byte) bs)"

definition text_line_count :: "output_text \<Rightarrow> nat" where
  "text_line_count t =
     (let bs = ot_bytes t
      in if bs = [] \<or> last bs = LF_byte then newlines bs else newlines bs + 1)"

definition last_line :: "output_text \<Rightarrow> nat" where
  "last_line t = ot_first_line t + text_line_count t - 1"

definition newline_places :: "byte list \<Rightarrow> nat list" where
  "newline_places bs = filter (\<lambda>i. bs ! i = LF_byte) [0..<length bs]"

definition line_start :: "output_text \<Rightarrow> nat \<Rightarrow> nat option" where
  "line_start t index =
     (let bs = ot_bytes t
      in if index = 0 then (if bs = [] then None else Some 0)
         else (case get_at (newline_places bs) (index - 1) of
                 Some p \<Rightarrow> if p + 1 < length bs then Some (p + 1) else None
               | None \<Rightarrow> None))"

definition line_offset :: "output_text \<Rightarrow> nat \<Rightarrow> nat" where
  "line_offset t number =
     (case line_start t (number - ot_first_line t) of Some at \<Rightarrow> at | None \<Rightarrow> length (ot_bytes t))"

definition line_of :: "output_text \<Rightarrow> nat \<Rightarrow> nat" where
  "line_of t at = ot_first_line t + newlines (take at (ot_bytes t))"

definition is_line_start :: "output_text \<Rightarrow> nat \<Rightarrow> bool" where
  "is_line_start t at = (at = 0 \<or> get_at (ot_bytes t) (at - 1) = Some LF_byte)"

definition after_newline :: "byte list \<Rightarrow> nat" where
  "after_newline bs = (case rposition (\<lambda>b. b = LF_byte) bs of Some p \<Rightarrow> p + 1 | None \<Rightarrow> 0)"

definition column :: "output_text \<Rightarrow> nat \<Rightarrow> nat" where
  "column t at =
     (let upto = take at (ot_bytes t)
      in length (chars (from_utf8_lossy (drop (after_newline upto) upto))))"

definition unseen_line :: "output_text \<Rightarrow> nat option" where
  "unseen_line t =
     (case ot_unseen t of
        None \<Rightarrow> None
      | Some at \<Rightarrow> if at = length (ot_bytes t) then Some (last_line t + 1) else Some (line_of t at))"

section \<open>Runs of one stream\<close>

definition push_chunk :: "stream_kind \<Rightarrow> byte list \<Rightarrow> output_chunk list \<Rightarrow> output_chunk list" where
  "push_chunk stream bytes chunks =
     (if bytes = [] then chunks else chunks @ [\<lparr>ch_stream = stream, ch_text = from_utf8_lossy bytes\<rparr>])"

definition ends_line :: "string \<Rightarrow> bool" where
  "ends_line s = (s \<noteq> '''' \<and> last s = CHR 0x0A)"

definition push_note :: "string \<Rightarrow> output_chunk list \<Rightarrow> output_chunk list" where
  "push_note line chunks =
     chunks @ [\<lparr>ch_stream = Stderr,
                ch_text = (if chunks = [] \<or> ends_line (ch_text (last chunks)) then '''' else [CHR 0x0A])
                  @ line @ [CHR 0x0A]\<rparr>]"

definition bytes_between :: "nat \<Rightarrow> nat \<Rightarrow> byte list \<Rightarrow> byte list" where
  "bytes_between a b bs = take (b - a) (drop a bs)"

fun span_chunks :: "byte list \<Rightarrow> nat \<Rightarrow> (nat \<times> stream_kind) list \<Rightarrow> (nat \<times> nat) option \<Rightarrow> output_chunk list
    \<Rightarrow> (nat \<times> nat) option \<times> output_chunk list" where
  "span_chunks bs start [] gap chunks = (gap, chunks)"
| "span_chunks bs start ((begin_at, stream) # spans) gap chunks =
     (let upto = (case spans of [] \<Rightarrow> length bs | (n, s) # rest \<Rightarrow> n);
          at = max begin_at start
      in if upto \<le> at then span_chunks bs start spans gap chunks
         else (case gap of
             Some (left_at, count) \<Rightarrow>
               if at \<le> left_at \<and> left_at < upto then
                 span_chunks bs start spans None
                   (push_chunk stream (bytes_between left_at upto bs)
                      (push_note (gap_note count) (push_chunk stream (bytes_between at left_at bs) chunks)))
               else span_chunks bs start spans gap (push_chunk stream (bytes_between at upto bs) chunks)
           | None \<Rightarrow> span_chunks bs start spans gap (push_chunk stream (bytes_between at upto bs) chunks)))"

definition text_chunks :: "output_text \<Rightarrow> nat \<Rightarrow> output_chunk list" where
  "text_chunks t start =
     (let gap = (case ot_gap t of Some (at, n) \<Rightarrow> if start \<le> at then Some (at, n) else None | None \<Rightarrow> None);
          (gap', chunks) = span_chunks (ot_bytes t) start (ot_spans t) gap [];
          noted = (case gap' of Some (at, n) \<Rightarrow> push_note (gap_note n) chunks | None \<Rightarrow> chunks)
      in (case ot_missing t of Some m \<Rightarrow> push_note (missing_line m) noted | None \<Rightarrow> noted))"

section \<open>Its pieces, from a line on\<close>

datatype piece =
    PieceLine nat nat "byte list"
  | PieceNote string

fun piece_text :: "piece \<Rightarrow> string" where
  "piece_text (PieceLine number at bytes) = from_utf8_lossy bytes"
| "piece_text (PieceNote line) = line"

fun piece_number :: "piece \<Rightarrow> nat option" where
  "piece_number (PieceLine number at bytes) = Some number"
| "piece_number (PieceNote line) = None"

record forward_reader =
  fr_offset :: nat
  fr_number :: nat
  fr_gap :: "(nat \<times> nat) option"
  fr_missing :: bool

definition forward_start :: "output_text \<Rightarrow> nat \<Rightarrow> forward_reader" where
  "forward_start t start =
     (let number = max start (ot_first_line t); at = line_start t (number - ot_first_line t)
      in \<lparr>fr_offset = (case at of Some a \<Rightarrow> a | None \<Rightarrow> length (ot_bytes t)), fr_number = number,
          fr_gap = (case ot_gap t of
             Some (g, n) \<Rightarrow> (case at of Some a \<Rightarrow> if a \<le> g then Some (g, n) else None | None \<Rightarrow> None)
           | None \<Rightarrow> None),
          fr_missing = (ot_missing t \<noteq> None)\<rparr>)"

definition line_end :: "byte list \<Rightarrow> nat \<Rightarrow> nat" where
  "line_end bs at =
     (case position (\<lambda>b. b = LF_byte) (drop at bs) of Some p \<Rightarrow> at + p | None \<Rightarrow> length bs)"

definition forward_line :: "byte list \<Rightarrow> forward_reader \<Rightarrow> piece \<times> forward_reader" where
  "forward_line bs f =
     (let end_at = line_end bs (fr_offset f); at = fr_offset f; number = fr_number f;
          rest = f\<lparr>fr_offset := min (end_at + 1) (length bs),
                   fr_number := (if end_at < length bs then number + 1 else number)\<rparr>
      in (case fr_gap f of
            Some (g, n) \<Rightarrow>
              if at < g \<and> g \<le> end_at then (PieceLine number at (bytes_between at g bs), f\<lparr>fr_offset := g\<rparr>)
              else (PieceLine number at (bytes_between at end_at bs), rest)
          | None \<Rightarrow> (PieceLine number at (bytes_between at end_at bs), rest)))"

definition forward_next :: "output_text \<Rightarrow> forward_reader \<Rightarrow> (piece \<times> forward_reader) option" where
  "forward_next t f =
     (let gap_here = (case fr_gap f of Some (g, n) \<Rightarrow> g = fr_offset f | None \<Rightarrow> False)
      in if gap_here then Some (PieceNote (gap_note (snd (the (fr_gap f)))), f\<lparr>fr_gap := None\<rparr>)
         else if fr_offset f < length (ot_bytes t) then Some (forward_line (ot_bytes t) f)
         else if fr_missing f then
           map_option (\<lambda>m. (PieceNote (missing_line m), f\<lparr>fr_missing := False\<rparr>)) (ot_missing t)
         else None)"

lemma line_end_bounds: "at \<le> length bs \<Longrightarrow> at \<le> line_end bs at \<and> line_end bs at \<le> length bs"
  by (auto simp: line_end_def position_Some split: option.split)

definition forward_measure :: "output_text \<times> forward_reader \<Rightarrow> nat" where
  "forward_measure p =
     (case p of (t, f) \<Rightarrow> (length (ot_bytes t) - fr_offset f) + (if fr_gap f = None then 0 else 1)
        + (if fr_missing f then 1 else 0))"

lemma forward_line_less:
  assumes "fr_offset f < length (ot_bytes t)"
  shows "forward_measure (t, snd (forward_line (ot_bytes t) f)) < forward_measure (t, f)"
proof -
  have "fr_offset f \<le> line_end (ot_bytes t) (fr_offset f)" "line_end (ot_bytes t) (fr_offset f) \<le> length (ot_bytes t)"
    using line_end_bounds assms less_imp_le by blast+
  with assms show ?thesis
    by (cases "fr_gap f") (auto simp: forward_line_def forward_measure_def Let_def min_def)
qed

lemma forward_next_less:
  assumes "forward_next t f = Some (p, f')"
  shows "forward_measure (t, f') < forward_measure (t, f)"
proof -
  consider (gap) "f' = f\<lparr>fr_gap := None\<rparr>" "fr_gap f \<noteq> None"
    | (line) "fr_offset f < length (ot_bytes t)" "f' = snd (forward_line (ot_bytes t) f)"
    | (missing) "f' = f\<lparr>fr_missing := False\<rparr>" "fr_missing f"
    using assms by (cases "fr_gap f") (auto simp: forward_next_def Let_def split: if_splits)
  then show ?thesis
  proof cases
    case line
    show ?thesis unfolding line(2) by (rule forward_line_less) (rule line(1))
  qed (simp_all add: forward_measure_def)
qed

function forward_pieces :: "output_text \<Rightarrow> forward_reader \<Rightarrow> piece list" where
  "forward_pieces t f = (case forward_next t f of None \<Rightarrow> [] | Some (p, f') \<Rightarrow> p # forward_pieces t f')"
  by pat_completeness auto
termination
  by (relation "measure forward_measure") (auto intro: forward_next_less)

declare forward_pieces.simps [simp del]

definition forward_text :: "output_text \<Rightarrow> nat \<Rightarrow> piece list" where
  "forward_text t start = forward_pieces t (forward_start t start)"

definition display :: "output_text \<Rightarrow> string" where
  "display t = concat (map (\<lambda>p. piece_text p @ [CHR 0x0A]) (forward_text t (ot_first_line t)))"

section \<open>Its pieces, from the last back\<close>

record backward_reader =
  br_end :: nat
  br_line_start :: bool
  br_number :: nat
  br_gap :: "(nat \<times> nat) option"
  br_missing :: bool
  br_done :: bool

definition backward_start :: "output_text \<Rightarrow> backward_reader" where
  "backward_start t =
     (let bs = ot_bytes t; newline = (bs \<noteq> [] \<and> last bs = LF_byte)
      in \<lparr>br_end = length bs, br_line_start = newline,
          br_number = last_line t + (if newline then 1 else 0), br_gap = ot_gap t,
          br_missing = (ot_missing t \<noteq> None), br_done = (bs = [])\<rparr>)"

definition backward_line :: "byte list \<Rightarrow> backward_reader \<Rightarrow> piece \<times> backward_reader" where
  "backward_line bs b =
     (let start = after_newline (take (br_end b) bs);
          piece_from = (\<lambda>at. PieceLine (br_number b) at (bytes_between at (br_end b) bs))
      in (case br_gap b of
            Some (g, n) \<Rightarrow>
              if start < g \<and> g < br_end b then (piece_from g, b\<lparr>br_end := g\<rparr>)
              else (piece_from start, b\<lparr>br_end := start, br_line_start := True\<rparr>)
          | None \<Rightarrow> (piece_from start, b\<lparr>br_end := start, br_line_start := True\<rparr>)))"

definition backward_next :: "output_text \<Rightarrow> backward_reader \<Rightarrow> (piece \<times> backward_reader) option" where
  "backward_next t b0 =
     (if br_missing b0 \<and> ot_missing t \<noteq> None
      then Some (PieceNote (missing_line (the (ot_missing t))), b0\<lparr>br_missing := False\<rparr>)
      else
        (let b = b0\<lparr>br_missing := False\<rparr>;
             gap_here = (case br_gap b of Some (g, n) \<Rightarrow> g = br_end b | None \<Rightarrow> False)
         in if gap_here then Some (PieceNote (gap_note (snd (the (br_gap b)))), b\<lparr>br_gap := None\<rparr>)
            else if br_done b then None
            else if br_line_start b then
              (if br_end b = 0 then None
               else Some (backward_line (ot_bytes t)
                      (b\<lparr>br_end := br_end b - 1, br_number := br_number b - 1, br_line_start := False\<rparr>)))
            else Some (backward_line (ot_bytes t) b)))"

definition backward_measure :: "output_text \<times> backward_reader \<Rightarrow> nat" where
  "backward_measure p =
     (case p of (t, b) \<Rightarrow> 2 * br_end b + (if br_line_start b then 0 else 1) + (if br_gap b = None then 0 else 1)
        + (if br_missing b then 1 else 0))"

lemma after_newline_le: "after_newline bs \<le> length bs"
  using rposition_less [of _ bs] by (auto simp: after_newline_def Suc_leI split: option.split)

lemma backward_line_less:
  assumes "br_line_start b = False"
  shows "backward_measure (t, snd (backward_line bs b)) < backward_measure (t, b)"
proof -
  have "after_newline (take (br_end b) bs) \<le> br_end b"
    using after_newline_le [of "take (br_end b) bs"] by simp
  with assms show ?thesis
    by (cases "br_gap b") (auto simp: backward_line_def backward_measure_def Let_def)
qed

lemma backward_next_less:
  assumes "backward_next t b = Some (p, b')"
  shows "backward_measure (t, b') < backward_measure (t, b)"
proof -
  let ?b = "b\<lparr>br_missing := False\<rparr>"
  let ?c = "?b\<lparr>br_end := br_end b - 1, br_number := br_number b - 1, br_line_start := False\<rparr>"
  consider (missing) "b' = ?b" "br_missing b"
    | (gap) "b' = ?b\<lparr>br_gap := None\<rparr>" "br_gap b \<noteq> None"
    | (newline) "b' = snd (backward_line (ot_bytes t) ?c)" "br_line_start b" "0 < br_end b"
    | (line) "b' = snd (backward_line (ot_bytes t) ?b)" "\<not> br_line_start b"
    using assms by (cases "br_gap b") (auto simp: backward_next_def Let_def split: if_splits)
  then show ?thesis
  proof cases
    case newline
    have "backward_measure (t, b') < backward_measure (t, ?c)"
      unfolding newline(1) by (rule backward_line_less) simp
    also have "backward_measure (t, ?c) < backward_measure (t, b)"
      using newline(2,3) by (simp add: backward_measure_def)
    finally show ?thesis .
  next
    case line
    have "backward_measure (t, b') < backward_measure (t, ?b)"
      unfolding line(1) by (rule backward_line_less) (simp add: line(2))
    then show ?thesis by (simp add: backward_measure_def)
  qed (auto simp: backward_measure_def)
qed

function backward_pieces :: "output_text \<Rightarrow> backward_reader \<Rightarrow> piece list" where
  "backward_pieces t b = (case backward_next t b of None \<Rightarrow> [] | Some (p, b') \<Rightarrow> p # backward_pieces t b')"
  by pat_completeness auto
termination
  by (relation "measure backward_measure") (auto intro: backward_next_less)

declare backward_pieces.simps [simp del]

definition backward_text :: "output_text \<Rightarrow> piece list" where
  "backward_text t = backward_pieces t (backward_start t)"

end
