(* ===== verification/Output_Facts.thy ===== *)
theory Output_Facts imports Whole_Output begin

text \<open>
  The pieces of an output's text as one recursion over its bytes, which reading forward computes, and
  which reading backward computes from the end.
\<close>

section \<open>The pieces of bytes\<close>

definition line_length :: "byte list \<Rightarrow> nat" where
  "line_length bs = (case position (\<lambda>b. b = LF_byte) bs of Some p \<Rightarrow> p | None \<Rightarrow> length bs)"

lemma line_length_le: "line_length bs \<le> length bs"
  by (auto simp: line_length_def position_Some split: option.split)

lemma line_length_append_line: "LF_byte \<notin> set l \<Longrightarrow> line_length (l @ LF_byte # ys) = length l"
  by (induction l) (auto simp: line_length_def split: option.splits)

lemma line_length_whole: "LF_byte \<notin> set l \<Longrightarrow> line_length l = length l"
  by (induction l) (auto simp: line_length_def split: option.splits)

definition gap_within :: "nat \<Rightarrow> nat \<Rightarrow> (nat \<times> nat) option \<Rightarrow> bool" where
  "gap_within a b gap = (case gap of Some (g, k) \<Rightarrow> a < g \<and> g \<le> b | None \<Rightarrow> False)"

definition gap_here :: "nat \<Rightarrow> (nat \<times> nat) option \<Rightarrow> bool" where
  "gap_here a gap = (case gap of Some (g, k) \<Rightarrow> g = a | None \<Rightarrow> False)"

lemma gap_within_simps [simp]:
  "gap_within a b None = False" "gap_within a b (Some (g, k)) = (a < g \<and> g \<le> b)"
  by (simp_all add: gap_within_def)

lemma gap_here_simps [simp]: "gap_here a None = False" "gap_here a (Some (g, k)) = (g = a)"
  by (simp_all add: gap_here_def)

function text_pieces :: "nat \<Rightarrow> nat \<Rightarrow> byte list \<Rightarrow> (nat \<times> nat) option \<Rightarrow> piece list" where
  "text_pieces n at bs gap =
     (if gap_here at gap then PieceNote (gap_note (snd (the gap))) # text_pieces n at bs None
      else if bs = [] then []
      else if gap_within at (at + line_length bs) gap
        then PieceLine n at (take (fst (the gap) - at) bs)
             # text_pieces n (fst (the gap)) (drop (fst (the gap) - at) bs) gap
      else PieceLine n at (take (line_length bs) bs)
           # text_pieces (if line_length bs < length bs then n + 1 else n) (at + line_length bs + 1)
               (drop (line_length bs + 1) bs) gap)"
  by pat_completeness auto
termination
  by (relation "measure (\<lambda>(n, at, bs, gap). 2 * length bs + (if gap = None then 0 else 1))")
    (auto simp: gap_within_def gap_here_def neq_Nil_conv split: option.splits)

declare text_pieces.simps [simp del]

lemma text_pieces_Nil: "text_pieces n at [] gap = (if gap_here at gap then [PieceNote (gap_note (snd (the gap)))] else [])"
  by (simp add: text_pieces.simps)

lemma text_pieces_here: "text_pieces n at bs (Some (at, k)) = PieceNote (gap_note k) # text_pieces n at bs None"
  by (subst text_pieces.simps) simp

lemma text_pieces_split:
  assumes "at < g" "g \<le> at + line_length bs" "bs \<noteq> []"
  shows "text_pieces n at bs (Some (g, k)) =
    PieceLine n at (take (g - at) bs) # PieceNote (gap_note k) # text_pieces n g (drop (g - at) bs) None"
  using assms by (subst text_pieces.simps) (simp add: text_pieces_here)

lemma text_pieces_line:
  assumes "bs \<noteq> []" "\<not> gap_here at gap" "\<not> gap_within at (at + line_length bs) gap"
  shows "text_pieces n at bs gap = PieceLine n at (take (line_length bs) bs)
    # text_pieces (if line_length bs < length bs then n + 1 else n) (at + line_length bs + 1)
        (drop (line_length bs + 1) bs) gap"
  using assms by (subst text_pieces.simps) simp

section \<open>Reading forward\<close>

lemma line_end_length: "at \<le> length bs \<Longrightarrow> line_end bs at = at + line_length (drop at bs)"
  by (auto simp: line_end_def line_length_def split: option.split)

definition missing_piece :: "output_text \<Rightarrow> bool \<Rightarrow> piece list" where
  "missing_piece t missing =
     (case ot_missing t of Some m \<Rightarrow> if missing then [PieceNote (missing_line m)] else [] | None \<Rightarrow> [])"

lemma no_missing_piece [simp]: "missing_piece t False = []"
  by (simp add: missing_piece_def split: option.split)

lemma forward_pieces_from:
  assumes "fr_offset f \<le> length (ot_bytes t)"
    and "\<And>g k. fr_gap f = Some (g, k) \<Longrightarrow> fr_offset f \<le> g \<and> g \<le> length (ot_bytes t)"
  shows "forward_pieces t f =
    text_pieces (fr_number f) (fr_offset f) (drop (fr_offset f) (ot_bytes t)) (fr_gap f) @ missing_piece t (fr_missing f)"
  using assms
proof (induction t f rule: forward_pieces.induct)
  case (1 t f)
  let ?bs = "ot_bytes t" and ?at = "fr_offset f"
  have ende: "line_end ?bs ?at = ?at + line_length (drop ?at ?bs)" by (rule line_end_length) (rule 1(2))
  have lenle: "line_length (drop ?at ?bs) \<le> length ?bs - ?at"
    using line_length_le [of "drop ?at ?bs"] by simp
  consider (here) k where "fr_gap f = Some (?at, k)"
    | (split) g k where "fr_gap f = Some (g, k)" "?at < g" "g \<le> line_end ?bs ?at" "?at < length ?bs"
    | (line) "\<not> gap_here ?at (fr_gap f)" "\<not> gap_within ?at (line_end ?bs ?at) (fr_gap f)" "?at < length ?bs"
    | (ended) "\<not> gap_here ?at (fr_gap f)" "?at = length ?bs"
    using 1(2) by (cases "fr_gap f") (force simp: not_less)+
  then show ?case
  proof cases
    case here
    let ?f = "f\<lparr>fr_gap := None\<rparr>"
    have step: "forward_next t f = Some (PieceNote (gap_note k), ?f)" by (simp add: forward_next_def here)
    have "forward_pieces t f = PieceNote (gap_note k) # forward_pieces t ?f"
      by (subst forward_pieces.simps) (simp add: step)
    also have "forward_pieces t ?f = text_pieces (fr_number f) ?at (drop ?at ?bs) None @ missing_piece t (fr_missing f)"
      using 1(1) [OF step refl] 1(2) by simp
    finally show ?thesis by (simp add: here text_pieces_here)
  next
    case split
    let ?f = "f\<lparr>fr_offset := g\<rparr>" and ?p = "PieceLine (fr_number f) ?at (bytes_between ?at g ?bs)"
    have step: "forward_next t f = Some (?p, ?f)" using split by (simp add: forward_next_def forward_line_def Let_def)
    have g: "g \<le> length ?bs" using 1(3) split(1) by blast
    have "forward_pieces t f = ?p # forward_pieces t ?f" by (subst forward_pieces.simps) (simp add: step)
    also have "forward_pieces t ?f = text_pieces (fr_number f) g (drop g ?bs) (Some (g, k)) @ missing_piece t (fr_missing f)"
      using 1(1) [OF step refl] g split(1) by simp
    finally show ?thesis
      using split ende by (simp add: text_pieces_split text_pieces_here bytes_between_def drop_drop)
  next
    case line
    let ?e = "line_end ?bs ?at"
    let ?f = "f\<lparr>fr_offset := min (?e + 1) (length ?bs), fr_number := (if ?e < length ?bs then fr_number f + 1 else fr_number f)\<rparr>"
    let ?p = "PieceLine (fr_number f) ?at (bytes_between ?at ?e ?bs)"
    have step: "forward_next t f = Some (?p, ?f)"
      using line by (auto simp: forward_next_def forward_line_def Let_def gap_here_def gap_within_def split: option.splits)
    have gap: "min (?e + 1) (length ?bs) \<le> g \<and> g \<le> length ?bs" if "fr_gap f = Some (g, k)" for g k
      using 1(3) [OF that] line(1,2) that by (auto simp: min_def)
    have "forward_pieces t f = ?p # forward_pieces t ?f" by (subst forward_pieces.simps) (simp add: step)
    also have "forward_pieces t ?f = text_pieces (fr_number ?f) (fr_offset ?f) (drop (fr_offset ?f) ?bs) (fr_gap f)
        @ missing_piece t (fr_missing f)"
      using 1(1) [OF step refl] gap by simp
    finally have eq: "forward_pieces t f = ?p # text_pieces (fr_number ?f) (fr_offset ?f) (drop (fr_offset ?f) ?bs) (fr_gap f)
        @ missing_piece t (fr_missing f)" .
    have "text_pieces (fr_number ?f) (fr_offset ?f) (drop (fr_offset ?f) ?bs) (fr_gap f) =
        text_pieces (if line_length (drop ?at ?bs) < length (drop ?at ?bs) then fr_number f + 1 else fr_number f)
          (?at + line_length (drop ?at ?bs) + 1) (drop (line_length (drop ?at ?bs) + 1) (drop ?at ?bs)) (fr_gap f)"
    proof (cases "?e < length ?bs")
      case True
      then have "line_length (drop ?at ?bs) < length ?bs - ?at" using ende by linarith
      with True show ?thesis using ende by (simp add: add.commute add.left_commute)
    next
      case False
      then have e: "?e = length ?bs" using ende lenle 1(2) by linarith
      have "\<not> gap_here (length ?bs) (fr_gap f)" "\<not> gap_here (Suc (length ?bs)) (fr_gap f)"
        using line(2,3) 1(3) e by (auto simp: gap_here_def split: option.splits)
      with e ende lenle show ?thesis by (simp add: text_pieces_Nil)
    qed
    then show ?thesis
      unfolding eq using line ende text_pieces_line [of "drop ?at ?bs" ?at "fr_gap f" "fr_number f"]
      by (simp add: bytes_between_def)
  next
    case ended
    show ?thesis
    proof (cases "fr_missing f \<and> ot_missing t \<noteq> None")
      case True
      let ?f = "f\<lparr>fr_missing := False\<rparr>"
      from True obtain m where m: "ot_missing t = Some m" by auto
      have step: "forward_next t f = Some (PieceNote (missing_line m), ?f)"
        using ended True m by (auto simp: forward_next_def gap_here_def split: option.splits)
      have "forward_pieces t f = PieceNote (missing_line m) # forward_pieces t ?f"
        by (subst forward_pieces.simps) (simp add: step)
      also have "forward_pieces t ?f = text_pieces (fr_number f) ?at (drop ?at ?bs) (fr_gap f) @ missing_piece t False"
        using 1(1) [OF step refl] 1(2,3) by simp
      finally show ?thesis using True m ended by (simp add: missing_piece_def text_pieces_Nil)
    next
      case False
      then have "forward_next t f = None"
        using ended by (auto simp: forward_next_def gap_here_def split: option.splits)
      with False ended show ?thesis
        by (subst forward_pieces.simps) (auto simp: missing_piece_def text_pieces_Nil split: option.splits)
    qed
  qed
qed

section \<open>Pieces of bytes cut where a line starts\<close>

definition gap_below :: "nat \<Rightarrow> (nat \<times> nat) option \<Rightarrow> (nat \<times> nat) option" where
  "gap_below m gap = (case gap of Some (g, k) \<Rightarrow> if g < m then gap else None | None \<Rightarrow> None)"

definition gap_above :: "nat \<Rightarrow> (nat \<times> nat) option \<Rightarrow> (nat \<times> nat) option" where
  "gap_above m gap = (case gap of Some (g, k) \<Rightarrow> if g < m then None else gap | None \<Rightarrow> None)"

lemma gap_cut_simps [simp]:
  "gap_below m None = None" "gap_above m None = None"
  "g < m \<Longrightarrow> gap_below m (Some (g, k)) = Some (g, k)" "m \<le> g \<Longrightarrow> gap_below m (Some (g, k)) = None"
  "g < m \<Longrightarrow> gap_above m (Some (g, k)) = None" "m \<le> g \<Longrightarrow> gap_above m (Some (g, k)) = Some (g, k)"
  by (simp_all add: gap_below_def gap_above_def)

definition ends_at_line :: "byte list \<Rightarrow> bool" where
  "ends_at_line xs = (xs = [] \<or> last xs = LF_byte)"

lemma newlines_simps [simp]:
  "newlines [] = 0" "newlines (b # bs) = (if b = LF_byte then 1 else 0) + newlines bs"
  "newlines (xs @ ys) = newlines xs + newlines ys"
  by (simp_all add: newlines_def)

lemma newlines_none: "LF_byte \<notin> set l \<Longrightarrow> newlines l = 0"
  by (induction l) auto

lemma first_line_of:
  assumes "ends_at_line xs" "xs \<noteq> []"
  obtains l zs where "xs = l @ LF_byte # zs" "LF_byte \<notin> set l" "ends_at_line zs"
proof -
  from assms have "LF_byte \<in> set xs" by (metis ends_at_line_def last_in_set)
  then obtain l zs where "xs = l @ LF_byte # zs" "LF_byte \<notin> set l" by (meson split_list_first)
  with assms that show thesis by (auto simp: ends_at_line_def split: if_splits)
qed

lemma text_pieces_append:
  assumes "ends_at_line xs" "\<And>g k. gap = Some (g, k) \<Longrightarrow> at \<le> g"
  shows "text_pieces n at (xs @ ys) gap =
    text_pieces n at xs (gap_below (at + length xs) gap)
    @ text_pieces (n + newlines xs) (at + length xs) ys (gap_above (at + length xs) gap)"
  using assms
proof (induction n at xs gap rule: text_pieces.induct)
  case (1 n at xs gap)
  show ?case
  proof (cases "xs = []")
    case True
    with 1(5) show ?thesis by (cases gap) (auto simp: text_pieces_Nil gap_below_def gap_above_def)
  next
    case False
    then obtain l zs where xs: "xs = l @ LF_byte # zs" and l: "LF_byte \<notin> set l" and zs: "ends_at_line zs"
      using first_line_of [OF 1(4)] by metis
    have len: "line_length xs = length l" "line_length (xs @ ys) = length l"
      using xs l by (simp_all add: line_length_append_line)
    consider (here) k where "gap = Some (at, k)"
      | (split) g k where "gap = Some (g, k)" "at < g" "g \<le> at + length l"
      | (line) "\<not> gap_here at gap" "\<not> gap_within at (at + length l) gap"
      by (metis gap_here_def gap_within_def gap_here_simps gap_within_simps option.exhaust prod.exhaust)
    then show ?thesis
    proof cases
      case here
      have "text_pieces n at (xs @ ys) None = text_pieces n at xs None @ text_pieces (n + newlines xs) (at + length xs) ys None"
        using 1(1) [of] here 1(4) by simp
      then show ?thesis using here False by (simp add: text_pieces_here)
    next
      case split
      have ends: "ends_at_line (drop (g - at) xs)"
        using split zs xs by (auto simp: ends_at_line_def)
      have "text_pieces n g (drop (g - at) xs @ ys) gap = text_pieces n g (drop (g - at) xs) (gap_below (g + length (drop (g - at) xs)) gap)
          @ text_pieces (n + newlines (drop (g - at) xs)) (g + length (drop (g - at) xs)) ys (gap_above (g + length (drop (g - at) xs)) gap)"
        using 1(2) split False len ends by simp
      moreover have "g + length (drop (g - at) xs) = at + length xs" "g < at + length xs"
        using split xs by simp_all
      moreover have "newlines (drop (g - at) xs) = newlines xs"
      proof -
        have "newlines (take (g - at) xs) = 0"
          using split xs l by (intro newlines_none) (auto dest: in_set_takeD)
        then show ?thesis by (metis add_0 append_take_drop_id newlines_simps(3))
      qed
      moreover have "g - at - length xs = 0" using split xs by simp
      ultimately show ?thesis
        using split False len by (simp add: text_pieces_split text_pieces_here add.commute [of at])
    next
      case line
      have gap': "at + length l + 1 \<le> g" if "gap = Some (g, k)" for g k
        using line that 1(5) [OF that] by auto
      have ih: "text_pieces (n + 1) (at + length l + 1) (zs @ ys) gap =
          text_pieces (n + 1) (at + length l + 1) zs (gap_below (at + length l + 1 + length zs) gap)
          @ text_pieces (n + 1 + newlines zs) (at + length l + 1 + length zs) ys (gap_above (at + length l + 1 + length zs) gap)"
        using 1(3) False line len xs zs gap' by simp
      have below: "\<not> gap_here at (gap_below m gap)" "\<not> gap_within at (at + length l) (gap_below m gap)" for m
        using line by (auto simp: gap_below_def split: option.splits)
      have lhs: "text_pieces n at (xs @ ys) gap = PieceLine n at l # text_pieces (n + 1) (at + length l + 1) (zs @ ys) gap"
        using text_pieces_line [of "xs @ ys" at gap n] line len xs by simp
      have rhs: "text_pieces n at xs (gap_below (at + length xs) gap) =
          PieceLine n at l # text_pieces (n + 1) (at + length l + 1) zs (gap_below (at + length xs) gap)"
        using text_pieces_line [of xs at "gap_below (at + length xs) gap" n] below len xs False by simp
      show ?thesis unfolding lhs rhs ih using xs l by (simp add: newlines_none add.assoc)
    qed
  qed
qed

lemma last_line_at:
  obtains "take (after_newline xs) xs @ drop (after_newline xs) xs = xs" "ends_at_line (take (after_newline xs) xs)"
    "LF_byte \<notin> set (drop (after_newline xs) xs)" "after_newline xs \<le> length xs"
proof (cases "rposition (\<lambda>b. b = LF_byte) xs")
  case None
  then have "LF_byte \<notin> set xs" by (auto simp: rposition_None)
  with None that show thesis by (simp add: after_newline_def ends_at_line_def)
next
  case (Some p)
  then have p: "p < length xs" "xs ! p = LF_byte" "\<forall>j. p < j \<longrightarrow> j < length xs \<longrightarrow> xs ! j \<noteq> LF_byte"
    by (auto simp: rposition_Some)
  have "LF_byte \<notin> set (drop (Suc p) xs)"
    using p(3) by (auto simp: in_set_conv_nth)
  moreover have "ends_at_line (take (Suc p) xs)"
    using p(1,2) by (simp add: ends_at_line_def take_Suc_conv_app_nth)
  ultimately show thesis using that Some p(1) by (simp add: after_newline_def)
qed


section \<open>Reading backward\<close>

text \<open>
  The note of a gap that lies at a newline which does not start its line: reading backward passes
  over the newline, and over the gap with it.
\<close>

definition gap_at_newline :: "byte list \<Rightarrow> (nat \<times> nat) option \<Rightarrow> bool" where
  "gap_at_newline bs gap =
     (case gap of Some (g, k) \<Rightarrow> 0 < g \<and> g < length bs \<and> bs ! g = LF_byte \<and> bs ! (g - 1) \<noteq> LF_byte | None \<Rightarrow> False)"

definition backward_rest :: "output_text \<Rightarrow> backward_reader \<Rightarrow> piece list" where
  "backward_rest t b = text_pieces (ot_first_line t) 0 (take (br_end b) (ot_bytes t)) (br_gap b)
     @ missing_piece t (br_missing b)"

definition backward_inv :: "output_text \<Rightarrow> backward_reader \<Rightarrow> bool" where
  "backward_inv t b =
     (br_end b \<le> length (ot_bytes t) \<and> br_done b = (ot_bytes t = [])
      \<and> (\<forall>g k. br_gap b = Some (g, k) \<longrightarrow> g \<le> br_end b \<and> \<not> gap_at_newline (ot_bytes t) (Some (g, k)))
      \<and> br_line_start b = (ends_at_line (take (br_end b) (ot_bytes t)) \<and> ot_bytes t \<noteq> [])
      \<and> (ot_bytes t \<noteq> [] \<longrightarrow> br_number b = ot_first_line t + newlines (take (br_end b) (ot_bytes t))))"

text \<open>The last line of bytes, whether a newline ends it, and the piece reading backward gives of it.\<close>

lemma text_pieces_last_line:
  assumes "LF_byte \<notin> set l" "tail = [LF_byte] \<or> (tail = [] \<and> l \<noteq> [])"
    and "\<And>g k. gap = Some (g, k) \<Longrightarrow> at \<le> g \<and> (g = at + length l \<longrightarrow> g = at) \<and> g < at + length l + length tail"
  shows "text_pieces n at (l @ tail) gap =
    (case gap of
       Some (g, k) \<Rightarrow> if at < g then [PieceLine n at (take (g - at) l), PieceNote (gap_note k), PieceLine n g (drop (g - at) l)]
         else [PieceNote (gap_note k), PieceLine n at l]
     | None \<Rightarrow> [PieceLine n at l])"
proof -
  have len: "line_length (l @ tail) = length l"
    using assms(1,2) by (auto simp: line_length_append_line line_length_whole)
  have whole: "text_pieces n at (l @ tail) None = [PieceLine n at l]"
    using text_pieces_line [of "l @ tail" at None n] len assms(2) by (auto simp: text_pieces_Nil)
  show ?thesis
  proof (cases gap)
    case None
    then show ?thesis by (simp add: whole)
  next
    case (Some p)
    obtain g k where gap: "gap = Some (g, k)" using Some by (cases p) auto
    note bounds = assms(3) [OF gap]
    show ?thesis
    proof (cases "at < g")
      case True
      then have g: "g < at + length l" using bounds assms(2) by auto
      have rest: "text_pieces n g (drop (g - at) l @ tail) None = [PieceLine n g (drop (g - at) l)]"
      proof -
        have "LF_byte \<notin> set (drop (g - at) l)" using assms(1) by (auto dest: in_set_dropD)
        then have "line_length (drop (g - at) l @ tail) = length (drop (g - at) l)"
          using assms(2) by (auto simp: line_length_append_line line_length_whole)
        then show ?thesis
          using text_pieces_line [of "drop (g - at) l @ tail" g None n] g True assms(2) by (auto simp: text_pieces_Nil)
      qed
      have "l @ tail \<noteq> []" "g \<le> at + line_length (l @ tail)" using g True len by auto
      from text_pieces_split [OF True this(2,1)] show ?thesis
        using True g rest by (simp add: gap)
    next
      case False
      then have "g = at" using bounds by simp
      then show ?thesis using gap by (simp add: text_pieces_here whole)
    qed
  qed
qed


lemma backward_line_pieces:
  fixes bs b
  defines "e \<equiv> br_end b" and "s \<equiv> after_newline (take (br_end b) bs)"
  assumes e: "e \<le> length bs" and tail: "tail = [] \<and> s < e \<or> tail = [LF_byte]"
    and gaps: "\<forall>g k. br_gap b = Some (g, k) \<longrightarrow> g < e + length tail \<and> (g = e \<longrightarrow> g = s)"
    and number: "br_number b = first + newlines (take e bs)"
  shows "text_pieces first 0 (take e bs @ tail) (br_gap b) =
      text_pieces first 0 (take (br_end (snd (backward_line bs b))) bs) (br_gap b) @ [fst (backward_line bs b)]"
    and "br_end (snd (backward_line bs b)) \<le> e" "\<forall>g k. br_gap b = Some (g, k) \<longrightarrow> g \<le> br_end (snd (backward_line bs b))"
proof -
  have gap: "g < e + length tail \<and> (g = e \<longrightarrow> g = s)" if "br_gap b = Some (g, k)" for g k
    using gaps that by blast
  define l where "l = drop s (take e bs)"
  have cut: "take s bs @ l = take e bs" "ends_at_line (take s bs)" "LF_byte \<notin> set l" "s \<le> e"
  proof -
    have s: "s = after_newline (take e bs)" by (simp add: s_def e_def)
    obtain "take s (take e bs) @ drop s (take e bs) = take e bs" "ends_at_line (take s (take e bs))"
      "LF_byte \<notin> set (drop s (take e bs))" "s \<le> length (take e bs)"
      by (rule last_line_at [of "take e bs", folded s])
    moreover from this(4) have "s \<le> e" by simp
    ultimately show "take s bs @ l = take e bs" "ends_at_line (take s bs)" "LF_byte \<notin> set l" "s \<le> e"
      by (simp_all add: l_def min_absorb1)
  qed
  have sl: "length (take s bs) = s" "length l = e - s" "s \<le> length bs" using cut(4) e by (simp_all add: l_def)
  have number': "br_number b = first + newlines (take s bs)"
    using number cut(1,3) newlines_none [of l] by (metis add_0_right newlines_simps(3))
  have parts: "text_pieces first 0 (take e bs @ tail) (br_gap b) =
      text_pieces first 0 (take s bs) (gap_below s (br_gap b))
      @ text_pieces (br_number b) s (l @ tail) (gap_above s (br_gap b))"
    using text_pieces_append [of "take s bs" "br_gap b" 0 first "l @ tail"] cut(1,2) sl number' by (simp flip: append_assoc)
  have last: "text_pieces (br_number b) s (l @ tail) (gap_above s (br_gap b)) =
    (case gap_above s (br_gap b) of
       Some (g, k) \<Rightarrow> if s < g then [PieceLine (br_number b) s (take (g - s) l), PieceNote (gap_note k), PieceLine (br_number b) g (drop (g - s) l)]
         else [PieceNote (gap_note k), PieceLine (br_number b) s l]
     | None \<Rightarrow> [PieceLine (br_number b) s l])"
  proof (rule text_pieces_last_line [OF cut(3)])
    show "tail = [LF_byte] \<or> (tail = [] \<and> l \<noteq> [])" using tail sl(2) by auto
    show "s \<le> g \<and> (g = s + length l \<longrightarrow> g = s) \<and> g < s + length l + length tail" if "gap_above s (br_gap b) = Some (g, k)" for g k
      using that gap [of g k] sl(2) cut(4) by (auto simp: gap_above_def split: option.splits if_splits)
  qed
  have upto: "text_pieces first 0 (take g bs) (Some (g, k)) = text_pieces first 0 (take s bs) None
      @ [PieceLine (br_number b) s (take (g - s) l), PieceNote (gap_note k)]" if "s < g" "g \<le> e" for g k
  proof -
    have tk: "take g bs = take s bs @ take (g - s) l"
    proof -
      have "take g bs = take g (take e bs)" using that(2) by (simp add: min_absorb1)
      also have "\<dots> = take g (take s bs @ l)" by (simp only: cut(1))
      finally show ?thesis using that(1) sl(1) by simp
    qed
    have notin: "LF_byte \<notin> set (take (g - s) l)" using cut(3) by (auto dest: in_set_takeD)
    have glen: "length (take (g - s) l) = g - s" using that sl(2) by simp
    have "text_pieces first 0 (take g bs) (Some (g, k)) = text_pieces first 0 (take s bs) None
      @ text_pieces (br_number b) s (take (g - s) l) (Some (g, k))"
      unfolding tk using text_pieces_append [of "take s bs" "Some (g, k)" 0 first "take (g - s) l"] cut(2) sl number' that by simp
    moreover have "take (g - s) l \<noteq> []" using that glen by auto
    then have "text_pieces (br_number b) s (take (g - s) l) (Some (g, k)) =
        [PieceLine (br_number b) s (take (g - s) l), PieceNote (gap_note k)]"
      using that glen notin
      by (subst text_pieces_split) (simp_all add: line_length_whole text_pieces_Nil)
    ultimately show ?thesis by simp
  qed
  consider (inside) g k where "br_gap b = Some (g, k)" "s < g" "g < e"
    | (at) k where "br_gap b = Some (s, k)"
    | (before) g k where "br_gap b = Some (g, k)" "g < s"
    | (none) "br_gap b = None"
  proof (cases "br_gap b")
    case (Some p)
    obtain g k where g: "br_gap b = Some (g, k)" using Some by (cases p) auto
    have "g < e + 1 \<and> (g = e \<longrightarrow> g = s)" using gap [OF g] tail by auto
    then have "g < e \<or> g = s" by auto
    then show ?thesis using that(1) [OF g] that(2) [of k] that(3) [OF g] g by (cases "g = s") (auto simp: not_less_iff_gr_or_eq linorder_neq_iff)
  qed (rule that(4))
  note cases = this
  show "text_pieces first 0 (take e bs @ tail) (br_gap b) =
      text_pieces first 0 (take (br_end (snd (backward_line bs b))) bs) (br_gap b) @ [fst (backward_line bs b)]"
    using cases
  proof cases
    case inside
    have "bytes_between g e bs = drop (g - s) l"
      using inside by (simp add: bytes_between_def l_def drop_take)
    then have "backward_line bs b = (PieceLine (br_number b) g (drop (g - s) l), b\<lparr>br_end := g\<rparr>)"
      using inside by (simp add: backward_line_def Let_def s_def e_def)
    then show ?thesis using parts last inside upto [of g k] by simp
  next
    case at
    have "backward_line bs b = (PieceLine (br_number b) s l, b\<lparr>br_end := s, br_line_start := True\<rparr>)"
      using at by (simp add: backward_line_def Let_def s_def e_def l_def bytes_between_def drop_take)
    moreover have "text_pieces first 0 (take s bs) (Some (s, k)) = text_pieces first 0 (take s bs) None @ [PieceNote (gap_note k)]"
      using text_pieces_append [of "take s bs" "Some (s, k)" 0 first "[]"] cut(2) sl by (simp add: text_pieces_Nil)
    ultimately show ?thesis using parts last at by simp
  next
    case before
    have "backward_line bs b = (PieceLine (br_number b) s l, b\<lparr>br_end := s, br_line_start := True\<rparr>)"
      using before by (simp add: backward_line_def Let_def s_def e_def l_def bytes_between_def drop_take)
    then show ?thesis using parts last before by simp
  next
    case none
    have "backward_line bs b = (PieceLine (br_number b) s l, b\<lparr>br_end := s, br_line_start := True\<rparr>)"
      using none by (simp add: backward_line_def Let_def s_def e_def l_def bytes_between_def drop_take)
    then show ?thesis using parts last none by simp
  qed
  show "br_end (snd (backward_line bs b)) \<le> e"
    using cut(4) by (auto simp: backward_line_def Let_def s_def e_def split: option.splits)
  have "g \<le> br_end (snd (backward_line bs b))" if "br_gap b = Some (g, k)" for g k
    using gap [OF that] tail cut(4) that by (auto simp: backward_line_def Let_def s_def e_def)
  then show "\<forall>g k. br_gap b = Some (g, k) \<longrightarrow> g \<le> br_end (snd (backward_line bs b))" by blast
qed


lemma after_newline_end: "(after_newline xs = length xs) = ends_at_line xs"
proof
  assume "after_newline xs = length xs"
  then show "ends_at_line xs" using last_line_at [of xs] by (metis take_all_iff order_refl)
next
  assume ends: "ends_at_line xs"
  show "after_newline xs = length xs"
  proof (rule last_line_at [of xs])
    assume cut: "LF_byte \<notin> set (drop (after_newline xs) xs)" "after_newline xs \<le> length xs"
    show ?thesis
    proof (rule ccontr)
      assume "after_newline xs \<noteq> length xs"
      then have "drop (after_newline xs) xs \<noteq> []" "xs \<noteq> []" using cut(2) by auto
      then have "last xs \<in> set (drop (after_newline xs) xs)" "last xs = LF_byte"
        using ends by (metis last_drop last_in_set not_le drop_eq_Nil, simp add: ends_at_line_def)
      with cut(1) show False by simp
    qed
  qed
qed

lemma backward_line_keeps [simp]:
  "br_done (snd (backward_line bs b)) = br_done b"
  "br_gap (snd (backward_line bs b)) = br_gap b"
  "br_missing (snd (backward_line bs b)) = br_missing b"
  "br_number (snd (backward_line bs b)) = br_number b"
  by (simp_all add: backward_line_def Let_def split: option.split prod.split)

lemma backward_line_state:
  fixes bs b
  defines "e \<equiv> br_end b" and "b' \<equiv> snd (backward_line bs b)"
  assumes e: "e \<le> length bs" "bs \<noteq> []" and ls: "\<not> br_line_start b"
    and number: "br_number b = first + newlines (take e bs)"
  shows "br_line_start b' = ends_at_line (take (br_end b') bs)"
    and "br_number b' = first + newlines (take (br_end b') bs)"
    and "br_done b' = br_done b" "br_gap b' = br_gap b" "br_missing b' = br_missing b"
proof -
  define s where "s = after_newline (take e bs)"
  have cut: "ends_at_line (take s bs)" "LF_byte \<notin> set (drop s (take e bs))" "s \<le> e"
  proof -
    obtain "take s (take e bs) @ drop s (take e bs) = take e bs" "ends_at_line (take s (take e bs))"
      "LF_byte \<notin> set (drop s (take e bs))" "s \<le> length (take e bs)"
      by (rule last_line_at [of "take e bs", folded s_def])
    moreover from this(4) have "s \<le> e" by simp
    ultimately show "ends_at_line (take s bs)" "LF_byte \<notin> set (drop s (take e bs))" "s \<le> e"
      by (simp_all add: min_absorb1)
  qed
  have between: "newlines (take g bs) = newlines (take e bs)" if "s \<le> g" "g \<le> e" for g
  proof -
    have "take e bs = take g bs @ drop g (take e bs)"
      using that by (metis append_take_drop_id min.absorb1 take_take)
    moreover have "LF_byte \<notin> set (drop g (take e bs))"
      using cut(2) that(1) by (meson set_drop_subset_set_drop subsetD)
    ultimately show ?thesis by (metis newlines_none add_0_right newlines_simps(3))
  qed
  have mid: "\<not> ends_at_line (take g bs)" if "s < g" "g < e" for g
  proof -
    have "take g bs ! (g - 1) = drop s (take e bs) ! (g - 1 - s)" using that e(1) by simp
    then have "last (take g bs) = drop s (take e bs) ! (g - 1 - s)"
      using that e by (subst last_conv_nth) (auto simp: min_absorb2)
    moreover have "g - 1 - s < length (drop s (take e bs))" using that e(1) by simp
    ultimately have "last (take g bs) \<noteq> LF_byte" using cut(2) by (metis nth_mem)
    then show ?thesis using that e by (auto simp: ends_at_line_def)
  qed
  have cases: "(s < br_end b' \<and> br_end b' < e \<and> \<not> br_line_start b') \<or> (br_end b' = s \<and> br_line_start b')"
  proof (cases "gap_within s (e - 1) (br_gap b)")
    case True
    then obtain g k where g: "br_gap b = Some (g, k)" "s < g" "g < e" by (cases "br_gap b") auto
    then have "br_end b' = g" "\<not> br_line_start b'"
      using ls by (simp_all add: b'_def backward_line_def Let_def s_def e_def)
    with g show ?thesis by simp
  next
    case False
    then have "br_end b' = s" "br_line_start b'"
      by (cases "br_gap b"; auto simp: b'_def backward_line_def Let_def s_def e_def)+
    then show ?thesis by simp
  qed
  show same: "br_done b' = br_done b" "br_gap b' = br_gap b" "br_missing b' = br_missing b"
    by (simp_all add: b'_def)
  show "br_line_start b' = ends_at_line (take (br_end b') bs)"
    using cases cut(1) mid by blast
  have "br_number b' = br_number b" by (simp add: b'_def)
  moreover have "newlines (take (br_end b') bs) = newlines (take e bs)"
    using cases cut(3) by (intro between) auto
  ultimately show "br_number b' = first + newlines (take (br_end b') bs)" using number by simp
qed

lemma text_pieces_gap_last:
  "text_pieces n at xs (Some (at + length xs, k)) = text_pieces n at xs None @ [PieceNote (gap_note k)]"
proof (induction "length xs" arbitrary: n at xs rule: less_induct)
  case less
  show ?case
  proof (cases "xs = []")
    case True
    then show ?thesis by (simp add: text_pieces_Nil)
  next
    case False
    show ?thesis
    proof (cases "line_length xs < length xs")
      case True
      have "text_pieces (n + 1) (at + line_length xs + 1) (drop (line_length xs + 1) xs)
          (Some (at + line_length xs + 1 + length (drop (line_length xs + 1) xs), k)) =
          text_pieces (n + 1) (at + line_length xs + 1) (drop (line_length xs + 1) xs) None @ [PieceNote (gap_note k)]"
        using False by (intro less) (simp add: True)
      moreover have "at + line_length xs + 1 + length (drop (line_length xs + 1) xs) = at + length xs" using True by simp
      ultimately show ?thesis
        using text_pieces_line [OF False, of at "Some (at + length xs, k)" n] text_pieces_line [OF False, of at None n] True False
        by simp
    next
      case no: False
      then have "line_length xs = length xs" using line_length_le [of xs] by simp
      then show ?thesis
        using text_pieces_line [OF False, of at None n] False
        by (subst text_pieces_split) (simp_all add: text_pieces_Nil)
    qed
  qed
qed

lemma backward_step:
  assumes inv: "backward_inv t b"
  shows "case backward_next t b of None \<Rightarrow> backward_rest t b = []
    | Some (p, b') \<Rightarrow> backward_inv t b' \<and> backward_rest t b = backward_rest t b' @ [p]"
proof -
  let ?bs = "ot_bytes t" and ?b = "b\<lparr>br_missing := False\<rparr>"
  have e: "br_end b \<le> length ?bs" and gap: "\<And>g k. br_gap b = Some (g, k) \<Longrightarrow> g \<le> br_end b \<and> \<not> gap_at_newline ?bs (Some (g, k))"
    using inv by (auto simp: backward_inv_def)
  have lined: "backward_inv t (snd (backward_line ?bs c)) \<and>
      text_pieces (ot_first_line t) 0 (take (br_end c) ?bs @ tail) (br_gap c) @ missing_piece t (br_missing c) =
      backward_rest t (snd (backward_line ?bs c)) @ [fst (backward_line ?bs c)]"
    if "br_end c \<le> length ?bs" "tail = [] \<and> after_newline (take (br_end c) ?bs) < br_end c \<or> tail = [LF_byte]"
      "\<forall>g k. br_gap c = Some (g, k) \<longrightarrow> g < br_end c + length tail \<and> (g = br_end c \<longrightarrow> g = after_newline (take (br_end c) ?bs))"
      "br_number c = ot_first_line t + newlines (take (br_end c) ?bs)" "\<not> br_line_start c" "?bs \<noteq> []" "\<not> br_done c"
      "br_gap c = br_gap b" "br_missing c = False" for c tail
  proof -
    note pieces = backward_line_pieces [OF that(1-4)] and state = backward_line_state [OF that(1,6,5,4)]
    have "backward_inv t (snd (backward_line ?bs c))"
      unfolding backward_inv_def using pieces(2,3) state that(1,6,7,8) gap by simp
    moreover have "missing_piece t (br_missing c) = []" "missing_piece t (br_missing (snd (backward_line ?bs c))) = []"
      by (simp_all add: state(5) that(9))
    ultimately show ?thesis using pieces(1) state(4) by (simp add: backward_rest_def)
  qed
  show ?thesis
  proof (cases "br_missing b \<and> ot_missing t \<noteq> None")
    case True
    then show ?thesis using inv by (auto simp: backward_next_def backward_inv_def backward_rest_def missing_piece_def)
  next
    case False
    then have no_notes: "missing_piece t (br_missing b) = []" "missing_piece t False = []"
      by (auto simp: missing_piece_def split: option.splits)
    consider (here) k where "br_gap b = Some (br_end b, k)"
      | (stop) "\<And>k. br_gap b \<noteq> Some (br_end b, k)" "br_end b = 0"
      | (newline) "\<And>k. br_gap b \<noteq> Some (br_end b, k)" "0 < br_end b" "br_line_start b"
      | (line) "\<And>k. br_gap b \<noteq> Some (br_end b, k)" "0 < br_end b" "\<not> br_line_start b"
      by blast
    then show ?thesis
    proof cases
      case here
      have step: "backward_next t b = Some (PieceNote (gap_note k), ?b\<lparr>br_gap := None\<rparr>)"
        using False here by (auto simp: backward_next_def)
      have "text_pieces (ot_first_line t) 0 (take (br_end b) ?bs) (Some (br_end b, k)) =
          text_pieces (ot_first_line t) 0 (take (br_end b) ?bs) None @ [PieceNote (gap_note k)]"
        using text_pieces_gap_last [of "ot_first_line t" 0 "take (br_end b) ?bs" k] e by (simp add: min_absorb2)
      then have "backward_rest t b = backward_rest t (?b\<lparr>br_gap := None\<rparr>) @ [PieceNote (gap_note k)]"
        using False here by (auto simp: backward_rest_def missing_piece_def split: option.splits)
      moreover have "backward_inv t (?b\<lparr>br_gap := None\<rparr>)" using inv by (simp add: backward_inv_def)
      ultimately show ?thesis by (simp add: step)
    next
      case stop
      have none: "br_gap b = None" using stop gap by (cases "br_gap b") auto
      have "backward_next t b = None"
        using False stop none inv by (auto simp: backward_next_def backward_inv_def ends_at_line_def)
      then show ?thesis using stop none by (simp add: no_notes backward_rest_def text_pieces_Nil)
    next
      case newline
      let ?c = "?b\<lparr>br_end := br_end b - 1, br_number := br_number b - 1, br_line_start := False\<rparr>"
      have ends: "ends_at_line (take (br_end b) ?bs)" "?bs \<noteq> []" using inv newline by (auto simp: backward_inv_def)
      have last: "?bs ! (br_end b - 1) = LF_byte"
        using ends newline(2) e by (auto simp: ends_at_line_def last_conv_nth min_absorb2)
      then have tk: "take (br_end b) ?bs = take (br_end b - 1) ?bs @ [LF_byte]"
        using newline(2) e by (metis Suc_pred' less_eq_Suc_le take_Suc_conv_app_nth One_nat_def)
      have step: "backward_next t b = Some (backward_line ?bs ?c)"
        using False newline inv by (auto simp: backward_next_def backward_inv_def Let_def split: option.splits)
      have at: "g < br_end ?c + length [LF_byte] \<and> (g = br_end ?c \<longrightarrow> g = after_newline (take (br_end ?c) ?bs))"
        if g: "br_gap ?c = Some (g, k)" for g k
      proof
        have g': "br_gap b = Some (g, k)" using g by simp
        show "g < br_end ?c + length [LF_byte]" using gap [OF g'] newline(1) g' by (cases "g = br_end b") auto
        show "g = br_end ?c \<longrightarrow> g = after_newline (take (br_end ?c) ?bs)"
        proof
          assume at: "g = br_end ?c"
          have "ends_at_line (take g ?bs)"
          proof (cases "g = 0")
            case False
            then have "?bs ! (g - 1) = LF_byte" "g \<le> length ?bs"
              using gap [OF g'] at last newline(2) e by (auto simp: gap_at_newline_def)
            moreover have "last (take g ?bs) = ?bs ! (g - 1)"
              using False calculation(2) by (subst last_conv_nth) (auto simp: min_absorb2)
            ultimately show ?thesis by (simp add: ends_at_line_def)
          qed (simp add: ends_at_line_def)
          then have "after_newline (take g ?bs) = length (take g ?bs)" by (simp only: after_newline_end)
          then show "g = after_newline (take (br_end ?c) ?bs)" using at e by simp
        qed
      qed
      have "br_number ?c = ot_first_line t + newlines (take (br_end ?c) ?bs)"
        using inv ends(2) tk by (simp add: backward_inv_def)
      moreover have "br_end ?c \<le> length ?bs" "\<not> br_done ?c" "\<not> br_line_start ?c" "br_gap ?c = br_gap b" "br_missing ?c = False"
        using e inv ends(2) by (simp_all add: backward_inv_def)
      ultimately have result: "backward_inv t (snd (backward_line ?bs ?c)) \<and>
          text_pieces (ot_first_line t) 0 (take (br_end ?c) ?bs @ [LF_byte]) (br_gap ?c) @ missing_piece t (br_missing ?c) =
          backward_rest t (snd (backward_line ?bs ?c)) @ [fst (backward_line ?bs ?c)]"
        using at by (intro lined) (simp_all add: ends(2))
      have "backward_rest t b = backward_rest t (snd (backward_line ?bs ?c)) @ [fst (backward_line ?bs ?c)]"
        using result tk by (simp add: no_notes backward_rest_def)
      with result step show ?thesis by (simp add: case_prod_beta)
    next
      case line
      have open_line: "\<not> ends_at_line (take (br_end b) ?bs)" "?bs \<noteq> []"
        using inv line(3) line(2) e by (auto simp: backward_inv_def ends_at_line_def)
      have step: "backward_next t b = Some (backward_line ?bs ?b)"
        using False line inv open_line by (auto simp: backward_next_def backward_inv_def Let_def split: option.splits)
      have "after_newline (take (br_end b) ?bs) < br_end b"
        using open_line(1) after_newline_end [of "take (br_end b) ?bs"] after_newline_le [of "take (br_end b) ?bs"] e by simp
      moreover have "g < br_end ?b + length ([] :: byte list) \<and> (g = br_end ?b \<longrightarrow> g = after_newline (take (br_end ?b) ?bs))"
        if g: "br_gap ?b = Some (g, k)" for g k
        using gap [of g k] g line(1) by (cases "g = br_end b") auto
      ultimately have result: "backward_inv t (snd (backward_line ?bs ?b)) \<and>
          text_pieces (ot_first_line t) 0 (take (br_end ?b) ?bs @ []) (br_gap ?b) @ missing_piece t (br_missing ?b) =
          backward_rest t (snd (backward_line ?bs ?b)) @ [fst (backward_line ?bs ?b)]"
        using e inv open_line line(3) by (intro lined) (auto simp: backward_inv_def)
      have "backward_rest t b = backward_rest t (snd (backward_line ?bs ?b)) @ [fst (backward_line ?bs ?b)]"
        using result by (simp add: no_notes backward_rest_def)
      with result step show ?thesis by (simp add: case_prod_beta)
    qed
  qed
qed

lemma backward_pieces_rev: "backward_inv t b \<Longrightarrow> backward_pieces t b = rev (backward_rest t b)"
proof (induction t b rule: backward_pieces.induct)
  case (1 t b)
  show ?case
  proof (cases "backward_next t b")
    case None
    then show ?thesis using backward_step [OF 1(2)] by (simp add: backward_pieces.simps)
  next
    case (Some q)
    obtain p b' where q: "backward_next t b = Some (p, b')" using Some by (cases q) auto
    then show ?thesis using backward_step [OF 1(2)] 1(1) [OF q refl] by (subst backward_pieces.simps) simp
  qed
qed

end
