(* ===== verification/Output_Pages.thy ===== *)
theory Output_Pages imports Whole_Output begin

text \<open>
  A command's output a page at a time (\<open>crates/agent-server/src/server/shell_output.rs\<close>): the lines of
  a page within its characters, the command that prints the next page, and the pages of a command
  that \<open>demi conversation history open\<close> shows.
\<close>

section \<open>A page's parts\<close>

definition LINE_CHARS :: nat where "LINE_CHARS = 2000"
definition RAW_CHUNK_BYTES :: nat where "RAW_CHUNK_BYTES = 1024 * 1024"
definition PAGE_CHARS :: nat where "PAGE_CHARS = 12000"

definition char_count :: "string \<Rightarrow> nat" where
  "char_count s = length (chars s)"

text \<open>The characters lines take, each with its newline.\<close>

definition chars_taken :: "string list \<Rightarrow> nat" where
  "chars_taken lines = sum_list (map (\<lambda>l. char_count l + 1) lines)"

record output_page =
  op_text :: output_text
  op_id :: command_id
  op_streams :: streams
  op_end :: "command_end option"

fun stream_flags :: "streams \<Rightarrow> string" where
  "stream_flags BothStreams = ''''"
| "stream_flags (OnlyStream Stdout) = '' --stdout''"
| "stream_flags (OnlyStream Stderr) = '' --stderr''"

fun stream_names :: "streams \<Rightarrow> string" where
  "stream_names BothStreams = ''stdout and stderr''"
| "stream_names (OnlyStream Stdout) = ''stdout''"
| "stream_names (OnlyStream Stderr) = ''stderr''"

fun how_ended :: "command_end option \<Rightarrow> string" where
  "how_ended (Some (EndExited code)) = '', exit code '' @ show_int code"
| "how_ended (Some EndStopped) = '', stopped''"
| "how_ended (Some (EndLost reason)) = '', lost: '' @ reason"
| "how_ended (Some EndUnrecorded) = ''''"
| "how_ended None = ''''"

definition page_header :: "output_page \<Rightarrow> (nat \<times> nat) option \<Rightarrow> string" where
  "page_header page shown =
     (let all = show_nat (last_line (op_text page));
          so_far = (if op_end page = None then '' so far'' else '''');
          rest = so_far @ '', '' @ stream_names (op_streams page) @ how_ended (op_end page) @ '']''
      in (case shown of
            Some (a, b) \<Rightarrow> ''[command '' @ op_id page @ '': lines '' @ show_nat a @ ''-'' @ show_nat b @ '' of '' @ all @ rest
          | None \<Rightarrow> ''[command '' @ op_id page @ '': '' @ all @ '' lines'' @ rest))"

definition page_next :: "output_page \<Rightarrow> nat \<Rightarrow> nat \<Rightarrow> string" where
  "page_next page number thru =
     ''[next: demi shell output '' @ op_id page @ '' --lines '' @ show_nat number @ ''-'' @ show_nat thru
     @ stream_flags (op_streams page) @ '']''"

definition page_reserved :: "output_page \<Rightarrow> nat \<Rightarrow> nat" where
  "page_reserved page thru =
     char_count (page_header page (Some (thru, thru))) + char_count (page_next page thru thru) + 2"

text \<open>\<open>{number:>6}\<close>: the digits, at the end of six places when they are fewer.\<close>

definition six_places :: "nat \<Rightarrow> string" where
  "six_places n = (let digits = show_nat n in replicate (6 - length digits) (CHR '' '') @ digits)"

definition long_line_note :: "output_page \<Rightarrow> nat \<Rightarrow> nat \<Rightarrow> string" where
  "long_line_note page number n =
     ''[line '' @ show_nat number @ '' is '' @ show_nat n @ '' characters; whole: demi shell output '' @ op_id page
     @ '' --raw'' @ stream_flags (op_streams page) @ '' | sed -n '' @ show_nat number @ ''p]''"

fun page_render :: "output_page \<Rightarrow> piece \<Rightarrow> string list" where
  "page_render page (PieceNote line) = [line]"
| "page_render page (PieceLine number at bytes) =
     (let s = from_utf8_lossy bytes; n = char_count s
      in if n \<le> LINE_CHARS then [six_places number @ [CHR 0x09] @ s]
         else [six_places number @ [CHR 0x09] @ take (char_offset s LINE_CHARS) s, long_line_note page number n])"

section \<open>A page from a line on\<close>

record page_fill =
  pf_lines :: "string list"
  pf_used :: nat
  pf_shown :: "(nat \<times> nat) option"

definition page_empty :: page_fill where
  "page_empty = \<lparr>pf_lines = [], pf_used = 0, pf_shown = None\<rparr>"

definition shown_to :: "nat option \<Rightarrow> (nat \<times> nat) option \<Rightarrow> (nat \<times> nat) option" where
  "shown_to number shown =
     (case number of
        Some n \<Rightarrow> Some (case shown of Some (a, b) \<Rightarrow> (a, n) | None \<Rightarrow> (n, n))
      | None \<Rightarrow> shown)"

text \<open>The loop of \<open>forward\<close>: what it fills, and the line the next page starts with.\<close>

fun fill_page :: "output_page \<Rightarrow> nat \<Rightarrow> nat \<Rightarrow> piece list \<Rightarrow> page_fill \<Rightarrow> page_fill \<times> nat option" where
  "fill_page page thru budget [] fill = (fill, None)"
| "fill_page page thru budget (p # ps) fill =
     (let past = (case piece_number p of Some n \<Rightarrow> thru < n | None \<Rightarrow> False);
          rendered = page_render page p; cost = chars_taken rendered
      in if past then (fill, None)
         else if budget < pf_used fill + cost \<and> pf_lines fill \<noteq> [] then (fill, piece_number p)
         else fill_page page thru budget ps
           \<lparr>pf_lines = pf_lines fill @ rendered, pf_used = pf_used fill + cost,
            pf_shown = shown_to (piece_number p) (pf_shown fill)\<rparr>)"

text \<open>
  The characters a page leaves for its lines. The numbers are \<open>usize\<close>; what a page reserves is far
  below its size, as command ids are short and the reasons of losses are bounded.
\<close>

definition page_budget :: "output_page \<Rightarrow> nat \<Rightarrow> nat" where
  "page_budget page thru = PAGE_CHARS - page_reserved page thru"

definition page_filled :: "output_page \<Rightarrow> nat \<Rightarrow> nat \<Rightarrow> page_fill \<times> nat option" where
  "page_filled page start thru =
     fill_page page thru (page_budget page thru) (forward_text (op_text page) start) page_empty"

definition page_forward :: "output_page \<Rightarrow> nat \<Rightarrow> nat \<Rightarrow> string" where
  "page_forward page start thru =
     (let (fill, next_line) = page_filled page start thru
      in join [CHR 0x0A] (page_header page (pf_shown fill) # pf_lines fill
           @ (case next_line of Some n \<Rightarrow> [page_next page n thru] | None \<Rightarrow> [])) @ [CHR 0x0A])"

section \<open>The last lines\<close>

record tail_fill =
  tf_lines :: "string list list"
  tf_used :: nat
  tf_shown :: "(nat \<times> nat) option"

definition shown_from :: "nat option \<Rightarrow> (nat \<times> nat) option \<Rightarrow> (nat \<times> nat) option" where
  "shown_from number shown =
     (case number of
        Some n \<Rightarrow> Some (case shown of Some (a, b) \<Rightarrow> (n, b) | None \<Rightarrow> (n, n))
      | None \<Rightarrow> shown)"

fun fill_tail :: "output_page \<Rightarrow> nat \<Rightarrow> nat \<Rightarrow> piece list \<Rightarrow> tail_fill \<Rightarrow> tail_fill" where
  "fill_tail page first_shown budget [] fill = fill"
| "fill_tail page first_shown budget (p # ps) fill =
     (let before = (case piece_number p of Some n \<Rightarrow> n < first_shown | None \<Rightarrow> False);
          rendered = page_render page p; cost = chars_taken rendered
      in if before \<or> (budget < tf_used fill + cost \<and> tf_lines fill \<noteq> []) then fill
         else fill_tail page first_shown budget ps
           \<lparr>tf_lines = tf_lines fill @ [rendered], tf_used = tf_used fill + cost,
            tf_shown = shown_from (piece_number p) (tf_shown fill)\<rparr>)"

definition tail_filled :: "output_page \<Rightarrow> nat \<Rightarrow> tail_fill" where
  "tail_filled page count =
     (let final = last_line (op_text page)
      in fill_tail page (max (final - (count - 1)) 1) (page_budget page final) (backward_text (op_text page))
           \<lparr>tf_lines = [], tf_used = 0, tf_shown = None\<rparr>)"

definition page_tail :: "output_page \<Rightarrow> nat \<Rightarrow> string" where
  "page_tail page count =
     (let fill = tail_filled page count
      in join [CHR 0x0A] (page_header page (tf_shown fill) # concat (rev (tf_lines fill))) @ [CHR 0x0A])"

section \<open>The pages of a command's call and output\<close>

record page_entry =
  pe_lines :: "string list"
  pe_number :: "nat option"
  pe_output :: bool

definition page_entries :: "output_page \<Rightarrow> nat \<Rightarrow> page_entry list" where
  "page_entries page start =
     map (\<lambda>p. \<lparr>pe_lines = page_render page p, pe_number = piece_number p, pe_output = True\<rparr>)
       (forward_text (op_text page) start)"

record paginating =
  pg_page :: nat
  pg_used :: nat
  pg_kept :: "page_entry list"

definition paginate_step :: "nat \<Rightarrow> nat \<Rightarrow> page_entry \<Rightarrow> paginating \<Rightarrow> paginating" where
  "paginate_step budget wanted entry st =
     (let cost = chars_taken (pe_lines entry);
          turn = (budget < pg_used st + cost \<and> 0 < pg_used st);
          page = (if turn then pg_page st + 1 else pg_page st)
      in \<lparr>pg_page = page, pg_used = (if turn then 0 else pg_used st) + cost,
          pg_kept = (if page = wanted then pg_kept st @ [entry] else pg_kept st)\<rparr>)"

definition paginate :: "page_entry list \<Rightarrow> page_entry list \<Rightarrow> nat \<Rightarrow> nat \<Rightarrow> page_entry list option \<times> nat" where
  "paginate lead rest budget wanted =
     (let st = fold (paginate_step budget wanted) (lead @ rest) \<lparr>pg_page = 1, pg_used = 0, pg_kept = []\<rparr>
      in (if 1 \<le> wanted \<and> wanted \<le> pg_page st then Some (pg_kept st) else None, pg_page st))"

text \<open>A script as \<open>open\<close> shows it, after \<open>$ \<close>, a long line in pieces of \<open>LINE_CHARS\<close> characters.\<close>

function char_slices :: "nat \<Rightarrow> string \<Rightarrow> string list" where
  "char_slices n s =
     (if s = '''' \<or> char_offset s n = 0 then []
      else take (char_offset s n) s # char_slices n (drop (char_offset s n) s))"
  by pat_completeness auto
termination
  by (relation "measure (length \<circ> snd)") auto

declare char_slices.simps [simp del]

definition script_lines :: "string \<Rightarrow> string list" where
  "script_lines script =
     concat (map (\<lambda>l. if l = '''' then [''''] else char_slices LINE_CHARS l) (split_lines [] (''$ '' @ script)))"

definition lead_entry :: "string \<Rightarrow> page_entry" where
  "lead_entry l = \<lparr>pe_lines = [l], pe_number = None, pe_output = False\<rparr>"

definition numbers_of :: "page_entry list \<Rightarrow> (nat \<times> nat) option" where
  "numbers_of es = fold (\<lambda>e. shown_to (pe_number e)) (filter pe_output es) None"

definition command_page :: "output_page \<Rightarrow> string \<Rightarrow> string \<Rightarrow> nat \<Rightarrow> nat \<Rightarrow> string + (string \<times> nat)" where
  "command_page page head script wanted reserve =
     (let final = last_line (op_text page);
          header = char_count (page_header page (Some (final, final))) + 1;
          budget = PAGE_CHARS - (reserve + char_count head + 1 + header);
          (got, pages) = paginate (map lead_entry (script_lines script)) (page_entries page 1) budget wanted
      in (case got of
            None \<Rightarrow> Inl (''the output of command '' @ op_id page @ '' has '' @ show_nat pages @ '' pages'')
          | Some es \<Rightarrow>
              let own = filter (\<lambda>e. \<not> pe_output e) es; output_entries = filter pe_output es
              in Inr (join [CHR 0x0A] (head # concat (map pe_lines own)
                   @ (if output_entries \<noteq> [] \<or> wanted = pages then [page_header page (numbers_of es)] else [])
                   @ concat (map pe_lines output_entries)) @ [CHR 0x0A], pages)))"

section \<open>What a call prints\<close>

datatype output_reading = ReadPage | ReadLines nat nat | ReadTail nat

text \<open>\<open>u64::from_str\<close>: an optional plus, then digits of a number below \<open>2 ^ 64\<close>.\<close>

definition digit_value :: "char \<Rightarrow> nat option" where
  "digit_value c = (if 48 \<le> (of_char c :: nat) \<and> (of_char c :: nat) \<le> 57 then Some (of_char c - 48) else None)"

fun digits_value :: "nat \<Rightarrow> string \<Rightarrow> nat option" where
  "digits_value acc [] = Some acc"
| "digits_value acc (c # cs) =
     (case digit_value c of
        Some d \<Rightarrow> if acc * 10 + d < 2 ^ 64 then digits_value (acc * 10 + d) cs else None
      | None \<Rightarrow> None)"

definition parse_u64 :: "string \<Rightarrow> nat option" where
  "parse_u64 s =
     (let digits = (if s \<noteq> '''' \<and> hd s = CHR ''+'' then tl s else s)
      in if digits = '''' then None else digits_value 0 digits)"

definition line_range :: "string \<Rightarrow> (nat \<times> nat) option" where
  "line_range s =
     (case position (\<lambda>c. c = CHR ''-'') s of
        None \<Rightarrow> None
      | Some p \<Rightarrow>
          (case (parse_u64 (take p s), parse_u64 (drop (p + 1) s)) of
             (Some a, Some b) \<Rightarrow> if 1 \<le> a \<and> a \<le> b then Some (a, b) else None
           | _ \<Rightarrow> None))"

record output_args =
  oa_id :: string
  oa_lines :: "string option"
  oa_tail :: "nat option"
  oa_stdout :: "bool option"
  oa_stderr :: "bool option"
  oa_raw :: "bool option"

definition args_streams :: "output_args \<Rightarrow> streams option" where
  "args_streams a =
     (case (oa_stdout a = Some True, oa_stderr a = Some True) of
        (True, True) \<Rightarrow> None
      | (True, False) \<Rightarrow> Some (OnlyStream Stdout)
      | (False, True) \<Rightarrow> Some (OnlyStream Stderr)
      | (False, False) \<Rightarrow> Some BothStreams)"

definition args_reading :: "output_args \<Rightarrow> string + output_reading" where
  "args_reading a =
     (case (oa_lines a, oa_tail a) of
        (Some l, Some n) \<Rightarrow> Inl ''--lines and --tail do not go together''
      | (Some l, None) \<Rightarrow>
          (case line_range l of
             Some (x, y) \<Rightarrow> Inr (ReadLines x y)
           | None \<Rightarrow> Inl (''--lines '' @ l @ '': lines count from 1, and a range ends at or after its start''))
      | (None, Some n) \<Rightarrow> Inr (ReadTail n)
      | (None, None) \<Rightarrow> Inr ReadPage)"

text \<open>Where a command's output is found: the live environment that runs it, else the store.\<close>

datatype read_refusal = NotRunningAnyMore | ReadFailed string

datatype stored_output = OutputStored whole_output | OutputNotStored string

record output_places =
  pl_running :: "command_id \<Rightarrow> (read_refusal + whole_output) option"
  pl_stored :: "command_id \<Rightarrow> string + (command_end \<times> stored_output) option"

definition find_stored :: "output_places \<Rightarrow> string \<Rightarrow> string + (whole_output \<times> command_end option)" where
  "find_stored places name =
     (case pl_stored places name of
        Inr (Some (how, OutputStored w)) \<Rightarrow> Inr (w, Some how)
      | Inr (Some (how, OutputNotStored reason)) \<Rightarrow> Inl (''the output of '' @ name @ '' was not stored: '' @ reason)
      | Inr None \<Rightarrow> Inl (''no command '' @ name @ '' in this conversation'')
      | Inl failed \<Rightarrow> Inl (''the output of '' @ name @ '' could not be read: '' @ failed))"

definition find_output :: "output_places \<Rightarrow> string \<Rightarrow> string + (whole_output \<times> command_end option)" where
  "find_output places name =
     (if name = '''' then Inl (''no command '' @ name @ '' in this conversation'')
      else (case pl_running places name of
              Some (Inr w) \<Rightarrow> Inr (w, None)
            | Some (Inl (ReadFailed failed)) \<Rightarrow> Inl (''the output of '' @ name @ '' could not be read: '' @ failed)
            | Some (Inl NotRunningAnyMore) \<Rightarrow> find_stored places name
            | None \<Rightarrow> find_stored places name))"

datatype output_answer =
    AnswerUsage string
  | AnswerFailed string
  | AnswerRaw "byte list list" "string list"
  | AnswerPrinted string

definition print_output :: "whole_output \<Rightarrow> command_end option \<Rightarrow> string \<Rightarrow> streams \<Rightarrow> output_reading \<Rightarrow> output_answer" where
  "print_output w how name streams how_read =
     (let binary = binary_stdout_length w
      in if binary \<noteq> None \<and> streams = OnlyStream Stdout
         then AnswerFailed (''the stdout of '' @ name @ '' is binary; save it: demi shell output '' @ name
                @ '' --raw --stdout > <file>'')
         else let t = text_of w streams binary seen_none;
                  page = \<lparr>op_text = t, op_id = name, op_streams = streams, op_end = how\<rparr>;
                  final = last_line t
              in (case how_read of
                    ReadPage \<Rightarrow> AnswerPrinted (page_forward page 1 final)
                  | ReadLines a b \<Rightarrow>
                      if final < a
                      then AnswerFailed (''lines '' @ show_nat a @ ''-'' @ show_nat b
                             @ '' are past the end: the output has '' @ show_nat final @ '' lines'')
                      else AnswerPrinted (page_forward page a (min b final))
                  | ReadTail n \<Rightarrow> AnswerPrinted (page_tail page n)))"

definition shell_output :: "output_places \<Rightarrow> output_args \<Rightarrow> output_answer" where
  "shell_output places a =
     (case args_streams a of
        None \<Rightarrow> AnswerUsage ''--stdout and --stderr do not go together''
      | Some streams \<Rightarrow>
          (case args_reading a of
             Inl reason \<Rightarrow> AnswerUsage reason
           | Inr how_read \<Rightarrow>
               if oa_raw a = Some True \<and> how_read \<noteq> ReadPage
               then AnswerUsage ''--raw prints all of the output; take part of it with sed or tail''
               else (case find_output places (oa_id a) of
                       Inl reason \<Rightarrow> AnswerFailed reason
                     | Inr (w, how) \<Rightarrow>
                         if oa_raw a = Some True
                         then let t = text_of w streams None seen_none
                              in AnswerRaw (slices RAW_CHUNK_BYTES (ot_bytes t)) (text_notes t)
                         else print_output w how (oa_id a) streams how_read)))"

end
