(* ===== verification/Page_Facts.thy ===== *)
theory Page_Facts imports Output_Facts Output_Pages begin

text \<open>
  Characters of the strings a page is made of, what a page fills, and the lines of a text that holds
  no notes.
\<close>

section \<open>Characters of strings\<close>

lemma char_count_append [simp]:
  "is_str a \<Longrightarrow> is_str b \<Longrightarrow> char_count (a @ b) = char_count a + char_count b"
  by (simp add: char_count_def is_str_append)

lemma is_str_appended [simp, intro]: "is_str a \<Longrightarrow> is_str b \<Longrightarrow> is_str (a @ b)"
  by (rule is_str_append)

lemma ascii_count: "ascii s \<Longrightarrow> char_count s = length s"
  by (simp add: char_count_def ascii_chars str_bytes_def)

lemma char_count_show_nat [simp]: "char_count (show_nat n) = length (show_nat n)" "is_str (show_nat n)"
  by (simp_all add: ascii_count ascii_show_nat ascii_string)

lemma ascii_show_int: "ascii (show_int i)"
  using ascii_show_nat by (simp add: show_int_def ascii_def)

lemma char_count_show_int [simp]: "char_count (show_int n) = length (show_int n)" "is_str (show_int n)"
  by (simp_all add: ascii_count ascii_show_int ascii_string)

lemma show_nat_mono: "a \<le> b \<Longrightarrow> length (show_nat a) \<le> length (show_nat b)"
proof (induction b arbitrary: a rule: show_nat.induct)
  case (1 b)
  show ?case
  proof (cases "a < 10")
    case True
    then show ?thesis using show_nat_nonempty [of b] by (subst show_nat.simps) (simp add: Suc_leI)
  next
    case False
    then have "length (show_nat (a div 10)) \<le> length (show_nat (b div 10))"
      using 1 by (intro 1(1)) (auto simp: div_le_mono)
    then show ?thesis using False 1(2) by (subst (1 2) show_nat.simps) simp
  qed
qed

lemma show_nat_digits: "n < 10 ^ Suc k \<Longrightarrow> length (show_nat n) \<le> Suc k"
proof (induction k arbitrary: n)
  case 0
  then show ?case by (subst show_nat.simps) simp
next
  case (Suc k)
  show ?case
  proof (cases "n < 10")
    case True
    then show ?thesis by (subst show_nat.simps) simp
  next
    case False
    have "n div 10 < 10 ^ Suc k" using Suc.prems by (simp add: less_mult_imp_div_less mult.commute)
    from Suc.IH [OF this] False show ?thesis by (subst show_nat.simps) simp
  qed
qed

text \<open>Numbers of at most twenty digits, as every \<open>u64\<close> has.\<close>

lemma twenty_digits: "n < 10 ^ 20 \<Longrightarrow> length (show_nat n) \<le> 20"
  using show_nat_digits [of n 19] by simp

lemma join_lines:
  assumes "xs \<noteq> []" "\<forall>x\<in>set xs. is_str x"
  shows "is_str (join [CHR 0x0A] xs @ [CHR 0x0A])"
    and "char_count (join [CHR 0x0A] xs @ [CHR 0x0A]) = chars_taken xs"
proof -
  have lf: "is_str [CHR 0x0A]" "char_count [CHR 0x0A] = 1"
    by (simp_all add: ascii_string ascii_count ascii_def)
  have "is_str (join [CHR 0x0A] xs) \<and> char_count (join [CHR 0x0A] xs) + 1 = chars_taken xs"
    using assms by (induction "[CHR 0x0A]" xs rule: join.induct) (auto simp: chars_taken_def lf simp del: append.simps)
  with lf show "is_str (join [CHR 0x0A] xs @ [CHR 0x0A])" "char_count (join [CHR 0x0A] xs @ [CHR 0x0A]) = chars_taken xs"
    by simp_all
qed

lemma chars_taken_simps [simp]:
  "chars_taken [] = 0" "chars_taken (l # ls) = char_count l + 1 + chars_taken ls"
  "chars_taken (xs @ ys) = chars_taken xs + chars_taken ys"
  by (simp_all add: chars_taken_def)

section \<open>What bounds a page's strings\<close>

text \<open>
  The strings a page shows beside the output are well-formed and short: the command's id, the reason
  a device lost it, and the reason bytes are missing. Numbers are below \<open>2 ^ 64\<close>.
\<close>

definition short_str :: "nat \<Rightarrow> string \<Rightarrow> bool" where
  "short_str n s = (is_str s \<and> char_count s \<le> n)"

definition text_bounded :: "output_text \<Rightarrow> bool" where
  "text_bounded t =
     (last_line t < 2 ^ 64 \<and> length (ot_bytes t) < 2 ^ 64
      \<and> (\<forall>g n. ot_gap t = Some (g, n) \<longrightarrow> n < 2 ^ 64)
      \<and> (\<forall>m. ot_missing t = Some m \<longrightarrow> mi_bytes m < 2 ^ 64 \<and> short_str 1024 (mi_reason m)))"

definition page_bounded :: "output_page \<Rightarrow> bool" where
  "page_bounded page =
     (short_str 64 (op_id page) \<and> text_bounded (op_text page)
      \<and> (\<forall>i. op_end page = Some (EndExited i) \<longrightarrow> \<bar>i\<bar> < 2 ^ 31 + 1)
      \<and> (\<forall>r. op_end page = Some (EndLost r) \<longrightarrow> short_str 1024 r))"

lemma u64_digits: "n < 2 ^ 64 \<Longrightarrow> length (show_nat n) \<le> 20"
  by (rule twenty_digits) simp

lemma show_int_digits: "\<bar>i\<bar> < 2 ^ 31 + 1 \<Longrightarrow> length (show_int i) \<le> 21"
proof -
  assume "\<bar>i\<bar> < 2 ^ 31 + 1"
  then have "nat \<bar>i\<bar> < 2 ^ 64" by simp
  from u64_digits [OF this] show ?thesis by (auto simp: show_int_def)
qed

lemma how_ended_bounded:
  assumes "page_bounded page"
  shows "is_str (how_ended (op_end page))" "char_count (how_ended (op_end page)) \<le> 1040"
proof -
  have "is_str (how_ended (op_end page)) \<and> char_count (how_ended (op_end page)) \<le> 1040"
  proof (cases "op_end page")
    case None
    then show ?thesis by (simp add: ascii_string ascii_count ascii_def)
  next
    case (Some e)
    then show ?thesis
      using assms show_int_digits
      by (cases e) (fastforce simp: page_bounded_def short_str_def ascii_string ascii_count ascii_def simp del: append.simps)+
  qed
  then show "is_str (how_ended (op_end page))" "char_count (how_ended (op_end page)) \<le> 1040" by simp_all
qed

lemma stream_words:
  "is_str (stream_names s)" "is_str (stream_flags s)" "char_count (stream_names s) \<le> 17" "char_count (stream_flags s) \<le> 9"
proof -
  have names: "ascii (stream_names s)" "length (stream_names s) \<le> 17"
    by (cases s rule: stream_names.cases; simp add: ascii_def)+
  have flags: "ascii (stream_flags s)" "length (stream_flags s) \<le> 9"
    by (cases s rule: stream_flags.cases; simp add: ascii_def)+
  from names flags show "is_str (stream_names s)" "is_str (stream_flags s)"
    "char_count (stream_names s) \<le> 17" "char_count (stream_flags s) \<le> 9"
    by (simp_all add: ascii_string ascii_count)
qed

declare stream_words(1,2) [simp]

text \<open>A literal's characters, one each.\<close>

lemmas literal_str = ascii_string ascii_count ascii_def

lemma id_bounded: "page_bounded page \<Longrightarrow> is_str (op_id page) \<and> char_count (op_id page) \<le> 64"
  by (simp add: page_bounded_def short_str_def)

lemma page_header_parts:
  assumes "page_bounded page"
  shows "is_str (page_header page shown)"
    and "a \<le> c \<Longrightarrow> b \<le> c \<Longrightarrow> char_count (page_header page (Some (a, b))) \<le> char_count (page_header page (Some (c, c)))"
    and "char_count (page_header page None) \<le> char_count (page_header page (Some (c, c)))"
    and "c < 2 ^ 64 \<Longrightarrow> char_count (page_header page (Some (c, c))) \<le> 1230"
proof -
  note strs = how_ended_bounded [OF assms] id_bounded [OF assms]
  define rest where "rest = (if op_end page = None then '' so far'' else '''') @ '', '' @ stream_names (op_streams page)
      @ how_ended (op_end page) @ '']''"
  have rest: "is_str rest"
    using strs by (auto simp: rest_def literal_str simp del: append.simps intro!: is_str_appended)
  have "char_count rest = char_count (if op_end page = None then '' so far'' else '''') + char_count '', ''
      + char_count (stream_names (op_streams page)) + char_count (how_ended (op_end page)) + char_count '']''"
    using strs by (simp add: rest_def literal_str del: append.simps)
  then have rest_le: "char_count rest \<le> 1068"
    using strs stream_words(3) [of "op_streams page"] by (simp add: literal_str split: if_splits)
  have some: "page_header page (Some (x, y)) = ''[command '' @ op_id page @ '': lines '' @ show_nat x @ ''-'' @ show_nat y
      @ '' of '' @ show_nat (last_line (op_text page)) @ rest" for x y
    by (simp add: page_header_def Let_def rest_def)
  have none: "page_header page None = ''[command '' @ op_id page @ '': '' @ show_nat (last_line (op_text page)) @ '' lines'' @ rest"
    by (simp add: page_header_def Let_def rest_def)
  have lit: "is_str ''[command ''" "is_str '': lines ''" "is_str ''-''" "is_str '' of ''" "is_str '': ''" "is_str '' lines''"
    "char_count ''[command '' = 9" "char_count '': lines '' = 8" "char_count ''-'' = 1" "char_count '' of '' = 4"
    "char_count '': '' = 2" "char_count '' lines'' = 6"
    by (simp_all add: literal_str)
  have some_count: "char_count (page_header page (Some (x, y))) = 22 + char_count (op_id page) + length (show_nat x)
      + length (show_nat y) + length (show_nat (last_line (op_text page))) + char_count rest" for x y
    using strs rest lit by (simp add: some del: append.simps)
  have none_count: "char_count (page_header page None) = 17 + char_count (op_id page)
      + length (show_nat (last_line (op_text page))) + char_count rest"
    using strs rest lit by (simp add: none del: append.simps)
  show "is_str (page_header page shown)"
  proof (cases shown)
    case None
    then show ?thesis using strs rest lit by (simp add: none del: append.simps)
  next
    case (Some p)
    then show ?thesis using strs rest lit by (cases p) (simp add: some del: append.simps)
  qed
  show "char_count (page_header page (Some (a, b))) \<le> char_count (page_header page (Some (c, c)))" if "a \<le> c" "b \<le> c"
    using show_nat_mono [OF that(1)] show_nat_mono [OF that(2)] by (simp add: some_count)
  show "char_count (page_header page None) \<le> char_count (page_header page (Some (c, c)))"
    by (simp add: some_count none_count)
  show "char_count (page_header page (Some (c, c))) \<le> 1230" if "c < 2 ^ 64"
  proof -
    have "length (show_nat (last_line (op_text page))) \<le> 20" "length (show_nat c) \<le> 20"
      using assms that by (auto simp: page_bounded_def text_bounded_def intro: u64_digits)
    then show ?thesis using some_count [of c c] rest_le strs by simp
  qed
qed

lemma page_next_parts:
  assumes "page_bounded page"
  shows "is_str (page_next page n c)"
    and "n \<le> c \<Longrightarrow> char_count (page_next page n c) \<le> char_count (page_next page c c)"
    and "c < 2 ^ 64 \<Longrightarrow> char_count (page_next page c c) \<le> 150"
proof -
  note strs = id_bounded [OF assms]
  have lit: "is_str ''[next: demi shell output ''" "is_str '' --lines ''" "is_str ''-''" "is_str '']''"
    "char_count ''[next: demi shell output '' = 25" "char_count '' --lines '' = 9" "char_count ''-'' = 1" "char_count '']'' = 1"
    by (simp_all add: literal_str)
  have count: "char_count (page_next page x y) = 36 + char_count (op_id page) + length (show_nat x) + length (show_nat y)
      + char_count (stream_flags (op_streams page))" for x y
    using strs lit by (simp add: page_next_def del: append.simps)
  show "is_str (page_next page n c)" using strs lit by (simp add: page_next_def del: append.simps)
  show "char_count (page_next page n c) \<le> char_count (page_next page c c)" if "n \<le> c"
    using show_nat_mono [OF that] by (simp add: count)
  show "char_count (page_next page c c) \<le> 150" if "c < 2 ^ 64"
    using count [of c c] u64_digits [OF that] strs stream_words(4) [of "op_streams page"] by simp
qed

lemma page_budget_least:
  assumes "page_bounded page" "c < 2 ^ 64"
  shows "page_reserved page c \<le> 1382" "10618 \<le> page_budget page c" "page_budget page c + page_reserved page c = PAGE_CHARS"
proof -
  show "page_reserved page c \<le> 1382"
    using page_header_parts(4) [OF assms] page_next_parts(3) [OF assms] by (simp add: page_reserved_def)
  then show "10618 \<le> page_budget page c" "page_budget page c + page_reserved page c = PAGE_CHARS"
    by (simp_all add: page_budget_def PAGE_CHARS_def)
qed

text \<open>A piece as a page shows it: well-formed lines, of few characters beside the line's own.\<close>

definition piece_bounded :: "piece \<Rightarrow> bool" where
  "piece_bounded p =
     (case p of
        PieceLine n at bytes \<Rightarrow> n < 2 ^ 64 \<and> length bytes < 2 ^ 64
      | PieceNote s \<Rightarrow> short_str 1100 s)"

lemma tab_str [simp]: "is_str [CHR 0x09]" "char_count [CHR 0x09] = 1"
  by (simp_all add: literal_str)

lemma six_places_parts: "n < 2 ^ 64 \<Longrightarrow> is_str (six_places n)" "n < 2 ^ 64 \<Longrightarrow> char_count (six_places n) \<le> 20"
proof -
  have "ascii (replicate k (CHR '' '') @ show_nat n)" for k
    using ascii_show_nat [of n] by (auto simp: ascii_def list_all_iff)
  then have "ascii (six_places n)" by (simp add: six_places_def Let_def)
  then show "is_str (six_places n)" "n < 2 ^ 64 \<Longrightarrow> char_count (six_places n) \<le> 20"
    using u64_digits [of n] by (simp_all add: ascii_string ascii_count six_places_def Let_def)
qed

lemma utf8_lossy_count: "char_count (from_utf8_lossy bs) \<le> length bs"
proof -
  have "\<exists>cs. utf8_scalars (utf8_lossy ns) = Some cs \<and> length cs \<le> length ns" for ns
  proof (induction ns rule: utf8_lossy.induct)
    case (1 ns)
    show ?case
    proof (cases "utf8_step ns")
      case None
      then show ?thesis by (simp add: utf8_lossy.simps [of ns] utf8_scalars.simps)
    next
      case (Some st)
      show ?thesis
      proof (cases st)
        case (Scalar c r)
        then have step: "utf8_step (take (length ns - length r) ns @ utf8_lossy r) = Some (Scalar c (utf8_lossy r))"
          using Some utf8_step_again by simp
        have eq: "utf8_lossy ns = take (length ns - length r) ns @ utf8_lossy r"
          using Some Scalar by (simp add: utf8_lossy.simps [of ns])
        obtain cs where cs: "utf8_scalars (utf8_lossy r) = Some cs" "length cs \<le> length r"
          using 1(1) [OF Some Scalar] by blast
        have "utf8_scalars (utf8_lossy ns) = Some (c # cs)"
          unfolding eq by (subst utf8_scalars.simps) (simp add: step cs)
        moreover have "length r < length ns" using Some Scalar utf8_step_shorter by blast
        ultimately show ?thesis using cs(2) by simp
      next
        case (Ill n)
        obtain cs where cs: "utf8_scalars (utf8_lossy (drop n ns)) = Some cs" "length cs \<le> length (drop n ns)"
          using 1(2) [OF Some Ill] by blast
        have "utf8_lossy ns = [239, 191, 189] @ utf8_lossy (drop n ns)"
          using Some Ill by (simp add: utf8_lossy.simps [of ns])
        moreover have "\<exists>c. utf8_scalars ([239, 191, 189] @ utf8_lossy (drop n ns)) = Some (c # cs)"
          by (subst utf8_scalars.simps) (simp add: cs in_second_def second_range_def continuation_def)
        moreover have "0 < n \<and> n \<le> length ns" using Some Ill utf8_step_ill by blast
        ultimately show ?thesis using cs(2) by auto
      qed
    qed
  qed
  moreover have "str_bytes (from_utf8_lossy bs) = utf8_lossy (map unat bs)"
    using str_bytes_char_of [OF utf8_lossy_bytes] by (simp add: from_utf8_lossy_def list_all_iff unat_byte_less)
  ultimately show ?thesis by (metis char_count_def chars_def length_map option.simps(5))
qed

lemma page_render_parts:
  assumes "page_bounded page" "piece_bounded p"
  shows "\<forall>l\<in>set (page_render page p). is_str l" "page_render page p \<noteq> []" "chars_taken (page_render page p) \<le> 2500"
proof -
  have "(\<forall>l\<in>set (page_render page p). is_str l) \<and> page_render page p \<noteq> [] \<and> chars_taken (page_render page p) \<le> 2500"
  proof (cases p)
    case (PieceNote s)
    then show ?thesis using assms(2) by (simp add: piece_bounded_def short_str_def)
  next
    case (PieceLine n at bytes)
    let ?s = "from_utf8_lossy bytes"
    have n: "n < 2 ^ 64" and len: "length bytes < 2 ^ 64" using assms(2) by (simp_all add: PieceLine piece_bounded_def)
    have s: "is_str ?s" by (rule from_utf8_lossy_is_str)
    show ?thesis
    proof (cases "char_count ?s \<le> LINE_CHARS")
      case True
      have "is_str (six_places n @ [CHR 0x09] @ ?s)"
        using six_places_parts(1) [OF n] s by (intro is_str_appended) simp_all
      moreover have "char_count (six_places n @ [CHR 0x09] @ ?s) = char_count (six_places n) + 1 + char_count ?s"
        using six_places_parts(1) [OF n] s by (simp del: append.simps append_Cons)
      ultimately show ?thesis
        using True six_places_parts(2) [OF n] by (simp add: PieceLine Let_def LINE_CHARS_def)
    next
      case False
      let ?t = "take (char_offset ?s LINE_CHARS) ?s" and ?note = "long_line_note page n (char_count ?s)"
      have t: "is_str ?t" "char_count ?t \<le> LINE_CHARS"
        using char_offset_splits [OF s, of LINE_CHARS] by (simp_all add: char_count_def)
      have first: "is_str (six_places n @ [CHR 0x09] @ ?t)"
        using six_places_parts(1) [OF n] t(1) by (intro is_str_appended) simp_all
      have first_count: "char_count (six_places n @ [CHR 0x09] @ ?t) \<le> 2021"
        using six_places_parts [OF n] t by (simp add: LINE_CHARS_def del: append.simps append_Cons)
      have lit: "is_str ''[line ''" "is_str '' is ''" "is_str '' characters; whole: demi shell output ''" "is_str '' --raw''"
        "is_str '' | sed -n ''" "is_str ''p]''" "char_count ''[line '' = 6" "char_count '' is '' = 4"
        "char_count '' characters; whole: demi shell output '' = 38" "char_count '' --raw'' = 6"
        "char_count '' | sed -n '' = 10" "char_count ''p]'' = 2"
        by (simp_all add: literal_str)
      have noted: "is_str ?note"
        using lit id_bounded [OF assms(1)] by (simp add: long_line_note_def del: append.simps append_Cons)
      have "char_count ?note = 66 + 2 * length (show_nat n) + length (show_nat (char_count ?s)) + char_count (op_id page)
          + char_count (stream_flags (op_streams page))"
        using lit id_bounded [OF assms(1)] by (simp add: long_line_note_def del: append.simps append_Cons)
      moreover have "length (show_nat (char_count ?s)) \<le> 20"
        using utf8_lossy_count [of bytes] len by (intro u64_digits) simp
      ultimately have "char_count ?note \<le> 230"
        using u64_digits [OF n] id_bounded [OF assms(1)] stream_words(4) [of "op_streams page"] by linarith
      with first first_count noted False show ?thesis by (simp add: PieceLine Let_def)
    qed
  qed
  then show "\<forall>l\<in>set (page_render page p). is_str l" "page_render page p \<noteq> []" "chars_taken (page_render page p) \<le> 2500"
    by simp_all
qed

section \<open>What a page fills\<close>

text \<open>The pieces of a text, each of them bounded, with numbers from the first line to the last.\<close>

lemma text_pieces_lines:
  assumes "PieceLine m a l \<in> set (text_pieces n at bs gap)"
  shows "\<exists>k\<le>length bs. m = n + newlines (take k bs) \<and> k < length bs \<and> a = at + k \<and> l = take (length l) (drop k bs)
    \<and> LF_byte \<notin> set l \<and> k + length l \<le> length bs"
  using assms
proof (induction n at bs gap rule: text_pieces.induct)
  case (1 n at bs gap)
  have noLF: "LF_byte \<notin> set (take j bs)" "newlines (take j bs) = 0" if "j \<le> line_length bs" for j
  proof -
    have "\<forall>b\<in>set (take (line_length bs) bs). b \<noteq> LF_byte"
      using position_take [where P="\<lambda>b. b = LF_byte" and xs=bs] by (simp add: line_length_def split: option.splits)
    moreover have "set (take j bs) \<subseteq> set (take (line_length bs) bs)" using that by (rule set_take_subset_set_take)
    ultimately show "LF_byte \<notin> set (take j bs)" by blast
    then show "newlines (take j bs) = 0" by (rule newlines_none)
  qed
  consider (here) "gap_here at gap" | (nil) "\<not> gap_here at gap" "bs = []"
    | (split) "\<not> gap_here at gap" "bs \<noteq> []" "gap_within at (at + line_length bs) gap"
    | (line) "\<not> gap_here at gap" "bs \<noteq> []" "\<not> gap_within at (at + line_length bs) gap"
    by blast
  then show ?case
  proof cases
    case here
    then show ?thesis using 1(1) [OF here] 1(4) by (simp add: text_pieces.simps [of n at bs gap])
  next
    case nil
    then show ?thesis using 1(4) by (simp add: text_pieces_Nil)
  next
    case split
    then obtain g k where gap: "gap = Some (g, k)" "at < g" "g \<le> at + line_length bs" by (cases gap) auto
    let ?j = "g - at"
    have j: "?j \<le> line_length bs" "?j \<le> length bs" using gap line_length_le [of bs] by simp_all
    have "PieceLine m a l = PieceLine n at (take ?j bs) \<or> PieceLine m a l \<in> set (text_pieces n g (drop ?j bs) gap)"
      using 1(4) by (simp add: gap(1) text_pieces_split [OF gap(2,3) split(2)] text_pieces_here)
    then show ?thesis
    proof
      assume "PieceLine m a l = PieceLine n at (take ?j bs)"
      then show ?thesis using noLF(1) [OF j(1)] split(2) j by (intro exI [of _ 0]) (auto simp: min_def)
    next
      assume "PieceLine m a l \<in> set (text_pieces n g (drop ?j bs) gap)"
      then obtain i where i: "i \<le> length (drop ?j bs)" "m = n + newlines (take i (drop ?j bs))" "i < length (drop ?j bs)"
        "a = g + i" "l = take (length l) (drop i (drop ?j bs))" "LF_byte \<notin> set l" "i + length l \<le> length (drop ?j bs)"
        using 1(2) [OF split] gap by auto
      have "newlines (take (?j + i) bs) = newlines (take i (drop ?j bs))"
        using noLF(2) [OF j(1)] by (simp add: take_add)
      then show ?thesis using i gap j by (intro exI [of _ "?j + i"]) (auto simp: add.commute)
    qed
  next
    case line
    let ?e = "line_length bs"
    have e: "?e \<le> length bs" by (rule line_length_le)
    have "PieceLine m a l = PieceLine n at (take ?e bs)
      \<or> PieceLine m a l \<in> set (text_pieces (if ?e < length bs then n + 1 else n) (at + ?e + 1) (drop (?e + 1) bs) gap)"
      using 1(4) by (simp add: text_pieces_line [OF line(2,1,3)])
    then show ?thesis
    proof
      assume "PieceLine m a l = PieceLine n at (take ?e bs)"
      then show ?thesis using noLF(1) [of ?e] line(2) e by (intro exI [of _ 0]) (auto simp: min_def)
    next
      assume "PieceLine m a l \<in> set (text_pieces (if ?e < length bs then n + 1 else n) (at + ?e + 1) (drop (?e + 1) bs) gap)"
      then obtain i where i: "m = (if ?e < length bs then n + 1 else n) + newlines (take i (drop (?e + 1) bs))"
        "i < length (drop (?e + 1) bs)" "a = at + ?e + 1 + i" "l = take (length l) (drop i (drop (?e + 1) bs))" "LF_byte \<notin> set l"
        "i + length l \<le> length (drop (?e + 1) bs)"
        using 1(3) [OF line] by auto
      have less: "?e < length bs" using i(2) by simp
      then obtain p where "position (\<lambda>b. b = LF_byte) bs = Some p"
        by (cases "position (\<lambda>b. b = LF_byte) bs") (simp_all add: line_length_def)
      then have at_e: "bs ! ?e = LF_byte"
        using position_Some [of "\<lambda>b. b = LF_byte" bs p] by (simp add: line_length_def)
      have "newlines (take (?e + 1) bs) = 1"
        using less at_e noLF(2) [of ?e] by (simp add: take_Suc_conv_app_nth)
      then have "newlines (take (?e + 1 + i) bs) = 1 + newlines (take i (drop (?e + 1) bs))" by (simp add: take_add del: One_nat_def)
      then show ?thesis using i less by (intro exI [of _ "?e + 1 + i"]) (auto simp: add.commute add.left_commute)
    qed
  qed
qed

lemma text_pieces_notes: "PieceNote s \<in> set (text_pieces n at bs gap) \<Longrightarrow> \<exists>g k. gap = Some (g, k) \<and> s = gap_note k"
proof (induction n at bs gap rule: text_pieces.induct)
  case (1 n at bs gap)
  show ?case
    using 1(4) 1(1-3) by (subst (asm) text_pieces.simps) (auto simp: gap_here_def split: if_splits option.splits)
qed

section \<open>Where lines start\<close>

lemma newline_places_snoc:
  "newline_places (bs @ [b]) = newline_places bs @ (if b = LF_byte then [length bs] else [])"
proof -
  have "filter (\<lambda>i. (bs @ [b]) ! i = LF_byte) [0..<length bs] = filter (\<lambda>i. bs ! i = LF_byte) [0..<length bs]"
    by (rule filter_cong) (auto simp: nth_append)
  then show ?thesis by (simp add: newline_places_def)
qed

lemma newline_places_at:
  "length (newline_places bs) = newlines bs \<and>
   (\<forall>j<newlines bs. newline_places bs ! j < length bs \<and> bs ! (newline_places bs ! j) = LF_byte
      \<and> newlines (take (newline_places bs ! j) bs) = j)"
proof (induction bs rule: rev_induct)
  case Nil
  show ?case by (simp add: newline_places_def)
next
  case (snoc b bs)
  then show ?case by (auto simp: newline_places_snoc nth_append less_Suc_eq)
qed

lemma line_start_at:
  assumes "line_start t i = Some a"
  shows "a < length (ot_bytes t)" "newlines (take a (ot_bytes t)) = i" "ends_at_line (take a (ot_bytes t))"
proof -
  let ?bs = "ot_bytes t"
  have "a < length ?bs \<and> newlines (take a ?bs) = i \<and> ends_at_line (take a ?bs)"
  proof (cases "i = 0")
    case True
    then show ?thesis using assms by (auto simp: line_start_def Let_def ends_at_line_def split: if_splits)
  next
    case False
    then obtain p where p: "i - 1 < length (newline_places ?bs)" "newline_places ?bs ! (i - 1) = p" "p + 1 < length ?bs" "a = p + 1"
      using assms by (auto simp: line_start_def Let_def split: option.splits if_splits)
    then have "?bs ! p = LF_byte" "newlines (take p ?bs) = i - 1" using newline_places_at [of ?bs] by auto
    then show ?thesis using p False by (simp add: take_Suc_conv_app_nth ends_at_line_def)
  qed
  then show "a < length ?bs" "newlines (take a ?bs) = i" "ends_at_line (take a ?bs)" by auto
qed

lemma newlines_some: "LF_byte \<in> set xs \<Longrightarrow> 0 < newlines xs"
  by (induction xs) auto

lemma last_line_bound: "a < length (ot_bytes t) \<Longrightarrow> ot_first_line t + newlines (take a (ot_bytes t)) \<le> last_line t"
proof -
  assume a: "a < length (ot_bytes t)"
  let ?bs = "ot_bytes t"
  have split: "newlines ?bs = newlines (take a ?bs) + newlines (drop a ?bs)"
    by (metis append_take_drop_id newlines_simps(3))
  have "newlines (take a ?bs) + 1 \<le> text_line_count t"
  proof (cases "last ?bs = LF_byte")
    case True
    have "drop a ?bs \<noteq> []" using a by simp
    then have "last (drop a ?bs) \<in> set (drop a ?bs)" by (rule last_in_set)
    moreover have "last (drop a ?bs) = LF_byte" using a True by (simp add: last_drop)
    ultimately have "LF_byte \<in> set (drop a ?bs)" by metis
    then have "0 < newlines (drop a ?bs)" by (rule newlines_some)
    then show ?thesis using split True by (simp add: text_line_count_def Let_def)
  next
    case False
    then show ?thesis using split a by (auto simp: text_line_count_def Let_def)
  qed
  then show ?thesis by (simp add: last_line_def)
qed

definition text_ok :: "output_text \<Rightarrow> bool" where
  "text_ok t = (1 \<le> ot_first_line t \<and> (\<forall>g k. ot_gap t = Some (g, k) \<longrightarrow> g \<le> length (ot_bytes t)))"

lemma forward_text_from:
  assumes "text_ok t"
  shows "forward_text t start =
    (case line_start t (max start (ot_first_line t) - ot_first_line t) of
       Some a \<Rightarrow> text_pieces (max start (ot_first_line t)) a (drop a (ot_bytes t))
         (case ot_gap t of Some (g, k) \<Rightarrow> if a \<le> g then Some (g, k) else None | None \<Rightarrow> None)
     | None \<Rightarrow> []) @ missing_piece t True"
proof (cases "line_start t (max start (ot_first_line t) - ot_first_line t)")
  case None
  then show ?thesis
    unfolding forward_text_def
    by (subst forward_pieces_from) (auto simp: forward_start_def Let_def text_pieces_Nil missing_piece_def split: option.splits)
next
  case (Some a)
  have "a \<le> length (ot_bytes t)" using line_start_at(1) [OF Some] by simp
  then show ?thesis
    unfolding forward_text_def using assms Some
    by (subst forward_pieces_from) (auto simp: forward_start_def Let_def missing_piece_def text_ok_def split: option.splits if_splits)
qed

lemma gap_note_short: "n < 2 ^ 64 \<Longrightarrow> short_str 1100 (gap_note n)"
  using u64_digits [of n] by (simp add: gap_note_def short_str_def literal_str del: append.simps append_Cons)

lemma missing_line_short: "mi_bytes m < 2 ^ 64 \<Longrightarrow> short_str 1024 (mi_reason m) \<Longrightarrow> short_str 1100 (missing_line m)"
  using u64_digits [of "mi_bytes m"] by (simp add: missing_line_def short_str_def literal_str del: append.simps append_Cons)

lemma forward_text_bounded:
  assumes "text_ok t" "text_bounded t" "p \<in> set (forward_text t start)"
  shows "piece_bounded p"
proof -
  have missing: "piece_bounded p" if "p \<in> set (missing_piece t True)"
    using that assms(2) missing_line_short by (auto simp: missing_piece_def piece_bounded_def text_bounded_def split: option.splits)
  show ?thesis
  proof (cases "line_start t (max start (ot_first_line t) - ot_first_line t)")
    case None
    then show ?thesis using assms missing by (simp add: forward_text_from)
  next
    case (Some a)
    let ?n = "max start (ot_first_line t)" and ?bs = "ot_bytes t"
    let ?gap = "case ot_gap t of Some (g, k) \<Rightarrow> if a \<le> g then Some (g, k) else None | None \<Rightarrow> None"
    have "p \<in> set (text_pieces ?n a (drop a ?bs) ?gap) \<or> p \<in> set (missing_piece t True)"
      using assms(1,3) Some by (simp add: forward_text_from)
    then show ?thesis
    proof
      assume p: "p \<in> set (text_pieces ?n a (drop a ?bs) ?gap)"
      show ?thesis
      proof (cases p)
        case (PieceLine m at l)
        obtain k where k: "m = ?n + newlines (take k (drop a ?bs))" "k < length (drop a ?bs)" "k + length l \<le> length (drop a ?bs)"
          using text_pieces_lines p PieceLine by blast
        have "newlines (take (a + k) ?bs) = newlines (take a ?bs) + newlines (take k (drop a ?bs))" by (simp add: take_add)
        then have "m = ot_first_line t + newlines (take (a + k) ?bs)" using k(1) line_start_at(2) [OF Some] by simp
        also have "\<dots> \<le> last_line t" using k(2) by (intro last_line_bound) simp
        finally have "m < 2 ^ 64" using assms(2) by (simp add: text_bounded_def)
        moreover have "length l \<le> length ?bs" using k(3) by simp
        then have "length l < 2 ^ 64" using assms(2) by (simp add: text_bounded_def)
        ultimately show ?thesis by (simp add: PieceLine piece_bounded_def)
      next
        case (PieceNote s)
        obtain g k where "?gap = Some (g, k)" "s = gap_note k" using text_pieces_notes p PieceNote by blast
        then show ?thesis using assms(2) gap_note_short
          by (auto simp: PieceNote piece_bounded_def text_bounded_def split: option.splits if_splits)
      qed
    qed (rule missing)
  qed
qed

section \<open>A page's characters\<close>

definition fill_ok :: "nat \<Rightarrow> nat \<Rightarrow> page_fill \<Rightarrow> bool" where
  "fill_ok thru budget fill =
     (pf_used fill \<le> budget \<and> chars_taken (pf_lines fill) = pf_used fill \<and> (\<forall>l\<in>set (pf_lines fill). is_str l)
      \<and> (\<forall>a b. pf_shown fill = Some (a, b) \<longrightarrow> a \<le> thru \<and> b \<le> thru))"

lemma fill_page_ok:
  assumes "page_bounded page" "\<forall>p\<in>set ps. piece_bounded p" "2500 \<le> budget" "fill_ok thru budget fill"
    "pf_lines fill = [] \<Longrightarrow> pf_used fill = 0"
    "fill_page page thru budget ps fill = (fill', next_line)"
  shows "fill_ok thru budget fill' \<and> (\<forall>n. next_line = Some n \<longrightarrow> n \<le> thru)"
  using assms
proof (induction ps arbitrary: fill)
  case Nil
  then show ?case by simp
next
  case (Cons p ps)
  let ?r = "page_render page p"
  let ?fill = "\<lparr>pf_lines = pf_lines fill @ ?r, pf_used = pf_used fill + chars_taken ?r, pf_shown = shown_to (piece_number p) (pf_shown fill)\<rparr>"
  have r: "\<forall>l\<in>set ?r. is_str l" "?r \<noteq> []" "chars_taken ?r \<le> 2500"
    using page_render_parts [OF Cons.prems(1), of p] Cons.prems(2) by auto
  consider (past) n where "piece_number p = Some n" "thru < n"
    | (full) "\<forall>n. piece_number p = Some n \<longrightarrow> n \<le> thru" "budget < pf_used fill + chars_taken ?r" "pf_lines fill \<noteq> []"
    | (fits) "\<forall>n. piece_number p = Some n \<longrightarrow> n \<le> thru" "pf_used fill + chars_taken ?r \<le> budget \<or> pf_lines fill = []"
    by (metis not_le)
  then show ?case
  proof cases
    case past
    then show ?thesis using Cons.prems by (auto simp: Let_def)
  next
    case full
    then show ?thesis using Cons.prems by (auto simp: Let_def split: option.splits if_splits)
  next
    case fits
    have ok: "fill_ok thru budget ?fill"
      using Cons.prems(3,4,5) fits r by (auto simp: fill_ok_def shown_to_def split: option.splits)
    have "\<not> (case piece_number p of Some n \<Rightarrow> thru < n | None \<Rightarrow> False)"
      using fits(1) by (auto split: option.splits simp: not_less)
    moreover have "\<not> (budget < pf_used fill + chars_taken ?r \<and> pf_lines fill \<noteq> [])" using fits(2) by auto
    ultimately have eq: "fill_page page thru budget (p # ps) fill = fill_page page thru budget ps ?fill"
      unfolding fill_page.simps Let_def by (simp only: if_False)
    show ?thesis
      using Cons.prems r(2) by (intro Cons.IH [OF Cons.prems(1) _ Cons.prems(3) ok]) (auto simp: eq [symmetric])
  qed
qed

lemma page_forward_chars:
  assumes "text_ok (op_text page)" "page_bounded page" "thru < 2 ^ 64"
  shows "is_str (page_forward page start thru)" "char_count (page_forward page start thru) \<le> PAGE_CHARS"
proof -
  obtain fill next_line where filled: "page_filled page start thru = (fill, next_line)" by (cases "page_filled page start thru") auto
  have bounded: "\<forall>p\<in>set (forward_text (op_text page) start). piece_bounded p"
    using forward_text_bounded [OF assms(1)] assms(2) by (auto simp: page_bounded_def)
  note budget = page_budget_least [OF assms(2,3)]
  have ok: "fill_ok thru (page_budget page thru) fill \<and> (\<forall>n. next_line = Some n \<longrightarrow> n \<le> thru)"
  proof (rule fill_page_ok [OF assms(2) bounded])
    show "2500 \<le> page_budget page thru" using budget(2) by simp
    show "fill_ok thru (page_budget page thru) page_empty" by (simp add: fill_ok_def page_empty_def)
    show "fill_page page thru (page_budget page thru) (forward_text (op_text page) start) page_empty = (fill, next_line)"
      using filled by (simp add: page_filled_def)
  qed (simp add: page_empty_def)
  let ?header = "page_header page (pf_shown fill)"
  let ?next = "case next_line of Some n \<Rightarrow> [page_next page n thru] | None \<Rightarrow> []"
  have header: "is_str ?header" "char_count ?header \<le> char_count (page_header page (Some (thru, thru)))"
    using page_header_parts(1-3) [OF assms(2)] ok by (cases "pf_shown fill"; auto simp: fill_ok_def)+
  have next_str: "\<forall>l\<in>set ?next. is_str l" "chars_taken ?next \<le> char_count (page_next page thru thru) + 1"
    using page_next_parts(1,2) [OF assms(2)] ok by (auto split: option.splits)
  let ?lines = "?header # pf_lines fill @ ?next"
  have strs: "?lines \<noteq> []" "\<forall>l\<in>set ?lines. is_str l"
    using header(1) next_str(1) ok by (auto simp: fill_ok_def)
  have form: "page_forward page start thru = join [CHR 0x0A] ?lines @ [CHR 0x0A]"
    by (simp add: page_forward_def filled)
  show "is_str (page_forward page start thru)" unfolding form by (rule join_lines(1) [OF strs])
  have "char_count (page_forward page start thru) = chars_taken ?lines" unfolding form by (rule join_lines(2) [OF strs])
  also have "\<dots> = char_count ?header + 1 + pf_used fill + chars_taken ?next" using ok by (simp add: fill_ok_def)
  also have "\<dots> \<le> page_reserved page thru + page_budget page thru"
    using header(2) next_str(2) ok by (simp add: page_reserved_def fill_ok_def)
  finally show "char_count (page_forward page start thru) \<le> PAGE_CHARS" using budget(3) by simp
qed

end
