(* ===== verification/Reading_Facts.thy ===== *)
theory Reading_Facts imports Page_Facts begin

text \<open>
  Reading a text a page at a time, the pages of a command's call, and what a look shows as new.
\<close>

section \<open>The lines of a text without notes\<close>

definition lines_in :: "byte list \<Rightarrow> nat" where
  "lines_in bs = newlines bs + (if ends_at_line bs then 0 else 1)"

lemma last_line_lines: "ot_first_line t = 1 \<Longrightarrow> last_line t = lines_in (ot_bytes t)"
  by (auto simp: last_line_def text_line_count_def lines_in_def ends_at_line_def Let_def)

lemma text_pieces_numbers: "map piece_number (text_pieces n at bs None) = map Some [n..<n + lines_in bs]"
proof (induction "length bs" arbitrary: n at bs rule: less_induct)
  case less
  show ?case
  proof (cases "bs = []")
    case True
    then show ?thesis by (simp add: text_pieces_Nil lines_in_def ends_at_line_def)
  next
    case False
    let ?e = "line_length bs"
    have line: "text_pieces n at bs None = PieceLine n at (take ?e bs)
        # text_pieces (if ?e < length bs then n + 1 else n) (at + ?e + 1) (drop (?e + 1) bs) None"
      using False by (intro text_pieces_line) simp_all
    show ?thesis
    proof (cases "LF_byte \<in> set bs")
      case True
      then obtain l ys where bs: "bs = l @ LF_byte # ys" "LF_byte \<notin> set l" by (meson split_list_first)
      then have e: "?e = length l" by (simp add: line_length_append_line)
      have "lines_in bs = Suc (lines_in ys)" using bs by (auto simp: lines_in_def newlines_none ends_at_line_def)
      moreover have "map piece_number (text_pieces (n + 1) (at + ?e + 1) ys None) = map Some [n + 1..<n + 1 + lines_in ys]"
        by (rule less) (simp add: bs)
      ultimately show ?thesis using line e bs by (simp add: upt_conv_Cons)
    next
      case none: False
      moreover have "last bs \<noteq> LF_byte" using none False last_in_set by metis
      ultimately have "?e = length bs" "lines_in bs = 1"
        using False by (auto simp: line_length_whole lines_in_def newlines_none ends_at_line_def)
      then show ?thesis using line by (simp add: text_pieces_Nil)
    qed
  qed
qed

lemma line_start_found:
  assumes "i < lines_in (ot_bytes t)"
  shows "\<exists>a. line_start t i = Some a"
proof (cases "i = 0")
  case True
  have "ot_bytes t \<noteq> []" using assms by (auto simp: lines_in_def ends_at_line_def)
  then show ?thesis using True by (simp add: line_start_def Let_def)
next
  case False
  let ?bs = "ot_bytes t"
  have i: "i - 1 < newlines ?bs" using assms False by (auto simp: lines_in_def split: if_splits)
  note places = newline_places_at [of ?bs]
  define p where "p = newline_places ?bs ! (i - 1)"
  have p: "p < length ?bs" "?bs ! p = LF_byte" "newlines (take p ?bs) = i - 1" using places i by (auto simp: p_def)
  have "p + 1 < length ?bs"
  proof (rule ccontr)
    assume "\<not> p + 1 < length ?bs"
    then have "?bs = take (Suc p) ?bs" by simp
    also have "\<dots> = take p ?bs @ [LF_byte]" using p(1,2) by (simp add: take_Suc_conv_app_nth)
    finally have whole: "?bs = take p ?bs @ [LF_byte]" .
    then have "ends_at_line ?bs" by (metis ends_at_line_def last_snoc)
    moreover have "newlines ?bs = i"
      using p(3) False by (subst whole) (simp del: append_take_drop_id)
    ultimately show False using assms by (simp add: lines_in_def)
  qed
  then show ?thesis
    using False places i by (simp add: line_start_def Let_def get_at_def p_def)
qed

definition whole_text :: "output_text \<Rightarrow> bool" where
  "whole_text t = (ot_first_line t = 1 \<and> ot_gap t = None \<and> ot_missing t = None)"

lemma forward_whole:
  assumes "whole_text t"
  shows "map piece_number (forward_text t 1) = map Some [1..<last_line t + 1]"
    and "1 \<le> k \<Longrightarrow> k \<le> last_line t \<Longrightarrow> forward_text t k = drop (k - 1) (forward_text t 1)"
proof -
  let ?bs = "ot_bytes t"
  have first: "ot_first_line t = 1" and last: "last_line t = lines_in ?bs"
    using assms last_line_lines by (simp_all add: whole_text_def)
  have ok: "text_ok t" using assms by (simp add: text_ok_def whole_text_def)
  have all: "forward_text t 1 = text_pieces 1 0 ?bs None"
  proof (cases "?bs = []")
    case True
    then show ?thesis using assms ok
      by (simp add: forward_text_from line_start_def text_pieces_Nil missing_piece_def whole_text_def)
  next
    case False
    then show ?thesis using assms ok
      by (simp add: forward_text_from line_start_def missing_piece_def whole_text_def Let_def)
  qed
  show "map piece_number (forward_text t 1) = map Some [1..<last_line t + 1]"
    unfolding all last using text_pieces_numbers [of 1 0 ?bs] by (simp add: add.commute)
  show "forward_text t k = drop (k - 1) (forward_text t 1)" if k: "1 \<le> k" "k \<le> last_line t"
  proof -
    obtain a where a: "line_start t (k - 1) = Some a" using line_start_found k last by force
    note start = line_start_at [OF a]
    have from_k: "forward_text t k = text_pieces k a (drop a ?bs) None"
      using assms ok a k(1) by (simp add: forward_text_from missing_piece_def whole_text_def max_def)
    have "length (text_pieces 1 0 (take a ?bs) None) = lines_in (take a ?bs)"
      using arg_cong [OF text_pieces_numbers [of 1 0 "take a ?bs"], of length] by simp
    moreover have "lines_in (take a ?bs) = k - 1" using start by (simp add: lines_in_def)
    moreover have "text_pieces 1 0 (take a ?bs @ drop a ?bs) None =
        text_pieces 1 0 (take a ?bs) None @ text_pieces k a (drop a ?bs) None"
      using text_pieces_append [OF start(3), of None 0 1 "drop a ?bs"] start(1,2) k(1) by simp
    ultimately show ?thesis unfolding from_k all by simp
  qed
qed

lemma forward_whole_at:
  assumes "whole_text t"
  shows "length (forward_text t 1) = last_line t"
    and "i < last_line t \<Longrightarrow> piece_number (forward_text t 1 ! i) = Some (i + 1)"
proof -
  note numbers = forward_whole(1) [OF assms]
  show len: "length (forward_text t 1) = last_line t"
    using arg_cong [OF numbers, of length] by simp
  show "piece_number (forward_text t 1 ! i) = Some (i + 1)" if "i < last_line t"
  proof -
    have "piece_number (forward_text t 1 ! i) = map piece_number (forward_text t 1) ! i" using that len by simp
    also have "\<dots> = map Some [1..<last_line t + 1] ! i" by (simp only: numbers)
    also have "\<dots> = Some ([1..<last_line t + 1] ! i)" using that by (intro nth_map) simp
    also have "[1..<last_line t + 1] ! i = 1 + i" using that by (intro nth_upt) simp
    finally show ?thesis by simp
  qed
qed

section \<open>The pages of a text\<close>

lemma page_render_some: "page_render page p \<noteq> []"
  by (cases p) (simp_all add: Let_def)

text \<open>What a page fills: pieces one after the other, up to the line the next page starts with.\<close>

lemma fill_page_takes:
  assumes "fill_page page thru budget ps fill = (fill', next_line)" "\<forall>p\<in>set ps. piece_number p \<noteq> None"
  shows "\<exists>m\<le>length ps. pf_lines fill' = pf_lines fill @ concat (map (page_render page) (take m ps))
    \<and> (\<forall>p\<in>set (take m ps). the (piece_number p) \<le> thru)
    \<and> (case next_line of
         Some n \<Rightarrow> m < length ps \<and> piece_number (ps ! m) = Some n \<and> n \<le> thru \<and> (0 < m \<or> pf_lines fill \<noteq> [])
       | None \<Rightarrow> m = length ps \<or> thru < the (piece_number (ps ! m)))"
  using assms
proof (induction ps arbitrary: fill)
  case Nil
  then show ?case by auto
next
  case (Cons p ps)
  obtain n where n: "piece_number p = Some n" using Cons.prems(2) by auto
  let ?r = "page_render page p"
  let ?fill = "\<lparr>pf_lines = pf_lines fill @ ?r, pf_used = pf_used fill + chars_taken ?r, pf_shown = shown_to (Some n) (pf_shown fill)\<rparr>"
  consider (past) "thru < n"
    | (full) "n \<le> thru" "budget < pf_used fill + chars_taken ?r \<and> pf_lines fill \<noteq> []"
    | (fits) "n \<le> thru" "\<not> (budget < pf_used fill + chars_taken ?r \<and> pf_lines fill \<noteq> [])"
    by linarith
  then show ?case
  proof cases
    case past
    then show ?thesis using Cons.prems(1) n by (intro exI [of _ 0]) (simp add: Let_def)
  next
    case full
    then have "fill' = fill" "next_line = Some n" using Cons.prems(1) n by (simp_all add: Let_def)
    then show ?thesis using full n by (intro exI [of _ 0]) simp
  next
    case fits
    have "fill_page page thru budget ps ?fill = (fill', next_line)"
      using Cons.prems(1) fits n unfolding fill_page.simps Let_def by (simp add: not_less)
    moreover have "\<forall>p\<in>set ps. piece_number p \<noteq> None" using Cons.prems(2) by simp
    ultimately obtain m where m: "m \<le> length ps" "pf_lines fill' = pf_lines ?fill @ concat (map (page_render page) (take m ps))"
      "\<forall>p\<in>set (take m ps). the (piece_number p) \<le> thru"
      "case next_line of
         Some n \<Rightarrow> m < length ps \<and> piece_number (ps ! m) = Some n \<and> n \<le> thru \<and> (0 < m \<or> pf_lines ?fill \<noteq> [])
       | None \<Rightarrow> m = length ps \<or> thru < the (piece_number (ps ! m))"
      using Cons.IH by blast
    have "case next_line of
         Some n \<Rightarrow> Suc m < length (p # ps) \<and> piece_number ((p # ps) ! Suc m) = Some n \<and> n \<le> thru \<and> (0 < Suc m \<or> pf_lines fill \<noteq> [])
       | None \<Rightarrow> Suc m = length (p # ps) \<or> thru < the (piece_number ((p # ps) ! Suc m))"
      using m(4) by (cases next_line) simp_all
    then show ?thesis using m(1-3) n fits(1) by (intro exI [of _ "Suc m"] conjI) simp_all
  qed
qed

text \<open>
  Whoever prints a page and then each next one its last line names: what the pages filled, with as
  many pages as the count allows.
\<close>

fun read_on :: "nat \<Rightarrow> output_page \<Rightarrow> nat \<Rightarrow> nat \<Rightarrow> page_fill list option" where
  "read_on 0 page start thru = None"
| "read_on (Suc pages) page start thru =
     (case page_filled page start thru of
        (fill, None) \<Rightarrow> Some [fill]
      | (fill, Some n) \<Rightarrow> map_option ((#) fill) (read_on pages page n thru))"

lemma read_on_prints:
  assumes "whole_text (op_text page)" "1 \<le> start" "start \<le> thru" "thru \<le> last_line (op_text page)"
    "thru + 1 - start \<le> pages"
  shows "\<exists>fills. read_on pages page start thru = Some fills
    \<and> concat (map pf_lines fills) =
        concat (map (page_render page) (take (thru + 1 - start) (drop (start - 1) (forward_text (op_text page) 1))))"
  using assms(2-)
proof (induction pages arbitrary: start)
  case 0
  then show ?case by simp
next
  case (Suc pages)
  let ?t = "op_text page" and ?all = "forward_text (op_text page) 1"
  let ?ps = "drop (start - 1) ?all"
  note whole = forward_whole [OF assms(1)]
  have numbers: "length ?all = last_line ?t" "\<And>i. i < last_line ?t \<Longrightarrow> piece_number (?all ! i) = Some (i + 1)"
    by (rule forward_whole_at [OF assms(1)])+
  have from_start: "forward_text ?t start = ?ps" using Suc.prems by (intro whole(2)) simp_all
  have at: "piece_number (?ps ! i) = Some (start + i)" if "i < length ?ps" for i
    using numbers(2) [of "start - 1 + i"] that Suc.prems numbers(1) by simp
  have named: "\<forall>p\<in>set ?ps. piece_number p \<noteq> None" using at by (auto simp: in_set_conv_nth)
  obtain fill next_line where filled: "page_filled page start thru = (fill, next_line)" by (cases "page_filled page start thru") auto
  then have "fill_page page thru (page_budget page thru) ?ps page_empty = (fill, next_line)"
    by (simp add: page_filled_def from_start)
  moreover have empty: "pf_lines page_empty = []" by (simp add: page_empty_def)
  ultimately obtain m where m: "m \<le> length ?ps"
    "pf_lines fill = concat (map (page_render page) (take m ?ps))" "\<forall>p\<in>set (take m ?ps). the (piece_number p) \<le> thru"
    "case next_line of Some n \<Rightarrow> m < length ?ps \<and> piece_number (?ps ! m) = Some n \<and> n \<le> thru \<and> (0 < m \<or> ([] :: string list) \<noteq> [])
       | None \<Rightarrow> m = length ?ps \<or> thru < the (piece_number (?ps ! m))"
    using fill_page_takes [OF _ named, of page thru "page_budget page thru" page_empty fill next_line]
    unfolding empty append_Nil by blast
  have m_le: "start + m \<le> thru + 1"
  proof (cases m)
    case (Suc j)
    then have "?ps ! j \<in> set (take m ?ps)" using m(1) by (auto simp: in_set_conv_nth)
    then show ?thesis using m(3) at [of j] Suc m(1) by auto
  qed (use Suc.prems in simp)
  show ?case
  proof (cases next_line)
    case None
    have "m = thru + 1 - start"
    proof (cases "m = length ?ps")
      case True
      then show ?thesis using m_le numbers(1) Suc.prems by simp
    next
      case False
      then have "thru < start + m" using m(1,4) None at [of m] by simp
      then show ?thesis using m_le by simp
    qed
    then show ?thesis using filled None m(2) by simp
  next
    case (Some n)
    then have n: "n = start + m" "n \<le> thru" "0 < m" using m(4) at [of m] by auto
    obtain fills where rest: "read_on pages page n thru = Some fills"
      "concat (map pf_lines fills) = concat (map (page_render page) (take (thru + 1 - n) (drop (n - 1) ?all)))"
    proof -
      have "1 \<le> n" "thru + 1 - n \<le> pages" using Suc.prems(1,4) n(1,3) by linarith+
      then show ?thesis using Suc.IH [of n] n(2) Suc.prems(3) that by blast
    qed
    have "n - 1 = start - 1 + m" using n(1) Suc.prems(1) by simp
    then have "drop (n - 1) ?all = drop m ?ps" by (simp add: add.commute)
    moreover have "take m ?ps @ take (thru + 1 - n) (drop m ?ps) = take (thru + 1 - start) ?ps"
    proof -
      have "thru + 1 - start = m + (thru + 1 - n)" using n by simp
      then show ?thesis by (simp only: take_add)
    qed
    ultimately have "pf_lines fill @ concat (map pf_lines fills) = concat (map (page_render page) (take (thru + 1 - start) ?ps))"
      unfolding rest(2) m(2) by (simp flip: map_append concat_append)
    then show ?thesis using filled Some rest(1) by (intro exI [of _ "fill # fills"]) simp
  qed
qed

section \<open>The pages of a command's call\<close>

text \<open>The pages as lists of their entries, with the characters the last one takes_stream.\<close>

definition page_add :: "nat \<Rightarrow> page_entry \<Rightarrow> page_entry list list \<times> nat \<Rightarrow> page_entry list list \<times> nat" where
  "page_add budget entry acc =
     (case acc of (done_pages, used) \<Rightarrow>
        let cost = chars_taken (pe_lines entry)
        in if budget < used + cost \<and> 0 < used then (done_pages @ [[entry]], cost)
           else (butlast done_pages @ [last done_pages @ [entry]], used + cost))"

definition pages_of :: "nat \<Rightarrow> page_entry list \<Rightarrow> page_entry list list \<times> nat" where
  "pages_of budget es = fold (page_add budget) es ([[]], 0)"

lemma pages_of_snoc: "pages_of budget (es @ [e]) = page_add budget e (pages_of budget es)"
  by (simp add: pages_of_def)

lemma pages_of_cover: "fst (pages_of budget es) \<noteq> [] \<and> concat (fst (pages_of budget es)) = es"
proof (induction es rule: rev_induct)
  case Nil
  show ?case by (simp add: pages_of_def)
next
  case (snoc e es)
  obtain ps used where ps: "pages_of budget es = (ps, used)" by (cases "pages_of budget es")
  with snoc have "ps \<noteq> []" "concat ps = es" by simp_all
  moreover from this have "concat (butlast ps) @ last ps = es"
    by (metis append_butlast_last_id concat.simps(1,2) concat_append append_Nil2)
  ultimately show ?case by (simp add: pages_of_snoc page_add_def ps Let_def)
qed

definition entries_taken :: "page_entry list \<Rightarrow> nat" where
  "entries_taken es = sum_list (map (\<lambda>e. chars_taken (pe_lines e)) es)"

lemma pages_of_fit:
  "\<forall>e\<in>set es. chars_taken (pe_lines e) \<le> budget \<Longrightarrow>
   entries_taken (last (fst (pages_of budget es))) = snd (pages_of budget es)
   \<and> (\<forall>p\<in>set (fst (pages_of budget es)). entries_taken p \<le> budget)"
proof (induction es rule: rev_induct)
  case Nil
  show ?case by (simp add: pages_of_def entries_taken_def)
next
  case (snoc e es)
  obtain ps used where ps: "pages_of budget es = (ps, used)" by (cases "pages_of budget es")
  have "ps \<noteq> []" using pages_of_cover [of budget es] ps by simp
  with snoc ps show ?case
    by (auto simp: pages_of_snoc page_add_def entries_taken_def Let_def dest: in_set_butlastD)
qed

lemma paginate_state:
  "fold (paginate_step budget wanted) es \<lparr>pg_page = 1, pg_used = 0, pg_kept = []\<rparr> =
   \<lparr>pg_page = length (fst (pages_of budget es)), pg_used = snd (pages_of budget es),
    pg_kept = (if 1 \<le> wanted \<and> wanted \<le> length (fst (pages_of budget es)) then fst (pages_of budget es) ! (wanted - 1) else [])\<rparr>"
proof (induction es rule: rev_induct)
  case Nil
  show ?case by (auto simp: pages_of_def nth_Cons')
next
  case (snoc e es)
  obtain ps used where ps: "pages_of budget es = (ps, used)" by (cases "pages_of budget es")
  have some: "ps \<noteq> []" using pages_of_cover [of budget es] ps by simp
  then have len: "length (butlast ps @ [last ps @ [e]]) = length ps" by simp
  have last: "last ps = ps ! (length ps - 1)" using some by (rule last_conv_nth)
  have "fold (paginate_step budget wanted) (es @ [e]) \<lparr>pg_page = 1, pg_used = 0, pg_kept = []\<rparr> =
      paginate_step budget wanted e
        \<lparr>pg_page = length ps, pg_used = used, pg_kept = (if 1 \<le> wanted \<and> wanted \<le> length ps then ps ! (wanted - 1) else [])\<rparr>"
    using snoc by (simp add: ps)
  also have "\<dots> = \<lparr>pg_page = length (fst (pages_of budget (es @ [e]))), pg_used = snd (pages_of budget (es @ [e])),
      pg_kept = (if 1 \<le> wanted \<and> wanted \<le> length (fst (pages_of budget (es @ [e])))
        then fst (pages_of budget (es @ [e])) ! (wanted - 1) else [])\<rparr>"
  proof (cases "budget < used + chars_taken (pe_lines e) \<and> 0 < used")
    case True
    then show ?thesis
      using some by (auto simp: pages_of_snoc page_add_def paginate_step_def ps Let_def nth_append)
  next
    case False
    then have state: "pages_of budget (es @ [e]) = (butlast ps @ [last ps @ [e]], used + chars_taken (pe_lines e))"
      by (auto simp: pages_of_snoc page_add_def ps Let_def)
    have "(butlast ps @ [last ps @ [e]]) ! (wanted - 1) = (if wanted = length ps then ps ! (wanted - 1) @ [e] else ps ! (wanted - 1))"
      if "1 \<le> wanted" "wanted \<le> length ps"
      using that some last by (auto simp: nth_append nth_butlast)
    then show ?thesis
      using False some len by (auto simp: state paginate_step_def Let_def Suc_le_eq)
  qed
  finally show ?case .
qed

lemma paginate_pages:
  "snd (paginate lead rest budget wanted) = length (fst (pages_of budget (lead @ rest)))"
  "fst (paginate lead rest budget wanted) =
     (if 1 \<le> wanted \<and> wanted \<le> length (fst (pages_of budget (lead @ rest)))
      then Some (fst (pages_of budget (lead @ rest)) ! (wanted - 1)) else None)"
  unfolding paginate_def paginate_state Let_def by simp_all

section \<open>What a look shows as new\<close>

definition left_out :: "output_record \<Rightarrow> bool" where
  "left_out r = (case r of RecOutput stream data \<Rightarrow> False | RecLeftOut n \<Rightarrow> True)"

definition brings_news :: "output_record \<Rightarrow> bool" where
  "brings_news r = (case r of RecOutput stream data \<Rightarrow> data \<noteq> [] | RecLeftOut n \<Rightarrow> True)"

definition record_bytes :: "output_record \<Rightarrow> byte list" where
  "record_bytes r = (case r of RecOutput stream data \<Rightarrow> data | RecLeftOut n \<Rightarrow> [])"

lemma seen_from_grows: "seen_of s p \<le> seen_of s (seen_from rs p)"
proof (induction rs p rule: seen_from.induct)
  case (2 stream bytes rs p)
  then show ?case by (cases s; cases stream) auto
qed simp_all

lemma text_seen_before:
  assumes "\<forall>r\<in>set rs. \<not> left_out r" "tx_positions st = Some p" "tx_unseen st = None"
    "\<And>s. seen_of s (seen_from rs p) \<le> seen_of s seen"
  shows "tx_positions (fold (text_record BothStreams None seen) rs st) = Some (seen_from rs p)
    \<and> tx_unseen (fold (text_record BothStreams None seen) rs st) = None
    \<and> tx_bytes (fold (text_record BothStreams None seen) rs st) = tx_bytes st @ concat (map record_bytes rs)"
  using assms
proof (induction rs arbitrary: st p)
  case Nil
  then show ?case by simp
next
  case (Cons r rs)
  from Cons.prems(1) obtain stream data where r: "r = RecOutput stream data" by (cases r) (simp_all add: left_out_def)
  let ?st = "text_record BothStreams None seen r st" and ?p = "seen_more stream (length data) p"
  have fits: "seen_of stream p + length data \<le> seen_of stream seen"
    using Cons.prems(4) [of stream] seen_from_grows [of stream ?p rs] by (cases stream) (auto simp: r)
  have st: "tx_positions ?st = Some ?p" "tx_unseen ?st = None" "tx_bytes ?st = tx_bytes st @ data"
    using Cons.prems(2,3) fits by (simp_all add: r Let_def text_unseen_def)
  have "tx_positions (fold (text_record BothStreams None seen) rs ?st) = Some (seen_from rs ?p)
      \<and> tx_unseen (fold (text_record BothStreams None seen) rs ?st) = None
      \<and> tx_bytes (fold (text_record BothStreams None seen) rs ?st) = tx_bytes ?st @ concat (map record_bytes rs)"
    using Cons.prems(1,4) st(1,2) by (intro Cons.IH) (simp_all add: r)
  moreover have "record_bytes r = data" "seen_from (r # rs) p = seen_from rs ?p"
    by (simp_all add: r record_bytes_def)
  ultimately show ?case using st(3) by (simp del: text_record.simps)
qed

lemma text_unseen_stays:
  "tx_unseen st = Some u \<Longrightarrow> tx_unseen (fold (text_record streams binary seen) rs st) = Some u"
proof (induction rs arbitrary: st)
  case (Cons r rs)
  have "tx_unseen (text_record streams binary seen r st) = Some u"
    using Cons.prems by (cases r) (simp_all add: Let_def text_unseen_def)
  then show ?case using Cons.IH by (simp del: text_record.simps)
qed simp

lemma text_unseen_found:
  assumes "tx_positions st = Some seen" "tx_unseen st = None"
  shows "tx_unseen (fold (text_record BothStreams None seen) rs st) =
    (if \<exists>r\<in>set rs. brings_news r then Some (length (tx_bytes st)) else None)"
  using assms
proof (induction rs arbitrary: st)
  case Nil
  then show ?case by simp
next
  case (Cons r rs)
  let ?st = "text_record BothStreams None seen r st"
  show ?case
  proof (cases "brings_news r")
    case True
    then have "tx_unseen ?st = Some (length (tx_bytes st))"
      using Cons.prems by (cases r) (simp_all add: brings_news_def Let_def text_unseen_def)
    then show ?thesis using text_unseen_stays True by (simp del: text_record.simps)
  next
    case False
    then obtain stream where r: "r = RecOutput stream []" by (cases r) (auto simp: brings_news_def)
    have same: "seen_more stream 0 seen = seen" by (cases stream) simp_all
    have "tx_positions ?st = Some seen" "tx_unseen ?st = None" "tx_bytes ?st = tx_bytes st"
      using Cons.prems by (simp_all add: r Let_def text_unseen_def same)
    then show ?thesis using Cons.IH False by (simp del: text_record.simps)
  qed
qed

lemma text_bytes_both:
  "tx_bytes (fold (text_record BothStreams None seen) rs st) = tx_bytes st @ concat (map record_bytes rs)"
proof (induction rs arbitrary: st)
  case (Cons r rs)
  have "tx_bytes (text_record BothStreams None seen r st) = tx_bytes st @ record_bytes r"
    by (cases r) (simp_all add: record_bytes_def Let_def)
  then show ?case using Cons by (simp del: text_record.simps)
qed simp

lemma text_of_bytes: "ot_bytes (text_of w BothStreams None seen) = concat (map record_bytes (wo_records w))"
  by (simp add: text_of_def Let_def text_bytes_both text_start_def)

lemma look_continues:
  assumes "\<forall>r\<in>set (wo_records w). \<not> left_out r"
  shows "ot_unseen (text_of \<lparr>wo_records = wo_records w @ later, wo_missing = missing\<rparr> BothStreams None (seen_through w)) =
      (if (\<exists>r\<in>set later. brings_news r) \<or> missing \<noteq> None
       then Some (length (concat (map record_bytes (wo_records w)))) else None)"
proof -
  let ?step = "text_record BothStreams None (seen_through w)"
  let ?st = "fold ?step (wo_records w) text_start"
  have before: "tx_positions ?st = Some (seen_through w) \<and> tx_unseen ?st = None \<and> tx_bytes ?st = concat (map record_bytes (wo_records w))"
    using text_seen_before [OF assms, of text_start seen_none "seen_through w"]
    by (simp add: text_start_def seen_through_def)
  have found: "tx_unseen (fold ?step later ?st) =
      (if \<exists>r\<in>set later. brings_news r then Some (length (tx_bytes ?st)) else None)"
    using before by (intro text_unseen_found) simp_all
  have "concat (map record_bytes later) = []" if "\<not> (\<exists>r\<in>set later. brings_news r)"
  proof -
    have "\<forall>r\<in>set later. record_bytes r = []"
      using that by (auto simp: brings_news_def record_bytes_def split: output_record.splits)
    then show ?thesis by (auto simp: concat_eq_Nil_conv)
  qed
  then show ?thesis
    using before found by (auto simp: text_of_def Let_def text_bytes_both simp del: concat_eq_Nil_conv)
qed

end
