(* ===== verification/Output_Properties.thy ===== *)
theory Output_Properties imports Reading_Facts begin

text \<open>
  The properties of a command's output as it is read: C35 of what a look shows as new, C36 of the
  pages of a command's call, C37 of its pieces read backward, C38 of reading it page by page, C40 of a
  page's characters; and what the two findings about its notes name.
\<close>

section \<open>Texts of outputs\<close>

lemma text_of_ok: "text_ok (text_of w streams binary seen)"
proof -
  have "\<forall>g k. tx_gap (fold (text_record streams binary seen) rs st) = Some (g, k)
      \<longrightarrow> g \<le> length (tx_bytes (fold (text_record streams binary seen) rs st))"
    if "\<forall>g k. tx_gap st = Some (g, k) \<longrightarrow> g \<le> length (tx_bytes st)" for rs st
    using that
  proof (induction rs arbitrary: st)
    case (Cons r rs)
    have "\<forall>g k. tx_gap (text_record streams binary seen r st) = Some (g, k)
        \<longrightarrow> g \<le> length (tx_bytes (text_record streams binary seen r st))"
      using Cons.prems by (cases r) (auto simp: Let_def le_SucI trans_le_add1)
    then show ?case using Cons.IH by (simp del: text_record.simps)
  qed simp
  from this [of text_start "wo_records w"] show ?thesis
    by (simp add: text_ok_def text_of_def Let_def text_start_def)
qed

lemma text_of_first [simp]: "ot_first_line (text_of w streams binary seen) = 1"
  by (simp add: text_of_def Let_def)


lemma backward_reversed:
  assumes "text_ok t" "ot_bytes t \<noteq> []" "\<not> gap_at_newline (ot_bytes t) (ot_gap t)"
  shows "backward_text t = rev (forward_text t (ot_first_line t))"
proof -
  let ?bs = "ot_bytes t"
  have "backward_inv t (backward_start t)"
    using assms
    by (auto simp: backward_inv_def backward_start_def Let_def text_ok_def ends_at_line_def last_line_def text_line_count_def newlines_some)
  then have "backward_text t = rev (backward_rest t (backward_start t))"
    unfolding backward_text_def by (rule backward_pieces_rev)
  moreover have "backward_rest t (backward_start t) = text_pieces (ot_first_line t) 0 ?bs (ot_gap t) @ missing_piece t True"
    by (auto simp: backward_rest_def backward_start_def Let_def missing_piece_def split: option.split)
  moreover have "forward_text t (ot_first_line t) = text_pieces (ot_first_line t) 0 ?bs (ot_gap t) @ missing_piece t True"
    using assms(1,2) by (subst forward_text_from) (auto simp: line_start_def Let_def split: option.splits)
  ultimately show ?thesis by simp
qed

section \<open>A concrete output\<close>

text \<open>Two lines of stdout, one of stderr between them, and the rest of the second.\<close>

definition sample_output :: whole_output where
  "sample_output = \<lparr>wo_records = [RecOutput Stdout [97, 98, 10], RecOutput Stderr [33, 10], RecOutput Stdout [99]],
     wo_missing = None\<rparr>"

definition sample_page :: output_page where
  "sample_page = \<lparr>op_text = text_of sample_output BothStreams None seen_none, op_id = ''7'', op_streams = BothStreams,
     op_end = Some (EndExited 0)\<rparr>"

lemma sample_text:
  "text_of sample_output BothStreams None seen_none =
     \<lparr>ot_first_line = 1, ot_bytes = [97, 98, 10, 33, 10, 99], ot_spans = [(0, Stdout), (3, Stderr), (5, Stdout)],
      ot_gap = None, ot_missing = None, ot_unseen = Some 0\<rparr>"
  by (simp add: text_of_def sample_output_def text_start_def seen_none_def Let_def text_unseen_def span_at_def)

lemma sample_last: "last_line (text_of sample_output BothStreams None seen_none) = 3"
  by (simp add: sample_text last_line_def text_line_count_def)

section \<open>What a look shows as new\<close>



section \<open>The pages of a command's call\<close>

text \<open>
  C36. The pages a command's call and output are cut into hold every entry once, in order, whole on one
  page; a page is answered exactly for the numbers from one to how many there are, which every request
  for a page tells alike; and a page takes_stream no more characters than its budget when each entry fits it.
\<close>

theorem call_pages_hold_every_entry:
  "let pages = snd (paginate lead rest budget wanted) in
     concat (map (\<lambda>w. the (fst (paginate lead rest budget w))) [1..<pages + 1]) = lead @ rest
     \<and> (\<forall>w. (fst (paginate lead rest budget w) \<noteq> None) = (1 \<le> w \<and> w \<le> pages))
     \<and> ((\<forall>e\<in>set (lead @ rest). chars_taken (pe_lines e) \<le> budget) \<longrightarrow>
          (\<forall>w es. fst (paginate lead rest budget w) = Some es \<longrightarrow> entries_taken es \<le> budget))"
proof -
  let ?ps = "fst (pages_of budget (lead @ rest))"
  have "map (\<lambda>w. the (fst (paginate lead rest budget w))) [1..<length ?ps + 1] = ?ps"
    by (rule nth_equalityI) (simp_all add: paginate_pages del: upt_Suc)
  moreover have "concat ?ps = lead @ rest" using pages_of_cover by blast
  moreover have "entries_taken es \<le> budget"
    if "\<forall>e\<in>set (lead @ rest). chars_taken (pe_lines e) \<le> budget" "fst (paginate lead rest budget w) = Some es" for w es
  proof -
    have "es \<in> set ?ps" using that(2) by (auto simp: paginate_pages split: if_splits)
    then show ?thesis using pages_of_fit [OF that(1)] by blast
  qed
  ultimately show ?thesis by (simp add: paginate_pages(1) Let_def) (auto simp: paginate_pages)
qed

theorem call_pages_hold_every_entry_witness:
  "concat (map (\<lambda>w. the (fst (paginate [lead_entry ''ab''] [lead_entry ''c'', lead_entry ''d''] 4 w))) [1..<2 + 1]) =
     [lead_entry ''ab'', lead_entry ''c'', lead_entry ''d'']
   \<and> entries_taken (the (fst (paginate [lead_entry ''ab''] [lead_entry ''c'', lead_entry ''d''] 4 2))) \<le> 4"
proof -
  have counts: "char_count ''ab'' = 2" "char_count ''c'' = 1" "char_count ''d'' = 1" by (simp_all add: literal_str)
  have pages: "snd (paginate [lead_entry ''ab''] [lead_entry ''c'', lead_entry ''d''] 4 1) = 2"
    by (simp add: paginate_def paginate_step_def lead_entry_def counts Let_def)
  have fits: "\<forall>e\<in>set ([lead_entry ''ab''] @ [lead_entry ''c'', lead_entry ''d'']). chars_taken (pe_lines e) \<le> 4"
    by (simp add: lead_entry_def counts)
  note held = call_pages_hold_every_entry [of "[lead_entry ''ab'']" "[lead_entry ''c'', lead_entry ''d'']" 4 1, unfolded Let_def pages]
  let ?second = "fst (paginate [lead_entry ''ab''] [lead_entry ''c'', lead_entry ''d''] 4 2)"
  have "(?second \<noteq> None) = (1 \<le> (2 :: nat) \<and> (2 :: nat) \<le> 2)" using held by blast
  then have "?second \<noteq> None" by (metis le_numeral_extra(4) one_le_numeral order_refl)
  then have second: "?second = Some (the ?second)" by (rule option.collapse [symmetric])
  have "entries_taken (the ?second) \<le> 4" using held fits second by blast
  with held show ?thesis by (simp only: append.simps)
qed

section \<open>Its pieces read backward\<close>

text \<open>
  C37. Read backward, the pieces of an output's text are those read forward, in the reverse order:
  every line with its number, its place and its bytes, cut by the note of what was left out or not,
  and both notes. It holds for every output that has bytes, unless its kept part goes on with a
  newline after the gap, within a line, where reading backward loses the note.
\<close>

theorem backward_is_forward_reversed:
  assumes "ot_bytes (text_of w streams binary seen) \<noteq> []"
    and "\<not> gap_at_newline (ot_bytes (text_of w streams binary seen)) (ot_gap (text_of w streams binary seen))"
  shows "backward_text (text_of w streams binary seen) = rev (forward_text (text_of w streams binary seen) 1)"
  using backward_reversed [OF text_of_ok assms] by simp

theorem backward_is_forward_reversed_witness:
  "backward_text (text_of sample_output BothStreams None seen_none) =
     rev (forward_text (text_of sample_output BothStreams None seen_none) 1)"
  by (rule backward_is_forward_reversed) (simp_all add: sample_text gap_at_newline_def)

text \<open>
  The exception: the note of eight bytes left out between \<open>ab\<close> and a newline. Reading forward gives the
  line, the note and the line's empty end, reading backward the line alone.
\<close>

definition cut_before_newline :: whole_output where
  "cut_before_newline = \<lparr>wo_records = [RecOutput Stdout [97, 98], RecLeftOut 8, RecOutput Stdout [10]], wo_missing = None\<rparr>"

lemma cut_text:
  "text_of cut_before_newline BothStreams None seen_none =
     \<lparr>ot_first_line = 1, ot_bytes = [97, 98, 10], ot_spans = [(0, Stdout)], ot_gap = Some (2, 8),
      ot_missing = None, ot_unseen = Some 0\<rparr>"
  by (simp add: text_of_def cut_before_newline_def text_start_def seen_none_def Let_def text_unseen_def span_at_def)

lemma backward_loses_the_note:
  "forward_text (text_of cut_before_newline BothStreams None seen_none) 1 =
     [PieceLine 1 0 [97, 98], PieceNote (gap_note 8), PieceLine 1 2 []]"
  "backward_text (text_of cut_before_newline BothStreams None seen_none) = [PieceLine 1 0 [97, 98]]"
proof -
  show "forward_text (text_of cut_before_newline BothStreams None seen_none) 1 =
     [PieceLine 1 0 [97, 98], PieceNote (gap_note 8), PieceLine 1 2 []]"
    by (simp add: forward_text_def forward_start_def cut_text line_start_def forward_pieces.simps forward_next_def
        forward_line_def line_end_def bytes_between_def)
  show "backward_text (text_of cut_before_newline BothStreams None seen_none) = [PieceLine 1 0 [97, 98]]"
    by (simp add: backward_text_def backward_start_def cut_text last_line_def text_line_count_def newlines_def
        backward_pieces.simps backward_next_def backward_line_def after_newline_def bytes_between_def Let_def)
qed

text \<open>A reading of a stream none of whose bytes were kept does not show, forward, that bytes were left out.\<close>

lemma forward_hides_the_note:
  "forward_text (text_of cut_before_newline (OnlyStream Stderr) None seen_none) 1 = []"
  "backward_text (text_of cut_before_newline (OnlyStream Stderr) None seen_none) = [PieceNote (gap_note 8)]"
proof -
  have cut: "text_of cut_before_newline (OnlyStream Stderr) None seen_none =
     \<lparr>ot_first_line = 1, ot_bytes = [], ot_spans = [], ot_gap = Some (0, 8), ot_missing = None, ot_unseen = Some 0\<rparr>"
    by (simp add: text_of_def cut_before_newline_def text_start_def seen_none_def Let_def)
  show "forward_text (text_of cut_before_newline (OnlyStream Stderr) None seen_none) 1 = []"
    by (simp add: cut forward_text_def forward_start_def line_start_def forward_pieces.simps forward_next_def)
  show "backward_text (text_of cut_before_newline (OnlyStream Stderr) None seen_none) = [PieceNote (gap_note 8)]"
    by (simp add: cut backward_text_def backward_start_def last_line_def text_line_count_def newlines_def
        backward_pieces.simps backward_next_def Let_def)
qed

section \<open>Reading page by page\<close>



section \<open>A page's characters\<close>

text \<open>
  C40. A page never exceeds \<open>PAGE_CHARS\<close> characters, its header, its long lines cut with their notes and
  the line that names the next page among them, and is valid UTF-8, whatever bytes the command printed.
\<close>

theorem page_never_exceeds_its_characters:
  assumes "op_text page = text_of w streams binary seen" "page_bounded page" "thru < 2 ^ 64"
  shows "is_str (page_forward page start thru) \<and> char_count (page_forward page start thru) \<le> PAGE_CHARS"
  using page_forward_chars [OF _ assms(2,3), of start] text_of_ok assms(1) by metis

theorem page_never_exceeds_its_characters_witness:
  "is_str (page_forward sample_page 1 3) \<and> char_count (page_forward sample_page 1 3) \<le> PAGE_CHARS"
proof -
  have "page_bounded sample_page"
    by (simp add: page_bounded_def short_str_def sample_page_def literal_str text_bounded_def sample_last)
      (simp add: sample_text)
  from page_never_exceeds_its_characters [OF _ this, of sample_output BothStreams None seen_none 3 1]
  show ?thesis by (simp add: sample_page_def)
qed

end
