(* ===== verification/Spec2Isabelle.thy ===== *)
theory Spec2Isabelle imports Samples Wire_Properties Session_Properties Replay_Properties Change_Properties Sync_Properties Output_Properties begin

text \<open>
  Demi runs agents' conversations on a backend and on the devices of its users. This development
  models seven parts of it: what a conversation's history is, how it changes and reaches the pages
  and the store; how a session schedules the turns of an agent, and what becomes of the messages it is
  sent; what a model receives of the history, what that weighs and how it is compacted; which files calls
  changed, and the versions of a place; how a command's output is read; how the pages of a user learn
  what changed; and how the backend and a device's runner carry messages and bytes between them.

  The history. An agent's session holds its transcript as a log of blocks
  (\<open>crates/agent-transcript\<close>) over the shared block types (\<open>crates/shared-types\<close>). Each operation of
  the log changes its blocks and records in a journal the patches that tell the pages and the rows
  a save must write. The session (\<open>crates/agent-session\<close>) commits the journal after each
  synchronous change, publishes its patches, saves its rows to a store (\<open>crates/agent-store\<close>), and
  lets go of the blocks before the last compaction once they are saved. A resume, a retry, an edit, a
  Fork and a side question each cut the history at a place read off the blocks.
  \<^item> \<open>Prelude\<close>, \<open>Rust_Std\<close>: lists, finite maps and positions; bytes, UTF-8 and the parts of Rust's
    standard library the code uses. A Rust string is the list of its UTF-8 bytes.
  \<^item> \<open>Shared_Types\<close>, \<open>Kept_Messages\<close>, \<open>Blocks\<close>: the data of \<open>crates/shared-types/src\<close> with every
    field, the words a compaction keeps (\<open>kept.rs\<close>), the block and its projections (\<open>block.rs\<close>).
  \<^item> \<open>Journal\<close>: patches, versions, dirty rows and the journal (\<open>journal.rs\<close>, the lane protocol's
    \<open>transcript.rs\<close>); \<open>apply_patch\<close> is what the pages' applier does.
  \<^item> \<open>Runs\<close>: the run and the request of a block (\<open>agent-store/src/changes.rs\<close>).
  \<^item> \<open>Cut\<close>: where a history is cut (\<open>cut.rs\<close>, \<open>lib.rs\<close>).
  \<^item> \<open>Earlier\<close>: the facts kept of the blocks before the window (\<open>earlier.rs\<close>).
  \<^item> \<open>Transcript_Log\<close>: the log and all its operations (\<open>log.rs\<close>).
  \<^item> \<open>Log_Sync\<close>: the contract of a change, \<open>recorded\<close>, its interface \<open>log_operation\<close> and its
    interpretation on the operations. \<open>Log_Facts\<close>: requests and whose turn runs.
  \<^item> \<open>Persist\<close>: committing, saving, rewriting (\<open>core.rs\<close>, \<open>persist.rs\<close>) as a step relation.
  \<^item> \<open>Samples\<close>: the concrete values of the witnesses.

  The session. It runs one action at a time on one worker and queues the others; messages, steers,
  agent messages and command reports arrive meanwhile, and the user stops, edits and withdraws.
  \<^item> \<open>Inputs\<close>: the waiting input (\<open>agent-session/src/input.rs\<close>).
  \<^item> \<open>Scheduler\<close>: the session's state and every operation of \<open>agent-session/src/core.rs\<close> on its
    actions, its queue and its input; what clients and the checkpoint see of them.
  \<^item> \<open>Session_Steps\<close>: the calls of the session's interface, what the worker (\<open>worker.rs\<close>) does with the
    action it took, and the states any order of them reaches (\<open>session_reaches\<close>).
  \<^item> \<open>Session_Facts\<close>, \<open>Session_Invariant\<close>, \<open>Session_Runs\<close>: what each operation keeps, the scheduler's
    invariant over every call, and over every step of the worker.
  \<^item> \<open>Session_Properties\<close>: the properties C33, C34 and C39, of the session.

  The requests. What the model receives is read off the blocks from the last compaction on, with the
  media the session holds for them; what it weighs tells when the session compacts.
  \<^item> \<open>Media\<close>: which media a model and its vendor take (\<open>shared-types/src/media.rs\<close>,
    \<open>provider-common/src/contract.rs\<close>), what a session holds for the blobs its blocks name and the
    model's view of the blocks (\<open>agent-store/src/media.rs\<close>).
  \<^item> \<open>Replay\<close>: the items of each block and of a transcript (\<open>replay.rs\<close>, \<open>reports.rs\<close>).
    \<open>Replay_Facts\<close>: cut texts, views, what a block's items depend on. \<open>Requests\<close>: a request
    extends the one before it, the ranges of its blocks, calls and results.
  \<^item> \<open>Estimate\<close>: what a block and a request weigh (\<open>estimate.rs\<close>), the thresholds of
    \<open>agent-session/src/compaction.rs\<close> and the rows of the context card (\<open>breakdown.rs\<close>).
    \<open>Estimate_Facts\<close>: an estimate reads only the media of the blocks it weighs.
  \<^item> \<open>Compaction\<close>: a pass: its window, the messages it keeps, how it asks again, what it writes
    (\<open>compaction.rs\<close> of \<open>agent-transcript\<close> and \<open>agent-session\<close>). \<open>Compaction_Facts\<close>: the blocks it
    leaves and their replay. \<open>Window_Facts\<close>: where it cuts.
  \<^item> \<open>Replay_Properties\<close>: the properties C10, C16, C18, C22, C24 and C32, of requests.

  The lists of changes. Each call that changed files keeps the lists of its run's and its request's
  files, made of the calls before it; and a place of a history has versions, one of which stands.
  \<^item> \<open>Changes\<close>: the files followed across calls, removals and renames, the lists of a call, listing
    a stored transcript again (\<open>agent-store/src/changes.rs\<close>), the counts of lines
    (\<open>command-protocol\<close>) and what a session reads to list a request that began before its window
    (\<open>agent-session/src/turn.rs\<close>). \<open>Change_Facts\<close>, \<open>Track_Facts\<close>, \<open>List_Facts\<close>: what a plan reads,
    when it does not panic, what the lists hold.
  \<^item> \<open>Sibling_Versions\<close>: the rows of a place and their versions (\<open>agent-store/src/versions.rs\<close>).
  \<^item> \<open>Change_Properties\<close>: the properties C11, C15 and C29, of both.

  A command's output. The device keeps what a command printed, in the order it was read, and leaves
  bytes out in one place at most; the model and the pages read it as numbered lines.
  \<^item> \<open>Whole_Output\<close>: the records, the text a reading takes of them, its lines, and the readers that
    give its pieces forward and backward (\<open>crates/device-interface/src/output.rs\<close>).
    \<open>Output_Facts\<close>: both readers compute one recursion over the bytes.
  \<^item> \<open>Output_Pages\<close>: a page of \<open>demi shell output\<close> and the pages of a call in the history
    (\<open>agent-server/src/server/shell_output.rs\<close>). \<open>Page_Facts\<close>: the characters of a page.
    \<open>Reading_Facts\<close>: reading on page by page, the pages of a call, what a look shows as new.
  \<^item> \<open>Output_Properties\<close>: the properties C35 to C38 and C40, of outputs.

  What pages follow. A change of what a user's pages show is committed and then marked, from any
  thread; a page's channel reads each marked part and sends it, then the version it is current as of.
  \<^item> \<open>Page_Sync\<close>: the registry of the channels (\<open>backend-page-sync/src/lib.rs\<close>): the parts and their
    order, a user's log of changes, the marks of each channel.
  \<^item> \<open>Sync_Channel\<close>: a page's channel (\<open>backend-user-shard/src/sync/channel.rs\<close>), with \<open>read_part\<close> of
    \<open>sync/state.rs\<close>: what the page follows, and the loop that takes marks, reads and sends.
  \<^item> \<open>Sync_Steps\<close>: both with the page and what changes under them, as a step relation: commits and
    marks at any time, messages received, connections lost with what was on its way, opened again.
    A page is taken to follow only what it holds, to ask for the state anew only while none of it is
    on its way, and to follow nothing before its account's password is chosen, as the web app does.
  \<^item> \<open>Sync_Facts\<close>, \<open>Sync_Invariant\<close>, \<open>Sync_Served\<close>: the invariant and that every step keeps it.
  \<^item> \<open>Sync_Properties\<close>: the properties C13 and C26.

  The wire. A runner keeps one link to the backend across its connections; pipes carry the bytes of
  a job, live views their pictures, and lanes the messages of a page over one WebSocket.
  \<^item> \<open>Wire_Session\<close>: one end of a link's session (\<open>runner-protocol/src/wire/session.rs\<close>): messages
    numbered, kept until confirmed, written again. \<open>Link\<close>: both ends with what is on its way
    between them, as a step relation, its invariant, and that everything can be delivered.
  \<^item> \<open>Handshake\<close>: which session a new connection carries on (\<open>runner/src/connection/link_state.rs\<close>,
    \<open>runner-client/src/session.rs\<close>), with restarts of either side, over the steps of \<open>Link\<close>.
  \<^item> \<open>Framing\<close>: the interface \<open>stream_decoder\<close> of a decoder of a stream and its owner's loop, proved
    about once. \<open>Pipe_Frames\<close> (\<open>wire/pipe_frames.rs\<close>) and \<open>Live_Frames\<close> (\<open>live-view-protocol\<close>,
    \<open>live-view/src/frames.rs\<close>) interpret it. \<open>Lanes\<close>: \<open>shared-lanes/src/lib.rs\<close>.
  \<^item> \<open>Wire_Properties\<close>: C19 to C21, C23, C25, C27, C28, C30 and C31, of the wire. This theory holds
    C1 to C9, C12, C14 and C17, of the history.

  Identities and times the code draws are arguments of the operations. A panic is \<open>None\<close>. Positions
  and counts are natural numbers: no transcript reaches \<open>2 ^ 32\<close> blocks (\<open>patch_index\<close> would
  panic), token products stay far below \<open>2 ^ 64\<close>, and a link's step writes a message only while the
  count fits the 64 bits it travels in. The loops of the decoders have fuel, a call for each byte and
  one more, which C27 shows is enough.

  Not modelled: the parsing of a reply's Markdown (a parameter) and MessagePack (a parameter with the
  law that it unpacks what it packed), the SQL of the store (its contract, \<open>store_save\<close>, is
  modelled), the provider calls and tools of a session's actions (in the schedule what they and a
  compaction pass write is any change of the transcript, \<open>OpTranscript\<close>), the summary a pass asks a
  copy of the session for (a parameter), JSON (parameters, \<open>json_codec\<close>), the diff of two texts and whether a path lies in a
  folder (parameters), and the asynchronous work around the wire: sockets,
  timers, tasks and processes. Of a command's output, how the device keeps and sends it and what a
  shell result shows of it are not modelled, nor are the jobs a device's link carries on.
\<close>

section \<open>Saving a session\<close>

text \<open>
  C1. A session that changes its transcript, saves, fails to save, rewrites its history and reads
  earlier blocks back, in any order, never loses a row: whenever no save is due and none is in
  flight, the store's path is what the session let go of followed by the blocks it holds.
\<close>

theorem settled_store_holds_the_path:
  assumes "reaches named (session_start epoch stored start e) s" "start \<le> length stored"
    and "ss_flight s = None" "\<not> pm_dirty (co_persist (ss_core s))"
  shows "ss_stored s = take (lg_start (co_log (ss_core s))) (ss_stored s) @ lg_blocks (co_log (ss_core s))"
  using settled_stored reaches_ok [OF assms(1,2)] assms(3,4) by blast

theorem settled_store_holds_the_path_witness:
  "\<exists>s. reaches no_pictures sample_start s
     \<and> ss_stored s = [sample_user, sample_text ''hi there'' 3]
     \<and> ss_stored s = take (lg_start (co_log (ss_core s))) (ss_stored s) @ lg_blocks (co_log (ss_core s))"
proof -
  obtain s where s: "reaches no_pictures sample_start s" "ss_flight s = None"
    "\<not> pm_dirty (co_persist (ss_core s))" "ss_stored s = [sample_user, sample_text ''hi there'' 3]"
    using sample_saved by blast
  from settled_store_holds_the_path [OF s(1) [unfolded sample_start_def] _ s(2,3)]
  show ?thesis using s by auto
qed

text \<open>
  C2. Whoever follows a session's published batches from the history it was restored from holds, at
  every moment, the session's path: the blocks the store keeps before the session's window and
  then the window, whatever was saved, failed, rewritten, released or read back meanwhile.
\<close>

theorem pages_hold_the_path:
  assumes "reaches named (session_start epoch stored start e) s" "start \<le> length stored"
  shows "page_blocks stored (ss_core s)
    = take (lg_start (co_log (ss_core s))) (ss_stored s) @ lg_blocks (co_log (ss_core s))"
  using reaches_pages [OF assms] by (simp add: pages_ok_def)

theorem pages_hold_the_path_witness:
  "page_blocks [] (ss_core sample_changed) = [sample_user, sample_text ''hi there'' 3]"
  using pages_hold_the_path [of no_pictures "''e''" "[]" 0 no_earlier sample_changed] sample_changed_facts
  by (simp add: sample_start_def)

text \<open>
  C3. Preparing a save in any state a session reaches with its save order free never panics. It
  answers that nothing is due exactly when nothing is marked, changing nothing; otherwise it hands
  over the marked rows, leaves none marked, and a store that takes the update by the contract of
  \<open>CheckpointUpdate\<close> then holds the session's path.
\<close>

theorem save_writes_the_path:
  assumes "reaches named (session_start epoch stored start e) s" "start \<le> length stored"
    and "ss_flight s = None"
  shows "case prepare_checkpoint st (ss_core s) of
      None \<Rightarrow> False
    | Some (None, c) \<Rightarrow> c = ss_core s \<and> \<not> pm_dirty (co_persist (ss_core s))
    | Some (Some (u, rows), c) \<Rightarrow>
        pm_dirty (co_persist (ss_core s)) \<and> rows = pm_rows (co_persist (ss_core s))
        \<and> c = (ss_core s)\<lparr>co_persist := \<lparr>pm_dirty = False, pm_rows = no_rows, pm_recorded = cs_phase st\<rparr>\<rparr>
        \<and> store_save (ss_stored s) u
            = Some (take (lg_start (co_log (ss_core s))) (ss_stored s) @ lg_blocks (co_log (ss_core s)))"
proof -
  have "core_ok (ss_core s)" "core_tracked (ss_stored s) (ss_core s) (pm_rows (co_persist (ss_core s)))"
    using reaches_ok [OF assms(1,2)] assms(3) by (simp_all add: session_ok_None)
  from prepare_ok [OF this, of st] show ?thesis by (auto split: if_splits)
qed

theorem save_writes_the_path_witness:
  "\<exists>u rows c. prepare_checkpoint sample_state (ss_core sample_changed) = Some (Some (u, rows), c)
     \<and> store_save (ss_stored sample_changed) u = Some [sample_user, sample_text ''hi there'' 3]"
  using save_writes_the_path [where named = no_pictures and epoch = "''e''" and stored = "[]" and start = 0
      and e = no_earlier and s = sample_changed and st = sample_state] sample_changed_facts
  by (auto simp: sample_start_def split: option.splits prod.splits)

text \<open>
  C4. A history rewrite (a compaction, an edit, a retry, an undo) begun in any state a session
  reaches with its save order free never panics, whatever the blocks; the store that takes its
  update holds the path before the window followed by exactly those blocks, even when rows of the
  window were never saved. Adopting it then leaves the log with those blocks.
\<close>

theorem rewrite_writes_the_path:
  assumes "reaches named (session_start epoch stored start e) s" "start \<le> length stored"
    and "ss_flight s = None"
  shows "(case rewrite_update st (ss_core s) blocks version of
       None \<Rightarrow> False
     | Some u \<Rightarrow> store_save (ss_stored s) u = Some (take (lg_start (co_log (ss_core s))) (ss_stored s) @ blocks))
   \<and> (case adopt_rewrite (ss_core s) blocks version of
       None \<Rightarrow> False
     | Some c \<Rightarrow> lg_blocks (co_log c) = blocks \<and> lg_start (co_log c) = lg_start (co_log (ss_core s))
         \<and> pm_rows (co_persist c) = no_rows)"
proof
  have "core_ok (ss_core s)" "core_tracked (ss_stored s) (ss_core s) (pm_rows (co_persist (ss_core s)))"
    using reaches_ok [OF assms(1,2)] assms(3) by (simp_all add: session_ok_None)
  from rewrite_ok [OF this, of st blocks version]
  show "case rewrite_update st (ss_core s) blocks version of
      None \<Rightarrow> False
    | Some u \<Rightarrow> store_save (ss_stored s) u = Some (take (lg_start (co_log (ss_core s))) (ss_stored s) @ blocks)"
    by auto
  show "case adopt_rewrite (ss_core s) blocks version of
      None \<Rightarrow> False
    | Some c \<Rightarrow> lg_blocks (co_log c) = blocks \<and> lg_start (co_log c) = lg_start (co_log (ss_core s))
        \<and> pm_rows (co_persist c) = no_rows"
    using replace_all_defined [of "co_log (ss_core s)" blocks version]
    by (auto simp: adopt_rewrite_def replace_all_def replace_from_def Let_def)
qed

theorem rewrite_writes_the_path_witness:
  "\<exists>u. rewrite_update sample_state (ss_core sample_changed) [sample_user] True = Some u
     \<and> store_save (ss_stored sample_changed) u = Some [sample_user]"
  using rewrite_writes_the_path [where named = no_pictures and epoch = "''e''" and stored = "[]" and start = 0
      and e = no_earlier and s = sample_changed and st = sample_state and blocks = "[sample_user]" and version = True]
    sample_changed_facts
  by (auto simp: sample_start_def split: option.splits)

section \<open>What a session publishes\<close>

text \<open>
  C5. Every operation of the log journals exactly what it changes: after any operations, whoever
  applies the batch of the next commit, each block without its vendor entries, to what was
  published before holds the blocks of the path and where each stands among the versions of its
  place; the revision moves by one when there is a batch and stays when there is none.
\<close>

theorem operations_publish_their_changes:
  assumes "run_steps (run_op named) ops l = Some l'" "journal_ok l" "synced pre pub l"
    and "take_patches l' = (batch, l'')"
  shows "(case batch of
       None \<Rightarrow> sent_placed pub
     | Some b \<Rightarrow> apply_patches (sent_placed pub) (map sent_patch (pb_patches b)))
     = sent_placed pre @ sent_placed (window l'')
   \<and> lg_revision l'' = lg_revision l + (case batch of None \<Rightarrow> 0 | Some _ \<Rightarrow> 1)"
proof
  have "sent_placed (published pub batch) = sent_placed (pre @ window l'')"
    using log_ops.steps_published [OF assms] by simp
  then show "(case batch of
       None \<Rightarrow> sent_placed pub
     | Some b \<Rightarrow> apply_patches (sent_placed pub) (map sent_patch (pb_patches b)))
     = sent_placed pre @ sent_placed (window l'')"
    by (cases batch) (simp_all add: published_def sent_applies, simp_all add: sent_placed_def)
  have "lg_revision l' = lg_revision l"
    using log_ops.steps_recorded [OF assms(1,2)] by (simp add: recorded_def)
  then show "lg_revision l'' = lg_revision l + (case batch of None \<Rightarrow> 0 | Some _ \<Rightarrow> 1)"
    using assms(4) by (cases "log_patches l' = []") (auto simp: take_patches_def journal_take_def)
qed

theorem operations_publish_their_changes_witness:
  "sent_placed (window (snd (take_patches sample_log)))
     = apply_patches [] (map sent_patch
         [PAdd 0 sample_user None, PAdd 1 (sample_text ''hi'' 2) None, PAppend 1 '' there'' 3])
   \<and> lg_revision (snd (take_patches sample_log)) = 1"
proof -
  have "take_patches sample_log = (Some \<lparr>pb_revision = lg_revision sample_log + 1,
      pb_patches = log_patches sample_log, pb_rows = log_rows sample_log\<rparr>, snd (take_patches sample_log))"
    by (simp add: take_patches_def journal_take_def sample_log_eval)
  from operations_publish_their_changes [OF sample_run sample_new_ok this]
  show ?thesis by (simp add: sample_log_eval sent_placed_def log_new_def)
qed

text \<open>
  C6. A rewrite of the whole path never panics; its batch takes whoever held the path before, with
  nothing left to commit, to exactly the new blocks and their versions. The versions of the places
  below the first block that changed stay; a rewrite that keeps the old path as a version gives the
  place of that block one version more than it had.
\<close>

theorem rewrite_publishes_the_new_path:
  assumes "synced pre pub l" "log_patches l = []"
  shows "case replace_all l blocks version of
      None \<Rightarrow> False
    | Some (batch, l') \<Rightarrow>
        apply_patches pub (pb_patches batch) = pre @ window l' \<and> lg_blocks l' = blocks
        \<and> (\<forall>i < lg_start l + common_prefix (lg_blocks l) blocks. lg_versions l' i = lg_versions l i)
        \<and> (version \<and> common_prefix (lg_blocks l) blocks < length blocks \<longrightarrow>
             versions_held l' (lg_start l + common_prefix (lg_blocks l) blocks)
               = versions_held l (lg_start l + common_prefix (lg_blocks l) blocks) + 1)"
proof -
  obtain batch l' where l': "replace_all l blocks version = Some (batch, l')"
    using replace_all_defined by blast
  let ?at = "lg_start l + common_prefix (lg_blocks l) blocks"
  have fields: "lg_blocks l' = blocks" "lg_versions l' = rewrite_versions l ?at version"
    "lg_start l' = lg_start l" "log_patches l' = []"
    using l' by (auto simp: replace_all_def replace_from_def Let_def split: if_splits)
  have "apply_patches pub (pb_patches batch) = pre @ window l'"
    using replace_all_synced [OF l' assms] fields(4) by (simp add: synced_def published_def)
  moreover have "\<forall>i < ?at. lg_versions l' i = lg_versions l i"
    by (simp add: fields rewrite_versions_below)
  moreover have "versions_held l' ?at = versions_held l ?at + 1"
    if "version" "common_prefix (lg_blocks l) blocks < length blocks"
    using that by (auto simp: versions_held_def fields rewrite_versions_def Let_def log_len_def split: option.split)
  ultimately show ?thesis using l' fields(1) by simp
qed

theorem rewrite_publishes_the_new_path_witness:
  "case replace_all (log_new ''e'' []) [sample_user] True of
      None \<Rightarrow> False
    | Some (batch, l') \<Rightarrow> apply_patches [] (pb_patches batch) = window l' \<and> lg_blocks l' = [sample_user]
        \<and> versions_held l' 0 = 1"
proof -
  have new: "lg_blocks (log_new ''e'' []) = []" "lg_start (log_new ''e'' []) = 0" "versions_held (log_new ''e'' []) 0 = 0"
    by (simp_all add: log_new_def versions_held_def log_len_def)
  have "log_patches (log_new ''e'' []) = []" by (simp add: log_new_def)
  from rewrite_publishes_the_new_path [OF sample_new_ok(2) this, where blocks = "[sample_user]" and version = True]
  show ?thesis by (auto simp: new split: option.splits)
qed

section \<open>What the log knows of its blocks\<close>






text \<open>
  What a session keeps of the blocks before its window is a function of those blocks alone:
  restored from the rows the store reads of a prefix and then folded with whatever the window lets
  go of, it is the facts of the prefix followed by those blocks.
\<close>

theorem earlier_is_the_facts_of_its_blocks:
  "fold_earlier (earlier_of (rows_of stored)) released = facts_of (stored @ released)"
  by (simp add: earlier_of_rows fold_facts)

text \<open>
  \<open>set_runs\<close> gives each block the run its path says: a step the first step after the last
  block that ends a run, every other block none; and it changes nothing else.
\<close>

theorem set_runs_gives_the_run_head:
  "map run_of_block (set_runs blocks)
     = map (\<lambda>i. if stands (set_runs blocks ! i) = Step
                then map_option id_of (run_head (take (Suc i) (set_runs blocks))) else None)
         [0..<length blocks]
   \<and> map (set_run None) (set_runs blocks) = map (set_run None) blocks"
proof
  have stored: "runs_stored (set_runs blocks)" "length (set_runs blocks) = length blocks"
    using set_runs_from_stored [of "[]" blocks] set_runs_from_length [of "[]" blocks] by (simp_all add: set_runs_def)
  show "map run_of_block (set_runs blocks)
     = map (\<lambda>i. if stands (set_runs blocks ! i) = Step
                then map_option id_of (run_head (take (Suc i) (set_runs blocks))) else None)
         [0..<length blocks]"
    using stored_run_is_head [OF stored(1)] stored(2) by (intro nth_equalityI) simp_all
  show "map (set_run None) (set_runs blocks) = map (set_run None) blocks"
    using set_runs_from_others [of "[]" blocks] by (simp add: set_runs_def)
qed

section \<open>Where a history is cut\<close>

text \<open>
  C12. A resume after an unfinished turn keeps the history up to the last block that is neither a
  leftover of the unfinished answer nor a compaction, drops only leftovers after it, keeps every
  compaction, and names the turn to run again when that block is an input that opens one; resuming
  the unwound history again finds the same point.
\<close>

theorem resume_drops_only_leftovers:
  "let p = resume_point blocks; kept = unwind blocks (rp_cut p)
   in rp_cut p \<le> length blocks
      \<and> list_all passed (drop (rp_cut p) blocks)
      \<and> kept = take (rp_cut p) blocks @ filter (\<lambda>b. \<not> is_leftover b) (drop (rp_cut p) blocks)
      \<and> resume_point kept = p
      \<and> (case resume_point_within blocks of
           None \<Rightarrow> list_all passed blocks \<and> rp_cut p = length blocks \<and> rp_rerun p = None
         | Some q \<Rightarrow> q = p \<and> \<not> passed (blocks ! (rp_cut p - 1))
             \<and> rp_rerun p = (if opens_input_turn (blocks ! (rp_cut p - 1))
                             then turn_of (blocks ! (rp_cut p - 1)) else None))"
proof -
  have point: "case resume_point_within blocks of
           None \<Rightarrow> list_all passed blocks \<and> rp_cut (resume_point blocks) = length blocks
             \<and> rp_rerun (resume_point blocks) = None
         | Some q \<Rightarrow> q = resume_point blocks \<and> \<not> passed (blocks ! (rp_cut q - 1))
             \<and> rp_rerun q = (if opens_input_turn (blocks ! (rp_cut q - 1))
                             then turn_of (blocks ! (rp_cut q - 1)) else None)"
    using resume_within_None [of blocks] resume_point_stop [of blocks]
    by (auto simp: resume_point_def list_all_iff split: option.split)
  show ?thesis
    using point unwind_keeps [OF resume_point_passed [of blocks]] resume_point_passed [of blocks]
      resume_cut_le [of blocks] resume_point_unwind [of blocks]
    by (auto simp: Let_def list_all_iff split: option.splits)
qed

text \<open>
  A retry finds the last block that starts an input turn, by the path alone, and keeps the
  blocks up to it, every agent's message after it and the steers of its turn, nothing else; it
  answers nothing exactly when no block starts an input turn.
\<close>

theorem retry_keeps_the_input:
  "case rewind blocks of
     None \<Rightarrow> list_all (\<lambda>i. \<not> starts_turn (take i blocks) (blocks ! i)) [0..<length blocks]
   | Some r \<Rightarrow>
       rposition (\<lambda>i. starts_turn (take i blocks) (blocks ! i)) [0..<length blocks] = Some (rw_input r)
       \<and> turn_of (blocks ! rw_input r) = Some (rw_turn r)
       \<and> rw_retained r = take (Suc (rw_input r)) blocks
           @ filter (kept_by_rewind (rw_turn r)) (drop (Suc (rw_input r)) blocks)"
proof (cases "rewind blocks")
  case None
  then show ?thesis using rewind_None [of blocks] by (simp add: list_all_iff)
next
  case (Some r)
  then have "rewind_scan 0 [] None blocks = Some (rw_input r)"
    by (auto simp: rewind_def split: option.splits)
  then show ?thesis using Some rewind_Some(4,5) [OF Some] by (simp add: rewind_scan_starts)
qed

text \<open>
  C14. A Fork either keeps a prefix of the history that holds the completed text it was asked at,
  holds no tool call still executing, and ends where a history may be continued (at a completed
  text, its response or a compaction), or it is refused: because the history holds no completed
  text of that id, or because a call is still executing.
\<close>

theorem fork_keeps_a_settled_prefix:
  "case fork_prefix blocks ending of
     Inr path \<Rightarrow>
       path \<noteq> [] \<and> path = take (length path) blocks
       \<and> list_ex (\<lambda>b. id_of b = fork_target ending \<and> is_completed b) path
       \<and> \<not> list_ex is_executing path
       \<and> fork_stop blocks (length path - 1)
   | Inl NotCompletedText \<Rightarrow>
       (case position (\<lambda>b. id_of b = fork_target ending) blocks of
          None \<Rightarrow> True
        | Some i \<Rightarrow> \<not> is_completed (blocks ! i))
   | Inl UnfinishedToolCalls \<Rightarrow> list_ex is_executing blocks
   | Inl _ \<Rightarrow> False"
proof (cases "fork_prefix blocks ending")
  case (Inl e)
  show ?thesis using Inl fork_prefix_Inl [OF Inl] by (cases e) auto
next
  case (Inr path)
  obtain e where e: "fork_index blocks ending = Inr e" "path = take (Suc e) blocks"
    "\<forall>b\<in>set path. \<not> is_executing b"
    using fork_prefix_Inr [OF Inr] by blast
  have stop: "e < length blocks" "fork_stop blocks e" using fork_index_stop [OF e(1)] by simp_all
  then have len: "length path = Suc e" using e(2) by simp
  have "list_ex (\<lambda>b. id_of b = fork_target ending \<and> is_completed b) path"
    using fork_prefix_target [OF e(1)] e(2) by simp
  then show ?thesis using Inr e stop len by (auto simp: list_ex_iff)
qed

text \<open>
  The end of a side question asked before a session's window is found in the window alone:
  where no call before the window executes and the window starts at a compaction, reading the whole
  history and reading the window answer the same place.
\<close>

theorem side_question_reads_the_window:
  assumes "\<forall>b\<in>set before. \<not> is_executing b" "asked < length before"
    and "held \<noteq> []" "is_compaction (hd held)"
  shows "side_end (before @ held) asked = length before + side_end held 0"
  using side_end_window [OF assms] .

theorem side_question_reads_the_window_witness:
  "side_end ([sample_user, sample_text ''hi there'' 3] @ [sample_boundary, sample_completed]) 1
     = 2 + side_end [sample_boundary, sample_completed] 0
   \<and> side_end [sample_boundary, sample_completed] 0 = 1"
  using side_question_reads_the_window [of "[sample_user, sample_text ''hi there'' 3]" 1
      "[sample_boundary, sample_completed]"]
  by (simp add: sample_user_def sample_text_def sample_boundary_def sample_completed_def side_end_def
      side_anchor_def newest_def answered_next_def get_at_def Let_def)

text \<open>
  The answer of the last ended turn is the last text that says anything among that turn's own
  blocks: those before its end back to an input of another turn. A history with no ended turn has
  none, and a turn whose inputs are not held has its end without an answer.
\<close>

theorem ended_turn_answers_from_its_own_blocks:
  "ended_turn_answer blocks =
     (case rposition ends_turn blocks of
        None \<Rightarrow> None
      | Some at \<Rightarrow>
          (let span = turn_span None (rev (take at blocks))
           in Some (blocks ! at,
                if list_all (\<lambda>b. turn_of b = None) span then None else find_map said span)))
   \<and> map_option fst (ended_turn_answer blocks) = ended_turn blocks"
  unfolding list_all_iff using ended_turn_answer_span [of blocks] ended_turn_answer_end [of blocks] by blast

section \<open>What a compaction keeps, and what a save must write\<close>

text \<open>
  C17. The words a compaction keeps fit the budget; they are the newest messages in their order, all
  whole but the oldest, which may be the start of a message cut where a character ends, and no
  whole message more would have fitted.
\<close>

theorem kept_words_are_the_newest_that_fit:
  "kept_cost (choose_kept messages budget) \<le> budget
   \<and> (\<exists>older whole short. messages = older @ whole \<and> choose_kept messages budget = short @ whole
        \<and> (if older = [] then short = []
           else budget < text_tokens (model_text (last older)) + kept_cost whole
                \<and> (short = [] \<or> (\<exists>m. short = [m] \<and> cut_of m (last older)))))"
proof -
  obtain whole older rest where c: "rev messages = whole @ older"
    "choose_loop [] budget (rev messages) = whole @ rest"
    "rest = [] \<or> (\<exists>short m later. rest = [short] \<and> older = m # later \<and> cut_of short m
       \<and> budget < kept_cost whole + text_tokens (model_text m))"
    using choose_loop_shape [of "rev messages" "[]" budget] by auto
  have most: "budget < kept_cost whole + text_tokens (model_text m)" if "older = m # later" for m later
  proof (cases "rest = []")
    case True
    then show ?thesis using choose_loop_maximal [of "[]" budget "rev messages" whole m later] c that by simp
  qed (use c(3) that in auto)
  have "messages = rev older @ rev whole" using c(1) by (metis rev_append rev_rev_ident)
  moreover have "choose_kept messages budget = rev rest @ rev whole" by (simp add: choose_kept_def c(2))
  moreover have "if rev older = [] then rev rest = []
      else budget < text_tokens (model_text (last (rev older))) + kept_cost (rev whole)
           \<and> (rev rest = [] \<or> (\<exists>m. rev rest = [m] \<and> cut_of m (last (rev older))))"
  proof (cases older)
    case Nil
    then show ?thesis using c(3) by simp
  next
    case (Cons m later)
    then show ?thesis using c(3) most [OF Cons] by auto
  qed
  moreover have "kept_cost (choose_kept messages budget) \<le> budget"
    using choose_loop_cost [of "[]" budget "rev messages"] by (simp add: choose_kept_def)
  ultimately show ?thesis by blast
qed

text \<open>
  The rows two commits leave to write are exactly the rows either leaves, listed once each and
  in order; the lowest of them is the least of the two lowest.
\<close>

theorem merged_rows_are_the_union:
  assumes "rows_ok d" "rows_ok other"
  shows "dirty_indices (merge_rows d other) len = filter (\<lambda>i. dirty d i \<or> dirty other i) [0..<len]
    \<and> lowest_row (merge_rows d other) =
       (case (lowest_row d, lowest_row other) of
          (None, low) \<Rightarrow> low
        | (low, None) \<Rightarrow> low
        | (Some i, Some j) \<Rightarrow> Some (min i j))"
  using merged_indices [OF assms] merged_lowest [OF assms] by simp

theorem merged_rows_are_the_union_witness:
  "dirty_indices (merge_rows (change_row no_rows 1) (move_from (change_row no_rows 4) 6)) 8 = [1, 4, 6, 7]"
  using merged_rows_are_the_union [of "change_row no_rows 1" "move_from (change_row no_rows 4) 6" 8]
  by (simp add: upt_rec)

end
